(* ===== verification/Co_Prelude.thy ===== *)
theory Co_Prelude
  imports Main "HOL-Library.Word"
begin

unbundle bit_operations_syntax

text \<open>
  What every component of the development shares: the C integer types of the only target of
  coLinux (i386, so \<open>int\<close> and \<open>long\<close> have 32 bits), the model of a C array that
  an operation may run out of, and the collections of lemmas the component proofs use.

  An access outside an object is undefined behaviour in C. It is the value \<^term>\<open>None\<close>
  of the \<^typ>\<open>'a option\<close> type in this development: a function of type
  \<^typ>\<open>'a list option\<close> returns \<^term>\<open>None\<close> exactly when the code
  would have read or written outside the modelled object.
\<close>

type_synonym uchar = "8 word"
type_synonym ushort = "16 word"
type_synonym ulong = "32 word"
type_synonym ulonglong = "64 word"

named_theorems cmem_simps \<open>closed forms of array writes that stay inside their object\<close>
named_theorems length_simps \<open>operations that keep the length of an array\<close>
named_theorems inv_intros \<open>operations that keep the invariant of their component\<close>

section \<open>C arrays\<close>

text \<open>\<open>*p++ = v\<close> executed \<open>n\<close> times, as the fill loops of the code do.\<close>

fun fill_loop :: "'a list \<Rightarrow> nat \<Rightarrow> 'a \<Rightarrow> nat \<Rightarrow> 'a list option" where
  "fill_loop xs d v 0 = Some xs"
| "fill_loop xs d v (Suc n) =
     (if d < length xs then fill_loop (xs[d := v]) (Suc d) v n else None)"

text \<open>\<open>*dest++ = *src++\<close> executed \<open>n\<close> times between two objects.\<close>

fun copy_loop :: "'a list \<Rightarrow> nat \<Rightarrow> 'a list \<Rightarrow> nat \<Rightarrow> nat \<Rightarrow> 'a list option" where
  "copy_loop xs d src s 0 = Some xs"
| "copy_loop xs d src s (Suc n) =
     (if d < length xs \<and> s < length src
      then copy_loop (xs[d := src ! s]) (Suc d) src (Suc s) n else None)"

text \<open>\<open>memmove\<close> of \<open>n\<close> elements inside one object: the source is read before the
  destination is written. A move of no element touches nothing.\<close>

definition memmove :: "'a list \<Rightarrow> nat \<Rightarrow> nat \<Rightarrow> nat \<Rightarrow> 'a list option" where
  "memmove xs d s n =
     (if n = 0 then Some xs
      else if d + n \<le> length xs \<and> s + n \<le> length xs
      then Some (take d xs @ take n (drop s xs) @ drop (d + n) xs)
      else None)"

text \<open>One element written at an index that may be negative or too large.\<close>

definition store_at :: "'a list \<Rightarrow> int \<Rightarrow> 'a \<Rightarrow> 'a list option" where
  "store_at xs i v = (if 0 \<le> i \<and> i < int (length xs) then Some (xs[nat i := v]) else None)"

lemma fill_loop_None:
  "length xs < d + n \<Longrightarrow> 0 < n \<Longrightarrow> fill_loop xs d v n = None"
  by (induction xs d v n rule: fill_loop.induct) (auto, (metis add_0_right fill_loop.simps(1) gr0I)?)

lemma fill_loop_Some [cmem_simps]:
  "d + n \<le> length xs \<Longrightarrow>
    fill_loop xs d v n = Some (take d xs @ replicate n v @ drop (d + n) xs)"
proof (induction xs d v n rule: fill_loop.induct)
  case (1 xs d v)
  then show ?case by simp
next
  case (2 xs d v n)
  have "take (Suc d) (xs[d := v]) = take d xs @ [v]"
    using "2.prems" by (simp add: take_Suc_conv_app_nth)
  moreover have "replicate n v @ v # ys = v # replicate n v @ ys" for ys
    by (simp add: replicate_app_Cons_same)
  ultimately show ?case using 2 by simp
qed

lemma fill_loop_length [length_simps]: "fill_loop xs d v n = Some ys \<Longrightarrow> length ys = length xs"
  by (induction xs d v n rule: fill_loop.induct) (auto split: if_splits)

lemma copy_loop_Some [cmem_simps]:
  "d + n \<le> length xs \<Longrightarrow> s + n \<le> length src \<Longrightarrow>
    copy_loop xs d src s n = Some (take d xs @ take n (drop s src) @ drop (d + n) xs)"
proof (induction xs d src s n rule: copy_loop.induct)
  case (1 xs d src s)
  then show ?case by simp
next
  case (2 xs d src s n)
  have "take (Suc d) (xs[d := src ! s]) = take d xs @ [src ! s]"
    using "2.prems" by (simp add: take_Suc_conv_app_nth)
  moreover have "take (Suc n) (drop s src) = src ! s # take n (drop (Suc s) src)"
    using "2.prems" by (simp add: Cons_nth_drop_Suc [symmetric])
  ultimately show ?case using 2 by simp
qed

lemma copy_loop_length [length_simps]:
  "copy_loop xs d src s n = Some ys \<Longrightarrow> length ys = length xs"
  by (induction xs d src s n rule: copy_loop.induct) (auto split: if_splits)

lemma memmove_Some [cmem_simps]:
  "d + n \<le> length xs \<Longrightarrow> s + n \<le> length xs \<Longrightarrow>
    memmove xs d s n = Some (take d xs @ take n (drop s xs) @ drop (d + n) xs)"
  by (simp add: memmove_def)

lemma memmove_length [length_simps]: "memmove xs d s n = Some ys \<Longrightarrow> length ys = length xs"
  by (auto simp: memmove_def split: if_splits)

lemma memmove_None: "length xs < d + n \<or> length xs < s + n \<Longrightarrow> 0 < n \<Longrightarrow> memmove xs d s n = None"
  by (auto simp: memmove_def)

lemma store_at_Some [cmem_simps]:
  "0 \<le> i \<Longrightarrow> i < int (length xs) \<Longrightarrow> store_at xs i v = Some (xs[nat i := v])"
  by (simp add: store_at_def)

lemma store_at_length [length_simps]: "store_at xs i v = Some ys \<Longrightarrow> length ys = length xs"
  by (auto simp: store_at_def split: if_splits)

text \<open>The same writes, read back element by element.\<close>

lemma fill_loop_ex:
  assumes "d + n \<le> length xs"
  obtains ys where "fill_loop xs d v n = Some ys" and "length ys = length xs"
    and "\<And>i. i < length xs \<Longrightarrow> ys ! i = (if d \<le> i \<and> i < d + n then v else xs ! i)"
  using assms by (intro that [OF fill_loop_Some [OF assms]]) (auto simp: nth_append min_def)

lemma copy_loop_ex:
  assumes "d + n \<le> length xs" and "s + n \<le> length src"
  obtains ys where "copy_loop xs d src s n = Some ys" and "length ys = length xs"
    and "\<And>i. i < length xs \<Longrightarrow> ys ! i = (if d \<le> i \<and> i < d + n then src ! (s + (i - d)) else xs ! i)"
  using assms by (intro that [OF copy_loop_Some [OF assms]]) (auto simp: nth_append min.absorb2)

lemma memmove_ex:
  assumes "d + n \<le> length xs" and "s + n \<le> length xs"
  obtains ys where "memmove xs d s n = Some ys" and "length ys = length xs"
    and "\<And>i. i < length xs \<Longrightarrow> ys ! i = (if d \<le> i \<and> i < d + n then xs ! (s + (i - d)) else xs ! i)"
  using assms by (intro that [OF memmove_Some [OF assms]]) (auto simp: nth_append min.absorb2)

section \<open>Unsigned arithmetic that does not wrap\<close>

lemma unat_mult_small:
  fixes a b :: "'a::len word"
  shows "unat a * unat b < 2 ^ LENGTH('a) \<Longrightarrow> unat (a * b) = unat a * unat b"
  by (simp add: unat_word_ariths)

lemma unat_add_small:
  fixes a b :: "'a::len word"
  shows "unat a + unat b < 2 ^ LENGTH('a) \<Longrightarrow> unat (a + b) = unat a + unat b"
  by (simp add: unat_word_ariths)

lemma unat_diff_small:
  fixes a b :: "'a::len word"
  shows "unat b \<le> unat a \<Longrightarrow> unat (a - b) = unat a - unat b"
  by (simp add: unat_sub word_le_nat_alt)

section \<open>Signed readings\<close>

lemma sint_zero_iff: "sint (w :: 'a::len word) = 0 \<longleftrightarrow> w = 0"
  by (rule signed_eq_0_iff)

lemma sint_of_small:
  fixes w :: "'a::len word"
  assumes "unat w < 2 ^ (LENGTH('a) - 1)"
  shows "sint w = int (unat w)"
proof -
  from assms have "uint w < 2 ^ (LENGTH('a) - Suc 0)"
    by (metis One_nat_def of_nat_less_iff of_nat_numeral of_nat_power uint_nat)
  then have "signed_take_bit (LENGTH('a) - Suc 0) (uint w) = uint w"
    using unsigned_greater_eq [of w, where ?'a = int]
    by (intro signed_take_bit_int_eq_self) (auto intro: order_trans [of _ 0])
  then show ?thesis by (simp add: sint_uint)
qed

lemma sint_of_large:
  fixes w :: "'a::len word"
  assumes "2 ^ (LENGTH('a) - 1) \<le> unat w"
  shows "sint w < 0"
proof -
  have "unat w < 2 * 2 ^ (LENGTH('a) - 1)"
    using unsigned_less [of w, where ?'a = nat] by (simp flip: power_Suc)
  with assms have "unat w div 2 ^ (LENGTH('a) - 1) = 1"
    by (simp add: div_nat_eqI)
  then have "bit (unat w) (LENGTH('a) - 1)" by (simp add: bit_iff_odd)
  then have "bit w (LENGTH('a) - Suc 0)" by (simp add: bit_unsigned_iff)
  then show ?thesis by (simp add: bit_last_iff)
qed

lemma sint_nonneg_iff:
  fixes w :: "'a::len word"
  shows "0 \<le> sint w \<longleftrightarrow> unat w < 2 ^ (LENGTH('a) - 1)"
  by (cases "unat w < 2 ^ (LENGTH('a) - 1)")
    (use sint_of_small [of w] sint_of_large [of w] in auto)

lemma sint_pos_iff:
  fixes w :: "'a::len word"
  shows "0 < sint w \<longleftrightarrow> w \<noteq> 0 \<and> unat w < 2 ^ (LENGTH('a) - 1)"
  using sint_nonneg_iff [of w] sint_zero_iff [of w] by linarith

lemma unat_ucast_ushort [simp]: "unat (ucast (w :: ushort) :: ulong) = unat w"
  using unsigned_less [of w, where ?'a = nat]
  by (simp add: unsigned_ucast_eq take_bit_nat_eq_self_iff)

lemma ushort_less: "unat (w :: ushort) < 65536"
  using unsigned_less [of w, where ?'a = nat] by simp

lemma sint_le_ushort:
  assumes "unat (w :: ulong) < 2 ^ 31"
  shows "sint w \<le> sint (ucast (v :: ushort) :: ulong) \<longleftrightarrow> unat w \<le> unat v"
proof -
  have "sint w = int (unat w)" using assms by (intro sint_of_small) simp
  moreover have "sint (ucast v :: ulong) = int (unat v)"
    using ushort_less [of v] sint_of_small [of "ucast v :: ulong"] by simp
  ultimately show ?thesis by (simp only: of_nat_le_iff)
qed

lemma unat_drop_bit_1: "unat (drop_bit (Suc 0) (w :: 'a::len word)) = unat w div 2"
  unfolding unat_drop_bit_eq by (simp add: drop_bit_eq_div)

section \<open>Bit by bit\<close>

lemma low_bits: "(w :: 'a::len word) < 2 ^ k \<Longrightarrow> k \<le> n \<Longrightarrow> \<not> bit w n"
proof
  assume "w < 2 ^ k" "k \<le> n" "bit w n"
  then have "take_bit k w = w" by (simp add: less_mask_eq take_bit_eq_mask)
  then show False using \<open>bit w n\<close> \<open>k \<le> n\<close> by (metis bit_take_bit_iff linorder_not_le)
qed

lemma word32_eqI:
  fixes a b :: ulong
  assumes "list_all (\<lambda>n. bit a n = bit b n) [0, 1, 2, 3, 4, 5, 6, 7, 8, 9, 10, 11, 12, 13, 14, 15, 16, 17, 18, 19, 20,
    21, 22, 23, 24, 25, 26, 27, 28, 29, 30, 31]"
  shows "a = b"
proof (rule bit_word_eqI)
  fix n
  assume "n < LENGTH(32)"
  then have "n \<in> set [0..<32]" by simp
  moreover have "[0..<32] = [0, 1, 2, 3, 4, 5, 6, 7, 8, 9, 10, 11, 12, 13, 14, 15, 16, 17, 18, 19, 20,
    21, 22, 23, 24, 25, 26, 27, 28, 29, 30, 31]" by (simp add: upt_rec)
  ultimately show "bit a n = bit b n" using assms by (simp only: list_all_iff)
qed

lemma word8_eqI:
  fixes a b :: uchar
  assumes "list_all (\<lambda>n. bit a n = bit b n) [0, 1, 2, 3, 4, 5, 6, 7]"
  shows "a = b"
proof (rule bit_word_eqI)
  fix n
  assume "n < LENGTH(8)"
  then have "n \<in> set [0, 1, 2, 3, 4, 5, 6, 7]" by auto
  then show "bit a n = bit b n" using assms by (simp only: list_all_iff)
qed

section \<open>Numbers in memory\<close>

text \<open>A 32 bit number in memory.\<close>

definition le32 :: "ulong \<Rightarrow> uchar list" where
  "le32 w = [ucast w, ucast (drop_bit 8 w), ucast (drop_bit 16 w), ucast (drop_bit 24 w)]"

text \<open>Reads from a block of memory.\<close>

definition byte_at :: "uchar list \<Rightarrow> nat \<Rightarrow> uchar option" where
  "byte_at mem p = (if p < length mem then Some (mem ! p) else None)"

definition word_at :: "uchar list \<Rightarrow> nat \<Rightarrow> ulong option" where
  "word_at mem p =
     (if p + 4 \<le> length mem
      then Some (ucast (mem ! p) OR push_bit 8 (ucast (mem ! (p + 1))) OR push_bit 16 (ucast (mem ! (p + 2))) OR
             push_bit 24 (ucast (mem ! (p + 3))))
      else None)"

lemma le32_back:
  "ucast (ucast w :: uchar) OR push_bit 8 (ucast (ucast (drop_bit 8 w) :: uchar)) OR
   push_bit 16 (ucast (ucast (drop_bit 16 w) :: uchar)) OR push_bit 24 (ucast (ucast (drop_bit 24 w) :: uchar)) = (w :: ulong)"
  by (rule word32_eqI) (simp add: bit_simps)

lemma word_at_le32: "word_at (mem @ le32 w @ rest) (length mem) = Some w"
  by (simp add: word_at_def le32_def nth_append le32_back)

lemma word_at_append: "word_at xs p = Some w \<Longrightarrow> word_at (pre @ xs @ rest) (length pre + p) = Some w"
  by (auto simp: word_at_def nth_append split: if_splits)

lemma word_at_header: "word_at (le32 w @ rest) 0 = Some w"
  using word_at_le32 [of "[]" w rest] by simp

lemma length_le32 [simp]: "length (le32 w) = 4"
  by (simp add: le32_def)

end
