(* ===== verification/Ret_Code.thy ===== *)
theory Ret_Code
  imports Co_Prelude
begin

text \<open>
  The return codes of coLinux (\<open>src/colinux/common/common_base.h\<close>,
  \<open>src/colinux/common/errors.c\<close>). A \<open>co_rc_t\<close> is a \<open>long\<close> that packs
  an error code, the line and the file that produced it and a sign bit. The first half of this
  theory is that packing, bit for bit; its theorems show that \<open>CO_OK\<close> and
  \<open>CO_RC_GET_CODE\<close> see only the symbolic code. That is why the other components return the
  symbolic code, of type \<open>co_rc_value\<close> below, and not the packed word.
\<close>

section \<open>The codes\<close>

text \<open>\<open>CO_ERRORS_X_MACRO\<close>, expanded as \<open>co_rc_value_t\<close> does.\<close>

datatype co_rc_value =
    CO_RC_OK
  | CO_RC_ERROR
  | CO_RC_PAE_ENABLED
  | CO_RC_VERSION_MISMATCHED
  | CO_RC_OUT_OF_MEMORY
  | CO_RC_OUT_OF_PAGES
  | CO_RC_NOT_FOUND
  | CO_RC_CANT_OPEN_VMLINUX_FILE
  | CO_RC_CANT_STAT_VMLINUX_FILE
  | CO_RC_ERROR_READING_VMLINUX_FILE
  | CO_RC_ERROR_INSTALLING_DRIVER
  | CO_RC_ERROR_REMOVING_DRIVER
  | CO_RC_ERROR_STARTING_DRIVER
  | CO_RC_ERROR_STOPPING_DRIVER
  | CO_RC_ERROR_ACCESSING_DRIVER
  | CO_RC_TRANSFER_OFF_BOUNDS
  | CO_RC_MONITOR_NOT_LOADED
  | CO_RC_BROKEN_PIPE
  | CO_RC_TIMEOUT
  | CO_RC_ACCESS_DENIED
  | CO_RC_COMPILER_MISMATCHED
  | CO_RC_INVALID_PARAMETER
  | CO_RC_HOSTMEM_USE_LIMIT_REACHED
  | CO_RC_INSTANCE_TERMINATED

text \<open>The enumerators of \<open>co_error_value_t\<close>; \<open>CO_RC_x\<close> is \<open>-CO_RC_ERROR_x\<close>.\<close>

fun co_error_value :: "co_rc_value \<Rightarrow> nat" where
  "co_error_value CO_RC_OK = 0"
| "co_error_value CO_RC_ERROR = 1"
| "co_error_value CO_RC_PAE_ENABLED = 2"
| "co_error_value CO_RC_VERSION_MISMATCHED = 3"
| "co_error_value CO_RC_OUT_OF_MEMORY = 4"
| "co_error_value CO_RC_OUT_OF_PAGES = 5"
| "co_error_value CO_RC_NOT_FOUND = 6"
| "co_error_value CO_RC_CANT_OPEN_VMLINUX_FILE = 7"
| "co_error_value CO_RC_CANT_STAT_VMLINUX_FILE = 8"
| "co_error_value CO_RC_ERROR_READING_VMLINUX_FILE = 9"
| "co_error_value CO_RC_ERROR_INSTALLING_DRIVER = 10"
| "co_error_value CO_RC_ERROR_REMOVING_DRIVER = 11"
| "co_error_value CO_RC_ERROR_STARTING_DRIVER = 12"
| "co_error_value CO_RC_ERROR_STOPPING_DRIVER = 13"
| "co_error_value CO_RC_ERROR_ACCESSING_DRIVER = 14"
| "co_error_value CO_RC_TRANSFER_OFF_BOUNDS = 15"
| "co_error_value CO_RC_MONITOR_NOT_LOADED = 16"
| "co_error_value CO_RC_BROKEN_PIPE = 17"
| "co_error_value CO_RC_TIMEOUT = 18"
| "co_error_value CO_RC_ACCESS_DENIED = 19"
| "co_error_value CO_RC_COMPILER_MISMATCHED = 20"
| "co_error_value CO_RC_INVALID_PARAMETER = 21"
| "co_error_value CO_RC_HOSTMEM_USE_LIMIT_REACHED = 22"
| "co_error_value CO_RC_INSTANCE_TERMINATED = 23"

definition co_rc_enum :: "co_rc_value \<Rightarrow> int" where
  "co_rc_enum r = - int (co_error_value r)"

text \<open>\<open>CO_OK\<close> on a symbolic code.\<close>

definition CO_OK :: "co_rc_value \<Rightarrow> bool" where
  "CO_OK r \<longleftrightarrow> r = CO_RC_OK"

section \<open>The packed word\<close>

text \<open>\<open>CO_BITS_BUILD\<close> and \<open>CO_BITS_GET\<close>, with the offset and the count of the field.
  The shift right of \<open>CO_BITS_GET\<close> is that of a signed \<open>long\<close>.\<close>

definition CO_BITS_BUILD :: "nat \<Rightarrow> nat \<Rightarrow> ulong \<Rightarrow> ulong" where
  "CO_BITS_BUILD count offset value = push_bit offset (value AND (push_bit count 1 - 1))"

definition CO_BITS_GET :: "nat \<Rightarrow> nat \<Rightarrow> ulong \<Rightarrow> ulong" where
  "CO_BITS_GET count offset value = signed_drop_bit offset value AND (push_bit count 1 - 1)"

text \<open>\<open>CO_RC(name)\<close> in a release build, i.e. \<open>CO_RC_NEG_WRAPPER(CO_RC_name)\<close>, at line
  \<open>line\<close> of the file \<open>file_id\<close> (\<open>-1\<close> when the build defines none).\<close>

definition CO_RC_word :: "co_rc_value \<Rightarrow> ulong \<Rightarrow> ulong \<Rightarrow> ulong" where
  "CO_RC_word name line file_id =
     CO_BITS_BUILD 1 31 (if co_rc_enum name < 0 then 1 else 0) OR
     CO_BITS_BUILD 10 0 (if co_rc_enum name < 0 then word_of_int (- co_rc_enum name)
                         else word_of_int (co_rc_enum name)) OR
     CO_BITS_BUILD 11 10 line OR
     CO_BITS_BUILD 10 21 file_id OR 0"

definition CO_OK_word :: "ulong \<Rightarrow> bool" where
  "CO_OK_word rc \<longleftrightarrow> 0 \<le> sint rc"

definition CO_RC_GET_CODE :: "ulong \<Rightarrow> int" where
  "CO_RC_GET_CODE value =
     (if sint value < 0 then - sint (CO_BITS_GET 10 0 value) else sint (CO_BITS_GET 10 0 value))"

definition CO_RC_GET_LINE :: "ulong \<Rightarrow> ulong" where
  "CO_RC_GET_LINE value = CO_BITS_GET 11 10 value"

definition CO_RC_GET_FILE_ID :: "ulong \<Rightarrow> ulong" where
  "CO_RC_GET_FILE_ID value = CO_BITS_GET 10 21 value"

section \<open>What the packing keeps\<close>

lemma ones_mask: "push_bit n (1 :: ulong) - 1 = mask n"
  by (simp add: mask_eq_exp_minus_1 push_bit_eq_mult)

lemma bit_CO_BITS_BUILD:
  "bit (CO_BITS_BUILD c off v) n \<longleftrightarrow> n < 32 \<and> off \<le> n \<and> n - off < c \<and> bit v (n - off)"
  unfolding CO_BITS_BUILD_def ones_mask by (auto simp: bit_simps)

lemma CO_BITS_GET_bit:
  assumes "off + c < 32"
  shows "bit (CO_BITS_GET c off v) n \<longleftrightarrow> n < c \<and> bit v (off + n)"
  using assms unfolding CO_BITS_GET_def ones_mask
  by (auto simp: bit_simps bit_signed_drop_bit_iff)

lemma sint_neg_iff_msb: "sint (w :: ulong) < 0 \<longleftrightarrow> bit w 31"
  using bit_last_iff [of w] by simp

lemmas rc_bits = CO_RC_word_def CO_RC_GET_LINE_def CO_RC_GET_FILE_ID_def
  bit_CO_BITS_BUILD CO_BITS_GET_bit

lemma co_error_value_bound: "co_error_value r < 24"
  by (cases r) simp_all

lemma bit_CO_RC_word_31: "bit (CO_RC_word r line fid) 31 \<longleftrightarrow> r \<noteq> CO_RC_OK"
  by (cases r) (simp_all add: CO_RC_word_def bit_or_iff bit_CO_BITS_BUILD co_rc_enum_def)

lemma code_field: "CO_BITS_GET 10 0 (CO_RC_word r line fid) = word_of_nat (co_error_value r)"
proof (rule bit_word_eqI)
  fix n
  have small: "take_bit 10 (word_of_nat (co_error_value r)) = (word_of_nat (co_error_value r) :: ulong)"
    by (cases r) simp_all
  have "bit (CO_BITS_GET 10 0 (CO_RC_word r line fid)) n
      \<longleftrightarrow> n < 10 \<and> bit (word_of_nat (co_error_value r) :: ulong) n"
    by (auto simp: rc_bits bit_or_iff co_rc_enum_def)
  also have "\<dots> \<longleftrightarrow> bit (take_bit 10 (word_of_nat (co_error_value r)) :: ulong) n"
    by (simp add: bit_take_bit_iff)
  finally show "bit (CO_BITS_GET 10 0 (CO_RC_word r line fid)) n
      = bit (word_of_nat (co_error_value r) :: ulong) n"
    by (simp only: small)
qed

lemma sint_code: "sint (word_of_nat (co_error_value r) :: ulong) = int (co_error_value r)"
  by (cases r) simp_all

lemma line_field: "CO_BITS_GET 11 10 (CO_RC_word r line fid) = take_bit 11 line"
proof (rule bit_word_eqI)
  fix n
  show "bit (CO_BITS_GET 11 10 (CO_RC_word r line fid)) n = bit (take_bit 11 line) n"
    by (auto simp: rc_bits bit_or_iff bit_take_bit_iff)
qed

lemma file_field: "CO_BITS_GET 10 21 (CO_RC_word r line fid) = take_bit 10 fid"
proof (rule bit_word_eqI)
  fix n
  show "bit (CO_BITS_GET 10 21 (CO_RC_word r line fid)) n = bit (take_bit 10 fid) n"
    by (auto simp: rc_bits bit_or_iff bit_take_bit_iff)
qed

text \<open>
  C37: The word that \<open>CO_RC(name)\<close> packs is unpacked again without loss, whatever the line
  and the file that produced it: \<open>CO_OK\<close> holds of it exactly when the name is \<open>OK\<close>,
  \<open>CO_RC_GET_CODE\<close> gives the enumerator back, and the line and the file id come back
  modulo the width of their fields (11 and 10 bits). The symbolic codes that the other
  components return are therefore all that a caller of the code can see of a result.
\<close>

theorem CO_RC_roundtrip:
  "CO_OK_word (CO_RC_word r line fid) = CO_OK r \<and>
   CO_RC_GET_CODE (CO_RC_word r line fid) = co_rc_enum r \<and>
   CO_RC_GET_LINE (CO_RC_word r line fid) = take_bit 11 line \<and>
   CO_RC_GET_FILE_ID (CO_RC_word r line fid) = take_bit 10 fid"
proof (intro conjI)
  have neg: "sint (CO_RC_word r line fid) < 0 \<longleftrightarrow> r \<noteq> CO_RC_OK"
    by (simp only: sint_neg_iff_msb bit_CO_RC_word_31)
  then show "CO_OK_word (CO_RC_word r line fid) = CO_OK r"
    by (auto simp: CO_OK_word_def CO_OK_def)
  show "CO_RC_GET_CODE (CO_RC_word r line fid) = co_rc_enum r"
    by (cases "r = CO_RC_OK") (simp_all add: CO_RC_GET_CODE_def neg code_field sint_code co_rc_enum_def)
qed (simp_all add: CO_RC_GET_LINE_def CO_RC_GET_FILE_ID_def line_field file_field)

end
