(* ===== verification/Co_Libc.thy ===== *)
theory Co_Libc
  imports Co_Prelude
begin

text \<open>
  The C library functions that the coLinux kernel driver carries itself
  (\<open>src/colinux/common/libc.c\<close>) and the 64 by 32 bit division of
  \<open>src/colinux/common/common.h\<close>. A C string is a list of bytes that holds a NUL; a
  function that reads past the end of the list gives \<^term>\<open>None\<close>. The wrappers around the
  host's \<open>memset\<close>, \<open>memcpy\<close>, \<open>memmove\<close> and \<open>strstr\<close> are not modelled here:
  \<^term>\<open>memmove\<close> of the prelude stands for them where a component needs them.
\<close>

section \<open>Strings\<close>

fun co_strlen :: "uchar list \<Rightarrow> nat option" where
  "co_strlen [] = None"
| "co_strlen (c # cs) = (if c \<noteq> 0 then map_option Suc (co_strlen cs) else Some 0)"

text \<open>The difference of the characters is kept in a \<open>signed char\<close>, so it wraps.\<close>

fun internal_strcmp :: "uchar list \<Rightarrow> uchar list \<Rightarrow> int option" where
  "internal_strcmp (c # cs) (d # ct) =
     (let res = c - d
      in if res \<noteq> 0 \<or> c = 0 then Some (sint res) else internal_strcmp cs ct)"
| "internal_strcmp _ _ = None"

fun internal_strncmp :: "uchar list \<Rightarrow> uchar list \<Rightarrow> nat \<Rightarrow> int option" where
  "internal_strncmp cs ct 0 = Some 0"
| "internal_strncmp (c # cs) (d # ct) (Suc count) =
     (let res = c - d
      in if res \<noteq> 0 \<or> c = 0 then Some (sint res) else internal_strncmp cs ct count)"
| "internal_strncmp _ _ (Suc count) = None"

definition co_strcmp :: "uchar list \<Rightarrow> uchar list \<Rightarrow> int option" where
  "co_strcmp s1 s2 = internal_strcmp s1 s2"

definition co_strncmp :: "uchar list \<Rightarrow> uchar list \<Rightarrow> nat \<Rightarrow> int option" where
  "co_strncmp s1 s2 n = internal_strncmp s1 s2 n"

text \<open>The memory that holds the string \<open>s\<close> and then \<open>rest\<close>.\<close>

definition cstr :: "uchar list \<Rightarrow> uchar list \<Rightarrow> uchar list" where
  "cstr s rest = s @ 0 # rest"

lemma co_strlen_cstr: "0 \<notin> set s \<Longrightarrow> co_strlen (cstr s r) = Some (length s)"
  by (induction s) (auto simp: cstr_def)

lemma strcmp_cstr:
  "0 \<notin> set s \<Longrightarrow> 0 \<notin> set t \<Longrightarrow>
    \<exists>i. internal_strcmp (cstr s r) (cstr t q) = Some i \<and> (i = 0 \<longleftrightarrow> s = t)"
proof (induction s arbitrary: t)
  case Nil
  then show ?case by (cases t) (auto simp: cstr_def Let_def sint_zero_iff)
next
  case (Cons c s)
  then show ?case
    by (cases t) (auto simp: cstr_def Let_def sint_zero_iff)
qed

lemma strncmp_cstr:
  "0 \<notin> set s \<Longrightarrow> 0 \<notin> set t \<Longrightarrow>
    \<exists>i. internal_strncmp (cstr s r) (cstr t q) n = Some i \<and> (i = 0 \<longleftrightarrow> take n s = take n t)"
proof (induction n arbitrary: s t)
  case 0
  then show ?case by simp
next
  case (Suc n)
  then show ?case
    by (cases s; cases t) (auto simp: cstr_def Let_def sint_zero_iff)
qed

text \<open>
  The string comparison of the driver returns on every pair of C strings, and the value it
  returns is 0 exactly when the strings are equal, whatever bytes follow the terminators: the
  difference is truncated to a signed char, but a difference of two bytes that are not equal
  never truncates to 0.
\<close>

theorem co_strcmp_correct:
  assumes "0 \<notin> set s" and "0 \<notin> set t"
  shows "\<exists>i. co_strcmp (cstr s r) (cstr t q) = Some i \<and> (i = 0 \<longleftrightarrow> s = t)"
  using strcmp_cstr [OF assms] by (simp add: co_strcmp_def)

theorem co_strcmp_correct_witness:
  "\<exists>i. co_strcmp (cstr [97, 200] [7]) (cstr [97, 72] []) = Some i \<and> (i = 0 \<longleftrightarrow> [97, 200] = [97, 72 :: uchar])"
  by (rule co_strcmp_correct) simp_all

section \<open>Division of 64 bits by 32 bits\<close>

text \<open>The first loop of \<open>co_div64_32\<close> doubles the divisor until it reaches the remainder
  or its sign bit.\<close>

function div64_scale :: "ulonglong \<Rightarrow> ulonglong \<Rightarrow> ulonglong \<Rightarrow> ulonglong \<times> ulonglong" where
  "div64_scale rem b d =
     (if 0 < sint b \<and> b < rem then div64_scale rem (b + b) (d + d) else (b, d))"
  by pat_completeness auto

termination
proof (relation "measure (\<lambda>(rem, b, d). 2 ^ 63 - unat b)", goal_cases)
  case 1
  show ?case by simp
next
  case (2 rem b d)
  then have b: "b \<noteq> 0" "unat b < 2 ^ 63" by (simp_all add: sint_pos_iff)
  then have "unat (b + b) = unat b + unat b" by (intro unat_add_small) simp
  moreover have "0 < unat b" using b by (simp add: unat_gt_0)
  ultimately show ?case using b by simp
qed

declare div64_scale.simps [simp del]

text \<open>The second loop subtracts the scaled divisors, largest first: \<open>do { \<dots> } while (d)\<close>.\<close>

function div64_loop ::
  "ulonglong \<Rightarrow> ulonglong \<Rightarrow> ulonglong \<Rightarrow> ulonglong \<Rightarrow> ulonglong \<times> ulonglong" where
  "div64_loop rem b res d =
     (let (rem', res') = (if b \<le> rem then (rem - b, res + d) else (rem, res));
          b' = drop_bit 1 b;
          d' = drop_bit 1 d
      in if d' \<noteq> 0 then div64_loop rem' b' res' d' else (rem', res'))"
  by pat_completeness auto
termination
proof (relation "measure (\<lambda>(rem, b, res, d). unat d)", goal_cases)
  case 1
  show ?case by simp
next
  case (2 rem b res d p rem' res' b' d')
  then have "unat d div 2 \<noteq> 0"
    using unat_drop_bit_1 [of d] by (metis One_nat_def unat_eq_zero)
  with 2 show ?case using unat_drop_bit_1 [of d] by simp
qed

declare div64_loop.simps [simp del]

text \<open>\<open>co_div64_32\<close>: the pair is the quotient stored through the pointer and the remainder
  returned, truncated to \<open>unsigned long\<close>. Division of \<open>high\<close> by a zero base traps
  (\<^term>\<open>None\<close>).\<close>

definition co_div64_32 :: "ulonglong \<Rightarrow> ulong \<Rightarrow> (ulonglong \<times> ulong) option" where
  "co_div64_32 n base =
     (let rem = n;
          b = ucast base :: ulonglong;
          high = ucast (drop_bit 32 rem) :: ulong
      in if base \<le> high \<and> base = 0 then None
         else
           let (res, rem) =
                 (if base \<le> high
                  then let high = high div base
                       in (push_bit 32 (ucast high), rem - push_bit 32 (ucast (high * base)))
                  else (0, rem));
               (b, d) = div64_scale rem b 1;
               (rem, res) = div64_loop rem b res d
           in Some (res, ucast rem))"

lemma div64_scale_correct:
  assumes "unat b = base * 2 ^ k" and "unat d = 2 ^ k" and "0 < base"
  shows "\<exists>b' d' j. div64_scale rem b d = (b', d') \<and> unat b' = base * 2 ^ j \<and>
           unat d' = 2 ^ j \<and> unat rem < 2 * unat b'"
  using assms
proof (induction rem b d arbitrary: k rule: div64_scale.induct)
  case (1 rem b d)
  show ?case
  proof (cases "0 < sint b \<and> b < rem")
    case True
    then have small: "unat b < 2 ^ 63" by (simp add: sint_pos_iff)
    have "unat d \<le> unat b" using "1.prems" by simp
    with small have "unat (b + b) = unat b + unat b" "unat (d + d) = unat d + unat d"
      by (intro unat_add_small; simp)+
    with "1.prems" have "unat (b + b) = base * 2 ^ Suc k" "unat (d + d) = 2 ^ Suc k"
      by simp_all
    from "1.IH" [OF True this "1.prems"(3)] show ?thesis
      using True by (simp add: div64_scale.simps [of rem b d])
  next
    case False
    have "b \<noteq> 0" using "1.prems" by auto
    with False have "2 ^ 63 \<le> unat b \<or> unat rem \<le> unat b"
      by (auto simp: sint_pos_iff not_less word_le_nat_alt)
    moreover have "0 < unat b" using \<open>b \<noteq> 0\<close> by (simp add: unat_gt_0)
    moreover have "unat rem < 2 ^ 64" using unsigned_less [of rem, where ?'a = nat] by simp
    ultimately have "unat rem < 2 * unat b" by auto
    with False "1.prems" show ?thesis by (auto simp: div64_scale.simps [of rem b d])
  qed
qed

lemma le_mult_self: "0 < b \<Longrightarrow> a \<le> a * b" for a b :: nat
  by (cases b) simp_all

lemma div64_loop_correct:
  assumes "unat d = 2 ^ k" and "unat b = base * 2 ^ k" and "0 < base"
    and "unat rem < 2 * unat b" and "unat res * base + unat rem < 2 ^ 64"
  shows "\<exists>rem' res'. div64_loop rem b res d = (rem', res') \<and> unat rem' < base \<and>
           unat res' * base + unat rem' = unat res * base + unat rem"
  using assms
proof (induction k arbitrary: rem b res d)
  case 0
  then have b: "unat b = base" and d: "d = 1"
    by (simp_all add: word_unat_eq_iff)
  show ?case
  proof (cases "b \<le> rem")
    case True
    then have le: "base \<le> unat rem" by (simp add: word_le_nat_alt b)
    have "unat res + 1 \<le> (unat res + 1) * base" using "0.prems"(3) by (rule le_mult_self)
    also have "\<dots> < 2 ^ 64" using "0.prems"(5) le by (simp add: algebra_simps)
    finally have ur: "unat (res + 1) = unat res + 1" using unat_add_small [of res 1] by simp
    have um: "unat (rem - b) = unat rem - base"
      using le b by (simp add: unat_diff_small)
    have "div64_loop rem b res d = (rem - b, res + 1)"
      using True by (simp add: div64_loop.simps [of rem b res 1] d)
    moreover have "unat (rem - b) < base" using "0.prems"(4) b le by (simp add: um)
    moreover have "unat (res + 1) * base + unat (rem - b) = unat res * base + unat rem"
      using le unfolding ur um by (simp add: algebra_simps)
    ultimately show ?thesis by blast
  next
    case False
    then have "unat rem < base" by (simp add: word_le_nat_alt b)
    moreover have "div64_loop rem b res d = (rem, res)"
      using False by (simp add: div64_loop.simps [of rem b res 1] d)
    ultimately show ?thesis by simp
  qed
next
  case (Suc k)
  define b' d' where "b' = drop_bit (Suc 0) b" and "d' = drop_bit (Suc 0) d"
  have b': "unat b' = base * 2 ^ k" and d': "unat d' = 2 ^ k"
    using Suc.prems by (simp_all add: b'_def d'_def unat_drop_bit_1)
  then have "d' \<noteq> 0" by auto
  define rem' res' where "rem' = (if b \<le> rem then rem - b else rem)"
    and "res' = (if b \<le> rem then res + d else res)"
  have step: "unat rem' < 2 * unat b' \<and> unat res' * base + unat rem' = unat res * base + unat rem"
  proof (cases "b \<le> rem")
    case True
    then have le: "unat b \<le> unat rem" by (simp add: word_le_nat_alt)
    have "unat res + unat d \<le> (unat res + unat d) * base" using Suc.prems(3) by (rule le_mult_self)
    also have "\<dots> < 2 ^ 64" using Suc.prems(1,2,5) le by (simp add: algebra_simps)
    finally have "unat (res + d) = unat res + unat d" by (simp add: unat_add_small)
    moreover have "unat (rem - b) = unat rem - unat b" using le by (rule unat_diff_small)
    ultimately show ?thesis
      using True Suc.prems le b' by (simp add: rem'_def res'_def algebra_simps)
  next
    case False
    then have "unat rem < unat b" by (simp add: word_le_nat_alt)
    with False show ?thesis using Suc.prems(2) b' by (simp add: rem'_def res'_def)
  qed
  then have "\<exists>rem'' res''. div64_loop rem' b' res' d' = (rem'', res'') \<and> unat rem'' < base \<and>
      unat res'' * base + unat rem'' = unat res' * base + unat rem'"
    using Suc.prems(3,5) by (intro Suc.IH [OF d' b']) simp_all
  moreover have "div64_loop rem b res d = div64_loop rem' b' res' d'"
    using \<open>d' \<noteq> 0\<close>
    by (simp add: div64_loop.simps [of rem b res d] rem'_def res'_def b'_def d'_def)
  ultimately show ?case using step by simp
qed

lemma unat_high:
  "unat (ucast (drop_bit 32 (n :: ulonglong)) :: ulong) = unat n div 2 ^ 32"
proof -
  have "unat n div 2 ^ 32 < 2 ^ 32"
    using unsigned_less [of n, where ?'a = nat] by (simp add: less_mult_imp_div_less)
  then show ?thesis
    by (simp add: unsigned_ucast_eq unat_drop_bit_eq drop_bit_eq_div [of 32 "unat n"] take_bit_eq_mod)
qed

lemma unat_widen_shift:
  "unat (push_bit 32 (ucast (w :: ulong)) :: ulonglong) = unat w * 2 ^ 32"
proof -
  have "unat w < 2 ^ 32" using unsigned_less [of w, where ?'a = nat] by simp
  then show ?thesis
    unfolding unsigned_push_bit_eq unsigned_ucast_eq by (simp add: push_bit_eq_mult take_bit_eq_mod)
qed

lemma div64_reduce:
  fixes n :: ulonglong and base :: ulong
  defines "high \<equiv> ucast (drop_bit 32 n) :: ulong"
  assumes "base \<noteq> 0" and "base \<le> high"
  shows "unat (push_bit 32 (ucast (high div base)) :: ulonglong) * unat base
       + unat (n - push_bit 32 (ucast (high div base * base))) = unat n"
proof -
  define q where "q = unat high div unat base"
  have qb: "q * unat base \<le> unat high" by (simp add: q_def)
  have high: "unat high = unat n div 2 ^ 32" by (simp only: high_def unat_high)
  have uq: "unat (high div base) = q" by (simp add: q_def unat_div)
  have "unat high < 2 ^ 32" using unsigned_less [of high, where ?'a = nat] by simp
  then have um: "unat (high div base * base) = q * unat base"
    using qb by (subst unat_mult_small) (simp_all add: uq)
  have "q * unat base * 2 ^ 32 \<le> unat high * 2 ^ 32" using qb by simp
  also have "\<dots> \<le> unat n" by (simp add: high)
  finally have le: "q * unat base * 2 ^ 32 \<le> unat n" .
  then have "unat (n - push_bit 32 (ucast (high div base * base))) = unat n - q * unat base * 2 ^ 32"
    by (subst unat_diff_small) (simp_all only: unat_widen_shift um)
  then show ?thesis using le by (simp only: unat_widen_shift uq) (simp add: mult_ac)
qed

lemma div64_divides:
  assumes "base \<noteq> 0"
  shows "\<exists>q r. co_div64_32 n base = Some (q, r) \<and>
           unat q = unat n div unat base \<and> unat r = unat n mod unat base"
proof -
  define high :: ulong where "high = ucast (drop_bit 32 n)"
  define res :: ulonglong where
    "res = (if base \<le> high then push_bit 32 (ucast (high div base)) else 0)"
  define rem :: ulonglong where
    "rem = (if base \<le> high then n - push_bit 32 (ucast (high div base * base)) else n)"
  have B: "0 < unat base" using assms by (simp add: unat_gt_0)
  have sum: "unat res * unat base + unat rem = unat n"
    using div64_reduce [OF assms, of n] by (auto simp: res_def rem_def high_def)
  have ub: "unat (ucast base :: ulonglong) = unat base * 2 ^ 0"
    using unsigned_less [of base, where ?'a = nat]
    by (simp add: unsigned_ucast_eq take_bit_eq_mod)
  have one: "unat (1 :: ulonglong) = 2 ^ 0" by simp
  from div64_scale_correct [OF ub one B, of rem]
  obtain b d k where scale: "div64_scale rem (ucast base) 1 = (b, d)"
    and bd: "unat b = unat base * 2 ^ k" "unat d = 2 ^ k" "unat rem < 2 * unat b"
    by blast
  have "unat res * unat base + unat rem < 2 ^ 64"
    using unsigned_less [of n, where ?'a = nat] by (simp add: sum)
  then obtain rem' res' where loop: "div64_loop rem b res d = (rem', res')"
    and lt: "unat rem' < unat base" and eq: "unat res' * unat base + unat rem' = unat n"
    using div64_loop_correct [OF bd(2,1) B bd(3), of res] sum by auto
  have "co_div64_32 n base = Some (res', ucast rem')"
    using assms scale loop by (simp add: co_div64_32_def Let_def res_def rem_def high_def split: if_splits)
  moreover have "unat (ucast rem' :: ulong) = unat rem'"
    using lt unsigned_less [of base, where ?'a = nat]
    by (simp add: unsigned_ucast_eq take_bit_eq_mod)
  moreover have "unat n div unat base = unat res'" "unat n mod unat base = unat rem'"
    using lt B by (simp_all flip: eq)
  ultimately show ?thesis by simp
qed

text \<open>
  C35: For every 64-bit dividend and every non-zero 32-bit divisor, \<open>co_div64_32\<close> terminates
  and stores the quotient and returns the remainder of the unsigned division: the scaling loop
  stops before the doubled divisor wraps, and no addition to the quotient overflows.
\<close>

theorem co_div64_32_correct:
  assumes "base \<noteq> 0"
  shows "\<exists>q r. co_div64_32 n base = Some (q, r) \<and>
           unat q = unat n div unat base \<and> unat r = unat n mod unat base"
  by (rule div64_divides [OF assms])

theorem co_div64_32_correct_witness:
  "\<exists>q r. co_div64_32 12345678901234 1000 = Some (q, r) \<and>
     unat q = unat (12345678901234 :: ulonglong) div unat (1000 :: ulong) \<and>
     unat r = unat (12345678901234 :: ulonglong) mod unat (1000 :: ulong)"
  by (rule co_div64_32_correct) simp

end
