(* ===== verification/Co_List.thy ===== *)
theory Co_List
  imports Co_Prelude
begin

text \<open>
  The intrusive doubly linked lists of \<open>src/colinux/common/list.h\<close>. The heap of
  \<open>co_list_t\<close> nodes is the pair of their \<open>next\<close> and \<open>prev\<close> fields; a node, or
  the head of a list, is an address of type \<open>'a\<close>. The abstraction \<open>co_ring\<close> says that a
  head and a list of nodes form one circular list, linked the same way in both directions;
  \<open>linked_list\<close> is the contract the other components use the lists under.
\<close>

section \<open>The operations\<close>

record 'a lheap =
  nxt :: "'a \<Rightarrow> 'a"
  prv :: "'a \<Rightarrow> 'a"

definition set_next :: "'a \<Rightarrow> 'a \<Rightarrow> 'a lheap \<Rightarrow> 'a lheap" where
  "set_next p v h = h\<lparr>nxt := (nxt h)(p := v)\<rparr>"

definition set_prev :: "'a \<Rightarrow> 'a \<Rightarrow> 'a lheap \<Rightarrow> 'a lheap" where
  "set_prev p v h = h\<lparr>prv := (prv h)(p := v)\<rparr>"

definition co_list_init :: "'a \<Rightarrow> 'a lheap \<Rightarrow> 'a lheap" where
  "co_list_init list h = set_prev list list (set_next list list h)"

definition co_list_empty :: "'a \<Rightarrow> 'a lheap \<Rightarrow> bool" where
  "co_list_empty list h \<longleftrightarrow> nxt h list = list"

definition co_list_add :: "'a \<Rightarrow> 'a \<Rightarrow> 'a \<Rightarrow> 'a lheap \<Rightarrow> 'a lheap" where
  "co_list_add new prev nx h =
     (let h = set_prev nx new h;
          h = set_next new nx h;
          h = set_prev new prev h
      in set_next prev new h)"

definition co_list_add_head :: "'a \<Rightarrow> 'a \<Rightarrow> 'a lheap \<Rightarrow> 'a lheap" where
  "co_list_add_head new head h = co_list_add new head (nxt h head) h"

definition co_list_add_tail :: "'a \<Rightarrow> 'a \<Rightarrow> 'a lheap \<Rightarrow> 'a lheap" where
  "co_list_add_tail new head h = co_list_add new (prv h head) head h"

definition co_list_unlink :: "'a \<Rightarrow> 'a \<Rightarrow> 'a lheap \<Rightarrow> 'a lheap" where
  "co_list_unlink prev nx h = set_next prev nx (set_prev nx prev h)"

definition co_list_del :: "'a \<Rightarrow> 'a lheap \<Rightarrow> 'a lheap" where
  "co_list_del entry h = co_list_unlink (prv h entry) (nxt h entry) h"

text \<open>The nodes that \<open>co_list_each\<close> visits from \<open>pos\<close> on, in order; the loop of a list
  that is not circular does not end, which is \<^term>\<open>None\<close>.\<close>

partial_function (option) co_list_each :: "'a lheap \<Rightarrow> 'a \<Rightarrow> 'a \<Rightarrow> 'a list option" where
  "co_list_each h pos head =
     (if pos = head then Some []
      else Option.bind (co_list_each h (nxt h pos) head) (\<lambda>rest. Some (pos # rest)))"

section \<open>The abstraction\<close>

text \<open>From \<open>p\<close> through the nodes to \<open>e\<close>, each linked to its neighbour both ways.\<close>

fun chain :: "'a lheap \<Rightarrow> 'a \<Rightarrow> 'a list \<Rightarrow> 'a \<Rightarrow> bool" where
  "chain h p [] e = (nxt h p = e \<and> prv h e = p)"
| "chain h p (x # xs) e = (nxt h p = x \<and> prv h x = p \<and> chain h x xs e)"

definition co_ring :: "'a lheap \<Rightarrow> 'a \<Rightarrow> 'a list \<Rightarrow> bool" where
  "co_ring h head xs \<longleftrightarrow> distinct (head # xs) \<and> chain h head xs head"

lemmas link_defs = set_next_def set_prev_def co_list_add_def co_list_unlink_def Let_def

lemma chain_append [simp]:
  "chain h p (xs @ y # ys) e \<longleftrightarrow> chain h p xs y \<and> chain h y ys e"
  by (induction xs arbitrary: p) auto

lemma chain_ends: "chain h p xs e \<Longrightarrow> nxt h p = hd (xs @ [e]) \<and> prv h e = last (p # xs)"
  by (induction xs arbitrary: p) auto

lemma chain_cong:
  assumes "\<And>a. a \<in> set (p # xs) \<Longrightarrow> nxt h' a = nxt h a"
    and "\<And>a. a \<in> set (e # xs) \<Longrightarrow> prv h' a = prv h a"
  shows "chain h' p xs e = chain h p xs e"
  using assms by (induction xs arbitrary: p) auto

text \<open>The last link of a chain may be redirected, if the new end is not inside it.\<close>

lemma chain_retarget:
  assumes "chain h p xs e" and "distinct (p # xs)" and "q \<notin> set xs"
    and "\<And>a. a \<in> set (p # xs) \<Longrightarrow> nxt h' a = (if a = last (p # xs) then q else nxt h a)"
    and "prv h' q = last (p # xs)"
    and "\<And>a. a \<in> set xs \<Longrightarrow> prv h' a = prv h a"
  shows "chain h' p xs q"
  using assms
proof (induction xs arbitrary: p)
  case Nil
  then show ?case by simp
next
  case (Cons x xs)
  have "p \<noteq> last (x # xs)" using Cons.prems(2) last_in_set [of "x # xs"] by auto
  moreover have "chain h' x xs q"
    using Cons.prems by (intro Cons.IH) auto
  ultimately show ?case using Cons.prems by auto
qed

section \<open>Each operation against the abstraction\<close>

lemma co_ring_init: "co_ring (co_list_init l h) l []"
  by (simp add: co_ring_def co_list_init_def link_defs)

lemma co_ring_empty: "co_ring h l xs \<Longrightarrow> co_list_empty l h \<longleftrightarrow> xs = []"
  by (cases xs) (auto simp: co_ring_def co_list_empty_def)

lemma co_ring_next: "co_ring h l xs \<Longrightarrow> nxt h l = hd (xs @ [l])"
  by (simp add: co_ring_def chain_ends)

lemma co_ring_prev: "co_ring h l xs \<Longrightarrow> prv h l = last (l # xs)"
  by (simp add: co_ring_def chain_ends del: last.simps)

lemma nxt_co_list_add [simp]:
  "nxt (co_list_add n p q h) a = (if a = p then n else if a = n then q else nxt h a)"
  by (simp add: link_defs)

lemma prv_co_list_add [simp]:
  "prv (co_list_add n p q h) a = (if a = n then p else if a = q then n else prv h a)"
  by (simp add: link_defs)

lemma nxt_co_list_unlink [simp]:
  "nxt (co_list_unlink p q h) a = (if a = p then q else nxt h a)"
  by (simp add: link_defs)

lemma prv_co_list_unlink [simp]:
  "prv (co_list_unlink p q h) a = (if a = q then p else prv h a)"
  by (simp add: link_defs)

text \<open>The general step: a new node between two neighbours.\<close>

lemma co_ring_add:
  assumes ring: "co_ring h l (xs @ ys)" and new: "n \<notin> set (l # xs @ ys)"
  shows "co_ring (co_list_add n (last (l # xs)) (hd (ys @ [l])) h) l (xs @ n # ys)"
proof -
  define p where "p = last (l # xs)"
  define q where "q = hd (ys @ [l])"
  let ?h = "co_list_add n p q h"
  have dist: "distinct (l # xs @ ys)" using ring by (simp add: co_ring_def)
  have p: "p \<in> set (l # xs)" unfolding p_def by (rule last_in_set) simp
  have q: "q \<in> set (ys @ [l])" unfolding q_def by (rule hd_in_set) simp
  have pn: "p \<noteq> n" and qn: "q \<noteq> n" using p q new by auto
  have "chain h l xs q"
    using ring by (cases ys) (auto simp: co_ring_def q_def)
  then have "chain ?h l xs n"
    by (rule chain_retarget) (use dist new q in \<open>auto simp:  p_def\<close>)
  moreover have "chain ?h n ys l"
  proof (cases ys)
    case Nil
    then show ?thesis using pn qn by (simp add:  q_def)
  next
    case (Cons y ys')
    then have "chain h y ys' l" using ring by (simp add: co_ring_def)
    then have "chain ?h y ys' l"
      by (subst chain_cong) (use dist new p Cons in \<open>auto simp:  q_def\<close>)
    then show ?thesis using Cons pn qn by (simp add:  q_def)
  qed
  ultimately show ?thesis using dist new by (auto simp: co_ring_def p_def q_def)
qed

lemma co_ring_add_head:
  assumes "co_ring h l xs" and "n \<notin> set (l # xs)"
  shows "co_ring (co_list_add_head n l h) l (n # xs)"
  using co_ring_add [of h l "[]" xs n] assms by (simp add: co_list_add_head_def co_ring_next)

lemma co_ring_add_tail:
  assumes "co_ring h l xs" and "n \<notin> set (l # xs)"
  shows "co_ring (co_list_add_tail n l h) l (xs @ [n])"
  using co_ring_add [of h l xs "[]" n] assms
  by (simp add: co_list_add_tail_def co_ring_prev)

lemma co_ring_neighbours:
  assumes "co_ring h l (xs @ n # ys)"
  shows "prv h n = last (l # xs)" and "nxt h n = hd (ys @ [l])"
  using assms chain_ends [of h l xs n] chain_ends [of h n ys l] by (simp_all add: co_ring_def)

lemma co_ring_del:
  assumes ring: "co_ring h l (xs @ n # ys)"
  shows "co_ring (co_list_del n h) l (xs @ ys)"
proof -
  define q where "q = hd (ys @ [l])"
  let ?h = "co_list_unlink (last (l # xs)) q h"
  have dist: "distinct (l # xs @ n # ys)" using ring by (simp add: co_ring_def)
  have q: "q \<in> set (ys @ [l])" unfolding q_def by (rule hd_in_set) simp
  have p: "last (l # xs) \<in> set (l # xs)" by (rule last_in_set) simp
  have "chain h l xs n" using ring by (simp add: co_ring_def)
  then have left: "chain ?h l xs q"
    by (rule chain_retarget) (use dist q in auto)
  have "chain ?h l (xs @ ys) l"
  proof (cases ys)
    case Nil
    with left show ?thesis by (simp add: q_def)
  next
    case (Cons y ys')
    then have "chain h y ys' l" using ring by (simp add: co_ring_def)
    then have "chain ?h y ys' l"
      by (subst chain_cong) (use dist p Cons in \<open>auto simp: q_def\<close>)
    with left Cons show ?thesis by (simp add: q_def)
  qed
  then show ?thesis
    using dist co_ring_neighbours [OF ring] by (simp add: co_ring_def co_list_del_def q_def)
qed

lemma co_ring_cong:
  assumes "\<And>a. a \<in> set (l # xs) \<Longrightarrow> nxt h' a = nxt h a \<and> prv h' a = prv h a"
  shows "co_ring h' l xs = co_ring h l xs"
  unfolding co_ring_def using assms by (subst chain_cong) auto

lemma ring_ends_in: "last (l # xs) \<in> set (l # xs @ ys)" "hd (ys @ [l]) \<in> set (l # xs @ ys)"
  by (cases xs rule: rev_cases; simp) (cases ys; simp)

lemma co_ring_frame_add:
  assumes "set (l # xs @ ys) \<inter> set (m # zs) = {}"
    and "n \<notin> set (m # zs)" and "co_ring h m zs"
  shows "co_ring (co_list_add n (last (l # xs)) (hd (ys @ [l])) h) m zs"
proof -
  have "a \<noteq> last (l # xs) \<and> a \<noteq> hd (ys @ [l]) \<and> a \<noteq> n" if "a \<in> set (m # zs)" for a
    using ring_ends_in [where l = l and xs = xs and ys = ys] assms(1,2) that by (metis disjoint_iff)
  then have "co_ring (co_list_add n (last (l # xs)) (hd (ys @ [l])) h) m zs = co_ring h m zs"
    by (intro co_ring_cong) (simp only: nxt_co_list_add prv_co_list_add if_False)
  with assms(3) show ?thesis by simp
qed

lemma co_ring_frame_del:
  assumes ring: "co_ring h l (xs @ n # ys)" and "set (l # xs @ ys) \<inter> set (m # zs) = {}"
    and "co_ring h m zs"
  shows "co_ring (co_list_del n h) m zs"
proof -
  have "a \<noteq> last (l # xs) \<and> a \<noteq> hd (ys @ [l])" if "a \<in> set (m # zs)" for a
    using ring_ends_in [where l = l and xs = xs and ys = ys] assms(2) that by (metis disjoint_iff)
  then have "co_ring (co_list_del n h) m zs = co_ring h m zs"
    unfolding co_list_del_def co_ring_neighbours [OF ring]
    by (intro co_ring_cong) (simp only: nxt_co_list_unlink prv_co_list_unlink if_False)
  with assms(3) show ?thesis by simp
qed

lemma co_ring_frame_add_head:
  assumes "co_ring h l xs" and "set (l # xs) \<inter> set (m # zs) = {}"
    and "n \<notin> set (m # zs)" and "co_ring h m zs"
  shows "co_ring (co_list_add_head n l h) m zs"
  using co_ring_frame_add [of l "[]" xs m zs n h] assms
  by (simp add: co_list_add_head_def co_ring_next)

lemma co_ring_frame_add_tail:
  assumes "co_ring h l xs" and "set (l # xs) \<inter> set (m # zs) = {}"
    and "n \<notin> set (m # zs)" and "co_ring h m zs"
  shows "co_ring (co_list_add_tail n l h) m zs"
  using co_ring_frame_add [of l xs "[]" m zs n h] assms
  by (simp add: co_list_add_tail_def co_ring_prev)

lemma co_ring_frame_init:
  "l \<notin> set (m # zs) \<Longrightarrow> co_ring h m zs \<Longrightarrow> co_ring (co_list_init l h) m zs"
  by (subst co_ring_cong [of m zs _ h]) (auto simp: co_list_init_def link_defs)

section \<open>Traversal\<close>

lemma each_chain: "chain h p xs e \<Longrightarrow> e \<notin> set xs \<Longrightarrow> co_list_each h (nxt h p) e = Some xs"
proof (induction xs arbitrary: p)
  case Nil
  then show ?case by (simp add: co_list_each.simps)
next
  case (Cons x xs)
  then have "x \<noteq> e" by auto
  with Cons show ?case by (simp add: co_list_each.simps [of h x e])
qed

lemma co_list_each_ring: "co_ring h l xs \<Longrightarrow> co_list_each h (nxt h l) l = Some xs"
  by (simp add: co_ring_def each_chain)

section \<open>The contract\<close>

text \<open>
  What a component that keeps its objects on such lists relies on: \<open>ring h l xs\<close> relates the
  heap and a head to the nodes on the list, and every operation changes only the list it is
  applied to.
\<close>

locale linked_list =
  fixes ring :: "'h \<Rightarrow> 'a \<Rightarrow> 'a list \<Rightarrow> bool"
    and init :: "'a \<Rightarrow> 'h \<Rightarrow> 'h"
    and add_head :: "'a \<Rightarrow> 'a \<Rightarrow> 'h \<Rightarrow> 'h"
    and add_tail :: "'a \<Rightarrow> 'a \<Rightarrow> 'h \<Rightarrow> 'h"
    and del :: "'a \<Rightarrow> 'h \<Rightarrow> 'h"
    and tail_of :: "'h \<Rightarrow> 'a \<Rightarrow> 'a"
  assumes ring_distinct: "ring h l xs \<Longrightarrow> distinct (l # xs)"
    and ring_init: "ring (init l h) l []"
    and ring_add_head: "ring h l xs \<Longrightarrow> n \<notin> set (l # xs) \<Longrightarrow> ring (add_head n l h) l (n # xs)"
    and ring_add_tail: "ring h l xs \<Longrightarrow> n \<notin> set (l # xs) \<Longrightarrow> ring (add_tail n l h) l (xs @ [n])"
    and ring_del: "ring h l (xs @ n # ys) \<Longrightarrow> ring (del n h) l (xs @ ys)"
    and ring_tail: "ring h l xs \<Longrightarrow> tail_of h l = last (l # xs)"
    and frame_add_head: "ring h l xs \<Longrightarrow> set (l # xs) \<inter> set (m # zs) = {} \<Longrightarrow>
          n \<notin> set (m # zs) \<Longrightarrow> ring h m zs \<Longrightarrow> ring (add_head n l h) m zs"
    and frame_del: "ring h l (xs @ n # ys) \<Longrightarrow> set (l # xs @ ys) \<inter> set (m # zs) = {} \<Longrightarrow>
          ring h m zs \<Longrightarrow> ring (del n h) m zs"
begin

text \<open>Unlinking the last node, as a queue's consumer does.\<close>

lemma del_tail:
  assumes "ring h l (xs @ [n])"
  shows "tail_of h l = n" and "ring (del n h) l xs"
  using ring_tail [OF assms] ring_del [of h l xs n "[]"] assms by simp_all

text \<open>A node that moves from one list to the head of another leaves both lists in order.\<close>

lemma move_node:
  assumes a: "ring h a (xs @ n # ys)" and b: "ring h b zs"
    and disj: "set (a # xs @ n # ys) \<inter> set (b # zs) = {}"
  shows "ring (add_head n b (del n h)) a (xs @ ys) \<and> ring (add_head n b (del n h)) b (n # zs)"
proof
  have a': "ring (del n h) a (xs @ ys)" using a by (rule ring_del)
  have b': "ring (del n h) b zs" by (rule frame_del [OF a _ b]) (use disj in auto)
  have n: "n \<notin> set (a # xs @ ys)" using ring_distinct [OF a] by auto
  show "ring (add_head n b (del n h)) a (xs @ ys)"
    by (rule frame_add_head [OF b' _ n a']) (use disj in auto)
  show "ring (add_head n b (del n h)) b (n # zs)"
    using b' by (rule ring_add_head) (use disj in auto)
qed

end

interpretation ll: linked_list co_ring co_list_init co_list_add_head co_list_add_tail co_list_del prv
proof (unfold_locales, goal_cases)
  case (1 h l xs)
  then show ?case by (simp add: co_ring_def)
qed (rule co_ring_init co_ring_add_head co_ring_add_tail co_ring_del co_ring_prev
      co_ring_frame_add_head co_ring_frame_del; assumption)+

text \<open>
  Moving a node between two lists of the driver, as \<open>reparent_inode\<close> does with an inode
  (\<open>co_list_del\<close>, then \<open>co_list_add_head\<close> on another head), takes exactly that node out
  of the first list and puts it in front of the second one; both stay circular lists that are
  linked the same way in both directions, although the deleted node keeps its stale links in
  between.
\<close>

theorem co_list_move:
  assumes "co_ring h a (xs @ n # ys)" and "co_ring h b zs"
    and "set (a # xs @ n # ys) \<inter> set (b # zs) = {}"
  shows "co_ring (co_list_add_head n b (co_list_del n h)) a (xs @ ys) \<and>
         co_ring (co_list_add_head n b (co_list_del n h)) b (n # zs)"
  using assms by (rule ll.move_node)

definition demo_heap :: "nat lheap" where
  "demo_heap = co_list_add_tail 4 3 (co_list_init 3 (co_list_add_tail 2 0
     (co_list_add_tail 1 0 (co_list_init 0 \<lparr>nxt = id, prv = id\<rparr>))))"

theorem co_list_move_witness:
  "co_ring (co_list_add_head 1 3 (co_list_del 1 demo_heap)) 0 ([] @ [2]) \<and>
   co_ring (co_list_add_head 1 3 (co_list_del 1 demo_heap)) 3 [1, 4]"
proof -
  have "co_ring demo_heap 0 ([] @ 1 # [2])" and "co_ring demo_heap 3 [4]"
    by (simp_all add: co_ring_def demo_heap_def co_list_add_tail_def co_list_init_def link_defs)
  then show ?thesis by (rule co_list_move) simp
qed

text \<open>
  The list loop of the driver ends on every well-formed list and visits every node exactly
  once, in list order, and an added node is seen where it was added: first after
  \<open>co_list_add_head\<close>, last after \<open>co_list_add_tail\<close>, not at all after \<open>co_list_del\<close>.
\<close>

theorem co_list_each_order:
  assumes "co_ring h l (xs @ n # ys)" and "m \<notin> set (l # xs @ n # ys)"
  shows "co_list_each h (nxt h l) l = Some (xs @ n # ys) \<and>
         co_list_each (co_list_del n h) (nxt (co_list_del n h) l) l = Some (xs @ ys) \<and>
         co_list_each (co_list_add_head m l h) (nxt (co_list_add_head m l h) l) l = Some (m # xs @ n # ys) \<and>
         co_list_each (co_list_add_tail m l h) (nxt (co_list_add_tail m l h) l) l = Some (xs @ n # ys @ [m])"
  using co_list_each_ring [OF assms(1)] co_list_each_ring [OF co_ring_del [OF assms(1)]]
    co_list_each_ring [OF co_ring_add_head [OF assms]]
    co_list_each_ring [OF co_ring_add_tail [OF assms]]
  by simp

theorem co_list_each_order_witness:
  "co_list_each demo_heap (nxt demo_heap 0) 0 = Some ([1] @ 2 # []) \<and>
   co_list_each (co_list_del 2 demo_heap) (nxt (co_list_del 2 demo_heap) 0) 0 = Some ([1] @ []) \<and>
   co_list_each (co_list_add_head 9 0 demo_heap) (nxt (co_list_add_head 9 0 demo_heap) 0) 0
     = Some (9 # [1] @ 2 # []) \<and>
   co_list_each (co_list_add_tail 9 0 demo_heap) (nxt (co_list_add_tail 9 0 demo_heap) 0) 0
     = Some ([1] @ 2 # [] @ [9])"
  by (rule co_list_each_order)
    (simp_all add: co_ring_def demo_heap_def co_list_add_tail_def co_list_init_def link_defs)

end
