(* ===== verification/Co_Queue.thy ===== *)
theory Co_Queue
  imports Ret_Code Co_List
begin

text \<open>
  The queues of \<open>src/colinux/common/queue.c\<close>. An item is one allocated block: its list node,
  8 bytes, and behind it the data the user of the queue sees; the code converts between the two
  by adding and subtracting \<open>sizeof(co_queue_item_t)\<close>, and so does the model, on 32-bit
  addresses. The memory a queue lives in holds the list nodes, the allocated blocks with their
  sizes, and the content of each data area. The host's allocator is not part of the
  repository's logic: the block it returns (or NULL) is an argument of the operations that
  allocate.
\<close>

section \<open>Memory\<close>

record 'd qmem =
  links :: "ulong lheap"
  blocks :: "ulong \<rightharpoonup> ulong"
  content :: "ulong \<rightharpoonup> 'd"

text \<open>\<open>co_os_malloc\<close> with the host's answer, and \<open>co_os_free\<close>, which is undefined on
  an address that is not an allocated block.\<close>

definition co_os_malloc :: "ulong option \<Rightarrow> ulong \<Rightarrow> 'd qmem \<Rightarrow> 'd qmem" where
  "co_os_malloc answer bytes h =
     (case answer of None \<Rightarrow> h | Some a \<Rightarrow> h\<lparr>blocks := (blocks h)(a \<mapsto> bytes)\<rparr>)"

definition co_os_free :: "ulong \<Rightarrow> 'd qmem \<Rightarrow> 'd qmem option" where
  "co_os_free a h =
     (if blocks h a = None then None else Some (h\<lparr>blocks := (blocks h)(a := None)\<rparr>))"

section \<open>Operations\<close>

text \<open>\<open>head\<close> is the address of the list head inside the queue object; \<open>items_count\<close> is a
  \<open>long\<close> that the code only compares with 0 and moves by 1.\<close>

record co_queue =
  head :: ulong
  items_count :: ulong

definition sizeof_co_queue_item :: ulong where
  "sizeof_co_queue_item = 8"

definition co_queue_init :: "co_queue \<Rightarrow> 'd qmem \<Rightarrow> co_rc_value \<times> co_queue \<times> 'd qmem" where
  "co_queue_init q h =
     (CO_RC_OK, q\<lparr>items_count := 0\<rparr>, h\<lparr>links := co_list_init (head q) (links h)\<rparr>)"

definition co_queue_size :: "co_queue \<Rightarrow> ulong" where
  "co_queue_size q = items_count q"

definition co_queue_free :: "ulong \<Rightarrow> 'd qmem \<Rightarrow> (co_rc_value \<times> 'd qmem) option" where
  "co_queue_free ptr h =
     map_option (Pair CO_RC_OK) (co_os_free (ptr - sizeof_co_queue_item) h)"

definition co_queue_malloc :: "ulong option \<Rightarrow> ulong \<Rightarrow> 'd qmem \<Rightarrow> co_rc_value + (ulong \<times> 'd qmem)" where
  "co_queue_malloc answer bytes h =
     (case answer of
        None \<Rightarrow> Inl CO_RC_OUT_OF_MEMORY
      | Some item \<Rightarrow> Inr (item + sizeof_co_queue_item,
                       co_os_malloc answer (bytes + sizeof_co_queue_item) h))"

definition co_queue_malloc_copy ::
  "ulong option \<Rightarrow> 'd \<Rightarrow> ulong \<Rightarrow> 'd qmem \<Rightarrow> co_rc_value + (ulong \<times> 'd qmem)" where
  "co_queue_malloc_copy answer from bytes h =
     (case co_queue_malloc answer bytes h of
        Inl rc \<Rightarrow> Inl rc
      | Inr (ptr, h) \<Rightarrow> Inr (ptr, h\<lparr>content := (content h)(ptr \<mapsto> from)\<rparr>))"

definition co_queue_add_head :: "ulong \<Rightarrow> co_queue \<times> 'd qmem \<Rightarrow> co_queue \<times> 'd qmem" where
  "co_queue_add_head ptr = (\<lambda>(q, h).
     (q\<lparr>items_count := items_count q + 1\<rparr>,
      h\<lparr>links := co_list_add_head (ptr - sizeof_co_queue_item) (head q) (links h)\<rparr>))"

definition co_queue_add_tail :: "ulong \<Rightarrow> co_queue \<times> 'd qmem \<Rightarrow> co_queue \<times> 'd qmem" where
  "co_queue_add_tail ptr = (\<lambda>(q, h).
     (q\<lparr>items_count := items_count q + 1\<rparr>,
      h\<lparr>links := co_list_add_tail (ptr - sizeof_co_queue_item) (head q) (links h)\<rparr>))"

definition co_queue_get_tail :: "co_queue \<times> 'd qmem \<Rightarrow> co_rc_value + ulong" where
  "co_queue_get_tail = (\<lambda>(q, h).
     if items_count q = 0 then Inl CO_RC_ERROR
     else Inr (prv (links h) (head q) + sizeof_co_queue_item))"

definition co_queue_peek_tail :: "co_queue \<times> 'd qmem \<Rightarrow> co_rc_value + ulong" where
  "co_queue_peek_tail = (\<lambda>(q, h).
     if items_count q = 0 then Inl CO_RC_ERROR
     else Inr (prv (links h) (head q) + sizeof_co_queue_item))"

definition co_queue_get_prev :: "ulong \<Rightarrow> co_queue \<times> 'd qmem \<Rightarrow> co_rc_value + ulong" where
  "co_queue_get_prev ptr = (\<lambda>(q, h).
     let node = ptr - sizeof_co_queue_item;
         prev = prv (links h) node
     in if prev = head q then Inl CO_RC_ERROR else Inr (prev + sizeof_co_queue_item))"

definition co_queue_pop_tail ::
  "co_queue \<times> 'd qmem \<Rightarrow> co_rc_value + (ulong \<times> co_queue \<times> 'd qmem)" where
  "co_queue_pop_tail = (\<lambda>(q, h).
     if items_count q = 0 then Inl CO_RC_ERROR
     else
       let item = prv (links h) (head q)
       in Inr (item + sizeof_co_queue_item,
               q\<lparr>items_count := items_count q - 1\<rparr>,
               h\<lparr>links := co_list_del item (links h)\<rparr>))"

text \<open>The loop of \<open>co_queue_flush\<close> runs until a pop fails; \<^term>\<open>None\<close> is a free of
  something that is not allocated.\<close>

function co_queue_flush :: "co_queue \<times> 'd qmem \<Rightarrow> (co_rc_value \<times> co_queue \<times> 'd qmem) option" where
  "co_queue_flush s =
     (case co_queue_pop_tail s of
        Inl rc \<Rightarrow> Some (rc, s)
      | Inr (ptr, q, h) \<Rightarrow>
          (case co_queue_free ptr h of
             None \<Rightarrow> None
           | Some (rc, h) \<Rightarrow> co_queue_flush (q, h)))"
  by pat_completeness auto
termination
proof (relation "measure (\<lambda>(q, h). unat (items_count q))", goal_cases)
  case 1
  show ?case by simp
next
  case (2 s p ptr p2 q h p3 rc h')
  then have "items_count (fst s) \<noteq> 0" and "items_count q = items_count (fst s) - 1"
    by (auto simp: co_queue_pop_tail_def Let_def split: prod.splits if_splits)
  moreover from this have "0 < unat (items_count (fst s))" by (simp add: unat_gt_0)
  ultimately show ?case by (simp add: case_prod_unfold unat_minus_one)
qed

declare co_queue_flush.simps [simp del]

section \<open>The abstraction\<close>

text \<open>A queue that holds the data pointers \<open>ps\<close>, head first: the nodes form the ring, the
  count is exact, and every item is an allocated block of its own.\<close>

definition node_of :: "ulong \<Rightarrow> ulong" where
  "node_of ptr = ptr - sizeof_co_queue_item"

definition queue_rel :: "co_queue \<times> 'd qmem \<Rightarrow> ulong list \<Rightarrow> bool" where
  "queue_rel = (\<lambda>(q, h) ps.
     co_ring (links h) (head q) (map node_of ps) \<and> unat (items_count q) = length ps \<and>
     list_all (\<lambda>p. blocks h (node_of p) \<noteq> None) ps)"

text \<open>A data pointer that may be added: its block is allocated and not yet on the queue.\<close>

definition queueable :: "co_queue \<times> 'd qmem \<Rightarrow> ulong list \<Rightarrow> ulong \<Rightarrow> bool" where
  "queueable = (\<lambda>(q, h) ps p.
     blocks h (node_of p) \<noteq> None \<and> p \<notin> set ps \<and> node_of p \<noteq> head q)"

lemma node_of_inject [simp]: "node_of p = node_of q \<longleftrightarrow> p = q"
  by (simp add: node_of_def)

lemma node_of_image [simp]: "node_of p \<in> node_of ` A \<longleftrightarrow> p \<in> A"
  by auto

lemma node_of_back [simp]: "node_of (a + sizeof_co_queue_item) = a"
    "node_of p + sizeof_co_queue_item = p"
  by (simp_all add: node_of_def)

lemma distinct_addresses_bound: "distinct (xs :: ulong list) \<Longrightarrow> length xs \<le> 2 ^ 32"
proof -
  assume "distinct xs"
  then have "length xs = card (set xs)" by (simp add: distinct_card)
  also have "\<dots> \<le> card (UNIV :: ulong set)" by (intro card_mono) simp_all
  finally show ?thesis by (simp add: card_word)
qed

text \<open>The count cannot wrap: the nodes and the head are distinct 32-bit addresses.\<close>

lemma ring_length_bound:
  fixes l :: ulong
  assumes "co_ring h l xs"
  shows "length xs < 2 ^ 32"
  using distinct_addresses_bound [of "l # xs"] assms by (simp add: co_ring_def)

section \<open>Each operation against the abstraction\<close>

lemmas queue_defs = queue_rel_def queueable_def

lemma queue_rel_init: "co_queue_init q h = (rc, s) \<Longrightarrow> queue_rel s []"
  by (auto simp: co_queue_init_def queue_rel_def ll.ring_init)

lemma queue_rel_count_up:
  assumes "co_ring (h :: ulong lheap) l (map node_of ps)" and "length ps = Suc (unat (c :: ulong))"
  shows "unat (c + 1) = length ps"
  using ring_length_bound [OF assms(1)] assms(2) unat_add_small [of c 1] by simp

lemma queue_rel_add_head:
  assumes "queue_rel s ps" and "queueable s ps p"
  shows "queue_rel (co_queue_add_head p s) (p # ps)"
proof (cases s)
  case (Pair q h)
  have ring: "co_ring (co_list_add_head (node_of p) (head q) (links h)) (head q) (map node_of (p # ps))"
    using assms Pair ll.ring_add_head [of "links h" "head q" "map node_of ps" "node_of p"]
    by (auto simp: queue_defs)
  from queue_rel_count_up [OF this, of "items_count q"] ring assms Pair show ?thesis
    by (simp add: queue_defs co_queue_add_head_def node_of_def)
qed

lemma queue_rel_add_tail:
  assumes "queue_rel s ps" and "queueable s ps p"
  shows "queue_rel (co_queue_add_tail p s) (ps @ [p])"
proof (cases s)
  case (Pair q h)
  have ring: "co_ring (co_list_add_tail (node_of p) (head q) (links h)) (head q) (map node_of (ps @ [p]))"
    using assms Pair ll.ring_add_tail [of "links h" "head q" "map node_of ps" "node_of p"]
    by (auto simp: queue_defs)
  from queue_rel_count_up [OF this, of "items_count q"] ring assms Pair show ?thesis
    by (simp add: queue_defs co_queue_add_tail_def node_of_def)
qed

lemma queue_rel_empty_count: "queue_rel (q, h) ps \<Longrightarrow> items_count q = 0 \<longleftrightarrow> ps = []"
  by (auto simp: queue_rel_def unat_eq_zero)

lemma queue_pop_empty: "queue_rel s [] \<Longrightarrow> co_queue_pop_tail s = Inl CO_RC_ERROR"
  by (cases s) (auto simp: co_queue_pop_tail_def queue_rel_empty_count)

lemma queue_pop_some:
  assumes "queue_rel (q, h) (ps @ [p])"
  shows "co_queue_pop_tail (q, h) =
      Inr (p, q\<lparr>items_count := items_count q - 1\<rparr>, h\<lparr>links := co_list_del (node_of p) (links h)\<rparr>)"
    and "queue_rel (q\<lparr>items_count := items_count q - 1\<rparr>,
                    h\<lparr>links := co_list_del (node_of p) (links h)\<rparr>) ps"
proof -
  have ring: "co_ring (links h) (head q) (map node_of ps @ [node_of p])"
    and cnt: "unat (items_count q) = Suc (length ps)"
    using assms by (simp_all add: queue_rel_def)
  have nz: "items_count q \<noteq> 0" using queue_rel_empty_count [OF assms] by simp
  then show "co_queue_pop_tail (q, h) =
      Inr (p, q\<lparr>items_count := items_count q - 1\<rparr>, h\<lparr>links := co_list_del (node_of p) (links h)\<rparr>)"
    by (simp add: co_queue_pop_tail_def ll.del_tail(1) [OF ring])
  have "unat (items_count q - 1) = length ps"
    using nz cnt by (simp add: unat_minus_one)
  then show "queue_rel (q\<lparr>items_count := items_count q - 1\<rparr>,
                    h\<lparr>links := co_list_del (node_of p) (links h)\<rparr>) ps"
    using ll.del_tail(2) [OF ring] assms by (simp add: queue_rel_def)
qed

lemma queue_peek:
  assumes "queue_rel s ps"
  shows "co_queue_peek_tail s = (if ps = [] then Inl CO_RC_ERROR else Inr (last ps))"
proof (cases s)
  case (Pair q h)
  have "prv (links h) (head q) = last (head q # map node_of ps)"
    using assms Pair by (simp add: queue_rel_def ll.ring_tail del: last.simps)
  then show ?thesis
    using assms Pair by (auto simp: co_queue_peek_tail_def queue_rel_empty_count last_map)
qed

lemma queue_get_prev:
  assumes "queue_rel s (ps @ p # qs)"
  shows "co_queue_get_prev p s = (if ps = [] then Inl CO_RC_ERROR else Inr (last ps))"
proof (cases s)
  case (Pair q h)
  have ring: "co_ring (links h) (head q) (map node_of ps @ node_of p # map node_of qs)"
    using assms Pair by (simp add: queue_rel_def)
  have "head q \<notin> node_of ` set ps" using ring by (auto simp: co_ring_def)
  then have "ps \<noteq> [] \<Longrightarrow> node_of (last ps) \<noteq> head q"
    using last_in_set [of ps] by (metis image_eqI)
  then show ?thesis
    using Pair co_ring_neighbours(1) [OF ring]
    by (auto simp: co_queue_get_prev_def node_of_def [symmetric] last_map)
qed

text \<open>Freeing the block of an item that is off the queue leaves the queue alone.\<close>

lemma queue_rel_free:
  assumes "queue_rel (q, h) ps" and "p \<notin> set ps"
  shows "queue_rel (q, h\<lparr>blocks := (blocks h)(node_of p := None)\<rparr>) ps"
  using assms by (auto simp: queue_rel_def list_all_iff)

lemma queue_flush:
  assumes "queue_rel (q, h) ps"
  shows "\<exists>q' h'. co_queue_flush (q, h) = Some (CO_RC_ERROR, q', h') \<and> queue_rel (q', h') [] \<and>
           blocks h' = blocks h |` (- node_of ` set ps) \<and> head q' = head q"
  using assms
proof (induction ps arbitrary: q h rule: rev_induct)
  case Nil
  have "blocks h |` UNIV = blocks h" by (rule ext) (simp add: restrict_map_def)
  with Nil show ?case
    by (subst co_queue_flush.simps) (simp add: queue_pop_empty)
next
  case (snoc p ps)
  define q1 h1 where "q1 = q\<lparr>items_count := items_count q - 1\<rparr>"
    and "h1 = h\<lparr>links := co_list_del (node_of p) (links h)\<rparr>"
  define h2 where "h2 = h1\<lparr>blocks := (blocks h1)(node_of p := None)\<rparr>"
  have pop: "co_queue_pop_tail (q, h) = Inr (p, q1, h1)" and rel: "queue_rel (q1, h1) ps"
    using queue_pop_some [OF snoc.prems] by (simp_all add: q1_def h1_def)
  have blk: "blocks h (node_of p) \<noteq> None" and notin: "p \<notin> set ps"
    using snoc.prems by (auto simp: queue_rel_def co_ring_def)
  have free: "co_queue_free p h1 = Some (CO_RC_OK, h2)"
    using blk by (simp add: co_queue_free_def co_os_free_def h1_def h2_def node_of_def [symmetric])
  have "queue_rel (q1, h2) ps"
    unfolding h2_def using rel notin by (rule queue_rel_free)
  then obtain q' h' where ih: "co_queue_flush (q1, h2) = Some (CO_RC_ERROR, q', h')"
      "queue_rel (q', h') []" "blocks h' = blocks h2 |` (- node_of ` set ps)" "head q' = head q1"
    using snoc.IH by blast
  have "blocks h' = blocks h |` (- node_of ` set (ps @ [p]))"
    unfolding ih(3) by (rule ext) (auto simp: h2_def h1_def restrict_map_def)
  then show ?case
    using ih pop free by (subst co_queue_flush.simps) (simp add: q1_def)
qed

text \<open>The memory determines what is on the queue.\<close>

lemma queue_rel_unique:
  assumes "queue_rel s ps" and "queue_rel s qs"
  shows "ps = qs"
proof -
  obtain l h where "co_ring h l (map node_of ps)" "co_ring h l (map node_of qs)"
    using assms by (cases s) (auto simp: queue_rel_def)
  from this [THEN co_list_each_ring] have "map node_of ps = map node_of qs" by simp
  then show ?thesis by (simp add: inj_map_eq_map inj_def)
qed

section \<open>The contract\<close>

text \<open>The consumer's loop: take items out until nothing is left or \<open>n\<close> were taken.\<close>

fun drain :: "('s \<Rightarrow> 'e + ('p \<times> 's)) \<Rightarrow> nat \<Rightarrow> 's \<Rightarrow> 'p list \<times> 's" where
  "drain get 0 s = ([], s)"
| "drain get (Suc n) s =
     (case get s of
        Inl e \<Rightarrow> ([], s)
      | Inr (p, s') \<Rightarrow> (let (ps, s'') = drain get n s' in (p # ps, s'')))"

text \<open>What the users of a queue rely on: \<open>rel s ps\<close> says that the state \<open>s\<close> holds the
  items \<open>ps\<close>, newest first; \<open>put\<close> adds the newest, \<open>get\<close> takes the oldest.\<close>

locale fifo_queue =
  fixes rel :: "'s \<Rightarrow> 'p list \<Rightarrow> bool"
    and addable :: "'s \<Rightarrow> 'p list \<Rightarrow> 'p \<Rightarrow> bool"
    and put :: "'p \<Rightarrow> 's \<Rightarrow> 's"
    and get :: "'s \<Rightarrow> 'e + ('p \<times> 's)"
  assumes put_rel: "rel s ps \<Longrightarrow> addable s ps p \<Longrightarrow> rel (put p s) (p # ps)"
    and put_addable: "addable s ps p \<Longrightarrow> addable s ps p' \<Longrightarrow> p \<noteq> p' \<Longrightarrow>
          addable (put p s) (p # ps) p'"
    and get_empty: "rel s [] \<Longrightarrow> \<exists>e. get s = Inl e"
    and get_last: "rel s (ps @ [p]) \<Longrightarrow> \<exists>s'. get s = Inr (p, s') \<and> rel s' ps"
begin

lemma put_all:
  assumes "rel s ps" and "\<forall>a \<in> set as. addable s ps a" and "distinct as"
  shows "rel (fold put as s) (rev as @ ps)"
  using assms
proof (induction as arbitrary: s ps)
  case Nil
  then show ?case by simp
next
  case (Cons a as)
  have "rel (put a s) (a # ps)" using Cons.prems by (simp add: put_rel)
  moreover have "\<forall>b \<in> set as. addable (put a s) (a # ps) b"
    using Cons.prems by (auto intro!: put_addable)
  ultimately show ?case using Cons.IH [of "put a s" "a # ps"] Cons.prems(3) by simp
qed

lemma drain_rel: "rel s ps \<Longrightarrow> length ps \<le> n \<Longrightarrow> \<exists>s'. drain get n s = (rev ps, s') \<and> rel s' []"
proof (induction ps arbitrary: n s rule: rev_induct)
  case Nil
  then show ?case using get_empty [of s] by (cases n) auto
next
  case (snoc p ps)
  then obtain m where n: "n = Suc m" and "length ps \<le> m" by (cases n) auto
  moreover obtain s' where "get s = Inr (p, s')" and "rel s' ps"
    using get_last snoc.prems(1) by blast
  ultimately show ?case using snoc.IH [of s' m] by auto
qed

text \<open>First in, first out.\<close>

lemma fifo:
  assumes "rel s ps" and "\<forall>a \<in> set as. addable s ps a" and "distinct as"
  shows "\<exists>s'. drain get (length ps + length as) (fold put as s) = (rev ps @ as, s') \<and> rel s' []"
  using drain_rel [OF put_all [OF assms], of "length ps + length as"] by simp

end

interpretation cq: fifo_queue queue_rel queueable co_queue_add_head co_queue_pop_tail
proof (unfold_locales, goal_cases)
  case (1 s ps p)
  then show ?case by (rule queue_rel_add_head)
next
  case (2 s ps p p')
  then show ?case by (cases s) (auto simp: queueable_def co_queue_add_head_def)
next
  case (3 s)
  then show ?case by (simp add: queue_pop_empty)
next
  case (4 s ps p)
  then show ?case using queue_pop_some by (cases s) blast
qed

section \<open>Properties\<close>

text \<open>
  C24: The queue is first in, first out: if blocks that are allocated and not on the queue are
  added with \<open>co_queue_add_head\<close>, then popping from the tail until the queue is empty yields
  the items that were there before, oldest first, and then the new ones in the order they were
  added; nothing is lost, doubled or reordered, and the queue ends up empty and well-formed.
  The element count cannot wrap, because the nodes are distinct 32-bit addresses.
\<close>

theorem co_queue_fifo:
  assumes "queue_rel s ps" and "\<forall>a \<in> set as. queueable s ps a" and "distinct as"
  shows "\<exists>s'. drain co_queue_pop_tail (length ps + length as) (fold co_queue_add_head as s)
                = (rev ps @ as, s') \<and> queue_rel s' []"
  using assms by (rule cq.fifo)

definition demo_queue :: "co_queue \<times> nat qmem" where
  "demo_queue = co_queue_add_head 0x1008
     (\<lparr>head = 0x500, items_count = 0\<rparr>,
      \<lparr>links = co_list_init 0x500 \<lparr>nxt = id, prv = id\<rparr>,
       blocks = [0x1000 \<mapsto> 12, 0x2000 \<mapsto> 12, 0x3000 \<mapsto> 12], content = Map.empty\<rparr>)"

lemma demo_queue_rel: "queue_rel demo_queue [0x1008]"
  by (simp add: demo_queue_def queue_rel_def co_queue_add_head_def node_of_def
      sizeof_co_queue_item_def co_ring_def co_list_add_head_def co_list_init_def link_defs)

theorem co_queue_fifo_witness:
  "\<exists>s'. drain co_queue_pop_tail (length [0x1008 :: ulong] + length [0x2008, 0x3008 :: ulong])
          (fold co_queue_add_head [0x2008, 0x3008] demo_queue)
        = (rev [0x1008] @ [0x2008, 0x3008], s') \<and> queue_rel s' []"
  by (rule co_queue_fifo [OF demo_queue_rel])
    (simp_all add: demo_queue_def queueable_def co_queue_add_head_def node_of_def
      sizeof_co_queue_item_def)

text \<open>
  \<open>co_queue_flush\<close> terminates, frees the block of every queued item exactly once and no
  other block (freeing something twice would be undefined), and leaves a well-formed empty
  queue. The code it returns is that of the failed pop that ends its loop, so a flush always
  reports \<open>CO_RC_ERROR\<close>, although its loop has no other way to end.
\<close>

theorem co_queue_flush_frees:
  assumes "queue_rel (q, h) ps"
  shows "\<exists>q' h'. co_queue_flush (q, h) = Some (CO_RC_ERROR, q', h') \<and> queue_rel (q', h') [] \<and>
           blocks h' = blocks h |` (- node_of ` set ps) \<and> head q' = head q"
  using assms by (rule queue_flush)

theorem co_queue_flush_frees_witness:
  "\<exists>q' h'. co_queue_flush (fst demo_queue, snd demo_queue) = Some (CO_RC_ERROR, q', h') \<and>
     queue_rel (q', h') [] \<and>
     blocks h' = blocks (snd demo_queue) |` (- node_of ` set [0x1008]) \<and>
     head q' = head (fst demo_queue)"
  by (rule co_queue_flush_frees) (simp add: demo_queue_rel)

text \<open>
  Walking a queue from its oldest item: \<open>co_queue_get_tail\<close> and \<open>co_queue_peek_tail\<close>
  return the oldest item and fail only on an empty queue, and \<open>co_queue_get_prev\<close> returns the
  next newer item and fails exactly at the newest one, never handing out the list head as an
  item.
\<close>

theorem co_queue_walk:
  assumes "queue_rel s (ps @ p # qs)"
  shows "co_queue_get_tail s = Inr (last (p # qs)) \<and>
         co_queue_peek_tail s = Inr (last (p # qs)) \<and>
         co_queue_get_prev p s = (if ps = [] then Inl CO_RC_ERROR else Inr (last ps))"
  using queue_peek [OF assms] queue_get_prev [OF assms]
  by (simp add: co_queue_get_tail_def co_queue_peek_tail_def)

theorem co_queue_walk_witness:
  "co_queue_get_tail demo_queue = Inr (last [0x1008]) \<and>
   co_queue_peek_tail demo_queue = Inr (last [0x1008]) \<and>
   co_queue_get_prev 0x1008 demo_queue
     = (if ([] :: ulong list) = [] then Inl CO_RC_ERROR else Inr (last []))"
  by (rule co_queue_walk) (simp add: demo_queue_rel)

end
