(* ===== verification/Co_Modules.thy ===== *)
theory Co_Modules
  imports Co_Prelude
begin

text \<open>
  The modules messages go between: the module numbers of \<open>linux/cooperative.h\<close>, which the
  repository carries in \<open>patch/base-2.6.33.diff\<close>.
\<close>

section \<open>Modules\<close>

type_synonym co_module = ulong

definition CO_MODULE_MAX_CONET :: ulong where "CO_MODULE_MAX_CONET = 16"
definition CO_MODULE_MAX_COBD :: ulong where "CO_MODULE_MAX_COBD = 32"
definition CO_MODULE_MAX_COFS :: ulong where "CO_MODULE_MAX_COFS = 32"
definition CO_MODULE_MAX_SERIAL :: ulong where "CO_MODULE_MAX_SERIAL = 32"
definition CO_MODULE_MAX_COSCSI :: ulong where "CO_MODULE_MAX_COSCSI = 32"
definition CO_MODULE_MAX_COVIDEO :: ulong where "CO_MODULE_MAX_COVIDEO = 2"
definition CO_MODULE_MAX_COAUDIO :: ulong where "CO_MODULE_MAX_COAUDIO = 2"

definition CO_MODULE_LINUX :: co_module where "CO_MODULE_LINUX = 0"
definition CO_MODULE_MONITOR :: co_module where "CO_MODULE_MONITOR = 1"
definition CO_MODULE_DAEMON :: co_module where "CO_MODULE_DAEMON = 2"
definition CO_MODULE_IDLE :: co_module where "CO_MODULE_IDLE = 3"
definition CO_MODULE_KERNEL_SWITCH :: co_module where "CO_MODULE_KERNEL_SWITCH = 4"
definition CO_MODULE_USER_SWITCH :: co_module where "CO_MODULE_USER_SWITCH = 5"
definition CO_MODULE_CONSOLE :: co_module where "CO_MODULE_CONSOLE = 6"
definition CO_MODULE_PRINTK :: co_module where "CO_MODULE_PRINTK = 7"
definition CO_MODULE_CONET0 :: co_module where "CO_MODULE_CONET0 = 8"
definition CO_MODULE_CONET_END :: co_module where
  "CO_MODULE_CONET_END = CO_MODULE_CONET0 + CO_MODULE_MAX_CONET - 1"
definition CO_MODULE_COBD0 :: co_module where "CO_MODULE_COBD0 = CO_MODULE_CONET_END + 1"
definition CO_MODULE_COBD_END :: co_module where
  "CO_MODULE_COBD_END = CO_MODULE_COBD0 + CO_MODULE_MAX_COBD - 1"
definition CO_MODULE_COFS0 :: co_module where "CO_MODULE_COFS0 = CO_MODULE_COBD_END + 1"
definition CO_MODULE_COFS_END :: co_module where
  "CO_MODULE_COFS_END = CO_MODULE_COFS0 + CO_MODULE_MAX_COFS - 1"
definition CO_MODULE_SERIAL0 :: co_module where "CO_MODULE_SERIAL0 = CO_MODULE_COFS_END + 1"
definition CO_MODULE_SERIAL_END :: co_module where
  "CO_MODULE_SERIAL_END = CO_MODULE_SERIAL0 + CO_MODULE_MAX_SERIAL - 1"
definition CO_MODULE_COSCSI0 :: co_module where "CO_MODULE_COSCSI0 = CO_MODULE_SERIAL_END + 1"
definition CO_MODULE_COSCSI_END :: co_module where
  "CO_MODULE_COSCSI_END = CO_MODULE_COSCSI0 + CO_MODULE_MAX_COSCSI - 1"
definition CO_MODULES_MAX :: co_module where
  "CO_MODULES_MAX = CO_MODULE_COSCSI_END + 1 + CO_MODULE_MAX_COVIDEO + CO_MODULE_MAX_COAUDIO"

lemmas co_module_defs =
  CO_MODULE_MAX_CONET_def CO_MODULE_MAX_COBD_def CO_MODULE_MAX_COFS_def CO_MODULE_MAX_SERIAL_def
  CO_MODULE_MAX_COSCSI_def CO_MODULE_MAX_COVIDEO_def CO_MODULE_MAX_COAUDIO_def
  CO_MODULE_LINUX_def CO_MODULE_MONITOR_def CO_MODULE_DAEMON_def CO_MODULE_IDLE_def
  CO_MODULE_KERNEL_SWITCH_def CO_MODULE_USER_SWITCH_def CO_MODULE_CONSOLE_def CO_MODULE_PRINTK_def
  CO_MODULE_CONET0_def CO_MODULE_CONET_END_def CO_MODULE_COBD0_def CO_MODULE_COBD_END_def
  CO_MODULE_COFS0_def CO_MODULE_COFS_END_def CO_MODULE_SERIAL0_def CO_MODULE_SERIAL_END_def
  CO_MODULE_COSCSI0_def CO_MODULE_COSCSI_END_def CO_MODULES_MAX_def

end
