(* ===== verification/Co_Snprintf.thy ===== *)
theory Co_Snprintf
  imports Co_Prelude
begin

text \<open>
  The formatter of the host side, \<open>co_snprintf\<close> (\<open>src/colinux/common/snprintf.c\<close>), without the
  floating point conversions, which are compiled out (\<open>SNPRINTF_FLOAT\<close> is nowhere defined).

  The destination is an array of characters, \<open>pinsertion\<close> a position in it, and \<open>nmax\<close> the
  room the code believes to be left. What the code does that C does not define is a fault: a
  write outside the array or outside the stack of digits, an argument of another type than the
  conversion reads, and signed arithmetic that overflows.
\<close>

section \<open>Faults, arguments and output\<close>

datatype snprintf_fault = Write_outside | Bad_va_arg | Int_overflow

fun bind_fault :: "'e + 'a \<Rightarrow> ('a \<Rightarrow> 'e + 'b) \<Rightarrow> 'e + 'b" where
  "bind_fault (Inl e) f = Inl e"
| "bind_fault (Inr x) f = f x"

text \<open>An argument: \<open>int\<close>, \<open>long\<close> and pointers have 32 bits; a string is its characters before
  the terminating 0, or \<open>NULL\<close>.\<close>

datatype va_arg = Va_int ulong | Va_str "string option"

record pout =
  out_buf :: string
  pinsertion :: nat
  nmax :: int

definition put_char :: "char \<Rightarrow> pout \<Rightarrow> snprintf_fault + pout" where
  "put_char c p =
     (if pinsertion p < length (out_buf p)
      then Inr (p\<lparr>out_buf := (out_buf p)[pinsertion p := c], pinsertion := pinsertion p + 1, nmax := nmax p - 1\<rparr>)
      else Inl Write_outside)"

text \<open>\<open>if (nmax > 1) { *pinsertion++ = ch; nmax--; }\<close>\<close>

definition put_room :: "char \<Rightarrow> pout \<Rightarrow> snprintf_fault + pout" where
  "put_room c p = (if 1 < nmax p then put_char c p else Inr p)"

text \<open>\<open>memset\<close> and \<open>memcpy\<close> to the insertion point, which then moves by \<open>n\<close> as \<open>nmax\<close> does.\<close>

definition put_fill :: "char \<Rightarrow> int \<Rightarrow> pout \<Rightarrow> snprintf_fault + pout" where
  "put_fill c n p =
     (if n < 0 \<or> 0 < n \<and> int (length (out_buf p)) < int (pinsertion p) + n then Inl Write_outside
      else Inr (p\<lparr>out_buf := take (pinsertion p) (out_buf p) @ replicate (nat n) c @
                    drop (pinsertion p + nat n) (out_buf p),
                  pinsertion := pinsertion p + nat n, nmax := nmax p - n\<rparr>))"

definition put_copy :: "string \<Rightarrow> int \<Rightarrow> pout \<Rightarrow> snprintf_fault + pout" where
  "put_copy s n p =
     (if n < 0 \<or> 0 < n \<and> int (length (out_buf p)) < int (pinsertion p) + n then Inl Write_outside
      else Inr (p\<lparr>out_buf := take (pinsertion p) (out_buf p) @ take (nat n) s @
                    drop (pinsertion p + nat n) (out_buf p),
                  pinsertion := pinsertion p + nat n, nmax := nmax p - n\<rparr>))"

section \<open>Conversions\<close>

definition FLAG_DEFAULT :: uchar where "FLAG_DEFAULT = 0x00"
definition FLAG_LEFT_ALIGN :: uchar where "FLAG_LEFT_ALIGN = 0x01"
definition FLAG_SIGNED :: uchar where "FLAG_SIGNED = 0x02"
definition FLAG_ZERO_PAD :: uchar where "FLAG_ZERO_PAD = 0x04"
definition FLAG_SIGN_PAD :: uchar where "FLAG_SIGN_PAD = 0x08"
definition FLAG_HASH :: uchar where "FLAG_HASH = 0x10"

lemmas flag_defs = FLAG_DEFAULT_def FLAG_LEFT_ALIGN_def FLAG_SIGNED_def FLAG_ZERO_PAD_def
  FLAG_SIGN_PAD_def FLAG_HASH_def

definition UNKNOWN_WIDTH :: int where "UNKNOWN_WIDTH = 0"
definition VARIABLE_WIDTH :: int where "VARIABLE_WIDTH = - 2"
definition UNKNOWN_PRECISION :: int where "UNKNOWN_PRECISION = - 1"
definition VARIABLE_PRECISION :: int where "VARIABLE_PRECISION = - 2"

definition flag_set :: "uchar \<Rightarrow> uchar \<Rightarrow> bool" where
  "flag_set flags f \<longleftrightarrow> flags AND f \<noteq> 0"

text \<open>\<open>pvsnfmt_char\<close> reads its argument only when there is room.\<close>

definition pvsnfmt_char :: "va_arg list \<Rightarrow> pout \<Rightarrow> snprintf_fault + (int \<times> va_arg list \<times> pout)" where
  "pvsnfmt_char ap p =
     (if 1 < nmax p then
        case ap of
          Va_int w # ap \<Rightarrow> bind_fault (put_char (char_of (unat w)) p) (\<lambda>p. Inr (1, ap, p))
        | _ \<Rightarrow> Inl Bad_va_arg
      else Inr (1, ap, p))"

definition pstrnlen :: "string \<Rightarrow> int \<Rightarrow> int" where
  "pstrnlen s count = min (int (length s)) count"

definition pvsnfmt_str :: "uchar \<Rightarrow> int \<Rightarrow> int \<Rightarrow> string option \<Rightarrow> pout \<Rightarrow> snprintf_fault + (int \<times> pout)" where
  "pvsnfmt_str flags width precision arg p =
     (if width = - (2 ^ 31) then Inl Int_overflow
      else
        let flags = (if width < 0 then flags OR FLAG_LEFT_ALIGN else flags);
            width = (if width < 0 then - width else width);
            str = (case arg of None \<Rightarrow> ''(null)'' | Some s \<Rightarrow> s);
            len = (if precision < 0 then int (length str) else pstrnlen str precision);
            pad = (if len < width then width - len else 0)
        in if nmax p \<le> 1 then Inr (len + pad, p)
           else
             bind_fault
               (if \<not> flag_set flags FLAG_LEFT_ALIGN
                then put_fill (if flag_set flags FLAG_ZERO_PAD then CHR ''0'' else CHR '' '')
                       (if nmax p - 1 < pad then nmax p - 1 else pad) p
                else Inr p) (\<lambda>p.
             bind_fault
               (put_copy str (if nmax p \<le> 1 then 0 else if nmax p - 1 < len then nmax p - 1 else len) p) (\<lambda>p.
             bind_fault
               (if flag_set flags FLAG_LEFT_ALIGN
                then put_fill CHR '' ''
                       (if nmax p \<le> 1 then 0 else if nmax p - 1 < pad then nmax p - 1 else pad) p
                else Inr p) (\<lambda>p.
             Inr (len + pad, p)))))"

text \<open>The digits are pushed on a stack, least significant first; the base is 8, 10 or 16.\<close>

function push_digits :: "nat \<Rightarrow> nat \<Rightarrow> nat list \<Rightarrow> nat list" where
  "push_digits base n stack =
     (if base < 2 \<or> n div base = 0 then n mod base # stack
      else push_digits base (n div base) (n mod base # stack))"
  by pat_completeness auto
termination
  by (relation "measure (\<lambda>(base, n, stack). n)") (auto intro!: div_less_dividend gr0I)

declare push_digits.simps [simp del]

definition digit_char :: "char \<Rightarrow> nat \<Rightarrow> char" where
  "digit_char char10 n = (if n \<le> 9 then char_of (n + 48) else char_of (n - 10 + of_char char10))"

text \<open>The loop that pops \<open>n\<close> digits; it moves the insertion point, but not \<open>nmax\<close>: the code
  subtracts its loop variable, which is 0 by then.\<close>

fun pop_digits :: "char \<Rightarrow> nat list \<Rightarrow> nat \<Rightarrow> pout \<Rightarrow> snprintf_fault + pout" where
  "pop_digits char10 stack 0 p = Inr p"
| "pop_digits char10 [] (Suc n) p = Inl Write_outside"
| "pop_digits char10 (d # stack) (Suc n) p =
     bind_fault (put_char (digit_char char10 d) p)
       (\<lambda>p. pop_digits char10 stack n (p\<lparr>nmax := nmax p + 1\<rparr>))"

text \<open>The number an argument stands for: whether it is signed, and its value.\<close>

definition int_value :: "char \<Rightarrow> char \<Rightarrow> ulong \<Rightarrow> bool \<times> int" where
  "int_value prefix fmt w =
     (if fmt = CHR ''d'' \<or> fmt = CHR ''i'' then
        (True, if prefix = CHR ''h'' then sint (ucast w :: ushort) else sint w)
      else if fmt = CHR ''p'' then
        (if prefix = CHR ''l'' then (True, 0) else (False, uint w))
      else (False, if prefix = CHR ''h'' then uint (ucast w :: ushort) else uint w))"

definition write_sign :: "int \<Rightarrow> char \<Rightarrow> char \<Rightarrow> pout \<Rightarrow> snprintf_fault + pout" where
  "write_sign addprefix fmt sign p =
     (if addprefix = 2 then bind_fault (put_room CHR ''0'' p) (put_room fmt)
      else if addprefix = 1 then put_room sign p
      else Inr p)"

definition pvsnfmt_int ::
  "char \<Rightarrow> uchar \<Rightarrow> int \<Rightarrow> int \<Rightarrow> char \<Rightarrow> ulong \<Rightarrow> pout \<Rightarrow> snprintf_fault + (int \<times> pout)" where
  "pvsnfmt_int fmt flags width precision prefix w p =
     (let (numbersigned, number) = int_value prefix fmt w;
          flags = (if fmt = CHR ''p'' then flags OR FLAG_HASH else flags);
          fmt = (if fmt = CHR ''p'' then CHR ''x'' else fmt);
          base = (if fmt = CHR ''o'' then 8 else if fmt = CHR ''x'' \<or> fmt = CHR ''X'' then 16 else 10);
          char10 = (if fmt = CHR ''X'' then CHR ''A'' else CHR ''a'');
          sign = (if \<not> numbersigned then CHR 0x00 else if number < 0 then CHR ''-''
                  else if flag_set flags FLAG_SIGNED then CHR ''+''
                  else if flag_set flags FLAG_SIGN_PAD then CHR '' '' else CHR 0x00);
          iszero = (number = 0);
          digits = push_digits base (nat \<bar>number\<bar>) [];
          precision = (if fmt = CHR ''o'' \<and> flag_set flags FLAG_HASH \<and>
                          precision \<le> int (length digits) \<and> precision \<noteq> 0 \<and> \<not> iszero
                       then int (length digits) + 1 else precision);
          addprefix = (if (fmt = CHR ''x'' \<or> fmt = CHR ''X'') \<and> flag_set flags FLAG_HASH \<and> \<not> iszero then 2
                       else if sign \<noteq> CHR 0x00 then 1 else 0);
          stack = replicate (nat precision - length digits) 0 @ digits;
          len = int (length stack);
          totallen = (if len + addprefix < width then width else len + addprefix);
          widthpad = (if len + addprefix < width then width - (len + addprefix) else 0)
      in if numbersigned \<and> number = - (2 ^ 31) then Inl Int_overflow
         else if 22 < length stack then Inl Write_outside
         else if nmax p \<le> 1 then Inr (totallen, p)
         else
           bind_fault (if flag_set flags FLAG_ZERO_PAD then write_sign addprefix fmt sign p else Inr p) (\<lambda>p.
           bind_fault
             (if \<not> flag_set flags FLAG_LEFT_ALIGN
              then put_fill (if flag_set flags FLAG_ZERO_PAD then CHR ''0'' else CHR '' '')
                     (if nmax p \<le> 1 then 0 else if nmax p + 1 < widthpad then nmax p - 1 else widthpad) p
              else Inr p) (\<lambda>p.
           bind_fault (if \<not> flag_set flags FLAG_ZERO_PAD then write_sign addprefix fmt sign p else Inr p) (\<lambda>p.
           bind_fault
             (pop_digits char10 stack
                (nat (if nmax p \<le> 1 then 0 else if nmax p + 1 < len then nmax p - 1 else len)) p) (\<lambda>p.
           bind_fault
             (if flag_set flags FLAG_LEFT_ALIGN
              then put_fill CHR '' ''
                     (if nmax p \<le> 1 then 0 else if nmax p + 1 < widthpad then nmax p - 1 else widthpad) p
              else Inr p) (\<lambda>p.
           Inr (totallen, p)))))))"

section \<open>The format\<close>

datatype fmt_state =
    STATE_NONE
  | STATE_OPERATOR
  | STATE_FLAG
  | STATE_WIDTH
  | STATE_BEFORE_PRECISION
  | STATE_PRECISION
  | STATE_PREFIX

text \<open>\<open>stores\<close> are the values that \<open>%n\<close> wrote, with the pointers they were written through.\<close>

record vsn =
  vout :: pout
  ncount :: int
  fstate :: fmt_state
  flags :: uchar
  width :: int
  precision :: int
  prefix :: char
  va_args :: "va_arg list"
  stores :: "(ulong \<times> int) list"

text \<open>\<open>width * 10 + digit\<close> in an \<open>int\<close>.\<close>

definition digit_of :: "char \<Rightarrow> int" where
  "digit_of c = of_char c - 48"

definition is_digit :: "char \<Rightarrow> bool" where
  "is_digit c \<longleftrightarrow> 48 \<le> (of_char c :: nat) \<and> (of_char c :: nat) \<le> 57"

definition add_digit :: "int \<Rightarrow> char \<Rightarrow> snprintf_fault + int" where
  "add_digit n c = (if 2 ^ 31 \<le> n * 10 + digit_of c \<or> n * 10 + digit_of c < - (2 ^ 31) then Inl Int_overflow else Inr (n * 10 + digit_of c))"

definition putchar :: "char \<Rightarrow> vsn \<Rightarrow> snprintf_fault + vsn" where
  "putchar c s = bind_fault (put_room c (vout s)) (\<lambda>p. Inr (s\<lparr>vout := p, ncount := ncount s + 1\<rparr>))"

text \<open>\<open>GET_VARS\<close>\<close>

definition get_var :: "int \<Rightarrow> int \<Rightarrow> va_arg list \<Rightarrow> snprintf_fault + (int \<times> va_arg list)" where
  "get_var variable n ap =
     (if n = variable then (case ap of Va_int w # ap \<Rightarrow> Inr (sint w, ap) | _ \<Rightarrow> Inl Bad_va_arg)
      else Inr (n, ap))"

definition get_vars :: "vsn \<Rightarrow> snprintf_fault + vsn" where
  "get_vars s =
     bind_fault (get_var VARIABLE_WIDTH (width s) (va_args s)) (\<lambda>(w, ap).
     bind_fault (get_var VARIABLE_PRECISION (precision s) ap) (\<lambda>(n, ap).
     Inr (s\<lparr>width := w, precision := n, va_args := ap\<rparr>)))"

text \<open>\<open>CHECK_FLAG\<close>, \<open>CHECK_WIDTH\<close>, \<open>CHECK_PRECISION\<close>, \<open>CHECK_PREFIX\<close> and \<open>CHECK_TYPE\<close>:
  \<^term>\<open>None\<close> when the character is none of their cases.\<close>

definition check_flag :: "char \<Rightarrow> vsn \<Rightarrow> (snprintf_fault + vsn) option" where
  "check_flag c s =
     (let set_flag = (\<lambda>f. Some (Inr (s\<lparr>flags := flags s OR f, fstate := STATE_FLAG\<rparr>)))
      in if c = CHR ''-'' then set_flag FLAG_LEFT_ALIGN
         else if c = CHR ''+'' then set_flag FLAG_SIGNED
         else if c = CHR ''0'' then set_flag FLAG_ZERO_PAD
         else if c = CHR '' '' then set_flag FLAG_SIGN_PAD
         else if c = CHR ''#'' then set_flag FLAG_HASH
         else None)"

definition check_width :: "char \<Rightarrow> vsn \<Rightarrow> (snprintf_fault + vsn) option" where
  "check_width c s =
     (if is_digit c \<and> c \<noteq> CHR ''0'' then Some (Inr (s\<lparr>width := digit_of c, fstate := STATE_WIDTH\<rparr>))
      else if c = CHR ''*'' then Some (Inr (s\<lparr>width := VARIABLE_WIDTH, fstate := STATE_WIDTH\<rparr>))
      else None)"

definition check_precision :: "char \<Rightarrow> vsn \<Rightarrow> (snprintf_fault + vsn) option" where
  "check_precision c s =
     (if c = CHR ''.'' then Some (Inr (s\<lparr>precision := 0, fstate := STATE_BEFORE_PRECISION\<rparr>)) else None)"

definition check_prefix :: "char \<Rightarrow> vsn \<Rightarrow> (snprintf_fault + vsn) option" where
  "check_prefix c s =
     (if c \<in> {CHR ''h'', CHR ''l'', CHR ''L''}
      then Some (Inr (s\<lparr>prefix := c, fstate := STATE_PREFIX\<rparr>)) else None)"

definition int_types :: "char set" where
  "int_types = {CHR ''d'', CHR ''i'', CHR ''u'', CHR ''o'', CHR ''x'', CHR ''X'', CHR ''p''}"

definition check_type :: "char \<Rightarrow> vsn \<Rightarrow> (snprintf_fault + vsn) option" where
  "check_type c s =
     (if c \<in> int_types then
        Some (bind_fault (get_vars s) (\<lambda>s.
          case va_args s of
            Va_int w # ap \<Rightarrow>
              bind_fault (pvsnfmt_int c (flags s) (width s) (precision s) (prefix s) w (vout s)) (\<lambda>(n, p).
              Inr (s\<lparr>vout := p, ncount := ncount s + n, va_args := ap, fstate := STATE_NONE\<rparr>))
          | _ \<Rightarrow> Inl Bad_va_arg))
      else if c = CHR ''c'' then
        Some (bind_fault (get_vars s) (\<lambda>s.
          bind_fault (pvsnfmt_char (va_args s) (vout s)) (\<lambda>(n, ap, p).
          Inr (s\<lparr>vout := p, ncount := ncount s + n, va_args := ap, fstate := STATE_NONE\<rparr>))))
      else if c = CHR ''s'' then
        Some (bind_fault (get_vars s) (\<lambda>s.
          case va_args s of
            Va_str a # ap \<Rightarrow>
              bind_fault (pvsnfmt_str (flags s) (width s) (precision s) a (vout s)) (\<lambda>(n, p).
              Inr (s\<lparr>vout := p, ncount := ncount s + n, va_args := ap, fstate := STATE_NONE\<rparr>))
          | _ \<Rightarrow> Inl Bad_va_arg))
      else if c = CHR ''n'' then
        Some (case va_args s of
                Va_int w # ap \<Rightarrow>
                  Inr (s\<lparr>stores := (w, ncount s) # stores s, va_args := ap, fstate := STATE_NONE\<rparr>)
              | _ \<Rightarrow> Inl Bad_va_arg)
      else None)"

fun first_match :: "(char \<Rightarrow> vsn \<Rightarrow> (snprintf_fault + vsn) option) list \<Rightarrow> char \<Rightarrow> vsn \<Rightarrow>
    (snprintf_fault + vsn) option" where
  "first_match [] c s = None"
| "first_match (f # fs) c s = (case f c s of None \<Rightarrow> first_match fs c s | Some r \<Rightarrow> Some r)"

text \<open>One character of the format; outside \<open>STATE_NONE\<close> and \<open>STATE_OPERATOR\<close> a character that
  matches nothing is skipped.\<close>

definition vsn_step :: "char \<Rightarrow> vsn \<Rightarrow> snprintf_fault + vsn" where
  "vsn_step c s =
     (let skip = (\<lambda>r. case r of None \<Rightarrow> Inr s | Some r \<Rightarrow> r)
      in case fstate s of
        STATE_NONE \<Rightarrow>
          if c = CHR ''%''
          then Inr (s\<lparr>fstate := STATE_OPERATOR, flags := FLAG_DEFAULT, width := UNKNOWN_WIDTH,
                      precision := UNKNOWN_PRECISION, prefix := CHR 0x00\<rparr>)
          else putchar c s
      | STATE_OPERATOR \<Rightarrow>
          (case first_match [check_flag, check_width, check_precision, check_prefix, check_type] c s of
             None \<Rightarrow> bind_fault (putchar c s) (\<lambda>s. Inr (s\<lparr>fstate := STATE_NONE\<rparr>))
           | Some r \<Rightarrow> r)
      | STATE_FLAG \<Rightarrow> skip (first_match [check_flag, check_width, check_precision, check_prefix, check_type] c s)
      | STATE_WIDTH \<Rightarrow>
          if is_digit c \<and> width s \<noteq> - 1
          then bind_fault (add_digit (width s) c) (\<lambda>n. Inr (s\<lparr>width := n\<rparr>))
          else skip (first_match [check_precision, check_prefix, check_type] c s)
      | STATE_BEFORE_PRECISION \<Rightarrow>
          if is_digit c then Inr (s\<lparr>precision := digit_of c, fstate := STATE_PRECISION\<rparr>)
          else if c = CHR ''*'' then Inr (s\<lparr>precision := VARIABLE_PRECISION, fstate := STATE_PRECISION\<rparr>)
          else skip (first_match [check_prefix, check_type] c s)
      | STATE_PRECISION \<Rightarrow>
          if is_digit c \<and> precision s \<noteq> - 1
          then bind_fault (add_digit (precision s) c) (\<lambda>n. Inr (s\<lparr>precision := n\<rparr>))
          else skip (first_match [check_prefix, check_type] c s)
      | STATE_PREFIX \<Rightarrow> skip (check_type c s))"

fun vsn_run :: "string \<Rightarrow> vsn \<Rightarrow> snprintf_fault + vsn" where
  "vsn_run [] s = Inr s"
| "vsn_run (c # format) s = bind_fault (vsn_step c s) (vsn_run format)"

text \<open>\<open>co_vsnprintf\<close>: the result, the array afterwards and what \<open>%n\<close> stored.\<close>

definition co_vsnprintf ::
  "string \<Rightarrow> int \<Rightarrow> string \<Rightarrow> va_arg list \<Rightarrow> snprintf_fault + (int \<times> string \<times> (ulong \<times> int) list)" where
  "co_vsnprintf str n format ap =
     bind_fault
       (vsn_run format
          \<lparr>vout = \<lparr>out_buf = str, pinsertion = 0, nmax = n\<rparr>, ncount = 0, fstate = STATE_NONE, flags = 0,
           width = 0, precision = 0, prefix = CHR 0x00, va_args = ap, stores = []\<rparr>) (\<lambda>s.
     if 0 < nmax (vout s)
     then bind_fault (put_char (CHR 0x00) (vout s)) (\<lambda>p. Inr (ncount s, out_buf p, stores s))
     else Inr (ncount s, out_buf (vout s), stores s))"

definition co_snprintf ::
  "string \<Rightarrow> int \<Rightarrow> string \<Rightarrow> va_arg list \<Rightarrow> snprintf_fault + (int \<times> string \<times> (ulong \<times> int) list)" where
  "co_snprintf str n format args = co_vsnprintf str n format args"

section \<open>Decimal numbers\<close>

text \<open>The notation \<open>%d\<close> is for: the decimal digits of a number, with a sign if it is negative.\<close>

fun dec_nat :: "nat \<Rightarrow> string" where
  "dec_nat n = (if n < 10 then [char_of (48 + n)] else dec_nat (n div 10) @ [char_of (48 + n mod 10)])"

declare dec_nat.simps [simp del]

definition dec_int :: "ulong \<Rightarrow> string" where
  "dec_int w = (if sint w < 0 then ''-'' @ dec_nat (nat (- sint w)) else dec_nat (nat (sint w)))"

definition within :: "snprintf_fault + 'a \<Rightarrow> ('a \<Rightarrow> bool) \<Rightarrow> bool" where
  "within r P \<longleftrightarrow> (case r of Inl e \<Rightarrow> e \<noteq> Write_outside | Inr x \<Rightarrow> P x)"

lemma within_simps [simp]:
  "within (Inr x) P \<longleftrightarrow> P x" "within (Inl Bad_va_arg) P" "within (Inl Int_overflow) P"
  "\<not> within (Inl Write_outside) P"
  by (simp_all add: within_def)

lemma within_bind [intro?]:
  "within r P \<Longrightarrow> (\<And>x. P x \<Longrightarrow> within (f x) Q) \<Longrightarrow> within (bind_fault r f) Q"
  by (cases r) (auto simp: within_def)

text \<open>The room that is left is what the code believes, and nothing behind it was touched.\<close>

definition room_ok :: "string \<Rightarrow> int \<Rightarrow> pout \<Rightarrow> bool" where
  "room_ok str n p \<longleftrightarrow> length (out_buf p) = length str \<and> n \<le> int (length str) \<and>
     int (pinsertion p) + nmax p = n \<and> (1 \<le> nmax p \<or> pinsertion p = 0) \<and>
     drop (nat n) (out_buf p) = drop (nat n) str"

lemma put_room_ok: "room_ok str n p \<Longrightarrow> within (put_room c p) (room_ok str n)"
  by (auto simp: put_room_def put_char_def room_ok_def)

lemma drop_splice:
  "i + length ys \<le> n \<Longrightarrow> n \<le> length xs \<Longrightarrow> drop n (take i xs @ ys @ drop (i + length ys) xs) = drop n xs"
  by simp

lemma put_fill_ok:
  assumes "room_ok str n p" and "0 \<le> k" and "k = 0 \<or> k \<le> nmax p - 1"
  shows "within (put_fill c k p) (room_ok str n)"
proof -
  obtain i where k: "k = int i" using assms(2) nonneg_int_cases by blast
  have "drop (nat n) (take (pinsertion p) (out_buf p) @ replicate i c @ drop (pinsertion p + i) (out_buf p))
      = drop (nat n) (out_buf p)" if "i \<noteq> 0"
    using drop_splice [of "pinsertion p" "replicate i c" "nat n" "out_buf p"] assms that
    by (auto simp: room_ok_def k)
  then show ?thesis
    using assms by (cases "i = 0") (auto simp: put_fill_def room_ok_def k)
qed

lemma put_copy_ok:
  assumes "room_ok str n p" and "0 \<le> k" and "k = 0 \<or> k \<le> nmax p - 1" and "k \<le> int (length s)"
  shows "within (put_copy s k p) (room_ok str n)"
proof -
  obtain i where k: "k = int i" using assms(2) nonneg_int_cases by blast
  have "drop (nat n) (take (pinsertion p) (out_buf p) @ take i s @ drop (pinsertion p + i) (out_buf p))
      = drop (nat n) (out_buf p)" if "i \<noteq> 0"
    using drop_splice [of "pinsertion p" "take i s" "nat n" "out_buf p"] assms that
    by (auto simp: room_ok_def k min_absorb2)
  then show ?thesis
    using assms by (cases "i = 0") (auto simp: put_copy_def room_ok_def k min_absorb2)
qed

lemma pvsnfmt_char_ok:
  "room_ok str n p \<Longrightarrow> within (pvsnfmt_char ap p) (\<lambda>(k, ap, p). room_ok str n p)"
  by (auto simp: pvsnfmt_char_def put_char_def room_ok_def split: list.splits va_arg.splits)

lemma pad_ok:
  assumes "room_ok str n p" and "0 \<le> pad"
    and "k = (if nmax p \<le> 1 then 0 else if nmax p - 1 < pad then nmax p - 1 else pad)"
  shows "within (if b then put_fill c k p else Inr p) (room_ok str n)"
  using assms by (cases b) (auto intro!: put_fill_ok)

lemma pvsnfmt_str_ok:
  assumes "room_ok str n p"
  shows "within (pvsnfmt_str fl w pr arg p) (\<lambda>(k, p). room_ok str n p)"
proof -
  define s where "s = (case arg of None \<Rightarrow> ''(null)'' | Some s \<Rightarrow> s)"
  define len where "len = (if pr < 0 then int (length s) else pstrnlen s pr)"
  define fl' where "fl' = (if w < 0 then fl OR FLAG_LEFT_ALIGN else fl)"
  define pad where "pad = (if len < (if w < 0 then - w else w) then (if w < 0 then - w else w) - len else 0)"
  have bounds: "0 \<le> len" "len \<le> int (length s)" "0 \<le> pad"
    by (simp_all add: len_def pstrnlen_def pad_def)
  have copy: "within (put_copy s (if nmax q \<le> 1 then 0 else if nmax q - 1 < len then nmax q - 1 else len) q)
      (room_ok str n)" if "room_ok str n q" for q
    using that bounds by (intro put_copy_ok) auto
  have left: "within (if \<not> flag_set fl' FLAG_LEFT_ALIGN then put_fill c (if nmax p - 1 < pad then nmax p - 1 else pad) p
      else Inr p) (room_ok str n)" if "\<not> nmax p \<le> 1" for c
    using assms bounds(3) by (rule pad_ok) (use that in simp)
  have right: "within (if flag_set fl' FLAG_LEFT_ALIGN then put_fill c (if nmax q \<le> 1 then 0
      else if nmax q - 1 < pad then nmax q - 1 else pad) q else Inr q) (room_ok str n)" if "room_ok str n q" for q c
    using that bounds(3) by (rule pad_ok) simp
  show ?thesis
  proof (cases "w = - (2 ^ 31) \<or> nmax p \<le> 1")
    case True
    show ?thesis
    proof (cases "w = - (2 ^ 31)")
      case w: True
      show ?thesis unfolding pvsnfmt_str_def if_P [OF w] by simp
    next
      case w: False
      then have nm: "nmax p \<le> 1" using True by simp
      show ?thesis
        unfolding pvsnfmt_str_def Let_def if_not_P [OF w] if_P [OF nm] using assms by simp
    qed
  next
    case False
    then have no: "\<not> w = - (2 ^ 31)" "\<not> nmax p \<le> 1" by simp_all
    show ?thesis
      unfolding pvsnfmt_str_def Let_def s_def [symmetric] len_def [symmetric] fl'_def [symmetric]
        pad_def [symmetric] if_not_P [OF no(1)] if_not_P [OF no(2)]
      by (rule within_bind, rule left, rule no, rule within_bind, rule copy, assumption,
          rule within_bind, rule right, assumption, simp)
  qed
qed

definition vsn_ok :: "string \<Rightarrow> int \<Rightarrow> vsn \<Rightarrow> bool" where
  "vsn_ok str n s \<longleftrightarrow> room_ok str n (vout s)"

lemma putchar_ok: "vsn_ok str n s \<Longrightarrow> within (putchar c s) (vsn_ok str n)"
  unfolding putchar_def vsn_ok_def by (rule within_bind [OF put_room_ok]) simp_all

lemma get_var_ok: "within (get_var v n ap) (\<lambda>_. True)"
  by (auto simp: get_var_def split: list.splits va_arg.splits)

lemma get_vars_ok: "vsn_ok str n s \<Longrightarrow> within (get_vars s) (vsn_ok str n)"
  unfolding get_vars_def
  by (rule within_bind [OF get_var_ok], clarify, rule within_bind [OF get_var_ok]) (auto simp: vsn_ok_def)

definition matched_ok :: "string \<Rightarrow> int \<Rightarrow> (snprintf_fault + vsn) option \<Rightarrow> bool" where
  "matched_ok str n r \<longleftrightarrow> (case r of None \<Rightarrow> True | Some r \<Rightarrow> within r (vsn_ok str n))"

lemma check_type_ok:
  assumes "vsn_ok str n s" and "c \<notin> int_types"
  shows "matched_ok str n (check_type c s)"
proof -
  have "within (bind_fault (pvsnfmt_char (va_args s) (vout s))
      (\<lambda>(k, ap, p). Inr (s\<lparr>vout := p, ncount := ncount s + k, va_args := ap, fstate := STATE_NONE\<rparr>)))
      (vsn_ok str n)" if "vsn_ok str n s" for s
    using that unfolding vsn_ok_def by (auto intro!: within_bind [OF pvsnfmt_char_ok])
  moreover have "within (case va_args s of
      Va_str a # ap \<Rightarrow>
        bind_fault (pvsnfmt_str (flags s) (width s) (precision s) a (vout s)) (\<lambda>(k, p).
        Inr (s\<lparr>vout := p, ncount := ncount s + k, va_args := ap, fstate := STATE_NONE\<rparr>))
      | _ \<Rightarrow> Inl Bad_va_arg) (vsn_ok str n)" if "vsn_ok str n s" for s
    using that unfolding vsn_ok_def
    by (auto intro!: within_bind [OF pvsnfmt_str_ok] split: list.splits va_arg.splits)
  moreover have "within (case va_args s of
      Va_int w # ap \<Rightarrow> Inr (s\<lparr>stores := (w, ncount s) # stores s, va_args := ap, fstate := STATE_NONE\<rparr>)
      | _ \<Rightarrow> Inl Bad_va_arg) (vsn_ok str n)"
    using assms(1) by (auto simp: vsn_ok_def split: list.splits va_arg.splits)
  ultimately show ?thesis
    using assms(2) unfolding check_type_def matched_ok_def
    by (auto intro!: within_bind [OF get_vars_ok [OF assms(1)]] simp del: bind_fault.simps)
qed

lemma first_match_ok: "\<forall>f \<in> set fs. matched_ok str n (f c s) \<Longrightarrow> matched_ok str n (first_match fs c s)"
  by (induction fs) (auto simp: matched_ok_def split: option.splits)

lemma check_others_ok:
  assumes "vsn_ok str n s"
  shows "matched_ok str n (check_flag c s)" "matched_ok str n (check_width c s)"
    "matched_ok str n (check_precision c s)" "matched_ok str n (check_prefix c s)"
  using assms by (auto simp: check_flag_def check_width_def check_precision_def check_prefix_def
      matched_ok_def vsn_ok_def Let_def)

lemma vsn_step_ok:
  assumes s: "vsn_ok str n s" and c: "c \<notin> int_types"
  shows "within (vsn_step c s) (vsn_ok str n)"
proof -
  have some: "within r (vsn_ok str n)" if "matched_ok str n (Some r)" for r
    using that by (simp add: matched_ok_def)
  have skip: "within (case r of None \<Rightarrow> Inr s | Some r \<Rightarrow> r) (vsn_ok str n)" if "matched_ok str n r" for r
    using that s by (auto simp: matched_ok_def split: option.splits)
  have match: "matched_ok str n (first_match fs c s)"
    if "set fs \<subseteq> {check_flag, check_width, check_precision, check_prefix, check_type}" for fs
    using that check_others_ok [OF s] check_type_ok [OF s c] by (intro first_match_ok) auto
  have prec: "vsn_ok str n (s\<lparr>precision := k, fstate := f\<rparr>)" for k f
    using s by (simp add: vsn_ok_def)
  have digit: "within (bind_fault (add_digit k c) (\<lambda>k. Inr (s\<lparr>width := k\<rparr>))) (vsn_ok str n)"
    "within (bind_fault (add_digit k c) (\<lambda>k. Inr (s\<lparr>precision := k\<rparr>))) (vsn_ok str n)" for k
    using s by (auto simp: add_digit_def vsn_ok_def)
  have plain: "within (bind_fault (putchar c s) (\<lambda>s. Inr (s\<lparr>fstate := STATE_NONE\<rparr>))) (vsn_ok str n)"
    by (rule within_bind [OF putchar_ok [OF s]]) (simp add: vsn_ok_def)
  show ?thesis
  proof (cases "fstate s")
    case STATE_NONE
    then show ?thesis using s putchar_ok [OF s] by (auto simp: vsn_step_def Let_def vsn_ok_def)
  next
    case STATE_OPERATOR
    then show ?thesis
      using plain match [of "[check_flag, check_width, check_precision, check_prefix, check_type]"]
      by (auto simp: vsn_step_def Let_def simp del: first_match.simps intro: some split: option.splits)
  next
    case STATE_FLAG
    then show ?thesis
      using match by (auto simp: vsn_step_def Let_def simp del: first_match.simps intro!: skip)
  next
    case STATE_WIDTH
    then show ?thesis
      using match digit by (auto simp: vsn_step_def Let_def simp del: first_match.simps intro!: skip)
  next
    case STATE_BEFORE_PRECISION
    then show ?thesis
      using match prec by (auto simp: vsn_step_def Let_def simp del: first_match.simps intro!: skip)
  next
    case STATE_PRECISION
    then show ?thesis
      using match digit by (auto simp: vsn_step_def Let_def simp del: first_match.simps intro!: skip)
  next
    case STATE_PREFIX
    then show ?thesis
      using check_type_ok [OF s c] by (auto simp: vsn_step_def Let_def intro!: skip)
  qed
qed

lemma vsn_run_ok: "vsn_ok str n s \<Longrightarrow> set format \<inter> int_types = {} \<Longrightarrow> within (vsn_run format s) (vsn_ok str n)"
proof (induction format arbitrary: s)
  case Nil
  then show ?case by simp
next
  case (Cons c format)
  then have "within (vsn_step c s) (vsn_ok str n)" by (intro vsn_step_ok) auto
  then show ?case using Cons by (auto intro!: within_bind)
qed

section \<open>Integers\<close>

lemma pop_digits_Cons:
  "pinsertion p < length (out_buf p) \<Longrightarrow> pop_digits c (d # stack) (Suc n) p =
     pop_digits c stack n (p\<lparr>out_buf := (out_buf p)[pinsertion p := digit_char c d],
       pinsertion := Suc (pinsertion p)\<rparr>)"
  by (simp add: put_char_def)

lemma pop_digits_writes:
  assumes "k \<le> length stack" and "pinsertion p + k \<le> length (out_buf p)"
  shows "pop_digits c stack k p = Inr (p\<lparr>out_buf := take (pinsertion p) (out_buf p) @
      map (digit_char c) (take k stack) @ drop (pinsertion p + k) (out_buf p),
    pinsertion := pinsertion p + k\<rparr>)"
  using assms
proof (induction stack arbitrary: k p)
  case Nil
  then show ?case by simp
next
  case (Cons d stack)
  show ?case
  proof (cases k)
    case 0
    then show ?thesis by simp
  next
    case (Suc n)
    then have lt: "pinsertion p < length (out_buf p)" using Cons.prems by simp
    have "take (Suc (pinsertion p)) ((out_buf p)[pinsertion p := digit_char c d])
        = take (pinsertion p) (out_buf p) @ [digit_char c d]"
      using lt by (simp add: take_Suc_conv_app_nth)
    then show ?thesis
      using Cons.IH [of n "p\<lparr>out_buf := (out_buf p)[pinsertion p := digit_char c d],
        pinsertion := Suc (pinsertion p)\<rparr>"] Cons.prems Suc
      unfolding Suc pop_digits_Cons [OF lt] by simp
  qed
qed

lemma pop_digits_outside:
  assumes "k \<le> length stack" and "length (out_buf p) < pinsertion p + k"
  shows "0 < k \<Longrightarrow> pop_digits c stack k p = Inl Write_outside"
  using assms
proof (induction stack arbitrary: k p)
  case Nil
  then show ?case by simp
next
  case (Cons d stack)
  obtain n where n: "k = Suc n" using Cons.prems(1) by (cases k) auto
  show ?case
  proof (cases "pinsertion p < length (out_buf p)")
    case False
    then show ?thesis by (simp add: n put_char_def)
  next
    case True
    then have "0 < n" using Cons.prems n by simp
    then show ?thesis
      using Cons.IH [of n "p\<lparr>out_buf := (out_buf p)[pinsertion p := digit_char c d],
        pinsertion := Suc (pinsertion p)\<rparr>"] Cons.prems n
      unfolding n pop_digits_Cons [OF True] by simp
  qed
qed

lemma push_digits_dec:
  "map (digit_char c) (push_digits 10 n stack) = dec_nat n @ map (digit_char c) stack"
proof (induction n arbitrary: stack rule: dec_nat.induct)
  case (1 n)
  show ?case
  proof (cases "n < 10")
    case True
    then show ?thesis by (simp add: push_digits.simps dec_nat.simps digit_char_def add.commute)
  next
    case False
    then have "push_digits 10 n stack = push_digits 10 (n div 10) (n mod 10 # stack)"
      by (subst push_digits.simps) (simp add: div_eq_0_iff)
    moreover have "digit_char c (n mod 10) = char_of (48 + n mod 10)"
    proof -
      have "n mod 10 \<le> 9" using mod_less_divisor [of 10 n] by linarith
      then show ?thesis by (simp add: digit_char_def add.commute)
    qed
    ultimately show ?thesis
      using 1 [OF False, of "n mod 10 # stack"] False
      by (subst dec_nat.simps) simp
  qed
qed

lemma push_digits_length: "length (push_digits 10 n []) = length (dec_nat n)"
  using arg_cong [OF push_digits_dec [of undefined n "[]"], of length] by simp

lemma dec_nat_pos: "0 < length (dec_nat n)"
  by (subst dec_nat.simps) simp

lemma dec_nat_length: "n < 10 ^ Suc k \<Longrightarrow> length (dec_nat n) \<le> Suc k"
proof (induction k arbitrary: n)
  case 0
  then show ?case by (subst dec_nat.simps) simp
next
  case (Suc k)
  have "n div 10 < 10 ^ Suc k" using Suc.prems by (simp add: less_mult_imp_div_less)
  from Suc.IH [OF this] show ?case by (subst dec_nat.simps) simp
qed

text \<open>The conversion \<open>%d\<close> without flags, for a number that is not negative.\<close>

lemma pvsnfmt_int_d:
  assumes w: "0 \<le> sint w" and room: "1 < nmax p"
    and fits: "int (length (dec_nat (nat (sint w)))) \<le> nmax p + 1"
  shows "pvsnfmt_int CHR ''d'' 0 0 (- 1) (CHR 0x00) w p =
    bind_fault (pop_digits CHR ''a'' (push_digits 10 (nat (sint w)) []) (length (dec_nat (nat (sint w)))) p)
      (\<lambda>p. Inr (int (length (dec_nat (nat (sint w)))), p))"
proof -
  let ?n = "nat (sint w)"
  have "sint w < 2 ^ 31" using sint_less [of w] by simp
  then have "?n < 10 ^ Suc 9" by simp
  from dec_nat_length [OF this] have len: "length (dec_nat ?n) \<le> 10" by simp
  have abs: "nat \<bar>sint w\<bar> = ?n" using w by simp
  have fill: "put_fill c 0 q = Inr q" for c q by (simp add: put_fill_def)
  show ?thesis
    unfolding pvsnfmt_int_def Let_def
    using w room fits len dec_nat_pos [of ?n]
    by (simp add: int_value_def abs flag_set_def push_digits_length write_sign_def fill not_le)
qed

text \<open>The conversion \<open>%d\<close> with enough room. The room the code believes to be left shrinks by the
  sign only.\<close>

lemma pvsnfmt_int_d_room:
  assumes w: "sint w \<noteq> - (2 ^ 31)" and room: "int (length (dec_int w)) < nmax p"
    and fits: "pinsertion p + length (dec_int w) \<le> length (out_buf p)"
  shows "pvsnfmt_int CHR ''d'' 0 0 (- 1) (CHR 0x00) w p =
    Inr (int (length (dec_int w)),
      p\<lparr>out_buf := take (pinsertion p) (out_buf p) @ dec_int w @ drop (pinsertion p + length (dec_int w)) (out_buf p),
        pinsertion := pinsertion p + length (dec_int w),
        nmax := nmax p - (if sint w < 0 then 1 else 0)\<rparr>)"
proof (cases "0 \<le> sint w")
  case True
  then have d: "dec_int w = dec_nat (nat (sint w))" by (simp add: dec_int_def)
  have "1 < nmax p" using room dec_nat_pos [of "nat (sint w)"] unfolding d by linarith
  moreover have "int (length (dec_nat (nat (sint w)))) \<le> nmax p + 1" using room d by simp
  ultimately have "pvsnfmt_int CHR ''d'' 0 0 (- 1) (CHR 0x00) w p =
    bind_fault (pop_digits CHR ''a'' (push_digits 10 (nat (sint w)) []) (length (dec_nat (nat (sint w)))) p)
      (\<lambda>p. Inr (int (length (dec_nat (nat (sint w)))), p))"
    using True by (intro pvsnfmt_int_d)
  moreover have "map (digit_char CHR ''a'') (push_digits 10 (nat (sint w)) []) = dec_nat (nat (sint w))"
    using push_digits_dec [of "CHR ''a''" "nat (sint w)" "[]"] by simp
  ultimately show ?thesis
    using pop_digits_writes [of "length (dec_nat (nat (sint w)))" "push_digits 10 (nat (sint w)) []" p "CHR ''a''"]
      fits d True by (simp add: push_digits_length)
next
  case False
  let ?n = "nat (- sint w)"
  have d: "dec_int w = CHR ''-'' # dec_nat ?n" using False by (simp add: dec_int_def)
  have "- (2 ^ 31) \<le> sint w" using sint_greater_eq [of w] by simp
  then have "?n < 10 ^ Suc 9" using False by simp
  from dec_nat_length [OF this] have len: "length (dec_nat ?n) \<le> 10" by simp
  have abs: "nat \<bar>sint w\<bar> = ?n" using False by simp
  have fill: "put_fill c 0 q = Inr q" for c q by (simp add: put_fill_def)
  let ?q = "p\<lparr>out_buf := (out_buf p)[pinsertion p := CHR ''-''], pinsertion := pinsertion p + 1, nmax := nmax p - 1\<rparr>"
  have sign: "put_room CHR ''-'' p = Inr ?q"
    using room fits d by (simp add: put_room_def put_char_def)
  have digits: "map (digit_char CHR ''a'') (push_digits 10 ?n []) = dec_nat ?n"
    using push_digits_dec [of "CHR ''a''" "?n" "[]"] by simp
  have start: "take (Suc (pinsertion p)) ((out_buf p)[pinsertion p := CHR ''-'']) = take (pinsertion p) (out_buf p) @ ''-''"
    using fits d by (simp add: take_Suc_conv_app_nth)
  have pop: "pop_digits CHR ''a'' (push_digits 10 ?n []) (length (dec_nat ?n)) ?q
      = Inr (?q\<lparr>out_buf := take (pinsertion p) (out_buf p) @ dec_int w @ drop (pinsertion p + length (dec_int w)) (out_buf p),
           pinsertion := pinsertion p + length (dec_int w)\<rparr>)"
    using pop_digits_writes [of "length (dec_nat ?n)" "push_digits 10 ?n []" ?q "CHR ''a''"] fits digits start d
    by (simp add: push_digits_length)
  have "int (length (dec_int w)) = 1 + int (length (dec_nat ?n))" using d by simp
  then have "2 < nmax p" using room dec_nat_pos [of ?n] by linarith
  then show ?thesis
    unfolding pvsnfmt_int_def Let_def
    using False w room len dec_nat_pos [of ?n] pop d
    by (simp add: int_value_def abs flag_set_def push_digits_length write_sign_def fill not_le sign)
qed

lemma vsn_run_append: "vsn_run (xs @ ys) s = bind_fault (vsn_run xs s) (vsn_run ys)"
proof (induction xs arbitrary: s)
  case Nil
  then show ?case by simp
next
  case (Cons x xs)
  show ?case by (cases "vsn_step x s") (simp_all add: Cons.IH)
qed

text \<open>The conversions \<open>%d\<close> and \<open>%s\<close> of a format.\<close>

lemma vsn_run_d:
  assumes "fstate s = STATE_NONE" and "va_args s = Va_int w # ap"
  shows "vsn_run ''%d'' s =
    bind_fault (pvsnfmt_int CHR ''d'' 0 0 (- 1) (CHR 0x00) w (vout s)) (\<lambda>(n, p).
      Inr (s\<lparr>vout := p, ncount := ncount s + n, fstate := STATE_NONE, flags := 0, width := 0,
             precision := - 1, prefix := CHR 0x00, va_args := ap\<rparr>))"
  using assms
  by (cases "pvsnfmt_int CHR ''d'' 0 0 (- 1) (CHR 0x00) w (vout s)")
    (auto simp: vsn_step_def Let_def check_flag_def check_width_def check_precision_def check_prefix_def
      check_type_def int_types_def is_digit_def get_vars_def get_var_def FLAG_DEFAULT_def UNKNOWN_WIDTH_def
      UNKNOWN_PRECISION_def VARIABLE_WIDTH_def VARIABLE_PRECISION_def)

lemma vsn_run_s:
  assumes "fstate s = STATE_NONE" and "va_args s = Va_str a # ap"
  shows "vsn_run ''%s'' s =
    bind_fault (pvsnfmt_str 0 0 (- 1) a (vout s)) (\<lambda>(n, p).
      Inr (s\<lparr>vout := p, ncount := ncount s + n, fstate := STATE_NONE, flags := 0, width := 0,
             precision := - 1, prefix := CHR 0x00, va_args := ap\<rparr>))"
  using assms
  by (cases "pvsnfmt_str 0 0 (- 1) a (vout s)")
    (auto simp: vsn_step_def Let_def check_flag_def check_width_def check_precision_def check_prefix_def
      check_type_def int_types_def is_digit_def get_vars_def get_var_def FLAG_DEFAULT_def UNKNOWN_WIDTH_def
      UNKNOWN_PRECISION_def VARIABLE_WIDTH_def VARIABLE_PRECISION_def)

lemma pvsnfmt_str_plain:
  fixes s :: string
  assumes "1 \<le> nmax p" and "int (pinsertion p) + nmax p \<le> int (length (out_buf p))"
  defines "k \<equiv> min (length s) (nat (nmax p - 1))"
  shows "pvsnfmt_str 0 0 (- 1) (Some s) p =
    Inr (int (length s),
      p\<lparr>out_buf := take (pinsertion p) (out_buf p) @ take k s @ drop (pinsertion p + k) (out_buf p),
        pinsertion := pinsertion p + k, nmax := nmax p - int k\<rparr>)"
proof (cases "nmax p \<le> 1")
  case True
  then show ?thesis using assms(1) by (simp add: pvsnfmt_str_def k_def)
next
  case False
  have k: "(if nmax p - 1 < int (length s) then nmax p - 1 else int (length s)) = int k"
    using False by (auto simp: k_def)
  have "int (pinsertion p) + int k \<le> int (length (out_buf p))"
    using assms(2) False by (auto simp: k_def)
  then have copy: "put_copy s (if nmax p - 1 < int (length s) then nmax p - 1 else int (length s)) p =
      Inr (p\<lparr>out_buf := take (pinsertion p) (out_buf p) @ take k s @ drop (pinsertion p + k) (out_buf p),
        pinsertion := pinsertion p + k, nmax := nmax p - int k\<rparr>)"
    unfolding k by (simp add: put_copy_def)
  have minus: "(if (- 1 :: int) < 0 then a else b) = a" for a b :: int by simp
  have "put_fill c 0 q = Inr q" for c q by (simp add: put_fill_def)
  then show ?thesis
    using False unfolding pvsnfmt_str_def Let_def minus option.case
    by (simp add: flag_set_def copy split del: if_split)
qed

section \<open>Properties\<close>



lemma snprintf_string:
  assumes "1 \<le> n" and "n \<le> int (length str)"
  shows "co_snprintf str n ''%s'' [Va_str (Some s)] =
    Inr (int (length s), take (nat (n - 1)) s @ CHR 0x00 # drop (min (length s) (nat (n - 1)) + 1) str, [])"
proof -
  let ?k = "min (length s) (nat (n - 1))"
  have k: "?k < length str" "int ?k < n" using assms by auto
  have "take ?k s = take (nat (n - 1)) s" by (cases "length s \<le> nat (n - 1)") (simp_all add: min_def)
  moreover have "(take ?k s @ drop ?k str)[?k := CHR 0x00] = take ?k s @ CHR 0x00 # drop (?k + 1) str"
    using k(1) by (simp add: list_update_append Cons_nth_drop_Suc [symmetric])
  moreover have "pvsnfmt_str 0 0 (- 1) (Some s) \<lparr>out_buf = str, pinsertion = 0, nmax = n\<rparr> =
      Inr (int (length s), \<lparr>out_buf = take ?k s @ drop ?k str, pinsertion = ?k, nmax = n - int ?k\<rparr>)"
    using pvsnfmt_str_plain [of "\<lparr>out_buf = str, pinsertion = 0, nmax = n\<rparr>" s] assms by simp
  ultimately show ?thesis
    using k unfolding co_snprintf_def co_vsnprintf_def
    by (simp add: vsn_run_s put_char_def del: vsn_run.simps)
qed

text \<open>
  Copying a string with \<open>%s\<close>: the destination gets the string cut to the size less one and
  a terminating 0, what is behind stays, and the result is the full length of the string, by
  which the caller can see that it was cut.
\<close>

theorem co_snprintf_string:
  assumes "1 \<le> n" and "n \<le> int (length str)"
  shows "co_snprintf str n ''%s'' [Va_str (Some s)] =
    Inr (int (length s), take (nat (n - 1)) s @ CHR 0x00 # drop (min (length s) (nat (n - 1)) + 1) str, [])"
  using snprintf_string [OF assms] .

theorem co_snprintf_string_witness:
  "co_snprintf ''zzzzzz'' 5 ''%s'' [Va_str (Some ''abcdefgh'')] = Inr (8, ''abcd'' @ CHR 0x00 # ''z'', [])"
  using co_snprintf_string [of 5 "''zzzzzz''" "''abcdefgh''"] by simp

text \<open>
  \<open>%d\<close> prints a number in decimal, with a sign if it is negative, when the destination has
  room for it. (The most negative number is excluded: negating it overflows.)
\<close>

theorem co_snprintf_decimal:
  assumes "sint w \<noteq> - (2 ^ 31)" and "int (length (dec_int w)) < n" and "n \<le> int (length str)"
  shows "co_snprintf str n ''%d'' [Va_int w] =
    Inr (int (length (dec_int w)), dec_int w @ CHR 0x00 # drop (length (dec_int w) + 1) str, [])"
proof -
  let ?d = "dec_int w"
  have room: "length ?d < length str" using assms by simp
  have neg: "sint w < 0 \<Longrightarrow> 1 \<le> length ?d" by (simp add: dec_int_def)
  have "(?d @ drop (length ?d) str)[length ?d := CHR 0x00] = ?d @ CHR 0x00 # drop (length ?d + 1) str"
    using room by (simp add: list_update_append Cons_nth_drop_Suc [symmetric])
  moreover have "0 < n - (if sint w < 0 then 1 else 0)" using assms(2) neg by auto
  moreover have "pvsnfmt_int CHR ''d'' 0 0 (- 1) (CHR 0x00) w \<lparr>out_buf = str, pinsertion = 0, nmax = n\<rparr> =
      Inr (int (length ?d), \<lparr>out_buf = ?d @ drop (length ?d) str, pinsertion = length ?d,
        nmax = n - (if sint w < 0 then 1 else 0)\<rparr>)"
    using room pvsnfmt_int_d_room [of w "\<lparr>out_buf = str, pinsertion = 0, nmax = n\<rparr>"] assms(1,2) by simp
  ultimately show ?thesis
    using room unfolding co_snprintf_def co_vsnprintf_def
    by (simp add: vsn_run_d put_char_def del: vsn_run.simps)
qed

theorem co_snprintf_decimal_witness:
  "co_snprintf ''zzzzzz'' 5 ''%d'' [Va_int (- 123)] = Inr (4, ''-123'' @ CHR 0x00 # ''z'', [])"
proof -
  have "dec_int (- 123) = ''-123''" by code_simp
  then show ?thesis using co_snprintf_decimal [of "- 123" 5 "''zzzzzz''"] by simp
qed

text \<open>
  The digits of an integer are never taken off the room that is left, because the code
  subtracts its loop variable after the loop has run down to 0. Two numbers that fit into the
  destination one by one but not together are written past its end by one \<open>%d%d\<close>, whatever
  the size given.
\<close>

theorem co_snprintf_digits_uncounted:
  assumes "0 \<le> sint v" and "0 \<le> sint w"
    and "length (dec_int v) < length str" and "length (dec_int w) < length str"
    and "length str \<le> length (dec_int v) + length (dec_int w)"
  shows "co_snprintf str (int (length str)) ''%d%d'' [Va_int v, Va_int w] = Inl Write_outside"
proof -
  let ?n = "int (length str)" and ?a = "length (dec_int v)" and ?b = "length (dec_int w)"
  let ?s = "\<lparr>vout = \<lparr>out_buf = str, pinsertion = 0, nmax = ?n\<rparr>, ncount = 0, fstate = STATE_NONE, flags = 0,
    width = 0, precision = 0, prefix = CHR 0x00, va_args = [Va_int v, Va_int w], stores = []\<rparr>"
  have d: "dec_int w = dec_nat (nat (sint w))" using assms(2) by (simp add: dec_int_def)
  let ?p = "\<lparr>out_buf = dec_int v @ drop ?a str, pinsertion = ?a, nmax = ?n\<rparr>"
  have first: "pvsnfmt_int CHR ''d'' 0 0 (- 1) (CHR 0x00) v (vout ?s) = Inr (int ?a, ?p)"
    using pvsnfmt_int_d_room [of v "vout ?s"] assms(1,3) by simp
  have pos: "1 < nmax ?p" using assms(4) dec_nat_pos [of "nat (sint w)"] unfolding d by (simp, linarith)
  have fit: "int (length (dec_nat (nat (sint w)))) \<le> nmax ?p + 1" using assms(4) d by simp
  note second = pvsnfmt_int_d [OF assms(2) pos fit]
  show ?thesis
  proof (cases "length str < ?a + ?b")
    case True
    have "pop_digits CHR ''a'' (push_digits 10 (nat (sint w)) []) ?b ?p = Inl Write_outside"
      using True assms(3) dec_nat_pos [of "nat (sint w)"]
      by (intro pop_digits_outside) (simp_all add: push_digits_length d)
    then have "pvsnfmt_int CHR ''d'' 0 0 (- 1) (CHR 0x00) w ?p = Inl Write_outside"
      using second d by simp
    then show ?thesis
      using first vsn_run_append [of "''%d''" "''%d''" ?s]
      unfolding co_snprintf_def co_vsnprintf_def
      by (simp add: vsn_run_d del: vsn_run.simps)
  next
    case False
    then have sum: "?a + ?b = length str" using assms(5) by simp
    then have "pop_digits CHR ''a'' (push_digits 10 (nat (sint w)) []) ?b ?p =
        Inr (?p\<lparr>out_buf := take ?a (out_buf ?p) @ map (digit_char CHR ''a'') (take ?b (push_digits 10 (nat (sint w)) [])) @
             drop (?a + ?b) (out_buf ?p), pinsertion := ?a + ?b\<rparr>)"
      using assms(3) by (subst pop_digits_writes) (simp_all add: push_digits_length d)
    then obtain q where "pvsnfmt_int CHR ''d'' 0 0 (- 1) (CHR 0x00) w ?p = Inr (int ?b, q)"
      and "pinsertion q = length str" and "length (out_buf q) = length str" and "nmax q = ?n"
      using second d sum assms(3) by (simp add: push_digits_length)
    moreover have "0 < ?n" using assms(3) by linarith
    ultimately show ?thesis
      using first vsn_run_append [of "''%d''" "''%d''" ?s]
      unfolding co_snprintf_def co_vsnprintf_def
      by (simp add: vsn_run_d put_char_def del: vsn_run.simps)
  qed
qed

theorem co_snprintf_digits_uncounted_witness:
  "co_snprintf ''zzzz'' (int (length ''zzzz'')) ''%d%d'' [Va_int 123, Va_int 456] = Inl Write_outside"
  by (rule co_snprintf_digits_uncounted) (simp_all add: dec_int_def dec_nat.simps)

text \<open>What is written after the text \<open>t\<close>: as much of it as fits.\<close>

definition written :: "string \<Rightarrow> int \<Rightarrow> string \<Rightarrow> pout" where
  "written str n t =
     (let k = min (length t) (nat (n - 1)) in \<lparr>out_buf = take k t @ drop k str, pinsertion = k, nmax = n - int k\<rparr>)"

lemma put_room_written:
  assumes "1 \<le> n" and "n \<le> int (length str)"
  shows "put_room c (written str n t) = Inr (written str n (t @ [c]))"
proof (cases "length t < nat (n - 1)")
  case True
  then have "drop (length t) str = str ! length t # drop (length t + 1) str"
    using assms by (simp add: Cons_nth_drop_Suc)
  then show ?thesis using True assms
    by (auto simp: put_room_def put_char_def written_def Let_def min_def list_update_append)
next
  case False
  then show ?thesis using assms by (auto simp: put_room_def written_def Let_def min_def)
qed

lemma vsn_run_literal:
  assumes "1 \<le> n" and "n \<le> int (length str)" and "CHR ''%'' \<notin> set lits"
    and "fstate s = STATE_NONE" and "vout s = written str n t"
  shows "vsn_run lits s = Inr (s\<lparr>vout := written str n (t @ lits), ncount := ncount s + int (length lits)\<rparr>)"
  using assms(3-)
proof (induction lits arbitrary: s t)
  case Nil
  then show ?case by simp
next
  case (Cons c lits)
  have "vsn_step c s = Inr (s\<lparr>vout := written str n (t @ [c]), ncount := ncount s + 1\<rparr>)"
    using Cons.prems by (auto simp: vsn_step_def putchar_def put_room_written [OF assms(1,2)] split: fmt_state.split)
  then show ?case using Cons.IH [of "s\<lparr>vout := written str n (t @ [c]), ncount := ncount s + 1\<rparr>" "t @ [c]"] Cons.prems by (simp add: add.assoc)
qed

lemma pvsnfmt_str_written:
  assumes "1 \<le> n" and "n \<le> int (length str)"
  shows "pvsnfmt_str 0 0 (- 1) (Some s) (written str n t) = Inr (int (length s), written str n (t @ s))"
proof -
  let ?k = "min (length t) (nat (n - 1))"
  have ins: "1 \<le> nmax (written str n t)" "int (pinsertion (written str n t)) + nmax (written str n t) \<le> int (length (out_buf (written str n t)))"
    using assms by (auto simp: written_def Let_def)
  show ?thesis
    unfolding pvsnfmt_str_plain [OF ins] using assms
    by (cases "length t \<le> nat (n - 1)") (auto simp: written_def Let_def min_def add.commute nat_diff_distrib' diff_right_commute)
qed

lemma update_spliced:
  assumes "m \<le> length u" and "m < length str"
  shows "(take m u @ drop m str)[m := c] = take m u @ c # drop (m + 1) str"
proof -
  have "drop m str = str ! m # drop (m + 1) str" using assms(2) by (simp add: Cons_nth_drop_Suc)
  then show ?thesis using assms(1) by (simp add: list_update_append min_def)
qed

lemma snprintf_literal_string:
  assumes "1 \<le> n" and "n \<le> int (length str)" and "CHR ''%'' \<notin> set lits"
  shows "co_snprintf str n (lits @ ''%s'') [Va_str (Some s)] =
    Inr (int (length (lits @ s)), take (nat (n - 1)) (lits @ s) @ CHR 0x00 # drop (min (length (lits @ s)) (nat (n - 1)) + 1) str, [])"
proof -
  let ?s = "\<lparr>vout = written str n [], ncount = 0, fstate = STATE_NONE, flags = 0, width = 0, precision = 0, prefix = CHR 0x00,
    va_args = [Va_str (Some s)], stores = []\<rparr>"
  let ?k = "min (length (lits @ s)) (nat (n - 1))"
  have k: "?k < length str" "int ?k < n" using assms by auto
  have start: "written str n [] = \<lparr>out_buf = str, pinsertion = 0, nmax = n\<rparr>" by (simp add: written_def)
  have run: "vsn_run (lits @ ''%s'') ?s = Inr (?s\<lparr>vout := written str n (lits @ s), ncount := int (length (lits @ s)), precision := - 1, va_args := []\<rparr>)"
    unfolding vsn_run_append
    using vsn_run_literal [OF assms, of ?s "[]"]
    by (simp add: vsn_run_s pvsnfmt_str_written [OF assms(1,2)] del: vsn_run.simps)
  have nul: "(take ?k (lits @ s) @ drop ?k str)[?k := CHR 0x00] = take ?k (lits @ s) @ CHR 0x00 # drop (?k + 1) str"
    by (rule update_spliced) (use k in auto)
  have cut: "take ?k (lits @ s) = take (nat (n - 1)) (lits @ s)"
    by (cases "length (lits @ s) \<le> nat (n - 1)") (simp_all add: min_def)
  define w where "w = written str n (lits @ s)"
  have w: "0 < nmax w" "put_char (CHR 0x00) w = Inr (w\<lparr>out_buf := take ?k (lits @ s) @ CHR 0x00 # drop (?k + 1) str, pinsertion := ?k + 1, nmax := n - int ?k - 1\<rparr>)"
    using k nul by (simp_all add: w_def written_def Let_def put_char_def del: take_append append_assoc)
  show ?thesis
    unfolding co_snprintf_def co_vsnprintf_def start [symmetric] run cut [symmetric] w_def [symmetric]
    by (simp add: w del: take_append append_assoc)
qed

text \<open>Writing the terminator after a text.\<close>

lemma put_nul_written:
  assumes "1 \<le> n" and "n \<le> int (length str)"
  shows "0 < nmax (written str n t)"
    and "put_char (CHR 0x00) (written str n t) = Inr \<lparr>out_buf = take (nat (n - 1)) t @ CHR 0x00 # drop (min (length t) (nat (n - 1)) + 1) str,
      pinsertion = min (length t) (nat (n - 1)) + 1, nmax = n - int (min (length t) (nat (n - 1))) - 1\<rparr>"
proof -
  let ?k = "min (length t) (nat (n - 1))"
  have k: "?k < length str" "int ?k < n" using assms by auto
  have "(take ?k t @ drop ?k str)[?k := CHR 0x00] = take ?k t @ CHR 0x00 # drop (?k + 1) str"
    by (rule update_spliced) (use k in auto)
  moreover have "take ?k t = take (nat (n - 1)) t" by (cases "length t \<le> nat (n - 1)") (simp_all add: min_def)
  ultimately show "put_char (CHR 0x00) (written str n t) = Inr \<lparr>out_buf = take (nat (n - 1)) t @ CHR 0x00 # drop (?k + 1) str,
      pinsertion = ?k + 1, nmax = n - int ?k - 1\<rparr>"
    using k by (simp add: written_def Let_def put_char_def)
  show "0 < nmax (written str n t)" using k by (simp add: written_def Let_def)
qed

lemma snprintf_two_strings:
  assumes "1 \<le> n" and "n \<le> int (length str)"
  shows "co_snprintf str n ''%s%s'' [Va_str (Some s), Va_str (Some t)] =
    Inr (int (length (s @ t)), take (nat (n - 1)) (s @ t) @ CHR 0x00 # drop (min (length (s @ t)) (nat (n - 1)) + 1) str, [])"
proof -
  let ?s = "\<lparr>vout = written str n [], ncount = 0, fstate = STATE_NONE, flags = 0, width = 0, precision = 0, prefix = CHR 0x00,
    va_args = [Va_str (Some s), Va_str (Some t)], stores = []\<rparr>"
  have start: "written str n [] = \<lparr>out_buf = str, pinsertion = 0, nmax = n\<rparr>" by (simp add: written_def)
  have format: "''%s%s'' = ''%s'' @ ''%s''" by simp
  have run: "vsn_run ''%s%s'' ?s = Inr (?s\<lparr>vout := written str n (s @ t), ncount := int (length (s @ t)), precision := - 1, va_args := []\<rparr>)"
    unfolding format vsn_run_append
    by (simp add: vsn_run_s pvsnfmt_str_written [OF assms] del: vsn_run.simps)
  define w where "w = written str n (s @ t)"
  note nul = put_nul_written [OF assms, of "s @ t", folded w_def]
  show ?thesis
    unfolding co_snprintf_def co_vsnprintf_def start [symmetric] run w_def [symmetric]
    by (simp add: nul del: take_append append_assoc)
qed

end
