(* ===== verification/Module_Repr.thy ===== *)
theory Module_Repr
  imports Co_Modules Co_Snprintf
begin

text \<open>
  The printed name of a module (\<open>src/colinux/common/module_repr.c\<close>).
\<close>

text \<open>\<open>co_module_repr\<close>: the case ranges stop one before the last unit of each class.\<close>

definition co_module_repr :: "co_module \<Rightarrow> string" where
  "co_module_repr module =
     (if module = CO_MODULE_LINUX then ''linux''
      else if module = CO_MODULE_MONITOR then ''monitor''
      else if module = CO_MODULE_DAEMON then ''daemon''
      else if module = CO_MODULE_IDLE then ''idle''
      else if module = CO_MODULE_KERNEL_SWITCH then ''kernel''
      else if module = CO_MODULE_USER_SWITCH then ''user''
      else if module = CO_MODULE_CONSOLE then ''console''
      else if module = CO_MODULE_PRINTK then ''printk''
      else if CO_MODULE_CONET0 \<le> module \<and> module \<le> CO_MODULE_CONET_END - 1
        then ''net'' @ dec_int (module - CO_MODULE_CONET0)
      else if CO_MODULE_COSCSI0 \<le> module \<and> module \<le> CO_MODULE_COSCSI_END - 1
        then ''scsi'' @ dec_int (module - CO_MODULE_COSCSI0)
      else if CO_MODULE_COBD0 \<le> module \<and> module \<le> CO_MODULE_COBD_END - 1
        then ''cobd'' @ dec_int (module - CO_MODULE_COBD0)
      else if CO_MODULE_SERIAL0 \<le> module \<and> module \<le> CO_MODULE_SERIAL_END - 1
        then ''serial'' @ dec_int (module - CO_MODULE_SERIAL0)
      else ''unknown<'' @ dec_int module @ ''>'')"

section \<open>Properties\<close>

text \<open>
  Every module number below \<open>CO_MODULES_MAX\<close> is printed with a name of its own: no two
  modules share the name that \<open>co_module_repr\<close> prints. The last unit of each numbered class,
  which the case ranges leave out, is printed as \<open>unknown<n>\<close> with its module number, and that
  number is what keeps the names apart.
\<close>

theorem co_module_repr_distinct:
  "distinct (map (\<lambda>n. co_module_repr (word_of_nat n)) [0..<unat CO_MODULES_MAX]) \<and>
   co_module_repr CO_MODULE_CONET_END = ''unknown<23>'' \<and>
   co_module_repr CO_MODULE_COBD_END = ''unknown<55>'' \<and>
   co_module_repr CO_MODULE_SERIAL_END = ''unknown<119>'' \<and>
   co_module_repr CO_MODULE_COSCSI_END = ''unknown<151>''"
  by code_simp

end
