(* ===== verification/Co_Messages.thy ===== *)
theory Co_Messages
  imports Co_Queue Co_Modules
begin

text \<open>
  The queueing of messages (\<open>src/colinux/common/messages.c\<close>). An item of a message queue holds a pointer to the
  message, which is an allocated block of its own.
\<close>

section \<open>Queueing messages\<close>

record co_message =
  msg_from :: co_module
  msg_to :: co_module
  priority :: ulong
  msg_type :: ulong
  msg_size :: ulong
  msg_data :: "uchar list"

definition sizeof_co_message :: ulong where
  "sizeof_co_message = 20"

text \<open>The memory: a queue item's data area holds the pointer to a message.\<close>

record msg_mem =
  qm :: "ulong qmem"
  msgs :: "ulong \<rightharpoonup> co_message"

definition free_message :: "ulong \<Rightarrow> msg_mem \<Rightarrow> msg_mem option" where
  "free_message p m =
     map_option (\<lambda>h. m\<lparr>qm := h, msgs := (msgs m)(p := None)\<rparr>) (co_os_free p (qm m))"

text \<open>\<open>co_message_dup\<close>: the size of the copy is computed in \<open>unsigned long\<close>; a sum that
  wraps leaves a copy without its header (\<^term>\<open>None\<close>).\<close>

definition co_message_dup ::
  "ulong option \<Rightarrow> co_message \<Rightarrow> msg_mem \<Rightarrow> (co_rc_value + (ulong \<times> msg_mem)) option" where
  "co_message_dup answer message m =
     (let size = sizeof_co_message + msg_size message
      in case answer of
           None \<Rightarrow> Some (Inl CO_RC_OUT_OF_MEMORY)
         | Some allocated \<Rightarrow>
             if size < sizeof_co_message then None
             else Some (Inr (allocated,
               m\<lparr>qm := co_os_malloc answer size (qm m),
                 msgs := (msgs m)(allocated \<mapsto>
                   message\<lparr>msg_data := take (unat (msg_size message)) (msg_data message)\<rparr>)\<rparr>)))"

definition co_message_dup_to_queue ::
  "ulong option \<Rightarrow> ulong option \<Rightarrow> co_message \<Rightarrow> co_queue \<times> msg_mem \<Rightarrow>
     (co_rc_value \<times> co_queue \<times> msg_mem) option" where
  "co_message_dup_to_queue answer1 answer2 message = (\<lambda>(q, m).
     Option.bind (co_message_dup answer1 message m) (\<lambda>r.
       case r of
         Inl rc \<Rightarrow> Some (rc, q, m)
       | Inr (dup_message, m) \<Rightarrow>
           (case co_queue_malloc answer2 4 (qm m) of
              Inl rc \<Rightarrow> map_option (\<lambda>m. (rc, q, m)) (free_message dup_message m)
            | Inr (queue_item, h) \<Rightarrow>
                let h = h\<lparr>content := (content h)(queue_item \<mapsto> dup_message)\<rparr>;
                    (q, h) = co_queue_add_head queue_item (q, h)
                in Some (CO_RC_OK, q, m\<lparr>qm := h\<rparr>))))"

definition co_message_mov_to_queue ::
  "ulong option \<Rightarrow> ulong \<Rightarrow> co_queue \<times> msg_mem \<Rightarrow> co_rc_value \<times> co_queue \<times> msg_mem" where
  "co_message_mov_to_queue answer message = (\<lambda>(q, m).
     case co_queue_malloc answer 4 (qm m) of
       Inl rc \<Rightarrow> (rc, q, m)
     | Inr (queue_item, h) \<Rightarrow>
         let h = h\<lparr>content := (content h)(queue_item \<mapsto> message)\<rparr>;
             (q, h) = co_queue_add_head queue_item (q, h)
         in (CO_RC_OK, q, m\<lparr>qm := h\<rparr>))"

text \<open>The messages on a queue, newest first: each item points to an allocated message, and no
  block serves two purposes.\<close>

definition mqueue_rel :: "co_queue \<times> msg_mem \<Rightarrow> (ulong \<times> co_message) list \<Rightarrow> bool" where
  "mqueue_rel = (\<lambda>(q, m) pms. \<exists>items.
     queue_rel (q, qm m) items \<and> map (content (qm m)) items = map (Some \<circ> fst) pms \<and>
     (\<forall>p x. (p, x) \<in> set pms \<longrightarrow> msgs m p = Some x \<and> blocks (qm m) p \<noteq> None) \<and>
     distinct (map fst pms @ map node_of items))"

text \<open>A block the host may return: not allocated, and not the queue's own list head.\<close>

definition fresh_block :: "co_queue \<times> msg_mem \<Rightarrow> ulong \<Rightarrow> bool" where
  "fresh_block = (\<lambda>(q, m) a. blocks (qm m) a = None \<and> a \<noteq> head q)"

text \<open>Allocating blocks and storing messages elsewhere keeps the queue.\<close>

lemma queue_rel_malloc:
  "queue_rel (q, h) ps \<Longrightarrow> blocks h a = None \<Longrightarrow> queue_rel (q, co_os_malloc (Some a) n h) ps"
  by (auto simp: queue_rel_def co_os_malloc_def list_all_iff)

lemma queue_rel_content: "queue_rel (q, h\<lparr>content := c\<rparr>) ps = queue_rel (q, h) ps"
  by (simp add: queue_rel_def)

lemma mqueue_rel_alloc_message:
  assumes rel: "mqueue_rel (q, m) pms" and fresh: "fresh_block (q, m) a"
  shows "mqueue_rel (q, m\<lparr>qm := co_os_malloc (Some a) n (qm m), msgs := (msgs m)(a \<mapsto> x)\<rparr>) pms"
proof -
  obtain items where items: "queue_rel (q, qm m) items"
      "map (content (qm m)) items = map (Some \<circ> fst) pms"
      "(\<forall>p x. (p, x) \<in> set pms \<longrightarrow> msgs m p = Some x \<and> blocks (qm m) p \<noteq> None)"
      "distinct (map fst pms @ map node_of items)"
    using rel by (auto simp: mqueue_rel_def)
  have "queue_rel (q, co_os_malloc (Some a) n (qm m)) items"
    using items(1) fresh by (intro queue_rel_malloc) (simp_all add: fresh_block_def)
  moreover have "\<forall>p y. (p, y) \<in> set pms \<longrightarrow>
      ((msgs m)(a \<mapsto> x)) p = Some y \<and> blocks (co_os_malloc (Some a) n (qm m)) p \<noteq> None"
  proof (intro allI impI)
    fix p y assume "(p, y) \<in> set pms"
    with items(3) have "msgs m p = Some y \<and> blocks (qm m) p \<noteq> None" by blast
    moreover from this have "p \<noteq> a" using fresh by (auto simp: fresh_block_def)
    ultimately show "((msgs m)(a \<mapsto> x)) p = Some y \<and>
        blocks (co_os_malloc (Some a) n (qm m)) p \<noteq> None"
      by (simp add: co_os_malloc_def)
  qed
  ultimately show ?thesis
    using items(2,4) by (auto simp: mqueue_rel_def co_os_malloc_def intro!: exI [of _ items])
qed

text \<open>Pushing an item that points to a message already stored.\<close>

lemma mqueue_rel_push:
  assumes rel: "mqueue_rel (q, m) pms" and fresh: "fresh_block (q, m) b"
    and msg: "msgs m p = Some x" "blocks (qm m) p \<noteq> None"
    and new: "p \<notin> set (map fst pms)" "\<forall>items. queue_rel (q, qm m) items \<longrightarrow> p \<notin> set (map node_of items)"
    and push: "co_queue_add_head (b + sizeof_co_queue_item)
        (q, (co_os_malloc (Some b) n (qm m))\<lparr>content := (content (qm m))(b + sizeof_co_queue_item \<mapsto> p)\<rparr>)
      = (q', h')"
  shows "mqueue_rel (q', m\<lparr>qm := h'\<rparr>) ((p, x) # pms)"
proof -
  define i where "i = b + sizeof_co_queue_item"
  let ?h = "(co_os_malloc (Some b) n (qm m))\<lparr>content := (content (qm m))(i \<mapsto> p)\<rparr>"
  obtain items where items: "queue_rel (q, qm m) items"
      "map (content (qm m)) items = map (Some \<circ> fst) pms"
      "(\<forall>p x. (p, x) \<in> set pms \<longrightarrow> msgs m p = Some x \<and> blocks (qm m) p \<noteq> None)"
      "distinct (map fst pms @ map node_of items)"
    using rel by (auto simp: mqueue_rel_def)
  have bnone: "blocks (qm m) b = None" and bhead: "b \<noteq> head q"
    using fresh by (simp_all add: fresh_block_def)
  have i_new: "i \<notin> set items"
    using items(1) bnone by (auto simp: queue_rel_def list_all_iff i_def)
  have "queue_rel (q, ?h) items"
    using items(1) bnone by (simp add: queue_rel_content queue_rel_malloc)
  moreover have "queueable (q, ?h) items i"
    using i_new bhead by (simp add: queueable_def co_os_malloc_def i_def)
  ultimately have "queue_rel (q', h') (i # items)"
    using push queue_rel_add_head [of "(q, ?h)" items i] by (simp add: i_def)
  moreover have h': "content h' = (content (qm m))(i \<mapsto> p)" "blocks h' = (blocks (qm m))(b \<mapsto> n)"
    using push by (auto simp: co_queue_add_head_def co_os_malloc_def i_def)
  moreover have "map ((content (qm m))(i \<mapsto> p)) items = map (content (qm m)) items"
    using i_new by (intro map_cong) auto
  moreover have bp: "(b, y) \<notin> set pms" for y using items(3) bnone by blast
  moreover have "p \<noteq> b" using msg(2) bnone by auto
  moreover have "distinct (map fst ((p, x) # pms) @ map node_of (i # items))"
  proof -
    from bp have "b \<notin> set (map fst pms)" by auto
    moreover have "b \<notin> node_of ` set items"
      using i_new by (metis i_def node_of_back(1) node_of_image)
    moreover have "p \<notin> node_of ` set items" using new(2) items(1) by simp
    ultimately show ?thesis
      using items(4) new(1) \<open>p \<noteq> b\<close> by (simp add: i_def)
  qed
  moreover have "\<forall>r y. (r, y) \<in> set ((p, x) # pms) \<longrightarrow> msgs m r = Some y \<and> blocks h' r \<noteq> None"
    using items(3) msg by (auto simp: h'(2))
  ultimately show ?thesis
    using items(2) unfolding mqueue_rel_def prod.case by (intro exI [of _ "i # items"]) simp
qed

section \<open>Properties\<close>

lemma dup_frees_on_failure:
  assumes rel: "mqueue_rel (q, m) pms" and a1: "fresh_block (q, m) a1"
    and size: "\<not> sizeof_co_message + msg_size x < sizeof_co_message"
  shows "\<exists>m'. co_message_dup_to_queue (Some a1) None x (q, m) = Some (CO_RC_OUT_OF_MEMORY, q, m') \<and>
           blocks (qm m') = blocks (qm m) \<and> mqueue_rel (q, m') pms"
proof -
  define m' where "m' = m\<lparr>qm := (qm m)\<lparr>blocks := (blocks (qm m))(a1 := None)\<rparr>,
    msgs := (msgs m)(a1 := None)\<rparr>"
  have blk: "(blocks (qm m))(a1 := None) = blocks (qm m)"
    using a1 by (auto simp: fresh_block_def)
  have run: "co_message_dup_to_queue (Some a1) None x (q, m) = Some (CO_RC_OUT_OF_MEMORY, q, m')"
    using size by (simp add: co_message_dup_to_queue_def co_message_dup_def co_queue_malloc_def
        free_message_def co_os_free_def co_os_malloc_def m'_def Let_def)
  obtain items where items: "queue_rel (q, qm m) items"
      "map (content (qm m)) items = map (Some \<circ> fst) pms"
      "\<forall>p x. (p, x) \<in> set pms \<longrightarrow> msgs m p = Some x \<and> blocks (qm m) p \<noteq> None"
      "distinct (map fst pms @ map node_of items)"
    using rel by (auto simp: mqueue_rel_def)
  have "p \<noteq> a1" if "(p, y) \<in> set pms" for p y
    using items(3) that a1 unfolding fresh_block_def by blast
  then have "\<forall>p x. (p, x) \<in> set pms \<longrightarrow> msgs m' p = Some x \<and> blocks (qm m') p \<noteq> None"
    using items(3) by (auto simp: m'_def blk)
  moreover have "queue_rel (q, qm m') items"
    using items(1) by (simp add: m'_def blk)
  moreover have "content (qm m') = content (qm m)" by (simp add: m'_def)
  ultimately have "mqueue_rel (q, m') pms"
    using items(2,4) by (auto simp: mqueue_rel_def)
  then show ?thesis using run by (auto simp: m'_def blk)
qed

lemma dup_succeeds:
  assumes rel: "mqueue_rel (q, m) pms" and a1: "fresh_block (q, m) a1"
    and a2: "fresh_block (q, m) a2" and ne: "a1 \<noteq> a2"
    and size: "\<not> sizeof_co_message + msg_size x < sizeof_co_message"
    and len: "length (msg_data x) = unat (msg_size x)"
  shows "\<exists>q' m'. co_message_dup_to_queue (Some a1) (Some a2) x (q, m) = Some (CO_RC_OK, q', m') \<and>
           mqueue_rel (q', m') ((a1, x) # pms)"
proof -
  define m1 where "m1 = m\<lparr>qm := co_os_malloc (Some a1) (sizeof_co_message + msg_size x) (qm m),
    msgs := (msgs m)(a1 \<mapsto> x)\<rparr>"
  obtain q' h' where push: "co_queue_add_head (a2 + sizeof_co_queue_item)
      (q, (co_os_malloc (Some a2) (4 + sizeof_co_queue_item) (qm m1))
            \<lparr>content := (content (qm m1))(a2 + sizeof_co_queue_item \<mapsto> a1)\<rparr>) = (q', h')"
    by fastforce
  have cont: "content (co_os_malloc (Some a2) n h) = content h" for n and h :: "ulong qmem"
    by (simp add: co_os_malloc_def)
  have dup: "co_message_dup (Some a1) x m = Some (Inr (a1, m1))"
    using size len by (simp add: co_message_dup_def m1_def Let_def)
  have run: "co_message_dup_to_queue (Some a1) (Some a2) x (q, m) = Some (CO_RC_OK, q', m1\<lparr>qm := h'\<rparr>)"
    unfolding co_message_dup_to_queue_def
    using push by (simp add: dup co_queue_malloc_def cont Let_def)
  have rel1: "mqueue_rel (q, m1) pms"
    unfolding m1_def using rel a1 by (rule mqueue_rel_alloc_message)
  have "mqueue_rel (q', m1\<lparr>qm := h'\<rparr>) ((a1, x) # pms)"
  proof (rule mqueue_rel_push [OF rel1 _ _ _ _ _ push])
    show "fresh_block (q, m1) a2"
      using a2 ne by (auto simp: fresh_block_def m1_def co_os_malloc_def)
    show "msgs m1 a1 = Some x" "blocks (qm m1) a1 \<noteq> None"
      by (simp_all add: m1_def co_os_malloc_def)
    show "a1 \<notin> set (map fst pms)"
      using rel a1 by (force simp: mqueue_rel_def fresh_block_def)
    obtain items0 where i0: "queue_rel (q, qm m) items0"
      using rel by (auto simp: mqueue_rel_def)
    then have "queue_rel (q, qm m1) items0"
      using a1 by (simp add: m1_def queue_rel_malloc fresh_block_def)
    moreover have "a1 \<notin> node_of ` set items0"
      using i0 a1 by (auto simp: queue_rel_def fresh_block_def list_all_iff)
    ultimately show "\<forall>items. queue_rel (q, qm m1) items \<longrightarrow> a1 \<notin> set (map node_of items)"
      using queue_rel_unique by fastforce
  qed
  with run show ?thesis by blast
qed

text \<open>
  \<open>co_message_dup_to_queue\<close> is all or nothing. When both allocations succeed, a copy of
  the message, in a block of its own, becomes the newest message on the queue and the other
  messages stay as they were, in their order. When the first allocation fails, nothing changes.
  When the second fails, the copy is freed again: the allocated blocks, the queue and its
  messages are those from before the call, and the caller gets \<open>CO_RC_OUT_OF_MEMORY\<close>.
\<close>

theorem co_message_dup_to_queue_correct:
  assumes "mqueue_rel (q, m) pms" and "fresh_block (q, m) a1" and "fresh_block (q, m) a2"
    and "a1 \<noteq> a2" and "unat (msg_size x) + 20 < 2 ^ 32"
    and "length (msg_data x) = unat (msg_size x)"
  shows "(\<exists>q' m'. co_message_dup_to_queue (Some a1) (Some a2) x (q, m) = Some (CO_RC_OK, q', m') \<and>
            mqueue_rel (q', m') ((a1, x) # pms)) \<and>
         co_message_dup_to_queue None answer x (q, m) = Some (CO_RC_OUT_OF_MEMORY, q, m) \<and>
         (\<exists>m'. co_message_dup_to_queue (Some a1) None x (q, m) = Some (CO_RC_OUT_OF_MEMORY, q, m') \<and>
            blocks (qm m') = blocks (qm m) \<and> mqueue_rel (q, m') pms)"
proof -
  have size: "\<not> sizeof_co_message + msg_size x < sizeof_co_message"
    using assms(5) unat_add_small [of sizeof_co_message "msg_size x"]
    by (simp add: sizeof_co_message_def word_less_nat_alt)
  have "co_message_dup_to_queue None answer x (q, m) = Some (CO_RC_OUT_OF_MEMORY, q, m)"
    by (simp add: co_message_dup_to_queue_def co_message_dup_def)
  with dup_succeeds [OF assms(1-4) size assms(6)] dup_frees_on_failure [OF assms(1,2) size]
  show ?thesis by blast
qed

definition demo_mqueue :: "co_queue \<times> msg_mem" where
  "demo_mqueue =
     (\<lparr>head = 0x500, items_count = 0\<rparr>,
      \<lparr>qm = \<lparr>links = co_list_init 0x500 \<lparr>nxt = id, prv = id\<rparr>, blocks = Map.empty,
             content = Map.empty\<rparr>, msgs = Map.empty\<rparr>)"

definition demo_message :: co_message where
  "demo_message = \<lparr>msg_from = CO_MODULE_LINUX, msg_to = CO_MODULE_CONSOLE, priority = 0,
     msg_type = 0, msg_size = 2, msg_data = [7, 9]\<rparr>"

lemma demo_mqueue_rel: "mqueue_rel demo_mqueue []"
  by (simp add: demo_mqueue_def mqueue_rel_def queue_rel_def co_ring_def co_list_init_def link_defs)

theorem co_message_dup_to_queue_correct_witness:
  "(\<exists>q' m'. co_message_dup_to_queue (Some 0x1000) (Some 0x2000) demo_message demo_mqueue
       = Some (CO_RC_OK, q', m') \<and> mqueue_rel (q', m') [(0x1000, demo_message)]) \<and>
   co_message_dup_to_queue None None demo_message demo_mqueue
     = Some (CO_RC_OUT_OF_MEMORY, demo_mqueue) \<and>
   (\<exists>m'. co_message_dup_to_queue (Some 0x1000) None demo_message demo_mqueue
       = Some (CO_RC_OUT_OF_MEMORY, fst demo_mqueue, m') \<and>
     blocks (qm m') = blocks (qm (snd demo_mqueue)) \<and> mqueue_rel (fst demo_mqueue, m') [])"
  using co_message_dup_to_queue_correct [of "fst demo_mqueue" "snd demo_mqueue" "[]" "0x1000"
      "0x2000" demo_message None] demo_mqueue_rel
  by (simp add: demo_mqueue_def demo_message_def fresh_block_def)

text \<open>Moving a message that is already allocated: only the queue item is new.\<close>

lemma co_message_mov_to_queue_correct:
  assumes rel: "mqueue_rel (q, m) pms" and fresh: "fresh_block (q, m) b"
    and msg: "msgs m p = Some x" "blocks (qm m) p \<noteq> None"
    and new: "p \<notin> set (map fst pms)"
      "\<forall>items. queue_rel (q, qm m) items \<longrightarrow> p \<notin> set (map node_of items)"
  shows "\<exists>q' m'. co_message_mov_to_queue (Some b) p (q, m) = (CO_RC_OK, q', m') \<and>
           mqueue_rel (q', m') ((p, x) # pms)"
    and "co_message_mov_to_queue None p (q, m) = (CO_RC_OUT_OF_MEMORY, q, m)"
proof -
  obtain q' h' where push: "co_queue_add_head (b + sizeof_co_queue_item)
      (q, (co_os_malloc (Some b) (4 + sizeof_co_queue_item) (qm m))
            \<lparr>content := (content (qm m))(b + sizeof_co_queue_item \<mapsto> p)\<rparr>) = (q', h')"
    by fastforce
  have cont: "content (co_os_malloc (Some b) n h) = content h" for n and h :: "ulong qmem"
    by (simp add: co_os_malloc_def)
  have "co_message_mov_to_queue (Some b) p (q, m) = (CO_RC_OK, q', m\<lparr>qm := h'\<rparr>)"
    using push by (simp add: co_message_mov_to_queue_def co_queue_malloc_def cont Let_def)
  with mqueue_rel_push [OF rel fresh msg new push]
  show "\<exists>q' m'. co_message_mov_to_queue (Some b) p (q, m) = (CO_RC_OK, q', m') \<and>
          mqueue_rel (q', m') ((p, x) # pms)" by blast
  show "co_message_mov_to_queue None p (q, m) = (CO_RC_OUT_OF_MEMORY, q, m)"
    by (simp add: co_message_mov_to_queue_def co_queue_malloc_def)
qed

end
