(* ===== verification/Co_Console.thy ===== *)
theory Co_Console
  imports Ret_Code Co_Prelude
begin

text \<open>
  The kernel's shadow of the text console (\<open>src/colinux/common/console.c\<close>, \<open>console.h\<close>; the
  messages are those of \<open>linux/cooperative.h\<close>, carried by \<open>patch/base-2.6.33.diff\<close>).

  The console is one allocated object: the structure and behind it \<open>max_y\<close> rows of \<open>x\<close> cells.
  The last \<open>y\<close> rows are the screen, the ones before are the scroll-back buffer. The pointers
  \<open>buffer\<close> and \<open>screen\<close> are positions in that array of cells; an operation is
  \<^term>\<open>None\<close> when it reads or writes outside the array. All index arithmetic is that of the
  code, on 32-bit \<open>unsigned long\<close>.
\<close>

section \<open>Data\<close>

record co_console_cell =
  ch :: uchar
  attr :: uchar

text \<open>The cast of a \<open>co_console_character\<close> to a cell, on the little-endian target.\<close>

definition cell_of :: "ushort \<Rightarrow> co_console_cell" where
  "cell_of w = \<lparr>ch = ucast w, attr = ucast (drop_bit 8 w)\<rparr>"

definition zero_cell :: co_console_cell where
  "zero_cell = \<lparr>ch = 0, attr = 0\<rparr>"

record co_console_config =
  cfg_x :: ulong
  cfg_y :: ulong
  cfg_max_y :: ulong
  curs_type_size :: ulong
  cfg_attr :: ulong

record co_cursor_pos =
  cur_x :: ushort
  cur_y :: ushort
  cur_height :: ushort

record co_console =
  con_size :: ulong
  config :: co_console_config
  screen :: nat
  buffer :: "co_console_cell list"
  cursor :: co_cursor_pos

text \<open>A message: its type, and the member of the union that belongs to the type with its fields
  in the order of the structure.\<close>

datatype co_console_message =
    CONSOLE_STARTUP
  | CONSOLE_INIT
  | CONSOLE_DEINIT
  | CONSOLE_CLEAR ushort ushort ushort ushort ushort
  | CONSOLE_PUTC ushort ushort ushort
  | CONSOLE_PUTCS ushort ushort ushort "ushort list"
  | CONSOLE_CURSOR_DRAW co_cursor_pos
  | CONSOLE_CURSOR_ERASE co_cursor_pos
  | CONSOLE_CURSOR_MOVE co_cursor_pos
  | CONSOLE_SCROLL_UP ushort ushort ushort ushort
  | CONSOLE_SCROLL_DOWN ushort ushort ushort ushort
  | CONSOLE_BMOVE ushort ushort ushort ushort ushort ushort
  | CONSOLE_SWITCH
  | CONSOLE_BLANK
  | CONSOLE_FONT_OP
  | CONSOLE_SET_PALETTE
  | CONSOLE_SCROLLDELTA
  | CONSOLE_SET_ORIGIN
  | CONSOLE_SAVE_SCREEN
  | CONSOLE_INVERT_REGION
  | CONSOLE_CONFIG ushort ushort ushort
  | CONSOLE_INIT_SCROLLBUFFER ushort ushort ushort "ushort list"

section \<open>Creation\<close>

text \<open>\<open>sizeof(co_console_t)\<close>: a long, the five integers of the configuration, two pointers and the
  packed cursor, padded to a multiple of four.\<close>

definition sizeof_co_console :: ulong where
  "sizeof_co_console = 40"

definition sizeof_co_console_cell :: ulong where
  "sizeof_co_console_cell = 2"

text \<open>The allocated object has \<open>struct_size\<close> bytes; what is behind the structure is the cell
  array. A size that wrapped below the structure leaves no room for the structure itself, and
  a screen whose position is computed outside the array has no address in it.\<close>

definition co_console_create ::
  "bool \<Rightarrow> co_console_config \<Rightarrow> (co_rc_value + co_console) option" where
  "co_console_create allocated config_par =
     (let struct_size = sizeof_co_console_cell * cfg_x config_par * cfg_max_y config_par
            + sizeof_co_console;
          cells = unat (struct_size - sizeof_co_console) div unat sizeof_co_console_cell;
          offset = sint ((cfg_max_y config_par - cfg_y config_par) * cfg_x config_par)
      in if \<not> allocated then Some (Inl CO_RC_OUT_OF_MEMORY)
         else if struct_size < sizeof_co_console then None
         else if offset < 0 \<or> int cells < offset then None
         else Some (Inr
           \<lparr>con_size = struct_size, config = config_par, screen = nat offset,
            buffer = replicate cells zero_cell,
            cursor = \<lparr>cur_x = 0, cur_y = 0, cur_height = 0\<rparr>\<rparr>))"

section \<open>Operations\<close>

text \<open>The number of cells in a byte count \<open>n * sizeof(co_console_cell_t)\<close>, which wraps.\<close>

definition cells_moved :: "ulong \<Rightarrow> nat" where
  "cells_moved n = unat (n * sizeof_co_console_cell) div 2"

definition scroll_up ::
  "ushort \<Rightarrow> ushort \<Rightarrow> ushort \<Rightarrow> ushort \<Rightarrow> co_console \<Rightarrow> (co_rc_value \<times> co_console) option" where
  "scroll_up top_row bottom_row lns charattr c =
     (let lines = ucast lns :: ulong;
          t = ucast top_row :: ulong;
          b = ucast bottom_row + 1 :: ulong;
          config_x = cfg_x (config c);
          t_count = config_x * t;
          s_count = config_x * lines;
          blank = cell_of charattr
      in if t \<noteq> 0 \<or> b \<noteq> cfg_y (config c) then
           if cfg_max_y (config c) < b then Some (CO_RC_ERROR, c)
           else if cfg_max_y (config c) \<le> t + lines then Some (CO_RC_ERROR, c)
           else
             let offs = config_x * b - s_count
             in map_option (\<lambda>cells. (CO_RC_OK, c\<lparr>buffer := cells\<rparr>))
                  (Option.bind
                    (memmove (buffer c) (screen c + unat t_count)
                       (screen c + unat t_count + unat s_count) (cells_moved (offs - t_count)))
                    (\<lambda>cells. fill_loop cells (screen c + unat offs) blank (unat s_count)))
         else
           let offs = config_x * cfg_max_y (config c) - s_count
           in map_option (\<lambda>cells. (CO_RC_OK, c\<lparr>buffer := cells\<rparr>))
                (Option.bind
                  (memmove (buffer c) 0 (unat s_count) (cells_moved offs))
                  (\<lambda>cells. fill_loop cells (unat offs) blank (unat s_count))))"

definition scroll_down ::
  "ushort \<Rightarrow> ushort \<Rightarrow> ushort \<Rightarrow> ushort \<Rightarrow> co_console \<Rightarrow> (co_rc_value \<times> co_console) option" where
  "scroll_down top_row bottom_row lns charattr c =
     (let lines = ucast lns :: ulong;
          t = ucast top_row :: ulong;
          b = ucast bottom_row + 1 :: ulong;
          config_x = cfg_x (config c);
          s_count = config_x * lines;
          blank = cell_of charattr
      in if t \<noteq> 0 \<or> b \<noteq> cfg_y (config c) then
           let t_count = config_x * t
           in if cfg_max_y (config c) < b then Some (CO_RC_ERROR, c)
              else if cfg_max_y (config c) \<le> t + lines then Some (CO_RC_ERROR, c)
              else
                let dest = screen c + unat t_count
                in map_option (\<lambda>cells. (CO_RC_OK, c\<lparr>buffer := cells\<rparr>))
                     (Option.bind
                       (memmove (buffer c) (dest + unat s_count) dest
                          (cells_moved (config_x * b - t_count - s_count)))
                       (\<lambda>cells. fill_loop cells dest blank (unat s_count)))
         else
           let dest = screen c
           in map_option (\<lambda>cells. (CO_RC_OK, c\<lparr>buffer := cells\<rparr>))
                (Option.bind
                  (memmove (buffer c) (dest + unat s_count) dest
                     (cells_moved (config_x * cfg_y (config c) - s_count)))
                  (\<lambda>cells. fill_loop cells dest blank (unat s_count))))"

text \<open>\<open>PUTCS\<close> writes to the screen and \<open>INIT_SCROLLBUFFER\<close> to the whole buffer; the count is
  clipped to the row. The cells come from the message, and reading past its end is
  \<^term>\<open>None\<close>.\<close>

definition putcs :: "nat \<Rightarrow> ulong \<Rightarrow> ushort \<Rightarrow> ushort \<Rightarrow> ushort \<Rightarrow> ushort list \<Rightarrow> co_console \<Rightarrow>
    (co_rc_value \<times> co_console) option" where
  "putcs base rows y_par x_par count_par data c =
     (let x = ucast x_par :: ulong;
          y = ucast y_par :: ulong;
          count = ucast count_par :: ulong;
          config_x = cfg_x (config c)
      in if sint rows \<le> sint y \<or> config_x \<le> x then Some (CO_RC_ERROR, c)
         else
           let count = (if config_x - x < count then config_x - x else count)
           in map_option (\<lambda>cells. (CO_RC_OK, c\<lparr>buffer := cells\<rparr>))
                (copy_loop (buffer c) (base + unat (config_x * y) + unat x)
                   (map cell_of data) 0 (nat (sint count))))"

definition putc :: "ushort \<Rightarrow> ushort \<Rightarrow> ushort \<Rightarrow> co_console \<Rightarrow> (co_rc_value \<times> co_console) option" where
  "putc x_par y_par charattr c =
     (let x = ucast x_par :: ulong;
          y = ucast y_par :: ulong;
          config_x = cfg_x (config c)
      in if sint (cfg_y (config c)) \<le> sint y \<or> config_x \<le> x then Some (CO_RC_ERROR, c)
         else map_option (\<lambda>cells. (CO_RC_OK, c\<lparr>buffer := cells\<rparr>))
                (store_at (buffer c) (int (screen c + unat (config_x * y + x))) (cell_of charattr)))"

text \<open>The loop of \<open>CLEAR\<close> over the rows \<open>t\<close> to \<open>b\<close>, with \<open>n\<close> rows left, and the loop over the
  columns \<open>l\<close> to \<open>r\<close> of a row.\<close>

fun clear_rows ::
  "nat \<Rightarrow> ulong \<Rightarrow> co_console_cell \<Rightarrow> ulong \<Rightarrow> ulong \<Rightarrow> ulong \<Rightarrow> nat \<Rightarrow> co_console_cell list \<Rightarrow>
     co_console_cell list option" where
  "clear_rows scr config_x blank l r t 0 cells = Some cells"
| "clear_rows scr config_x blank l r t (Suc n) cells =
     Option.bind (fill_loop cells (scr + unat (config_x * t) + unat l) blank (unat r + 1 - unat l))
       (clear_rows scr config_x blank l r (t + 1) n)"

definition clear :: "ushort \<Rightarrow> ushort \<Rightarrow> ushort \<Rightarrow> ushort \<Rightarrow> ushort \<Rightarrow> co_console \<Rightarrow>
    (co_rc_value \<times> co_console) option" where
  "clear top_row left bottom_row right charattr c =
     map_option (\<lambda>cells. (CO_RC_OK, c\<lparr>buffer := cells\<rparr>))
       (clear_rows (screen c) (cfg_x (config c)) (cell_of charattr) (ucast left) (ucast right)
          (ucast top_row) (unat bottom_row + 1 - unat top_row) (buffer c))"

text \<open>The two loops of \<open>BMOVE\<close>: from the first row to the last, and from the last to the first.\<close>

fun bmove_rows_up ::
  "nat \<Rightarrow> ulong \<Rightarrow> ulong \<Rightarrow> ulong \<Rightarrow> ulong \<Rightarrow> ulong \<Rightarrow> ulong \<Rightarrow> nat \<Rightarrow> co_console_cell list \<Rightarrow>
     co_console_cell list option" where
  "bmove_rows_up scr config_x x l width y t 0 cells = Some cells"
| "bmove_rows_up scr config_x x l width y t (Suc n) cells =
     Option.bind
       (memmove cells (scr + unat (config_x * y) + unat x) (scr + unat (config_x * t) + unat l)
          (cells_moved width))
       (bmove_rows_up scr config_x x l width (y + 1) (t + 1) n)"

fun bmove_rows_down ::
  "nat \<Rightarrow> ulong \<Rightarrow> ulong \<Rightarrow> ulong \<Rightarrow> ulong \<Rightarrow> ulong \<Rightarrow> ulong \<Rightarrow> nat \<Rightarrow> co_console_cell list \<Rightarrow>
     co_console_cell list option" where
  "bmove_rows_down scr config_x x l width y b 0 cells = Some cells"
| "bmove_rows_down scr config_x x l width y b (Suc n) cells =
     Option.bind
       (memmove cells (scr + unat (config_x * y) + unat x) (scr + unat (config_x * b) + unat l)
          (cells_moved width))
       (bmove_rows_down scr config_x x l width (y - 1) (b - 1) n)"

definition bmove :: "ushort \<Rightarrow> ushort \<Rightarrow> ushort \<Rightarrow> ushort \<Rightarrow> ushort \<Rightarrow> ushort \<Rightarrow> co_console \<Rightarrow>
    (co_rc_value \<times> co_console) option" where
  "bmove row column top_row left bottom_row right c =
     (let y = ucast row :: ulong;
          x = ucast column :: ulong;
          t = ucast top_row :: ulong;
          l = ucast left :: ulong;
          b = ucast bottom_row :: ulong;
          r = ucast right :: ulong;
          config_x = cfg_x (config c);
          n = unat bottom_row + 1 - unat top_row
      in map_option (\<lambda>cells. (CO_RC_OK, c\<lparr>buffer := cells\<rparr>))
           (if y < t
            then bmove_rows_up (screen c) config_x x l (r - l + 1) y t n (buffer c)
            else bmove_rows_down (screen c) config_x x l (r - l + 1) (y + (b - t)) b n (buffer c)))"

text \<open>\<open>SWITCH\<close> clears the scroll-back buffer.\<close>

definition switch_console :: "co_console \<Rightarrow> (co_rc_value \<times> co_console) option" where
  "switch_console c =
     map_option (\<lambda>cells. (CO_RC_OK, c\<lparr>buffer := cells\<rparr>))
       (fill_loop (buffer c) 0 zero_cell
          (unat (sizeof_co_console_cell * cfg_x (config c) *
                 (cfg_max_y (config c) - cfg_y (config c))) div 2))"

text \<open>The dispatch on an existing console, and on the pointer the caller has: only
  \<open>SWITCH\<close> looks whether it is \<open>NULL\<close>, and the messages that are ignored do not touch it.\<close>

fun console_op :: "co_console \<Rightarrow> co_console_message \<Rightarrow>
    (co_rc_value \<times> co_console \<times> co_console_message) option" where
  "console_op c (CONSOLE_SCROLL_UP top_row bottom_row lines charattr) =
     map_option (\<lambda>(rc, c'). (rc, c', CONSOLE_SCROLL_UP top_row bottom_row lines charattr))
       (scroll_up top_row bottom_row lines charattr c)"
| "console_op c (CONSOLE_SCROLL_DOWN top_row bottom_row lines charattr) =
     map_option (\<lambda>(rc, c'). (rc, c', CONSOLE_SCROLL_DOWN top_row bottom_row lines charattr))
       (scroll_down top_row bottom_row lines charattr c)"
| "console_op c (CONSOLE_PUTCS y x count data) =
     map_option (\<lambda>(rc, c'). (rc, c', CONSOLE_PUTCS y x count data))
       (putcs (screen c) (cfg_y (config c)) y x count data c)"
| "console_op c (CONSOLE_PUTC x y charattr) =
     map_option (\<lambda>(rc, c'). (rc, c', CONSOLE_PUTC x y charattr)) (putc x y charattr c)"
| "console_op c (CONSOLE_CURSOR_DRAW p) =
     Some (CO_RC_OK, c\<lparr>cursor := p\<rparr>, CONSOLE_CURSOR_DRAW p)"
| "console_op c (CONSOLE_CURSOR_ERASE p) =
     Some (CO_RC_OK, c\<lparr>cursor := p\<rparr>, CONSOLE_CURSOR_ERASE p)"
| "console_op c (CONSOLE_CURSOR_MOVE p) =
     Some (CO_RC_OK, c\<lparr>cursor := p\<rparr>, CONSOLE_CURSOR_MOVE p)"
| "console_op c (CONSOLE_CLEAR top_row left bottom_row right charattr) =
     map_option (\<lambda>(rc, c'). (rc, c', CONSOLE_CLEAR top_row left bottom_row right charattr))
       (clear top_row left bottom_row right charattr c)"
| "console_op c (CONSOLE_BMOVE row column top_row left bottom_row right) =
     map_option (\<lambda>(rc, c'). (rc, c', CONSOLE_BMOVE row column top_row left bottom_row right))
       (bmove row column top_row left bottom_row right c)"
| "console_op c CONSOLE_STARTUP =
     Some (CO_RC_OK, c, CONSOLE_CONFIG (ucast (cfg_y (config c))) (ucast (cfg_x (config c)))
                          (ucast (cfg_attr (config c))))"
| "console_op c (CONSOLE_INIT_SCROLLBUFFER y x count data) =
     map_option (\<lambda>(rc, c'). (rc, c', CONSOLE_INIT_SCROLLBUFFER y x count data))
       (putcs 0 (cfg_max_y (config c)) y x count data c)"
| "console_op c CONSOLE_SWITCH =
     map_option (\<lambda>(rc, c'). (rc, c', CONSOLE_SWITCH)) (switch_console c)"
| "console_op c message = Some (CO_RC_OK, c, message)"

definition ignored :: "co_console_message \<Rightarrow> bool" where
  "ignored message = (case message of
      CONSOLE_INIT \<Rightarrow> True | CONSOLE_DEINIT \<Rightarrow> True | CONSOLE_BLANK \<Rightarrow> True
    | CONSOLE_FONT_OP \<Rightarrow> True | CONSOLE_SET_PALETTE \<Rightarrow> True | CONSOLE_SCROLLDELTA \<Rightarrow> True
    | CONSOLE_SET_ORIGIN \<Rightarrow> True | CONSOLE_SAVE_SCREEN \<Rightarrow> True | CONSOLE_INVERT_REGION \<Rightarrow> True
    | CONSOLE_CONFIG _ _ _ \<Rightarrow> True | _ \<Rightarrow> False)"

definition co_console_op :: "co_console option \<Rightarrow> co_console_message \<Rightarrow>
    (co_rc_value \<times> co_console option \<times> co_console_message) option" where
  "co_console_op console message =
     (case console of
        Some c \<Rightarrow> map_option (\<lambda>(rc, c', m). (rc, Some c', m)) (console_op c message)
      | None \<Rightarrow>
          if message = CONSOLE_SWITCH then Some (CO_RC_OUT_OF_MEMORY, None, message)
          else if ignored message then Some (CO_RC_OK, None, message)
          else None)"

section \<open>The invariant\<close>

text \<open>What \<open>co_console_create\<close> sets up for a configuration that fits: the buffer has all its
  rows, the screen is its last \<open>y\<close> rows, and the size of the object does not wrap.\<close>

definition config_fits :: "co_console_config \<Rightarrow> bool" where
  "config_fits f \<longleftrightarrow> 0 < unat (cfg_x f) \<and> 0 < unat (cfg_y f) \<and> unat (cfg_y f) \<le> unat (cfg_max_y f) \<and>
     2 * unat (cfg_x f) * unat (cfg_max_y f) < 2 ^ 31"

definition console_ok :: "co_console \<Rightarrow> bool" where
  "console_ok c \<longleftrightarrow> config_fits (config c) \<and>
     length (buffer c) = unat (cfg_x (config c)) * unat (cfg_max_y (config c)) \<and>
     screen c = unat (cfg_x (config c)) * (unat (cfg_max_y (config c)) - unat (cfg_y (config c)))"

text \<open>The cell in a row and column of the screen.\<close>

definition cell_at :: "co_console \<Rightarrow> nat \<Rightarrow> nat \<Rightarrow> co_console_cell" where
  "cell_at c row col = buffer c ! (screen c + unat (cfg_x (config c)) * row + col)"

section \<open>Rows and columns\<close>

lemma row_col_less:
  fixes X :: nat
  assumes "row < R" and "col < X"
  shows "X * row + col < X * R"
proof -
  have "X * row + col < X * Suc row" using assms(2) by simp
  also have "\<dots> \<le> X * R" using assms(1) by (intro mult_le_mono2) simp
  finally show ?thesis .
qed

lemma row_col_segment:
  fixes X :: nat
  assumes "col < X" and "x + w \<le> X"
  shows "X * y + x \<le> X * row + col \<and> X * row + col < X * y + x + w \<longleftrightarrow>
         row = y \<and> x \<le> col \<and> col < x + w"
proof (cases row y rule: linorder_cases)
  case less
  from row_col_less [OF this assms(1)] less show ?thesis by simp
next
  case equal
  then show ?thesis by auto
next
  case greater
  have "X * y + (x + w) \<le> X * Suc y" using assms(2) by simp
  also have "\<dots> \<le> X * row" using greater by (intro mult_le_mono2) simp
  finally show ?thesis using greater by simp
qed

lemma row_block:
  fixes X :: nat
  assumes "col < X"
  shows "X * t \<le> X * row + col \<longleftrightarrow> t \<le> row" and "X * row + col < X * b \<longleftrightarrow> row < b"
proof -
  have "X * row + col < X * t" if "row < t" for t using row_col_less [OF that assms] .
  moreover have "X * t \<le> X * row + col" if "t \<le> row" for t
    using mult_le_mono2 [OF that, of X] by linarith
  ultimately show "X * t \<le> X * row + col \<longleftrightarrow> t \<le> row" "X * row + col < X * b \<longleftrightarrow> row < b"
    by (meson not_le)+
qed

text \<open>The facts about a console in use, in the form the proofs of the operations need them.\<close>

lemma console_okD:
  assumes "console_ok c"
  defines "X \<equiv> unat (cfg_x (config c))" and "Y \<equiv> unat (cfg_y (config c))"
    and "M \<equiv> unat (cfg_max_y (config c))"
  shows "0 < X" "0 < Y" "Y \<le> M" "2 * (X * M) < 2 ^ 31" "length (buffer c) = X * M"
    "screen c = X * (M - Y)" "screen c + X * Y = X * M" "Y < 2 ^ 31" "M < 2 ^ 31" "X < 2 ^ 31"
proof -
  show base: "0 < X" "0 < Y" "Y \<le> M" "2 * (X * M) < 2 ^ 31" "length (buffer c) = X * M"
    "screen c = X * (M - Y)"
    using assms(1) by (simp_all add: console_ok_def config_fits_def X_def Y_def M_def)
  show "screen c + X * Y = X * M"
    using base(3,6) by (simp add: diff_mult_distrib2)
  have "M \<le> X * M" using base(1) by simp
  then show "M < 2 ^ 31" using base(4) by linarith
  with base(3) show "Y < 2 ^ 31" by linarith
  have "X \<le> X * M" using base(2,3) by (cases M) auto
  then show "X < 2 ^ 31" using base(4) by linarith
qed

lemma index_word:
  assumes "console_ok c" and "unat y \<le> unat (cfg_max_y (config c))"
  shows "unat (cfg_x (config c) * y) = unat (cfg_x (config c)) * unat y"
proof (rule unat_mult_small)
  have "unat (cfg_x (config c)) * unat y \<le> unat (cfg_x (config c)) * unat (cfg_max_y (config c))"
    using assms(2) by simp
  also have "\<dots> < 2 ^ LENGTH(32)"
    using console_okD(4) [OF assms(1)] by (simp add: mult.commute)
  finally show "unat (cfg_x (config c)) * unat y < 2 ^ LENGTH(32)" .
qed

lemma cells_moved_small: "unat n < 2 ^ 31 \<Longrightarrow> cells_moved n = unat n"
  using unat_mult_small [of n sizeof_co_console_cell]
  by (simp add: cells_moved_def sizeof_co_console_cell_def)

lemma console_ok_buffer [inv_intros]:
  "console_ok c \<Longrightarrow> length cells = length (buffer c) \<Longrightarrow> console_ok (c\<lparr>buffer := cells\<rparr>)"
  by (simp add: console_ok_def)

lemma co_console_create_ok:
  assumes "config_fits f"
  shows "\<exists>c. co_console_create True f = Some (Inr c) \<and> console_ok c \<and> config c = f \<and>
           set (buffer c) \<subseteq> {zero_cell}"
proof -
  let ?X = "unat (cfg_x f)" and ?Y = "unat (cfg_y f)" and ?M = "unat (cfg_max_y f)"
  have fits: "0 < ?X" "?Y \<le> ?M" "2 * ?X * ?M < 2 ^ 31"
    using assms by (simp_all add: config_fits_def)
  have "2 * ?X \<le> 2 * ?X * ?M" using assms by (cases ?M) (auto simp: config_fits_def)
  with fits(3) have "2 * ?X < 2 ^ 31" by (rule order.strict_trans1 [rotated])
  then have two_x: "unat (sizeof_co_console_cell * cfg_x f) = 2 * ?X"
    using unat_mult_small [of sizeof_co_console_cell "cfg_x f"]
    by (simp add: sizeof_co_console_cell_def)
  have bytes: "unat (sizeof_co_console_cell * cfg_x f * cfg_max_y f) = 2 * ?X * ?M"
    using fits(3) two_x unat_mult_small [of "sizeof_co_console_cell * cfg_x f" "cfg_max_y f"] by simp
  then have wrap: "\<not> sizeof_co_console_cell * cfg_x f * cfg_max_y f + sizeof_co_console < sizeof_co_console"
    using fits(3) unat_add_small [of "sizeof_co_console_cell * cfg_x f * cfg_max_y f" sizeof_co_console]
    by (simp add: sizeof_co_console_def word_less_nat_alt)
  have rows: "unat (cfg_max_y f - cfg_y f) = ?M - ?Y" using fits(2) by (rule unat_diff_small)
  have le: "(?M - ?Y) * ?X \<le> ?X * ?M" by (simp add: mult.commute)
  then have less: "(?M - ?Y) * ?X < 2 ^ 31" using fits(3) by linarith
  have off: "unat ((cfg_max_y f - cfg_y f) * cfg_x f) = (?M - ?Y) * ?X"
    using less rows unat_mult_small [of "cfg_max_y f - cfg_y f" "cfg_x f"] by simp
  have bound: "\<not> (int ((?M - ?Y) * ?X) < 0 \<or> int (?X * ?M) < int ((?M - ?Y) * ?X))"
    using le by linarith
  from off have soff: "sint ((cfg_max_y f - cfg_y f) * cfg_x f) = int ((?M - ?Y) * ?X)"
    using less sint_of_small [of "(cfg_max_y f - cfg_y f) * cfg_x f"] by simp
  let ?c = "\<lparr>con_size = sizeof_co_console_cell * cfg_x f * cfg_max_y f + sizeof_co_console,
    config = f, screen = (?M - ?Y) * ?X, buffer = replicate (?X * ?M) zero_cell,
    cursor = \<lparr>cur_x = 0, cur_y = 0, cur_height = 0\<rparr>\<rparr>"
  have cells: "unat (sizeof_co_console_cell * cfg_x f * cfg_max_y f + sizeof_co_console - sizeof_co_console)
        div unat sizeof_co_console_cell = ?X * ?M"
    using bytes by (simp add: sizeof_co_console_cell_def)
  have "co_console_create True f = Some (Inr ?c)"
    unfolding co_console_create_def Let_def cells soff by (simp only: wrap bound if_False nat_int simp_thms)
  moreover have "console_ok ?c" using assms by (simp add: console_ok_def mult.commute)
  ultimately show ?thesis by auto
qed

lemma scroll_region_words:
  fixes c :: co_console and top_row bottom_row lines :: ushort
  assumes ok: "console_ok c" and b: "unat bottom_row + 1 \<le> unat (cfg_y (config c))"
    and lines: "unat top_row + unat lines \<le> unat bottom_row + 1"
  defines "X \<equiv> unat (cfg_x (config c))" and "x \<equiv> cfg_x (config c)"
    and "t \<equiv> ucast top_row :: ulong" and "bt \<equiv> ucast bottom_row + 1 :: ulong"
    and "n \<equiv> ucast lines :: ulong"
  shows "unat bt = unat bottom_row + 1" "unat (x * t) = X * unat top_row" "unat (x * n) = X * unat lines"
    "unat (x * bt - x * n) = X * (unat bottom_row + 1 - unat lines)"
    "unat (x * bt - x * n - x * t) = X * (unat bottom_row + 1 - unat lines - unat top_row)"
    "unat (x * bt - x * t - x * n) = X * (unat bottom_row + 1 - unat lines - unat top_row)"
    "unat (t + n) = unat top_row + unat lines"
    "cells_moved (x * bt - x * n - x * t) = X * (unat bottom_row + 1 - unat lines - unat top_row)"
    "cells_moved (x * bt - x * t - x * n) = X * (unat bottom_row + 1 - unat lines - unat top_row)"
proof -
  note D = console_okD [OF ok]
  have le: "unat bottom_row + 1 \<le> unat (cfg_max_y (config c))" using b D(3) by linarith
  have u: "unat t = unat top_row" "unat n = unat lines"
    by (simp_all add: t_def n_def)
  have "unat (ucast bottom_row :: ulong) = unat bottom_row" by simp
  then show ub: "unat bt = unat bottom_row + 1"
    unfolding bt_def using le D(9) unat_add_small [of "ucast bottom_row :: ulong" 1] by simp
  show m: "unat (x * t) = X * unat top_row" "unat (x * n) = X * unat lines"
    unfolding x_def X_def using le lines index_word [OF ok, of t] index_word [OF ok, of n] u by auto
  have mb: "unat (x * bt) = X * (unat bottom_row + 1)"
    unfolding x_def X_def using le index_word [OF ok, of bt] ub by auto
  have "unat (x * n) \<le> unat (x * bt)" unfolding m mb using lines by (intro mult_le_mono2) simp
  from unat_diff_small [OF this] show d1: "unat (x * bt - x * n) = X * (unat bottom_row + 1 - unat lines)"
    unfolding m mb by (simp add: diff_mult_distrib2)
  have "unat (x * t) \<le> unat (x * bt - x * n)" unfolding m d1 using lines by (intro mult_le_mono2) simp
  from unat_diff_small [OF this] show d2:
    "unat (x * bt - x * n - x * t) = X * (unat bottom_row + 1 - unat lines - unat top_row)"
    unfolding m d1 by (simp add: diff_mult_distrib2 add_mult_distrib2)
  have comm: "x * bt - x * t - x * n = x * bt - x * n - x * t" by simp
  show "unat (x * bt - x * t - x * n) = X * (unat bottom_row + 1 - unat lines - unat top_row)"
    unfolding comm by (rule d2)
  show "unat (t + n) = unat top_row + unat lines"
    using u unat_add_small [of t n] lines le D(9) by simp
  have "X * (unat bottom_row + 1 - unat lines - unat top_row) \<le> X * unat (cfg_max_y (config c))"
    using le by (intro mult_le_mono2) simp
  then have "unat (x * bt - x * n - x * t) < 2 ^ 31"
    using d2 D(4) unfolding X_def by linarith
  from cells_moved_small [OF this] d2
  show "cells_moved (x * bt - x * n - x * t) = X * (unat bottom_row + 1 - unat lines - unat top_row)"
    "cells_moved (x * bt - x * t - x * n) = X * (unat bottom_row + 1 - unat lines - unat top_row)"
    unfolding comm by simp_all
qed

text \<open>A move of whole rows within the screen, followed by a fill of whole rows.\<close>

lemma rows_move_fill:
  fixes X :: nat
  assumes dst: "scr + X * (d + n) \<le> length xs" and src: "scr + X * (s + n) \<le> length xs"
    and fill: "scr + X * (f + k) \<le> length xs"
  obtains ys where
    "Option.bind (memmove xs (scr + X * d) (scr + X * s) (X * n))
       (\<lambda>ys. fill_loop ys (scr + X * f) v (X * k)) = Some ys"
    and "length ys = length xs"
    and "\<And>i. i < scr \<Longrightarrow> ys ! i = xs ! i"
    and "\<And>row col. scr + X * row + col < length xs \<Longrightarrow> col < X \<Longrightarrow>
           ys ! (scr + X * row + col) =
             (if f \<le> row \<and> row < f + k then v
              else if d \<le> row \<and> row < d + n then xs ! (scr + X * (row + s - d) + col)
              else xs ! (scr + X * row + col))"
proof -
  from dst src have "scr + X * d + X * n \<le> length xs" "scr + X * s + X * n \<le> length xs"
    by (simp_all add: distrib_left)
  from memmove_ex [OF this] obtain ms where ms: "memmove xs (scr + X * d) (scr + X * s) (X * n) = Some ms"
    "length ms = length xs"
    and ms_nth: "\<And>i. i < length xs \<Longrightarrow> ms ! i =
      (if scr + X * d \<le> i \<and> i < scr + X * d + X * n then xs ! (scr + X * s + (i - (scr + X * d))) else xs ! i)"
    by blast
  from fill ms(2) have "scr + X * f + X * k \<le> length ms" by (simp add: distrib_left)
  from fill_loop_ex [OF this] obtain ys where ys: "fill_loop ms (scr + X * f) v (X * k) = Some ys"
    "length ys = length ms"
    and ys_nth: "\<And>i. i < length ms \<Longrightarrow> ys ! i =
      (if scr + X * f \<le> i \<and> i < scr + X * f + X * k then v else ms ! i)"
    by blast
  show thesis
  proof (rule that [of ys])
    show "Option.bind (memmove xs (scr + X * d) (scr + X * s) (X * n))
        (\<lambda>ys. fill_loop ys (scr + X * f) v (X * k)) = Some ys" using ms(1) ys(1) by simp
    show "length ys = length xs" using ms(2) ys(2) by simp
    show "ys ! i = xs ! i" if "i < scr" for i
      using that dst ms_nth [of i] ys_nth [of i] ms(2) by simp
    show "ys ! (scr + X * row + col) =
        (if f \<le> row \<and> row < f + k then v
         else if d \<le> row \<and> row < d + n then xs ! (scr + X * (row + s - d) + col)
         else xs ! (scr + X * row + col))"
      if lt: "scr + X * row + col < length xs" and col: "col < X" for row col
    proof -
      have in_f: "scr + X * f \<le> scr + X * row + col \<and> scr + X * row + col < scr + X * f + X * k
          \<longleftrightarrow> f \<le> row \<and> row < f + k"
        using row_block(1) [OF col, of f row] row_block(2) [OF col, of row "f + k"]
        by (auto simp: distrib_left)
      have in_d: "scr + X * d \<le> scr + X * row + col \<and> scr + X * row + col < scr + X * d + X * n
          \<longleftrightarrow> d \<le> row \<and> row < d + n"
        using row_block(1) [OF col, of d row] row_block(2) [OF col, of row "d + n"]
        by (auto simp: distrib_left)
      have "xs ! (scr + X * s + (scr + X * row + col - (scr + X * d)))
          = xs ! (scr + X * (row + s - d) + col)"
        if "d \<le> row"
      proof -
        from that obtain e where e: "row = d + e" by (auto simp: le_iff_add)
        show ?thesis by (simp add: e distrib_left ac_simps)
      qed
      then show ?thesis
        using ys_nth [of "scr + X * row + col"] ms_nth [of "scr + X * row + col"] lt ms(2)
        unfolding in_f in_d by auto
    qed
  qed
qed

lemma scroll_up_region:
  assumes ok: "console_ok c" and t: "top_row \<noteq> 0 \<or> unat bottom_row + 1 \<noteq> unat (cfg_y (config c))"
    and b: "unat bottom_row + 1 \<le> unat (cfg_y (config c))"
    and lines: "unat top_row + unat lines \<le> unat bottom_row + 1"
    and guard: "unat top_row + unat lines < unat (cfg_max_y (config c))"
  shows "\<exists>c'. scroll_up top_row bottom_row lines charattr c = Some (CO_RC_OK, c') \<and> console_ok c' \<and>
           config c' = config c \<and> cursor c' = cursor c \<and>
           (\<forall>i < screen c. buffer c' ! i = buffer c ! i) \<and>
           (\<forall>row < unat (cfg_y (config c)). \<forall>col < unat (cfg_x (config c)).
              cell_at c' row col =
                (if unat top_row \<le> row \<and> row + unat lines < unat bottom_row + 1
                 then cell_at c (row + unat lines) col
                 else if unat top_row \<le> row \<and> row < unat bottom_row + 1 then cell_of charattr
                 else cell_at c row col))"
proof -
  define X where "X = unat (cfg_x (config c))"
  define Y where "Y = unat (cfg_y (config c))"
  let ?t = "unat top_row" and ?b = "unat bottom_row + 1" and ?n = "unat lines"
  note D = console_okD [OF ok, folded X_def Y_def]
  note W = scroll_region_words [OF ok b lines, folded X_def]
  have len: "length (buffer c) = screen c + X * Y" using D(5,7) by simp
  have fits: "screen c + X * k \<le> length (buffer c)" if "k \<le> ?b" for k
    unfolding len using that b by (simp add: Y_def)
  obtain cells where run: "Option.bind (memmove (buffer c) (screen c + X * ?t) (screen c + X * (?t + ?n))
        (X * (?b - ?n - ?t))) (\<lambda>ys. fill_loop ys (screen c + X * (?b - ?n)) (cell_of charattr) (X * ?n))
      = Some cells"
    and cells: "length cells = length (buffer c)" "\<And>i. i < screen c \<Longrightarrow> cells ! i = buffer c ! i"
    and nth: "\<And>row col. screen c + X * row + col < length (buffer c) \<Longrightarrow> col < X \<Longrightarrow>
      cells ! (screen c + X * row + col) =
        (if ?b - ?n \<le> row \<and> row < ?b - ?n + ?n then cell_of charattr
         else if ?t \<le> row \<and> row < ?t + (?b - ?n - ?t) then buffer c ! (screen c + X * (row + (?t + ?n) - ?t) + col)
         else buffer c ! (screen c + X * row + col))"
    by (rule rows_move_fill [of "screen c" X ?t "?b - ?n - ?t" "buffer c" "?t + ?n" "?b - ?n" ?n "cell_of charattr"])
      ((rule fits, use lines in linarith)+, rule that, assumption+)
  have "ucast top_row \<noteq> (0 :: ulong) \<or> ucast bottom_row + 1 \<noteq> cfg_y (config c)"
    using t W(1) by (metis unat_ucast_ushort unat_eq_zero)
  moreover have "\<not> cfg_max_y (config c) < ucast bottom_row + 1"
    using W(1) b D(3) by (simp add: word_less_nat_alt Y_def)
  moreover have "\<not> cfg_max_y (config c) \<le> ucast top_row + ucast lines"
    using W(7) guard by (simp add: word_le_nat_alt)
  ultimately have "scroll_up top_row bottom_row lines charattr c = Some (CO_RC_OK, c\<lparr>buffer := cells\<rparr>)"
    unfolding scroll_up_def Let_def W using run by (simp add: distrib_left add.assoc)
  moreover have "cell_at (c\<lparr>buffer := cells\<rparr>) row col =
      (if ?t \<le> row \<and> row + ?n < ?b then cell_at c (row + ?n) col
       else if ?t \<le> row \<and> row < ?b then cell_of charattr else cell_at c row col)"
    if "row < Y" "col < X" for row col
  proof -
    have "screen c + X * row + col < length (buffer c)"
      unfolding len using row_col_less [OF that] by simp
    from nth [OF this that(2)] show ?thesis
      using lines by (auto simp: cell_at_def X_def [symmetric])
  qed
  ultimately show ?thesis
    using console_ok_buffer [OF ok cells(1)] cells(2) by (auto simp: X_def Y_def)
qed

lemma scroll_down_rows:
  assumes ok: "console_ok c"
    and b: "unat bottom_row + 1 \<le> unat (cfg_y (config c))"
    and lines: "unat top_row + unat lines \<le> unat bottom_row + 1"
    and guard: "top_row \<noteq> 0 \<or> unat bottom_row + 1 \<noteq> unat (cfg_y (config c)) \<Longrightarrow>
      unat top_row + unat lines < unat (cfg_max_y (config c))"
  shows "\<exists>c'. scroll_down top_row bottom_row lines charattr c = Some (CO_RC_OK, c') \<and> console_ok c' \<and>
           config c' = config c \<and> cursor c' = cursor c \<and>
           (\<forall>i < screen c. buffer c' ! i = buffer c ! i) \<and>
           (\<forall>row < unat (cfg_y (config c)). \<forall>col < unat (cfg_x (config c)).
              cell_at c' row col =
                (if unat top_row \<le> row \<and> row < unat top_row + unat lines then cell_of charattr
                 else if unat top_row \<le> row \<and> row < unat bottom_row + 1
                 then cell_at c (row - unat lines) col
                 else cell_at c row col))"
proof -
  define X where "X = unat (cfg_x (config c))"
  define Y where "Y = unat (cfg_y (config c))"
  let ?t = "unat top_row" and ?b = "unat bottom_row + 1" and ?n = "unat lines"
  note D = console_okD [OF ok, folded X_def Y_def]
  note W = scroll_region_words [OF ok b lines, folded X_def]
  have len: "length (buffer c) = screen c + X * Y" using D(5,7) by simp
  have fits: "screen c + X * k \<le> length (buffer c)" if "k \<le> ?b" for k
    unfolding len using that b by (simp add: Y_def)
  obtain cells where run: "Option.bind (memmove (buffer c) (screen c + X * (?t + ?n)) (screen c + X * ?t)
        (X * (?b - ?n - ?t))) (\<lambda>ys. fill_loop ys (screen c + X * ?t) (cell_of charattr) (X * ?n))
      = Some cells"
    and cells: "length cells = length (buffer c)" "\<And>i. i < screen c \<Longrightarrow> cells ! i = buffer c ! i"
    and nth: "\<And>row col. screen c + X * row + col < length (buffer c) \<Longrightarrow> col < X \<Longrightarrow>
      cells ! (screen c + X * row + col) =
        (if ?t \<le> row \<and> row < ?t + ?n then cell_of charattr
         else if ?t + ?n \<le> row \<and> row < ?t + ?n + (?b - ?n - ?t)
         then buffer c ! (screen c + X * (row + ?t - (?t + ?n)) + col)
         else buffer c ! (screen c + X * row + col))"
    by (rule rows_move_fill [of "screen c" X "?t + ?n" "?b - ?n - ?t" "buffer c" ?t ?t ?n "cell_of charattr"])
      ((rule fits, use lines in linarith)+, rule that, assumption+)
  have run': "Option.bind (memmove (buffer c) (screen c + X * ?t + X * ?n) (screen c + X * ?t)
        (X * (?b - ?n - ?t))) (\<lambda>ys. fill_loop ys (screen c + X * ?t) (cell_of charattr) (X * ?n))
      = Some cells"
    using run by (simp only: distrib_left add.assoc)
  have "scroll_down top_row bottom_row lines charattr c = Some (CO_RC_OK, c\<lparr>buffer := cells\<rparr>)"
  proof (cases "top_row \<noteq> 0 \<or> ?b \<noteq> unat (cfg_y (config c))")
    case True
    then have 1: "ucast top_row \<noteq> (0 :: ulong) \<or> ucast bottom_row + 1 \<noteq> cfg_y (config c)"
      using W(1) by (metis unat_ucast_ushort unat_eq_zero)
    have 2: "\<not> cfg_max_y (config c) < ucast bottom_row + 1"
      using W(1) b D(3) by (simp add: word_less_nat_alt Y_def)
    have 3: "\<not> cfg_max_y (config c) \<le> ucast top_row + ucast lines"
      using W(7) guard [OF True] by (simp add: word_le_nat_alt)
    show ?thesis
      unfolding scroll_down_def Let_def W run' if_P [OF 1] if_not_P [OF 2] if_not_P [OF 3] by simp
  next
    case False
    then have t0: "top_row = 0" and y: "cfg_y (config c) = ucast bottom_row + 1"
      using W(1) by (auto simp: word_unat_eq_iff)
    then have "screen c + X * ?t = screen c" by simp
    moreover have "cells_moved (cfg_x (config c) * (ucast bottom_row + 1) - cfg_x (config c) * ucast lines)
        = X * (?b - ?n - ?t)"
      using W(8) t0 by simp
    ultimately show ?thesis
      using run' t0 unfolding scroll_down_def Let_def W y by simp
  qed
  moreover have "cell_at (c\<lparr>buffer := cells\<rparr>) row col =
      (if ?t \<le> row \<and> row < ?t + ?n then cell_of charattr
       else if ?t \<le> row \<and> row < ?b then cell_at c (row - ?n) col else cell_at c row col)"
    if "row < Y" "col < X" for row col
  proof -
    have "screen c + X * row + col < length (buffer c)"
      unfolding len using row_col_less [OF that] by simp
    from nth [OF this that(2)] show ?thesis
      using lines by (auto simp: cell_at_def X_def [symmetric])
  qed
  ultimately show ?thesis
    using console_ok_buffer [OF ok cells(1)] cells(2) by (auto simp: X_def Y_def)
qed

lemma scroll_up_screen:
  assumes ok: "console_ok c" and b: "unat bottom_row + 1 = unat (cfg_y (config c))"
    and lines: "unat lines \<le> unat (cfg_max_y (config c))"
  shows "scroll_up 0 bottom_row lines charattr c =
     Some (CO_RC_OK, c\<lparr>buffer := drop (unat (cfg_x (config c)) * unat lines) (buffer c) @
        replicate (unat (cfg_x (config c)) * unat lines) (cell_of charattr)\<rparr>)"
proof -
  let ?x = "cfg_x (config c)" and ?m = "cfg_max_y (config c)"
  let ?s = "?x * ucast lines"
  note D = console_okD [OF ok]
  have y: "cfg_y (config c) = ucast bottom_row + 1"
    using b ushort_less [of bottom_row] unat_add_small [of "ucast bottom_row :: ulong" 1]
    by (simp add: word_unat_eq_iff)
  have s: "unat ?s = unat ?x * unat lines"
    using index_word [OF ok, of "ucast lines"] lines by simp
  have m: "unat (?x * ?m) = unat ?x * unat ?m" using index_word [OF ok, of ?m] by simp
  have le: "unat ?x * unat lines \<le> unat ?x * unat ?m" using lines by (rule mult_le_mono2)
  then have d: "unat (?x * ?m - ?s) = unat ?x * unat ?m - unat ?x * unat lines"
    using unat_diff_small [of ?s "?x * ?m"] s m by simp
  then have "unat (?x * ?m - ?s) < 2 ^ 31" using D(4) by linarith
  then have mv: "cells_moved (?x * ?m - ?s) = unat ?x * unat ?m - unat ?x * unat lines"
    using d cells_moved_small by metis
  define s' m' where "s' = unat ?x * unat lines" and "m' = unat ?x * unat ?m"
  have le': "s' \<le> m'" using le by (simp add: s'_def m'_def)
  have len: "length (buffer c) = m'" using D(5) by (simp add: m'_def)
  have "Option.bind (memmove (buffer c) 0 s' (m' - s')) (\<lambda>cells. fill_loop cells (m' - s') (cell_of charattr) s')
      = Some (drop s' (buffer c) @ replicate s' (cell_of charattr))"
    using le' len memmove_Some [of 0 "m' - s'" "buffer c" s']
      fill_loop_Some [of "m' - s'" s' "drop s' (buffer c) @ drop (m' - s') (buffer c)" "cell_of charattr"]
    by (simp add: diff_add_inverse2)
  then show ?thesis
    unfolding scroll_up_def Let_def y s d mv by (simp add: s'_def m'_def)
qed

lemma pow31: "(2 :: nat) ^ 31 < 2 ^ 32"
  by simp

text \<open>A write of some cells of one row.\<close>

lemma row_index:
  assumes "console_ok c" and "base = 0 \<and> R = unat (cfg_max_y (config c)) \<or>
      base = screen c \<and> R = unat (cfg_y (config c))"
    and "row < R" and "col + w \<le> unat (cfg_x (config c))"
  shows "base + unat (cfg_x (config c)) * row + col + w \<le> length (buffer c)"
proof -
  let ?X = "unat (cfg_x (config c))"
  note D = console_okD [OF assms(1)]
  have "?X * row + (col + w) \<le> ?X * Suc row" using assms(4) by simp
  also have "\<dots> \<le> ?X * R" using assms(3) by (intro mult_le_mono2) simp
  finally show ?thesis using assms(2) D(5,7) by auto
qed

lemma putcs_refused:
  assumes "unat rows < 2 ^ 31" and "unat rows \<le> unat y \<or> unat (cfg_x (config c)) \<le> unat x"
  shows "putcs base rows y x count data c = Some (CO_RC_ERROR, c)"
proof -
  have "sint rows \<le> sint (ucast y :: ulong) \<or> cfg_x (config c) \<le> ucast x"
    using assms(2) by (simp add: word_le_nat_alt sint_le_ushort [OF assms(1)])
  then show ?thesis by (simp add: putcs_def Let_def)
qed

lemma putcs_writes:
  assumes ok: "console_ok c"
    and base: "base = 0 \<and> rows = cfg_max_y (config c) \<or> base = screen c \<and> rows = cfg_y (config c)"
    and y: "unat y < unat rows" and x: "unat x < unat (cfg_x (config c))"
    and data: "min (unat count) (unat (cfg_x (config c)) - unat x) \<le> length data"
  shows "\<exists>c'. putcs base rows y x count data c = Some (CO_RC_OK, c') \<and> console_ok c' \<and>
           config c' = config c \<and> cursor c' = cursor c \<and>
           (\<forall>i < length (buffer c). buffer c' ! i =
              (let start = base + unat (cfg_x (config c)) * unat y + unat x
               in if start \<le> i \<and> i < start + min (unat count) (unat (cfg_x (config c)) - unat x)
                  then cell_of (data ! (i - start)) else buffer c ! i))"
proof -
  define X where "X = unat (cfg_x (config c))"
  define n where "n = min (unat count) (X - unat x)"
  define start where "start = base + X * unat y + unat x"
  note D = console_okD [OF ok, folded X_def]
  have small: "unat rows < 2 ^ 31" and le: "unat y \<le> unat (cfg_max_y (config c))"
    using base D(3,8,9) y by auto
  have guard: "\<not> (sint rows \<le> sint (ucast y :: ulong) \<or> cfg_x (config c) \<le> ucast x)"
    using x y by (simp add: word_le_nat_alt sint_le_ushort [OF small])
  have pos: "unat (cfg_x (config c) * ucast y) = X * unat y"
    using index_word [OF ok, of "ucast y"] le by (simp add: X_def)
  have room: "unat (cfg_x (config c) - ucast x) = X - unat x"
    using x unat_diff_small [of "ucast x" "cfg_x (config c)"] by (simp add: X_def)
  have count: "nat (sint (if cfg_x (config c) - ucast x < ucast count
      then cfg_x (config c) - ucast x else (ucast count :: ulong))) = n"
  proof -
    have "unat (if cfg_x (config c) - ucast x < ucast count
        then cfg_x (config c) - ucast x else (ucast count :: ulong)) = n"
      using room by (simp add: n_def word_less_nat_alt)
    moreover have "n < 2 ^ 31" using ushort_less [of count] by (simp add: n_def)
    ultimately show ?thesis
      using sint_of_small [of "if cfg_x (config c) - ucast x < ucast count
        then cfg_x (config c) - ucast x else (ucast count :: ulong)"] by simp
  qed
  have "start + n \<le> length (buffer c)"
    unfolding start_def X_def
    by (rule row_index [OF ok, of base "unat rows"]) (use base y x in \<open>auto simp: n_def X_def\<close>)
  moreover have "0 + n \<le> length (map cell_of data)" using data by (simp add: n_def X_def)
  ultimately obtain cells where run: "copy_loop (buffer c) start (map cell_of data) 0 n = Some cells"
    and len: "length cells = length (buffer c)"
    and nth: "\<And>i. i < length (buffer c) \<Longrightarrow> cells ! i =
      (if start \<le> i \<and> i < start + n then map cell_of data ! (0 + (i - start)) else buffer c ! i)"
    by (rule copy_loop_ex) (rule that, assumption+)
  have "putcs base rows y x count data c = Some (CO_RC_OK, c\<lparr>buffer := cells\<rparr>)"
    using run guard by (simp add: putcs_def Let_def count pos start_def)
  moreover have "cells ! i = (if start \<le> i \<and> i < start + n then cell_of (data ! (i - start))
      else buffer c ! i)" if "i < length (buffer c)" for i
    using nth [OF that] data that by (auto simp: n_def X_def)
  ultimately show ?thesis
    using console_ok_buffer [OF ok len]
    by (simp add: X_def [symmetric] n_def [symmetric] start_def [symmetric] Let_def)
qed

lemma putc_writes:
  assumes ok: "console_ok c"
  shows "\<exists>rc c'. putc x y charattr c = Some (rc, c') \<and> console_ok c' \<and>
           config c' = config c \<and> cursor c' = cursor c \<and>
           (if unat y < unat (cfg_y (config c)) \<and> unat x < unat (cfg_x (config c))
            then rc = CO_RC_OK \<and> buffer c' =
              (buffer c)[screen c + unat (cfg_x (config c)) * unat y + unat x := cell_of charattr]
            else rc = CO_RC_ERROR \<and> c' = c)"
proof -
  define X where "X = unat (cfg_x (config c))"
  note D = console_okD [OF ok, folded X_def]
  have guard: "sint (cfg_y (config c)) \<le> sint (ucast y :: ulong) \<or> cfg_x (config c) \<le> ucast x
      \<longleftrightarrow> \<not> (unat y < unat (cfg_y (config c)) \<and> unat x < X)"
    by (auto simp: word_le_nat_alt X_def sint_le_ushort [OF D(8)])
  show ?thesis
  proof (cases "unat y < unat (cfg_y (config c)) \<and> unat x < X")
    case True
    have in_buf: "screen c + X * unat y + unat x + 1 \<le> length (buffer c)"
      unfolding X_def
      by (rule row_index [OF ok, of "screen c" "unat (cfg_y (config c))"]) (use True X_def in auto)
    have "unat (cfg_x (config c) * ucast y) = X * unat y"
      using index_word [OF ok, of "ucast y"] True D(3) by (simp add: X_def)
    moreover have "X * unat y + unat x < 2 ^ 32" using in_buf D(4,5) pow31 by linarith
    ultimately have pos: "unat (cfg_x (config c) * ucast y + ucast x) = X * unat y + unat x"
      using unat_add_small [of "cfg_x (config c) * ucast y" "ucast x"] by simp
    have "store_at (buffer c) (int (screen c + (X * unat y + unat x))) (cell_of charattr)
        = Some ((buffer c)[screen c + X * unat y + unat x := cell_of charattr])"
      using in_buf by (subst store_at_Some) (auto simp: nat_add_distrib nat_mult_distrib add.assoc simp flip: of_nat_add of_nat_mult)
    then have "putc x y charattr c = Some (CO_RC_OK, c\<lparr>buffer :=
        (buffer c)[screen c + X * unat y + unat x := cell_of charattr]\<rparr>)"
      using guard True unfolding putc_def Let_def pos by simp
    then show ?thesis
      using True console_ok_buffer [OF ok] by (simp add: X_def)
  next
    case False
    then have "putc x y charattr c = Some (CO_RC_ERROR, c)"
      using guard by (simp add: putc_def Let_def)
    then show ?thesis using False ok by (simp add: X_def)
  qed
qed

lemma switch_clears:
  assumes ok: "console_ok c"
  shows "switch_console c = Some (CO_RC_OK, c\<lparr>buffer :=
     replicate (screen c) zero_cell @ drop (screen c) (buffer c)\<rparr>)"
proof -
  define X where "X = unat (cfg_x (config c))"
  define Y where "Y = unat (cfg_y (config c))"
  define M where "M = unat (cfg_max_y (config c))"
  note D = console_okD [OF ok, folded X_def Y_def M_def]
  have le: "X * (M - Y) \<le> X * M" by simp
  have "2 * X \<le> 2 * (X * M)" using D(2,3) by (cases M) auto
  then have "2 * X < 2 ^ 31" using D(4) by linarith
  then have two: "unat (sizeof_co_console_cell * cfg_x (config c)) = 2 * X"
    using unat_mult_small [of sizeof_co_console_cell "cfg_x (config c)"]
    by (simp add: sizeof_co_console_cell_def X_def)
  have rows: "unat (cfg_max_y (config c) - cfg_y (config c)) = M - Y"
    using D(3) unat_diff_small by (simp add: M_def Y_def)
  have "2 * X * (M - Y) < 2 ^ 32" using D(4) le pow31 unfolding mult.assoc by linarith
  then have "unat (sizeof_co_console_cell * cfg_x (config c) * (cfg_max_y (config c) - cfg_y (config c)))
      = 2 * X * (M - Y)"
    using unat_mult_small [of "sizeof_co_console_cell * cfg_x (config c)"
        "cfg_max_y (config c) - cfg_y (config c)"] two rows by simp
  then show ?thesis
    using fill_loop_Some [of 0 "screen c" "buffer c" zero_cell] D(5,6)
    by (simp add: switch_console_def)
qed

text \<open>A write and a move of a part of one row, as the loops over a region make them.\<close>

lemma row_end:
  fixes X :: nat
  assumes "y < R" and "x + w \<le> X" and "len = scr + X * R"
  shows "scr + X * y + x + w \<le> len"
proof -
  have "X * y + (x + w) \<le> X * Suc y" using assms(2) by simp
  also have "\<dots> \<le> X * R" using assms(1) by (intro mult_le_mono2) simp
  finally show ?thesis using assms(3) by simp
qed

lemma row_fill:
  fixes X :: nat
  assumes len: "length cells = scr + X * R" and y: "y < R" and x: "x + w \<le> X"
  obtains cells' where "fill_loop cells (scr + X * y + x) v w = Some cells'"
    and "length cells' = length cells"
    and "\<And>i. i < scr \<Longrightarrow> cells' ! i = cells ! i"
    and "\<And>row col. row < R \<Longrightarrow> col < X \<Longrightarrow> cells' ! (scr + X * row + col) =
      (if row = y \<and> x \<le> col \<and> col < x + w then v else cells ! (scr + X * row + col))"
proof -
  from row_end [OF y x len] obtain cells' where c: "fill_loop cells (scr + X * y + x) v w = Some cells'"
    "length cells' = length cells"
    and nth: "\<And>i. i < length cells \<Longrightarrow> cells' ! i =
      (if scr + X * y + x \<le> i \<and> i < scr + X * y + x + w then v else cells ! i)"
    by (rule fill_loop_ex) blast
  show thesis
  proof (rule that [OF c])
    show "cells' ! i = cells ! i" if "i < scr" for i using nth [of i] that len by simp
    show "cells' ! (scr + X * row + col) =
        (if row = y \<and> x \<le> col \<and> col < x + w then v else cells ! (scr + X * row + col))"
      if "row < R" "col < X" for row col
      using nth [of "scr + X * row + col"] row_col_less [OF that] row_col_segment [OF that(2) x, of y row] len
      by auto
  qed
qed

lemma row_move:
  fixes X :: nat
  assumes len: "length cells = scr + X * R" and y: "y < R" and x: "x + w \<le> X"
    and t: "t < R" and l: "l + w \<le> X"
  obtains cells' where "memmove cells (scr + X * y + x) (scr + X * t + l) w = Some cells'"
    and "length cells' = length cells"
    and "\<And>i. i < scr \<Longrightarrow> cells' ! i = cells ! i"
    and "\<And>row col. row < R \<Longrightarrow> col < X \<Longrightarrow> cells' ! (scr + X * row + col) =
      (if row = y \<and> x \<le> col \<and> col < x + w then cells ! (scr + X * t + (l + col - x))
       else cells ! (scr + X * row + col))"
proof -
  from row_end [OF y x len] row_end [OF t l len]
  obtain cells' where c: "memmove cells (scr + X * y + x) (scr + X * t + l) w = Some cells'"
    "length cells' = length cells"
    and nth: "\<And>i. i < length cells \<Longrightarrow> cells' ! i =
      (if scr + X * y + x \<le> i \<and> i < scr + X * y + x + w then cells ! (scr + X * t + l + (i - (scr + X * y + x)))
       else cells ! i)"
    by (rule memmove_ex) blast
  show thesis
  proof (rule that [OF c])
    show "cells' ! i = cells ! i" if "i < scr" for i using nth [of i] that len by simp
    show "cells' ! (scr + X * row + col) =
        (if row = y \<and> x \<le> col \<and> col < x + w then cells ! (scr + X * t + (l + col - x))
         else cells ! (scr + X * row + col))"
      if "row < R" "col < X" for row col
    proof -
      have "scr + X * t + l + (scr + X * row + col - (scr + X * y + x)) = scr + X * t + (l + col - x)"
        if "row = y" "x \<le> col" using that by simp
      then show ?thesis
        using nth [of "scr + X * row + col"] row_col_less [OF that] row_col_segment [OF that(2) x, of y row] len
        by auto
    qed
  qed
qed

lemma word_index_below:
  fixes config_x y :: ulong
  assumes "unat config_x * R < 2 ^ 31" and "unat y < R"
  shows "unat (config_x * y) = unat config_x * unat y"
proof (rule unat_mult_small)
  have "unat config_x * unat y \<le> unat config_x * R" using assms(2) by simp
  with assms(1) pow31 have "unat config_x * unat y < 2 ^ 32" by linarith
  then show "unat config_x * unat y < 2 ^ LENGTH(32)" by simp
qed

lemma unat_Suc_below:
  fixes y :: ulong
  shows "unat y < R \<Longrightarrow> R < 2 ^ 31 \<Longrightarrow> unat (y + 1) = unat y + 1"
  using unat_add_small [of y 1] by simp

lemma clear_rows_writes:
  assumes "length cells = scr + unat config_x * R" and "unat config_x * R < 2 ^ 31" and "R < 2 ^ 31"
    and "unat t + n \<le> R" and "unat l \<le> unat r" and "unat r < unat config_x"
  shows "\<exists>cells'. clear_rows scr config_x blank l r t n cells = Some cells' \<and>
    length cells' = length cells \<and> (\<forall>i < scr. cells' ! i = cells ! i) \<and>
    (\<forall>row < R. \<forall>col < unat config_x. cells' ! (scr + unat config_x * row + col) =
       (if unat t \<le> row \<and> row < unat t + n \<and> unat l \<le> col \<and> col \<le> unat r then blank
        else cells ! (scr + unat config_x * row + col)))"
  using assms
proof (induction n arbitrary: t cells)
  case 0
  then show ?case by auto
next
  case (Suc n)
  let ?X = "unat config_x" and ?w = "unat r + 1 - unat l"
  have t: "unat t < R" and lw: "unat l + ?w \<le> ?X" using Suc.prems by auto
  obtain c1 where c1: "fill_loop cells (scr + ?X * unat t + unat l) blank ?w = Some c1"
    "length c1 = length cells" "\<And>i. i < scr \<Longrightarrow> c1 ! i = cells ! i"
    and nth: "\<And>row col. row < R \<Longrightarrow> col < ?X \<Longrightarrow> c1 ! (scr + ?X * row + col) =
      (if row = unat t \<and> unat l \<le> col \<and> col < unat l + ?w then blank else cells ! (scr + ?X * row + col))"
    by (rule row_fill [OF Suc.prems(1) t lw, of blank]) (rule that, assumption+)
  have t1: "unat (t + 1) = unat t + 1" using t Suc.prems(3) by (rule unat_Suc_below)
  have pre: "length c1 = scr + ?X * R" "unat (t + 1) + n \<le> R"
    using Suc.prems c1(2) t1 by simp_all
  obtain c2 where c2: "clear_rows scr config_x blank l r (t + 1) n c1 = Some c2"
    "length c2 = length c1" "\<forall>i < scr. c2 ! i = c1 ! i"
    and nth2: "\<forall>row < R. \<forall>col < ?X. c2 ! (scr + ?X * row + col) =
       (if unat t + 1 \<le> row \<and> row < unat t + 1 + n \<and> unat l \<le> col \<and> col \<le> unat r then blank
        else c1 ! (scr + ?X * row + col))"
    using Suc.IH [OF pre(1) Suc.prems(2,3) pre(2) Suc.prems(5,6)] unfolding t1 by blast
  have "clear_rows scr config_x blank l r t (Suc n) cells = Some c2"
    using c1(1) c2(1) word_index_below [OF Suc.prems(2) t] by simp
  moreover have "c2 ! (scr + ?X * row + col) =
       (if unat t \<le> row \<and> row < unat t + Suc n \<and> unat l \<le> col \<and> col \<le> unat r then blank
        else cells ! (scr + ?X * row + col))" if "row < R" "col < ?X" for row col
    using nth [OF that] nth2 [rule_format, OF that] Suc.prems(5) by (auto split: if_splits)
  ultimately show ?case using c1 c2 by simp
qed

lemma bmove_rows_up_moves:
  assumes "length cells = scr + unat config_x * R" and "unat config_x * R < 2 ^ 31" and "R < 2 ^ 31"
    and "unat t + n \<le> R" and "unat y < unat t" and "unat x + w \<le> unat config_x"
    and "unat l + w \<le> unat config_x" and "cells_moved width = w"
  shows "\<exists>cells'. bmove_rows_up scr config_x x l width y t n cells = Some cells' \<and>
    length cells' = length cells \<and> (\<forall>i < scr. cells' ! i = cells ! i) \<and>
    (\<forall>row < R. \<forall>col < unat config_x. cells' ! (scr + unat config_x * row + col) =
       (if unat y \<le> row \<and> row < unat y + n \<and> unat x \<le> col \<and> col < unat x + w
        then cells ! (scr + unat config_x * (row + unat t - unat y) + (unat l + col - unat x))
        else cells ! (scr + unat config_x * row + col)))"
  using assms
proof (induction n arbitrary: t y cells)
  case 0
  then show ?case by auto
next
  case (Suc n)
  let ?X = "unat config_x"
  have t: "unat t < R" and y: "unat y < R" using Suc.prems by auto
  obtain c1 where c1: "memmove cells (scr + ?X * unat y + unat x) (scr + ?X * unat t + unat l) w = Some c1"
    "length c1 = length cells" "\<And>i. i < scr \<Longrightarrow> c1 ! i = cells ! i"
    and nth: "\<And>row col. row < R \<Longrightarrow> col < ?X \<Longrightarrow> c1 ! (scr + ?X * row + col) =
      (if row = unat y \<and> unat x \<le> col \<and> col < unat x + w then cells ! (scr + ?X * unat t + (unat l + col - unat x))
       else cells ! (scr + ?X * row + col))"
    using row_move [OF Suc.prems(1) y Suc.prems(6) t Suc.prems(7)] by metis
  have s1: "unat (t + 1) = unat t + 1" "unat (y + 1) = unat y + 1"
    using t y Suc.prems(3) by (simp_all only: unat_Suc_below)
  have pre: "length c1 = scr + ?X * R" "unat (t + 1) + n \<le> R" "unat (y + 1) < unat (t + 1)"
    using Suc.prems c1(2) s1 by simp_all
  obtain c2 where c2: "bmove_rows_up scr config_x x l width (y + 1) (t + 1) n c1 = Some c2"
    "length c2 = length c1" "\<forall>i < scr. c2 ! i = c1 ! i"
    and nth2: "\<forall>row < R. \<forall>col < ?X. c2 ! (scr + ?X * row + col) =
       (if unat y + 1 \<le> row \<and> row < unat y + 1 + n \<and> unat x \<le> col \<and> col < unat x + w
        then c1 ! (scr + ?X * (row + (unat t + 1) - (unat y + 1)) + (unat l + col - unat x))
        else c1 ! (scr + ?X * row + col))"
    using Suc.IH [OF pre(1) Suc.prems(2,3) pre(2,3) Suc.prems(6-8)] unfolding s1 by blast
  have "bmove_rows_up scr config_x x l width y t (Suc n) cells = Some c2"
    using c1(1) c2(1) word_index_below [OF Suc.prems(2) t] word_index_below [OF Suc.prems(2) y] Suc.prems(8)
    by simp
  moreover have "c2 ! (scr + ?X * row + col) =
       (if unat y \<le> row \<and> row < unat y + Suc n \<and> unat x \<le> col \<and> col < unat x + w
        then cells ! (scr + ?X * (row + unat t - unat y) + (unat l + col - unat x))
        else cells ! (scr + ?X * row + col))" if "row < R" "col < ?X" for row col
  proof (cases "unat y + 1 \<le> row \<and> row < unat y + 1 + n \<and> unat x \<le> col \<and> col < unat x + w")
    case True
    then have src: "row + unat t - unat y < R" "unat l + col - unat x < ?X"
      "row + unat t - unat y \<noteq> unat y"
      using Suc.prems(4,5,7) by linarith+
    have "row + (unat t + 1) - (unat y + 1) = row + unat t - unat y" by simp
    then show ?thesis using nth2 [rule_format, OF that] nth [OF src(1,2)] src(3) True by simp
  next
    case False
    have "c2 ! (scr + ?X * row + col) = c1 ! (scr + ?X * row + col)"
      using nth2 [rule_format, OF that] False by (simp only: if_False)
    then show ?thesis using nth [OF that] False by auto
  qed
  ultimately show ?case using c1 c2 by simp
qed

lemma bmove_rows_down_moves:
  assumes "length cells = scr + unat config_x * R" and "unat config_x * R < 2 ^ 31" and "R < 2 ^ 31"
    and "n \<le> unat b + 1" and "unat b \<le> unat y" and "unat y < R" and "unat x + w \<le> unat config_x"
    and "unat l + w \<le> unat config_x" and "cells_moved width = w"
  shows "\<exists>cells'. bmove_rows_down scr config_x x l width y b n cells = Some cells' \<and>
    length cells' = length cells \<and> (\<forall>i < scr. cells' ! i = cells ! i) \<and>
    (\<forall>row < R. \<forall>col < unat config_x. cells' ! (scr + unat config_x * row + col) =
       (if row \<le> unat y \<and> unat y < row + n \<and> unat x \<le> col \<and> col < unat x + w
        then cells ! (scr + unat config_x * (row + unat b - unat y) + (unat l + col - unat x))
        else cells ! (scr + unat config_x * row + col)))"
  using assms
proof (induction n arbitrary: b y cells)
  case 0
  then show ?case by auto
next
  case (Suc n)
  let ?X = "unat config_x"
  have b: "unat b < R" and y: "unat y < R" using Suc.prems by auto
  obtain c1 where c1: "memmove cells (scr + ?X * unat y + unat x) (scr + ?X * unat b + unat l) w = Some c1"
    "length c1 = length cells" "\<And>i. i < scr \<Longrightarrow> c1 ! i = cells ! i"
    and nth: "\<And>row col. row < R \<Longrightarrow> col < ?X \<Longrightarrow> c1 ! (scr + ?X * row + col) =
      (if row = unat y \<and> unat x \<le> col \<and> col < unat x + w then cells ! (scr + ?X * unat b + (unat l + col - unat x))
       else cells ! (scr + ?X * row + col))"
    by (rule row_move [OF Suc.prems(1) y Suc.prems(7) b Suc.prems(8)]) (rule that, assumption+)
  have run: "bmove_rows_down scr config_x x l width y b (Suc n) cells =
      bmove_rows_down scr config_x x l width (y - 1) (b - 1) n c1"
    using c1(1) word_index_below [OF Suc.prems(2) b] word_index_below [OF Suc.prems(2) y] Suc.prems(9)
    by simp
  show ?case
  proof (cases n)
    case 0
    have "(if row \<le> unat y \<and> unat y < row + Suc n \<and> unat x \<le> col \<and> col < unat x + w
        then cells ! (scr + ?X * (row + unat b - unat y) + (unat l + col - unat x))
        else cells ! (scr + ?X * row + col)) = c1 ! (scr + ?X * row + col)"
      if "row < R" "col < ?X" for row col
      using nth [OF that] 0 by auto
    then show ?thesis unfolding run using 0 c1 by simp
  next
    case (Suc m)
    then have pos: "0 < unat b" "0 < unat y" using Suc.prems(4,5) by linarith+
    then have s1: "unat (b - 1) = unat b - 1" "unat (y - 1) = unat y - 1"
      by (simp_all add: unat_minus_one unat_gt_0)
    have pre: "length c1 = scr + ?X * R" "n \<le> unat (b - 1) + 1" "unat (b - 1) \<le> unat (y - 1)"
      "unat (y - 1) < R"
      using Suc.prems c1(2) s1 pos by simp_all
    obtain c2 where c2: "bmove_rows_down scr config_x x l width (y - 1) (b - 1) n c1 = Some c2"
      "length c2 = length c1" "\<forall>i < scr. c2 ! i = c1 ! i"
      and nth2: "\<forall>row < R. \<forall>col < ?X. c2 ! (scr + ?X * row + col) =
         (if row \<le> unat y - 1 \<and> unat y - 1 < row + n \<and> unat x \<le> col \<and> col < unat x + w
          then c1 ! (scr + ?X * (row + (unat b - 1) - (unat y - 1)) + (unat l + col - unat x))
          else c1 ! (scr + ?X * row + col))"
      using Suc.IH [OF pre(1) Suc.prems(2,3) pre(2-4) Suc.prems(7-9)] unfolding s1 by blast
    have "c2 ! (scr + ?X * row + col) =
         (if row \<le> unat y \<and> unat y < row + Suc n \<and> unat x \<le> col \<and> col < unat x + w
          then cells ! (scr + ?X * (row + unat b - unat y) + (unat l + col - unat x))
          else cells ! (scr + ?X * row + col))" if "row < R" "col < ?X" for row col
    proof (cases "row \<le> unat y - 1 \<and> unat y - 1 < row + n \<and> unat x \<le> col \<and> col < unat x + w")
      case True
      then have src: "row + unat b - unat y < R" "unat l + col - unat x < ?X"
        "row + unat b - unat y \<noteq> unat y"
        using Suc.prems(5,6,8) pos by linarith+
      have "row + (unat b - 1) - (unat y - 1) = row + unat b - unat y" using pos by linarith
      moreover have "row \<le> unat y \<and> unat y < row + Suc n" using True pos by linarith
      ultimately show ?thesis using nth2 [rule_format, OF that] nth [OF src(1,2)] src(3) True pos by simp
    next
      case False
      have "c2 ! (scr + ?X * row + col) = c1 ! (scr + ?X * row + col)"
        using nth2 [rule_format, OF that] False by (simp only: if_False)
      then show ?thesis using nth [OF that] False pos by auto
    qed
    then show ?thesis unfolding run using c1 c2 by simp
  qed
qed

text \<open>The regions the two operations are meant for.\<close>

lemma clear_region:
  assumes ok: "console_ok c" and b: "unat bottom_row < unat (cfg_y (config c))"
    and l: "unat left \<le> unat right" and r: "unat right < unat (cfg_x (config c))"
  shows "\<exists>c'. clear top_row left bottom_row right charattr c = Some (CO_RC_OK, c') \<and> console_ok c' \<and>
           config c' = config c \<and> cursor c' = cursor c \<and>
           (\<forall>i < screen c. buffer c' ! i = buffer c ! i) \<and>
           (\<forall>row < unat (cfg_y (config c)). \<forall>col < unat (cfg_x (config c)).
              cell_at c' row col =
                (if unat top_row \<le> row \<and> row \<le> unat bottom_row \<and> unat left \<le> col \<and> col \<le> unat right
                 then cell_of charattr else cell_at c row col))"
proof (cases "unat top_row \<le> unat bottom_row")
  case False
  then have "unat bottom_row + 1 - unat top_row = 0" by simp
  with False ok show ?thesis by (auto simp: clear_def cell_at_def)
next
  case True
  note D = console_okD [OF ok]
  have len: "length (buffer c) = screen c + unat (cfg_x (config c)) * unat (cfg_y (config c))"
    using D(5,7) by simp
  have small: "unat (cfg_x (config c)) * unat (cfg_y (config c)) < 2 ^ 31"
    using D(4,7) by linarith
  obtain cells where cells: "clear_rows (screen c) (cfg_x (config c)) (cell_of charattr) (ucast left) (ucast right)
      (ucast top_row) (unat bottom_row + 1 - unat top_row) (buffer c) = Some cells"
    "length cells = length (buffer c)" "\<forall>i < screen c. cells ! i = buffer c ! i"
    and nth: "\<forall>row < unat (cfg_y (config c)). \<forall>col < unat (cfg_x (config c)).
       cells ! (screen c + unat (cfg_x (config c)) * row + col) =
       (if unat top_row \<le> row \<and> row < unat top_row + (unat bottom_row + 1 - unat top_row) \<and>
            unat left \<le> col \<and> col \<le> unat right then cell_of charattr
        else buffer c ! (screen c + unat (cfg_x (config c)) * row + col))"
    using clear_rows_writes [OF len small D(8), of "ucast top_row" "unat bottom_row + 1 - unat top_row"
        "ucast left" "ucast right" "cell_of charattr"] True b l r
    by auto
  have "clear top_row left bottom_row right charattr c = Some (CO_RC_OK, c\<lparr>buffer := cells\<rparr>)"
    using cells(1) by (simp add: clear_def)
  moreover have "cell_at (c\<lparr>buffer := cells\<rparr>) row col =
      (if unat top_row \<le> row \<and> row \<le> unat bottom_row \<and> unat left \<le> col \<and> col \<le> unat right
       then cell_of charattr else cell_at c row col)"
    if "row < unat (cfg_y (config c))" "col < unat (cfg_x (config c))" for row col
    using nth [rule_format, OF that] True by (auto simp: cell_at_def)
  ultimately show ?thesis using console_ok_buffer [OF ok cells(2)] cells(3) by auto
qed

lemma bmove_rows_move:
  fixes row_par column top_row left bottom_row right :: ushort
  assumes ok: "console_ok c"
    and b: "unat top_row \<le> unat bottom_row" "unat bottom_row < unat (cfg_y (config c))"
    and l: "unat left \<le> unat right" "unat right < unat (cfg_x (config c))"
    and y: "unat row_par + (unat bottom_row - unat top_row) < unat (cfg_y (config c))"
    and x: "unat column + (unat right - unat left) < unat (cfg_x (config c))"
  shows "\<exists>cells. bmove row_par column top_row left bottom_row right c
             = Some (CO_RC_OK, c\<lparr>buffer := cells\<rparr>) \<and> length cells = length (buffer c) \<and>
           (\<forall>i < screen c. cells ! i = buffer c ! i) \<and>
           (\<forall>row < unat (cfg_y (config c)). \<forall>col < unat (cfg_x (config c)).
              cells ! (screen c + unat (cfg_x (config c)) * row + col) =
                (if unat row_par \<le> row \<and> row < unat row_par + (unat bottom_row + 1 - unat top_row) \<and>
                    unat column \<le> col \<and> col < unat column + (unat right + 1 - unat left)
                 then buffer c ! (screen c + unat (cfg_x (config c)) * (row + unat top_row - unat row_par) +
                        (unat left + col - unat column))
                 else buffer c ! (screen c + unat (cfg_x (config c)) * row + col)))"
proof -
  let ?w = "unat right + 1 - unat left" and ?n = "unat bottom_row + 1 - unat top_row"
  note D = console_okD [OF ok]
  have len: "length (buffer c) = screen c + unat (cfg_x (config c)) * unat (cfg_y (config c))"
    using D(5,7) by simp
  have small: "unat (cfg_x (config c)) * unat (cfg_y (config c)) < 2 ^ 31"
    using D(4,7) by linarith
  have "unat (ucast right - ucast left :: ulong) = unat right - unat left"
    using l by (subst unat_diff_small) simp_all
  then have "unat (ucast right - ucast left + 1 :: ulong) = ?w"
    using unat_add_small [of "ucast right - ucast left :: ulong" 1] ushort_less [of right] l(1) by simp
  then have width: "cells_moved (ucast right - ucast left + 1) = ?w"
    using cells_moved_small [of "ucast right - ucast left + 1"] ushort_less [of right] by simp
  have xw: "unat (ucast column :: ulong) + ?w \<le> unat (cfg_x (config c))"
    and lw: "unat (ucast left :: ulong) + ?w \<le> unat (cfg_x (config c))" using l x by simp_all
  show ?thesis
  proof (cases "unat row_par < unat top_row")
    case True
    then have up: "ucast row_par < (ucast top_row :: ulong)" by (simp add: word_less_nat_alt)
    have tn: "unat (ucast top_row :: ulong) + ?n \<le> unat (cfg_y (config c))"
      and yt: "unat (ucast row_par :: ulong) < unat (ucast top_row :: ulong)"
      using b True by simp_all
    obtain cells where cells: "bmove_rows_up (screen c) (cfg_x (config c)) (ucast column) (ucast left)
        (ucast right - ucast left + 1) (ucast row_par) (ucast top_row) ?n (buffer c) = Some cells"
      and rest: "length cells = length (buffer c) \<and> (\<forall>i < screen c. cells ! i = buffer c ! i) \<and>
       (\<forall>row < unat (cfg_y (config c)). \<forall>col < unat (cfg_x (config c)).
        cells ! (screen c + unat (cfg_x (config c)) * row + col) =
         (if unat row_par \<le> row \<and> row < unat row_par + ?n \<and> unat column \<le> col \<and> col < unat column + ?w
          then buffer c ! (screen c + unat (cfg_x (config c)) * (row + unat top_row - unat row_par) +
                 (unat left + col - unat column))
          else buffer c ! (screen c + unat (cfg_x (config c)) * row + col)))"
      using bmove_rows_up_moves [OF len small D(8) tn yt xw lw width]
      unfolding unat_ucast_ushort by blast
    have "bmove row_par column top_row left bottom_row right c = Some (CO_RC_OK, c\<lparr>buffer := cells\<rparr>)"
      using cells up by (simp add: bmove_def Let_def)
    then show ?thesis using rest by blast
  next
    case False
    then have "\<not> ucast row_par < (ucast top_row :: ulong)" by (simp add: word_less_nat_alt)
    moreover have "unat (ucast bottom_row - ucast top_row :: ulong) = unat bottom_row - unat top_row"
      using b by (subst unat_diff_small) simp_all
    then have y1: "unat (ucast row_par + (ucast bottom_row - ucast top_row) :: ulong)
        = unat row_par + (unat bottom_row - unat top_row)"
      using unat_add_small [of "ucast row_par :: ulong" "ucast bottom_row - ucast top_row"]
        ushort_less [of row_par] ushort_less [of bottom_row] by simp
    have nb: "?n \<le> unat (ucast bottom_row :: ulong) + 1"
      and by1: "unat (ucast bottom_row :: ulong) \<le> unat (ucast row_par + (ucast bottom_row - ucast top_row) :: ulong)"
      and y2: "unat (ucast row_par + (ucast bottom_row - ucast top_row) :: ulong) < unat (cfg_y (config c))"
      using b y False unfolding y1 by simp_all
    obtain cells where cells: "bmove_rows_down (screen c) (cfg_x (config c)) (ucast column) (ucast left)
        (ucast right - ucast left + 1) (ucast row_par + (ucast bottom_row - ucast top_row)) (ucast bottom_row) ?n
        (buffer c) = Some cells"
      "length cells = length (buffer c)" "\<forall>i < screen c. cells ! i = buffer c ! i"
      and nth: "\<forall>row < unat (cfg_y (config c)). \<forall>col < unat (cfg_x (config c)).
        cells ! (screen c + unat (cfg_x (config c)) * row + col) =
         (if row \<le> unat row_par + (unat bottom_row - unat top_row) \<and>
             unat row_par + (unat bottom_row - unat top_row) < row + ?n \<and>
             unat column \<le> col \<and> col < unat column + ?w
          then buffer c ! (screen c + unat (cfg_x (config c)) *
                 (row + unat bottom_row - (unat row_par + (unat bottom_row - unat top_row))) +
                 (unat left + col - unat column))
          else buffer c ! (screen c + unat (cfg_x (config c)) * row + col))"
      using bmove_rows_down_moves [OF len small D(8) nb by1 y2 xw lw width]
      unfolding y1 unat_ucast_ushort by blast
    have "row \<le> unat row_par + (unat bottom_row - unat top_row) \<and>
        unat row_par + (unat bottom_row - unat top_row) < row + ?n \<longleftrightarrow>
        unat row_par \<le> row \<and> row < unat row_par + ?n" for row
      using b(1) by auto
    moreover have "row + unat bottom_row - (unat row_par + (unat bottom_row - unat top_row))
        = row + unat top_row - unat row_par" for row
      using b(1) by simp
    ultimately have "\<forall>row < unat (cfg_y (config c)). \<forall>col < unat (cfg_x (config c)).
        cells ! (screen c + unat (cfg_x (config c)) * row + col) =
         (if unat row_par \<le> row \<and> row < unat row_par + ?n \<and>
             unat column \<le> col \<and> col < unat column + ?w
          then buffer c ! (screen c + unat (cfg_x (config c)) * (row + unat top_row - unat row_par) +
                 (unat left + col - unat column))
          else buffer c ! (screen c + unat (cfg_x (config c)) * row + col))"
      using nth by (simp only: conj_assoc [symmetric])
    moreover have "bmove row_par column top_row left bottom_row right c = Some (CO_RC_OK, c\<lparr>buffer := cells\<rparr>)"
      using cells(1) \<open>\<not> ucast row_par < (ucast top_row :: ulong)\<close> by (simp add: bmove_def Let_def)
    ultimately show ?thesis using cells(2,3) by blast
  qed
qed

text \<open>Where the guards do not reach: nothing below the screen belongs to the console.\<close>

lemma fill_outside:
  "length cells \<le> d \<Longrightarrow> 0 < n \<Longrightarrow> fill_loop cells d v n = None"
  by (rule fill_loop_None) simp

lemma clear_rows_outside:
  assumes "length cells = scr + unat config_x * R" and "unat config_x * R < 2 ^ 31" and "R < 2 ^ 31"
    and "unat t \<le> R" and "R < unat t + n" and "unat l \<le> unat r" and "unat r < unat config_x"
  shows "clear_rows scr config_x blank l r t n cells = None"
  using assms
proof (induction n arbitrary: t cells)
  case 0
  then show ?case by simp
next
  case (Suc n)
  show ?case
  proof (cases "unat t = R")
    case True
    have pos: "0 < unat config_x" using Suc.prems by simp
    have "unat (config_x * t) = unat config_x * R"
      using Suc.prems(2) True pow31 unat_mult_small [of config_x t] by simp
    then have "fill_loop cells (scr + unat (config_x * t) + unat l) blank (unat r + 1 - unat l) = None"
      using Suc.prems by (intro fill_outside) simp_all
    then show ?thesis by simp
  next
    case False
    then have t: "unat t < R" using Suc.prems by simp
    show ?thesis
    proof (cases "fill_loop cells (scr + unat (config_x * t) + unat l) blank (unat r + 1 - unat l)")
      case None
      then show ?thesis by simp
    next
      case (Some c1)
      have t1: "unat (t + 1) = unat t + 1" using t Suc.prems(3) by (rule unat_Suc_below)
      have "clear_rows scr config_x blank l r (t + 1) n c1 = None"
        using Suc.prems t t1 fill_loop_length [OF Some] by (intro Suc.IH) simp_all
      then show ?thesis using Some by simp
    qed
  qed
qed

lemma clear_outside:
  assumes ok: "console_ok c" and t: "unat top_row \<le> unat (cfg_y (config c))"
    and b: "unat (cfg_y (config c)) \<le> unat bottom_row"
    and l: "unat left \<le> unat right" "unat right < unat (cfg_x (config c))"
  shows "clear top_row left bottom_row right charattr c = None"
proof -
  note D = console_okD [OF ok]
  have "length (buffer c) = screen c + unat (cfg_x (config c)) * unat (cfg_y (config c))"
    "unat (cfg_x (config c)) * unat (cfg_y (config c)) < 2 ^ 31"
    using D(4,5,7) by linarith+
  from clear_rows_outside [OF this D(8), of "ucast top_row" "unat bottom_row + 1 - unat top_row"
      "ucast left" "ucast right"] assms
  show ?thesis by (simp add: clear_def)
qed

lemma scroll_up_outside:
  assumes ok: "console_ok c" and t: "unat top_row + unat lines < unat (cfg_max_y (config c))"
    and b: "unat (cfg_y (config c)) < unat bottom_row + 1"
    and m: "unat bottom_row + 1 \<le> unat (cfg_max_y (config c))"
    and lines: "0 < unat lines" "unat lines \<le> unat bottom_row + 1"
  shows "scroll_up top_row bottom_row lines charattr c = None"
proof -
  let ?x = "cfg_x (config c)"
  let ?b = "ucast bottom_row + 1 :: ulong"
  let ?offs = "?x * ?b - ?x * ucast lines"
  note D = console_okD [OF ok]
  have ub: "unat ?b = unat bottom_row + 1"
    using m D(9) unat_add_small [of "ucast bottom_row :: ulong" 1] by simp
  have xb: "unat (?x * ?b) = unat ?x * (unat bottom_row + 1)"
    using index_word [OF ok, of ?b] ub m by simp
  have xn: "unat (?x * ucast lines) = unat ?x * unat lines"
    using index_word [OF ok, of "ucast lines"] t by simp
  have "unat ?x * unat lines \<le> unat ?x * (unat bottom_row + 1)" using lines(2) by (rule mult_le_mono2)
  then have offs: "unat ?offs + unat ?x * unat lines = unat ?x * (unat bottom_row + 1)"
    using unat_diff_small [of "?x * ucast lines" "?x * ?b"] xb xn by simp
  have "unat ?x * unat (cfg_y (config c)) < unat ?x * (unat bottom_row + 1)"
    by (intro mult_strict_left_mono b D(1))
  then have beyond: "length (buffer c) < screen c + unat ?offs + unat ?x * unat lines"
    using offs D(5,7) by linarith
  have "Option.bind (memmove (buffer c) d s k)
      (\<lambda>cells. fill_loop cells (screen c + unat ?offs) v (unat ?x * unat lines)) = None" for d s k v
  proof (cases "memmove (buffer c) d s k")
    case (Some cells)
    then have "length cells = length (buffer c)" by (rule memmove_length)
    moreover have "0 < unat ?x * unat lines" using D(1) lines(1) by simp
    ultimately show ?thesis using beyond Some by (simp add: fill_loop_None)
  qed simp
  moreover have "ucast top_row \<noteq> (0 :: ulong) \<or> ?b \<noteq> cfg_y (config c)" using b ub by auto
  moreover have "\<not> cfg_max_y (config c) < ?b" using ub m by (simp add: word_less_nat_alt)
  moreover have "unat (ucast top_row + ucast lines :: ulong) = unat top_row + unat lines"
    using unat_add_small [of "ucast top_row :: ulong" "ucast lines"] t D(9) by simp
  then have "\<not> cfg_max_y (config c) \<le> ucast top_row + ucast lines"
    using t by (simp add: word_le_nat_alt)
  ultimately show ?thesis
    unfolding scroll_up_def Let_def xn by (simp del: unat_ucast_ushort)
qed

section \<open>Sequences of messages\<close>

text \<open>The messages whose region lies on the screen and whose cells are in the message.\<close>

fun message_fits :: "co_console_config \<Rightarrow> co_console_message \<Rightarrow> bool" where
  "message_fits f (CONSOLE_SCROLL_UP t b n a) \<longleftrightarrow>
     unat b + 1 \<le> unat (cfg_y f) \<and> unat t + unat n \<le> unat b + 1"
| "message_fits f (CONSOLE_SCROLL_DOWN t b n a) \<longleftrightarrow>
     unat b + 1 \<le> unat (cfg_y f) \<and> unat t + unat n \<le> unat b + 1"
| "message_fits f (CONSOLE_PUTCS y x count data) \<longleftrightarrow> unat count \<le> length data"
| "message_fits f (CONSOLE_INIT_SCROLLBUFFER y x count data) \<longleftrightarrow> unat count \<le> length data"
| "message_fits f (CONSOLE_CLEAR t l b r a) \<longleftrightarrow>
     unat b < unat (cfg_y f) \<and> unat l \<le> unat r \<and> unat r < unat (cfg_x f)"
| "message_fits f (CONSOLE_BMOVE y x t l b r) \<longleftrightarrow>
     unat t \<le> unat b \<and> unat b < unat (cfg_y f) \<and> unat l \<le> unat r \<and> unat r < unat (cfg_x f) \<and>
     unat y + (unat b - unat t) < unat (cfg_y f) \<and> unat x + (unat r - unat l) < unat (cfg_x f)"
| "message_fits f m \<longleftrightarrow> True"

fun console_ops :: "co_console \<Rightarrow> co_console_message list \<Rightarrow> co_console option" where
  "console_ops c [] = Some c"
| "console_ops c (m # ms) =
     Option.bind (co_console_op (Some c) m)
       (\<lambda>(rc, c', m'). case c' of None \<Rightarrow> None | Some c' \<Rightarrow> console_ops c' ms)"

definition keeps_console :: "co_console \<Rightarrow> (co_rc_value \<times> co_console) option \<Rightarrow> bool" where
  "keeps_console c r \<longleftrightarrow> (\<exists>rc c'. r = Some (rc, c') \<and> console_ok c' \<and> config c' = config c)"

lemma keepsI:
  "r = Some (rc, c') \<Longrightarrow> console_ok c' \<Longrightarrow> config c' = config c \<Longrightarrow> keeps_console c r"
  by (auto simp: keeps_console_def)

lemma scroll_up_keeps:
  assumes ok: "console_ok c" and b: "unat bottom_row + 1 \<le> unat (cfg_y (config c))"
    and lines: "unat top_row + unat lines \<le> unat bottom_row + 1"
  shows "keeps_console c (scroll_up top_row bottom_row lines charattr c)"
proof (cases "top_row \<noteq> 0 \<or> unat bottom_row + 1 \<noteq> unat (cfg_y (config c))")
  case True
  note W = scroll_region_words [OF ok b lines]
  show ?thesis
  proof (cases "unat top_row + unat lines < unat (cfg_max_y (config c))")
    case guard: True
    from scroll_up_region [OF ok True b lines guard, of charattr] show ?thesis
      unfolding keeps_console_def by blast
  next
    case False
    have "ucast top_row \<noteq> (0 :: ulong) \<or> ucast bottom_row + 1 \<noteq> cfg_y (config c)"
      using True W(1) by (metis unat_ucast_ushort unat_eq_zero)
    moreover have "cfg_max_y (config c) \<le> ucast top_row + ucast lines"
      using W(7) False by (simp add: word_le_nat_alt)
    ultimately have "scroll_up top_row bottom_row lines charattr c = Some (CO_RC_ERROR, c)"
      by (simp add: scroll_up_def Let_def)
    then show ?thesis using ok by (rule keepsI) simp
  qed
next
  case False
  then have "top_row = 0" and y: "unat bottom_row + 1 = unat (cfg_y (config c))" by auto
  moreover have "unat lines \<le> unat (cfg_max_y (config c))" using lines y console_okD(3) [OF ok] by simp
  moreover note console_okD(3,5) [OF ok]
  ultimately show ?thesis
    using scroll_up_screen [OF ok y, of lines charattr] ok lines
    by (intro keepsI, simp, intro console_ok_buffer) (simp_all add: mult_le_mono2)
qed

lemma scroll_down_keeps:
  assumes ok: "console_ok c" and b: "unat bottom_row + 1 \<le> unat (cfg_y (config c))"
    and lines: "unat top_row + unat lines \<le> unat bottom_row + 1"
  shows "keeps_console c (scroll_down top_row bottom_row lines charattr c)"
proof (cases "(top_row \<noteq> 0 \<or> unat bottom_row + 1 \<noteq> unat (cfg_y (config c))) \<and>
    \<not> unat top_row + unat lines < unat (cfg_max_y (config c))")
  case False
  then have guard: "top_row \<noteq> 0 \<or> unat bottom_row + 1 \<noteq> unat (cfg_y (config c)) \<Longrightarrow>
      unat top_row + unat lines < unat (cfg_max_y (config c))" by blast
  from scroll_down_rows [OF ok b lines guard, of charattr] show ?thesis
    unfolding keeps_console_def by blast
next
  case True
  note W = scroll_region_words [OF ok b lines]
  have "ucast top_row \<noteq> (0 :: ulong) \<or> ucast bottom_row + 1 \<noteq> cfg_y (config c)"
    using True W(1) by (metis unat_ucast_ushort unat_eq_zero)
  moreover have "cfg_max_y (config c) \<le> ucast top_row + ucast lines"
    using W(7) True by (simp add: word_le_nat_alt)
  ultimately have "scroll_down top_row bottom_row lines charattr c = Some (CO_RC_ERROR, c)"
    by (simp add: scroll_down_def Let_def)
  then show ?thesis using ok by (rule keepsI) simp
qed

lemma putcs_keeps:
  assumes ok: "console_ok c"
    and base: "base = 0 \<and> rows = cfg_max_y (config c) \<or> base = screen c \<and> rows = cfg_y (config c)"
    and data: "unat count \<le> length data"
  shows "keeps_console c (putcs base rows y x count data c)"
proof (cases "unat y < unat rows \<and> unat x < unat (cfg_x (config c))")
  case True
  moreover have "min (unat count) (unat (cfg_x (config c)) - unat x) \<le> length data"
    using data by simp
  ultimately show ?thesis
    using putcs_writes [OF ok base, of y x count data] unfolding keeps_console_def by blast
next
  case False
  moreover have "unat rows < 2 ^ 31" using base console_okD(8,9) [OF ok] by auto
  ultimately have "putcs base rows y x count data c = Some (CO_RC_ERROR, c)"
    by (intro putcs_refused) auto
  then show ?thesis using ok by (rule keepsI) simp
qed

lemma switch_keeps:
  assumes "console_ok c"
  shows "keeps_console c (switch_console c)"
proof (rule keepsI [OF switch_clears [OF assms]])
  have "screen c \<le> length (buffer c)"
    using console_okD(5,6) [OF assms] by simp
  then show "console_ok (c\<lparr>buffer := replicate (screen c) zero_cell @ drop (screen c) (buffer c)\<rparr>)"
    using assms by (intro console_ok_buffer) simp_all
qed simp

lemma clear_keeps:
  assumes "console_ok c" and "unat b < unat (cfg_y (config c))"
    and "unat l \<le> unat r" and "unat r < unat (cfg_x (config c))"
  shows "keeps_console c (clear t l b r a c)"
  using clear_region [OF assms] by (fastforce simp: keeps_console_def)

lemma bmove_keeps:
  assumes "console_ok c" and "unat t \<le> unat b" "unat b < unat (cfg_y (config c))"
    and "unat l \<le> unat r" "unat r < unat (cfg_x (config c))"
    and "unat y + (unat b - unat t) < unat (cfg_y (config c))"
    and "unat x + (unat r - unat l) < unat (cfg_x (config c))"
  shows "keeps_console c (bmove y x t l b r c)"
  using bmove_rows_move [OF assms] console_ok_buffer [OF assms(1)]
  by (fastforce simp: keeps_console_def)

lemma putc_keeps: "console_ok c \<Longrightarrow> keeps_console c (putc x y a c)"
  using putc_writes by (fastforce simp: keeps_console_def)

lemma console_op_keeps:
  assumes ok: "console_ok c" and m: "message_fits (config c) m"
  shows "\<exists>rc c' m'. co_console_op (Some c) m = Some (rc, Some c', m') \<and> console_ok c' \<and>
           config c' = config c"
proof -
  note keeps = scroll_up_keeps [OF ok] scroll_down_keeps [OF ok] putcs_keeps [OF ok] switch_keeps [OF ok]
    clear_keeps [OF ok] bmove_keeps [OF ok] putc_keeps [OF ok]
  have "console_ok (c\<lparr>cursor := p\<rparr>)" for p using ok by (simp add: console_ok_def)
  then show ?thesis
    using m ok keeps unfolding co_console_op_def keeps_console_def
    by (cases m) (simp, fastforce?)+
qed

lemma console_ops_keep:
  "console_ok c \<Longrightarrow> \<forall>m \<in> set ms. message_fits (config c) m \<Longrightarrow>
     \<exists>c'. console_ops c ms = Some c' \<and> console_ok c' \<and> config c' = config c"
proof (induction ms arbitrary: c)
  case Nil
  then show ?case by simp
next
  case (Cons m ms)
  then obtain rc c1 m' where "co_console_op (Some c) m = Some (rc, Some c1, m')" "console_ok c1"
    "config c1 = config c"
    using console_op_keeps [of c m] by auto
  then show ?case using Cons.IH [of c1] Cons.prems by simp
qed

section \<open>Properties\<close>


definition demo_config :: co_console_config where
  "demo_config = \<lparr>cfg_x = 4, cfg_y = 2, cfg_max_y = 4, curs_type_size = 2, cfg_attr = 7\<rparr>"

definition demo_console :: co_console where
  "demo_console = \<lparr>con_size = 72, config = demo_config, screen = 8,
     buffer = map (\<lambda>i. cell_of (word_of_nat i)) [0..<16],
     cursor = \<lparr>cur_x = 0, cur_y = 0, cur_height = 0\<rparr>\<rparr>"

lemma demo_console_ok: "console_ok demo_console"
  by (simp add: demo_console_def demo_config_def console_ok_def config_fits_def)


text \<open>
  Scrolling a region of the screen up: the rows below the first \<open>n\<close> of the region move up by
  \<open>n\<close> lines, the lines that become free at its bottom are filled with the given character, and
  nothing else changes: not the rest of the screen, not the scroll-back buffer, not the cursor.
\<close>

theorem console_scroll_up_region:
  assumes "console_ok c" and "t \<noteq> 0 \<or> unat b + 1 \<noteq> unat (cfg_y (config c))"
    and "unat b + 1 \<le> unat (cfg_y (config c))"
    and "unat t + unat n \<le> unat b + 1" and "unat t + unat n < unat (cfg_max_y (config c))"
  shows "\<exists>c'. co_console_op (Some c) (CONSOLE_SCROLL_UP t b n a)
              = Some (CO_RC_OK, Some c', CONSOLE_SCROLL_UP t b n a) \<and>
           console_ok c' \<and> cursor c' = cursor c \<and> (\<forall>i < screen c. buffer c' ! i = buffer c ! i) \<and>
           (\<forall>row < unat (cfg_y (config c)). \<forall>col < unat (cfg_x (config c)).
              cell_at c' row col =
                (if unat t \<le> row \<and> row + unat n < unat b + 1 then cell_at c (row + unat n) col
                 else if unat t \<le> row \<and> row < unat b + 1 then cell_of a
                 else cell_at c row col))"
proof -
  have "co_console_op (Some c) (CONSOLE_SCROLL_UP t b n a)
      = Some (CO_RC_OK, Some c', CONSOLE_SCROLL_UP t b n a)"
    if "scroll_up t b n a c = Some (CO_RC_OK, c')" for c'
    using that by (simp add: co_console_op_def)
  with scroll_up_region [OF assms, of a] show ?thesis by blast
qed

theorem console_scroll_up_region_witness:
  "\<exists>c'. co_console_op (Some demo_console) (CONSOLE_SCROLL_UP 1 1 1 32)
      = Some (CO_RC_OK, Some c', CONSOLE_SCROLL_UP 1 1 1 32) \<and>
     cell_at c' 0 3 = cell_at demo_console 0 3 \<and> cell_at c' 1 2 = cell_of 32"
  using console_scroll_up_region [OF demo_console_ok, of 1 1 1 32]
  by (force simp: demo_console_def demo_config_def)

text \<open>
  Scrolling down, for a region and for the whole screen: the rows of the region move down by
  \<open>n\<close> lines, the lines that become free at its top are filled with the given character,
  and neither the rest of the screen nor the scroll-back buffer nor the cursor changes.
\<close>

theorem console_scroll_down_rows:
  assumes "console_ok c" and "unat b + 1 \<le> unat (cfg_y (config c))"
    and "unat t + unat n \<le> unat b + 1" and "unat t + unat n < unat (cfg_max_y (config c))"
  shows "\<exists>c'. co_console_op (Some c) (CONSOLE_SCROLL_DOWN t b n a)
              = Some (CO_RC_OK, Some c', CONSOLE_SCROLL_DOWN t b n a) \<and>
           console_ok c' \<and> cursor c' = cursor c \<and> (\<forall>i < screen c. buffer c' ! i = buffer c ! i) \<and>
           (\<forall>row < unat (cfg_y (config c)). \<forall>col < unat (cfg_x (config c)).
              cell_at c' row col =
                (if unat t \<le> row \<and> row < unat t + unat n then cell_of a
                 else if unat t \<le> row \<and> row < unat b + 1 then cell_at c (row - unat n) col
                 else cell_at c row col))"
proof -
  have "co_console_op (Some c) (CONSOLE_SCROLL_DOWN t b n a)
      = Some (CO_RC_OK, Some c', CONSOLE_SCROLL_DOWN t b n a)"
    if "scroll_down t b n a c = Some (CO_RC_OK, c')" for c'
    using that by (simp add: co_console_op_def)
  with scroll_down_rows [OF assms(1-3) assms(4), of a] show ?thesis by blast
qed

theorem console_scroll_down_rows_witness:
  "\<exists>c'. co_console_op (Some demo_console) (CONSOLE_SCROLL_DOWN 0 1 1 32)
      = Some (CO_RC_OK, Some c', CONSOLE_SCROLL_DOWN 0 1 1 32) \<and>
     cell_at c' 0 0 = cell_of 32 \<and> cell_at c' 1 2 = cell_at demo_console 0 2"
  using console_scroll_down_rows [OF demo_console_ok, of 1 0 1 32]
  by (force simp: demo_console_def demo_config_def)

text \<open>
  Scrolling the whole screen up scrolls the whole buffer: the lines that leave the screen at
  its top become the newest lines of the scroll-back buffer, the oldest lines of that buffer are
  dropped, and blank lines appear at the bottom, for every number of lines up to the size
  of the buffer.
\<close>

theorem console_scroll_screen:
  assumes "console_ok c" and "unat b + 1 = unat (cfg_y (config c))"
    and "unat n \<le> unat (cfg_max_y (config c))"
  shows "co_console_op (Some c) (CONSOLE_SCROLL_UP 0 b n a) =
     Some (CO_RC_OK,
       Some (c\<lparr>buffer := drop (unat (cfg_x (config c)) * unat n) (buffer c) @
               replicate (unat (cfg_x (config c)) * unat n) (cell_of a)\<rparr>),
       CONSOLE_SCROLL_UP 0 b n a)"
  using scroll_up_screen [OF assms, of a] by (simp add: co_console_op_def)

theorem console_scroll_screen_witness:
  "co_console_op (Some demo_console) (CONSOLE_SCROLL_UP 0 1 3 32) =
     Some (CO_RC_OK,
       Some (demo_console\<lparr>buffer := drop (unat (cfg_x (config demo_console)) * unat (3 :: ushort))
                 (buffer demo_console) @
               replicate (unat (cfg_x (config demo_console)) * unat (3 :: ushort)) (cell_of 32)\<rparr>),
       CONSOLE_SCROLL_UP 0 1 3 32)"
  by (rule console_scroll_screen [OF demo_console_ok]) (simp_all add: demo_console_def demo_config_def)

text \<open>
  C34: Moving a block of the screen (\<open>BMOVE\<close>): the destination rectangle holds what the source
  rectangle held before, and every other cell of the screen and of the scroll-back buffer is
  unchanged, however the two rectangles overlap. The code gets this from the order in which it
  moves the rows: downwards when the block moves up, upwards when it moves down.
\<close>

theorem console_bmove_correct:
  assumes "console_ok c" and "message_fits (config c) (CONSOLE_BMOVE y x t l b r)"
  shows "\<exists>c'. co_console_op (Some c) (CONSOLE_BMOVE y x t l b r)
             = Some (CO_RC_OK, Some c', CONSOLE_BMOVE y x t l b r) \<and> console_ok c' \<and>
           (\<forall>i < screen c. buffer c' ! i = buffer c ! i) \<and>
           (\<forall>row < unat (cfg_y (config c)). \<forall>col < unat (cfg_x (config c)).
              cell_at c' row col =
                (if unat y \<le> row \<and> row < unat y + (unat b + 1 - unat t) \<and>
                    unat x \<le> col \<and> col < unat x + (unat r + 1 - unat l)
                 then cell_at c (row + unat t - unat y) (unat l + col - unat x)
                 else cell_at c row col))"
proof -
  obtain cells where "bmove y x t l b r c = Some (CO_RC_OK, c\<lparr>buffer := cells\<rparr>)"
    and "length cells = length (buffer c)"
    and "(\<forall>i < screen c. cells ! i = buffer c ! i) \<and>
         (\<forall>row < unat (cfg_y (config c)). \<forall>col < unat (cfg_x (config c)).
            cell_at (c\<lparr>buffer := cells\<rparr>) row col =
              (if unat y \<le> row \<and> row < unat y + (unat b + 1 - unat t) \<and>
                  unat x \<le> col \<and> col < unat x + (unat r + 1 - unat l)
               then cell_at c (row + unat t - unat y) (unat l + col - unat x)
               else cell_at c row col))"
    using bmove_rows_move [OF assms(1), of t b l r y x] assms(2)
    by (auto simp: cell_at_def)
  then show ?thesis
    using console_ok_buffer [OF assms(1)] by (auto simp: co_console_op_def)
qed

theorem console_bmove_correct_witness:
  "\<exists>c'. co_console_op (Some demo_console) (CONSOLE_BMOVE 1 1 0 0 0 2)
      = Some (CO_RC_OK, Some c', CONSOLE_BMOVE 1 1 0 0 0 2) \<and>
     cell_at c' 1 3 = cell_at demo_console 0 2 \<and> cell_at c' 1 0 = cell_at demo_console 1 0"
  using console_bmove_correct [OF demo_console_ok, of 1 1 0 0 0 2]
  by (force simp: demo_console_def demo_config_def)

text \<open>
  \<open>PUTCS\<close> puts as many of the cells of the message on the row as fit into it and changes
  nothing else, neither the cells after the end of the row nor the scroll-back buffer. A
  position outside the screen is refused with \<open>CO_RC_ERROR\<close> and leaves the console alone.
\<close>

theorem console_putcs_clips:
  assumes "console_ok c" and "unat count \<le> length data"
  shows "\<exists>c' rc. co_console_op (Some c) (CONSOLE_PUTCS y x count data)
             = Some (rc, Some c', CONSOLE_PUTCS y x count data) \<and> console_ok c' \<and>
           (if unat y < unat (cfg_y (config c)) \<and> unat x < unat (cfg_x (config c))
            then rc = CO_RC_OK \<and> (\<forall>i < length (buffer c). buffer c' ! i =
              (let start = screen c + unat (cfg_x (config c)) * unat y + unat x
               in if start \<le> i \<and> i < start + min (unat count) (unat (cfg_x (config c)) - unat x)
                  then cell_of (data ! (i - start)) else buffer c ! i))
            else rc = CO_RC_ERROR \<and> c' = c)"
proof (cases "unat y < unat (cfg_y (config c)) \<and> unat x < unat (cfg_x (config c))")
  case True
  have "min (unat count) (unat (cfg_x (config c)) - unat x) \<le> length data" using assms(2) by simp
  from putcs_writes [OF assms(1) disjI2 [OF conjI [OF refl refl]] conjunct1 [OF True] conjunct2 [OF True] this]
  obtain c' where "putcs (screen c) (cfg_y (config c)) y x count data c = Some (CO_RC_OK, c')"
    and rest: "console_ok c' \<and> (\<forall>i < length (buffer c). buffer c' ! i =
              (let start = screen c + unat (cfg_x (config c)) * unat y + unat x
               in if start \<le> i \<and> i < start + min (unat count) (unat (cfg_x (config c)) - unat x)
                  then cell_of (data ! (i - start)) else buffer c ! i))"
    by blast
  then have "co_console_op (Some c) (CONSOLE_PUTCS y x count data)
      = Some (CO_RC_OK, Some c', CONSOLE_PUTCS y x count data)"
    by (simp add: co_console_op_def)
  with rest True show ?thesis unfolding if_P [OF True] by blast
next
  case False
  have "putcs (screen c) (cfg_y (config c)) y x count data c = Some (CO_RC_ERROR, c)"
    using False console_okD(8) [OF assms(1)] by (intro putcs_refused) auto
  then show ?thesis using False assms(1) unfolding if_not_P [OF False] by (simp add: co_console_op_def)
qed

theorem console_putcs_clips_witness:
  "\<exists>c' rc. co_console_op (Some demo_console) (CONSOLE_PUTCS 1 2 3 [65, 66, 67])
      = Some (rc, Some c', CONSOLE_PUTCS 1 2 3 [65, 66, 67]) \<and> rc = CO_RC_OK \<and>
     buffer c' ! 15 = cell_of 66 \<and> buffer c' ! 13 = buffer demo_console ! 13"
  using console_putcs_clips [OF demo_console_ok, of 3 "[65, 66, 67]" 1 2]
  by (force simp: demo_console_def demo_config_def Let_def)

text \<open>
  \<open>CLEAR\<close> of a region on the screen fills exactly that region. The region is not checked:
  if it starts on the screen and ends below it, the loop writes past the end of the console
  object.
\<close>

theorem console_clear:
  assumes "console_ok c" and "unat l \<le> unat r" and "unat r < unat (cfg_x (config c))"
    and "unat t < unat (cfg_y (config c))"
  shows "if unat b < unat (cfg_y (config c))
         then \<exists>c'. co_console_op (Some c) (CONSOLE_CLEAR t l b r a)
             = Some (CO_RC_OK, Some c', CONSOLE_CLEAR t l b r a) \<and> console_ok c' \<and>
           (\<forall>i < screen c. buffer c' ! i = buffer c ! i) \<and>
           (\<forall>row < unat (cfg_y (config c)). \<forall>col < unat (cfg_x (config c)).
              cell_at c' row col =
                (if unat t \<le> row \<and> row \<le> unat b \<and> unat l \<le> col \<and> col \<le> unat r
                 then cell_of a else cell_at c row col))
         else co_console_op (Some c) (CONSOLE_CLEAR t l b r a) = None"
proof (cases "unat b < unat (cfg_y (config c))")
  case True
  have "co_console_op (Some c) (CONSOLE_CLEAR t l b r a)
      = Some (CO_RC_OK, Some c', CONSOLE_CLEAR t l b r a)"
    if "clear t l b r a c = Some (CO_RC_OK, c')" for c'
    using that by (simp add: co_console_op_def)
  with clear_region [OF assms(1) True assms(2,3), of t a] show ?thesis
    unfolding if_P [OF True] by blast
next
  case False
  then have "clear t l b r a c = None" using assms by (intro clear_outside) simp_all
  then show ?thesis using False by (simp add: co_console_op_def)
qed

theorem console_clear_witness:
  "co_console_op (Some demo_console) (CONSOLE_CLEAR 0 0 2 3 32) = None \<and>
   (\<exists>c'. co_console_op (Some demo_console) (CONSOLE_CLEAR 1 1 1 2 32)
       = Some (CO_RC_OK, Some c', CONSOLE_CLEAR 1 1 1 2 32) \<and> cell_at c' 1 2 = cell_of 32 \<and>
     cell_at c' 1 3 = cell_at demo_console 1 3)"
  using console_clear [OF demo_console_ok, of 0 3 0 2 32] console_clear [OF demo_console_ok, of 1 2 1 1 32]
  by (force simp: demo_console_def demo_config_def)

text \<open>
  The guard of a scrolled region compares its bottom with the height of the whole buffer
  (\<open>max_y\<close>), but the region is a part of the screen, which is the end of the buffer: a region
  whose bottom is below the screen passes the guard whenever it is within \<open>max_y\<close>, and
  scrolling it up writes past the end of the console object.
\<close>

theorem console_scroll_guard_gap:
  assumes "console_ok c" and "unat t + unat n < unat (cfg_max_y (config c))"
    and "unat (cfg_y (config c)) < unat b + 1" and "unat b + 1 \<le> unat (cfg_max_y (config c))"
    and "0 < unat n" and "unat n \<le> unat b + 1"
  shows "co_console_op (Some c) (CONSOLE_SCROLL_UP t b n a) = None"
  using scroll_up_outside [OF assms, of a] by (simp add: co_console_op_def)

theorem console_scroll_guard_gap_witness:
  "co_console_op (Some demo_console) (CONSOLE_SCROLL_UP 0 3 1 32) = None"
  by (rule console_scroll_guard_gap [OF demo_console_ok]) (simp_all add: demo_console_def demo_config_def)

text \<open>
  The width of the console is only bounded from below when the configuration is read, and
  the size of the object is computed in 32 bits. For a width of 4294968 and 500 rows the product
  wraps: the console is created with room for 352 cells, and putting a character on the
  first row of its screen is a write outside the object.
\<close>

theorem co_console_create_wraps:
  "\<exists>c. co_console_create True
         \<lparr>cfg_x = 4294968, cfg_y = 500, cfg_max_y = 500, curs_type_size = 2, cfg_attr = 7\<rparr>
       = Some (Inr c) \<and> length (buffer c) = 352 \<and>
     co_console_op (Some c) (CONSOLE_PUTC 352 0 65) = None"
  by (simp add: co_console_create_def Let_def sizeof_co_console_cell_def sizeof_co_console_def
      co_console_op_def putc_def store_at_def)

end
