(* ===== verification/Co_Block.thy ===== *)
theory Co_Block
  imports Ret_Code Co_Modules Co_Snprintf
begin

text \<open>
  The block devices of a virtual machine: the dispatch of Linux's requests with its count of
  openers (\<open>src/colinux/kernel/block.c\<close>, \<open>block.h\<close>) and the device backed by a host file
  (\<open>src/colinux/kernel/fileblock.c\<close>, \<open>fileblock.h\<close>).

  A device of a monitor is a \<open>co_block_dev_t\<close> that begins the structure of its kind, which is
  record extension here; its \<open>service\<close> function is an argument of the dispatch. The operations
  on the host's files are not part of these sources: they are the function pointers of the
  record \<open>file_block_operations\<close>, over a state \<open>'os\<close> of the host that they may change as they
  like, and which holds what they keep in \<open>sysdep\<close>.
\<close>

section \<open>Requests and devices\<close>

datatype co_block_request_type =
    CO_BLOCK_OPEN
  | CO_BLOCK_STAT
  | CO_BLOCK_READ
  | CO_BLOCK_WRITE
  | CO_BLOCK_CLOSE
  | CO_BLOCK_GET_ALIAS
  | CO_BLOCK_UNKNOWN ulong

text \<open>The members of the union are kept apart; \<open>GET_ALIAS\<close> uses only \<open>alias\<close>, the others do not.\<close>

record co_block_request =
  rq_type :: co_block_request_type
  rq_rc :: ulong
  rq_offset :: ulonglong
  rq_size :: ulonglong
  rq_disk_size :: ulonglong
  rq_address :: ulong
  rq_irq_request :: ulong
  rq_async :: ulong
  rq_alias :: string

definition CO_BLOCK_REQUEST_RETCODE_OK :: ulong where "CO_BLOCK_REQUEST_RETCODE_OK = 0"
definition CO_BLOCK_REQUEST_RETCODE_ERROR :: ulong where "CO_BLOCK_REQUEST_RETCODE_ERROR = - 1"

record co_block_dev_desc =
  enabled :: bool
  pathname :: string
  alias_used :: bool
  dev_alias :: string

record co_block_dev =
  dev_size :: ulonglong
  dev_conf :: "co_block_dev_desc option"
  use_count :: ulong
  dev_unit :: ulong

text \<open>What a service function does: code, the device, the request and the host afterwards.\<close>

type_synonym ('d, 'os) block_service =
  "'d \<Rightarrow> co_block_request \<Rightarrow> 'os \<Rightarrow> co_rc_value \<times> 'd \<times> co_block_request \<times> 'os"

type_synonym 'd block_devs = "'d option list"

section \<open>The dispatch\<close>

definition co_monitor_block_register_device ::
  "'d co_block_dev_scheme block_devs \<Rightarrow> nat \<Rightarrow> 'd co_block_dev_scheme \<Rightarrow> 'd co_block_dev_scheme block_devs" where
  "co_monitor_block_register_device devs index dev =
     devs[index := Some (dev\<lparr>dev_unit := word_of_nat index\<rparr>)]"

definition co_monitor_block_unregister_device ::
  "'d co_block_dev_scheme block_devs \<Rightarrow> nat \<Rightarrow> 'd co_block_dev_scheme block_devs" where
  "co_monitor_block_unregister_device devs index = devs[index := None]"

text \<open>The loop over the indices, with \<open>n\<close> of them left.\<close>

fun unregister_and_free_loop ::
  "('d co_block_dev_scheme \<Rightarrow> 'os \<Rightarrow> 'os) \<Rightarrow> nat \<Rightarrow> nat \<Rightarrow> 'd co_block_dev_scheme block_devs \<times> 'os \<Rightarrow>
     'd co_block_dev_scheme block_devs \<times> 'os" where
  "unregister_and_free_loop free i 0 s = s"
| "unregister_and_free_loop free i (Suc n) (devs, os) =
     (case devs ! i of
        None \<Rightarrow> unregister_and_free_loop free (Suc i) n (devs, os)
      | Some dev \<Rightarrow>
          unregister_and_free_loop free (Suc i) n
            (co_monitor_block_unregister_device devs i, free dev os))"

definition co_monitor_unregister_and_free_block_devices ::
  "('d co_block_dev_scheme \<Rightarrow> 'os \<Rightarrow> 'os) \<Rightarrow> 'd co_block_dev_scheme block_devs \<times> 'os \<Rightarrow>
     'd co_block_dev_scheme block_devs \<times> 'os" where
  "co_monitor_unregister_and_free_block_devices free s =
     unregister_and_free_loop free 0 (unat CO_MODULE_MAX_COBD) s"

definition co_monitor_block_dev_from_index ::
  "'d co_block_dev_scheme block_devs \<Rightarrow> ulong \<Rightarrow> 'd co_block_dev_scheme option" where
  "co_monitor_block_dev_from_index devs index =
     (if CO_MODULE_MAX_COBD \<le> index then None else devs ! unat index)"

text \<open>\<open>co_snprintf\<close> with \<open>%s\<close> of a character array, and the text that is in the destination
  afterwards.\<close>

definition snprintf_s :: "nat \<Rightarrow> string \<Rightarrow> string" where
  "snprintf_s n s =
     (case co_snprintf (replicate n (CHR 0x00)) (int n) ''%s''
             [Va_str (Some (takeWhile (\<lambda>c. c \<noteq> CHR 0x00) s))] of
        Inl _ \<Rightarrow> []
      | Inr (r, out, st) \<Rightarrow> takeWhile (\<lambda>c. c \<noteq> CHR 0x00) out)"

definition intern_monitor_block_request ::
  "('d co_block_dev_scheme, 'os) block_service \<Rightarrow> 'd co_block_dev_scheme block_devs \<Rightarrow> ulong \<Rightarrow>
     co_block_request \<Rightarrow> 'os \<Rightarrow>
     co_rc_value \<times> 'd co_block_dev_scheme block_devs \<times> co_block_request \<times> 'os" where
  "intern_monitor_block_request service devs index request os =
     (case co_monitor_block_dev_from_index devs index of
        None \<Rightarrow> (CO_RC_ERROR, devs, request, os)
      | Some dev \<Rightarrow>
          if rq_type request = CO_BLOCK_OPEN \<and> 1 \<le> use_count dev then
            (CO_RC_OK, devs[unat index := Some (dev\<lparr>use_count := use_count dev + 1\<rparr>)], request, os)
          else if rq_type request = CO_BLOCK_CLOSE \<and> use_count dev = 0 then
            (CO_RC_ERROR, devs, request, os)
          else if rq_type request = CO_BLOCK_CLOSE \<and> 1 < use_count dev then
            (CO_RC_OK, devs[unat index := Some (dev\<lparr>use_count := use_count dev - 1\<rparr>)], request, os)
          else if rq_type request = CO_BLOCK_GET_ALIAS then
            (case dev_conf dev of
               None \<Rightarrow> (CO_RC_ERROR, devs, request, os)
             | Some conf \<Rightarrow>
                 if \<not> enabled conf \<or> \<not> alias_used conf then (CO_RC_ERROR, devs, request, os)
                 else
                   let conf = conf\<lparr>dev_alias := (dev_alias conf)[19 := CHR 0x00]\<rparr>
                   in (CO_RC_OK, devs[unat index := Some (dev\<lparr>dev_conf := Some conf\<rparr>)],
                       request\<lparr>rq_alias := snprintf_s 20 (dev_alias conf)\<rparr>, os))
          else
            let (rc, dev, request, os) = service dev request os;
                dev = (case rq_type request of
                    CO_BLOCK_OPEN \<Rightarrow> if CO_OK rc then dev\<lparr>use_count := use_count dev + 1\<rparr> else dev
                  | CO_BLOCK_CLOSE \<Rightarrow> if CO_OK rc then dev\<lparr>use_count := use_count dev - 1\<rparr> else dev
                  | _ \<Rightarrow> dev)
            in (rc, devs[unat index := Some dev], request, os))"

definition co_monitor_block_request ::
  "('d co_block_dev_scheme, 'os) block_service \<Rightarrow> 'd co_block_dev_scheme block_devs \<Rightarrow> ulong \<Rightarrow>
     co_block_request \<Rightarrow> 'os \<Rightarrow> 'd co_block_dev_scheme block_devs \<times> co_block_request \<times> 'os" where
  "co_monitor_block_request service devs index request os =
     (let (rc, devs, request, os) = intern_monitor_block_request service devs index request os
      in (devs, request\<lparr>rq_rc := if CO_OK rc then CO_BLOCK_REQUEST_RETCODE_OK
                                 else CO_BLOCK_REQUEST_RETCODE_ERROR\<rparr>, os))"

section \<open>The device backed by a file\<close>

datatype co_monitor_file_block_state =
    CO_MONITOR_FILE_BLOCK_CLOSED
  | CO_MONITOR_FILE_BLOCK_OPENED

text \<open>The operations get the path name, which is what they know a file by; \<open>close\<close> returns a code
  that no caller looks at, and of the request the operations write only \<open>async\<close>.\<close>

record 'os file_block_operations =
  fop_get_size :: "string \<Rightarrow> ulonglong \<Rightarrow> 'os \<Rightarrow> co_rc_value \<times> ulonglong \<times> 'os"
  fop_open :: "string \<Rightarrow> 'os \<Rightarrow> co_rc_value \<times> 'os"
  fop_read :: "string \<Rightarrow> co_block_request \<Rightarrow> 'os \<Rightarrow> co_rc_value \<times> ulong \<times> 'os"
  fop_write :: "string \<Rightarrow> co_block_request \<Rightarrow> 'os \<Rightarrow> co_rc_value \<times> ulong \<times> 'os"
  fop_close :: "string \<Rightarrow> 'os \<Rightarrow> 'os"

record 'os file_block_dev = co_block_dev +
  fb_state :: co_monitor_file_block_state
  fb_pathname :: string
  fb_op :: "'os file_block_operations"

definition co_monitor_file_block_service :: "('os file_block_dev, 'os) block_service" where
  "co_monitor_file_block_service fdev request os =
     (case rq_type request of
        CO_BLOCK_OPEN \<Rightarrow>
          if fb_state fdev \<noteq> CO_MONITOR_FILE_BLOCK_CLOSED then (CO_RC_ERROR, fdev, request, os)
          else
            let (rc, os) = fop_open (fb_op fdev) (fb_pathname fdev) os
            in (rc, if CO_OK rc then fdev\<lparr>fb_state := CO_MONITOR_FILE_BLOCK_OPENED\<rparr> else fdev,
                request, os)
      | CO_BLOCK_READ \<Rightarrow>
          if fb_state fdev \<noteq> CO_MONITOR_FILE_BLOCK_OPENED then (CO_RC_ERROR, fdev, request, os)
          else
            let (rc, async, os) = fop_read (fb_op fdev) (fb_pathname fdev) request os
            in (rc, fdev, request\<lparr>rq_async := async\<rparr>, os)
      | CO_BLOCK_WRITE \<Rightarrow>
          if fb_state fdev \<noteq> CO_MONITOR_FILE_BLOCK_OPENED then (CO_RC_ERROR, fdev, request, os)
          else
            let (rc, async, os) = fop_write (fb_op fdev) (fb_pathname fdev) request os
            in (rc, fdev, request\<lparr>rq_async := async\<rparr>, os)
      | CO_BLOCK_CLOSE \<Rightarrow>
          if fb_state fdev \<noteq> CO_MONITOR_FILE_BLOCK_OPENED then (CO_RC_ERROR, fdev, request, os)
          else (CO_RC_OK, fdev\<lparr>fb_state := CO_MONITOR_FILE_BLOCK_CLOSED\<rparr>, request,
                fop_close (fb_op fdev) (fb_pathname fdev) os)
      | CO_BLOCK_STAT \<Rightarrow>
          if fb_state fdev \<noteq> CO_MONITOR_FILE_BLOCK_CLOSED then (CO_RC_ERROR, fdev, request, os)
          else
            let (rc, sz, os) = fop_get_size (fb_op fdev) (fb_pathname fdev) (dev_size fdev) os;
                fdev = fdev\<lparr>dev_size := sz\<rparr>
            in (rc, fdev, if CO_OK rc then request\<lparr>rq_disk_size := dev_size fdev\<rparr> else request, os)
      | _ \<Rightarrow> (CO_RC_ERROR, fdev, request, os))"

definition co_monitor_file_block_init ::
  "'os file_block_operations \<Rightarrow> 'os file_block_operations \<Rightarrow> bool \<Rightarrow> string \<Rightarrow> 'os file_block_dev" where
  "co_monitor_file_block_init async_operations default_operations cobd_async_enable path =
     \<lparr>dev_size = 0, dev_conf = None, use_count = 0, dev_unit = 0,
      fb_state = CO_MONITOR_FILE_BLOCK_CLOSED, fb_pathname = path,
      fb_op = if cobd_async_enable then async_operations else default_operations\<rparr>"

definition co_monitor_file_block_shutdown ::
  "'os file_block_dev \<Rightarrow> 'os \<Rightarrow> 'os file_block_dev \<times> 'os" where
  "co_monitor_file_block_shutdown dev os =
     (if fb_state dev = CO_MONITOR_FILE_BLOCK_OPENED
      then (dev\<lparr>fb_state := CO_MONITOR_FILE_BLOCK_CLOSED\<rparr>, fop_close (fb_op dev) (fb_pathname dev) os)
      else (dev, os))"

section \<open>The contract of a service\<close>

text \<open>A device is open exactly while it has openers; \<open>opens\<close> and \<open>closes\<close> count the requests
  that succeeded so far.\<close>

definition counted :: "('d co_block_dev_scheme \<Rightarrow> bool) \<Rightarrow> nat \<Rightarrow> nat \<Rightarrow> 'd co_block_dev_scheme \<Rightarrow> bool" where
  "counted is_open opens closes d \<longleftrightarrow> unat (use_count d) + closes = opens \<and> (is_open d \<longleftrightarrow> use_count d \<noteq> 0)"

text \<open>What the dispatch relies on: \<open>is_open\<close> says whether the device is open, and only
  successful opening and closing changes it; the count of openers is not the service's.\<close>

locale block_service =
  fixes service :: "('d co_block_dev_scheme, 'os) block_service"
    and is_open :: "'d co_block_dev_scheme \<Rightarrow> bool"
  assumes open_opens: "service d r os = (rc, d', r', os') \<Longrightarrow> rq_type r = CO_BLOCK_OPEN \<Longrightarrow>
        \<not> is_open d \<Longrightarrow> is_open d' \<longleftrightarrow> CO_OK rc"
    and close_closes: "service d r os = (rc, d', r', os') \<Longrightarrow> rq_type r = CO_BLOCK_CLOSE \<Longrightarrow>
        is_open d \<Longrightarrow> is_open d' \<longleftrightarrow> \<not> CO_OK rc"
    and others_keep: "service d r os = (rc, d', r', os') \<Longrightarrow> rq_type r \<noteq> CO_BLOCK_OPEN \<Longrightarrow>
        rq_type r \<noteq> CO_BLOCK_CLOSE \<Longrightarrow> is_open d' = is_open d"
    and keeps_count: "service d r os = (rc, d', r', os') \<Longrightarrow> use_count d' = use_count d"
    and keeps_type: "service d r os = (rc, d', r', os') \<Longrightarrow> rq_type r' = rq_type r"
    and count_only: "is_open (d\<lparr>use_count := n\<rparr>) = is_open d"
    and conf_only: "is_open (d\<lparr>dev_conf := conf\<rparr>) = is_open d"
begin

lemma step:
  assumes idx: "index < CO_MODULE_MAX_COBD" "unat index < length devs" and dev: "devs ! unat index = Some d"
    and inv: "counted is_open opens closes d" and room: "opens < 2 ^ 32 - 1"
    and run: "intern_monitor_block_request service devs index r os = (rc, devs', r', os')"
  shows "\<exists>d'. devs' = devs[unat index := Some d'] \<and>
    counted is_open (opens + (if rq_type r = CO_BLOCK_OPEN \<and> CO_OK rc then 1 else 0))
            (closes + (if rq_type r = CO_BLOCK_CLOSE \<and> CO_OK rc then 1 else 0)) d'"
proof -
  have found: "co_monitor_block_dev_from_index devs index = Some d"
    using idx(1) dev by (simp add: co_monitor_block_dev_from_index_def linorder_not_le [symmetric])
  have same: "devs[unat index := Some d] = devs" using dev by (metis list_update_id)
  have up: "unat (use_count d + 1) = unat (use_count d) + 1"
    using inv room unat_add_small [of "use_count d" 1] by (auto simp: counted_def)
  have down: "unat (use_count d - 1) = unat (use_count d) - 1" if "use_count d \<noteq> 0"
    using that by (simp add: unat_minus_one)
  have pos: "1 \<le> use_count d \<longleftrightarrow> use_count d \<noteq> 0"
    by (simp add: word_le_nat_alt unat_gt_0 Suc_le_eq)
  have many: "use_count d - 1 \<noteq> 0" if "1 < use_count d" using that by auto
  obtain src sd sr sos where serv: "service d r os = (src, sd, sr, sos)" by (cases "service d r os")
  note laws = open_opens [OF serv] close_closes [OF serv] others_keep [OF serv] keeps_count [OF serv]
    keeps_type [OF serv]
  have nz: "use_count d + 1 \<noteq> 0" using up by auto
  consider "rq_type r = CO_BLOCK_OPEN" | "rq_type r = CO_BLOCK_CLOSE" | "rq_type r = CO_BLOCK_GET_ALIAS"
    | (other) "rq_type r \<noteq> CO_BLOCK_OPEN" "rq_type r \<noteq> CO_BLOCK_CLOSE" "rq_type r \<noteq> CO_BLOCK_GET_ALIAS"
    by blast
  then show ?thesis
  proof cases
    case 1
    then show ?thesis
      using run inv serv laws found up nz pos
      by (cases "use_count d = 0")
        (auto simp: intern_monitor_block_request_def counted_def count_only CO_OK_def)
  next
    case 2
    consider "use_count d = 0" | "use_count d = 1" | (more) "1 < use_count d" "use_count d \<noteq> 0"
      using pos by (cases "use_count d = 0") (auto simp: order_le_less)
    then show ?thesis
    proof cases
      case 1
      then have "rc = CO_RC_ERROR" "devs' = devs"
        using 2 run found by (simp_all add: intern_monitor_block_request_def)
      then show ?thesis using inv 2 same by (intro exI [of _ d]) (simp add: CO_OK_def)
    next
      case one: 2
      then have "is_open d" using inv by (simp add: counted_def)
      then show ?thesis
        using 2 one run inv serv laws found
        by (auto simp: intern_monitor_block_request_def counted_def count_only CO_OK_def)
    next
      case more
      then have "rc = CO_RC_OK" "devs' = devs[unat index := Some (d\<lparr>use_count := use_count d - 1\<rparr>)]"
        using 2 run found by (auto simp: intern_monitor_block_request_def)
      moreover have "unat (use_count d - 1) + 1 = unat (use_count d)"
        using down more(2) by (simp add: unat_gt_0)
      ultimately show ?thesis
        using 2 inv many more by (auto simp: counted_def count_only CO_OK_def)
    qed
  next
    case 3
    have "devs' = devs \<or> (\<exists>conf. devs' = devs[unat index := Some (d\<lparr>dev_conf := Some conf\<rparr>)])"
      using 3 run found
      by (auto simp: intern_monitor_block_request_def Let_def split: if_splits option.splits)
    then show ?thesis
      using 3 inv same by (elim disjE exE) (auto simp: counted_def conf_only intro: exI [of _ d])
  next
    case other
    then show ?thesis
      using run inv serv laws found
      by (auto simp: intern_monitor_block_request_def counted_def Let_def split: co_block_request_type.splits if_splits)
  qed
qed
end

section \<open>Sequences of requests\<close>

fun block_requests ::
  "('d co_block_dev_scheme, 'os) block_service \<Rightarrow> 'd co_block_dev_scheme block_devs \<Rightarrow>
     (ulong \<times> co_block_request) list \<Rightarrow> 'os \<Rightarrow>
     co_rc_value list \<times> 'd co_block_dev_scheme block_devs \<times> 'os" where
  "block_requests service devs [] os = ([], devs, os)"
| "block_requests service devs ((index, r) # rs) os =
     (let (rc, devs, r', os) = intern_monitor_block_request service devs index r os;
          (rcs, devs, os) = block_requests service devs rs os
      in (rc # rcs, devs, os))"

text \<open>How many requests of a type a device answered with success.\<close>

definition succeeded ::
  "co_block_request_type \<Rightarrow> ulong \<Rightarrow> (ulong \<times> co_block_request) list \<Rightarrow> co_rc_value list \<Rightarrow> nat" where
  "succeeded ty index rs rcs =
     length (filter (\<lambda>((i, r), rc). i = index \<and> rq_type r = ty \<and> CO_OK rc) (zip rs rcs))"

lemma request_other:
  assumes "intern_monitor_block_request service devs j r os = (rc, devs', r', os')" and "j \<noteq> i"
  shows "devs' ! unat i = devs ! unat i \<and> length devs' = length devs"
proof -
  have "unat j \<noteq> unat i" using assms(2) by (simp add: word_unat_eq_iff)
  moreover have "devs' = devs \<or> (\<exists>d. devs' = devs[unat j := d])"
    using assms(1)
    by (auto simp: intern_monitor_block_request_def Let_def split: if_splits option.splits prod.splits)
  ultimately show ?thesis by auto
qed

lemma request_no_device:
  assumes "co_monitor_block_dev_from_index devs index = None"
  shows "intern_monitor_block_request service devs index r os = (CO_RC_ERROR, devs, r, os)"
  using assms by (simp add: intern_monitor_block_request_def)

context block_service begin

lemma requests_counted:
  assumes "index < CO_MODULE_MAX_COBD" and "unat index < length devs" and "devs ! unat index = Some d"
    and "counted is_open opens closes d" and "opens + length rs < 2 ^ 32"
    and "block_requests service devs rs os = (rcs, devs', os')"
  shows "\<exists>d'. devs' ! unat index = Some d' \<and>
    counted is_open (opens + succeeded CO_BLOCK_OPEN index rs rcs)
      (closes + succeeded CO_BLOCK_CLOSE index rs rcs) d'"
  using assms
proof (induction rs arbitrary: devs d os rcs opens closes)
  case Nil
  then show ?case by (simp add: succeeded_def)
next
  case (Cons x rs)
  obtain j r where x: "x = (j, r)" by fastforce
  obtain rc devs1 r1 os1 where first: "intern_monitor_block_request service devs j r os = (rc, devs1, r1, os1)"
    by (cases "intern_monitor_block_request service devs j r os")
  obtain rcs1 where rest: "block_requests service devs1 rs os1 = (rcs1, devs', os')" and rcs: "rcs = rc # rcs1"
    using Cons.prems(6) first x by (auto split: prod.splits)
  let ?o = "opens + (if j = index \<and> rq_type r = CO_BLOCK_OPEN \<and> CO_OK rc then 1 else 0)"
  let ?c = "closes + (if j = index \<and> rq_type r = CO_BLOCK_CLOSE \<and> CO_OK rc then 1 else 0)"
  have "\<exists>d1. devs1 ! unat index = Some d1 \<and> unat index < length devs1 \<and> counted is_open ?o ?c d1"
  proof (cases "j = index")
    case True
    have "opens < 2 ^ 32 - 1" using Cons.prems(5) by simp
    from step [OF Cons.prems(1-4) this] first True Cons.prems(2) show ?thesis by fastforce
  next
    case False
    then show ?thesis using request_other [OF first False] Cons.prems by simp
  qed
  then obtain d1 where d1: "devs1 ! unat index = Some d1" "unat index < length devs1"
    "counted is_open ?o ?c d1" by blast
  have "?o + length rs < 2 ^ 32" using Cons.prems(5) by simp
  from Cons.IH [OF Cons.prems(1) d1(2,1,3) this rest] show ?case
    by (auto simp: x rcs succeeded_def)
qed

end

section \<open>The file device meets the contract\<close>

definition file_open :: "'os file_block_dev \<Rightarrow> bool" where
  "file_open d \<longleftrightarrow> fb_state d = CO_MONITOR_FILE_BLOCK_OPENED"

interpretation fb: block_service co_monitor_file_block_service file_open
proof (unfold_locales, goal_cases)
  case (1 d r os rc d' r' os')
  then show ?case
    by (auto simp: co_monitor_file_block_service_def file_open_def split: if_splits prod.splits
        co_monitor_file_block_state.splits) (cases "fb_state d"; simp)+
next
  case (2 d r os rc d' r' os')
  then show ?case
    by (auto simp: co_monitor_file_block_service_def file_open_def CO_OK_def)
next
  case (3 d r os rc d' r' os')
  then show ?case
    by (auto simp: co_monitor_file_block_service_def file_open_def Let_def split: if_splits prod.splits
        co_block_request_type.splits)
next
  case (4 d r os rc d' r' os')
  then show ?case
    by (auto simp: co_monitor_file_block_service_def Let_def split: if_splits prod.splits
        co_block_request_type.splits)
next
  case (5 d r os rc d' r' os')
  then show ?case
    by (auto simp: co_monitor_file_block_service_def Let_def split: if_splits prod.splits
        co_block_request_type.splits)
qed (simp_all add: file_open_def)

text \<open>The host's files see only matched calls: an operation that is not possible in the state of the
  device does not reach them.\<close>

lemma file_closed_untouched:
  assumes "\<not> file_open d" and "rq_type r \<in> {CO_BLOCK_READ, CO_BLOCK_WRITE, CO_BLOCK_CLOSE}"
  shows "co_monitor_file_block_service d r os = (CO_RC_ERROR, d, r, os)"
  using assms by (auto simp: co_monitor_file_block_service_def file_open_def)

lemma file_opened_untouched:
  assumes "file_open d" and "rq_type r \<in> {CO_BLOCK_OPEN, CO_BLOCK_STAT}"
  shows "co_monitor_file_block_service d r os = (CO_RC_ERROR, d, r, os)"
  using assms by (auto simp: co_monitor_file_block_service_def file_open_def)

section \<open>Teardown\<close>

definition free_file_blockdevice ::
  "('os file_block_dev \<Rightarrow> 'os \<Rightarrow> 'os) \<Rightarrow> 'os file_block_dev \<Rightarrow> 'os \<Rightarrow> 'os" where
  "free_file_blockdevice monitor_free dev os =
     (let (dev, os) = co_monitor_file_block_shutdown dev os in monitor_free dev os)"

lemma unregister_loop:
  "i + n \<le> length devs \<Longrightarrow> unregister_and_free_loop free i n (devs, os) =
     (take i devs @ replicate n None @ drop (i + n) devs,
      fold free [d. Some d \<leftarrow> take n (drop i devs)] os)"
proof (induction free i n "(devs, os)" arbitrary: devs os rule: unregister_and_free_loop.induct)
  case (1 free i)
  then show ?case by simp
next
  case (2 free i n devs os)
  have i: "i < length devs" using "2.prems" by simp
  then have split: "take (Suc n) (drop i devs) = devs ! i # take n (drop (Suc i) devs)"
    by (simp flip: Cons_nth_drop_Suc)
  have shift: "take (Suc i) (devs[i := None]) = take i devs @ [None]"
    using i by (simp add: take_Suc_conv_app_nth)
  have keep: "drop (Suc (i + n)) (devs[i := None]) = drop (Suc (i + n)) devs"
    "drop (Suc i) (devs[i := None]) = drop (Suc i) devs" by simp_all
  show ?case
  proof (cases "devs ! i")
    case None
    then have "take (Suc i) devs = take i devs @ [None]"
      using i by (simp add: take_Suc_conv_app_nth)
    then show ?thesis using "2.hyps"(1) [OF None] "2.prems" None split by simp
  next
    case (Some d)
    have "unregister_and_free_loop free (Suc i) n (devs[i := None], free d os) =
      (take (Suc i) (devs[i := None]) @ replicate n None @ drop (Suc i + n) (devs[i := None]),
       fold free [d. Some d \<leftarrow> take n (drop (Suc i) (devs[i := None]))] (free d os))"
      using "2.hyps"(2) [OF Some] "2.prems" by (simp add: co_monitor_block_unregister_device_def)
    then show ?thesis using Some split shift keep by (simp add: co_monitor_block_unregister_device_def)
  qed
qed

section \<open>Properties\<close>

text \<open>
  C26: The count of openers of a device backed by a file is exact over every sequence of requests
  to any devices of the monitor: it is the number of successful opens less the number of
  successful closes of this device, it never falls below zero, and the host's file is open
  exactly while the count is positive. The bound on the number of requests is that of the 32-bit
  count, which the code does not check.
\<close>

theorem block_use_count_exact:
  fixes devs :: "'os file_block_dev block_devs"
  assumes "index < CO_MODULE_MAX_COBD" and "length devs = unat CO_MODULE_MAX_COBD"
    and "devs ! unat index = Some d" and "use_count d = 0" and "fb_state d = CO_MONITOR_FILE_BLOCK_CLOSED"
    and "length rs < 2 ^ 32"
    and "block_requests co_monitor_file_block_service devs rs os = (rcs, devs', os')"
  shows "\<exists>d'. devs' ! unat index = Some d' \<and>
    unat (use_count d') + succeeded CO_BLOCK_CLOSE index rs rcs = succeeded CO_BLOCK_OPEN index rs rcs \<and>
    (fb_state d' = CO_MONITOR_FILE_BLOCK_OPENED \<longleftrightarrow>
       succeeded CO_BLOCK_CLOSE index rs rcs < succeeded CO_BLOCK_OPEN index rs rcs)"
proof -
  have idx: "unat index < length devs" using assms(1,2) by (simp add: word_less_nat_alt)
  have "counted file_open 0 0 d" using assms(4,5) by (simp add: counted_def file_open_def)
  then obtain d' where "devs' ! unat index = Some d'"
    and c: "counted file_open (0 + succeeded CO_BLOCK_OPEN index rs rcs)
      (0 + succeeded CO_BLOCK_CLOSE index rs rcs) d'"
    using fb.requests_counted [OF assms(1) idx assms(3) _ _ assms(7)] assms(6) by fastforce
  moreover have "use_count d' \<noteq> 0 \<longleftrightarrow> 0 < unat (use_count d')" by (simp add: unat_gt_0)
  ultimately show ?thesis by (auto simp: counted_def file_open_def)
qed

definition demo_ops :: "nat file_block_operations" where
  "demo_ops = \<lparr>fop_get_size = (\<lambda>p s os. (CO_RC_OK, 4096, os)), fop_open = (\<lambda>p os. (CO_RC_OK, os + 1)),
     fop_read = (\<lambda>p r os. (CO_RC_OK, 0, os)), fop_write = (\<lambda>p r os. (CO_RC_OK, 0, os)),
     fop_close = (\<lambda>p os. os - 1)\<rparr>"

definition demo_devs :: "nat file_block_dev block_devs" where
  "demo_devs = co_monitor_block_register_device (replicate 32 None) 3
     (co_monitor_file_block_init demo_ops demo_ops False ''root_fs'')"

definition demo_request :: "co_block_request_type \<Rightarrow> co_block_request" where
  "demo_request ty = \<lparr>rq_type = ty, rq_rc = 0, rq_offset = 0, rq_size = 512, rq_disk_size = 0,
     rq_address = 0, rq_irq_request = 0, rq_async = 0, rq_alias = ''''\<rparr>"

theorem block_use_count_exact_witness:
  "\<exists>rcs devs' os' d'. block_requests co_monitor_file_block_service demo_devs
       [(3, demo_request CO_BLOCK_OPEN), (3, demo_request CO_BLOCK_OPEN), (3, demo_request CO_BLOCK_CLOSE)] 0
     = (rcs, devs', os') \<and> devs' ! 3 = Some d' \<and> unat (use_count d') = 1 \<and>
     fb_state d' = CO_MONITOR_FILE_BLOCK_OPENED"
proof -
  let ?rs = "[(3, demo_request CO_BLOCK_OPEN), (3, demo_request CO_BLOCK_OPEN), (3, demo_request CO_BLOCK_CLOSE)]"
  have dev: "demo_devs ! unat (3 :: ulong)
      = Some ((co_monitor_file_block_init demo_ops demo_ops False ''root_fs'')\<lparr>dev_unit := 3\<rparr>)"
    by (simp add: demo_devs_def co_monitor_block_register_device_def)
  obtain devs' os' where run: "block_requests co_monitor_file_block_service demo_devs ?rs 0
      = ([CO_RC_OK, CO_RC_OK, CO_RC_OK], devs', os')"
    using dev by (simp add: intern_monitor_block_request_def co_monitor_block_dev_from_index_def
        demo_request_def co_monitor_file_block_init_def co_monitor_file_block_service_def demo_ops_def
        CO_MODULE_MAX_COBD_def CO_OK_def demo_devs_def co_monitor_block_register_device_def)
  have "\<exists>d'. devs' ! unat (3 :: ulong) = Some d' \<and>
    unat (use_count d') + succeeded CO_BLOCK_CLOSE 3 ?rs [CO_RC_OK, CO_RC_OK, CO_RC_OK]
      = succeeded CO_BLOCK_OPEN 3 ?rs [CO_RC_OK, CO_RC_OK, CO_RC_OK] \<and>
    (fb_state d' = CO_MONITOR_FILE_BLOCK_OPENED \<longleftrightarrow>
       succeeded CO_BLOCK_CLOSE 3 ?rs [CO_RC_OK, CO_RC_OK, CO_RC_OK]
       < succeeded CO_BLOCK_OPEN 3 ?rs [CO_RC_OK, CO_RC_OK, CO_RC_OK])"
    by (rule block_use_count_exact [OF _ _ dev _ _ _ run])
      (simp_all add: CO_MODULE_MAX_COBD_def demo_devs_def co_monitor_block_register_device_def
        co_monitor_file_block_init_def)
  with run show ?thesis by (auto simp: succeeded_def demo_request_def CO_OK_def)
qed



text \<open>
  Tearing down a monitor's block devices frees every registered device exactly once, in the
  order of the units, leaves the table empty, and closes on the host exactly the files that
  are still open.
\<close>

theorem block_teardown:
  assumes "length devs = unat CO_MODULE_MAX_COBD"
  shows "co_monitor_unregister_and_free_block_devices (free_file_blockdevice monitor_free) (devs, os) =
     (replicate (unat CO_MODULE_MAX_COBD) None,
      fold (\<lambda>d os. monitor_free (d\<lparr>fb_state := CO_MONITOR_FILE_BLOCK_CLOSED\<rparr>)
              (if fb_state d = CO_MONITOR_FILE_BLOCK_OPENED then fop_close (fb_op d) (fb_pathname d) os else os))
        [d. Some d \<leftarrow> devs] os)"
proof -
  have "free_file_blockdevice monitor_free d os =
      monitor_free (d\<lparr>fb_state := CO_MONITOR_FILE_BLOCK_CLOSED\<rparr>)
        (if fb_state d = CO_MONITOR_FILE_BLOCK_OPENED then fop_close (fb_op d) (fb_pathname d) os else os)"
    for d os
    by (cases d; cases "fb_state d") (simp_all add: free_file_blockdevice_def co_monitor_file_block_shutdown_def)
  then have "free_file_blockdevice monitor_free = (\<lambda>d os. monitor_free (d\<lparr>fb_state := CO_MONITOR_FILE_BLOCK_CLOSED\<rparr>)
        (if fb_state d = CO_MONITOR_FILE_BLOCK_OPENED then fop_close (fb_op d) (fb_pathname d) os else os))"
    by blast
  then show ?thesis
    using assms by (simp add: co_monitor_unregister_and_free_block_devices_def unregister_loop)
qed

theorem block_teardown_witness:
  "co_monitor_unregister_and_free_block_devices (free_file_blockdevice (\<lambda>d os. os)) (demo_devs, 0) =
     (replicate (unat CO_MODULE_MAX_COBD) None,
      fold (\<lambda>d os. (\<lambda>d os. os) (d\<lparr>fb_state := CO_MONITOR_FILE_BLOCK_CLOSED\<rparr>)
              (if fb_state d = CO_MONITOR_FILE_BLOCK_OPENED then fop_close (fb_op d) (fb_pathname d) os else os))
        [d. Some d \<leftarrow> demo_devs] 0)"
  by (rule block_teardown)
    (simp add: demo_devs_def co_monitor_block_register_device_def CO_MODULE_MAX_COBD_def)

end
