(* ===== verification/Co_Pci.thy ===== *)
theory Co_Pci
  imports Ret_Code Co_Modules
begin

text \<open>
  The virtual PCI bus of a monitor (\<open>src/colinux/kernel/pci.c\<close>): 32 slots with 8 functions, filled
  from the user's settings and then by automatic configuration, and handed to Linux on request.
  A function whose type is 0 is free. The device numbers are those of \<open>linux/cooperative.h\<close>
  (\<open>patch/base-2.6.33.diff\<close>), the dimensions those of \<open>linux/copci.h\<close> (\<open>patch/pci-core.diff\<close>).
\<close>

section \<open>Data\<close>

definition COPCI_MAX_SLOTS :: nat where "COPCI_MAX_SLOTS = 32"
definition COPCI_MAX_FUNCS :: nat where "COPCI_MAX_FUNCS = 8"

definition CO_DEVICE_NETWORK :: uchar where "CO_DEVICE_NETWORK = 3"
definition CO_DEVICE_SCSI :: uchar where "CO_DEVICE_SCSI = 9"
definition CO_DEVICE_VIDEO :: uchar where "CO_DEVICE_VIDEO = 10"
definition CO_DEVICE_AUDIO :: uchar where "CO_DEVICE_AUDIO = 11"

lemmas co_device_defs = CO_DEVICE_NETWORK_def CO_DEVICE_SCSI_def CO_DEVICE_VIDEO_def
  CO_DEVICE_AUDIO_def COPCI_MAX_SLOTS_def COPCI_MAX_FUNCS_def

record pci_func =
  pci_type :: uchar
  pci_unit :: uchar

type_synonym pci_space = "pci_func list list"

definition free_func :: pci_func where
  "free_func = \<lparr>pci_type = 0, pci_unit = 0\<rparr>"

definition pci_empty :: pci_space where
  "pci_empty = replicate COPCI_MAX_SLOTS (replicate COPCI_MAX_FUNCS free_func)"

section \<open>Operations\<close>

definition pci_space_find :: "pci_space \<Rightarrow> uchar \<Rightarrow> uchar \<Rightarrow> bool" where
  "pci_space_find pci ty un =
     list_ex (\<lambda>slot. list_ex (\<lambda>f. pci_type f = ty \<and> pci_unit f = un) slot) pci"

text \<open>The loop over the slots from \<open>x\<close> on; it ends at the first slot that is free or has the type.\<close>

fun pci_space_add_loop :: "pci_space \<Rightarrow> nat \<Rightarrow> uchar \<Rightarrow> uchar \<Rightarrow> nat \<Rightarrow> nat \<Rightarrow> pci_space" where
  "pci_space_add_loop pci func ty un x 0 = pci"
| "pci_space_add_loop pci func ty un x (Suc n) =
     (if pci_type (pci ! x ! 0) = 0 \<or> pci_type (pci ! x ! 0) = ty then
        (if \<not> pci_space_find pci ty un then
           let func = (if func \<noteq> 0 \<and> pci_type (pci ! x ! 0) = 0 then 0 else func)
           in pci[x := (pci ! x)[func := \<lparr>pci_type = ty, pci_unit = un\<rparr>]]
         else pci)
      else pci_space_add_loop pci func ty un (Suc x) n)"

definition pci_space_add :: "pci_space \<Rightarrow> nat \<Rightarrow> uchar \<Rightarrow> uchar \<Rightarrow> pci_space" where
  "pci_space_add pci func ty un = pci_space_add_loop pci func ty un 0 COPCI_MAX_SLOTS"

text \<open>The fixup of one slot: \<open>y\<close> runs over the functions, \<open>z\<close> is where the next one would move.\<close>

fun fixup_slot :: "pci_func list \<Rightarrow> nat \<Rightarrow> nat \<Rightarrow> nat \<Rightarrow> pci_func list" where
  "fixup_slot slot y z 0 = slot"
| "fixup_slot slot y z (Suc n) =
     (if pci_type (slot ! y) = 0 then fixup_slot slot (Suc y) z n
      else if y \<noteq> 0 \<and> pci_type (slot ! z) = 0
        then fixup_slot ((slot[z := slot ! y])[y := free_func]) (Suc y) (Suc z) n
        else fixup_slot slot (Suc y) z n)"

text \<open>Adapters that are present, in the order of their units.\<close>

fun add_adapters :: "uchar \<Rightarrow> pci_space \<Rightarrow> nat \<Rightarrow> bool list \<Rightarrow> pci_space" where
  "add_adapters ty pci x [] = pci"
| "add_adapters ty pci x (present # ps) =
     add_adapters ty (if present then pci_space_add pci 0 ty (word_of_nat x) else pci) (Suc x) ps"

text \<open>The network interfaces: the function number \<open>y\<close> goes up by one and around after the last.\<close>

fun add_networks :: "pci_space \<Rightarrow> nat \<Rightarrow> nat \<Rightarrow> bool list \<Rightarrow> pci_space" where
  "add_networks pci y x [] = pci"
| "add_networks pci y x (enabled # es) =
     (if \<not> enabled then add_networks pci y (Suc x) es
      else add_networks (pci_space_add pci y CO_DEVICE_NETWORK (word_of_nat x))
             (if 7 < Suc y then 0 else Suc y) (Suc x) es)"

text \<open>The lists say which video, audio, SCSI and network units are there; in a build without
  \<open>CONFIG_COOPERATIVE_VIDEO\<close> or \<open>CONFIG_COOPERATIVE_AUDIO\<close> the first two are empty.\<close>

definition co_pci_setconfig ::
  "pci_space \<Rightarrow> bool list \<Rightarrow> bool list \<Rightarrow> bool list \<Rightarrow> bool list \<Rightarrow> pci_space" where
  "co_pci_setconfig pci video_devs audio_devs scsi_devs net_devs =
     (let pci = map (\<lambda>slot. fixup_slot slot 0 0 8) pci;
          pci = add_adapters CO_DEVICE_VIDEO pci 0 video_devs;
          pci = add_adapters CO_DEVICE_AUDIO pci 0 audio_devs;
          pci = (if list_ex id scsi_devs then pci_space_add pci 0 CO_DEVICE_SCSI 0 else pci)
      in add_networks pci 0 0 net_devs)"

record copci_config =
  cp_dev :: uchar
  cp_func :: uchar
  cp_type :: uchar
  cp_unit :: uchar

definition COPCI_GET_CONFIG :: nat where "COPCI_GET_CONFIG = 0"

text \<open>What is written to the passage page: \<open>params[0]\<close>, and the entries from \<open>params[1]\<close> on.\<close>

definition slot_config :: "nat \<Rightarrow> pci_func list \<Rightarrow> copci_config list" where
  "slot_config x slot = concat (map (\<lambda>(y, f).
     if pci_type f \<noteq> 0
     then [\<lparr>cp_dev = word_of_nat x, cp_func = word_of_nat y, cp_type = pci_type f, cp_unit = pci_unit f\<rparr>]
     else []) (enumerate 0 slot))"

definition co_pci_request :: "pci_space \<Rightarrow> nat \<Rightarrow> ulong \<times> copci_config list" where
  "co_pci_request pci op =
     (if op = COPCI_GET_CONFIG
      then let cps = concat (map (\<lambda>(x, slot). slot_config x slot) (enumerate 0 pci))
           in (word_of_nat (length cps), cps)
      else (1, []))"

section \<open>The user's settings\<close>

text \<open>When function 0 of a slot is free the functions in use move to the front in their order;
  otherwise the slot stays as it is.\<close>

lemma fixup_slot_keep:
  "pci_type (slot ! z) \<noteq> 0 \<Longrightarrow> fixup_slot slot y z n = slot"
  by (induction slot y z n rule: fixup_slot.induct) auto

lemma fixup_slot_compact:
  assumes "0 < k" and "\<forall>f \<in> set rest. pci_type f = 0 \<longrightarrow> f = free_func"
  shows "fixup_slot (used @ replicate k free_func @ rest) (length used + k) (length used) (length rest) =
    used @ filter (\<lambda>f. pci_type f \<noteq> 0) rest @
      replicate (k + length (filter (\<lambda>f. pci_type f = 0) rest)) free_func"
  using assms
proof (induction rest arbitrary: used k)
  case Nil
  then show ?case by simp
next
  case (Cons f rest)
  let ?slot = "used @ replicate k free_func @ f # rest"
  have at_y: "?slot ! (length used + k) = f" by (simp add: nth_append)
  have at_z: "?slot ! length used = free_func" using Cons.prems(1) by (simp add: nth_append)
  show ?case
  proof (cases "pci_type f = 0")
    case True
    then have f: "f = free_func" using Cons.prems(2) by simp
    have "fixup_slot ?slot (length used + k) (length used) (length (f # rest))
        = fixup_slot (used @ replicate (Suc k) free_func @ rest) (length used + Suc k) (length used) (length rest)"
      using at_y True f by (simp add: replicate_app_Cons_same)
    also have "\<dots> = used @ filter (\<lambda>f. pci_type f \<noteq> 0) rest @
        replicate (Suc k + length (filter (\<lambda>f. pci_type f = 0) rest)) free_func"
      using Cons.prems(2) by (intro Cons.IH) simp_all
    finally show ?thesis using True by simp
  next
    case False
    obtain m where k: "k = Suc m" using Cons.prems(1) by (cases k) auto
    have "(?slot[length used := f])[length used + k := free_func] = (used @ [f]) @ replicate k free_func @ rest"
      by (simp add: k list_update_append replicate_app_Cons_same)
    then have "fixup_slot ?slot (length used + k) (length used) (length (f # rest))
        = fixup_slot ((used @ [f]) @ replicate k free_func @ rest) (length (used @ [f]) + k)
            (length (used @ [f])) (length rest)"
      using at_y at_z False Cons.prems(1) by (simp add: free_func_def)
    also have "\<dots> = (used @ [f]) @ filter (\<lambda>f. pci_type f \<noteq> 0) rest @
        replicate (k + length (filter (\<lambda>f. pci_type f = 0) rest)) free_func"
      using Cons.prems by (intro Cons.IH) simp_all
    finally show ?thesis using False by simp
  qed
qed

lemma fixup_slot_correct:
  assumes "length slot = 8" and "\<forall>f \<in> set slot. pci_type f = 0 \<longrightarrow> f = free_func"
  shows "fixup_slot slot 0 0 8 =
    (if pci_type (hd slot) \<noteq> 0 then slot
     else filter (\<lambda>f. pci_type f \<noteq> 0) slot @ replicate (length (filter (\<lambda>f. pci_type f = 0) slot)) free_func)"
proof (cases slot)
  case Nil
  then show ?thesis using assms(1) by simp
next
  case (Cons f rest)
  show ?thesis
  proof (cases "pci_type f = 0")
    case True
    have len: "8 = Suc (length rest)" using assms(1) Cons by simp
    have "f = free_func" using True assms(2) Cons by simp
    then have "fixup_slot slot 0 0 8 = fixup_slot ([] @ replicate 1 free_func @ rest) (length ([] :: pci_func list) + 1)
        (length ([] :: pci_func list)) (length rest)"
      unfolding len using Cons True by simp
    also have "\<dots> = [] @ filter (\<lambda>f. pci_type f \<noteq> 0) rest @
        replicate (1 + length (filter (\<lambda>f. pci_type f = 0) rest)) free_func"
      by (rule fixup_slot_compact) (use assms(2) Cons in auto)
    finally show ?thesis using True Cons by simp
  next
    case False
    then show ?thesis using Cons by (simp add: fixup_slot_keep)
  qed
qed

section \<open>Automatic configuration\<close>

text \<open>The slot of the network interfaces once the units \<open>us\<close> are in it.\<close>

definition net_slot :: "uchar list \<Rightarrow> pci_func list" where
  "net_slot us = map (\<lambda>u. \<lparr>pci_type = CO_DEVICE_NETWORK, pci_unit = u\<rparr>) us @
     replicate (8 - length us) free_func"

lemma pci_space_add_skip:
  assumes "\<forall>slot \<in> set pre. pci_type (hd slot) \<noteq> 0 \<and> pci_type (hd slot) \<noteq> ty"
    and "\<forall>slot \<in> set pre. slot \<noteq> []" and "length done = x"
  shows "pci_space_add_loop (done @ pre @ post) func ty un x (length pre + n) =
         pci_space_add_loop (done @ pre @ post) func ty un (x + length pre) n"
  using assms
proof (induction pre arbitrary: x "done")
  case Nil
  then show ?case by simp
next
  case (Cons slot pre)
  from Cons.IH [of "done @ [slot]" "Suc x"] Cons.prems show ?case
    by (simp add: nth_append hd_conv_nth)
qed

lemma net_slot_add:
  assumes "length us < 8"
  shows "(net_slot us)[length us := \<lparr>pci_type = CO_DEVICE_NETWORK, pci_unit = u\<rparr>] = net_slot (us @ [u])"
proof -
  obtain m where m: "8 - length us = Suc m" "8 - length (us @ [u]) = m"
    using assms by (cases "8 - length us") auto
  show ?thesis by (simp add: net_slot_def m [simplified] list_update_append)
qed

lemma pci_space_add_net:
  assumes pre: "\<forall>slot \<in> set pre. slot \<noteq> [] \<and> pci_type (hd slot) \<noteq> 0 \<and> pci_type (hd slot) \<noteq> CO_DEVICE_NETWORK"
    and none: "\<not> pci_space_find (pre @ post) CO_DEVICE_NETWORK u"
    and us: "length us < 8" "u \<notin> set us" and len: "length pre + Suc (length post) = COPCI_MAX_SLOTS"
  shows "pci_space_add (pre @ net_slot us # post) (length us) CO_DEVICE_NETWORK u =
         pre @ net_slot (us @ [u]) # post"
proof -
  have hd: "pci_type (net_slot us ! 0) = (if us = [] then 0 else CO_DEVICE_NETWORK)"
    by (cases us) (auto simp: net_slot_def free_func_def)
  have nf: "\<not> pci_space_find (pre @ net_slot us # post) CO_DEVICE_NETWORK u"
    using none us(2) by (auto simp: pci_space_find_def net_slot_def free_func_def list_ex_iff co_device_defs)
  have "pci_space_add (pre @ net_slot us # post) (length us) CO_DEVICE_NETWORK u
      = pci_space_add_loop ([] @ pre @ net_slot us # post) (length us) CO_DEVICE_NETWORK u (0 + length pre)
          (Suc (length post))"
    unfolding pci_space_add_def len [symmetric]
    using pci_space_add_skip [of pre CO_DEVICE_NETWORK "[]" 0 "net_slot us # post" "length us" u "Suc (length post)"] pre
    by simp
  also have "\<dots> = pre @ net_slot (us @ [u]) # post"
    using hd nf net_slot_add [OF us(1), of u]
    by (auto simp: list_update_append CO_DEVICE_NETWORK_def split: if_splits)
  finally show ?thesis .
qed

text \<open>The enabled units, in order.\<close>

fun enabled_units :: "nat \<Rightarrow> bool list \<Rightarrow> uchar list" where
  "enabled_units x [] = []"
| "enabled_units x (e # es) = (if e then [word_of_nat x] else []) @ enabled_units (Suc x) es"

lemma enabled_units_new:
  "x + length es \<le> 256 \<Longrightarrow> y < x \<Longrightarrow> word_of_nat y \<notin> set (enabled_units x es)"
proof (induction es arbitrary: x)
  case Nil
  then show ?case by simp
next
  case (Cons e es)
  have "(word_of_nat y :: uchar) \<noteq> word_of_nat x"
    using Cons.prems by (simp add: word_of_nat_eq_iff take_bit_nat_eq_self)
  then show ?case using Cons.IH [of "Suc x"] Cons.prems by simp
qed

lemma add_networks_slot:
  assumes "\<forall>slot \<in> set pre. slot \<noteq> [] \<and> pci_type (hd slot) \<noteq> 0 \<and> pci_type (hd slot) \<noteq> CO_DEVICE_NETWORK"
    and "\<forall>u. \<not> pci_space_find (pre @ post) CO_DEVICE_NETWORK u"
    and "length pre + Suc (length post) = COPCI_MAX_SLOTS"
    and "x + length es \<le> 256" and "length us + length (enabled_units x es) \<le> 8"
    and "\<forall>u \<in> set us. \<exists>y < x. u = word_of_nat y"
  shows "add_networks (pre @ net_slot us # post) (if length us = 8 then 0 else length us) x es =
         pre @ net_slot (us @ enabled_units x es) # post"
  using assms
proof (induction es arbitrary: x us)
  case Nil
  then show ?case by simp
next
  case (Cons e es)
  show ?case
  proof (cases e)
    case False
    have "\<forall>u \<in> set us. \<exists>y < Suc x. u = word_of_nat y"
      using Cons.prems(6) less_SucI by blast
    then show ?thesis using Cons.IH [of "Suc x" us] Cons.prems False by simp
  next
    case True
    have room: "length us < 8" using Cons.prems(5) True by simp
    have "(word_of_nat x :: uchar) \<notin> set us"
    proof
      assume "(word_of_nat x :: uchar) \<in> set us"
      then obtain y where "y < x" "(word_of_nat x :: uchar) = word_of_nat y" using Cons.prems(6) by blast
      then show False using Cons.prems(4) by (simp add: word_of_nat_eq_iff take_bit_nat_eq_self)
    qed
    from pci_space_add_net [OF Cons.prems(1) _ room this Cons.prems(3)] Cons.prems(2)
    have add: "pci_space_add (pre @ net_slot us # post) (length us) CO_DEVICE_NETWORK (word_of_nat x) =
        pre @ net_slot (us @ [word_of_nat x]) # post" by blast
    have "\<forall>u \<in> set (us @ [word_of_nat x]). \<exists>y < Suc x. u = word_of_nat y"
      using Cons.prems(6) by (auto intro: less_SucI)
    then have "add_networks (pre @ net_slot (us @ [word_of_nat x]) # post)
        (if length (us @ [word_of_nat x]) = 8 then 0 else length (us @ [word_of_nat x])) (Suc x) es =
      pre @ net_slot ((us @ [word_of_nat x]) @ enabled_units (Suc x) es) # post"
      using Cons.IH [of "Suc x" "us @ [word_of_nat x]"] Cons.prems True by simp
    moreover have "(if 7 < Suc (length us) then 0 else Suc (length us))
        = (if length (us @ [word_of_nat x :: uchar]) = 8 then 0 else length (us @ [word_of_nat x :: uchar]))"
      using room by auto
    ultimately show ?thesis using True add room by simp
  qed
qed

lemma slot_config_free:
  "concat (map (\<lambda>(y, f). if pci_type f \<noteq> 0
      then [\<lparr>cp_dev = d, cp_func = word_of_nat y, cp_type = pci_type f, cp_unit = pci_unit f\<rparr>] else [])
    (enumerate y (replicate n free_func))) = []"
  by (induction n arbitrary: y) (simp_all add: free_func_def)

lemma slot_config_nets:
  "concat (map (\<lambda>(y, f). if pci_type f \<noteq> 0
      then [\<lparr>cp_dev = d, cp_func = word_of_nat y, cp_type = pci_type f, cp_unit = pci_unit f\<rparr>] else [])
    (enumerate y (map (\<lambda>u. \<lparr>pci_type = CO_DEVICE_NETWORK, pci_unit = u\<rparr>) us @ replicate n free_func))) =
   map (\<lambda>(y, u). \<lparr>cp_dev = d, cp_func = word_of_nat y, cp_type = CO_DEVICE_NETWORK, cp_unit = u\<rparr>) (enumerate y us)"
  by (induction us arbitrary: y) (simp_all add: slot_config_free CO_DEVICE_NETWORK_def)

lemma slot_config_net_slot:
  "slot_config x (net_slot us) =
     map (\<lambda>(y, u). \<lparr>cp_dev = word_of_nat x, cp_func = word_of_nat y, cp_type = CO_DEVICE_NETWORK, cp_unit = u\<rparr>)
       (enumerate 0 us)"
  unfolding slot_config_def net_slot_def by (rule slot_config_nets)

lemma config_of_free_slots:
  "concat (map (\<lambda>(x, slot). slot_config x slot) (enumerate x (replicate n (replicate m free_func)))) = []"
  by (induction n arbitrary: x) (simp_all add: slot_config_def slot_config_free)

lemma length_enabled_units: "length (enabled_units x es) = length (filter id es)"
  by (induction es arbitrary: x) simp_all

section \<open>Properties\<close>

text \<open>
  The fixup of the user's settings gives every slot in use a function 0, which a PCI device
  must have, without losing or reordering anything: a slot whose function 0 is in use stays as it
  is, and in any other slot the functions in use move to the front, in their order.
\<close>

theorem pci_fixup_correct:
  assumes "\<forall>slot \<in> set pci. length slot = 8 \<and> (\<forall>f \<in> set slot. pci_type f = 0 \<longrightarrow> f = free_func)"
  shows "co_pci_setconfig pci [] [] [] [] =
     map (\<lambda>slot. if pci_type (hd slot) \<noteq> 0 then slot
        else filter (\<lambda>f. pci_type f \<noteq> 0) slot @
          replicate (length (filter (\<lambda>f. pci_type f = 0) slot)) free_func) pci"
  using assms fixup_slot_correct by (simp add: co_pci_setconfig_def)

theorem pci_fixup_correct_witness:
  "co_pci_setconfig [[free_func, free_func, \<lparr>pci_type = 3, pci_unit = 5\<rparr>, free_func,
       \<lparr>pci_type = 9, pci_unit = 0\<rparr>, free_func, free_func, free_func]] [] [] [] [] =
     [[\<lparr>pci_type = 3, pci_unit = 5\<rparr>, \<lparr>pci_type = 9, pci_unit = 0\<rparr>, free_func, free_func, free_func,
       free_func, free_func, free_func]]"
  using pci_fixup_correct [of "[[free_func, free_func, \<lparr>pci_type = 3, pci_unit = 5\<rparr>, free_func,
      \<lparr>pci_type = 9, pci_unit = 0\<rparr>, free_func, free_func, free_func]]"]
  by (simp add: free_func_def)

text \<open>
  C36: Automatic configuration without user settings: the first SCSI adapter gets function 0 of
  slot 0, the enabled network interfaces get the functions of the next slot in the order of their
  units, and the configuration Linux reads lists each of them exactly once and nothing else. This
  holds for up to eight enabled interfaces, the functions of one slot.
\<close>

theorem pci_autoconf_correct:
  assumes "length net_devs \<le> unat CO_MODULE_MAX_CONET" and "length (filter id net_devs) \<le> 8"
  shows "snd (co_pci_request (co_pci_setconfig pci_empty [] [] scsi_devs net_devs) COPCI_GET_CONFIG) =
     (if list_ex id scsi_devs then [\<lparr>cp_dev = 0, cp_func = 0, cp_type = CO_DEVICE_SCSI, cp_unit = 0\<rparr>] else []) @
     map (\<lambda>(y, u). \<lparr>cp_dev = if list_ex id scsi_devs then 1 else 0, cp_func = word_of_nat y,
            cp_type = CO_DEVICE_NETWORK, cp_unit = u\<rparr>) (enumerate 0 (enabled_units 0 net_devs))"
proof -
  let ?free = "replicate 8 free_func" and ?scsi = "\<lparr>pci_type = CO_DEVICE_SCSI, pci_unit = 0\<rparr> # replicate 7 free_func"
  have empty: "pci_empty = replicate 32 ?free" by (simp add: pci_empty_def co_device_defs)
  have fixup: "fixup_slot ?free 0 0 8 = ?free"
    using fixup_slot_correct [of ?free] by (simp add: free_func_def eval_nat_numeral)
  have len: "0 + length net_devs \<le> 256" "length ([] :: uchar list) + length (enabled_units 0 net_devs) \<le> 8"
    using assms by (simp_all add: length_enabled_units CO_MODULE_MAX_CONET_def)
  have none: "\<not> pci_space_find (replicate n ?free) CO_DEVICE_NETWORK u" for n u
    by (auto simp: pci_space_find_def free_func_def list_ex_iff CO_DEVICE_NETWORK_def)
  have scsi: "slot_config 0 ?scsi = [\<lparr>cp_dev = 0, cp_func = 0, cp_type = CO_DEVICE_SCSI, cp_unit = 0\<rparr>]"
    using slot_config_free [of "word_of_nat 0" 1 7] by (simp add: slot_config_def CO_DEVICE_SCSI_def)
  show ?thesis
  proof (cases "list_ex id scsi_devs")
    case True
    have "pci_space_add pci_empty 0 CO_DEVICE_SCSI 0 = ?scsi # replicate 31 ?free"
      by (simp add: empty pci_space_add_def pci_space_find_def co_device_defs free_func_def eval_nat_numeral)
    then have "co_pci_setconfig pci_empty [] [] scsi_devs net_devs
        = add_networks ([?scsi] @ net_slot [] # replicate 30 ?free) 0 0 net_devs"
      using True fixup by (simp add: co_pci_setconfig_def empty net_slot_def eval_nat_numeral)
    also have "\<dots> = [?scsi] @ net_slot (enabled_units 0 net_devs) # replicate 30 ?free"
      using add_networks_slot [of "[?scsi]" "replicate 30 ?free" 0 net_devs "[]"] len none [of 30]
      by (simp add: co_device_defs pci_space_find_def free_func_def list_ex_iff)
    finally show ?thesis
      using True config_of_free_slots [of "Suc (Suc 0)" 30 8] scsi
      by (simp add: co_pci_request_def COPCI_GET_CONFIG_def Let_def slot_config_net_slot)
  next
    case False
    have "co_pci_setconfig pci_empty [] [] scsi_devs net_devs
        = add_networks ([] @ net_slot [] # replicate 31 ?free) 0 0 net_devs"
      using False fixup by (simp add: co_pci_setconfig_def empty net_slot_def eval_nat_numeral)
    also have "\<dots> = net_slot (enabled_units 0 net_devs) # replicate 31 ?free"
      using add_networks_slot [of "[]" "replicate 31 ?free" 0 net_devs "[]"] len none [of 31]
      by (simp add: co_device_defs)
    finally show ?thesis
      using False config_of_free_slots [of 1 31 8]
      by (simp add: co_pci_request_def COPCI_GET_CONFIG_def Let_def slot_config_net_slot)
  qed
qed

theorem pci_autoconf_correct_witness:
  "snd (co_pci_request (co_pci_setconfig pci_empty [] [] [True] [False, True, True]) COPCI_GET_CONFIG) =
     [\<lparr>cp_dev = 0, cp_func = 0, cp_type = 9, cp_unit = 0\<rparr>,
      \<lparr>cp_dev = 1, cp_func = 0, cp_type = 3, cp_unit = 1\<rparr>,
      \<lparr>cp_dev = 1, cp_func = 1, cp_type = 3, cp_unit = 2\<rparr>]"
  using pci_autoconf_correct [of "[False, True, True]" "[True]"]
  by (simp add: CO_MODULE_MAX_CONET_def co_device_defs)

text \<open>
  Sixteen network units can be configured, but from the ninth enabled one on the function
  number starts again at 0 of the same slot, and the automatic configuration replaces what is
  there: with nine enabled interfaces Linux is not told about unit 0, with sixteen only about the
  last eight. A second video adapter replaces the first in the same way.
\<close>

theorem pci_ninth_network_lost:
  "map cp_unit (snd (co_pci_request (co_pci_setconfig pci_empty [] [] [] (replicate 9 True)) COPCI_GET_CONFIG))
     = [8, 1, 2, 3, 4, 5, 6, 7] \<and>
   map cp_unit (snd (co_pci_request (co_pci_setconfig pci_empty [] [] [] (replicate 16 True)) COPCI_GET_CONFIG))
     = [8, 9, 10, 11, 12, 13, 14, 15] \<and>
   map cp_unit (snd (co_pci_request (co_pci_setconfig pci_empty [True, True] [] [] []) COPCI_GET_CONFIG)) = [1]"
  by code_simp

end
