(* ===== verification/Co_Pages.thy ===== *)
theory Co_Pages
  imports Co_Prelude Ret_Code
begin

text \<open>
  The memory of the guest: which page of the host is behind each page of the guest's address
  space, and the page tables that make it visible to the guest (\<open>src/colinux/kernel/pages.c\<close>,
  \<open>reversedpfns.c\<close>, \<open>transfer.c\<close> and the parts of \<open>monitor.c\<close> that allocate and free
  guest memory).

  The host's allocators are a parameter: \<open>malloc_answers\<close> and \<open>page_answers\<close> say what the
  next calls of \<open>co_os_malloc\<close> and \<open>co_os_get_page\<close> return, and an exhausted list fails.
  \<open>co_os_map\<close> gives access to the 4096 bytes of one page; an access outside of them is
  \<^term>\<open>None\<close>. Addresses and page numbers are \<open>unsigned long\<close> (32 bits).
\<close>

section \<open>The address space\<close>

definition PTRS_PER_PTE :: ulong where "PTRS_PER_PTE = 1024"
definition PTRS_PER_PGD :: ulong where "PTRS_PER_PGD = 1024"
definition PGDIR_SHIFT :: nat where "PGDIR_SHIFT = 22"
definition CO_ARCH_PMD_SHIFT :: nat where "CO_ARCH_PMD_SHIFT = 22"
definition CO_ARCH_PMD_MASK :: ulong where "CO_ARCH_PMD_MASK = NOT (push_bit CO_ARCH_PMD_SHIFT 1 - 1)"
definition CO_ARCH_PAGE_SHIFT :: nat where "CO_ARCH_PAGE_SHIFT = 12"
definition CO_ARCH_PAGE_SIZE :: ulong where "CO_ARCH_PAGE_SIZE = 4096"
definition CO_ARCH_PAGE_MASK :: ulong where "CO_ARCH_PAGE_MASK = NOT (CO_ARCH_PAGE_SIZE - 1)"
definition CO_ARCH_KERNEL_OFFSET :: ulong where "CO_ARCH_KERNEL_OFFSET = 0xc0000000"

definition PAGE_PRESENT :: ulong where "PAGE_PRESENT = 0x001"
definition PAGE_RW :: ulong where "PAGE_RW = 0x002"
definition PAGE_ACCESSED :: ulong where "PAGE_ACCESSED = 0x020"
definition PAGE_DIRTY :: ulong where "PAGE_DIRTY = 0x040"
definition KERNPG_TABLE :: ulong where
  "KERNPG_TABLE = PAGE_PRESENT OR PAGE_RW OR PAGE_ACCESSED OR PAGE_DIRTY"

definition CO_VPTR_BASE :: ulong where "CO_VPTR_BASE = 0xffc00000"
definition CO_VPTR_PHYSICAL_TO_PSEUDO_PFN_MAP :: ulong where
  "CO_VPTR_PHYSICAL_TO_PSEUDO_PFN_MAP = CO_VPTR_BASE - 0x1000000"
definition CO_VPTR_PSEUDO_RAM_PAGE_TABLES :: ulong where
  "CO_VPTR_PSEUDO_RAM_PAGE_TABLES = CO_VPTR_BASE - 0x1100000"
definition CO_VPTR_PASSAGE_PAGE :: ulong where "CO_VPTR_PASSAGE_PAGE = CO_VPTR_BASE - 0x1101000"
definition CO_VPTR_IO_AREA_SIZE :: ulong where "CO_VPTR_IO_AREA_SIZE = 0x10000"
definition CO_VPTR_IO_AREA_START :: ulong where "CO_VPTR_IO_AREA_START = CO_VPTR_BASE - 0x1200000"
definition CO_VPTR_SELF_MAP :: ulong where "CO_VPTR_SELF_MAP = CO_VPTR_BASE - 0x1400000"

lemmas page_consts = PTRS_PER_PTE_def PTRS_PER_PGD_def PGDIR_SHIFT_def CO_ARCH_PMD_SHIFT_def
  CO_ARCH_PMD_MASK_def CO_ARCH_PAGE_SHIFT_def CO_ARCH_PAGE_SIZE_def CO_ARCH_PAGE_MASK_def
  CO_ARCH_KERNEL_OFFSET_def PAGE_PRESENT_def PAGE_RW_def PAGE_ACCESSED_def PAGE_DIRTY_def
  KERNPG_TABLE_def CO_VPTR_BASE_def CO_VPTR_PHYSICAL_TO_PSEUDO_PFN_MAP_def
  CO_VPTR_PSEUDO_RAM_PAGE_TABLES_def CO_VPTR_PASSAGE_PAGE_def CO_VPTR_IO_AREA_SIZE_def
  CO_VPTR_IO_AREA_START_def CO_VPTR_SELF_MAP_def

section \<open>State\<close>

text \<open>Of \<open>co_monitor_t\<close> and \<open>co_manager_t\<close>: the two level table \<open>pp_pfns\<close> (a group is
  \<open>NULL\<close> until it is used, and a page number 0 means no page), the reversed map, the sizes; of
  the host: what its allocators will answer, the contents of its pages, the pages it got back.\<close>

record page_state =
  pp_pfns :: "ulong list option list"
  memory_size :: ulong
  end_physical :: ulong
  hostmem_pages :: ulong
  reversed_page_count :: ulong
  reversed_map_pfns :: "ulong list"
  reversed_map_pgds :: "ulong list"
  malloc_answers :: "bool list"
  page_answers :: "ulong option list"
  frame :: "ulong \<Rightarrow> nat \<Rightarrow> uchar"
  put_pages :: "ulong list"

definition co_os_malloc_answer :: "page_state \<Rightarrow> bool \<times> page_state" where
  "co_os_malloc_answer st =
     (case malloc_answers st of
        [] \<Rightarrow> (False, st)
      | a # as \<Rightarrow> (a, st\<lparr>malloc_answers := as\<rparr>))"

definition co_os_get_page :: "page_state \<Rightarrow> (co_rc_value + ulong) \<times> page_state" where
  "co_os_get_page st =
     (case page_answers st of
        [] \<Rightarrow> (Inl CO_RC_ERROR, st)
      | a # as \<Rightarrow> (case a of None \<Rightarrow> Inl CO_RC_ERROR | Some pfn \<Rightarrow> Inr pfn, st\<lparr>page_answers := as\<rparr>))"

definition co_os_put_page :: "ulong \<Rightarrow> page_state \<Rightarrow> page_state" where
  "co_os_put_page pfn st = st\<lparr>put_pages := put_pages st @ [pfn]\<rparr>"

text \<open>Writing and reading a mapped page.\<close>

definition page_write :: "ulong \<Rightarrow> nat \<Rightarrow> uchar list \<Rightarrow> page_state \<Rightarrow> page_state option" where
  "page_write pfn off bs st =
     (if off + length bs \<le> 4096
      then Some (st\<lparr>frame := (frame st)(pfn :=
        (\<lambda>i. if off \<le> i \<and> i < off + length bs then bs ! (i - off) else frame st pfn i))\<rparr>)
      else None)"

definition page_read :: "ulong \<Rightarrow> nat \<Rightarrow> nat \<Rightarrow> page_state \<Rightarrow> uchar list option" where
  "page_read pfn off n st =
     (if off + n \<le> 4096 then Some (map (frame st pfn) [off..<off + n]) else None)"

text \<open>An \<open>unsigned long\<close> in memory, little-endian.\<close>

definition le_bytes :: "ulong \<Rightarrow> uchar list" where
  "le_bytes w = [ucast w, ucast (drop_bit 8 w), ucast (drop_bit 16 w), ucast (drop_bit 24 w)]"

section \<open>Pages of the guest\<close>

definition co_manager_get_page :: "page_state \<Rightarrow> (co_rc_value + ulong) \<times> page_state" where
  "co_manager_get_page st =
     (case co_os_get_page st of
        (Inl rc, st) \<Rightarrow> (Inl rc, st)
      | (Inr pfn, st) \<Rightarrow> if hostmem_pages st \<le> pfn then (Inl CO_RC_ERROR, st) else (Inr pfn, st))"

definition pfn_group :: "ulong \<Rightarrow> nat" where
  "pfn_group address = unat (drop_bit CO_ARCH_PAGE_SHIFT address div PTRS_PER_PTE)"

definition pfn_index :: "ulong \<Rightarrow> nat" where
  "pfn_index address = unat (drop_bit CO_ARCH_PAGE_SHIFT address mod PTRS_PER_PTE)"

definition in_page :: "ulong \<Rightarrow> nat" where
  "in_page address = unat (address AND NOT CO_ARCH_PAGE_MASK)"

definition co_monitor_get_pfn :: "page_state \<Rightarrow> ulong \<Rightarrow> co_rc_value + ulong" where
  "co_monitor_get_pfn st address =
     (case pp_pfns st ! pfn_group address of
        None \<Rightarrow> Inl CO_RC_ERROR
      | Some grp \<Rightarrow> Inr (grp ! pfn_index address))"

text \<open>\<open>pp_pfns[pfn_group][pfn_index] = pfn\<close>, in a group that exists.\<close>

definition set_pfn :: "ulong \<Rightarrow> ulong \<Rightarrow> page_state \<Rightarrow> page_state" where
  "set_pfn address pfn st =
     st\<lparr>pp_pfns := (pp_pfns st)[pfn_group address :=
       map_option (\<lambda>grp. grp[pfn_index address := pfn]) (pp_pfns st ! pfn_group address)]\<rparr>"

text \<open>The allocation of a missing group, which is cleared.\<close>

definition alloc_group :: "ulong \<Rightarrow> page_state \<Rightarrow> bool \<times> page_state" where
  "alloc_group address st =
     (case pp_pfns st ! pfn_group address of
        Some _ \<Rightarrow> (True, st)
      | None \<Rightarrow>
          (case co_os_malloc_answer st of
             (False, st) \<Rightarrow> (False, st)
           | (True, st) \<Rightarrow> (True, st\<lparr>pp_pfns := (pp_pfns st)[pfn_group address :=
                                 Some (replicate (unat PTRS_PER_PTE) 0)]\<rparr>)))"

section \<open>Splitting an area into pages\<close>

text \<open>The part of \<open>sz\<close> bytes at \<open>offset\<close> that lies in the page of \<open>offset\<close>.\<close>

definition part_size :: "ulong \<Rightarrow> ulong \<Rightarrow> ulong" where
  "part_size offset sz =
     (let part = ((offset + CO_ARCH_PAGE_SIZE) AND CO_ARCH_PAGE_MASK) - offset
      in if sz < part then sz else part)"

lemma page_mask: "CO_ARCH_PAGE_MASK = NOT (mask 12)" "CO_ARCH_PAGE_SIZE = 2 ^ 12"
  by (simp_all add: page_consts mask_eq_exp_minus_1)

lemma in_page_mod: "in_page a = unat a mod 4096"
  by (simp add: in_page_def page_mask unsigned_take_bit_eq take_bit_eq_mod unat_mod flip: take_bit_eq_mask)

lemma in_page_less [simp]: "in_page a < 4096"
  by (simp add: in_page_mod)

lemma page_group_index:
  "pfn_group a = unat a div 4096 div 1024" "pfn_index a = unat a div 4096 mod 1024"
  by (simp_all add: pfn_group_def pfn_index_def page_consts unat_div unat_mod unat_drop_bit_eq drop_bit_eq_div)

lemma pfn_group_less [simp]: "pfn_group a < 1024"
proof -
  have "unat a < 4096 * 1024 * 1024" using unsigned_less [of a, where ?'a = nat] by simp
  then show ?thesis by (simp add: page_group_index less_mult_imp_div_less)
qed

lemma pfn_index_less [simp]: "pfn_index a < 1024"
  by (simp add: page_group_index)

lemma page_mask_and: "(a :: ulong) AND CO_ARCH_PAGE_MASK = a - (a AND mask 12)"
proof -
  have "(a AND NOT (mask 12)) + (a AND mask 12) = (a AND NOT (mask 12)) OR (a AND mask 12)"
    by (rule disjunctive_add) (simp add: bit_simps)
  also have "\<dots> = a" by (rule bit_word_eqI) (auto simp: bit_simps)
  finally show ?thesis by (simp add: page_mask algebra_simps)
qed

lemma and_mask_12: "unat ((a :: ulong) AND mask 12) = unat a mod 4096"
  using in_page_mod [of a] by (simp add: in_page_def page_mask)

lemma mask_shift_page: "((a :: ulong) + 4096) AND mask 12 = a AND mask 12"
proof -
  have "unat ((a + 4096) AND mask 12) = (unat a + 4096) mod 2 ^ 32 mod 4096"
    unfolding and_mask_12 by (simp add: unat_word_ariths)
  also have "\<dots> = (unat a + 4096) mod 4096" by (rule mod_mod_cancel) simp
  also have "\<dots> = unat (a AND mask 12)" by (simp add: and_mask_12)
  finally show ?thesis by (simp only: word_unat_eq_iff)
qed

lemma unat_part: "unat (((a :: ulong) + CO_ARCH_PAGE_SIZE AND CO_ARCH_PAGE_MASK) - a) = 4096 - in_page a"
proof -
  have "(a + CO_ARCH_PAGE_SIZE AND CO_ARCH_PAGE_MASK) - a = 4096 - (a AND mask 12)"
    unfolding page_mask_and by (simp add: page_mask(2) mask_shift_page)
  moreover have "unat (a AND mask 12) = in_page a" by (simp add: and_mask_12 in_page_mod)
  ultimately show ?thesis
    using in_page_less [of a, THEN less_imp_le] unat_diff_small [of "a AND mask 12" 4096] by simp
qed

lemma unat_part_size: "unat (part_size a n) = min (unat n) (4096 - in_page a)"
proof -
  have "n < (a + CO_ARCH_PAGE_SIZE AND CO_ARCH_PAGE_MASK) - a \<longleftrightarrow> unat n < 4096 - in_page a"
    unfolding word_less_nat_alt unat_part ..
  then show ?thesis unfolding part_size_def Let_def
    by (cases "unat n < 4096 - in_page a") (simp_all add: unat_part)
qed

lemma part_size_pos: "n \<noteq> 0 \<Longrightarrow> 0 < unat (part_size a n)"
  using in_page_less [of a] by (simp add: unat_part_size unat_gt_0)

lemma unat_part_size_le: "unat (part_size a n) \<le> unat n"
  by (simp add: unat_part_size)

lemma unat_rest: "unat (n - part_size a n) = unat n - unat (part_size a n)"
  by (rule unat_diff_small) (rule unat_part_size_le)

lemma part_in_page: "in_page a + unat (part_size a n) \<le> 4096"
  using in_page_less [of a] unfolding unat_part_size by linarith

section \<open>The split\<close>

text \<open>The callback keeps its data in a state; an error ends the loop.\<close>

function co_split_by_pages_and_callback ::
  "ulong \<Rightarrow> ulong \<Rightarrow> (ulong \<Rightarrow> ulong \<Rightarrow> 's \<Rightarrow> (co_rc_value \<times> 's) option) \<Rightarrow> 's \<Rightarrow>
     (co_rc_value \<times> 's) option" where
  "co_split_by_pages_and_callback offset sz func s =
     (if sz = 0 then Some (CO_RC_OK, s)
      else
        let part = part_size offset sz
        in case func offset part s of
             None \<Rightarrow> None
           | Some (rc, s) \<Rightarrow>
               if \<not> CO_OK rc then Some (rc, s)
               else co_split_by_pages_and_callback (offset + part) (sz - part) func s)"
  by pat_completeness auto
termination
proof (relation "measure (\<lambda>(offset, sz, func, s). unat sz)", goal_cases)
  case 1
  show ?case by simp
next
  case (2 offset sz func s)
  then show ?case using part_size_pos [of sz offset] unat_part_size_le [of offset sz]
    by (simp add: unat_rest)
qed

declare co_split_by_pages_and_callback.simps [simp del]

section \<open>Creating pages and page tables\<close>

text \<open>The steps of a function that returns at the first error.\<close>

definition and_then :: "(co_rc_value \<times> 's) option \<Rightarrow> ('s \<Rightarrow> (co_rc_value \<times> 's) option) \<Rightarrow>
    (co_rc_value \<times> 's) option" where
  "and_then r f = (case r of
      None \<Rightarrow> None
    | Some (rc, s) \<Rightarrow> if CO_OK rc then f s else Some (rc, s))"

text \<open>A callback gets the page, the place in it, the size and its data; \<open>NULL\<close> is
  \<^term>\<open>None\<close>. What it returns is not looked at.\<close>

type_synonym 'd scan_callback =
  "ulong \<Rightarrow> nat \<Rightarrow> ulong \<Rightarrow> 'd \<times> page_state \<Rightarrow> (co_rc_value \<times> 'd \<times> page_state) option"

definition scan_pfns_split_callback ::
  "'d scan_callback option \<Rightarrow> bool \<Rightarrow> ulong \<Rightarrow> ulong \<Rightarrow> 'd \<times> page_state \<Rightarrow>
     (co_rc_value \<times> 'd \<times> page_state) option" where
  "scan_pfns_split_callback func alloc_pages offset sz = (\<lambda>(d, st).
     case alloc_group offset st of
       (False, st) \<Rightarrow> Some (CO_RC_ERROR, d, st)
     | (True, st) \<Rightarrow>
         if \<not> alloc_pages then Some (CO_RC_OK, d, st)
         else
           let real_pfn = the (pp_pfns st ! pfn_group offset) ! pfn_index offset;
               (got, st) = (if real_pfn = 0
                  then case co_manager_get_page st of
                         (Inl rc, st) \<Rightarrow> (Inl rc, st)
                       | (Inr pfn, st) \<Rightarrow> (Inr pfn, set_pfn offset pfn st)
                  else (Inr real_pfn, st))
           in case got of
                Inl rc \<Rightarrow> Some (rc, d, st)
              | Inr real_pfn \<Rightarrow>
                  (case func of
                     None \<Rightarrow> Some (CO_RC_OK, d, st)
                   | Some f \<Rightarrow> map_option (\<lambda>(rc, d, st). (CO_RC_OK, d, st))
                                 (f real_pfn (in_page offset) sz (d, st))))"

definition co_manager_scan_pfns_and_callback ::
  "ulong \<Rightarrow> ulong \<Rightarrow> 'd scan_callback option \<Rightarrow> bool \<Rightarrow> 'd \<times> page_state \<Rightarrow>
     (co_rc_value \<times> 'd \<times> page_state) option" where
  "co_manager_scan_pfns_and_callback address sz func alloc_pages =
     co_split_by_pages_and_callback address sz (scan_pfns_split_callback func alloc_pages)"

text \<open>The data are the bytes that are left to copy.\<close>

definition copy_callback :: "uchar list scan_callback" where
  "copy_callback pfn off sz = (\<lambda>(d, st).
     if unat sz \<le> length d
     then map_option (\<lambda>st. (CO_RC_OK, drop (unat sz) d, st)) (page_write pfn off (take (unat sz) d) st)
     else None)"

definition co_monitor_copy_and_create_pfns ::
  "ulong \<Rightarrow> ulong \<Rightarrow> uchar list \<Rightarrow> page_state \<Rightarrow> (co_rc_value \<times> page_state) option" where
  "co_monitor_copy_and_create_pfns address sz source st =
     map_option (\<lambda>(rc, d, st). (rc, st))
       (co_manager_scan_pfns_and_callback address sz (Some copy_callback) True (source, st))"

definition co_monitor_scan_and_create_pfns ::
  "ulong \<Rightarrow> ulong \<Rightarrow> page_state \<Rightarrow> (co_rc_value \<times> page_state) option" where
  "co_monitor_scan_and_create_pfns address sz st =
     map_option (\<lambda>(rc, d, st). (rc, st))
       (co_manager_scan_pfns_and_callback address sz None True ((), st))"

definition pte_of :: "ulong \<Rightarrow> ulong" where
  "pte_of pfn = (if pfn \<noteq> 0
     then push_bit CO_ARCH_PAGE_SHIFT pfn OR PAGE_PRESENT OR PAGE_RW OR PAGE_DIRTY OR PAGE_ACCESSED
     else 0)"

text \<open>The page numbers come from a buffer of the caller, or from a group of the table
  \<open>pp_pfns\<close> itself: then the entry that the scan has just written is seen.\<close>

datatype pfn_source = Pfn_buffer "ulong list" | Pfn_group nat nat

fun pfns_left :: "pfn_source \<Rightarrow> page_state \<Rightarrow> ulong list" where
  "pfns_left (Pfn_buffer pfns) st = pfns"
| "pfns_left (Pfn_group g i) st = drop i (the (pp_pfns st ! g))"

fun pfns_advance :: "nat \<Rightarrow> pfn_source \<Rightarrow> pfn_source" where
  "pfns_advance n (Pfn_buffer pfns) = Pfn_buffer (drop n pfns)"
| "pfns_advance n (Pfn_group g i) = Pfn_group g (i + n)"

definition create_ptes_callback :: "pfn_source scan_callback" where
  "create_ptes_callback pfn off sz = (\<lambda>(d, st).
     let n = unat sz div 4;
         pfns = pfns_left d st
     in if n \<le> length pfns
        then map_option (\<lambda>st. (CO_RC_OK, pfns_advance n d, st))
               (page_write pfn off (concat (map (le_bytes \<circ> pte_of) (take n pfns))) st)
        else None)"

definition co_monitor_create_ptes ::
  "ulong \<Rightarrow> ulong \<Rightarrow> pfn_source \<Rightarrow> page_state \<Rightarrow> (co_rc_value \<times> page_state) option" where
  "co_monitor_create_ptes address sz source st =
     map_option (\<lambda>(rc, d, st). (rc, st))
       (co_manager_scan_pfns_and_callback address sz (Some create_ptes_callback) True (source, st))"

definition co_manager_set_reversed_pfn ::
  "ulong \<Rightarrow> ulong \<Rightarrow> page_state \<Rightarrow> (co_rc_value \<times> page_state) option" where
  "co_manager_set_reversed_pfn real_pfn pseudo_pfn st =
     (let top_level = real_pfn div PTRS_PER_PTE
      in if reversed_page_count st \<le> top_level then Some (CO_RC_ERROR, st)
         else
           let entry = real_pfn mod PTRS_PER_PTE;
               mapped_pfn = reversed_map_pfns st ! unat top_level
           in map_option (\<lambda>st. (CO_RC_OK, st))
                (page_write mapped_pfn (4 * unat entry) (le_bytes pseudo_pfn) st))"

definition virtual_pfn :: "ulong \<Rightarrow> ulong" where
  "virtual_pfn address = drop_bit CO_ARCH_PAGE_SHIFT (address - CO_ARCH_KERNEL_OFFSET)"

definition pte_address :: "ulong \<Rightarrow> ulong" where
  "pte_address address = CO_VPTR_PSEUDO_RAM_PAGE_TABLES + 4 * virtual_pfn address"

definition co_monitor_alloc_and_map_page ::
  "ulong \<Rightarrow> page_state \<Rightarrow> (co_rc_value \<times> page_state) option" where
  "co_monitor_alloc_and_map_page address st =
     (case alloc_group address st of
        (False, st) \<Rightarrow> Some (CO_RC_OUT_OF_MEMORY, st)
      | (True, st) \<Rightarrow>
          if the (pp_pfns st ! pfn_group address) ! pfn_index address \<noteq> 0 then Some (CO_RC_OK, st)
          else
            (case co_manager_get_page st of
               (Inl rc, st) \<Rightarrow> Some (rc, st)
             | (Inr physical_pfn, st) \<Rightarrow>
                 and_then
                   (co_manager_set_reversed_pfn physical_pfn (virtual_pfn address)
                      (set_pfn address physical_pfn st))
                   (co_monitor_create_ptes (pte_address address) 4 (Pfn_buffer [physical_pfn]))))"

definition co_monitor_free_and_unmap_page ::
  "ulong \<Rightarrow> page_state \<Rightarrow> (co_rc_value \<times> page_state) option" where
  "co_monitor_free_and_unmap_page address st =
     (if pp_pfns st ! pfn_group address = None then Some (CO_RC_ERROR, st)
      else
        case co_monitor_create_ptes (pte_address address) 4 (Pfn_buffer [0]) st of
          None \<Rightarrow> None
        | Some (_, st) \<Rightarrow>
            let physical_pfn = the (pp_pfns st ! pfn_group address) ! pfn_index address
            in if physical_pfn \<noteq> 0
               then map_option (\<lambda>(_, st). (CO_RC_OK, set_pfn address 0 (co_os_put_page physical_pfn st)))
                      (co_manager_set_reversed_pfn physical_pfn 0 st)
               else Some (CO_RC_OK, st))"

text \<open>The data are the bytes that are left to copy, or \<open>NULL\<close> for an area to clear.\<close>

definition copy_region_split_callback ::
  "ulong \<Rightarrow> ulong \<Rightarrow> uchar list option \<times> page_state \<Rightarrow>
     (co_rc_value \<times> uchar list option \<times> page_state) option" where
  "copy_region_split_callback offset sz = (\<lambda>(d, st).
     case co_monitor_alloc_and_map_page (offset AND CO_ARCH_PAGE_MASK) st of
       None \<Rightarrow> None
     | Some (rc, st) \<Rightarrow>
         if \<not> CO_OK rc then Some (rc, d, st)
         else
           case co_monitor_get_pfn st (offset AND CO_ARCH_PAGE_MASK) of
             Inl rc \<Rightarrow> Some (rc, d, st)
           | Inr real_pfn \<Rightarrow>
               (case d of
                  Some bs \<Rightarrow>
                    if unat sz \<le> length bs
                    then map_option (\<lambda>st. (CO_RC_OK, Some (drop (unat sz) bs), st))
                           (page_write real_pfn (in_page offset) (take (unat sz) bs) st)
                    else None
                | None \<Rightarrow>
                    map_option (\<lambda>st. (CO_RC_OK, None, st))
                      (page_write real_pfn (in_page offset) (replicate (unat sz) 0) st)))"

definition co_monitor_copy_region ::
  "ulong \<Rightarrow> ulong \<Rightarrow> uchar list option \<Rightarrow> page_state \<Rightarrow> (co_rc_value \<times> page_state) option" where
  "co_monitor_copy_region address sz data_to_copy st =
     map_option (\<lambda>(rc, d, st). (rc, st))
       (co_split_by_pages_and_callback address sz copy_region_split_callback (data_to_copy, st))"

section \<open>The guest's memory as a whole\<close>

fun co_free_pages :: "ulong \<Rightarrow> nat \<Rightarrow> page_state \<Rightarrow> page_state option" where
  "co_free_pages scan_address 0 st = Some st"
| "co_free_pages scan_address (Suc n) st =
     (case co_monitor_free_and_unmap_page scan_address st of
        None \<Rightarrow> None
      | Some (_, st) \<Rightarrow> co_free_pages (scan_address + CO_ARCH_PAGE_SIZE) n st)"

text \<open>The loop of \<open>co_alloc_pages\<close> after \<open>i\<close> pages; the way back frees the pages from \<open>address\<close> on.\<close>

fun alloc_pages_loop :: "ulong \<Rightarrow> ulong \<Rightarrow> nat \<Rightarrow> nat \<Rightarrow> page_state \<Rightarrow> (co_rc_value \<times> page_state) option" where
  "alloc_pages_loop address scan_address i 0 st = Some (CO_RC_OK, st)"
| "alloc_pages_loop address scan_address i (Suc n) st =
     (case co_monitor_alloc_and_map_page scan_address st of
        None \<Rightarrow> None
      | Some (rc, st) \<Rightarrow>
          if \<not> CO_OK rc then map_option (\<lambda>st. (rc, st)) (co_free_pages address i st)
          else alloc_pages_loop address (scan_address + CO_ARCH_PAGE_SIZE) (Suc i) n st)"

definition co_alloc_pages :: "ulong \<Rightarrow> nat \<Rightarrow> page_state \<Rightarrow> (co_rc_value \<times> page_state) option" where
  "co_alloc_pages address num_pages st = alloc_pages_loop address address 0 num_pages st"

text \<open>A table \<open>pp_pfns\<close> that is \<open>NULL\<close> is the empty list.\<close>

definition used_pfns :: "ulong list option list \<Rightarrow> ulong list" where
  "used_pfns pp = concat (map (\<lambda>grp. case grp of None \<Rightarrow> [] | Some ps \<Rightarrow> filter (\<lambda>p. p \<noteq> 0) ps) pp)"

definition free_pseudo_physical_memory :: "page_state \<Rightarrow> page_state" where
  "free_pseudo_physical_memory st =
     (fold co_os_put_page (used_pfns (pp_pfns st)) st)\<lparr>pp_pfns := []\<rparr>"

definition alloc_pp_ram_mapping :: "page_state \<Rightarrow> (co_rc_value \<times> page_state) option" where
  "alloc_pp_ram_mapping st =
     (case co_os_malloc_answer st of
        (False, st) \<Rightarrow> Some (CO_RC_OUT_OF_MEMORY, st)
      | (True, st) \<Rightarrow>
          let st = st\<lparr>pp_pfns := replicate (unat PTRS_PER_PGD) None\<rparr>;
              full_page_tables_size = CO_ARCH_PAGE_SIZE * drop_bit CO_ARCH_PMD_SHIFT (memory_size st);
              partial_page_table_size =
                4 * drop_bit CO_ARCH_PAGE_SHIFT (memory_size st AND NOT CO_ARCH_PMD_MASK);
              r = and_then
                    (co_monitor_scan_and_create_pfns CO_VPTR_PSEUDO_RAM_PAGE_TABLES full_page_tables_size st)
                    (\<lambda>st. if partial_page_table_size \<noteq> 0
                       then co_monitor_scan_and_create_pfns
                              (CO_VPTR_PSEUDO_RAM_PAGE_TABLES + full_page_tables_size)
                              partial_page_table_size st
                       else Some (CO_RC_OK, st))
          in case r of
               None \<Rightarrow> None
             | Some (rc, st) \<Rightarrow>
                 if \<not> CO_OK rc then Some (rc, free_pseudo_physical_memory st) else Some (rc, st))"

section \<open>The page directory of the guest\<close>

text \<open>\<open>guest_address_space_init\<close> fills the page directory of the guest. What the architecture
  does with the passage page is a parameter (the codes of its two steps and its physical address),
  and so is the physical address of each page of the I/O buffer. The result has the new
  \<open>cmon->pgd\<close>, 0 when it was not reached.\<close>

fun map_io_pages :: "ulong \<Rightarrow> ulong list \<Rightarrow> page_state \<Rightarrow> (co_rc_value \<times> page_state) option" where
  "map_io_pages io_buffer_offset [] st = Some (CO_RC_OK, st)"
| "map_io_pages io_buffer_offset (io_buffer_phys # phys) st =
     and_then (co_monitor_create_ptes (CO_VPTR_SELF_MAP + io_buffer_offset) 4
                 (Pfn_buffer [drop_bit CO_ARCH_PAGE_SHIFT io_buffer_phys]) st)
       (map_io_pages (io_buffer_offset + 4) phys)"

definition pgd_offset :: "ulong \<Rightarrow> ulong" where
  "pgd_offset vptr = drop_bit PGDIR_SHIFT vptr * 4"

definition pte_offset :: "ulong \<Rightarrow> ulong" where
  "pte_offset vptr = drop_bit CO_ARCH_PAGE_SHIFT (vptr AND (push_bit PGDIR_SHIFT 1 - 1)) * 4"

definition pp_pagetables_pgd :: nat where
  "pp_pagetables_pgd = unat (drop_bit PGDIR_SHIFT CO_VPTR_PSEUDO_RAM_PAGE_TABLES)"

definition guest_address_space_init ::
  "ulong \<Rightarrow> co_rc_value \<Rightarrow> co_rc_value \<Rightarrow> ulong \<Rightarrow> ulong list \<Rightarrow> page_state \<Rightarrow>
     (co_rc_value \<times> ulong \<times> page_state) option" where
  "guest_address_space_init swapper_pg_dir passage_alloc passage_init passage_phys io_buffer_phys st =
     (case co_monitor_get_pfn st swapper_pg_dir of
        Inl rc \<Rightarrow> Some (rc, 0, st)
      | Inr swapper_pg_dir_pfn \<Rightarrow>
          map_option (\<lambda>(rc, st). (rc, push_bit CO_ARCH_PAGE_SHIFT swapper_pg_dir_pfn, st))
           (if \<not> CO_OK passage_alloc then Some (passage_alloc, st)
            else if \<not> CO_OK passage_init then Some (passage_init, st)
            else if pp_pfns st ! pp_pagetables_pgd = None then Some (passage_init, st)
            else
             and_then (co_monitor_create_ptes swapper_pg_dir CO_ARCH_PAGE_SIZE
                         (Pfn_group pp_pagetables_pgd 0) st)
             (\<lambda>st. and_then
                 (co_monitor_copy_and_create_pfns
                   (swapper_pg_dir + pgd_offset CO_VPTR_PHYSICAL_TO_PSEUDO_PFN_MAP)
                   (4 * word_of_nat (length (reversed_map_pgds st)))
                   (concat (map le_bytes (reversed_map_pgds st))) st)
             (\<lambda>st. and_then (co_monitor_create_ptes CO_VPTR_SELF_MAP CO_ARCH_PAGE_SIZE
                         (Pfn_group pp_pagetables_pgd 0) st)
             (\<lambda>st. case co_monitor_get_pfn st CO_VPTR_SELF_MAP of
                  Inl rc \<Rightarrow> Some (rc, st)
                | Inr self_map_pfn \<Rightarrow>
                    and_then (co_monitor_create_ptes (swapper_pg_dir + pgd_offset CO_VPTR_SELF_MAP) 4
                                (Pfn_buffer [self_map_pfn]) st)
             (\<lambda>st. and_then (co_monitor_create_ptes (CO_VPTR_SELF_MAP + pte_offset CO_VPTR_PASSAGE_PAGE) 4
                                (Pfn_buffer [drop_bit CO_ARCH_PAGE_SHIFT passage_phys]) st)
             (\<lambda>st. and_then (co_monitor_create_ptes CO_VPTR_SELF_MAP 4 (Pfn_buffer [self_map_pfn]) st)
                 (map_io_pages (pte_offset CO_VPTR_IO_AREA_START) io_buffer_phys))))))))"

section \<open>The reversed map\<close>

text \<open>The host's pages for the map, one for every 1024 pages of the host; \<open>n\<close> are left.\<close>

fun reversed_pages_loop :: "nat \<Rightarrow> nat \<Rightarrow> page_state \<Rightarrow> co_rc_value \<times> page_state" where
  "reversed_pages_loop i 0 st = (CO_RC_OK, st)"
| "reversed_pages_loop i (Suc n) st =
     (case co_manager_get_page st of
        (Inl rc, st) \<Rightarrow> (rc, st)
      | (Inr pfn, st) \<Rightarrow>
          reversed_pages_loop (Suc i) n (st\<lparr>reversed_map_pfns := (reversed_map_pfns st)[i := pfn]\<rparr>))"

text \<open>One page table of the map from the entry \<open>filled\<close> on: the entries, and where it stopped.\<close>

definition reversed_pte :: "ulong \<Rightarrow> ulong" where
  "reversed_pte rpfn =
     push_bit CO_ARCH_PAGE_SHIFT rpfn OR (PAGE_PRESENT OR PAGE_RW OR PAGE_DIRTY OR PAGE_ACCESSED)"

definition reversed_ptes :: "page_state \<Rightarrow> nat \<Rightarrow> ulong list" where
  "reversed_ptes st filled =
     map (\<lambda>j. if filled + j < unat (reversed_page_count st)
              then reversed_pte (reversed_map_pfns st ! (filled + j)) else 0) [0..<unat PTRS_PER_PTE]"

fun reversed_pgds_loop ::
  "nat \<Rightarrow> nat \<Rightarrow> ulong \<Rightarrow> nat \<Rightarrow> page_state \<Rightarrow> (co_rc_value \<times> page_state) option" where
  "reversed_pgds_loop i 0 covered_physical filled st = Some (CO_RC_OK, st)"
| "reversed_pgds_loop i (Suc n) covered_physical filled st =
     (if hostmem_pages st \<le> covered_physical
      then reversed_pgds_loop (Suc i) n covered_physical filled
             (st\<lparr>reversed_map_pgds := (reversed_map_pgds st)[i := 0]\<rparr>)
      else
        case co_manager_get_page st of
          (Inl rc, st) \<Rightarrow> Some (rc, st)
        | (Inr pfn, st) \<Rightarrow>
            (case page_write pfn 0 (concat (map le_bytes (reversed_ptes st filled))) st of
               None \<Rightarrow> None
             | Some st \<Rightarrow>
                 reversed_pgds_loop (Suc i) n (covered_physical + PTRS_PER_PTE * PTRS_PER_PGD)
                   (min (unat (reversed_page_count st)) (filled + unat PTRS_PER_PTE))
                   (st\<lparr>reversed_map_pgds :=
                     (reversed_map_pgds st)[i := push_bit CO_ARCH_PAGE_SHIFT pfn OR KERNPG_TABLE]\<rparr>)))"

definition reversed_map_pgds_count :: nat where
  "reversed_map_pgds_count =
     unat (((CO_VPTR_BASE - CO_VPTR_PHYSICAL_TO_PSEUDO_PFN_MAP) div PTRS_PER_PTE) div PTRS_PER_PGD div 4)"

text \<open>\<open>junk\<close> is what is in the block for \<open>reversed_map_pgds\<close>, which is not cleared; the code goes
  on without the block when its allocation fails.\<close>

definition co_manager_alloc_reversed_pfns ::
  "ulong list \<Rightarrow> page_state \<Rightarrow> (co_rc_value \<times> page_state) option" where
  "co_manager_alloc_reversed_pfns junk st =
     (let st = st\<lparr>reversed_page_count := hostmem_pages st div PTRS_PER_PTE\<rparr>
      in case co_os_malloc_answer st of
           (False, st) \<Rightarrow> Some (CO_RC_OUT_OF_MEMORY, st\<lparr>reversed_map_pfns := []\<rparr>)
         | (True, st) \<Rightarrow>
             let st = st\<lparr>reversed_map_pfns := replicate (unat (reversed_page_count st)) 0\<rparr>;
                 (rc, st) = reversed_pages_loop 0 (unat (reversed_page_count st)) st
             in if \<not> CO_OK rc then Some (rc, st)
                else
                  case co_os_malloc_answer st of
                    (False, st) \<Rightarrow> None
                  | (True, st) \<Rightarrow>
                      reversed_pgds_loop 0 reversed_map_pgds_count 0 0
                        (st\<lparr>reversed_map_pgds := take reversed_map_pgds_count junk\<rparr>))"

definition co_manager_free_reversed_pfns :: "page_state \<Rightarrow> page_state" where
  "co_manager_free_reversed_pfns st =
     fold co_os_put_page
       (reversed_map_pfns st @
        map (drop_bit CO_ARCH_PAGE_SHIFT) (filter (\<lambda>pgd. pgd \<noteq> 0) (reversed_map_pgds st))) st"

section \<open>Copying between the host and the guest\<close>

datatype co_monitor_transfer_dir = CO_MONITOR_TRANSFER_FROM_HOST | CO_MONITOR_TRANSFER_FROM_LINUX

text \<open>The bounds that both transfer functions check first.\<close>

definition off_bounds :: "page_state \<Rightarrow> ulong \<Rightarrow> ulong \<Rightarrow> bool" where
  "off_bounds st vaddr sz \<longleftrightarrow>
     vaddr < CO_ARCH_KERNEL_OFFSET \<or> end_physical st \<le> vaddr \<or>
     vaddr + sz < CO_ARCH_KERNEL_OFFSET \<or> end_physical st < vaddr + sz"

text \<open>The mapped page and the place in it.\<close>

definition co_monitor_host_linuxvm_transfer_map ::
  "page_state \<Rightarrow> ulong \<Rightarrow> ulong \<Rightarrow> co_rc_value + (ulong \<times> nat)" where
  "co_monitor_host_linuxvm_transfer_map st vaddr sz =
     (if off_bounds st vaddr sz then Inl CO_RC_TRANSFER_OFF_BOUNDS
      else
        let one_copy = ((vaddr + CO_ARCH_PAGE_SIZE) AND CO_ARCH_PAGE_MASK) - vaddr
        in if sz = 0 \<or> one_copy < sz then Inl CO_RC_TRANSFER_OFF_BOUNDS
           else case co_monitor_get_pfn st vaddr of
                  Inl rc \<Rightarrow> Inl rc
                | Inr pfn \<Rightarrow> Inr (pfn, in_page vaddr))"

text \<open>A transfer function gets the page, the place in it and the size; its own data is \<open>'h\<close>.\<close>

type_synonym 'h transfer_func =
  "ulong \<Rightarrow> nat \<Rightarrow> ulong \<Rightarrow> 'h \<times> page_state \<Rightarrow> (co_rc_value \<times> 'h \<times> page_state) option"

function transfer_loop ::
  "'h transfer_func \<Rightarrow> ulong \<Rightarrow> ulong \<Rightarrow> 'h \<times> page_state \<Rightarrow> (co_rc_value \<times> 'h \<times> page_state) option" where
  "transfer_loop host_func vaddr sz s =
     (if sz = 0 then Some (CO_RC_OK, s)
      else
        case co_monitor_get_pfn (snd s) vaddr of
          Inl rc \<Rightarrow> Some (rc, s)
        | Inr pfn \<Rightarrow>
            let one_copy = part_size vaddr sz
            in case host_func pfn (in_page vaddr) one_copy s of
                 None \<Rightarrow> None
               | Some (rc, s) \<Rightarrow>
                   if \<not> CO_OK rc then Some (rc, s)
                   else transfer_loop host_func (vaddr + one_copy) (sz - one_copy) s)"
  by pat_completeness auto
termination
proof (relation "measure (\<lambda>(func, vaddr, sz, s). unat sz)", goal_cases)
  case 1
  show ?case by simp
next
  case (2 func vaddr sz s)
  then show ?case using part_size_pos [of sz vaddr] unat_part_size_le [of vaddr sz]
    by (simp add: unat_rest)
qed

declare transfer_loop.simps [simp del]

definition co_monitor_host_linuxvm_transfer ::
  "'h transfer_func \<Rightarrow> ulong \<Rightarrow> ulong \<Rightarrow> 'h \<times> page_state \<Rightarrow> (co_rc_value \<times> 'h \<times> page_state) option" where
  "co_monitor_host_linuxvm_transfer host_func vaddr sz s =
     (if off_bounds (snd s) vaddr sz then Some (CO_RC_TRANSFER_OFF_BOUNDS, s)
      else transfer_loop host_func vaddr sz s)"

text \<open>The data of the copy: the buffer of the host, and how far the copy is.\<close>

definition co_monitor_transfer_memcpy ::
  "co_monitor_transfer_dir \<Rightarrow> (uchar list \<times> nat) transfer_func" where
  "co_monitor_transfer_memcpy dir pfn off sz = (\<lambda>((buf, pos), st).
     if length buf < pos + unat sz then None
     else if dir = CO_MONITOR_TRANSFER_FROM_HOST
     then map_option (\<lambda>st. (CO_RC_OK, (buf, pos + unat sz), st))
            (page_write pfn off (take (unat sz) (drop pos buf)) st)
     else map_option (\<lambda>bs. (CO_RC_OK, (take pos buf @ bs @ drop (pos + unat sz) buf, pos + unat sz), st))
            (page_read pfn off (unat sz) st))"

definition co_monitor_host_linuxvm_copy ::
  "uchar list \<Rightarrow> ulong \<Rightarrow> ulong \<Rightarrow> co_monitor_transfer_dir \<Rightarrow> page_state \<Rightarrow>
     (co_rc_value \<times> uchar list \<times> page_state) option" where
  "co_monitor_host_linuxvm_copy host linuxvm sz dir st =
     map_option (\<lambda>(rc, (buf, pos), st). (rc, buf, st))
       (co_monitor_host_linuxvm_transfer (co_monitor_transfer_memcpy dir) linuxvm sz ((host, 0), st))"

definition co_monitor_host_to_linuxvm ::
  "uchar list \<Rightarrow> ulong \<Rightarrow> ulong \<Rightarrow> page_state \<Rightarrow> (co_rc_value \<times> page_state) option" where
  "co_monitor_host_to_linuxvm from_buf to_addr sz st =
     map_option (\<lambda>(rc, buf, st). (rc, st))
       (co_monitor_host_linuxvm_copy from_buf to_addr sz CO_MONITOR_TRANSFER_FROM_HOST st)"

definition co_monitor_linuxvm_to_host ::
  "ulong \<Rightarrow> uchar list \<Rightarrow> ulong \<Rightarrow> page_state \<Rightarrow> (co_rc_value \<times> uchar list \<times> page_state) option" where
  "co_monitor_linuxvm_to_host from_addr to_buf sz st =
     co_monitor_host_linuxvm_copy to_buf from_addr sz CO_MONITOR_TRANSFER_FROM_LINUX st"

section \<open>What the split does\<close>

function page_parts :: "ulong \<Rightarrow> ulong \<Rightarrow> (ulong \<times> ulong) list" where
  "page_parts offset sz =
     (if sz = 0 then []
      else (offset, part_size offset sz) #
             page_parts (offset + part_size offset sz) (sz - part_size offset sz))"
  by pat_completeness auto
termination
proof (relation "measure (\<lambda>(offset, sz). unat sz)", goal_cases)
  case 1
  show ?case by simp
next
  case (2 offset sz)
  then show ?case using part_size_pos [of sz offset] unat_part_size_le [of offset sz]
    by (simp add: unat_rest)
qed

declare page_parts.simps [simp del]

lemma page_parts_0 [simp]: "page_parts offset 0 = []"
  by (simp add: page_parts.simps)

text \<open>The addresses of the bytes of a part, or of an area.\<close>

definition area :: "ulong \<times> ulong \<Rightarrow> ulong list" where
  "area = (\<lambda>(a, n). map (\<lambda>i. a + word_of_nat i) [0..<unat n])"

lemma area_split:
  assumes "unat m \<le> unat n"
  shows "area (a, n) = area (a, m) @ area (a + m, n - m)"
proof -
  have "[0..<unat n] = [0..<unat m] @ map (\<lambda>i. i + unat m) [0..<unat (n - m)]"
    using assms by (simp add: unat_diff_small map_add_upt upt_add_eq_append [symmetric])
      (metis le_add_diff_inverse upt_add_eq_append zero_le)
  then show ?thesis by (simp add: area_def o_def algebra_simps)
qed

lemma page_parts_cover: "concat (map area (page_parts a n)) = area (a, n)"
proof (induction a n rule: page_parts.induct)
  case (1 a n)
  show ?case
  proof (cases "n = 0")
    case True
    then show ?thesis by (simp add: area_def)
  next
    case False
    then show ?thesis
      using 1 area_split [OF unat_part_size_le [of a n], of a] by (simp add: page_parts.simps [of a n])
  qed
qed

lemma page_parts_inside: "list_all (\<lambda>(a, n). 0 < n \<and> in_page a + unat n \<le> 4096) (page_parts a n)"
proof (induction a n rule: page_parts.induct)
  case (1 a n)
  then show ?case using part_in_page [of a n] part_size_pos [of n a]
    by (cases "n = 0") (auto simp: page_parts.simps [of a n] word_greater_zero_iff unat_gt_0)
qed

lemma split_0 [simp]: "co_split_by_pages_and_callback a 0 func s = Some (CO_RC_OK, s)"
  by (simp add: co_split_by_pages_and_callback.simps)

lemma split_log:
  "co_split_by_pages_and_callback a n (\<lambda>a n log. Some (CO_RC_OK, log @ [(a, n)])) log =
     Some (CO_RC_OK, log @ page_parts a n)"
proof (induction a n arbitrary: log rule: page_parts.induct)
  case (1 a n)
  then show ?case
    by (cases "n = 0")
      (simp_all add: page_parts.simps [of a n] co_split_by_pages_and_callback.simps [of a n] CO_OK_def Let_def)
qed

text \<open>
  C38: The loop that splits an area of guest memory into pages ends for every address and size, its
  parts are the bytes of the area in their order, each exactly once, and no part is empty or
  crosses the end of a page.
\<close>

theorem co_split_covers:
  "\<exists>parts. co_split_by_pages_and_callback address sz (\<lambda>a n log. Some (CO_RC_OK, log @ [(a, n)])) [] =
      Some (CO_RC_OK, parts) \<and>
    concat (map area parts) = area (address, sz) \<and>
    list_all (\<lambda>(a, n). 0 < n \<and> in_page a + unat n \<le> 4096) parts"
  by (intro exI [of _ "page_parts address sz"] conjI page_parts_cover page_parts_inside)
    (simp add: split_log)

end
