(* ===== verification/Page_Invariant.thy ===== *)
theory Page_Invariant
  imports Co_Pages "HOL-Library.Multiset"
begin

unbundle bit_operations_syntax

text \<open>
  What every operation on the memory of the guest keeps: the contract of a callback of the page
  split as a locale, interpreted on the callbacks of \<open>pages.c\<close>, and the invariant that no page of the
  host is lost or used twice, operation by operation.
\<close>

section \<open>The contract of a split callback\<close>

text \<open>What the clients of the split promise: when there are data for \<open>n\<close> bytes (\<open>ok\<close>) the callback
  returns on a part that lies in its page, its effect is in the relation \<open>rel\<close>, and after a
  success there are data for the bytes that are left.\<close>

locale split_callback =
  fixes func :: "ulong \<Rightarrow> ulong \<Rightarrow> 's \<Rightarrow> (co_rc_value \<times> 's) option"
    and ok :: "'s \<Rightarrow> nat \<Rightarrow> bool"
    and rel :: "'s \<Rightarrow> 's \<Rightarrow> bool"
  assumes rel_refl: "ok s n \<Longrightarrow> rel s s"
    and rel_trans: "rel s s' \<Longrightarrow> rel s' s'' \<Longrightarrow> rel s s''"
    and part: "ok s n \<Longrightarrow> 0 < unat p \<Longrightarrow> unat p \<le> n \<Longrightarrow> in_page a + unat p \<le> 4096 \<Longrightarrow>
      \<exists>rc s'. func a p s = Some (rc, s') \<and> rel s s' \<and> (CO_OK rc \<longrightarrow> ok s' (n - unat p))"
begin

lemma split_total:
  "ok s (unat n) \<Longrightarrow>
    \<exists>rc s'. co_split_by_pages_and_callback a n func s = Some (rc, s') \<and> rel s s'"
proof (induction a n arbitrary: s rule: page_parts.induct)
  case (1 a n)
  show ?case
  proof (cases "n = 0")
    case True
    then show ?thesis using rel_refl [OF "1.prems"] by simp
  next
    case False
    let ?p = "part_size a n"
    obtain rc s' where step: "func a ?p s = Some (rc, s')" "rel s s'" "CO_OK rc \<longrightarrow> ok s' (unat n - unat ?p)"
      using part [OF "1.prems" part_size_pos [OF False] unat_part_size_le part_in_page] by blast
    show ?thesis
    proof (cases "CO_OK rc")
      case True
      then have "ok s' (unat (n - ?p))" using step(3) by (simp add: unat_rest)
      then obtain rc' s'' where
        "co_split_by_pages_and_callback (a + ?p) (n - ?p) func s' = Some (rc', s'')" "rel s' s''"
        using "1.IH" [OF False] by blast
      then show ?thesis
        using False step True rel_trans [OF step(2)]
        by (simp add: co_split_by_pages_and_callback.simps [of a n] Let_def)
    next
      case err: False
      then show ?thesis
        using False step by (simp add: co_split_by_pages_and_callback.simps [of a n] Let_def)
    qed
  qed
qed
end

section \<open>The invariant of the page tables\<close>

text \<open>The pages of the host that the guest has, that the host will hand out, and that it got back.\<close>

definition offered :: "page_state \<Rightarrow> ulong list" where
  "offered st = List.map_filter id (page_answers st)"

definition held :: "page_state \<Rightarrow> ulong multiset" where
  "held st = mset (used_pfns (pp_pfns st)) + mset (offered st) + mset (put_pages st)"

text \<open>The table has 1024 groups of 1024 entries, no page of the host is used twice, and the host
  hands out pages that it has.\<close>

definition pages_inv :: "page_state \<Rightarrow> bool" where
  "pages_inv st \<longleftrightarrow>
     length (pp_pfns st) = 1024 \<and>
     (\<forall>ps. Some ps \<in> set (pp_pfns st) \<longrightarrow> length ps = 1024) \<and>
     distinct (used_pfns (pp_pfns st) @ offered st @ reversed_map_pfns st) \<and>
     (\<forall>p \<in> set (offered st). p \<noteq> 0 \<and> p < hostmem_pages st) \<and>
     length (reversed_map_pfns st) = unat (reversed_page_count st)"

text \<open>What every operation keeps: the invariant, the pages the host ever handed out, the groups
  that exist and the constants of the state.\<close>

definition keeps :: "page_state \<Rightarrow> page_state \<Rightarrow> bool" where
  "keeps st st' \<longleftrightarrow> pages_inv st' \<and> held st' = held st \<and>
     (\<forall>g. pp_pfns st ! g \<noteq> None \<longrightarrow> pp_pfns st' ! g \<noteq> None) \<and>
     reversed_map_pfns st' = reversed_map_pfns st \<and> reversed_page_count st' = reversed_page_count st \<and>
     hostmem_pages st' = hostmem_pages st \<and> end_physical st' = end_physical st"

lemma keeps_refl: "pages_inv st \<Longrightarrow> keeps st st"
  by (simp add: keeps_def)

lemma keeps_trans [trans]: "keeps st st' \<Longrightarrow> keeps st' st'' \<Longrightarrow> keeps st st''"
  by (simp add: keeps_def)

lemma keeps_inv: "keeps st st' \<Longrightarrow> pages_inv st'"
  by (simp add: keeps_def)

lemma keeps_group: "keeps st st' \<Longrightarrow> pp_pfns st ! g \<noteq> None \<Longrightarrow> pp_pfns st' ! g \<noteq> None"
  by (simp add: keeps_def)

text \<open>Only the table and the lists of pages matter for it.\<close>

lemma keeps_frame: "keeps st (st'\<lparr>frame := f\<rparr>) = keeps st st'"
  by (simp add: keeps_def pages_inv_def held_def offered_def)

lemma page_write_keeps:
  "pages_inv st \<Longrightarrow> off + length bs \<le> 4096 \<Longrightarrow>
    \<exists>st'. page_write pfn off bs st = Some st' \<and> keeps st st' \<and> pp_pfns st' = pp_pfns st"
  by (auto simp: page_write_def keeps_frame keeps_refl)

lemma group_used:
  assumes "g < length pp" and "pp ! g = Some ps" and "i < length ps"
  shows "mset (used_pfns (pp[g := Some (ps[i := p])])) + mset (if ps ! i = 0 then [] else [ps ! i]) =
         mset (used_pfns pp) + mset (if p = 0 then [] else [p])"
proof -
  have pp: "pp = take g pp @ Some ps # drop (Suc g) pp"
    using assms(1,2) id_take_nth_drop by fastforce
  have ps: "ps = take i ps @ ps ! i # drop (Suc i) ps" by (rule id_take_nth_drop [OF assms(3)])
  have upd: "ps[i := p] = take i ps @ p # drop (Suc i) ps" "pp[g := x] = take g pp @ x # drop (Suc g) pp" for x
    using assms(1,3) by (simp_all add: upd_conv_take_nth_drop)
  have fps: "filter (\<lambda>p. p \<noteq> 0) ps =
      filter (\<lambda>p. p \<noteq> 0) (take i ps) @ filter (\<lambda>p. p \<noteq> 0) [ps ! i] @ filter (\<lambda>p. p \<noteq> 0) (drop (Suc i) ps)"
    by (subst ps) simp
  have "used_pfns pp = used_pfns (take g pp) @ filter (\<lambda>p. p \<noteq> 0) ps @ used_pfns (drop (Suc g) pp)"
    by (subst pp) (simp add: used_pfns_def)
  moreover have "used_pfns (pp[g := Some (ps[i := p])]) =
      used_pfns (take g pp) @ filter (\<lambda>p. p \<noteq> 0) (take i ps @ p # drop (Suc i) ps) @ used_pfns (drop (Suc g) pp)"
    by (simp add: upd used_pfns_def)
  ultimately show ?thesis by (simp add: fps ac_simps)
qed

lemma used_new_group:
  assumes "g < length pp" and "pp ! g = None"
  shows "used_pfns (pp[g := Some (replicate n 0)]) = used_pfns pp"
proof -
  have "pp = take g pp @ None # drop (Suc g) pp"
    using assms id_take_nth_drop by fastforce
  then have "used_pfns pp = used_pfns (take g pp) @ used_pfns (drop (Suc g) pp)"
    by (metis (no_types, lifting) append_self_conv2 concat.simps(2) concat_append list.simps(9) map_append
        option.case(1) used_pfns_def)
  then show ?thesis
    using assms(1) by (simp add: used_pfns_def upd_conv_take_nth_drop)
qed

text \<open>The states after the host's allocators have answered.\<close>

lemma malloc_answer_keeps: "pages_inv st \<Longrightarrow> co_os_malloc_answer st = (b, st') \<Longrightarrow> keeps st st' \<and> pp_pfns st' = pp_pfns st"
  by (auto simp: co_os_malloc_answer_def keeps_def pages_inv_def held_def offered_def split: list.splits)

lemma group_len:
  "pages_inv st \<Longrightarrow> pp_pfns st ! g = Some ps \<Longrightarrow> g < 1024 \<Longrightarrow> length ps = 1024"
  by (metis nth_mem pages_inv_def)

lemma alloc_group_keeps:
  assumes inv: "pages_inv st" and run: "alloc_group a st = (b, st')"
  shows "keeps st st' \<and> (b \<longrightarrow> pp_pfns st' ! pfn_group a \<noteq> None)"
proof (cases "pp_pfns st ! pfn_group a")
  case (Some ps)
  then show ?thesis using run inv by (auto simp: alloc_group_def keeps_refl)
next
  case None
  obtain c st1 where ans: "co_os_malloc_answer st = (c, st1)" by (cases "co_os_malloc_answer st")
  note k1 = malloc_answer_keeps [OF inv ans]
  show ?thesis
  proof (cases c)
    case False
    then show ?thesis using run None ans k1 by (simp add: alloc_group_def)
  next
    case True
    let ?pp = "(pp_pfns st)[pfn_group a := Some (replicate 1024 (0 :: ulong))]"
    have st': "st' = st1\<lparr>pp_pfns := ?pp\<rparr>" "b"
      using run None ans k1 True by (auto simp: alloc_group_def PTRS_PER_PTE_def)
    have len: "pfn_group a < length (pp_pfns st)" using inv by (simp add: pages_inv_def)
    have used: "used_pfns ?pp = used_pfns (pp_pfns st)" by (rule used_new_group [OF len None])
    have groups: "length ps = 1024" if "Some ps \<in> set ?pp" for ps
      using that inv set_update_subset_insert by (fastforce simp: pages_inv_def)
    have inv1: "pages_inv st1" and pp1: "pp_pfns st1 = pp_pfns st" using k1 by (simp_all add: keeps_def)
    have "pages_inv (st1\<lparr>pp_pfns := ?pp\<rparr>)"
      using inv1 pp1 used groups by (simp add: pages_inv_def offered_def)
    moreover have "held (st1\<lparr>pp_pfns := ?pp\<rparr>) = held st1"
      using pp1 used by (simp add: held_def offered_def)
    ultimately show ?thesis
      using st' k1 len by (auto simp: keeps_def nth_list_update split: if_splits)
  qed
qed

text \<open>A page for an entry that has none.\<close>

lemma get_page_offered:
  assumes inv: "pages_inv st" and run: "co_manager_get_page st = (r, st')"
  shows "case r of Inl rc \<Rightarrow> keeps st st' \<and> pp_pfns st' = pp_pfns st \<and> \<not> CO_OK rc
    | Inr p \<Rightarrow> p \<noteq> 0 \<and> p < hostmem_pages st \<and> offered st = p # offered st' \<and>
        st' = st\<lparr>page_answers := page_answers st'\<rparr>"
proof (cases "page_answers st")
  case Nil
  then show ?thesis
    using run inv by (auto simp: co_manager_get_page_def co_os_get_page_def keeps_refl CO_OK_def)
next
  case (Cons ans as)
  show ?thesis
  proof (cases ans)
    case None
    then show ?thesis
      using Cons run inv
      by (auto simp: co_manager_get_page_def co_os_get_page_def keeps_def pages_inv_def held_def offered_def
          map_filter_simps CO_OK_def)
  next
    case (Some p)
    have "offered st = p # offered (st\<lparr>page_answers := as\<rparr>)"
      using Cons Some by (simp add: offered_def map_filter_simps)
    moreover from this have "p \<noteq> 0" "p < hostmem_pages st" using inv by (simp_all add: pages_inv_def)
    moreover from this have "\<not> hostmem_pages st \<le> p" by simp
    ultimately show ?thesis
      using Cons Some run by (auto simp: co_manager_get_page_def co_os_get_page_def)
  qed
qed


lemma set_pfn_keeps:
  assumes inv: "pages_inv st" and ans: "offered st = p # offered st'" "st' = st\<lparr>page_answers := page_answers st'\<rparr>"
    and grp: "pp_pfns st ! pfn_group a = Some ps" and empty: "ps ! pfn_index a = 0" and p: "p \<noteq> 0"
  shows "keeps st (set_pfn a p st')"
proof -
  let ?pp = "(pp_pfns st)[pfn_group a := Some (ps[pfn_index a := p])]"
  have pp': "pp_pfns st' = pp_pfns st" using ans(2) by (metis page_state.ext_inject page_state.surjective page_state.update_convs(9))
  have set': "set_pfn a p st' = st'\<lparr>pp_pfns := ?pp\<rparr>" using pp' grp by (simp add: set_pfn_def)
  have g: "pfn_group a < length (pp_pfns st)" using inv by (simp add: pages_inv_def)
  have i: "pfn_index a < length ps" using group_len [OF inv grp] by simp
  have used: "mset (used_pfns ?pp) = add_mset p (mset (used_pfns (pp_pfns st)))"
    using group_used [OF g grp i, of p] empty p by simp
  have "distinct (used_pfns ?pp @ offered st' @ reversed_map_pfns st) =
        distinct (used_pfns (pp_pfns st) @ offered st @ reversed_map_pfns st)"
    by (rule mset_eq_imp_distinct_iff) (simp add: used ans(1))
  moreover have "length qs = 1024" if "Some qs \<in> set ?pp" for qs
    using that inv group_len [OF inv grp] set_update_subset_insert by (fastforce simp: pages_inv_def)
  ultimately have "pages_inv (st\<lparr>page_answers := page_answers st', pp_pfns := ?pp\<rparr>)"
    using inv ans(1) by (simp add: pages_inv_def offered_def)
  moreover have "held (st\<lparr>page_answers := page_answers st', pp_pfns := ?pp\<rparr>) = held st"
    using used ans(1) by (simp add: held_def offered_def)
  ultimately have "keeps st (st\<lparr>page_answers := page_answers st', pp_pfns := ?pp\<rparr>)"
    using g by (auto simp: keeps_def nth_list_update split: if_splits)
  then show ?thesis using ans(2) set' by (metis page_state.update_convs(9))
qed

text \<open>The scan: every callback that writes inside its part keeps the invariant.\<close>

definition writes_part :: "'d scan_callback \<Rightarrow> ('d \<times> page_state \<Rightarrow> nat \<Rightarrow> bool) \<Rightarrow> bool" where
  "writes_part f ok \<longleftrightarrow> (\<forall>pfn off p n d st. pages_inv st \<longrightarrow> ok (d, st) n \<longrightarrow> 0 < unat p \<longrightarrow> unat p \<le> n \<longrightarrow>
     off + unat p \<le> 4096 \<longrightarrow>
     (\<exists>d' st'. f pfn off p (d, st) = Some (CO_RC_OK, d', st') \<and> keeps st st' \<and> pp_pfns st' = pp_pfns st \<and>
        ok (d', st') (n - unat p)))"

lemma scan_step:
  assumes inv: "pages_inv st" and data: "ok (d, st) n" and p: "0 < unat p" "unat p \<le> n" "in_page a + unat p \<le> 4096"
    and func: "\<And>f. func = Some f \<Longrightarrow> writes_part f ok" "func = None \<Longrightarrow> ok = (\<lambda>s n. True)"
    and grow: "\<And>d st st' n. keeps st st' \<Longrightarrow> ok (d, st) n \<Longrightarrow> ok (d, st') n"
  shows "\<exists>rc d' st'. scan_pfns_split_callback func True a p (d, st) = Some (rc, d', st') \<and> keeps st st' \<and>
    (CO_OK rc \<longrightarrow> ok (d', st') (n - unat p) \<and> pp_pfns st' ! pfn_group a \<noteq> None)"
proof -
  obtain b st1 where grp: "alloc_group a st = (b, st1)" by (cases "alloc_group a st")
  note k1 = alloc_group_keeps [OF inv grp]
  show ?thesis
  proof (cases b)
    case False
    then show ?thesis using grp k1 by (simp add: scan_pfns_split_callback_def CO_OK_def)
  next
    case True
    then obtain ps where ps: "pp_pfns st1 ! pfn_group a = Some ps" using k1 by auto
    have inv1: "pages_inv st1" using k1 keeps_inv by blast
    \<comment> \<open>the page behind the part, and the state then\<close>
    have "\<exists>st2 got. (if ps ! pfn_index a = 0
        then case co_manager_get_page st1 of (Inl rc, st) \<Rightarrow> (Inl rc, st)
             | (Inr pfn, st) \<Rightarrow> (Inr pfn, set_pfn a pfn st)
        else (Inr (ps ! pfn_index a), st1)) = (got, st2) \<and> keeps st1 st2 \<and> (\<forall>rc. got = Inl rc \<longrightarrow> \<not> CO_OK rc)"
    proof (cases "ps ! pfn_index a = 0")
      case True
      obtain r st2 where get: "co_manager_get_page st1 = (r, st2)" by (cases "co_manager_get_page st1")
      then show ?thesis
        using True get_page_offered [OF inv1 get] set_pfn_keeps [OF inv1 _ _ ps True]
        by (cases r) auto
    next
      case False
      then show ?thesis using keeps_refl [OF inv1] by auto
    qed
    then obtain st2 got where got: "(if ps ! pfn_index a = 0
        then case co_manager_get_page st1 of (Inl rc, st) \<Rightarrow> (Inl rc, st)
             | (Inr pfn, st) \<Rightarrow> (Inr pfn, set_pfn a pfn st)
        else (Inr (ps ! pfn_index a), st1)) = (got, st2)" "keeps st1 st2" "\<forall>rc. got = Inl rc \<longrightarrow> \<not> CO_OK rc"
      by blast
    have k2: "keeps st st2" using keeps_trans k1 got(2) by blast
    have some2: "pp_pfns st2 ! pfn_group a \<noteq> None" using keeps_group [OF got(2)] ps by simp
    have grp': "alloc_group a st = (True, st1)" using grp True by simp
    have scan: "scan_pfns_split_callback func True a p (d, st) =
        (case got of Inl rc \<Rightarrow> Some (rc, d, st2)
         | Inr pfn \<Rightarrow> (case func of None \<Rightarrow> Some (CO_RC_OK, d, st2)
             | Some f \<Rightarrow> map_option (\<lambda>(rc, d, st). (CO_RC_OK, d, st)) (f pfn (in_page a) p (d, st2))))"
      by (simp only: scan_pfns_split_callback_def grp' ps Let_def case_prod_conv bool.case option.sel got(1)
          not_True_eq_False if_False)
    show ?thesis
    proof (cases got)
      case (Inl rc)
      then show ?thesis
        unfolding scan using got(3) k2 by simp
    next
      case (Inr pfn)
      show ?thesis
      proof (cases func)
        case None
        then show ?thesis
          unfolding scan using None Inr k2 some2 func(2) by (simp add: CO_OK_def)
      next
        case (Some f)
        obtain d' st3 where "f pfn (in_page a) p (d, st2) = Some (CO_RC_OK, d', st3)" "keeps st2 st3"
            "pp_pfns st3 = pp_pfns st2" "ok (d', st3) (n - unat p)"
          using func(1) [OF Some] keeps_inv [OF k2] grow [OF k2 data] p unfolding writes_part_def by blast
        then show ?thesis
          unfolding scan using Some Inr keeps_trans [OF k2] some2 by simp
      qed
    qed
  qed
qed

text \<open>The callbacks of the code, and the data they need.\<close>

definition bytes_left :: "uchar list \<times> page_state \<Rightarrow> nat \<Rightarrow> bool" where
  "bytes_left = (\<lambda>(d, st) n. n \<le> length d)"

definition ptes_left :: "pfn_source \<times> page_state \<Rightarrow> nat \<Rightarrow> bool" where
  "ptes_left = (\<lambda>(d, st) n. case d of
       Pfn_buffer pfns \<Rightarrow> n div 4 \<le> length pfns
     | Pfn_group g i \<Rightarrow> pp_pfns st ! g \<noteq> None \<and> g < 1024 \<and> i + n div 4 \<le> 1024)"

lemma copy_writes: "writes_part copy_callback bytes_left"
  unfolding writes_part_def
proof (intro allI impI)
  fix pfn off p n d st
  assume "pages_inv st" "bytes_left (d, st) n" "0 < unat (p :: ulong)" "unat p \<le> n" "off + unat p \<le> 4096"
  then show "\<exists>d' st'. copy_callback pfn off p (d, st) = Some (CO_RC_OK, d', st') \<and> keeps st st' \<and>
      pp_pfns st' = pp_pfns st \<and> bytes_left (d', st') (n - unat p)"
    using page_write_keeps [of st off "take (unat p) d" pfn]
    by (auto simp: copy_callback_def bytes_left_def)
qed

lemma length_le_bytes [simp]: "length (concat (map (le_bytes \<circ> f) xs)) = 4 * length xs"
  by (induction xs) (simp_all add: le_bytes_def)

lemma div4_rest: "(p :: nat) \<le> n \<Longrightarrow> p div 4 + (n - p) div 4 \<le> n div 4"
proof -
  assume "p \<le> n"
  then have "(p div 4 + (n - p) div 4) * 4 \<le> n"
    using add_mono [OF div_times_less_eq_dividend [of p 4] div_times_less_eq_dividend [of "n - p" 4]]
    unfolding add_mult_distrib by simp
  then show ?thesis by (simp add: less_eq_div_iff_mult_less_eq)
qed

lemma ptes_write: "writes_part create_ptes_callback ptes_left"
  unfolding writes_part_def
proof (intro allI impI)
  fix pfn off p n d st
  assume inv: "pages_inv st" and data: "ptes_left (d, st) n" and p: "0 < unat (p :: ulong)" "unat p \<le> n" "off + unat p \<le> 4096"
  have enough: "n div 4 \<le> length (pfns_left d st)"
    using data group_len [OF inv] by (cases d) (auto simp: ptes_left_def)
  then have k: "unat p div 4 \<le> length (pfns_left d st)" using div4_rest [OF p(2)] by linarith
  have rest: "ptes_left (pfns_advance (unat p div 4) d, st) (n - unat p)"
    using data div4_rest [OF p(2)] by (cases d) (auto simp: ptes_left_def)
  obtain st' where st': "page_write pfn off (concat (map (le_bytes \<circ> pte_of) (take (unat p div 4) (pfns_left d st)))) st = Some st'"
      "keeps st st'" "pp_pfns st' = pp_pfns st"
    using page_write_keeps [OF inv, of off "concat (map (le_bytes \<circ> pte_of) (take (unat p div 4) (pfns_left d st)))" pfn]
      p(3) k div_times_less_eq_dividend [of "unat p" 4] by auto
  moreover have "ptes_left (pfns_advance (unat p div 4) d, st') (n - unat p)"
    using rest st'(3) by (auto simp: ptes_left_def split: pfn_source.splits)
  ultimately show "\<exists>d' st'. create_ptes_callback pfn off p (d, st) = Some (CO_RC_OK, d', st') \<and> keeps st st' \<and>
      pp_pfns st' = pp_pfns st \<and> ptes_left (d', st') (n - unat p)"
    using k by (simp add: create_ptes_callback_def Let_def)
qed

abbreviation part_ok :: "('d \<times> page_state \<Rightarrow> nat \<Rightarrow> bool) \<Rightarrow> 'd \<times> page_state \<Rightarrow> nat \<Rightarrow> bool" where
  "part_ok ok s n \<equiv> pages_inv (snd s) \<and> ok s n"

abbreviation part_rel :: "'d \<times> page_state \<Rightarrow> 'd \<times> page_state \<Rightarrow> bool" where
  "part_rel s s' \<equiv> keeps (snd s) (snd s')"

lemma scan_callback_contract:
  assumes "\<And>f. func = Some f \<Longrightarrow> writes_part f ok" "func = None \<Longrightarrow> ok = (\<lambda>s n. True)"
    and "\<And>d st st' n. keeps st st' \<Longrightarrow> ok (d, st) n \<Longrightarrow> ok (d, st') n"
  shows "split_callback (scan_pfns_split_callback func True) (part_ok ok) part_rel"
proof
  fix s :: "'a \<times> page_state" and n
  assume "part_ok ok s n"
  then show "part_rel s s" by (simp add: keeps_refl)
next
  fix s s' s'' :: "'a \<times> page_state"
  assume "part_rel s s'" "part_rel s' s''"
  then show "part_rel s s''" by (rule keeps_trans)
next
  fix s :: "'a \<times> page_state" and n and p a :: ulong
  assume ok: "part_ok ok s n" and p: "0 < unat p" "unat p \<le> n" "in_page a + unat p \<le> 4096"
  obtain d st where s: "s = (d, st)" by (cases s)
  show "\<exists>rc s'. scan_pfns_split_callback func True a p s = Some (rc, s') \<and> part_rel s s' \<and>
      (CO_OK rc \<longrightarrow> part_ok ok s' (n - unat p))"
    using scan_step [of st ok d n p a func] ok p assms unfolding s by (auto dest: keeps_inv)
qed

lemma bytes_left_grow: "keeps st st' \<Longrightarrow> bytes_left (d, st) n \<Longrightarrow> bytes_left (d, st') n"
  by (simp add: bytes_left_def)

lemma ptes_left_grow: "keeps st st' \<Longrightarrow> ptes_left (d, st) n \<Longrightarrow> ptes_left (d, st') n"
  by (cases d) (simp_all add: ptes_left_def keeps_def)

interpretation copy_scan: split_callback "scan_pfns_split_callback (Some copy_callback) True"
    "part_ok bytes_left" part_rel
  by (rule scan_callback_contract) (auto simp: copy_writes elim: bytes_left_grow)

interpretation ptes_scan: split_callback "scan_pfns_split_callback (Some create_ptes_callback) True"
    "part_ok ptes_left" part_rel
  by (rule scan_callback_contract) (auto simp: ptes_write elim: ptes_left_grow)

interpretation plain_scan: split_callback "scan_pfns_split_callback (None :: unit scan_callback option) True"
    "part_ok (\<lambda>s n. True)" part_rel
  by (rule scan_callback_contract) auto

lemma copy_pfns_keeps:
  assumes "pages_inv st" and "unat sz \<le> length source"
  shows "\<exists>rc st'. co_monitor_copy_and_create_pfns a sz source st = Some (rc, st') \<and> keeps st st'"
  using copy_scan.split_total [of "(source, st)" sz a] assms
  by (auto simp: co_monitor_copy_and_create_pfns_def co_manager_scan_pfns_and_callback_def bytes_left_def)

lemma create_ptes_keeps:
  assumes "pages_inv st" and "ptes_left (d, st) (unat sz)"
  shows "\<exists>rc st'. co_monitor_create_ptes a sz d st = Some (rc, st') \<and> keeps st st'"
  using ptes_scan.split_total [of "(d, st)" sz a] assms
  by (auto simp: co_monitor_create_ptes_def co_manager_scan_pfns_and_callback_def)

lemma scan_pfns_keeps:
  assumes "pages_inv st"
  shows "\<exists>rc st'. co_monitor_scan_and_create_pfns a sz st = Some (rc, st') \<and> keeps st st'"
  using plain_scan.split_total [where s = "((), st)" and n = sz and a = a] assms
  by (auto simp: co_monitor_scan_and_create_pfns_def co_manager_scan_pfns_and_callback_def)

text \<open>The reversed map has an entry for every page number below its size.\<close>

lemma set_reversed_keeps:
  assumes "pages_inv st"
  shows "\<exists>rc st'. co_manager_set_reversed_pfn p v st = Some (rc, st') \<and> keeps st st' \<and> pp_pfns st' = pp_pfns st"
proof (cases "reversed_page_count st \<le> p div PTRS_PER_PTE")
  case True
  then show ?thesis using assms by (simp add: co_manager_set_reversed_pfn_def keeps_refl)
next
  case False
  have "unat (p mod PTRS_PER_PTE) < 1024" by (simp add: PTRS_PER_PTE_def unat_mod)
  then have "4 * unat (p mod PTRS_PER_PTE) + length (le_bytes v) \<le> 4096" by (simp add: le_bytes_def)
  from page_write_keeps [OF assms this] show ?thesis
    using False by (auto simp: co_manager_set_reversed_pfn_def Let_def)
qed

lemma alloc_and_map_keeps:
  assumes inv: "pages_inv st"
  shows "\<exists>rc st'. co_monitor_alloc_and_map_page a st = Some (rc, st') \<and> keeps st st' \<and>
    (CO_OK rc \<longrightarrow> pp_pfns st' ! pfn_group a \<noteq> None)"
proof -
  obtain b st1 where grp: "alloc_group a st = (b, st1)" by (cases "alloc_group a st")
  note k1 = alloc_group_keeps [OF inv grp]
  have inv1: "pages_inv st1" using k1 keeps_inv by blast
  show ?thesis
  proof (cases b)
    case False
    then show ?thesis using grp k1 by (simp add: co_monitor_alloc_and_map_page_def CO_OK_def)
  next
    case True
    then obtain ps where ps: "pp_pfns st1 ! pfn_group a = Some ps" using k1 by auto
    have grp': "alloc_group a st = (True, st1)" using grp True by simp
    show ?thesis
    proof (cases "ps ! pfn_index a = 0")
      case False
      then show ?thesis using grp' ps k1 by (simp add: co_monitor_alloc_and_map_page_def)
    next
      case empty: True
      obtain r st2 where get: "co_manager_get_page st1 = (r, st2)" by (cases "co_manager_get_page st1")
      note got = get_page_offered [OF inv1 get]
      show ?thesis
      proof (cases r)
        case (Inl rc)
        then show ?thesis
          using got grp' ps empty get keeps_trans [of st st1 st2] k1
          by (simp add: co_monitor_alloc_and_map_page_def)
      next
        case (Inr p)
        let ?st3 = "set_pfn a p st2"
        have k3: "keeps st ?st3"
          using Inr got set_pfn_keeps [OF inv1 _ _ ps empty] k1 keeps_trans by auto
        obtain rc st4 where rev: "co_manager_set_reversed_pfn p (virtual_pfn a) ?st3 = Some (rc, st4)" "keeps ?st3 st4"
          using set_reversed_keeps [OF keeps_inv [OF k3]] by blast
        have k4: "keeps st st4" using keeps_trans [OF k3 rev(2)] .
        obtain rc' st5 where ptes: "co_monitor_create_ptes (pte_address a) 4 (Pfn_buffer [p]) st4 = Some (rc', st5)"
            "keeps st4 st5"
          using create_ptes_keeps [OF keeps_inv [OF k4], of "Pfn_buffer [p]" 4 "pte_address a"]
          by (auto simp: ptes_left_def)
        have k5: "keeps st st5" using keeps_trans [OF k4 ptes(2)] .
        have "pp_pfns st5 ! pfn_group a \<noteq> None"
        proof -
          have "pp_pfns st1 ! pfn_group a \<noteq> None" using ps by simp
          moreover have "keeps st1 ?st3" using Inr got set_pfn_keeps [OF inv1 _ _ ps empty] by auto
          ultimately show ?thesis using keeps_group keeps_trans rev(2) ptes(2) by blast
        qed
        then show ?thesis
          using Inr grp' ps empty get rev ptes k4 k5
          by (cases "CO_OK rc") (simp_all add: co_monitor_alloc_and_map_page_def and_then_def)
      qed
    qed
  qed
qed

lemma clear_pfn_keeps:
  assumes inv: "pages_inv st" and grp: "pp_pfns st ! pfn_group a = Some ps" and p: "ps ! pfn_index a = p" "p \<noteq> 0"
  shows "keeps st (set_pfn a 0 (co_os_put_page p st))"
proof -
  let ?pp = "(pp_pfns st)[pfn_group a := Some (ps[pfn_index a := 0])]"
  have set': "set_pfn a 0 (co_os_put_page p st) = st\<lparr>put_pages := put_pages st @ [p], pp_pfns := ?pp\<rparr>"
    using grp by (simp add: set_pfn_def co_os_put_page_def)
  have g: "pfn_group a < length (pp_pfns st)" using inv by (simp add: pages_inv_def)
  have i: "pfn_index a < length ps" using group_len [OF inv grp] by simp
  have used: "add_mset p (mset (used_pfns ?pp)) = mset (used_pfns (pp_pfns st))"
    using group_used [OF g grp i, of 0] p by simp
  have "distinct (p # used_pfns ?pp @ offered st @ reversed_map_pfns st) =
        distinct (used_pfns (pp_pfns st) @ offered st @ reversed_map_pfns st)"
    by (rule mset_eq_imp_distinct_iff) (simp add: used [symmetric])
  moreover have "length qs = 1024" if "Some qs \<in> set ?pp" for qs
    using that inv group_len [OF inv grp] set_update_subset_insert by (fastforce simp: pages_inv_def)
  ultimately have "pages_inv (st\<lparr>put_pages := put_pages st @ [p], pp_pfns := ?pp\<rparr>)"
    using inv by (simp add: pages_inv_def offered_def)
  moreover have "held (st\<lparr>put_pages := put_pages st @ [p], pp_pfns := ?pp\<rparr>) = held st"
    by (simp add: held_def offered_def used [symmetric])
  ultimately show ?thesis
    unfolding set' using g by (auto simp: keeps_def nth_list_update split: if_splits)
qed

lemma free_and_unmap_keeps:
  assumes inv: "pages_inv st"
  shows "\<exists>rc st'. co_monitor_free_and_unmap_page a st = Some (rc, st') \<and> keeps st st'"
proof (cases "pp_pfns st ! pfn_group a = None")
  case True
  then show ?thesis using inv by (simp add: co_monitor_free_and_unmap_page_def keeps_refl)
next
  case False
  obtain rc st1 where ptes: "co_monitor_create_ptes (pte_address a) 4 (Pfn_buffer [0]) st = Some (rc, st1)"
      and k1: "keeps st st1"
    using create_ptes_keeps [OF inv, of "Pfn_buffer [0]" 4 "pte_address a"] by (auto simp: ptes_left_def)
  obtain ps where ps: "pp_pfns st1 ! pfn_group a = Some ps" using keeps_group [OF k1 False] by auto
  show ?thesis
  proof (cases "ps ! pfn_index a = 0")
    case True
    then show ?thesis using False ptes k1 ps by (simp add: co_monitor_free_and_unmap_page_def Let_def del: not_None_eq)
  next
    case used: False
    obtain rc2 st2 where rev: "co_manager_set_reversed_pfn (ps ! pfn_index a) 0 st1 = Some (rc2, st2)"
        "keeps st1 st2" "pp_pfns st2 = pp_pfns st1"
      using set_reversed_keeps [OF keeps_inv [OF k1]] by blast
    have "keeps st2 (set_pfn a 0 (co_os_put_page (ps ! pfn_index a) st2))"
      using clear_pfn_keeps [OF keeps_inv [OF rev(2)], of a ps] ps rev(3) used by simp
    then show ?thesis
      using False ptes ps used rev keeps_trans [OF keeps_trans [OF k1 rev(2)]]
      by (simp add: co_monitor_free_and_unmap_page_def Let_def del: not_None_eq)
  qed
qed

text \<open>The copy of a region, whose data may be \<open>NULL\<close>.\<close>

definition region_left :: "uchar list option \<times> page_state \<Rightarrow> nat \<Rightarrow> bool" where
  "region_left = (\<lambda>(d, st) n. case d of None \<Rightarrow> True | Some bs \<Rightarrow> n \<le> length bs)"

interpretation region_copy: split_callback copy_region_split_callback "part_ok region_left" part_rel
proof
  fix s :: "uchar list option \<times> page_state" and n
  assume "part_ok region_left s n"
  then show "part_rel s s" by (simp add: keeps_refl)
next
  fix s s' s'' :: "uchar list option \<times> page_state"
  assume "part_rel s s'" "part_rel s' s''"
  then show "part_rel s s''" by (rule keeps_trans)
next
  fix s :: "uchar list option \<times> page_state" and n and p a :: ulong
  assume ok: "part_ok region_left s n" and p: "0 < unat p" "unat p \<le> n" "in_page a + unat p \<le> 4096"
  obtain d st where s: "s = (d, st)" by (cases s)
  let ?a = "a AND CO_ARCH_PAGE_MASK"
  have inv: "pages_inv st" using ok s by simp
  obtain rc st1 where map: "co_monitor_alloc_and_map_page ?a st = Some (rc, st1)" "keeps st st1"
      "CO_OK rc \<longrightarrow> pp_pfns st1 ! pfn_group ?a \<noteq> None"
    using alloc_and_map_keeps [OF inv] by blast
  show "\<exists>rc s'. copy_region_split_callback a p s = Some (rc, s') \<and> part_rel s s' \<and>
      (CO_OK rc \<longrightarrow> part_ok region_left s' (n - unat p))"
  proof (cases "CO_OK rc")
    case False
    then show ?thesis using map s by (simp add: copy_region_split_callback_def)
  next
    case True
    then obtain ps where ps: "pp_pfns st1 ! pfn_group ?a = Some ps" using map(3) by auto
    then have get: "co_monitor_get_pfn st1 ?a = Inr (ps ! pfn_index ?a)" by (simp add: co_monitor_get_pfn_def)
    have w: "\<exists>st2. page_write (ps ! pfn_index ?a) (in_page a) bs st1 = Some st2 \<and> keeps st st2"
      if "length bs = unat p" for bs
      using page_write_keeps [OF keeps_inv [OF map(2)], of "in_page a" bs] p(3) keeps_trans [OF map(2)] that by auto
    show ?thesis
    proof (cases d)
      case None
      then show ?thesis
        using True map(1) get s w [of "replicate (unat p) 0"]
        by (auto simp: copy_region_split_callback_def region_left_def dest: keeps_inv)
    next
      case (Some bs)
      then have "length (take (unat p) bs) = unat p" "unat p \<le> length bs"
        using ok s p(2) by (simp_all add: region_left_def)
      then show ?thesis
        using True map(1) get s w [of "take (unat p) bs"] Some ok p(2)
        by (auto simp: copy_region_split_callback_def region_left_def dest: keeps_inv)
    qed
  qed
qed

lemma copy_region_keeps:
  assumes "pages_inv st" and "region_left (d, st) (unat sz)"
  shows "\<exists>rc st'. co_monitor_copy_region a sz d st = Some (rc, st') \<and> keeps st st'"
  using region_copy.split_total [of "(d, st)" sz a] assms by (auto simp: co_monitor_copy_region_def)

lemma free_pages_keeps: "pages_inv st \<Longrightarrow> \<exists>st'. co_free_pages a n st = Some st' \<and> keeps st st'"
proof (induction a n st rule: co_free_pages.induct)
  case (1 a st)
  then show ?case by (simp add: keeps_refl)
next
  case (2 a n st)
  obtain rc st1 where "co_monitor_free_and_unmap_page a st = Some (rc, st1)" "keeps st st1"
    using free_and_unmap_keeps [OF "2.prems"] by blast
  then show ?case using "2.IH" keeps_inv keeps_trans by fastforce
qed

lemma alloc_pages_loop_keeps:
  "pages_inv st \<Longrightarrow> \<exists>rc st'. alloc_pages_loop a s i n st = Some (rc, st') \<and> keeps st st'"
proof (induction a s i n st rule: alloc_pages_loop.induct)
  case (1 a s i st)
  then show ?case by (simp add: keeps_refl)
next
  case (2 a s i n st)
  obtain rc st1 where step: "co_monitor_alloc_and_map_page s st = Some (rc, st1)" "keeps st st1"
    using alloc_and_map_keeps [OF "2.prems"] by blast
  have inv1: "pages_inv st1" by (rule keeps_inv [OF step(2)])
  show ?case
  proof (cases "CO_OK rc")
    case True
    then show ?thesis using "2.IH" [OF step(1) refl] inv1 step keeps_trans [OF step(2)] by fastforce
  next
    case False
    then show ?thesis using free_pages_keeps [OF inv1, of a i] step keeps_trans [OF step(2)] by fastforce
  qed
qed

end
