(* ===== verification/Page_Transfer.thy ===== *)
theory Page_Transfer
  imports Page_Invariant
begin

unbundle bit_operations_syntax

text \<open>
  The copies between the host and the guest (\<open>transfer.c\<close>): addresses and pages, the bounds
  check, what a transfer changes, and the runs of page operations that keep the invariant.
\<close>

section \<open>Addresses inside one page\<close>

lemma unat_in_page_add:
  assumes "in_page a + k < 4096"
  shows "unat (a + word_of_nat k) = unat a + k"
proof -
  have "unat a < 4096 * 1048576" using unsigned_less [of a, where ?'a = nat] by simp
  then have "unat a div 4096 < 1048576" by (simp add: less_mult_imp_div_less)
  then have "unat a div 4096 * 4096 + 4096 \<le> 1048576 * 4096" by linarith
  moreover have "unat a = unat a div 4096 * 4096 + in_page a" by (simp add: in_page_mod)
  ultimately have "unat a + k < 2 ^ 32" using assms by simp
  moreover from this have "unat (word_of_nat k :: ulong) = k" by (simp add: unat_of_nat)
  ultimately show ?thesis by (simp add: unat_add_small)
qed

lemma same_page:
  assumes "in_page a + k < 4096"
  shows "in_page (a + word_of_nat k) = in_page a + k"
    and "pfn_group (a + word_of_nat k) = pfn_group a"
    and "pfn_index (a + word_of_nat k) = pfn_index a"
proof -
  have u: "unat (a + word_of_nat k) = unat a div 4096 * 4096 + (in_page a + k)"
    using unat_in_page_add [OF assms] by (simp add: in_page_mod)
  show "in_page (a + word_of_nat k) = in_page a + k"
    unfolding in_page_mod [of "a + word_of_nat k"] u using assms by simp
  have "unat (a + word_of_nat k) div 4096 = unat a div 4096"
    unfolding u using assms by simp
  then show "pfn_group (a + word_of_nat k) = pfn_group a" "pfn_index (a + word_of_nat k) = pfn_index a"
    by (simp_all add: page_group_index)
qed

lemma same_pfn: "in_page a + k < 4096 \<Longrightarrow> co_monitor_get_pfn st (a + word_of_nat k) = co_monitor_get_pfn st a"
  by (simp add: co_monitor_get_pfn_def same_page split: option.split)

text \<open>An address is its group, its entry and the place in the page.\<close>

lemma address_parts:
  assumes "pfn_group a = pfn_group b" and "pfn_index a = pfn_index b" and "in_page a = in_page b"
  shows "a = b"
proof -
  have "unat a = (pfn_group a * 1024 + pfn_index a) * 4096 + in_page a" for a
    by (simp add: page_group_index in_page_mod)
  then have "unat a = unat b" using assms by metis
  then show ?thesis by (simp only: word_unat_eq_iff)
qed

text \<open>Two entries of the table that are in use hold different pages.\<close>

lemma filter_distinct_nth:
  assumes "distinct (filter P xs)" and "i < j" "j < length xs" and "xs ! i = xs ! j" and "P (xs ! j)"
  shows False
proof -
  have "xs ! i = take j xs ! i" "i < length (take j xs)" using assms(2,3) by simp_all
  then have "xs ! i \<in> set (take j xs)" by (metis nth_mem)
  moreover have "filter P xs = filter P (take j xs) @ xs ! j # filter P (drop (Suc j) xs)"
    using id_take_nth_drop [OF assms(3)] assms(5) by (metis filter.simps(2) filter_append)
  ultimately show False using assms(1,4,5) by auto
qed

lemma used_in:
  "h < length pp \<Longrightarrow> pp ! h = Some qs \<Longrightarrow> j < length qs \<Longrightarrow> qs ! j \<noteq> 0 \<Longrightarrow> qs ! j \<in> set (used_pfns pp)"
  by (auto simp: used_pfns_def intro!: bexI [of _ "Some qs"]) (metis nth_mem)

lemma used_split:
  assumes "g < length pp" and "pp ! g = Some ps"
  shows "used_pfns pp = used_pfns (take g pp) @ filter (\<lambda>p. p \<noteq> 0) ps @ used_pfns (drop (Suc g) pp)"
proof -
  have "pp = take g pp @ Some ps # drop (Suc g) pp" using assms id_take_nth_drop by fastforce
  then show ?thesis
    by (metis (no_types, lifting) concat.simps(2) concat_append list.simps(9) map_append option.case(2) used_pfns_def)
qed

lemma used_pfns_inj:
  assumes dist: "distinct (used_pfns pp)" and g: "g < length pp" "pp ! g = Some ps" "i < length ps"
    and h: "h < length pp" "pp ! h = Some qs" "j < length qs" and same: "ps ! i = qs ! j" "ps ! i \<noteq> 0"
  shows "g = h \<and> i = j"
proof -
  have in_g: "ps ! i \<in> set (filter (\<lambda>p. p \<noteq> 0) ps)" using g(3) same(2) by simp
  consider "h < g" | "g < h" | "g = h" by linarith
  then show ?thesis
  proof cases
    case 1
    then have "qs ! j \<in> set (used_pfns (take g pp))" using g h same by (intro used_in [of h]) simp_all
    then show ?thesis using dist in_g same unfolding used_split [OF g(1,2)] by auto
  next
    case 2
    then have "qs ! j \<in> set (used_pfns (drop (Suc g) pp))"
      using g h same by (intro used_in [of "h - Suc g"]) simp_all
    then show ?thesis using dist in_g same unfolding used_split [OF g(1,2)] by auto
  next
    case 3
    have "distinct (filter (\<lambda>p. p \<noteq> 0) ps)" using dist unfolding used_split [OF g(1,2)] by simp
    then show ?thesis
      using 3 g h same filter_distinct_nth [of "\<lambda>p. p \<noteq> 0" ps i j] filter_distinct_nth [of "\<lambda>p. p \<noteq> 0" ps j i]
      by (cases i j rule: linorder_cases) auto
  qed
qed

lemma get_pfn_inj:
  assumes inv: "pages_inv st" and "co_monitor_get_pfn st a = Inr p" "co_monitor_get_pfn st b = Inr p" and "p \<noteq> 0"
  shows "pfn_group a = pfn_group b \<and> pfn_index a = pfn_index b"
proof -
  obtain ps qs where "pp_pfns st ! pfn_group a = Some ps" "ps ! pfn_index a = p"
      "pp_pfns st ! pfn_group b = Some qs" "qs ! pfn_index b = p"
    using assms(2,3) by (auto simp: co_monitor_get_pfn_def split: option.splits)
  moreover from this have "length ps = 1024" "length qs = 1024" using group_len [OF inv] by auto
  moreover have "length (pp_pfns st) = 1024" "distinct (used_pfns (pp_pfns st))" using inv by (simp_all add: pages_inv_def)
  ultimately show ?thesis
    using used_pfns_inj [of "pp_pfns st" "pfn_group a" ps "pfn_index a" "pfn_group b" qs "pfn_index b"] assms(4) by auto
qed

section \<open>What a transfer copies\<close>

text \<open>The byte the guest sees at an address.\<close>

definition guest_byte :: "page_state \<Rightarrow> ulong \<Rightarrow> uchar option" where
  "guest_byte st a =
     (case co_monitor_get_pfn st a of Inl rc \<Rightarrow> None | Inr pfn \<Rightarrow> Some (frame st pfn (in_page a)))"

text \<open>Every address of the area has a page.\<close>

definition area_mapped :: "page_state \<Rightarrow> ulong \<Rightarrow> nat \<Rightarrow> bool" where
  "area_mapped st a n \<longleftrightarrow> (\<forall>k < n. \<exists>p. co_monitor_get_pfn st (a + word_of_nat k) = Inr p \<and> p \<noteq> 0)"

text \<open>\<open>st'\<close> is \<open>st\<close> with the bytes \<open>bs\<close> written from address \<open>a\<close> on.\<close>

definition wrote :: "page_state \<Rightarrow> ulong \<Rightarrow> uchar list \<Rightarrow> page_state \<Rightarrow> bool" where
  "wrote st a bs st' \<longleftrightarrow> (\<exists>f. st' = st\<lparr>frame := f\<rparr>) \<and>
     (\<forall>k < length bs. guest_byte st' (a + word_of_nat k) = Some (bs ! k)) \<and>
     (\<forall>p i. (\<forall>k < length bs. co_monitor_get_pfn st (a + word_of_nat k) = Inr p \<longrightarrow> in_page (a + word_of_nat k) \<noteq> i) \<longrightarrow>
        frame st' p i = frame st p i)"

lemma get_pfn_frame [simp]: "co_monitor_get_pfn (st\<lparr>frame := f\<rparr>) = co_monitor_get_pfn st"
  by (simp add: co_monitor_get_pfn_def fun_eq_iff)

lemma pages_inv_frame [simp]: "pages_inv (st\<lparr>frame := f\<rparr>) = pages_inv st"
  by (simp add: pages_inv_def offered_def)

lemma frame_ext: "st\<lparr>frame := f\<rparr>\<lparr>frame := g\<rparr> = st\<lparr>frame := g\<rparr>"
  by simp

lemma write_part:
  assumes map: "co_monitor_get_pfn st a = Inr p" and room: "in_page a + length bs \<le> 4096"
  shows "\<exists>st'. page_write p (in_page a) bs st = Some st' \<and> wrote st a bs st'"
proof -
  let ?f = "(frame st)(p := (\<lambda>i. if in_page a \<le> i \<and> i < in_page a + length bs then bs ! (i - in_page a) else frame st p i))"
  have run: "page_write p (in_page a) bs st = Some (st\<lparr>frame := ?f\<rparr>)" using room by (simp add: page_write_def)
  have here: "in_page (a + word_of_nat k) = in_page a + k" "co_monitor_get_pfn st (a + word_of_nat k) = Inr p"
    if "k < length bs" for k
    using that room map same_page(1) [of a k] same_pfn [of a k st] by auto
  have "wrote st a bs (st\<lparr>frame := ?f\<rparr>)"
    unfolding wrote_def
  proof (intro conjI allI impI)
    show "\<exists>f. st\<lparr>frame := ?f\<rparr> = st\<lparr>frame := f\<rparr>" by blast
  next
    fix k
    assume "k < length bs"
    then show "guest_byte (st\<lparr>frame := ?f\<rparr>) (a + word_of_nat k) = Some (bs ! k)"
      by (simp add: guest_byte_def here)
  next
    fix q i
    assume other: "\<forall>k < length bs. co_monitor_get_pfn st (a + word_of_nat k) = Inr q \<longrightarrow> in_page (a + word_of_nat k) \<noteq> i"
    have "q \<noteq> p \<or> \<not> (in_page a \<le> i \<and> i < in_page a + length bs)"
    proof (rule ccontr)
      assume "\<not> ?thesis"
      then have "q = p" "i - in_page a < length bs" "in_page a + (i - in_page a) = i" by linarith+
      then show False using other here [of "i - in_page a"] by metis
    qed
    then show "frame (st\<lparr>frame := ?f\<rparr>) q i = frame st q i" by auto
  qed
  then show ?thesis using run by blast
qed

text \<open>Places of different addresses do not meet.\<close>

lemma place_inj:
  assumes "pages_inv st" and "co_monitor_get_pfn st a = Inr p" "co_monitor_get_pfn st b = Inr p" "p \<noteq> 0"
    and "in_page a = in_page b"
  shows "a = b"
  using get_pfn_inj [OF assms(1-4)] assms(5) by (auto intro: address_parts)

lemma wrote_append:
  assumes inv: "pages_inv st" and map: "area_mapped st a (length bs + length cs)" and len: "length bs + length cs < 2 ^ 32"
    and one: "wrote st a bs st1" and two: "wrote st1 (a + word_of_nat (length bs)) cs st2"
  shows "wrote st a (bs @ cs) st2"
proof -
  let ?b = "a + word_of_nat (length bs)"
  obtain f g where st1: "st1 = st\<lparr>frame := f\<rparr>" and st2: "st2 = st1\<lparr>frame := g\<rparr>"
    using one two by (auto simp: wrote_def)
  have shift: "?b + word_of_nat k = a + word_of_nat (length bs + k)" for k by simp
  have far: "a + word_of_nat j \<noteq> a + (word_of_nat k :: ulong)" if "j < k" "k < length bs + length cs" for j k
    using that len by (auto simp: word_of_nat_eq_iff take_bit_nat_eq_self)
  show ?thesis
    unfolding wrote_def
  proof (intro conjI allI impI)
    show "\<exists>f. st2 = st\<lparr>frame := f\<rparr>" using st1 st2 by auto
  next
    fix k
    assume k: "k < length (bs @ cs)"
    show "guest_byte st2 (a + word_of_nat k) = Some ((bs @ cs) ! k)"
    proof (cases "k < length bs")
      case False
      then show ?thesis
        using two k by (auto simp: wrote_def nth_append shift dest: spec [of _ "k - length bs"])
    next
      case True
      obtain p where p: "co_monitor_get_pfn st (a + word_of_nat k) = Inr p" "p \<noteq> 0"
        using map k by (auto simp: area_mapped_def)
      have "frame st2 p (in_page (a + word_of_nat k)) = frame st1 p (in_page (a + word_of_nat k))"
      proof -
        have "in_page (?b + word_of_nat j) \<noteq> in_page (a + word_of_nat k)"
          if "j < length cs" "co_monitor_get_pfn st1 (?b + word_of_nat j) = Inr p" for j
        proof
          assume "in_page (?b + word_of_nat j) = in_page (a + word_of_nat k)"
          then have "?b + word_of_nat j = a + word_of_nat k"
            using place_inj [OF inv _ p(1,2)] that(2) st1 by auto
          then show False using far [of k "length bs + j"] True that(1) shift [of j] by simp
        qed
        then show ?thesis using two by (auto simp: wrote_def)
      qed
      moreover have "guest_byte st1 (a + word_of_nat k) = Some (bs ! k)" using one True by (simp add: wrote_def)
      ultimately show ?thesis using p st1 st2 True by (simp add: guest_byte_def nth_append)
    qed
  next
    fix p i
    assume other: "\<forall>k < length (bs @ cs). co_monitor_get_pfn st (a + word_of_nat k) = Inr p \<longrightarrow>
      in_page (a + word_of_nat k) \<noteq> i"
    have "frame st1 p i = frame st p i" using one other by (simp add: wrote_def)
    moreover have "\<forall>k < length cs. co_monitor_get_pfn st1 (?b + word_of_nat k) = Inr p \<longrightarrow>
        in_page (?b + word_of_nat k) \<noteq> i"
      using other st1 by (simp add: shift del: of_nat_add)
    ultimately show "frame st2 p i = frame st p i" using two by (simp add: wrote_def)
  qed
qed

lemma area_mapped_head: "area_mapped st a (unat n) \<Longrightarrow> n \<noteq> 0 \<Longrightarrow> \<exists>p. co_monitor_get_pfn st a = Inr p \<and> p \<noteq> 0"
  unfolding area_mapped_def by (drule spec [of _ 0]) (simp add: unat_gt_0)

lemma area_mapped_rest:
  assumes "area_mapped st a (unat n)"
  shows "area_mapped (st\<lparr>frame := f\<rparr>) (a + part_size a n) (unat (n - part_size a n))"
  unfolding area_mapped_def
proof (intro allI impI)
  fix k
  assume "k < unat (n - part_size a n)"
  then have "unat (part_size a n) + k < unat n" using unat_part_size_le [of a n] by (simp add: unat_rest)
  then have "\<exists>p. co_monitor_get_pfn st (a + word_of_nat (unat (part_size a n) + k)) = Inr p \<and> p \<noteq> 0"
    using assms unfolding area_mapped_def by blast
  then show "\<exists>p. co_monitor_get_pfn (st\<lparr>frame := f\<rparr>) (a + part_size a n + word_of_nat k) = Inr p \<and> p \<noteq> 0"
    by (simp add: add.assoc)
qed

lemma transfer_0 [simp]: "transfer_loop f a 0 s = Some (CO_RC_OK, s)"
  by (simp add: transfer_loop.simps)

lemma take_drop_part: "m \<le> n \<Longrightarrow> take m (drop p xs) @ take (n - m) (drop (p + m) xs) = take n (drop p xs)"
  by (metis add.commute drop_drop le_add_diff_inverse take_add)

lemma transfer_write:
  assumes "pages_inv st" and "area_mapped st a (unat n)" and "pos + unat n \<le> length buf"
  shows "\<exists>st'. transfer_loop (co_monitor_transfer_memcpy CO_MONITOR_TRANSFER_FROM_HOST) a n ((buf, pos), st) =
      Some (CO_RC_OK, (buf, pos + unat n), st') \<and> wrote st a (take (unat n) (drop pos buf)) st'"
  using assms
proof (induction a n arbitrary: st pos rule: page_parts.induct)
  case (1 a n)
  show ?case
  proof (cases "n = 0")
    case True
    then show ?thesis by (auto simp: wrote_def intro: exI [of _ "frame st"])
  next
    case False
    let ?p = "part_size a n"
    obtain q where q: "co_monitor_get_pfn st a = Inr q" using area_mapped_head [OF "1.prems"(2) False] by blast
    let ?bs = "take (unat ?p) (drop pos buf)"
    have le: "unat ?p \<le> unat n" by (rule unat_part_size_le)
    have len: "length ?bs = unat ?p" using "1.prems"(3) le by simp
    obtain st1 where st1: "page_write q (in_page a) ?bs st = Some st1" "wrote st a ?bs st1"
      using write_part [OF q, of ?bs] part_in_page [of a n] len by auto
    obtain f where f: "st1 = st\<lparr>frame := f\<rparr>" using st1(2) by (auto simp: wrote_def)
    have rest: "unat (n - ?p) = unat n - unat ?p" by (rule unat_rest)
    obtain st2 where st2: "transfer_loop (co_monitor_transfer_memcpy CO_MONITOR_TRANSFER_FROM_HOST) (a + ?p) (n - ?p)
          ((buf, pos + unat ?p), st1) = Some (CO_RC_OK, (buf, pos + unat ?p + unat (n - ?p)), st2)"
        "wrote st1 (a + ?p) (take (unat (n - ?p)) (drop (pos + unat ?p) buf)) st2"
      using "1.IH" [OF False, of st1 "pos + unat ?p"] "1.prems" area_mapped_rest [OF "1.prems"(2), of f] f rest le
      by auto
    have cs: "length (take (unat (n - ?p)) (drop (pos + unat ?p) buf)) = unat n - unat ?p"
      using "1.prems"(3) le by (simp add: rest)
    have "wrote st a (?bs @ take (unat (n - ?p)) (drop (pos + unat ?p) buf)) st2"
    proof (rule wrote_append [OF "1.prems"(1) _ _ st1(2)])
      show "area_mapped st a (length ?bs + length (take (unat (n - ?p)) (drop (pos + unat ?p) buf)))"
        unfolding len cs using "1.prems"(2) le by simp
      show "length ?bs + length (take (unat (n - ?p)) (drop (pos + unat ?p) buf)) < 2 ^ 32"
        unfolding len cs using unsigned_less [of n, where ?'a = nat] le by simp
      show "wrote st1 (a + word_of_nat (length ?bs)) (take (unat (n - ?p)) (drop (pos + unat ?p) buf)) st2"
        unfolding len using st2(2) by simp
    qed
    then have "wrote st a (take (unat n) (drop pos buf)) st2" unfolding rest take_drop_part [OF le] .
    moreover have "transfer_loop (co_monitor_transfer_memcpy CO_MONITOR_TRANSFER_FROM_HOST) a n ((buf, pos), st) =
        Some (CO_RC_OK, (buf, pos + unat n), st2)"
      using False q st1(1) st2(1) "1.prems"(3) le
      by (simp add: transfer_loop.simps [of _ a n] Let_def co_monitor_transfer_memcpy_def CO_OK_def rest)
    ultimately show ?thesis by blast
  qed
qed

text \<open>The other direction reads what the guest sees.\<close>

definition guest_bytes :: "page_state \<Rightarrow> ulong \<Rightarrow> nat \<Rightarrow> uchar list" where
  "guest_bytes st a n = map (\<lambda>k. the (guest_byte st (a + word_of_nat k))) [0..<n]"

lemma read_part:
  assumes "co_monitor_get_pfn st a = Inr p" and "in_page a + n \<le> 4096"
  shows "page_read p (in_page a) n st = Some (guest_bytes st a n)"
  using assms
  by (auto simp: page_read_def guest_bytes_def guest_byte_def same_page same_pfn intro!: nth_equalityI)

lemma guest_bytes_split:
  "m \<le> n \<Longrightarrow> guest_bytes st a n = guest_bytes st a m @ guest_bytes st (a + word_of_nat m) (n - m)"
  by (rule nth_equalityI) (auto simp: guest_bytes_def nth_append add.assoc simp flip: of_nat_add)

lemma length_guest_bytes [simp]: "length (guest_bytes st a n) = n"
  by (simp add: guest_bytes_def)

lemma transfer_read:
  assumes "area_mapped st a (unat n)" and "pos + unat n \<le> length buf"
  shows "transfer_loop (co_monitor_transfer_memcpy CO_MONITOR_TRANSFER_FROM_LINUX) a n ((buf, pos), st) =
      Some (CO_RC_OK, (take pos buf @ guest_bytes st a (unat n) @ drop (pos + unat n) buf, pos + unat n), st)"
  using assms
proof (induction a n arbitrary: buf pos rule: page_parts.induct)
  case (1 a n)
  show ?case
  proof (cases "n = 0")
    case True
    then show ?thesis by (simp add: guest_bytes_def)
  next
    case False
    let ?p = "part_size a n"
    let ?buf = "take pos buf @ guest_bytes st a (unat ?p) @ drop (pos + unat ?p) buf"
    obtain q where q: "co_monitor_get_pfn st a = Inr q" using area_mapped_head [OF "1.prems"(1) False] by blast
    have le: "unat ?p \<le> unat n" by (rule unat_part_size_le)
    have rest: "unat (n - ?p) = unat n - unat ?p" by (rule unat_rest)
    have mapped: "area_mapped st (a + ?p) (unat (n - ?p))"
      using area_mapped_rest [OF "1.prems"(1), of "frame st"] by simp
    have IH: "transfer_loop (co_monitor_transfer_memcpy CO_MONITOR_TRANSFER_FROM_LINUX) (a + ?p) (n - ?p)
        ((?buf, pos + unat ?p), st) = Some (CO_RC_OK, (take (pos + unat ?p) ?buf @
          guest_bytes st (a + ?p) (unat (n - ?p)) @ drop (pos + unat ?p + unat (n - ?p)) ?buf,
          pos + unat ?p + unat (n - ?p)), st)"
      using "1.prems"(2) le rest by (intro "1.IH" [OF False mapped]) simp
    have "guest_bytes st a (unat n) = guest_bytes st a (unat ?p) @ guest_bytes st (a + ?p) (unat n - unat ?p)"
      using guest_bytes_split [OF le, of st a] by simp
    moreover have "take (pos + unat ?p) ?buf = take pos buf @ guest_bytes st a (unat ?p)"
      using "1.prems"(2) le by simp
    moreover have "drop (pos + unat ?p + unat (n - ?p)) ?buf = drop (pos + unat n) buf"
      using "1.prems"(2) le by (simp add: rest add.commute)
    moreover have "co_monitor_transfer_memcpy CO_MONITOR_TRANSFER_FROM_LINUX q (in_page a) ?p ((buf, pos), st) =
        Some (CO_RC_OK, (?buf, pos + unat ?p), st)"
      using "1.prems"(2) le read_part [OF q part_in_page [of a n]] by (simp add: co_monitor_transfer_memcpy_def)
    ultimately show ?thesis
      using False q IH le "1.prems"(2) by (simp add: transfer_loop.simps [of _ a n] Let_def CO_OK_def rest)
  qed
qed

section \<open>Bounds of a transfer\<close>

text \<open>
  What the bounds check of a transfer accepts, exactly: an area that starts inside the guest's
  RAM and ends there - or one so long that its end wraps around to an address inside the RAM again.
  The second case is not excluded by the code: an area of nearly 4 GB that leaves the RAM passes.
\<close>

theorem off_bounds_exact:
  "\<not> off_bounds st vaddr sz \<longleftrightarrow>
     unat CO_ARCH_KERNEL_OFFSET \<le> unat vaddr \<and> unat vaddr < unat (end_physical st) \<and>
     (unat vaddr + unat sz \<le> unat (end_physical st) \<or>
      2 ^ 32 + unat CO_ARCH_KERNEL_OFFSET \<le> unat vaddr + unat sz \<and>
      unat vaddr + unat sz \<le> 2 ^ 32 + unat (end_physical st))"
proof (cases "unat vaddr + unat sz < 2 ^ 32")
  case True
  then have "unat (vaddr + sz) = unat vaddr + unat sz" by (simp add: unat_add_small)
  then show ?thesis
    using True unsigned_less [of "end_physical st", where ?'a = nat]
    by (auto simp: off_bounds_def word_less_nat_alt word_le_nat_alt)
next
  case False
  then have "unat (vaddr + sz) = unat vaddr + unat sz - 2 ^ 32"
    using unsigned_less [of vaddr, where ?'a = nat] unsigned_less [of sz, where ?'a = nat]
    by (simp add: unat_word_ariths mod_nat_eqI)
  then show ?thesis
    using False unsigned_less [of "end_physical st", where ?'a = nat]
    by (auto simp: off_bounds_def word_less_nat_alt word_le_nat_alt)
qed

text \<open>An area inside the RAM, the case that is meant.\<close>

definition inside_ram :: "page_state \<Rightarrow> ulong \<Rightarrow> ulong \<Rightarrow> bool" where
  "inside_ram st a n \<longleftrightarrow> unat CO_ARCH_KERNEL_OFFSET \<le> unat a \<and> unat a < unat (end_physical st) \<and>
     unat a + unat n \<le> unat (end_physical st)"

lemma inside_not_off: "inside_ram st a n \<Longrightarrow> \<not> off_bounds st a n"
  by (simp add: off_bounds_exact inside_ram_def)

section \<open>Copies to the guest and back\<close>

text \<open>
  C28: Copying a buffer of the host to mapped memory of the guest succeeds and changes exactly the
  bytes of that area, wherever its pages are in the host; copying the area back into any buffer of
  that size then gives the data again.
\<close>

theorem transfer_roundtrip:
  assumes "pages_inv st" and "inside_ram st a n" and "area_mapped st a (unat n)"
    and "length bs = unat n" and "length buf = unat n"
  shows "\<exists>st'. co_monitor_host_to_linuxvm bs a n st = Some (CO_RC_OK, st') \<and> wrote st a bs st' \<and>
    co_monitor_linuxvm_to_host a buf n st' = Some (CO_RC_OK, bs, st')"
proof -
  obtain st' where to: "transfer_loop (co_monitor_transfer_memcpy CO_MONITOR_TRANSFER_FROM_HOST) a n ((bs, 0), st) =
      Some (CO_RC_OK, (bs, unat n), st')" "wrote st a bs st'"
    using transfer_write [OF assms(1,3), of 0 bs] assms(4) by auto
  obtain f where f: "st' = st\<lparr>frame := f\<rparr>" using to(2) by (auto simp: wrote_def)
  have bounds: "\<not> off_bounds st a n" "\<not> off_bounds st' a n"
    using inside_not_off [OF assms(2)] by (simp_all add: f off_bounds_def)
  have mapped: "area_mapped st' a (unat n)" using assms(3) by (simp add: f area_mapped_def)
  have "guest_bytes st' a (unat n) = bs"
    using to(2) assms(4) by (intro nth_equalityI) (auto simp: guest_bytes_def wrote_def)
  then have "co_monitor_linuxvm_to_host a buf n st' = Some (CO_RC_OK, bs, st')"
    using transfer_read [OF mapped, of 0 buf] bounds(2) assms(5)
    by (simp add: co_monitor_linuxvm_to_host_def co_monitor_host_linuxvm_copy_def co_monitor_host_linuxvm_transfer_def)
  moreover have "co_monitor_host_to_linuxvm bs a n st = Some (CO_RC_OK, st')"
    using to(1) bounds(1)
    by (simp add: co_monitor_host_to_linuxvm_def co_monitor_host_linuxvm_copy_def co_monitor_host_linuxvm_transfer_def)
  ultimately show ?thesis using to(2) by blast
qed

lemma transfer_keeps:
  assumes "pages_inv st" and "pos + unat n \<le> length buf"
  shows "\<exists>rc b st'. transfer_loop (co_monitor_transfer_memcpy dir) a n ((buf, pos), st) = Some (rc, b, st') \<and> keeps st st'"
  using assms
proof (induction a n arbitrary: st buf pos rule: page_parts.induct)
  case (1 a n)
  show ?case
  proof (cases "n = 0")
    case True
    then show ?thesis using "1.prems"(1) by (simp add: keeps_refl)
  next
    case False
    let ?p = "part_size a n"
    have le: "unat ?p \<le> unat n" by (rule unat_part_size_le)
    show ?thesis
    proof (cases "co_monitor_get_pfn st a")
      case (Inl rc)
      then show ?thesis using False "1.prems"(1) by (simp add: transfer_loop.simps [of _ a n] keeps_refl)
    next
      case (Inr q)
      have "\<exists>buf' st1. co_monitor_transfer_memcpy dir q (in_page a) ?p ((buf, pos), st) =
          Some (CO_RC_OK, (buf', pos + unat ?p), st1) \<and> keeps st st1 \<and> length buf' = length buf"
        using page_write_keeps [OF "1.prems"(1), of "in_page a" "take (unat ?p) (drop pos buf)" q]
          part_in_page [of a n] "1.prems" le read_part [OF Inr part_in_page [of a n]] keeps_refl
        by (cases dir) (auto simp: co_monitor_transfer_memcpy_def)
      then obtain buf' st1 where step: "co_monitor_transfer_memcpy dir q (in_page a) ?p ((buf, pos), st) =
          Some (CO_RC_OK, (buf', pos + unat ?p), st1)" "keeps st st1" "length buf' = length buf" by blast
      have "\<exists>rc b st'. transfer_loop (co_monitor_transfer_memcpy dir) (a + ?p) (n - ?p) ((buf', pos + unat ?p), st1) =
          Some (rc, b, st') \<and> keeps st1 st'"
        using "1.IH" [OF False keeps_inv [OF step(2)], of "pos + unat ?p" buf'] step(3) "1.prems"(2) le
        by (simp add: unat_rest)
      then show ?thesis
        using False Inr step keeps_trans [OF step(2)]
        by (auto simp: transfer_loop.simps [of _ a n] Let_def CO_OK_def)
    qed
  qed
qed

section \<open>Sequences of page operations\<close>

datatype page_op =
    Op_alloc_pages ulong nat
  | Op_free_pages ulong nat
  | Op_scan_and_create ulong ulong
  | Op_copy_and_create ulong ulong "uchar list"
  | Op_create_ptes ulong ulong "ulong list"
  | Op_copy_region ulong ulong "uchar list option"
  | Op_to_linuxvm "uchar list" ulong ulong
  | Op_from_linuxvm ulong "uchar list" ulong

fun run_page_op :: "page_op \<Rightarrow> page_state \<Rightarrow> (co_rc_value \<times> page_state) option" where
  "run_page_op (Op_alloc_pages a n) st = co_alloc_pages a n st"
| "run_page_op (Op_free_pages a n) st = map_option (Pair CO_RC_OK) (co_free_pages a n st)"
| "run_page_op (Op_scan_and_create a n) st = co_monitor_scan_and_create_pfns a n st"
| "run_page_op (Op_copy_and_create a n source) st = co_monitor_copy_and_create_pfns a n source st"
| "run_page_op (Op_create_ptes a n pfns) st = co_monitor_create_ptes a n (Pfn_buffer pfns) st"
| "run_page_op (Op_copy_region a n d) st = co_monitor_copy_region a n d st"
| "run_page_op (Op_to_linuxvm bs a n) st = co_monitor_host_to_linuxvm bs a n st"
| "run_page_op (Op_from_linuxvm a buf n) st =
     map_option (\<lambda>(rc, buf, st). (rc, st)) (co_monitor_linuxvm_to_host a buf n st)"

fun run_page_ops :: "page_op list \<Rightarrow> page_state \<Rightarrow> (co_rc_value list \<times> page_state) option" where
  "run_page_ops [] st = Some ([], st)"
| "run_page_ops (p # ps) st =
     Option.bind (run_page_op p st) (\<lambda>(rc, st). map_option (\<lambda>(rcs, st). (rc # rcs, st)) (run_page_ops ps st))"

text \<open>The buffers of the host are as long as the sizes say.\<close>

fun page_op_fits :: "page_op \<Rightarrow> bool" where
  "page_op_fits (Op_copy_and_create a n source) \<longleftrightarrow> unat n \<le> length source"
| "page_op_fits (Op_create_ptes a n pfns) \<longleftrightarrow> unat n div 4 \<le> length pfns"
| "page_op_fits (Op_copy_region a n d) \<longleftrightarrow> (case d of None \<Rightarrow> True | Some bs \<Rightarrow> unat n \<le> length bs)"
| "page_op_fits (Op_to_linuxvm bs a n) \<longleftrightarrow> unat n \<le> length bs"
| "page_op_fits (Op_from_linuxvm a buf n) \<longleftrightarrow> unat n \<le> length buf"
| "page_op_fits _ \<longleftrightarrow> True"

lemma host_copy_keeps:
  assumes "pages_inv st" and "unat n \<le> length buf"
  shows "\<exists>rc buf' st'. co_monitor_host_linuxvm_copy buf a n dir st = Some (rc, buf', st') \<and> keeps st st'"
proof (cases "off_bounds st a n")
  case True
  then show ?thesis using keeps_refl [OF assms(1)]
    by (simp add: co_monitor_host_linuxvm_copy_def co_monitor_host_linuxvm_transfer_def)
next
  case False
  obtain rc b st' where "transfer_loop (co_monitor_transfer_memcpy dir) a n ((buf, 0), st) = Some (rc, b, st')" "keeps st st'"
    using transfer_keeps [OF assms(1), of 0 n buf dir a] assms(2) by auto
  then show ?thesis using False
    by (cases b) (auto simp: co_monitor_host_linuxvm_copy_def co_monitor_host_linuxvm_transfer_def)
qed

lemma page_op_keeps:
  assumes "pages_inv st" and "page_op_fits p"
  shows "\<exists>rc st'. run_page_op p st = Some (rc, st') \<and> keeps st st'"
proof (cases p)
  case (Op_alloc_pages a n)
  then show ?thesis using alloc_pages_loop_keeps [OF assms(1)] by (simp add: co_alloc_pages_def)
next
  case (Op_free_pages a n)
  then show ?thesis using free_pages_keeps [OF assms(1), of a n] by auto
next
  case (Op_scan_and_create a n)
  then show ?thesis using scan_pfns_keeps [OF assms(1)] by simp
next
  case (Op_copy_and_create a n source)
  then show ?thesis using copy_pfns_keeps [OF assms(1)] assms(2) by simp
next
  case (Op_create_ptes a n pfns)
  then show ?thesis using create_ptes_keeps [OF assms(1), of "Pfn_buffer pfns" n] assms(2) by (simp add: ptes_left_def)
next
  case (Op_copy_region a n d)
  then show ?thesis using copy_region_keeps [OF assms(1), of d n] assms(2) by (simp add: region_left_def)
next
  case (Op_to_linuxvm bs a n)
  then show ?thesis
    using host_copy_keeps [OF assms(1), of n bs a CO_MONITOR_TRANSFER_FROM_HOST] assms(2)
    by (auto simp: co_monitor_host_to_linuxvm_def)
next
  case (Op_from_linuxvm a buf n)
  then show ?thesis
    using host_copy_keeps [OF assms(1), of n buf a CO_MONITOR_TRANSFER_FROM_LINUX] assms(2)
    by (auto simp: co_monitor_linuxvm_to_host_def)
qed

lemma page_ops_keeps:
  "pages_inv st \<Longrightarrow> list_all page_op_fits ps \<Longrightarrow> \<exists>rcs st'. run_page_ops ps st = Some (rcs, st') \<and> keeps st st'"
proof (induction ps st rule: run_page_ops.induct)
  case (1 st)
  then show ?case by (simp add: keeps_refl)
next
  case (2 p ps st)
  obtain rc st1 where step: "run_page_op p st = Some (rc, st1)" "keeps st st1"
    using page_op_keeps [OF "2.prems"(1), of p] "2.prems"(2) by auto
  obtain rcs st2 where "run_page_ops ps st1 = Some (rcs, st2)" "keeps st1 st2"
    using "2.IH" [of "(rc, st1)" rc st1] step keeps_inv [OF step(2)] "2.prems"(2) by auto
  then show ?case using step keeps_trans [OF step(2)] by simp
qed


text \<open>A guest without pages on a host with the page numbers 5 and 6 to hand out.\<close>

definition demo_pages :: page_state where
  "demo_pages = \<lparr>pp_pfns = replicate 1024 None, memory_size = 0x1000000, end_physical = 0xc1000000,
     hostmem_pages = 1024, reversed_page_count = 1, reversed_map_pfns = [7], reversed_map_pgds = [],
     malloc_answers = [True, True], page_answers = [Some 5, Some 6], frame = (\<lambda>p i. 0), put_pages = []\<rparr>"

lemma used_pfns_empty [simp]: "used_pfns (replicate n None) = []"
  by (simp add: used_pfns_def)

lemma demo_pages_inv: "pages_inv demo_pages"
  by (simp add: pages_inv_def demo_pages_def offered_def map_filter_simps)


text \<open>The page 5 at the start of the guest's RAM.\<close>

definition demo_mapped :: page_state where
  "demo_mapped = demo_pages\<lparr>pp_pfns := (replicate 1024 None)[768 := Some (5 # replicate 1023 0)],
     page_answers := [Some 6]\<rparr>"

lemma demo_mapped_inv: "pages_inv demo_mapped"
proof -
  have "used_pfns ((replicate 1024 None)[768 := Some (5 # replicate 1023 0)]) = [5]"
    by (subst used_split [of 768 _ "5 # replicate 1023 0"]) (simp_all add: take_update_cancel drop_update_cancel)
  moreover have "length ps = 1024" if "Some ps \<in> set ((replicate 1024 None)[768 := Some (5 # replicate 1023 (0 :: ulong))])" for ps
    using that set_update_subset_insert [of "replicate 1024 None" 768 "Some (5 # replicate 1023 0)"] by auto
  ultimately show ?thesis
    by (simp add: pages_inv_def demo_mapped_def demo_pages_def offered_def map_filter_simps)
qed

theorem transfer_roundtrip_witness:
  "\<exists>st'. co_monitor_host_to_linuxvm [1, 2, 3] 0xc0000010 3 demo_mapped = Some (CO_RC_OK, st') \<and>
    co_monitor_linuxvm_to_host 0xc0000010 [0, 0, 0] 3 st' = Some (CO_RC_OK, [1, 2, 3], st')"
proof -
  have "area_mapped demo_mapped 0xc0000010 3"
    unfolding area_mapped_def
  proof (intro allI impI)
    fix k :: nat
    assume "k < 3"
    then have "in_page 0xc0000010 + k < 4096" by (simp add: in_page_mod)
    then have "co_monitor_get_pfn demo_mapped (0xc0000010 + word_of_nat k) = Inr 5"
      by (simp add: same_pfn) (simp add: co_monitor_get_pfn_def page_group_index demo_mapped_def demo_pages_def)
    then show "\<exists>p. co_monitor_get_pfn demo_mapped (0xc0000010 + word_of_nat k) = Inr p \<and> p \<noteq> 0" by simp
  qed
  moreover have "inside_ram demo_mapped 0xc0000010 3"
    by (simp add: inside_ram_def demo_mapped_def demo_pages_def CO_ARCH_KERNEL_OFFSET_def)
  ultimately show ?thesis
    using transfer_roundtrip [OF demo_mapped_inv, of "0xc0000010" 3 "[1, 2, 3]" "[0, 0, 0]"] by auto
qed

end
