(* ===== verification/Page_Mapping.thy ===== *)
theory Page_Mapping
  imports Page_Transfer
begin

unbundle bit_operations_syntax

text \<open>
  Mapping one page of the guest, the error paths of the allocation, and giving the memory of the
  guest and the reversed map back to the host.
\<close>

section \<open>Mapping one page\<close>

text \<open>A property of the data that every callback keeps is kept by the split.\<close>

lemma split_preserves:
  assumes "\<And>a p s rc s'. func a p s = Some (rc, s') \<Longrightarrow> R s s'" and "\<And>s. R s s"
    and "\<And>s s' s''. R s s' \<Longrightarrow> R s' s'' \<Longrightarrow> R s s''"
  shows "co_split_by_pages_and_callback a n func s = Some (rc, s') \<Longrightarrow> R s s'"
proof (induction a n arbitrary: s rule: page_parts.induct)
  case (1 a n)
  show ?case
  proof (cases "n = 0")
    case True
    then show ?thesis using "1.prems" assms(2) by simp
  next
    case False
    then show ?thesis
      using "1.prems" "1.IH" assms(1,3)
      by (auto simp: co_split_by_pages_and_callback.simps [of a n] Let_def split: option.splits if_splits)
        (meson assms(3))+
  qed
qed

text \<open>Entries that have a page keep it.\<close>

definition stays :: "page_state \<Rightarrow> page_state \<Rightarrow> bool" where
  "stays st st' \<longleftrightarrow> (\<forall>a p. p \<noteq> 0 \<longrightarrow> co_monitor_get_pfn st a = Inr p \<longrightarrow> co_monitor_get_pfn st' a = Inr p)"

lemma stays_refl: "stays st st"
  by (simp add: stays_def)

lemma stays_trans: "stays st st' \<Longrightarrow> stays st' st'' \<Longrightarrow> stays st st''"
  by (simp add: stays_def)

lemma stays_table: "pp_pfns st' = pp_pfns st \<Longrightarrow> stays st st'"
  by (simp add: stays_def co_monitor_get_pfn_def)

lemma malloc_table: "co_os_malloc_answer st = (b, st') \<Longrightarrow> pp_pfns st' = pp_pfns st"
  by (auto simp: co_os_malloc_answer_def split: list.splits)

lemma alloc_group_table:
  assumes "alloc_group a st = (b, st')"
  shows "pp_pfns st' = pp_pfns st \<or>
    pp_pfns st ! pfn_group a = None \<and> pp_pfns st' = (pp_pfns st)[pfn_group a := Some (replicate 1024 0)]"
proof (cases "pp_pfns st ! pfn_group a")
  case None
  obtain c st1 where "co_os_malloc_answer st = (c, st1)" by (cases "co_os_malloc_answer st")
  then show ?thesis
    using assms None malloc_table [of st c st1]
    by (cases c) (auto simp: alloc_group_def PTRS_PER_PTE_def)
qed (use assms in \<open>simp add: alloc_group_def\<close>)

lemma alloc_group_stays: "alloc_group a st = (b, st') \<Longrightarrow> stays st st'"
proof (drule alloc_group_table, elim disjE conjE)
  assume none: "pp_pfns st ! pfn_group a = None"
    and upd: "pp_pfns st' = (pp_pfns st)[pfn_group a := Some (replicate 1024 0)]"
  show "stays st st'"
    unfolding stays_def
  proof (intro allI impI)
    fix b p
    assume "co_monitor_get_pfn st b = Inr p"
    then show "co_monitor_get_pfn st' b = Inr p"
      using none upd by (cases "pfn_group b = pfn_group a") (auto simp: co_monitor_get_pfn_def)
  qed
qed (rule stays_table)

lemma get_page_table: "co_manager_get_page st = (r, st') \<Longrightarrow> pp_pfns st' = pp_pfns st"
  by (auto simp: co_manager_get_page_def co_os_get_page_def split: list.splits option.splits if_splits)

lemma set_pfn_stays:
  assumes "the (pp_pfns st ! pfn_group a) ! pfn_index a = 0"
  shows "stays st (set_pfn a p st)"
  unfolding stays_def
proof (intro allI impI)
  fix b q
  assume q: "q \<noteq> 0" "co_monitor_get_pfn st b = Inr q"
  show "co_monitor_get_pfn (set_pfn a p st) b = Inr q"
    using q assms
    by (cases "pfn_group b = pfn_group a"; cases "pfn_index b = pfn_index a";
        cases "pfn_group a < length (pp_pfns st)")
      (auto simp: co_monitor_get_pfn_def set_pfn_def list_update_beyond not_less split: option.splits)
qed

lemma scan_step_stays:
  assumes run: "scan_pfns_split_callback func True a p (d, st) = Some (rc, d', st')"
    and func: "\<And>f pfn off p s rc s'. func = Some f \<Longrightarrow> f pfn off p s = Some (rc, s') \<Longrightarrow>
      pp_pfns (snd s') = pp_pfns (snd s)"
  shows "stays st st'"
proof -
  obtain b st1 where grp: "alloc_group a st = (b, st1)" by (cases "alloc_group a st")
  have k1: "stays st st1" by (rule alloc_group_stays [OF grp])
  show ?thesis
  proof (cases b)
    case False
    then show ?thesis using run grp k1 by (simp add: scan_pfns_split_callback_def)
  next
    case True
    let ?e = "the (pp_pfns st1 ! pfn_group a) ! pfn_index a"
    obtain got st2 where got: "(if ?e = 0
        then case co_manager_get_page st1 of (Inl rc, st) \<Rightarrow> (Inl rc, st)
             | (Inr pfn, st) \<Rightarrow> (Inr pfn, set_pfn a pfn st)
        else (Inr ?e, st1)) = (got, st2)"
      by (cases "if ?e = 0
        then case co_manager_get_page st1 of (Inl rc, st) \<Rightarrow> (Inl rc, st)
             | (Inr pfn, st) \<Rightarrow> (Inr pfn, set_pfn a pfn st)
        else (Inr ?e, st1)")
    have k2: "stays st1 st2"
    proof (cases "?e = 0")
      case True
      obtain r st3 where get: "co_manager_get_page st1 = (r, st3)" by (cases "co_manager_get_page st1")
      have t: "pp_pfns st3 = pp_pfns st1" by (rule get_page_table [OF get])
      then have "stays st3 (set_pfn a q st3)" for q using True by (intro set_pfn_stays) simp
      then show ?thesis
        using got True get stays_table [OF t] stays_trans by (cases r) (auto simp: sum.case_eq_if)
    next
      case False
      then show ?thesis using got by (simp add: stays_refl)
    qed
    have grp': "alloc_group a st = (True, st1)" using grp True by simp
    have scan: "scan_pfns_split_callback func True a p (d, st) =
        (case got of Inl rc \<Rightarrow> Some (rc, d, st2)
         | Inr pfn \<Rightarrow> (case func of None \<Rightarrow> Some (CO_RC_OK, d, st2)
             | Some f \<Rightarrow> map_option (\<lambda>(rc, d, st). (CO_RC_OK, d, st)) (f pfn (in_page a) p (d, st2))))"
      by (simp only: scan_pfns_split_callback_def grp' Let_def case_prod_conv bool.case option.sel got
          not_True_eq_False if_False)
    have "pp_pfns st' = pp_pfns st2"
      using run func unfolding scan by (fastforce split: sum.splits option.splits)
    then show ?thesis using k1 k2 stays_trans stays_table by blast
  qed
qed

lemma page_write_table: "page_write q off bs st = Some st' \<Longrightarrow> pp_pfns st' = pp_pfns st"
  by (auto simp: page_write_def split: if_splits)

lemma ptes_callback_table:
  "create_ptes_callback pfn off p s = Some (rc, s') \<Longrightarrow> pp_pfns (snd s') = pp_pfns (snd s)"
  by (cases s) (auto simp: create_ptes_callback_def Let_def dest: page_write_table split: if_splits)

lemma create_ptes_stays: "co_monitor_create_ptes a n d st = Some (rc, st') \<Longrightarrow> stays st st'"
proof -
  assume "co_monitor_create_ptes a n d st = Some (rc, st')"
  then obtain d' where "co_split_by_pages_and_callback a n
      (scan_pfns_split_callback (Some create_ptes_callback) True) (d, st) = Some (rc, d', st')"
    by (auto simp: co_monitor_create_ptes_def co_manager_scan_pfns_and_callback_def)
  then have "stays (snd (d, st)) (snd (d', st'))"
  proof (rule split_preserves [where R = "\<lambda>s s'. stays (snd s) (snd s')", rotated 3], goal_cases)
    case (1 a p s rc s')
    then show ?case
      using scan_step_stays [of "Some create_ptes_callback" a p "fst s" "snd s" rc "fst s'" "snd s'"]
        ptes_callback_table by fastforce
  qed (auto intro: stays_refl stays_trans)
  then show ?thesis by simp
qed

text \<open>One entry of a page table.\<close>

lemma get_page_frame: "co_manager_get_page st = (r, st') \<Longrightarrow> frame st' = frame st"
  by (auto simp: co_manager_get_page_def co_os_get_page_def split: list.splits option.splits if_splits)

lemma split_one:
  assumes "part_size x n = n" and "n \<noteq> 0" and "co_split_by_pages_and_callback x n func s = Some (CO_RC_OK, s')"
  shows "func x n s = Some (CO_RC_OK, s')"
proof (cases "func x n s")
  case None
  then show ?thesis using assms by (simp add: co_split_by_pages_and_callback.simps [of x n])
next
  case (Some r)
  then show ?thesis
    using assms by (cases r; cases "CO_OK (fst r)")
      (simp_all add: co_split_by_pages_and_callback.simps [of x n] CO_OK_def)
qed

lemma get_set_pfn:
  assumes "pages_inv st" and "pp_pfns st ! pfn_group a = Some ps"
  shows "co_monitor_get_pfn (set_pfn a p st) a = Inr p"
  using assms group_len [OF assms] by (simp add: co_monitor_get_pfn_def set_pfn_def pages_inv_def)

lemma scan_found:
  assumes inv: "pages_inv st" and run: "scan_pfns_split_callback (Some f) True a p (d, st) = Some (CO_RC_OK, d', st')"
  shows "\<exists>q st2 rc. q \<noteq> 0 \<and> co_monitor_get_pfn st2 a = Inr q \<and> frame st2 = frame st \<and> pages_inv st2 \<and>
    f q (in_page a) p (d, st2) = Some (rc, d', st')"
proof -
  obtain b st1 where grp: "alloc_group a st = (b, st1)" by (cases "alloc_group a st")
  note k1 = alloc_group_keeps [OF inv grp]
  have f1: "frame st1 = frame st"
    using grp by (auto simp: alloc_group_def co_os_malloc_answer_def split: option.splits list.splits bool.splits)
  have b: b using run grp by (cases b) (simp_all add: scan_pfns_split_callback_def)
  then obtain ps where ps: "pp_pfns st1 ! pfn_group a = Some ps" using k1 by auto
  have inv1: "pages_inv st1" using k1 keeps_inv by blast
  have grp': "alloc_group a st = (True, st1)" using grp b by simp
  show ?thesis
  proof (cases "ps ! pfn_index a = 0")
    case False
    have "co_monitor_get_pfn st1 a = Inr (ps ! pfn_index a)" using ps by (simp add: co_monitor_get_pfn_def)
    moreover have "\<exists>rc. f (ps ! pfn_index a) (in_page a) p (d, st1) = Some (rc, d', st')"
      using run grp' ps False by (auto simp: scan_pfns_split_callback_def Let_def)
    ultimately show ?thesis using False inv1 f1 by blast
  next
    case True
    obtain r st2 where get: "co_manager_get_page st1 = (r, st2)" by (cases "co_manager_get_page st1")
    note got = get_page_offered [OF inv1 get]
    show ?thesis
    proof (cases r)
      case (Inl rc)
      then show ?thesis using run grp' ps True get got by (auto simp: scan_pfns_split_callback_def Let_def CO_OK_def)
    next
      case (Inr q)
      have k: "pages_inv (set_pfn a q st2)"
        using Inr got set_pfn_keeps [OF inv1 _ _ ps True] keeps_inv by auto
      have "co_monitor_get_pfn (set_pfn a q st2) a = Inr q"
      proof -
        have "pp_pfns st2 ! pfn_group a = Some ps" using get_page_table [OF get] ps by simp
        moreover have "length ps = 1024" using group_len [OF inv1 ps] by simp
        moreover have "length (pp_pfns st2) = 1024" using get_page_table [OF get] inv1 by (simp add: pages_inv_def)
        ultimately show ?thesis by (simp add: co_monitor_get_pfn_def set_pfn_def)
      qed
      moreover have "\<exists>rc. f q (in_page a) p (d, set_pfn a q st2) = Some (rc, d', st')"
        using run grp' ps True get Inr by (auto simp: scan_pfns_split_callback_def Let_def)
      moreover have "frame (set_pfn a q st2) = frame st"
      proof -
        have "frame st2 = frame st1" by (rule get_page_frame [OF get])
        then show ?thesis using f1 by (simp add: set_pfn_def)
      qed
      moreover have "q \<noteq> 0" using Inr got by simp
      ultimately show ?thesis using k by blast
    qed
  qed
qed

lemma create_one_pte:
  assumes room: "in_page x + 4 \<le> 4096" and run: "co_monitor_create_ptes x 4 (Pfn_buffer [p]) st = Some (CO_RC_OK, st')"
    and inv: "pages_inv st"
  shows "\<exists>q. q \<noteq> 0 \<and> co_monitor_get_pfn st' x = Inr q \<and>
    frame st' = (frame st)(q := (\<lambda>i. if in_page x \<le> i \<and> i < in_page x + 4
      then le_bytes (pte_of p) ! (i - in_page x) else frame st q i))"
proof -
  have part: "part_size x 4 = 4"
    using room by (simp add: word_unat_eq_iff [of "part_size x 4"] unat_part_size)
  obtain d' where "co_split_by_pages_and_callback x 4 (scan_pfns_split_callback (Some create_ptes_callback) True)
      (Pfn_buffer [p], st) = Some (CO_RC_OK, d', st')"
    using run by (auto simp: co_monitor_create_ptes_def co_manager_scan_pfns_and_callback_def)
  then have "scan_pfns_split_callback (Some create_ptes_callback) True x 4 (Pfn_buffer [p], st) = Some (CO_RC_OK, d', st')"
    by (rule split_one [OF part, rotated]) simp
  from scan_found [OF inv this] obtain q st2 rc where q: "q \<noteq> 0" "co_monitor_get_pfn st2 x = Inr q" "frame st2 = frame st"
      and w: "create_ptes_callback q (in_page x) 4 (Pfn_buffer [p], st2) = Some (rc, d', st')"
    by (elim exE conjE) (rule that)
  have w': "page_write q (in_page x) (le_bytes (pte_of p)) st2 = Some st'"
    using w by (auto simp: create_ptes_callback_def Let_def)
  have "length (le_bytes (pte_of p)) = 4" by (simp add: le_bytes_def)
  then have "frame st' = (frame st)(q := (\<lambda>i. if in_page x \<le> i \<and> i < in_page x + 4
      then le_bytes (pte_of p) ! (i - in_page x) else frame st q i))"
    using w' [unfolded page_write_def q(3)] room by (auto split: if_splits)
  moreover have "co_monitor_get_pfn st' x = Inr q"
    using q(2) page_write_table [OF w'] by (simp add: co_monitor_get_pfn_def)
  ultimately show ?thesis using q(1) by blast
qed

lemma pte_address_in_page: "in_page (pte_address a) + 4 \<le> 4096"
proof -
  have "unat (pte_address a) = (0xfeb00000 + 4 * unat (virtual_pfn a)) mod 2 ^ 32"
    by (simp add: pte_address_def page_consts unat_word_ariths mod_simps)
  then have "unat (pte_address a) mod 4 = (0xfeb00000 + 4 * unat (virtual_pfn a)) mod 4"
    by (simp add: mod_mod_cancel)
  also have "\<dots> = 0" by presburger
  finally have "4 dvd unat (pte_address a)" by presburger
  then have "4 dvd in_page (pte_address a)" unfolding in_page_mod by (simp add: dvd_mod)
  then show ?thesis using in_page_less [of "pte_address a"] by presburger
qed

lemma length_le_bytes_word [simp]: "length (le_bytes w) = 4"
  by (simp add: le_bytes_def)

lemma page_read_back:
  assumes "page_write m off bs st = Some st1" and "frame st2 m = frame st1 m"
  shows "page_read m off (length bs) st2 = Some bs"
  using assms by (auto simp: page_write_def page_read_def split: if_splits intro!: nth_equalityI)

lemma page_not_reversed:
  assumes inv: "pages_inv st" and "co_monitor_get_pfn st x = Inr q" "q \<noteq> 0" and "m \<in> set (reversed_map_pfns st)"
  shows "q \<noteq> m"
proof -
  obtain ps where ps: "pp_pfns st ! pfn_group x = Some ps" "ps ! pfn_index x = q"
    using assms(2) by (auto simp: co_monitor_get_pfn_def split: option.splits)
  have "q \<in> set (used_pfns (pp_pfns st))"
    using used_in [of "pfn_group x" "pp_pfns st" ps "pfn_index x"] ps assms(3) group_len [OF inv ps(1)] inv
    by (simp add: pages_inv_def)
  then show ?thesis using inv assms(4) by (auto simp: pages_inv_def)
qed

text \<open>The steps of a mapping that succeeds.\<close>

lemma alloc_and_map_steps:
  assumes inv: "pages_inv st" and none: "co_monitor_get_pfn st a \<in> {Inl CO_RC_ERROR, Inr 0}"
    and run: "co_monitor_alloc_and_map_page a st = Some (CO_RC_OK, st')"
  obtains p st3 st4 where "p \<noteq> 0" "p \<in> set (offered st)" "co_monitor_get_pfn st3 a = Inr p" "stays st st3" "keeps st st3"
    and "co_manager_set_reversed_pfn p (virtual_pfn a) st3 = Some (CO_RC_OK, st4)" "keeps st3 st4" "pp_pfns st4 = pp_pfns st3"
    and "co_monitor_create_ptes (pte_address a) 4 (Pfn_buffer [p]) st4 = Some (CO_RC_OK, st')" "keeps st4 st'"
proof -
  let ?x = "pte_address a"
  obtain b st1 where grp: "alloc_group a st = (b, st1)" by (cases "alloc_group a st")
  note k1 = alloc_group_keeps [OF inv grp]
  have b: b using run grp by (cases b) (simp_all add: co_monitor_alloc_and_map_page_def)
  have inv1: "pages_inv st1" using k1 keeps_inv by blast
  have off1: "offered st1 = offered st" "put_pages st1 = put_pages st"
    using grp by (auto simp: alloc_group_def co_os_malloc_answer_def offered_def split: option.splits list.splits bool.splits)
  obtain ps where ps: "pp_pfns st1 ! pfn_group a = Some ps" "ps ! pfn_index a = 0"
  proof -
    obtain ps where ps: "pp_pfns st1 ! pfn_group a = Some ps" using k1 b by auto
    have "ps ! pfn_index a = 0"
      using alloc_group_table [OF grp] none ps inv
      by (auto simp: co_monitor_get_pfn_def pages_inv_def split: option.splits)
    then show ?thesis using ps that by blast
  qed
  have grp': "alloc_group a st = (True, st1)" using grp b by simp
  obtain r st2 where get: "co_manager_get_page st1 = (r, st2)" by (cases "co_manager_get_page st1")
  note got = get_page_offered [OF inv1 get]
  obtain p where r: "r = Inr p"
    using run grp' ps get got by (cases r) (auto simp: co_monitor_alloc_and_map_page_def CO_OK_def)
  let ?st3 = "set_pfn a p st2"
  have k3: "keeps st1 ?st3" using r got set_pfn_keeps [OF inv1 _ _ ps] by auto
  have p: "p \<noteq> 0" "p \<in> set (offered st)" using r got off1 by auto
  have at3: "co_monitor_get_pfn ?st3 a = Inr p"
    using get_page_table [OF get] ps inv1 group_len [OF inv1 ps(1)]
    by (simp add: co_monitor_get_pfn_def set_pfn_def pages_inv_def)
  have s3: "stays st ?st3"
    using alloc_group_stays [OF grp] stays_table [OF get_page_table [OF get]]
      set_pfn_stays [of st2 a p] get_page_table [OF get] ps stays_trans by auto
  obtain rc st4 where rev: "co_manager_set_reversed_pfn p (virtual_pfn a) ?st3 = Some (rc, st4)" "keeps ?st3 st4"
      "pp_pfns st4 = pp_pfns ?st3"
    using set_reversed_keeps [OF keeps_inv [OF k3]] by blast
  have run': "and_then (Some (rc, st4)) (co_monitor_create_ptes ?x 4 (Pfn_buffer [p])) = Some (CO_RC_OK, st')"
    using run grp' ps get r rev(1) by (simp add: co_monitor_alloc_and_map_page_def)
  have ok: "rc = CO_RC_OK" "co_monitor_create_ptes ?x 4 (Pfn_buffer [p]) st4 = Some (CO_RC_OK, st')"
    using run' by (auto simp: and_then_def CO_OK_def split: if_splits)
  have inv4: "pages_inv st4" by (rule keeps_inv [OF rev(2)])
  obtain rc' st'' where "co_monitor_create_ptes ?x 4 (Pfn_buffer [p]) st4 = Some (rc', st'')" "keeps st4 st''"
    using create_ptes_keeps [OF inv4, of "Pfn_buffer [p]" 4 ?x] by (auto simp: ptes_left_def)
  then have "keeps st4 st'" using ok(2) by simp
  moreover have "keeps st ?st3" using k1 k3 keeps_trans by blast
  ultimately show ?thesis using that p at3 s3 rev ok by blast
qed

text \<open>
  C29: Mapping a page of the guest that has none takes a page the host offers, enters it in the
  table, writes its page table entry where the guest looks for it and the guest's page number in the
  reversed map, and takes no other page of the guest away.
\<close>

theorem alloc_and_map_correct:
  assumes inv: "pages_inv st" and none: "co_monitor_get_pfn st a \<in> {Inl CO_RC_ERROR, Inr 0}"
    and run: "co_monitor_alloc_and_map_page a st = Some (CO_RC_OK, st')"
  shows "\<exists>p. p \<in> set (offered st) \<and> co_monitor_get_pfn st' a = Inr p \<and>
    guest_bytes st' (pte_address a) 4 = le_bytes (pte_of p) \<and>
    page_read (reversed_map_pfns st ! unat (p div PTRS_PER_PTE)) (4 * unat (p mod PTRS_PER_PTE)) 4 st' =
      Some (le_bytes (virtual_pfn a)) \<and>
    stays st st'"
proof -
  let ?x = "pte_address a"
  obtain p st3 st4 where p: "p \<noteq> 0" "p \<in> set (offered st)" "co_monitor_get_pfn st3 a = Inr p" "stays st st3" "keeps st st3"
    and rev: "co_manager_set_reversed_pfn p (virtual_pfn a) st3 = Some (CO_RC_OK, st4)" "keeps st3 st4" "pp_pfns st4 = pp_pfns st3"
    and ptes: "co_monitor_create_ptes ?x 4 (Pfn_buffer [p]) st4 = Some (CO_RC_OK, st')" "keeps st4 st'"
    by (rule alloc_and_map_steps [OF assms])
  obtain q where q: "q \<noteq> 0" "co_monitor_get_pfn st' ?x = Inr q"
      "frame st' = (frame st4)(q := (\<lambda>i. if in_page ?x \<le> i \<and> i < in_page ?x + 4
        then le_bytes (pte_of p) ! (i - in_page ?x) else frame st4 q i))"
    using create_one_pte [OF pte_address_in_page ptes(1) keeps_inv [OF rev(2)]] by blast
  \<comment> \<open>the entry of the page table\<close>
  have "guest_bytes st' ?x 4 = le_bytes (pte_of p)"
  proof (rule nth_equalityI)
    fix k
    assume "k < length (guest_bytes st' ?x 4)"
    then have "in_page ?x + k < 4096" "k < 4" using pte_address_in_page [of a] by simp_all
    then show "guest_bytes st' ?x 4 ! k = le_bytes (pte_of p) ! k"
      using q(2,3) by (simp add: guest_bytes_def guest_byte_def same_page same_pfn)
  qed (simp add: le_bytes_def)
  \<comment> \<open>the entry of the reversed map\<close>
  moreover have "page_read (reversed_map_pfns st ! unat (p div PTRS_PER_PTE)) (4 * unat (p mod PTRS_PER_PTE)) 4 st' =
      Some (le_bytes (virtual_pfn a))"
  proof -
    let ?m = "reversed_map_pfns st ! unat (p div PTRS_PER_PTE)"
    have same: "reversed_map_pfns st3 = reversed_map_pfns st" "reversed_map_pfns st' = reversed_map_pfns st"
      using p(5) rev(2) ptes(2) by (simp_all add: keeps_def)
    have top_level: "unat (p div PTRS_PER_PTE) < length (reversed_map_pfns st3)"
      using rev(1) keeps_inv [OF p(5)]
      by (auto simp: co_manager_set_reversed_pfn_def Let_def pages_inv_def word_le_nat_alt split: if_splits)
    have w: "page_write ?m (4 * unat (p mod PTRS_PER_PTE)) (le_bytes (virtual_pfn a)) st3 = Some st4"
      using rev(1) same(1) by (auto simp: co_manager_set_reversed_pfn_def Let_def split: if_splits)
    have "?m \<in> set (reversed_map_pfns st')" using top_level same by simp
    then have "q \<noteq> ?m" using page_not_reversed [OF keeps_inv [OF ptes(2)] q(2,1)] by blast
    then have "frame st' ?m = frame st4 ?m" using q(3) by simp
    from page_read_back [OF w this] show ?thesis by simp
  qed
  moreover have s4: "stays st3 st'"
    using stays_table [OF rev(3)] create_ptes_stays [OF ptes(1)] stays_trans by blast
  moreover have "co_monitor_get_pfn st' a = Inr p" using s4 p(1,3) by (simp add: stays_def)
  ultimately show ?thesis using p(2,4) stays_trans by blast
qed

lemma demo_alloc: "\<exists>st'. co_monitor_alloc_and_map_page 0xc0000000 demo_pages = Some (CO_RC_OK, st')"
proof -
  have a: "pfn_group 0xc0000000 = 768" "pfn_index 0xc0000000 = 0" by (simp_all add: page_group_index)
  have v: "virtual_pfn 0xc0000000 = 0" by (simp add: virtual_pfn_def page_consts)
  have x: "pte_address 0xc0000000 = 0xfeb00000" by (simp add: pte_address_def v page_consts)
  have b: "pfn_group 0xfeb00000 = 1018" "pfn_index 0xfeb00000 = 768" "in_page 0xfeb00000 = 0"
    by (simp_all add: page_group_index in_page_mod)
  have part: "part_size 0xfeb00000 4 = 4" by (simp add: part_size_def Let_def page_consts)
  show ?thesis
    by (simp add: co_monitor_alloc_and_map_page_def alloc_group_def a v x b part demo_pages_def
        co_os_malloc_answer_def co_manager_get_page_def co_os_get_page_def set_pfn_def and_then_def
        co_manager_set_reversed_pfn_def page_write_def PTRS_PER_PTE_def Let_def CO_OK_def
        co_monitor_create_ptes_def co_manager_scan_pfns_and_callback_def co_split_by_pages_and_callback.simps [of "0xfeb00000" 4]
        scan_pfns_split_callback_def create_ptes_callback_def le_bytes_def)
qed

theorem alloc_and_map_correct_witness:
  "\<exists>p st'. co_monitor_alloc_and_map_page 0xc0000000 demo_pages = Some (CO_RC_OK, st') \<and> p \<in> {5, 6} \<and>
    co_monitor_get_pfn st' 0xc0000000 = Inr p \<and>
    guest_bytes st' (pte_address 0xc0000000) 4 = le_bytes (pte_of p)"
proof -
  obtain st' where run: "co_monitor_alloc_and_map_page 0xc0000000 demo_pages = Some (CO_RC_OK, st')"
    using demo_alloc by blast
  have "co_monitor_get_pfn demo_pages 0xc0000000 \<in> {Inl CO_RC_ERROR, Inr 0}"
    by (simp add: co_monitor_get_pfn_def demo_pages_def page_group_index)
  from alloc_and_map_correct [OF demo_pages_inv this run] obtain p where
    "p \<in> set (offered demo_pages)" "co_monitor_get_pfn st' 0xc0000000 = Inr p"
    "guest_bytes st' (pte_address 0xc0000000) 4 = le_bytes (pte_of p)" by blast
  moreover have "set (offered demo_pages) = {5, 6}" by (simp add: offered_def demo_pages_def map_filter_simps)
  ultimately show ?thesis using run by blast
qed

section \<open>Errors\<close>

text \<open>
  A page of the host that the reversed map has no room for - the map leaves out the last pages
  when their number is not a multiple of 1024 - makes the mapping fail, but the page stays entered in
  the table of the guest: a second call finds it, succeeds and still writes no page table entry.
\<close>

theorem alloc_and_map_half_done:
  assumes grp: "pp_pfns st ! pfn_group a = Some ps" "ps ! pfn_index a = 0"
    and len: "length (pp_pfns st) = 1024" "length ps = 1024"
    and ans: "page_answers st = Some p # as" "p \<noteq> 0" "p < hostmem_pages st"
    and tail: "reversed_page_count st \<le> p div PTRS_PER_PTE"
  shows "\<exists>st'. co_monitor_alloc_and_map_page a st = Some (CO_RC_ERROR, st') \<and>
    frame st' = frame st \<and> co_monitor_get_pfn st' a = Inr p \<and>
    co_monitor_alloc_and_map_page a st' = Some (CO_RC_OK, st')"
proof -
  let ?st1 = "st\<lparr>page_answers := as\<rparr>"
  let ?st2 = "set_pfn a p ?st1"
  have g: "alloc_group a st = (True, st)" using grp(1) by (simp add: alloc_group_def)
  have get: "co_manager_get_page st = (Inr p, ?st1)"
    using ans by (simp add: co_manager_get_page_def co_os_get_page_def linorder_not_le)
  have rev: "co_manager_set_reversed_pfn p (virtual_pfn a) ?st2 = Some (CO_RC_ERROR, ?st2)"
    using tail by (simp add: co_manager_set_reversed_pfn_def Let_def set_pfn_def)
  have run: "co_monitor_alloc_and_map_page a st = Some (CO_RC_ERROR, ?st2)"
    using grp by (simp add: co_monitor_alloc_and_map_page_def g get rev and_then_def CO_OK_def)
  have there: "pp_pfns ?st2 ! pfn_group a = Some (ps[pfn_index a := p])"
    using grp(1) len(1) by (simp add: set_pfn_def)
  then have "co_monitor_get_pfn ?st2 a = Inr p" using len(2) by (simp add: co_monitor_get_pfn_def)
  moreover have "co_monitor_alloc_and_map_page a ?st2 = Some (CO_RC_OK, ?st2)"
    using there len(2) ans(2) by (simp add: co_monitor_alloc_and_map_page_def alloc_group_def)
  moreover have "frame ?st2 = frame st" by (simp add: set_pfn_def)
  ultimately show ?thesis using run by blast
qed

theorem alloc_and_map_half_done_witness:
  "let st = demo_mapped\<lparr>hostmem_pages := 2000, page_answers := [Some 1500]\<rparr> in
   \<exists>st'. co_monitor_alloc_and_map_page 0xc0001000 st = Some (CO_RC_ERROR, st') \<and>
     co_monitor_alloc_and_map_page 0xc0001000 st' = Some (CO_RC_OK, st')"
proof -
  have "(5 # replicate 1023 0) ! Suc 0 = (0 :: ulong)" by simp
  then show ?thesis
    using alloc_and_map_half_done [of "demo_mapped\<lparr>hostmem_pages := 2000, page_answers := [Some 1500]\<rparr>" "0xc0001000"
        "5 # replicate 1023 0" 1500 "[]"]
    by (auto simp: demo_mapped_def demo_pages_def page_group_index PTRS_PER_PTE_def Let_def)
qed

text \<open>Freeing a page that is there.\<close>

lemma free_and_unmap_there:
  assumes inv: "pages_inv st" and there: "co_monitor_get_pfn st a = Inr q" "q \<noteq> 0"
  shows "\<exists>st'. co_monitor_free_and_unmap_page a st = Some (CO_RC_OK, st') \<and> co_monitor_get_pfn st' a = Inr 0 \<and>
    (\<exists>ps. put_pages st' = ps @ [q])"
proof -
  have grp: "pp_pfns st ! pfn_group a \<noteq> None" using there by (auto simp: co_monitor_get_pfn_def split: option.splits)
  obtain rc st1 where ptes: "co_monitor_create_ptes (pte_address a) 4 (Pfn_buffer [0]) st = Some (rc, st1)"
      and k1: "keeps st st1"
    using create_ptes_keeps [OF inv, of "Pfn_buffer [0]" 4 "pte_address a"] by (auto simp: ptes_left_def)
  have at1: "co_monitor_get_pfn st1 a = Inr q" using create_ptes_stays [OF ptes] there by (simp add: stays_def)
  obtain ps where ps: "pp_pfns st1 ! pfn_group a = Some ps" "ps ! pfn_index a = q"
    using at1 by (auto simp: co_monitor_get_pfn_def split: option.splits)
  obtain rc2 st2 where rev: "co_manager_set_reversed_pfn q 0 st1 = Some (rc2, st2)" "keeps st1 st2" "pp_pfns st2 = pp_pfns st1"
    using set_reversed_keeps [OF keeps_inv [OF k1]] by blast
  have inv2: "pages_inv st2" by (rule keeps_inv [OF rev(2)])
  have "co_monitor_free_and_unmap_page a st = Some (CO_RC_OK, set_pfn a 0 (co_os_put_page q st2))"
    using grp ptes ps there(2) rev(1) by (simp add: co_monitor_free_and_unmap_page_def Let_def del: not_None_eq)
  moreover have "co_monitor_get_pfn (set_pfn a 0 (co_os_put_page q st2)) a = Inr 0"
    using ps rev(3) inv2 group_len [OF inv2, of "pfn_group a" ps]
    by (simp add: co_monitor_get_pfn_def set_pfn_def co_os_put_page_def pages_inv_def)
  moreover have "put_pages (set_pfn a 0 (co_os_put_page q st2)) = put_pages st2 @ [q]"
    by (simp add: set_pfn_def co_os_put_page_def)
  ultimately show ?thesis by blast
qed

lemma map_there: "co_monitor_get_pfn st a = Inr q \<Longrightarrow> q \<noteq> 0 \<Longrightarrow> co_monitor_alloc_and_map_page a st = Some (CO_RC_OK, st)"
  by (auto simp: co_monitor_get_pfn_def co_monitor_alloc_and_map_page_def alloc_group_def split: option.splits)

lemma map_no_page:
  "co_monitor_get_pfn st a = Inr 0 \<Longrightarrow> page_answers st = [] \<Longrightarrow> co_monitor_alloc_and_map_page a st = Some (CO_RC_ERROR, st)"
  by (auto simp: co_monitor_get_pfn_def co_monitor_alloc_and_map_page_def alloc_group_def co_manager_get_page_def
      co_os_get_page_def split: option.splits)

text \<open>
  When the allocation of an area fails, its way back frees all pages before the one that
  failed, also those that the guest already had before the call: a page that was in use and only lay
  in the area is given back to the host and taken out of the table.
\<close>

theorem alloc_pages_frees_older:
  assumes inv: "pages_inv st" and older: "co_monitor_get_pfn st a = Inr q" "q \<noteq> 0"
    and empty: "co_monitor_get_pfn st (a + CO_ARCH_PAGE_SIZE) = Inr 0" "page_answers st = []"
  shows "\<exists>st'. co_alloc_pages a 2 st = Some (CO_RC_ERROR, st') \<and> co_monitor_get_pfn st' a = Inr 0 \<and>
    q \<in> set (put_pages st')"
proof -
  obtain st' where st': "co_monitor_free_and_unmap_page a st = Some (CO_RC_OK, st')" "co_monitor_get_pfn st' a = Inr 0"
      "\<exists>ps. put_pages st' = ps @ [q]"
    using free_and_unmap_there [OF inv older] by blast
  have "co_alloc_pages a 2 st = Some (CO_RC_ERROR, st')"
    using map_there [OF older] map_no_page [OF empty] st'(1)
    by (simp add: co_alloc_pages_def numeral_2_eq_2 CO_OK_def)
  then show ?thesis using st'(2,3) by auto
qed

theorem alloc_pages_frees_older_witness:
  "\<exists>st'. co_alloc_pages 0xc0000000 2 (demo_mapped\<lparr>page_answers := []\<rparr>) = Some (CO_RC_ERROR, st') \<and>
    5 \<in> set (put_pages st')"
proof -
  have "pages_inv (demo_mapped\<lparr>page_answers := []\<rparr>)"
    using demo_mapped_inv by (auto simp: pages_inv_def offered_def map_filter_simps)
  moreover have "co_monitor_get_pfn (demo_mapped\<lparr>page_answers := []\<rparr>) 0xc0000000 = Inr 5"
    "co_monitor_get_pfn (demo_mapped\<lparr>page_answers := []\<rparr>) (0xc0000000 + CO_ARCH_PAGE_SIZE) = Inr 0"
    by (simp_all add: co_monitor_get_pfn_def demo_mapped_def demo_pages_def page_group_index CO_ARCH_PAGE_SIZE_def)
  ultimately show ?thesis
    using alloc_pages_frees_older [of "demo_mapped\<lparr>page_answers := []\<rparr>" "0xc0000000" 5] by auto
qed

text \<open>
  Setting up the guest's address space reports success although nothing was set up, when the
  page tables of its RAM are not there: the code jumps to the end with the code of the step before.
\<close>

theorem address_space_init_unmapped_ok:
  assumes "co_monitor_get_pfn st swapper = Inr pfn" and "pp_pfns st ! pp_pagetables_pgd = None"
  shows "guest_address_space_init swapper CO_RC_OK CO_RC_OK passage_phys io_phys st =
    Some (CO_RC_OK, push_bit CO_ARCH_PAGE_SHIFT pfn, st)"
  using assms by (simp add: guest_address_space_init_def CO_OK_def)

theorem address_space_init_unmapped_ok_witness:
  "guest_address_space_init 0xc0000000 CO_RC_OK CO_RC_OK 0 [] demo_mapped = Some (CO_RC_OK, 0x5000, demo_mapped)"
proof -
  have "co_monitor_get_pfn demo_mapped 0xc0000000 = Inr 5"
    by (simp add: co_monitor_get_pfn_def demo_mapped_def demo_pages_def page_group_index)
  moreover have "pp_pagetables_pgd = 1018" by (simp add: pp_pagetables_pgd_def page_consts)
  moreover have "pp_pfns demo_mapped ! 1018 = None" by (simp add: demo_mapped_def demo_pages_def)
  ultimately show ?thesis
    using address_space_init_unmapped_ok [of demo_mapped "0xc0000000" 5 0 "[]"] by (simp add: CO_ARCH_PAGE_SHIFT_def)
qed

section \<open>Giving the memory back\<close>

lemma fold_put: "fold co_os_put_page ps st = st\<lparr>put_pages := put_pages st @ ps\<rparr>"
  by (induction ps arbitrary: st) (simp_all add: co_os_put_page_def)

text \<open>
  At the end of a guest every page in its table is given back to the host exactly once and the
  table is gone, so that no page is left behind.
\<close>

theorem free_pseudo_physical_memory_correct:
  "mset (put_pages (free_pseudo_physical_memory st)) = mset (put_pages st) + mset (used_pfns (pp_pfns st)) \<and>
   pp_pfns (free_pseudo_physical_memory st) = [] \<and>
   held (free_pseudo_physical_memory st) = held st"
  by (simp add: free_pseudo_physical_memory_def fold_put held_def offered_def used_pfns_def)

section \<open>The reversed map as a whole\<close>

lemma get_page_takes:
  "co_manager_get_page st = (Inr p, st') \<Longrightarrow>
    offered st = p # offered st' \<and> p < hostmem_pages st \<and> st' = st\<lparr>page_answers := page_answers st'\<rparr>"
  by (auto simp: co_manager_get_page_def co_os_get_page_def offered_def map_filter_simps linorder_not_le
      split: list.splits option.splits if_splits)

lemma get_page_fails: "co_manager_get_page st = (Inl rc, st') \<Longrightarrow> \<not> CO_OK rc"
  by (auto simp: co_manager_get_page_def co_os_get_page_def CO_OK_def split: list.splits option.splits if_splits)

lemma reversed_pages_take:
  assumes "reversed_pages_loop i n st = (rc, st')" and "CO_OK rc" and "i + n = length (reversed_map_pfns st)"
  shows "\<exists>qs. offered st = qs @ offered st' \<and> reversed_map_pfns st' = take i (reversed_map_pfns st) @ qs \<and>
    put_pages st' = put_pages st \<and> hostmem_pages st' = hostmem_pages st"
  using assms
proof (induction i n st rule: reversed_pages_loop.induct)
  case (1 i st)
  then show ?case by auto
next
  case (2 i n st)
  obtain r st1 where get: "co_manager_get_page st = (r, st1)" by (cases "co_manager_get_page st")
  show ?case
  proof (cases r)
    case (Inl rc)
    then show ?thesis using "2.prems" get get_page_fails by auto
  next
    case (Inr p)
    note got = get_page_takes [OF get [unfolded Inr]]
    let ?st2 = "st1\<lparr>reversed_map_pfns := (reversed_map_pfns st1)[i := p]\<rparr>"
    have same: "reversed_map_pfns st1 = reversed_map_pfns st" "put_pages st1 = put_pages st" "hostmem_pages st1 = hostmem_pages st"
      by (subst conjunct2 [OF conjunct2 [OF got]]; simp)+
    have "\<exists>qs. offered ?st2 = qs @ offered st' \<and> reversed_map_pfns st' = take (Suc i) (reversed_map_pfns ?st2) @ qs \<and>
        put_pages st' = put_pages ?st2 \<and> hostmem_pages st' = hostmem_pages ?st2"
      using "2.IH" [OF get [symmetric] Inr] "2.prems" get Inr same by simp
    then obtain qs where qs: "offered st1 = qs @ offered st'" "reversed_map_pfns st' = take i (reversed_map_pfns st) @ p # qs"
        "put_pages st' = put_pages st" "hostmem_pages st' = hostmem_pages st"
      using "2.prems"(3) same by (auto simp: offered_def take_Suc_conv_app_nth)
    then show ?thesis using got by (intro exI [of _ "p # qs"]) simp
  qed
qed

text \<open>The entry of the top level for a page below the first 4 GB gives the page back.\<close>

lemma pgd_page:
  assumes "unat (p :: ulong) < 2 ^ 20"
  shows "drop_bit CO_ARCH_PAGE_SHIFT (push_bit CO_ARCH_PAGE_SHIFT p OR KERNPG_TABLE) = p"
    and "push_bit CO_ARCH_PAGE_SHIFT p OR KERNPG_TABLE \<noteq> 0"
proof -
  have kern: "KERNPG_TABLE = 0x63" by (simp add: page_consts)
  have small: "take_bit 20 p = p"
    using assms by (simp add: word_unat_eq_iff unsigned_take_bit_eq take_bit_nat_eq_self_iff)
  have "drop_bit 12 (push_bit 12 p) = take_bit 20 p"
    by (rule bit_word_eqI) (auto simp: bit_simps)
  moreover have "drop_bit 12 (0x63 :: ulong) = 0" by simp
  ultimately show "drop_bit CO_ARCH_PAGE_SHIFT (push_bit CO_ARCH_PAGE_SHIFT p OR KERNPG_TABLE) = p"
    using small by (simp add: kern CO_ARCH_PAGE_SHIFT_def drop_bit_or)
  have "bit (push_bit 12 p OR 0x63) 0" by (simp add: bit_simps)
  then show "push_bit CO_ARCH_PAGE_SHIFT p OR KERNPG_TABLE \<noteq> 0"
    by (auto simp: kern CO_ARCH_PAGE_SHIFT_def simp del: bit_0)
qed

lemma length_le_words [simp]: "length (concat (map le_bytes ws)) = 4 * length ws"
  using length_le_bytes [of id ws] by simp

lemma length_reversed_ptes [simp]: "length (reversed_ptes st n) = 1024"
  by (simp add: reversed_ptes_def PTRS_PER_PTE_def)

lemma page_write_fields:
  "page_write q off bs st = Some st' \<Longrightarrow> \<exists>f. st' = st\<lparr>frame := f\<rparr>"
  by (auto simp: page_write_def split: if_splits)

text \<open>The pages in the top level of the map from entry \<open>i\<close> on.\<close>

definition pgd_pages :: "ulong list \<Rightarrow> ulong list" where
  "pgd_pages pgds = map (drop_bit CO_ARCH_PAGE_SHIFT) (filter (\<lambda>pgd. pgd \<noteq> 0) pgds)"

lemma reversed_pgds_take:
  assumes "reversed_pgds_loop i n covered filled st = Some (rc, st')" and "CO_OK rc"
    and "i + n = length (reversed_map_pgds st)" and "unat (hostmem_pages st) \<le> 2 ^ 20"
  shows "\<exists>zs. offered st = pgd_pages zs @ offered st' \<and> reversed_map_pgds st' = take i (reversed_map_pgds st) @ zs \<and>
    put_pages st' = put_pages st \<and> reversed_map_pfns st' = reversed_map_pfns st"
  using assms
proof (induction i n covered filled st rule: reversed_pgds_loop.induct)
  case (1 i covered filled st)
  then show ?case by (auto simp: pgd_pages_def)
next
  case (2 i n covered filled st)
  show ?case
  proof (cases "hostmem_pages st \<le> covered")
    case True
    let ?st1 = "st\<lparr>reversed_map_pgds := (reversed_map_pgds st)[i := 0]\<rparr>"
    have "\<exists>zs. offered ?st1 = pgd_pages zs @ offered st' \<and> reversed_map_pgds st' = take (Suc i) (reversed_map_pgds ?st1) @ zs \<and>
        put_pages st' = put_pages ?st1 \<and> reversed_map_pfns st' = reversed_map_pfns ?st1"
      using "2.IH"(1) [OF True] "2.prems" True by simp
    then obtain zs where "offered st = pgd_pages zs @ offered st'" "reversed_map_pgds st' = take i (reversed_map_pgds st) @ 0 # zs"
        "put_pages st' = put_pages st" "reversed_map_pfns st' = reversed_map_pfns st"
      using "2.prems"(3) by (auto simp: offered_def take_Suc_conv_app_nth)
    then show ?thesis by (intro exI [of _ "0 # zs"]) (simp add: pgd_pages_def)
  next
    case False
    obtain r st1 where get: "co_manager_get_page st = (r, st1)" by (cases "co_manager_get_page st")
    show ?thesis
    proof (cases r)
      case (Inl rc)
      then show ?thesis using "2.prems" False get get_page_fails by auto
    next
      case (Inr p)
      note got = get_page_takes [OF get [unfolded Inr]]
      obtain st2 where w: "page_write p 0 (concat (map le_bytes (reversed_ptes st1 filled))) st1 = Some st2"
        by (simp add: page_write_def)
      obtain f where f: "st2 = st1\<lparr>frame := f\<rparr>" using page_write_fields [OF w] by blast
      let ?z = "push_bit CO_ARCH_PAGE_SHIFT p OR KERNPG_TABLE"
      let ?st3 = "st2\<lparr>reversed_map_pgds := (reversed_map_pgds st2)[i := ?z]\<rparr>"
      have same: "reversed_map_pgds st2 = reversed_map_pgds st" "put_pages st2 = put_pages st"
          "hostmem_pages st2 = hostmem_pages st" "reversed_map_pfns st2 = reversed_map_pfns st" "offered st2 = offered st1"
        unfolding f by (subst conjunct2 [OF conjunct2 [OF got]]; simp)+ (simp add: offered_def)
      have "unat p < unat (hostmem_pages st)" using got by (simp add: word_less_nat_alt)
      then have p: "drop_bit CO_ARCH_PAGE_SHIFT ?z = p" "?z \<noteq> 0" using pgd_page "2.prems"(4) by auto
      have "\<exists>zs. offered ?st3 = pgd_pages zs @ offered st' \<and> reversed_map_pgds st' = take (Suc i) (reversed_map_pgds ?st3) @ zs \<and>
          put_pages st' = put_pages ?st3 \<and> reversed_map_pfns st' = reversed_map_pfns ?st3"
        using "2.IH"(2) [OF False get [symmetric] Inr w] "2.prems" False get Inr w same by simp
      then obtain zs where "offered st1 = pgd_pages zs @ offered st'" "reversed_map_pgds st' = take i (reversed_map_pgds st) @ ?z # zs"
          "put_pages st' = put_pages st" "reversed_map_pfns st' = reversed_map_pfns st"
        using "2.prems"(3) same by (auto simp: offered_def take_Suc_conv_app_nth)
      then show ?thesis using got p by (intro exI [of _ "?z # zs"]) (simp add: pgd_pages_def)
    qed
  qed
qed

text \<open>
  On a host with at most 4 GB the reversed map owns its pages exactly: freeing a map that was
  built gives back to the host every page that building it took, each once, and no other. (The
  entries of its top level have 20 bits for a page number.)
\<close>

theorem reversed_pfns_roundtrip:
  assumes "co_manager_alloc_reversed_pfns junk st = Some (CO_RC_OK, st')"
    and "unat (hostmem_pages st) \<le> 2 ^ 20" and "length junk = reversed_map_pgds_count"
  shows "mset (put_pages (co_manager_free_reversed_pfns st')) + mset (offered st') =
    mset (put_pages st) + mset (offered st)"
proof -
  let ?st0 = "st\<lparr>reversed_page_count := hostmem_pages st div PTRS_PER_PTE\<rparr>"
  let ?n = "unat (hostmem_pages st div PTRS_PER_PTE)"
  obtain b st1 where m1: "co_os_malloc_answer ?st0 = (b, st1)" by (cases "co_os_malloc_answer ?st0")
  obtain rc st2 where loop1: "reversed_pages_loop 0 (unat (reversed_page_count st1)) (st1\<lparr>reversed_map_pfns := replicate (unat (reversed_page_count st1)) 0\<rparr>) = (rc, st2)"
    by (cases "reversed_pages_loop 0 (unat (reversed_page_count st1)) (st1\<lparr>reversed_map_pfns := replicate (unat (reversed_page_count st1)) 0\<rparr>)")
  obtain c st3 where m2: "co_os_malloc_answer st2 = (c, st3)" by (cases "co_os_malloc_answer st2")
  have ok: "b" "CO_OK rc" "c" and loop2: "reversed_pgds_loop 0 reversed_map_pgds_count 0 0
      (st3\<lparr>reversed_map_pgds := take reversed_map_pgds_count junk\<rparr>) = Some (CO_RC_OK, st')"
    using assms(1) m1 loop1 m2
    by (auto simp: co_manager_alloc_reversed_pfns_def Let_def CO_OK_def split: bool.splits if_splits)
  have keep: "offered y = offered x \<and> put_pages y = put_pages x \<and> hostmem_pages y = hostmem_pages x \<and>
      reversed_map_pfns y = reversed_map_pfns x" if "co_os_malloc_answer x = (d, y)" for x d y
    using that by (auto simp: co_os_malloc_answer_def offered_def split: list.splits)
  obtain qs where qs: "offered st1 = qs @ offered st2" "reversed_map_pfns st2 = qs" "put_pages st2 = put_pages st1"
      "hostmem_pages st2 = hostmem_pages st1"
    using reversed_pages_take [OF loop1 ok(2)] by (auto simp: offered_def)
  have "unat (hostmem_pages (st3\<lparr>reversed_map_pgds := take reversed_map_pgds_count junk\<rparr>)) \<le> 2 ^ 20"
    using keep [OF m1] keep [OF m2] qs(4) assms(2) by simp
  from reversed_pgds_take [OF loop2 _ _ this] obtain zs where zs: "offered st3 = pgd_pages zs @ offered st'"
      "reversed_map_pgds st' = zs" "put_pages st' = put_pages st3" "reversed_map_pfns st' = reversed_map_pfns st3"
    using assms(3) by (auto simp: CO_OK_def offered_def)
  have "put_pages (co_manager_free_reversed_pfns st') = put_pages st' @ qs @ pgd_pages zs"
    using zs(2,4) keep [OF m2] qs(2) by (simp add: co_manager_free_reversed_pfns_def fold_put pgd_pages_def)
  moreover have "offered st = qs @ pgd_pages zs @ offered st'"
    using keep [OF m1] keep [OF m2] qs(1) zs(1) by (simp add: offered_def)
  ultimately show ?thesis using zs(3) keep [OF m1] keep [OF m2] qs(3) by (simp add: ac_simps)
qed

text \<open>A host of 1024 pages that hands out the pages 5 and 6.\<close>

theorem reversed_pfns_roundtrip_witness:
  "\<exists>st'. co_manager_alloc_reversed_pfns [0, 0, 0, 0] demo_pages = Some (CO_RC_OK, st') \<and>
    mset (put_pages (co_manager_free_reversed_pfns st')) = {#5, 6#}"
proof -
  have cnt: "reversed_map_pgds_count = Suc (Suc (Suc (Suc 0)))"
    by (simp add: reversed_map_pgds_count_def page_consts)
  have "\<exists>st'. co_manager_alloc_reversed_pfns [0, 0, 0, 0] demo_pages = Some (CO_RC_OK, st') \<and> offered st' = []"
    by (simp add: co_manager_alloc_reversed_pfns_def Let_def co_os_malloc_answer_def demo_pages_def cnt
        co_manager_get_page_def co_os_get_page_def PTRS_PER_PTE_def PTRS_PER_PGD_def CO_OK_def page_write_def
        offered_def map_filter_simps)
  then show ?thesis
    using reversed_pfns_roundtrip [of "[0, 0, 0, 0]" demo_pages]
    by (auto simp: demo_pages_def cnt offered_def map_filter_simps)
qed

end
