(* ===== verification/Co_Unicode.thy ===== *)
theory Co_Unicode
  imports Co_Libc Ret_Code
begin

unbundle bit_operations_syntax

text \<open>
  The conversions between UTF-8 and 16 bit characters (\<open>src/colinux/common/unicode.c\<close>), which the
  file system uses for the names on a Windows host. A C string is a list of bytes that holds a NUL;
  a buffer is a list with its size, and a read or write outside of one is \<^term>\<open>None\<close>. The
  integers are \<open>long\<close> (32 bits), compared as signed numbers.
\<close>

type_synonym co_wchar = ushort

section \<open>One character\<close>

record utf8_entry =
  cmask :: ulong
  cval :: ulong
  shift :: nat
  lmask :: ulong
  lval :: ulong

definition utf8_table :: "utf8_entry list" where
  "utf8_table = [
     \<lparr>cmask = 0x80, cval = 0x00, shift = 0, lmask = 0x7F, lval = 0\<rparr>,
     \<lparr>cmask = 0xE0, cval = 0xC0, shift = 6, lmask = 0x7FF, lval = 0x80\<rparr>,
     \<lparr>cmask = 0xF0, cval = 0xE0, shift = 12, lmask = 0xFFFF, lval = 0x800\<rparr>,
     \<lparr>cmask = 0xF8, cval = 0xF0, shift = 18, lmask = 0x1FFFFF, lval = 0x10000\<rparr>,
     \<lparr>cmask = 0xFC, cval = 0xF8, shift = 24, lmask = 0x3FFFFFF, lval = 0x200000\<rparr>,
     \<lparr>cmask = 0xFE, cval = 0xFC, shift = 30, lmask = 0x7FFFFFFF, lval = 0x4000000\<rparr>]"

text \<open>The loop over the table: \<open>s\<close> starts at the byte the pointer is on, \<open>nc\<close> counts the rows
  before this one. The result is the character and the number of its bytes, or \<^term>\<open>None\<close> for
  \<open>-1\<close>; the outer \<^term>\<open>None\<close> is a read past the string.\<close>

fun mbtowc_loop ::
  "utf8_entry list \<Rightarrow> ulong \<Rightarrow> ulong \<Rightarrow> nat \<Rightarrow> uchar list \<Rightarrow> int \<Rightarrow> (co_wchar \<times> nat) option option" where
  "mbtowc_loop [] c0 l nc s n = Some None"
| "mbtowc_loop (t # ts) c0 l nc s n =
     (let nc = nc + 1 in
      if c0 AND cmask t = cval t then
        (let l = l AND lmask t
         in if sint l < sint (lval t) then Some None else Some (Some (ucast l, nc)))
      else if n \<le> int nc then Some None
      else case s of
        _ # d # s' \<Rightarrow>
          (let c = (ucast d XOR 0x80) AND 0xFF :: ulong
           in if c AND 0xC0 \<noteq> 0 then Some None
              else mbtowc_loop ts c0 (push_bit 6 l OR c) nc (d # s') n)
      | _ \<Rightarrow> None)"

definition utf8_mbtowc :: "uchar list \<Rightarrow> int \<Rightarrow> (co_wchar \<times> nat) option option" where
  "utf8_mbtowc s n =
     (case s of
        [] \<Rightarrow> None
      | b # _ \<Rightarrow> mbtowc_loop utf8_table (ucast b) (ucast b) 0 s n)"

lemma mbtowc_loop_pos: "mbtowc_loop ts c0 l nc s n = Some (Some (wc, sz)) \<Longrightarrow> nc < sz"
proof (induction ts arbitrary: l nc s)
  case (Cons t ts)
  then show ?case by (fastforce simp: Let_def split: if_splits list.splits)
qed simp

lemma utf8_mbtowc_pos: "utf8_mbtowc s n = Some (Some (wc, sz)) \<Longrightarrow> 0 < sz"
  by (auto simp: utf8_mbtowc_def dest: mbtowc_loop_pos split: list.splits)

text \<open>The bytes after the first, from shift \<open>c\<close> down.\<close>

fun tail_bytes :: "ulong \<Rightarrow> nat \<Rightarrow> uchar list" where
  "tail_bytes l c =
     (if c = 0 then [] else (0x80 OR (ucast (drop_bit (c - 6) l) AND 0x3F)) # tail_bytes l (c - 6))"

declare tail_bytes.simps [simp del]

fun wctomb_loop :: "utf8_entry list \<Rightarrow> ulong \<Rightarrow> int \<Rightarrow> uchar list option" where
  "wctomb_loop [] l maxlen = None"
| "wctomb_loop (t # ts) l maxlen =
     (if maxlen = 0 then None
      else if sint l \<le> sint (lmask t)
        then Some ((ucast (cval t) OR ucast (drop_bit (shift t) l)) # tail_bytes l (shift t))
      else wctomb_loop ts l (maxlen - 1))"

text \<open>The bytes written, or \<^term>\<open>None\<close> for \<open>-1\<close>, which writes nothing.\<close>

definition utf8_wctomb :: "co_wchar \<Rightarrow> int \<Rightarrow> uchar list option" where
  "utf8_wctomb wc maxlen = wctomb_loop utf8_table (ucast wc) maxlen"

section \<open>Strings\<close>

definition question :: nat where "question = 0x3F"

text \<open>\<open>co_utf8_mbstrlen\<close>: the number of characters; what does not decode counts for one.\<close>

function mbstrlen_loop :: "uchar list \<Rightarrow> int \<Rightarrow> nat \<Rightarrow> nat option" where
  "mbstrlen_loop ip maxlen len =
     (if maxlen \<le> 0 then Some len
      else case ip of
        [] \<Rightarrow> None
      | b # ip' \<Rightarrow>
          if b = 0 then Some len
          else if b AND 0x80 \<noteq> 0 then
            (case utf8_mbtowc ip maxlen of
               None \<Rightarrow> None
             | Some None \<Rightarrow> mbstrlen_loop ip' (maxlen - 1) (len + 1)
             | Some (Some (wc, sz)) \<Rightarrow>
                 mbstrlen_loop (drop sz ip) (maxlen - int sz) (len + 1))
          else mbstrlen_loop ip' (maxlen - 1) (len + 1))"
  by pat_completeness auto
termination
  by (relation "measure (\<lambda>(ip, maxlen, len). nat maxlen)") (auto dest: utf8_mbtowc_pos)

declare mbstrlen_loop.simps [simp del]

definition co_utf8_mbstrlen :: "uchar list \<Rightarrow> nat option" where
  "co_utf8_mbstrlen src = Option.bind (co_strlen src) (\<lambda>n. mbstrlen_loop src (int n) 0)"

fun co_utf8_mcstrlen :: "co_wchar list \<Rightarrow> nat option" where
  "co_utf8_mcstrlen [] = None"
| "co_utf8_mcstrlen (w # ws) = (if w \<noteq> 0 then map_option Suc (co_utf8_mcstrlen ws) else Some 0)"

text \<open>The loop of \<open>co_utf8_mbstowcs\<close> writes at \<open>op\<close>; the pair is the buffer and where it stopped.\<close>

function mbstowcs_loop ::
  "co_wchar list \<Rightarrow> nat \<Rightarrow> uchar list \<Rightarrow> int \<Rightarrow> (co_wchar list \<times> nat \<times> int) option" where
  "mbstowcs_loop dest op ip maxlen =
     (if maxlen \<le> 0 then Some (dest, op, maxlen)
      else case ip of
        [] \<Rightarrow> None
      | b # ip' \<Rightarrow>
          if b = 0 then Some (dest, op, maxlen)
          else if b AND 0x80 \<noteq> 0 then
            (case utf8_mbtowc ip maxlen of
               None \<Rightarrow> None
             | Some None \<Rightarrow>
                 (case store_at dest (int op) (word_of_nat question) of
                    None \<Rightarrow> None
                  | Some dest \<Rightarrow> mbstowcs_loop dest (op + 1) ip' (maxlen - 1))
             | Some (Some (wc, sz)) \<Rightarrow>
                 (case store_at dest (int op) wc of
                    None \<Rightarrow> None
                  | Some dest \<Rightarrow> mbstowcs_loop dest (op + 1) (drop sz ip) (maxlen - 1)))
          else
            (case store_at dest (int op) (ucast b) of
               None \<Rightarrow> None
             | Some dest \<Rightarrow> mbstowcs_loop dest (op + 1) ip' (maxlen - 1)))"
  by pat_completeness auto
termination
  by (relation "measure (\<lambda>(dest, op, ip, maxlen). nat maxlen)") auto

declare mbstowcs_loop.simps [simp del]

definition co_utf8_mbstowcs :: "co_wchar list \<Rightarrow> uchar list \<Rightarrow> int \<Rightarrow> (co_rc_value \<times> co_wchar list) option" where
  "co_utf8_mbstowcs dest src maxlen =
     Option.bind (mbstowcs_loop dest 0 src maxlen) (\<lambda>(dest, op, maxlen).
       map_option (\<lambda>dest. (if maxlen < 0 then CO_RC_ERROR else CO_RC_OK, dest)) (store_at dest (int op) 0))"

text \<open>Bytes written one after the other.\<close>

fun store_list :: "uchar list \<Rightarrow> nat \<Rightarrow> uchar list \<Rightarrow> uchar list option" where
  "store_list dest op [] = Some dest"
| "store_list dest op (b # bs) = Option.bind (store_at dest (int op) b) (\<lambda>dest. store_list dest (op + 1) bs)"

fun wcstombs_loop ::
  "uchar list \<Rightarrow> nat \<Rightarrow> co_wchar list \<Rightarrow> int \<Rightarrow> (uchar list \<times> nat \<times> int) option" where
  "wcstombs_loop dest op ip maxlen =
     (if maxlen \<le> 0 then Some (dest, op, maxlen)
      else case ip of
        [] \<Rightarrow> None
      | wc # ip' \<Rightarrow>
          if wc = 0 then Some (dest, op, maxlen)
          else
            let bs = (if 0x7f < wc
                      then case utf8_wctomb wc maxlen of None \<Rightarrow> [word_of_nat question] | Some bs \<Rightarrow> bs
                      else [ucast wc])
            in case store_list dest op bs of
                 None \<Rightarrow> None
               | Some dest \<Rightarrow> wcstombs_loop dest (op + length bs) ip' (maxlen - int (length bs)))"

declare wcstombs_loop.simps [simp del]

definition co_utf8_wcstombs :: "uchar list \<Rightarrow> co_wchar list \<Rightarrow> int \<Rightarrow> (co_rc_value \<times> uchar list) option" where
  "co_utf8_wcstombs dest src maxlen =
     Option.bind (wcstombs_loop dest 0 src (maxlen - 1)) (\<lambda>(dest, op, maxlen).
       map_option (\<lambda>dest. (if maxlen < 0 then CO_RC_ERROR else CO_RC_OK, dest)) (store_at dest (int op) 0))"

fun wctowbstrlen_loop :: "co_wchar list \<Rightarrow> nat \<Rightarrow> nat \<Rightarrow> nat option" where
  "wctowbstrlen_loop ip 0 len = Some len"
| "wctowbstrlen_loop [] (Suc maxlen) len = None"
| "wctowbstrlen_loop (wc # ip) (Suc maxlen) len =
     (if wc = 0 then Some len
      else wctowbstrlen_loop ip maxlen
        (len + (if 0x7f < wc then (case utf8_wctomb wc 8 of None \<Rightarrow> 1 | Some bs \<Rightarrow> length bs) else 1)))"

definition co_utf8_wctowbstrlen :: "co_wchar list \<Rightarrow> int \<Rightarrow> nat option" where
  "co_utf8_wctowbstrlen src maxlen = wctowbstrlen_loop src (nat maxlen) 0"

text \<open>\<open>junk\<close> is what is in the block the host allocates, which has room for two more than the
  string's characters; the result has the new string and its length.\<close>

definition co_utf8_dup_to_wc ::
  "bool \<Rightarrow> co_wchar list \<Rightarrow> uchar list \<Rightarrow> (co_rc_value + (co_wchar list \<times> nat)) option" where
  "co_utf8_dup_to_wc allocated junk src =
     Option.bind (co_utf8_mbstrlen src) (\<lambda>n.
       let sz = n + 1
       in if \<not> allocated then Some (Inl CO_RC_OUT_OF_MEMORY)
          else map_option (\<lambda>(rc, buffer). if CO_OK rc then Inr (buffer, sz - 1) else Inl rc)
                 (co_utf8_mbstowcs (take (sz + 1) junk) src (int sz)))"

section \<open>The bytes of a character\<close>

lemma two_bytes:
  fixes wc :: co_wchar
  assumes "wc < 2 ^ 11"
  defines "c0 \<equiv> ucast (0xC0 OR ucast (drop_bit 6 wc) :: uchar) :: ulong"
    and "c \<equiv> (ucast (0x80 OR (ucast wc AND 0x3F) :: uchar) XOR 0x80) AND 0xFF :: ulong"
  shows "c0 AND 0x80 \<noteq> 0" and "c0 AND 0xE0 = 0xC0" and "c AND 0xC0 = 0"
    and "(push_bit 6 c0 OR c) AND 0x7FF = ucast wc"
proof -
  note hi = low_bits [OF assms(1)]
  have "bit (c0 AND 0x80) 7" by (simp add: c0_def bit_simps)
  then show "c0 AND 0x80 \<noteq> 0" by auto
  show "c0 AND 0xE0 = 0xC0"
    by (rule word32_eqI) (simp add: c0_def bit_simps hi)
  show "c AND 0xC0 = 0"
    by (rule word32_eqI) (simp add: c_def bit_simps)
  show "(push_bit 6 c0 OR c) AND 0x7FF = ucast wc"
    by (rule word32_eqI) (simp add: c0_def c_def bit_simps hi)
qed


lemma three_bytes:
  fixes wc :: co_wchar
  defines "c0 \<equiv> ucast (0xE0 OR ucast (drop_bit 12 wc) :: uchar) :: ulong"
    and "c1 \<equiv> (ucast (0x80 OR (ucast (drop_bit 6 wc) AND 0x3F) :: uchar) XOR 0x80) AND 0xFF :: ulong"
    and "c2 \<equiv> (ucast (0x80 OR (ucast wc AND 0x3F) :: uchar) XOR 0x80) AND 0xFF :: ulong"
  shows "c0 AND 0x80 \<noteq> 0" and "c0 AND 0xE0 \<noteq> 0xC0" and "c0 AND 0xF0 = 0xE0" and "c1 AND 0xC0 = 0" and "c2 AND 0xC0 = 0"
    and "(push_bit 6 (push_bit 6 c0 OR c1) OR c2) AND 0xFFFF = ucast wc"
proof -
  have hi: "\<not> bit wc n" if "16 \<le> n" for n using bit_imp_le_length [of wc n] that by auto
  have "bit (c0 AND 0x80) 7" by (simp add: c0_def bit_simps)
  then show "c0 AND 0x80 \<noteq> 0" by auto
  have "bit (c0 AND 0xE0) 5" by (simp add: c0_def bit_simps)
  moreover have "\<not> bit (0xC0 :: ulong) 5" by simp
  ultimately show "c0 AND 0xE0 \<noteq> 0xC0" by metis
  show "c0 AND 0xF0 = 0xE0"
    by (rule word32_eqI) (simp add: c0_def bit_simps hi)
  show "c1 AND 0xC0 = 0"
    by (rule word32_eqI) (simp add: c1_def bit_simps)
  show "c2 AND 0xC0 = 0"
    by (rule word32_eqI) (simp add: c2_def bit_simps)
  show "(push_bit 6 (push_bit 6 c0 OR c1) OR c2) AND 0xFFFF = ucast wc"
    by (rule word32_eqI) (simp add: c0_def c1_def c2_def bit_simps hi)
qed

text \<open>The number of bytes of a character, and the bytes.\<close>

definition utf8_len :: "co_wchar \<Rightarrow> nat" where
  "utf8_len wc = (if wc \<le> 0x7F then 1 else if wc \<le> 0x7FF then 2 else 3)"

definition utf8_bytes :: "co_wchar \<Rightarrow> uchar list" where
  "utf8_bytes wc =
     (if wc \<le> 0x7F then [ucast wc]
      else if wc \<le> 0x7FF then [0xC0 OR ucast (drop_bit 6 wc), 0x80 OR (ucast wc AND 0x3F)]
      else [0xE0 OR ucast (drop_bit 12 wc), 0x80 OR (ucast (drop_bit 6 wc) AND 0x3F), 0x80 OR (ucast wc AND 0x3F)])"

lemma length_utf8_bytes [simp]: "length (utf8_bytes wc) = utf8_len wc"
  by (simp add: utf8_bytes_def utf8_len_def)

lemma sint_wchar: "sint (ucast (wc :: co_wchar) :: ulong) = uint wc"
proof -
  have "sint (ucast wc :: ulong) = int (unat (ucast wc :: ulong))"
    using ushort_less [of wc] by (intro sint_of_small) simp
  then show ?thesis by simp
qed

lemma ucast_back: "ucast (ucast (wc :: co_wchar) :: ulong) = wc"
  by (rule bit_word_eqI) (auto simp: bit_simps dest: bit_imp_le_length)

lemma ucast_drop: "ucast (drop_bit k (ucast (wc :: co_wchar) :: ulong)) = (ucast (drop_bit k wc) :: uchar)"
  by (rule bit_word_eqI) (auto simp: bit_simps dest: bit_imp_le_length)

lemma ucast_twice: "ucast (ucast (wc :: co_wchar) :: ulong) = (ucast wc :: uchar)"
  using ucast_drop [of 0 wc] by simp

lemma wctomb_bytes:
  assumes "0x7F < wc" and "int (utf8_len wc) \<le> n"
  shows "utf8_wctomb wc n = Some (utf8_bytes wc)"
proof -
  have "uint wc < 65536" using unsigned_less [of wc, where ?'a = int] by simp
  then show ?thesis
    using assms
    by (cases "wc \<le> 0x7FF")
      (simp_all add: utf8_wctomb_def utf8_table_def sint_wchar utf8_len_def utf8_bytes_def tail_bytes.simps
        ucast_drop ucast_twice word_less_def word_le_def)
qed

lemma wctomb_short:
  assumes "0x7F < wc" and "0 < n" "n < int (utf8_len wc)"
  shows "utf8_wctomb wc n = None"
proof -
  have "n = 1 \<or> n = 2" using assms(2,3) by (auto simp: utf8_len_def split: if_splits)
  then show ?thesis
    using assms
    by (auto simp: utf8_wctomb_def utf8_table_def sint_wchar utf8_len_def word_less_def word_le_def split: if_splits)
qed

text \<open>What was encoded is decoded, when the count passed with it covers the bytes.\<close>

lemma mbtowc_bytes:
  assumes "0x7F < wc" and "int (utf8_len wc) \<le> n"
  shows "utf8_mbtowc (utf8_bytes wc @ rest) n = Some (Some (wc, utf8_len wc))"
proof (cases "wc \<le> 0x7FF")
  case True
  then have "wc < 2 ^ 11" by (simp add: word_le_nat_alt word_less_nat_alt)
  note two = two_bytes [OF this]
  show ?thesis
    using True assms two
    by (simp add: utf8_mbtowc_def utf8_table_def utf8_bytes_def utf8_len_def Let_def sint_wchar ucast_back word_less_def word_le_def)
next
  case False
  then show ?thesis
    using assms three_bytes [of wc]
    by (simp add: utf8_mbtowc_def utf8_table_def utf8_bytes_def utf8_len_def Let_def sint_wchar ucast_back word_less_def word_le_def)
qed

section \<open>Encoding and decoding a string\<close>

definition utf8_string :: "co_wchar list \<Rightarrow> uchar list" where
  "utf8_string ws = concat (map utf8_bytes ws)"

lemma utf8_string_simps [simp]:
  "utf8_string [] = []" "utf8_string (w # ws) = utf8_bytes w @ utf8_string ws"
  "utf8_string (us @ ws) = utf8_string us @ utf8_string ws"
  by (simp_all add: utf8_string_def)

lemma store_at_nth: "op < length xs \<Longrightarrow> store_at xs (int op) v = Some (xs[op := v])"
  by (simp add: store_at_def)

lemma store_list_Some:
  "op + length bs \<le> length dest \<Longrightarrow> store_list dest op bs = Some (take op dest @ bs @ drop (op + length bs) dest)"
proof (induction dest op bs rule: store_list.induct)
  case (2 dest op b bs)
  have "take (Suc op) (dest[op := b]) = take op dest @ [b]"
    using "2.prems" by (simp add: take_Suc_conv_app_nth)
  then show ?case using 2 by (simp add: store_at_nth)
qed simp

lemma wcstombs_encodes:
  assumes "0 \<notin> set ws" and "op + length (utf8_string ws) \<le> length dest" and "int (length (utf8_string ws)) \<le> maxlen"
  shows "wcstombs_loop dest op (ws @ 0 # r) maxlen =
    Some (take op dest @ utf8_string ws @ drop (op + length (utf8_string ws)) dest,
      op + length (utf8_string ws), maxlen - int (length (utf8_string ws)))"
  using assms
proof (induction ws arbitrary: dest op maxlen)
  case Nil
  then show ?case by (simp add: wcstombs_loop.simps)
next
  case (Cons w ws)
  have len: "0 < utf8_len w" "int (utf8_len w) \<le> maxlen" using Cons.prems(3) by (simp_all add: utf8_len_def)
  have bs: "(if 0x7f < w then case utf8_wctomb w maxlen of None \<Rightarrow> [word_of_nat question] | Some bs \<Rightarrow> bs else [ucast w]) = utf8_bytes w"
    using wctomb_bytes [of w maxlen] len by (simp add: utf8_bytes_def linorder_not_less)
  have st: "store_list dest op (utf8_bytes w) = Some (take op dest @ utf8_bytes w @ drop (op + utf8_len w) dest)"
    using store_list_Some [of op "utf8_bytes w" dest] Cons.prems(2) by simp
  let ?d = "take op dest @ utf8_bytes w @ drop (op + utf8_len w) dest"
  have "wcstombs_loop dest op ((w # ws) @ 0 # r) maxlen = wcstombs_loop ?d (op + utf8_len w) (ws @ 0 # r) (maxlen - int (utf8_len w))"
    using Cons.prems(1) len st by (simp add: wcstombs_loop.simps [of dest op "w # _"] bs Let_def)
  also have "\<dots> = Some (take (op + utf8_len w) ?d @ utf8_string ws @ drop (op + utf8_len w + length (utf8_string ws)) ?d,
      op + utf8_len w + length (utf8_string ws), maxlen - int (utf8_len w) - int (length (utf8_string ws)))"
    using Cons.prems by (intro Cons.IH) auto
  finally show ?case using Cons.prems(2) by (simp add: ac_simps)
qed

text \<open>The count that is left must cover the bytes of each character that has several.\<close>

fun count_covers :: "co_wchar list \<Rightarrow> int \<Rightarrow> bool" where
  "count_covers [] n \<longleftrightarrow> True"
| "count_covers (w # ws) n \<longleftrightarrow> 0 < n \<and> (0x7F < w \<longrightarrow> int (utf8_len w) \<le> n) \<and> count_covers ws (n - 1)"

lemma high_byte: "0x7F < w \<Longrightarrow> \<exists>b bs. utf8_bytes w = b # bs \<and> b AND 0x80 \<noteq> 0 \<and> b \<noteq> 0"
proof -
  assume w: "0x7F < w"
  have "bit ((0xC0 OR ucast (drop_bit 6 w)) AND 0x80 :: uchar) 7" "bit ((0xE0 OR ucast (drop_bit 12 w)) AND 0x80 :: uchar) 7"
    by (simp_all add: bit_simps)
  then have "(0xC0 OR ucast (drop_bit 6 w)) AND 0x80 \<noteq> (0 :: uchar)" "(0xE0 OR ucast (drop_bit 12 w)) AND 0x80 \<noteq> (0 :: uchar)"
    by auto
  moreover from this have "0xC0 OR ucast (drop_bit 6 w) \<noteq> (0 :: uchar)" "0xE0 OR ucast (drop_bit 12 w) \<noteq> (0 :: uchar)"
    by (metis and_zero_eq bit.conj_zero_left)+
  ultimately show ?thesis using w by (auto simp: utf8_bytes_def)
qed

lemma low_byte:
  assumes "w \<le> 0x7F"
  shows "utf8_bytes w = [ucast w]" and "(ucast w :: uchar) AND 0x80 = 0" and "ucast (ucast w :: uchar) = w"
    and "w \<noteq> 0 \<Longrightarrow> ucast w \<noteq> (0 :: uchar)"
proof -
  have "w < 2 ^ 7" using assms by (simp add: word_le_nat_alt word_less_nat_alt)
  note hi = low_bits [OF this]
  show "utf8_bytes w = [ucast w]" using assms by (simp add: utf8_bytes_def)
  show "(ucast w :: uchar) AND 0x80 = 0"
    by (rule word8_eqI) (simp add: bit_simps hi)
  have again: "ucast (ucast w :: uchar) = w"
  proof (rule bit_word_eqI)
    fix n
    show "bit (ucast (ucast w :: uchar) :: co_wchar) n = bit w n"
      using hi [of n] by (cases "7 \<le> n") (auto simp: bit_simps)
  qed
  then show "ucast (ucast w :: uchar) = w" .
  show "w \<noteq> 0 \<Longrightarrow> ucast w \<noteq> (0 :: uchar)" using again by auto
qed

lemma bytes_nonzero: "w \<noteq> 0 \<Longrightarrow> 0 \<notin> set (utf8_bytes w)"
proof -
  have "bit (0x80 OR c :: uchar) 7" "bit (0xC0 OR c :: uchar) 7" "bit (0xE0 OR c :: uchar) 7" for c :: uchar
    by (simp_all add: bit_simps)
  then have *: "0x80 OR c \<noteq> (0 :: uchar)" "0xC0 OR c \<noteq> (0 :: uchar)" "0xE0 OR c \<noteq> (0 :: uchar)" for c :: uchar
    by (metis bit_0_eq bot_apply bot_bool_def)+
  show "w \<noteq> 0 \<Longrightarrow> 0 \<notin> set (utf8_bytes w)"
    using low_byte(4) [of w] by (auto simp: utf8_bytes_def *)
qed

lemma string_nonzero: "0 \<notin> set ws \<Longrightarrow> 0 \<notin> set (utf8_string ws)"
  by (induction ws) (auto dest: bytes_nonzero)

lemma mbstrlen_decodes:
  "0 \<notin> set ws \<Longrightarrow> mbstrlen_loop (utf8_string ws @ 0 # r) (int (length (utf8_string ws))) len = Some (len + length ws)"
proof (induction ws arbitrary: len)
  case Nil
  then show ?case by (simp add: mbstrlen_loop.simps)
next
  case (Cons w ws)
  show ?case
  proof (cases "0x7F < w")
    case True
    obtain b bs where b: "utf8_bytes w = b # bs" "b AND 0x80 \<noteq> 0" "b \<noteq> 0" using high_byte [OF True] by blast
    have len: "length bs + 1 = utf8_len w" using arg_cong [OF b(1), of length] by simp
    have "utf8_mbtowc (b # bs @ utf8_string ws @ 0 # r) (1 + (int (length bs) + int (length (utf8_string ws)))) = Some (Some (w, utf8_len w))"
      using mbtowc_bytes [OF True, of _ "utf8_string ws @ 0 # r"] b(1) len by simp
    then show ?thesis
      using Cons b len [symmetric] by (simp add: mbstrlen_loop.simps [of "_ # _"])
  next
    case False
    then show ?thesis
      using Cons low_byte [of w] by (simp add: mbstrlen_loop.simps [of "_ # _"] utf8_len_def)
  qed
qed

lemma mbstowcs_decodes:
  assumes "0 \<notin> set ws" and "count_covers ws maxlen" and "op + length ws \<le> length dest"
  shows "mbstowcs_loop dest op (utf8_string ws @ s) maxlen =
    mbstowcs_loop (take op dest @ ws @ drop (op + length ws) dest) (op + length ws) s (maxlen - int (length ws))"
  using assms
proof (induction ws arbitrary: dest op maxlen)
  case (Cons w ws)
  have st: "store_at dest (int op) w = Some (dest[op := w])"
    using Cons.prems(3) by (simp add: store_at_nth)
  have upd: "take (Suc op) (dest[op := w]) @ ws @ drop (Suc op + length ws) (dest[op := w]) =
    take op dest @ (w # ws) @ drop (op + length (w # ws)) dest"
    using Cons.prems(3) by (simp add: take_Suc_conv_app_nth)
  have "mbstowcs_loop dest op (utf8_string (w # ws) @ s) maxlen =
    mbstowcs_loop (dest[op := w]) (Suc op) (utf8_string ws @ s) (maxlen - 1)"
  proof (cases "0x7F < w")
    case True
    obtain b bs where b: "utf8_bytes w = b # bs" "b AND 0x80 \<noteq> 0" "b \<noteq> 0" using high_byte [OF True] by blast
    have len: "length bs + 1 = utf8_len w" using arg_cong [OF b(1), of length] by simp
    have "utf8_mbtowc (b # bs @ utf8_string ws @ s) maxlen = Some (Some (w, utf8_len w))"
      using mbtowc_bytes [OF True, of maxlen "utf8_string ws @ s"] b(1) True Cons.prems(2) by simp
    then show ?thesis
      using Cons.prems st b len [symmetric] by (simp add: mbstowcs_loop.simps [of _ _ "_ # _"])
  next
    case False
    then show ?thesis
      using Cons.prems st low_byte [of w] by (simp add: mbstowcs_loop.simps [of _ _ "_ # _"])
  qed
  also have "\<dots> = mbstowcs_loop (take (Suc op) (dest[op := w]) @ ws @ drop (Suc op + length ws) (dest[op := w]))
      (Suc op + length ws) s (maxlen - 1 - int (length ws))"
    using Cons.prems by (intro Cons.IH) auto
  finally show ?case using upd by (simp add: algebra_simps)
qed simp

lemma count_covers_more: "int (length us) + 2 \<le> n \<Longrightarrow> count_covers us n"
  by (induction us arbitrary: n) (auto simp: utf8_len_def)

lemma count_covers_append: "count_covers (us @ ws) n \<longleftrightarrow> count_covers us n \<and> count_covers ws (n - int (length us))"
  by (induction us arbitrary: n) (auto simp: algebra_simps)

lemma count_covers_last:
  "ws = [] \<or> utf8_len (last ws) \<le> 2 \<Longrightarrow> count_covers ws (int (length ws) + 1)"
  by (cases ws rule: rev_cases) (auto simp: count_covers_append count_covers_more)

lemma wctowbstrlen_length:
  "0 \<notin> set ws \<Longrightarrow> wctowbstrlen_loop (ws @ 0 # r) (length ws + k) len = Some (len + length (utf8_string ws))"
proof (induction ws arbitrary: len)
  case Nil
  then show ?case by (cases k) simp_all
next
  case (Cons w ws)
  have "(if 0x7f < w then (case utf8_wctomb w 8 of None \<Rightarrow> 1 | Some bs \<Rightarrow> length bs) else 1) = utf8_len w"
    using wctomb_bytes [of w 8] by (simp add: utf8_len_def linorder_not_less)
  then show ?case using Cons by simp
qed

section \<open>A name there and back\<close>

lemma dup_run:
  assumes "co_utf8_mbstrlen src = Some n" and "mbstowcs_loop (take (n + 2) junk) 0 src (int n + 1) = Some (d, op, m)"
    and "0 \<le> m" and "op < length d"
  shows "co_utf8_dup_to_wc True junk src = Some (Inr (d[op := 0], n))"
proof -
  have "co_utf8_mbstowcs (take (n + 2) junk) src (int n + 1) = Some (CO_RC_OK, d[op := 0])"
    using assms(2-4) by (simp add: co_utf8_mbstowcs_def store_at_nth)
  moreover have "int (n + 1) = int n + 1" "n + 1 + 1 = n + 2" by simp_all
  ultimately show ?thesis
    using assms(1) unfolding co_utf8_dup_to_wc_def Let_def by (simp only: bind.bind_lunit) (simp add: CO_OK_def)
qed

lemma dup_decodes:
  assumes "0 \<notin> set ws" and "count_covers ws (int (length ws) + 1)" and "length ws + 2 \<le> length junk"
  shows "co_utf8_dup_to_wc True junk (utf8_string ws @ 0 # r) = Some (Inr (ws @ [0, junk ! (length ws + 1)], length ws))"
proof -
  let ?buf = "take (length ws + 2) junk"
  have "co_utf8_mbstrlen (utf8_string ws @ 0 # r) = Some (length ws)"
    using mbstrlen_decodes [OF assms(1)] co_strlen_cstr [OF string_nonzero [OF assms(1)]]
    by (simp add: co_utf8_mbstrlen_def cstr_def)
  moreover have "mbstowcs_loop ?buf 0 (utf8_string ws @ 0 # r) (int (length ws) + 1) =
      Some (ws @ drop (length ws) ?buf, length ws, 1)"
    using mbstowcs_decodes [OF assms(1,2), of 0 ?buf "0 # r"] assms(3) by (simp add: mbstowcs_loop.simps)
  moreover have "drop (length ws) ?buf = [junk ! length ws, junk ! (length ws + 1)]"
    using assms(3) by (intro nth_equalityI) (auto simp: less_2_cases_iff)
  ultimately show ?thesis by (subst dup_run) auto
qed

text \<open>
  C32: a name without NUL goes to UTF-8 and back. \<open>co_utf8_wctowbstrlen\<close> gives the size of its
  encoding, \<open>co_utf8_wcstombs\<close> into a buffer with one byte more reports no error, and
  \<open>co_utf8_dup_to_wc\<close> of what it wrote gives the name, its NUL and its length, when the last
  character is one of at most two bytes (or the name is empty).
\<close>

theorem utf8_name_roundtrip:
  assumes "0 \<notin> set ws" and "ws = [] \<or> utf8_len (last ws) \<le> 2"
    and "co_utf8_wctowbstrlen (ws @ 0 # r) (int (length ws) + int k) = Some n"
    and "n < length buf" and "length ws + 2 \<le> length junk"
  shows "\<exists>bytes. co_utf8_wcstombs buf (ws @ 0 # r) (int n + 1) = Some (CO_RC_OK, bytes) \<and>
    co_utf8_dup_to_wc True junk bytes = Some (Inr (ws @ [0, junk ! (length ws + 1)], length ws))"
proof -
  have n: "n = length (utf8_string ws)"
    using wctowbstrlen_length [OF assms(1), of r k 0] assms(3) by (simp add: co_utf8_wctowbstrlen_def nat_add_distrib)
  have "wcstombs_loop buf 0 (ws @ 0 # r) (int n) = Some (utf8_string ws @ drop n buf, n, 0)"
    using wcstombs_encodes [OF assms(1), of 0 buf "int n" r] n assms(4) by simp
  then have "co_utf8_wcstombs buf (ws @ 0 # r) (int n + 1) =
      Some (CO_RC_OK, utf8_string ws @ 0 # drop (Suc n) buf)"
    using n assms(4) by (simp add: co_utf8_wcstombs_def store_at_nth list_update_append Cons_nth_drop_Suc [symmetric])
  moreover have "count_covers ws (int (length ws) + 1)" by (rule count_covers_last [OF assms(2)])
  ultimately show ?thesis using dup_decodes [OF assms(1) _ assms(5)] by blast
qed

theorem utf8_name_roundtrip_witness:
  "\<exists>bytes. co_utf8_wcstombs (replicate 8 7) [0x41, 0x20AC, 0xE9, 0] 7 = Some (CO_RC_OK, bytes) \<and>
    co_utf8_dup_to_wc True (replicate 5 9) bytes = Some (Inr ([0x41, 0x20AC, 0xE9, 0, 9], 3))"
proof -
  have "co_utf8_wctowbstrlen ([0x41, 0x20AC, 0xE9] @ 0 # []) (int (length [0x41, 0x20AC, 0xE9 :: co_wchar]) + int 0) = Some 6"
    by code_simp
  moreover have "utf8_len (last [0x41, 0x20AC, 0xE9]) \<le> 2" by code_simp
  ultimately have "\<exists>bytes. co_utf8_wcstombs (replicate 8 7) ([0x41, 0x20AC, 0xE9] @ 0 # []) (int 6 + 1) = Some (CO_RC_OK, bytes) \<and>
    co_utf8_dup_to_wc True (replicate 5 9) bytes =
      Some (Inr ([0x41, 0x20AC, 0xE9] @ [0, replicate 5 9 ! (length [0x41, 0x20AC, 0xE9 :: co_wchar] + 1)], length [0x41, 0x20AC, 0xE9 :: co_wchar]))"
    by (intro utf8_name_roundtrip [where k = 0]) simp_all
  then show ?thesis by (simp add: numeral_3_eq_3)
qed

lemma mbtowc_continuation: "utf8_mbtowc ((0x80 OR b) # s) 1 = Some None"
proof -
  have "bit (ucast (0x80 OR b) AND 0x80 :: ulong) 7" by (simp add: bit_simps)
  then have "ucast (0x80 OR b) AND 0x80 \<noteq> (0 :: ulong)" by auto
  then show ?thesis by (simp add: utf8_mbtowc_def utf8_table_def)
qed

lemma mbtowc_short:
  assumes "0x7FF < w"
  shows "utf8_mbtowc (utf8_bytes w @ rest) 2 = Some None"
proof -
  have "\<not> w \<le> 0x7FF" "\<not> w \<le> 0x7F" using assms by (simp_all add: word_le_nat_alt word_less_nat_alt)
  then show ?thesis
    using three_bytes [of w] by (simp add: utf8_mbtowc_def utf8_table_def utf8_bytes_def Let_def)
qed

lemma mbstowcs_last:
  assumes "0x7FF < w" and "op + 2 < length dest"
  shows "mbstowcs_loop dest op (utf8_bytes w @ s) 2 = Some (dest[op := 0x3F, Suc op := 0x3F], op + 2, 0)"
proof -
  have "0x7F < w" using assms(1) by (simp add: word_less_nat_alt)
  then obtain b0 where b0: "b0 AND 0x80 \<noteq> 0" "b0 \<noteq> 0" "\<exists>bs. utf8_bytes w = b0 # bs" using high_byte by blast
  have "\<not> w \<le> 0x7FF" "\<not> w \<le> 0x7F" using assms(1) by (simp_all add: word_le_nat_alt word_less_nat_alt)
  then obtain c1 c2 where b: "utf8_bytes w = [b0, 0x80 OR c1, c2]" using b0(3) by (auto simp: utf8_bytes_def)
  have "bit (0x80 OR c1) 7" "bit ((0x80 OR c1) AND 0x80) 7" by (simp_all add: bit_simps)
  then have c1: "0x80 OR c1 \<noteq> 0" "(0x80 OR c1) AND 0x80 \<noteq> 0" by (metis bit_0_eq bot_apply bot_bool_def)+
  have "mbstowcs_loop dest op (utf8_bytes w @ s) 2 = mbstowcs_loop (dest[op := 0x3F]) (Suc op) ((0x80 OR c1) # c2 # s) 1"
    using b b0 assms mbtowc_short [OF assms(1), of s]
    by (simp add: mbstowcs_loop.simps [of _ _ "_ # _"] store_at_nth question_def)
  also have "\<dots> = mbstowcs_loop (dest[op := 0x3F, Suc op := 0x3F]) (Suc (Suc op)) (c2 # s) 0"
    using c1 mbtowc_continuation [of c1 "c2 # s"] assms(2)
    by (simp add: mbstowcs_loop.simps [of _ _ "_ # _" 1] store_at_nth [of "Suc op", simplified] question_def)
  finally show ?thesis by (simp add: mbstowcs_loop.simps)
qed

text \<open>
  A name whose last character has three bytes does not come back. \<open>co_utf8_dup_to_wc\<close>
  passes the number of characters as the count, \<open>co_utf8_mbstowcs\<close> takes it for bytes when it
  decodes, and the last character becomes two question marks: the string in the buffer is one
  longer than the length reported, which is the length of the name.
\<close>

theorem utf8_last_character_lost:
  assumes "0 \<notin> set ws" and "utf8_len w = 3" and "length ws + 3 \<le> length junk"
  shows "co_utf8_dup_to_wc True junk (utf8_string (ws @ [w]) @ 0 # r) =
    Some (Inr (ws @ [0x3F, 0x3F, 0], length ws + 1))"
proof -
  let ?buf = "take (length ws + 3) junk"
  have w: "w \<noteq> 0" "0x7FF < w" using assms(2) by (auto simp: utf8_len_def split: if_splits)
  then have high: "0x7F < w" by (simp add: word_less_nat_alt)
  have nul: "0 \<notin> set (ws @ [w])" using assms(1) w by simp
  have "co_utf8_mbstrlen (utf8_string (ws @ [w]) @ 0 # r) = Some (length ws + 1)"
    using mbstrlen_decodes [OF nul] co_strlen_cstr [OF string_nonzero [OF nul]]
    by (simp add: co_utf8_mbstrlen_def cstr_def)
  moreover have "mbstowcs_loop ?buf 0 (utf8_string (ws @ [w]) @ 0 # r) (int (length ws) + 2) =
      mbstowcs_loop (ws @ drop (length ws) ?buf) (length ws) (utf8_bytes w @ 0 # r) 2"
    using mbstowcs_decodes [OF assms(1) count_covers_more, of _ 0 ?buf "utf8_bytes w @ 0 # r"] assms(3) by simp
  moreover have "drop (length ws) ?buf = [junk ! length ws, junk ! (length ws + 1), junk ! (length ws + 2)]"
    using assms(3) by (intro nth_equalityI) (auto simp: less_Suc_eq numeral_3_eq_3)
  moreover have "mbstowcs_loop (ws @ drop (length ws) ?buf) (length ws) (utf8_bytes w @ 0 # r) 2 =
      Some (ws @ [0x3F, 0x3F, junk ! (length ws + 2)], length ws + 2, 0)"
    using mbstowcs_last [OF w(2), of "length ws" "ws @ drop (length ws) ?buf" "0 # r"] calculation(3) 
    by (simp add: list_update_append)
  moreover have "length ws + 1 + 2 = length ws + 3" "int (length ws + 1) + 1 = int (length ws) + 2" by simp_all
  ultimately have "co_utf8_dup_to_wc True junk (utf8_string (ws @ [w]) @ 0 # r) =
      Some (Inr ((ws @ [0x3F, 0x3F, junk ! (length ws + 2)])[length ws + 2 := 0], length ws + 1))"
    by (intro dup_run) (simp_all only:, simp_all)
  then show ?thesis by (simp add: list_update_append)
qed

theorem utf8_last_character_lost_witness:
  "co_utf8_dup_to_wc True (replicate 4 9) (utf8_string ([0x41] @ [0x20AC]) @ 0 # []) =
    Some (Inr ([0x41] @ [0x3F, 0x3F, 0], length [0x41 :: co_wchar] + 1))"
proof (rule utf8_last_character_lost)
  show "utf8_len 0x20AC = 3" by code_simp
qed simp_all

section \<open>Any bytes\<close>

lemma mbtowc_loop_safe:
  assumes "0 \<notin> set t" and "t \<noteq> []"
  shows "\<exists>x. mbtowc_loop ts c0 l nc (t @ 0 # r) n = Some x \<and> (\<forall>wc sz. x = Some (wc, sz) \<longrightarrow> sz \<le> nc + length t)"
  using assms
proof (induction ts arbitrary: l nc t)
  case (Cons e ts)
  obtain b t' where t: "t = b # t'" using Cons.prems(2) by (cases t) auto
  show ?case
  proof (cases t')
    case Nil
    then show ?thesis using t by (auto simp: Let_def)
  next
    case (Cons d t'')
    then show ?thesis
      using Cons.IH [of t'] Cons.prems t by (fastforce simp: Let_def)
  qed
qed simp


text \<open>The encoding of a three byte character never reaches past its buffer either.\<close>

lemma mbstowcs_safe:
  assumes "0 \<notin> set t" and "op + nat maxlen < length dest" and "0 \<le> maxlen"
  shows "\<exists>d op' m. mbstowcs_loop dest op (t @ 0 # r) maxlen = Some (d, op', m) \<and> length d = length dest \<and>
    op' < length dest \<and> 0 \<le> m"
  using assms
proof (induction "nat maxlen" arbitrary: dest op t maxlen)
  case 0
  then show ?case by (simp add: mbstowcs_loop.simps)
next
  case (Suc k)
  have step: "\<exists>d op' m. mbstowcs_loop (dest[op := v]) (Suc op) (t' @ 0 # r) (maxlen - 1) = Some (d, op', m) \<and>
    length d = length dest \<and> op' < length dest \<and> 0 \<le> m" if "0 \<notin> set t'" for v t'
    using Suc.hyps(1) [of "maxlen - 1" t' "Suc op" "dest[op := v]"] Suc.hyps(2) Suc.prems that
    by (simp add: nat_diff_distrib)
  show ?case
  proof (cases t)
    case Nil
    then show ?thesis using Suc.prems by (simp add: mbstowcs_loop.simps)
  next
    case (Cons b t')
    from mbtowc_loop_safe [of "b # t'" utf8_table "ucast b" "ucast b" 0 r maxlen] Suc.prems(1) Cons
    obtain x where x: "utf8_mbtowc (b # t' @ 0 # r) maxlen = Some x" "\<And>wc sz. x = Some (wc, sz) \<Longrightarrow> sz \<le> Suc (length t')"
      by (auto simp: utf8_mbtowc_def)
    have "drop sz (b # t' @ 0 # r) = drop sz t @ 0 # r" if "sz \<le> Suc (length t')" for sz
      using that Cons by (cases sz) simp_all
    moreover have "0 \<notin> set (drop sz t)" for sz using Suc.prems(1) by (meson in_set_dropD)
    ultimately show ?thesis
      using Suc.prems Suc.hyps(2) Cons x step
      by (auto simp: mbstowcs_loop.simps [of _ _ "_ # _"] store_at_nth split: option.split)
  qed
qed

lemma mbstrlen_safe:
  assumes "0 \<notin> set t" and "maxlen \<le> int (length t)"
  shows "\<exists>n. mbstrlen_loop (t @ 0 # r) maxlen len = Some (len + n) \<and> n \<le> nat maxlen"
  using assms
proof (induction t arbitrary: len maxlen rule: length_induct)
  case (1 t)
  show ?case
  proof (cases "maxlen \<le> 0")
    case True
    then show ?thesis by (simp add: mbstrlen_loop.simps)
  next
    case False
    then obtain b t' where t: "t = b # t'" using "1.prems"(2) by (cases t) auto
    from mbtowc_loop_safe [of t utf8_table "ucast b" "ucast b" 0 r maxlen] "1.prems"(1) t
    obtain x where x: "utf8_mbtowc (b # t' @ 0 # r) maxlen = Some x" "\<And>wc sz. x = Some (wc, sz) \<Longrightarrow> sz \<le> Suc (length t')"
      by (auto simp: utf8_mbtowc_def)
    have step: "\<exists>n. mbstrlen_loop (drop k (b # t' @ 0 # r)) (maxlen - int k) (Suc len) = Some (len + n) \<and> n \<le> nat maxlen"
      if "0 < k" "k \<le> Suc (length t')" for k
    proof -
      note k = that
      have "drop k (b # t' @ 0 # r) = drop k t @ 0 # r" using that t by (cases k) simp_all
      moreover have "0 \<notin> set (drop k t)" using "1.prems"(1) by (meson in_set_dropD)
      ultimately obtain n where "mbstrlen_loop (drop k (b # t' @ 0 # r)) (maxlen - int k) (Suc len) = Some (Suc len + n)"
          "n \<le> nat (maxlen - int k)"
        using "1.IH" [rule_format, of "drop k t" "maxlen - int k" "Suc len"] "1.prems" t k by (auto simp: of_nat_diff)
      then show ?thesis using k False by (intro exI [of _ "Suc n"]) auto
    qed
    show ?thesis
    proof (cases "b AND 0x80 \<noteq> 0 \<and> x \<noteq> None")
      case True
      then obtain wc sz where "x = Some (wc, sz)" by (cases x) auto
      moreover from this have "0 < sz" using x(1) utf8_mbtowc_pos by simp
      ultimately show ?thesis
        using False t True x "1.prems"(1) step [of sz] by (simp add: mbstrlen_loop.simps [of "_ # _"])
    next
      case no: False
      then show ?thesis
        using False t x "1.prems"(1) step [of 1] by (cases x) (auto simp: mbstrlen_loop.simps [of "_ # _"])
    qed
  qed
qed

text \<open>
  C33: whatever bytes the string has, \<open>co_utf8_dup_to_wc\<close> reads nothing past its NUL, writes
  nothing past the block it allocated, and returns a string that ends inside of the block; the
  length it reports is at most the number of bytes.
\<close>

theorem utf8_dup_safe:
  assumes "0 \<notin> set t" and "length t + 2 \<le> length junk"
  shows "\<exists>ws n. co_utf8_dup_to_wc True junk (t @ 0 # r) = Some (Inr (ws, n)) \<and> n \<le> length t \<and>
    length ws = n + 2 \<and> 0 \<in> set ws"
proof -
  obtain n where n: "mbstrlen_loop (t @ 0 # r) (int (length t)) 0 = Some n" "n \<le> length t"
    using mbstrlen_safe [OF assms(1), of "int (length t)" r 0] by auto
  have "co_utf8_mbstrlen (t @ 0 # r) = Some n"
    using n(1) co_strlen_cstr [OF assms(1)] by (simp add: co_utf8_mbstrlen_def cstr_def)
  moreover obtain d op m where d: "mbstowcs_loop (take (n + 2) junk) 0 (t @ 0 # r) (int n + 1) = Some (d, op, m)"
      "length d = n + 2" "op < length d" "0 \<le> m"
    using mbstowcs_safe [OF assms(1), of 0 "int n + 1" "take (n + 2) junk" r] n(2) assms(2)
    by (auto simp: nat_add_distrib)
  ultimately have "co_utf8_dup_to_wc True junk (t @ 0 # r) = Some (Inr (d[op := 0], n))"
    by (intro dup_run)
  then show ?thesis using d n(2) by (auto intro: set_update_memI)
qed

theorem utf8_dup_safe_witness:
  "\<exists>ws n. co_utf8_dup_to_wc True (replicate 6 9) ([0xE2, 0x41, 0xC3, 0xFF] @ 0 # []) = Some (Inr (ws, n)) \<and>
    n \<le> length [0xE2, 0x41, 0xC3, 0xFF :: uchar] \<and> length ws = n + 2 \<and> 0 \<in> set ws"
  by (rule utf8_dup_safe) simp_all

end
