(* ===== verification/Co_Debug.thy ===== *)
theory Co_Debug
  imports Co_Libc Ret_Code Co_Snprintf
begin

text \<open>
  The debug log. A log record is a type-length-value item that holds the items a caller built
  (\<open>src/colinux/common/debug.c\<close>); the driver appends it to the section of the caller
  (\<open>src/colinux/kernel/debug.c\<close>), and the debug daemon reads all sections and prints the records
  (\<open>src/colinux/user/debug/main.c\<close>). A section is a block with a reference count; the model keeps
  the live ones in a map, and to use one that was freed is \<^term>\<open>None\<close>. \<open>long\<close> is
  an \<^typ>\<open>int\<close>: the invariant of the section theory bounds every sum.
\<close>

section \<open>Sections\<close>

definition CO_DEBUG_MAX_FILL :: int where "CO_DEBUG_MAX_FILL = 0x100000"
definition CO_DEBUG_SECTION_BUFFER_MAX_SIZE :: int where "CO_DEBUG_SECTION_BUFFER_MAX_SIZE = 0x10000"
definition CO_DEBUG_SECTION_BUFFER_START_SIZE :: int where "CO_DEBUG_SECTION_BUFFER_START_SIZE = 0x1000"

type_synonym section_id = nat

record co_debug_section =
  sec_buffer :: "uchar list"
  sec_size :: int
  sec_peak :: int
  sec_filled :: int
  sec_refs :: int
  sec_max :: int
  sec_folded :: bool

text \<open>\<open>next_section\<close> is the next block the host will allocate.\<close>

record co_manager_debug =
  dbg_ready :: bool
  dbg_sections :: "section_id list"
  dbg_heap :: "section_id \<rightharpoonup> co_debug_section"
  next_section :: section_id
  dbg_freeing :: bool
  sections_count :: int
  sections_total_size :: int
  sections_total_filled :: int
  debug_driver_index :: ulong

text \<open>What the host answers during one call: whether each allocation works, and what is in a new
  block.\<close>

record debug_env =
  section_ok :: bool
  buffer_ok :: bool
  mutex_ok :: bool
  resize_ok :: bool
  junk :: uchar

definition create_section :: "debug_env \<Rightarrow> co_rc_value + co_debug_section" where
  "create_section env =
     (if \<not> section_ok env then Inl CO_RC_OUT_OF_MEMORY
      else if \<not> buffer_ok env then Inl CO_RC_OUT_OF_MEMORY
      else if \<not> mutex_ok env then Inl CO_RC_ERROR
      else Inr \<lparr>sec_buffer = replicate (nat CO_DEBUG_SECTION_BUFFER_START_SIZE) (junk env),
        sec_size = CO_DEBUG_SECTION_BUFFER_START_SIZE, sec_peak = CO_DEBUG_SECTION_BUFFER_START_SIZE,
        sec_filled = 0, sec_refs = 0, sec_max = CO_DEBUG_SECTION_BUFFER_MAX_SIZE, sec_folded = False\<rparr>)"

text \<open>The size \<open>resize_section\<close> computes; 0 is its early return.\<close>

definition wanted_size :: "co_debug_section \<Rightarrow> int" where
  "wanted_size sec =
     (if sec_size sec div 2 \<le> sec_filled sec then
        (let new_size = sec_size sec * 2 in if sec_max sec < new_size then 0 else new_size)
      else if sec_filled sec < CO_DEBUG_SECTION_BUFFER_START_SIZE then sec_peak sec div 2
      else 0)"

definition resize_section ::
  "debug_env \<Rightarrow> co_manager_debug \<Rightarrow> co_debug_section \<Rightarrow> (co_manager_debug \<times> co_debug_section) option" where
  "resize_section env dbg sec =
     (let new_size = wanted_size sec; old_size = sec_size sec
      in if new_size = 0 then Some (dbg, sec)
         else if old_size \<noteq> new_size then Some (dbg, sec)
         else if \<not> resize_ok env then Some (dbg, sec)
         else map_option (\<lambda>new_buffer.
                (dbg\<lparr>sections_total_size := sections_total_size dbg + (new_size - old_size)\<rparr>,
                 sec\<lparr>sec_size := new_size, sec_buffer := new_buffer,
                   sec_peak := max (sec_peak sec) new_size\<rparr>))
              (copy_loop (replicate (nat new_size) (junk env)) 0 (sec_buffer sec) 0 (nat (sec_filled sec))))"

text \<open>\<open>co_debug_write_vector_t\<close>: its size, and the union of a pointer to bytes and a vector,
  which is the one that counts if it has entries.\<close>

datatype co_debug_write_vector = Write_vector (vec_bytes: int) (vec_ptr: "uchar list") (vec_vec: "co_debug_write_vector list")

fun memcpy_vector :: "uchar list \<Rightarrow> nat \<Rightarrow> co_debug_write_vector list \<Rightarrow> uchar list option" where
  "memcpy_vector buf dest [] = Some buf"
| "memcpy_vector buf dest (Write_vector n ptr inner # vec) =
     Option.bind
       (if inner \<noteq> [] then memcpy_vector buf dest inner else copy_loop buf dest ptr 0 (nat n))
       (\<lambda>buf. memcpy_vector buf (dest + nat n) vec)"

fun co_debug_write_vector_size :: "co_debug_write_vector list \<Rightarrow> int" where
  "co_debug_write_vector_size [] = 0"
| "co_debug_write_vector_size (v # vec) = vec_bytes v + co_debug_write_vector_size vec"

definition append_to_buffer ::
  "debug_env \<Rightarrow> co_manager_debug \<Rightarrow> section_id \<Rightarrow> co_debug_write_vector list \<Rightarrow> (co_rc_value \<times> co_manager_debug) option" where
  "append_to_buffer env dbg s vec =
     Option.bind (dbg_heap dbg s) (\<lambda>sec.
     Option.bind (resize_section env dbg sec) (\<lambda>(dbg, sec).
       let vec_length = co_debug_write_vector_size vec
       in if sec_size sec - sec_filled sec < vec_length
          then Some (CO_RC_ERROR, dbg\<lparr>dbg_heap := (dbg_heap dbg)(s \<mapsto> sec)\<rparr>)
          else map_option (\<lambda>buf.
                 (CO_RC_OK,
                  dbg\<lparr>dbg_heap := (dbg_heap dbg)(s \<mapsto>
                        sec\<lparr>sec_buffer := buf, sec_filled := sec_filled sec + vec_length\<rparr>),
                    sections_total_filled := sections_total_filled dbg + vec_length\<rparr>))
               (memcpy_vector (sec_buffer sec) (nat (sec_filled sec)) vec)))"

definition get_section :: "section_id \<Rightarrow> co_manager_debug \<Rightarrow> co_manager_debug option" where
  "get_section s dbg =
     map_option (\<lambda>sec. dbg\<lparr>dbg_heap := (dbg_heap dbg)(s \<mapsto> sec\<lparr>sec_refs := sec_refs sec + 1\<rparr>)\<rparr>) (dbg_heap dbg s)"

text \<open>The bool tells whether the section still exists.\<close>

definition put_section :: "section_id \<Rightarrow> co_manager_debug \<Rightarrow> (bool \<times> co_manager_debug) option" where
  "put_section s dbg =
     map_option (\<lambda>sec.
       let sec = sec\<lparr>sec_refs := sec_refs sec - 1\<rparr>
       in if sec_refs sec = 0
          then (False, dbg\<lparr>dbg_heap := (dbg_heap dbg)(s := None), sections_count := sections_count dbg - 1,
                  sections_total_size := sections_total_size dbg - sec_size sec\<rparr>)
          else (True, dbg\<lparr>dbg_heap := (dbg_heap dbg)(s \<mapsto> sec)\<rparr>)) (dbg_heap dbg s)"

text \<open>The end of \<open>co_debug_writev\<close>, with the section held.\<close>

definition write_section ::
  "debug_env \<Rightarrow> co_manager_debug \<Rightarrow> section_id \<Rightarrow> co_debug_write_vector list \<Rightarrow>
    (co_rc_value \<times> co_manager_debug \<times> section_id option) option" where
  "write_section env dbg s vec =
     Option.bind (append_to_buffer env dbg s vec) (\<lambda>(rc, dbg).
       map_option (\<lambda>(alive, dbg). (rc, dbg, if alive then Some s else None)) (put_section s dbg))"

definition co_debug_writev ::
  "debug_env \<Rightarrow> co_manager_debug \<Rightarrow> section_id option \<Rightarrow> co_debug_write_vector list \<Rightarrow>
    (co_rc_value \<times> co_manager_debug \<times> section_id option) option" where
  "co_debug_writev env dbg section_ptr vec =
     (if CO_DEBUG_MAX_FILL < sections_total_filled dbg then Some (CO_RC_OK, dbg, section_ptr)
      else if dbg_freeing dbg then Some (CO_RC_OK, dbg, section_ptr)
      else case section_ptr of
        None \<Rightarrow>
          (case create_section env of
             Inl rc \<Rightarrow> Some (rc, dbg, section_ptr)
           | Inr sec \<Rightarrow>
               let s = next_section dbg;
                   dbg = dbg\<lparr>sections_count := sections_count dbg + 1,
                     sections_total_size := sections_total_size dbg + sec_size sec,
                     dbg_sections := dbg_sections dbg @ [s], dbg_heap := (dbg_heap dbg)(s \<mapsto> sec),
                     next_section := s + 1\<rparr>
               in Option.bind (get_section s dbg) (\<lambda>dbg.
                  Option.bind (dbg_heap dbg s) (\<lambda>sec.
                    write_section env (dbg\<lparr>dbg_heap := (dbg_heap dbg)(s \<mapsto> sec\<lparr>sec_refs := sec_refs sec + 1\<rparr>)\<rparr>) s vec)))
      | Some s \<Rightarrow> Option.bind (get_section s dbg) (\<lambda>dbg. write_section env dbg s vec))"

section \<open>Records\<close>

text \<open>\<open>co_debug_type_t\<close>, as the byte of an item.\<close>

datatype co_debug_type =
    CO_DEBUG_TYPE_TLV
  | CO_DEBUG_TYPE_TIMESTAMP
  | CO_DEBUG_TYPE_STRING
  | CO_DEBUG_TYPE_MODULE
  | CO_DEBUG_TYPE_LOCAL_INDEX
  | CO_DEBUG_TYPE_FACILITY
  | CO_DEBUG_TYPE_LEVEL
  | CO_DEBUG_TYPE_LINE
  | CO_DEBUG_TYPE_FUNC
  | CO_DEBUG_TYPE_FILE
  | CO_DEBUG_TYPE_DRIVER_INDEX

fun type_byte :: "co_debug_type \<Rightarrow> uchar" where
  "type_byte CO_DEBUG_TYPE_TLV = 0"
| "type_byte CO_DEBUG_TYPE_TIMESTAMP = 1"
| "type_byte CO_DEBUG_TYPE_STRING = 2"
| "type_byte CO_DEBUG_TYPE_MODULE = 3"
| "type_byte CO_DEBUG_TYPE_LOCAL_INDEX = 4"
| "type_byte CO_DEBUG_TYPE_FACILITY = 5"
| "type_byte CO_DEBUG_TYPE_LEVEL = 6"
| "type_byte CO_DEBUG_TYPE_LINE = 7"
| "type_byte CO_DEBUG_TYPE_FUNC = 8"
| "type_byte CO_DEBUG_TYPE_FILE = 9"
| "type_byte CO_DEBUG_TYPE_DRIVER_INDEX = 10"

definition co_debug_write_log ::
  "debug_env \<Rightarrow> co_manager_debug \<Rightarrow> section_id option \<Rightarrow> co_debug_write_vector list \<Rightarrow>
    (co_rc_value \<times> co_manager_debug \<times> section_id option) option" where
  "co_debug_write_log env dbg section_ptr vec =
     (let sz = co_debug_write_vector_size vec
      in if 0xf8 < sz mod 2 ^ 32 then Some (CO_RC_OK, dbg, section_ptr)
         else
           let dbg = dbg\<lparr>debug_driver_index := debug_driver_index dbg + 1\<rparr>;
               local_vec =
                 [Write_vector 2 [type_byte CO_DEBUG_TYPE_TLV, word_of_int (sz + 2 + 4)] [],
                  Write_vector sz [] vec,
                  Write_vector (2 + 4) []
                    [Write_vector 2 [type_byte CO_DEBUG_TYPE_DRIVER_INDEX, 4] [],
                     Write_vector 4 (le32 (debug_driver_index dbg)) []]]
           in co_debug_writev env dbg section_ptr local_vec)"

text \<open>\<open>co_debug_buf\<close>, with the log of the driver's own messages.\<close>

definition co_debug_buf ::
  "debug_env \<Rightarrow> co_manager_debug \<Rightarrow> section_id option \<Rightarrow> uchar list \<Rightarrow> int \<Rightarrow>
    (co_manager_debug \<times> section_id option) option" where
  "co_debug_buf env dbg own buf sz =
     (if \<not> dbg_ready dbg then Some (dbg, own)
      else map_option snd (co_debug_write_log env dbg own [Write_vector sz buf []]))"

section \<open>Reading and closing\<close>

text \<open>One section in \<open>co_debug_read\<close>; \<open>out\<close> is what the user's buffer holds so
  far.\<close>

definition read_section ::
  "debug_env \<Rightarrow> bool \<Rightarrow> int \<Rightarrow> section_id \<Rightarrow> co_manager_debug \<times> uchar list \<Rightarrow> (co_manager_debug \<times> uchar list) option" where
  "read_section env copy_ok sz s =
     (\<lambda>(dbg, out).
       Option.bind (get_section s dbg) (\<lambda>dbg.
       Option.bind (dbg_heap dbg s) (\<lambda>sec.
       Option.bind
         (if \<not> sz - int (length out) < sec_filled sec \<and> copy_ok
          then if sec_filled sec \<le> int (length (sec_buffer sec))
               then Some (True, out @ take (nat (sec_filled sec)) (sec_buffer sec),
                      dbg\<lparr>sections_total_filled := sections_total_filled dbg - sec_filled sec\<rparr>, sec\<lparr>sec_filled := 0\<rparr>)
               else None
          else Some (False, out, dbg, sec)) (\<lambda>(saved, out, dbg, sec).
       let (dbg, sec) =
             (if saved \<and> sec_folded sec
              then (dbg\<lparr>dbg_sections := remove1 s (dbg_sections dbg)\<rparr>,
                    sec\<lparr>sec_refs := sec_refs sec - 1, sec_folded := False\<rparr>)
              else (dbg, sec))
       in Option.bind (if \<not> sec_folded sec then resize_section env dbg sec else Some (dbg, sec)) (\<lambda>(dbg, sec).
          map_option (\<lambda>(_, dbg). (dbg, out)) (put_section s (dbg\<lparr>dbg_heap := (dbg_heap dbg)(s \<mapsto> sec)\<rparr>)))))))"

text \<open>\<open>co_list_each_entry_safe\<close> keeps the next section before the body removes the current
  one; no other section is removed, so the walk is over the sections of the start. \<open>copies\<close>
  tells which copies to the user work.\<close>

fun read_sections ::
  "debug_env \<Rightarrow> (section_id \<Rightarrow> bool) \<Rightarrow> int \<Rightarrow> section_id list \<Rightarrow> co_manager_debug \<times> uchar list \<Rightarrow>
    (co_manager_debug \<times> uchar list) option" where
  "read_sections env copies sz [] st = Some st"
| "read_sections env copies sz (s # ss) st =
     Option.bind (read_section env (copies s) sz s st) (read_sections env copies sz ss)"

definition co_debug_read ::
  "debug_env \<Rightarrow> (section_id \<Rightarrow> bool) \<Rightarrow> co_manager_debug \<Rightarrow> ulong \<Rightarrow> (co_manager_debug \<times> uchar list) option" where
  "co_debug_read env copies dbg sz = read_sections env copies (uint sz) (dbg_sections dbg) (dbg, [])"

definition co_debug_fold ::
  "debug_env \<Rightarrow> co_manager_debug \<Rightarrow> section_id \<Rightarrow> (co_rc_value \<times> co_manager_debug) option" where
  "co_debug_fold env dbg s =
     Option.bind (get_section s dbg) (\<lambda>dbg.
     Option.bind (dbg_heap dbg s) (\<lambda>sec.
     Option.bind
       (if \<not> buffer_ok env then Some (CO_RC_OUT_OF_MEMORY, dbg, sec)
        else map_option (\<lambda>shrunk_buffer.
               (CO_RC_OK,
                dbg\<lparr>sections_total_size := sections_total_size dbg - sec_size sec + sec_filled sec\<rparr>,
                sec\<lparr>sec_buffer := shrunk_buffer, sec_size := sec_filled sec\<rparr>))
             (copy_loop (replicate (nat (sec_filled sec + 1)) (junk env)) 0 (sec_buffer sec) 0 (nat (sec_filled sec))))
       (\<lambda>(rc, dbg, sec).
         map_option (\<lambda>(_, dbg). (rc, dbg))
           (put_section s (dbg\<lparr>dbg_heap := (dbg_heap dbg)(s \<mapsto> sec\<lparr>sec_folded := True\<rparr>)\<rparr>)))))"

definition co_debug_init :: "bool \<Rightarrow> bool \<Rightarrow> co_manager_debug \<Rightarrow> co_rc_value \<times> co_manager_debug" where
  "co_debug_init mutex wait dbg =
     (let dbg = dbg\<lparr>dbg_freeing := False, sections_total_filled := 0, sections_total_size := 0, dbg_sections := []\<rparr>
      in if \<not> mutex then (CO_RC_ERROR, dbg)
         else if \<not> wait then (CO_RC_ERROR, dbg)
         else (CO_RC_OK, dbg\<lparr>dbg_ready := True\<rparr>))"

fun free_sections :: "section_id list \<Rightarrow> co_manager_debug \<Rightarrow> co_manager_debug option" where
  "free_sections [] dbg = Some dbg"
| "free_sections (s # ss) dbg =
     Option.bind (get_section s dbg) (\<lambda>dbg.
     Option.bind (dbg_heap dbg s) (\<lambda>sec.
     Option.bind (put_section s (dbg\<lparr>dbg_sections := remove1 s (dbg_sections dbg),
         dbg_heap := (dbg_heap dbg)(s \<mapsto> sec\<lparr>sec_refs := sec_refs sec - 1\<rparr>)\<rparr>)) (\<lambda>(_, dbg).
       free_sections ss dbg)))"

definition co_debug_free :: "co_manager_debug \<Rightarrow> (co_rc_value \<times> co_manager_debug) option" where
  "co_debug_free dbg =
     (let dbg = dbg\<lparr>dbg_ready := False, dbg_freeing := True\<rparr>
      in map_option (Pair CO_RC_OK) (free_sections (dbg_sections dbg) dbg))"

end
