(* ===== verification/Debug_Log.thy ===== *)
theory Debug_Log
  imports Co_Debug
begin

text \<open>
  The sections of the debug log: the invariant of their accounting, and the log as a list of pending
  bytes for each section, which writing extends and reading empties.
\<close>

section \<open>One record in a section\<close>

definition log_record :: "uchar list \<Rightarrow> ulong \<Rightarrow> uchar list" where
  "log_record data index =
     [0, word_of_nat (length data + 6)] @ data @ [10, 4] @ le32 index"

definition record_vector :: "uchar list \<Rightarrow> ulong \<Rightarrow> co_debug_write_vector list" where
  "record_vector data index =
     [Write_vector 2 [0, word_of_nat (length data + 6)] [],
      Write_vector (int (length data)) [] [Write_vector (int (length data)) data []],
      Write_vector 6 [] [Write_vector 2 [10, 4] [], Write_vector 4 (le32 index) []]]"

lemma length_log_record [simp]: "length (log_record data index) = length data + 8"
  by (simp add: log_record_def le32_def)

lemma record_vector_size: "co_debug_write_vector_size (record_vector data index) = int (length data) + 8"
  by (simp add: record_vector_def)

lemma copy_at:
  "length as = k \<Longrightarrow> length xs = n \<Longrightarrow> n \<le> length bs \<Longrightarrow> copy_loop (as @ bs) k xs 0 n = Some ((as @ xs) @ drop n bs)"
  by (simp add: copy_loop_Some)

lemma memcpy_record:
  assumes "length as = k" and "length data + 8 \<le> length bs"
  shows "memcpy_vector (as @ bs) k (record_vector data index) = Some (as @ log_record data index @ drop (length data + 8) bs)"
proof -
  let ?a = "as @ [0, word_of_nat (length data + 6)]" and ?l = "length data"
  have 1: "copy_loop (as @ bs) k [0, word_of_nat (?l + 6)] 0 2 = Some (?a @ drop 2 bs)"
    by (rule copy_at) (use assms in auto)
  have 2: "copy_loop (?a @ drop 2 bs) (k + 2) data 0 ?l = Some ((?a @ data) @ drop ?l (drop 2 bs))"
    by (rule copy_at) (use assms in auto)
  have 3: "copy_loop ((?a @ data) @ drop ?l (drop 2 bs)) (k + 2 + ?l) [10, 4] 0 2 =
      Some (((?a @ data) @ [10, 4]) @ drop 2 (drop ?l (drop 2 bs)))"
    by (rule copy_at) (use assms in auto)
  have 4: "copy_loop (((?a @ data) @ [10, 4]) @ drop 2 (drop ?l (drop 2 bs))) (k + 2 + ?l + 2) (le32 index) 0 4 =
      Some ((((?a @ data) @ [10, 4]) @ le32 index) @ drop 4 (drop 2 (drop ?l (drop 2 bs))))"
    by (rule copy_at) (use assms in \<open>auto simp: le32_def\<close>)
  have "drop 4 (drop 2 (drop ?l (drop 2 bs))) = drop (?l + 8) bs" by (simp add: ac_simps)
  with 1 2 3 4 show ?thesis
    by (simp only: record_vector_def log_record_def memcpy_vector.simps list.simps if_True if_False refl not_False_eq_True not_True_eq_False
        nat_int nat_numeral bind.bind_lunit append_assoc append_Cons append_Nil)
qed

section \<open>The invariant\<close>

definition section_inv :: "co_debug_section \<Rightarrow> bool" where
  "section_inv sec \<longleftrightarrow>
     0 \<le> sec_filled sec \<and> sec_filled sec \<le> sec_size sec \<and> sec_size sec \<le> int (length (sec_buffer sec)) \<and>
     sec_size sec \<le> CO_DEBUG_SECTION_BUFFER_START_SIZE \<and> sec_peak sec = CO_DEBUG_SECTION_BUFFER_START_SIZE \<and>
     sec_max sec = CO_DEBUG_SECTION_BUFFER_MAX_SIZE \<and> sec_refs sec = 1 \<and>
     (\<not> sec_folded sec \<longrightarrow> sec_size sec = CO_DEBUG_SECTION_BUFFER_START_SIZE)"

abbreviation section_at :: "co_manager_debug \<Rightarrow> section_id \<Rightarrow> co_debug_section" where
  "section_at dbg s \<equiv> the (dbg_heap dbg s)"

definition debug_inv :: "co_manager_debug \<Rightarrow> bool" where
  "debug_inv dbg \<longleftrightarrow>
     distinct (dbg_sections dbg) \<and> dom (dbg_heap dbg) = set (dbg_sections dbg) \<and>
     (\<forall>s \<in> set (dbg_sections dbg). s < next_section dbg \<and> section_inv (section_at dbg s)) \<and>
     sections_count dbg = int (length (dbg_sections dbg)) \<and>
     sections_total_size dbg = (\<Sum>s \<in> set (dbg_sections dbg). sec_size (section_at dbg s)) \<and>
     sections_total_filled dbg = (\<Sum>s \<in> set (dbg_sections dbg). sec_filled (section_at dbg s))"

lemma sum_updated:
  assumes "finite A" and "s \<in> A"
  shows "(\<Sum>x \<in> A. f (the ((h(s \<mapsto> v)) x))) = (\<Sum>x \<in> A. f (the (h x))) - f (the (h s)) + (f v :: int)"
proof -
  have "(\<Sum>x \<in> A. f (the ((h(s \<mapsto> v)) x))) = f v + (\<Sum>x \<in> A - {s}. f (the (h x)))"
    using assms by (simp add: sum.remove [of A s])
  moreover have "(\<Sum>x \<in> A. f (the (h x))) = f (the (h s)) + (\<Sum>x \<in> A - {s}. f (the (h x)))"
    using assms by (simp add: sum.remove [of A s])
  ultimately show ?thesis by simp
qed

lemma sum_other:
  "s \<notin> A \<Longrightarrow> (\<Sum>x \<in> A. f (the ((h(s := v)) x))) = (\<Sum>x \<in> A. f (the (h x)) :: int)"
  by (rule sum.cong) auto

text \<open>A section of the start size never changes its size.\<close>

lemma resize_nothing:
  assumes "sec_size sec = CO_DEBUG_SECTION_BUFFER_START_SIZE" and "sec_peak sec = CO_DEBUG_SECTION_BUFFER_START_SIZE"
    and "sec_max sec = CO_DEBUG_SECTION_BUFFER_MAX_SIZE"
  shows "resize_section env dbg sec = Some (dbg, sec)"
  using assms
  by (simp add: resize_section_def wanted_size_def Let_def CO_DEBUG_SECTION_BUFFER_START_SIZE_def
      CO_DEBUG_SECTION_BUFFER_MAX_SIZE_def)

lemma resize_empty:
  assumes "sec_filled sec = 0"
  shows "\<exists>sec'. (\<forall>dbg. resize_section env dbg sec = Some (dbg, sec')) \<and> sec_refs sec' = sec_refs sec \<and> sec_size sec' = sec_size sec"
proof (cases "wanted_size sec = 0 \<or> sec_size sec \<noteq> wanted_size sec \<or> \<not> resize_ok env")
  case True
  then show ?thesis by (intro exI [of _ sec]) (auto simp: resize_section_def Let_def)
next
  case False
  then have "\<forall>dbg. resize_section env dbg sec = Some (dbg, sec\<lparr>sec_size := wanted_size sec,
      sec_buffer := replicate (nat (wanted_size sec)) (junk env), sec_peak := max (sec_peak sec) (wanted_size sec)\<rparr>)"
    using assms by (simp add: resize_section_def Let_def)
  then show ?thesis using False by (intro exI) (rule conjI, assumption, simp)
qed

text \<open>Writing to a section that is held.\<close>

lemma write_held:
  assumes "dbg_heap dbg s = Some (sec\<lparr>sec_refs := 2\<rparr>)" and "section_inv sec" and "\<not> sec_folded sec"
  shows "write_section env dbg s (record_vector data index) =
    Some (if sec_size sec - sec_filled sec < int (length data) + 8
      then (CO_RC_ERROR, dbg\<lparr>dbg_heap := (dbg_heap dbg)(s \<mapsto> sec)\<rparr>, Some s)
      else (CO_RC_OK,
        dbg\<lparr>dbg_heap := (dbg_heap dbg)(s \<mapsto>
              sec\<lparr>sec_buffer := take (nat (sec_filled sec)) (sec_buffer sec) @ log_record data index @
                drop (nat (sec_filled sec) + length data + 8) (sec_buffer sec),
                sec_filled := sec_filled sec + (int (length data) + 8)\<rparr>),
            sections_total_filled := sections_total_filled dbg + (int (length data) + 8)\<rparr>, Some s))"
proof -
  let ?k = "nat (sec_filled sec)"
  have inv: "sec_refs sec = 1" "0 \<le> sec_filled sec" "sec_filled sec \<le> sec_size sec" "sec_size sec \<le> int (length (sec_buffer sec))"
    "sec_size sec = CO_DEBUG_SECTION_BUFFER_START_SIZE" "sec_peak sec = CO_DEBUG_SECTION_BUFFER_START_SIZE"
    "sec_max sec = CO_DEBUG_SECTION_BUFFER_MAX_SIZE"
    using assms(2,3) by (simp_all add: section_inv_def)
  obtain b z p f m d where sec: "sec = \<lparr>sec_buffer = b, sec_size = z, sec_peak = p, sec_filled = f, sec_refs = 1, sec_max = m, sec_folded = d\<rparr>"
    using inv(1) by (cases sec) simp
  have rs: "resize_section env dbg (sec\<lparr>sec_refs := 2\<rparr>) = Some (dbg, sec\<lparr>sec_refs := 2\<rparr>)"
    using inv by (intro resize_nothing) simp_all
  show ?thesis
  proof (cases "sec_size sec - sec_filled sec < int (length data) + 8")
    case True
    then show ?thesis
      using assms(1) rs by (simp add: Let_def sec write_section_def append_to_buffer_def record_vector_size put_section_def)
  next
    case False
    then have "memcpy_vector (take ?k (sec_buffer sec) @ drop ?k (sec_buffer sec)) ?k (record_vector data index) =
        Some (take ?k (sec_buffer sec) @ log_record data index @ drop (length data + 8) (drop ?k (sec_buffer sec)))"
      using inv by (intro memcpy_record) auto
    then have "memcpy_vector (sec_buffer sec) ?k (record_vector data index) =
        Some (take ?k (sec_buffer sec) @ log_record data index @ drop (?k + length data + 8) (sec_buffer sec))"
      by (simp add: ac_simps)
    with False show ?thesis
      using assms(1) rs by (simp add: Let_def sec write_section_def append_to_buffer_def record_vector_size put_section_def)
  qed
qed

lemma write_log_vector:
  assumes "int (length data) < 2 ^ 32"
  shows "co_debug_write_log env dbg p [Write_vector (int (length data)) data []] =
    (if 0xf8 < length data then Some (CO_RC_OK, dbg, p)
     else co_debug_writev env (dbg\<lparr>debug_driver_index := debug_driver_index dbg + 1\<rparr>) p
       (record_vector data (debug_driver_index dbg + 1)))"
proof -
  have "int (length data) mod 2 ^ 32 = int (length data)" using assms by simp
  moreover have "word_of_int (int (length data) + 2 + 4) = (word_of_nat (length data + 6) :: uchar)"
    by (simp add: ac_simps)
  ultimately show ?thesis
    by (simp add: co_debug_write_log_def record_vector_def Let_def ac_simps)
qed

section \<open>The abstract log\<close>

text \<open>What the log is, without blocks, sizes and counts: the live sections, each with the
  bytes nobody has read yet and whether its owner is gone.\<close>

type_synonym log_entries = "(section_id \<times> bool \<times> uchar list) list"

record log_spec =
  entries :: log_entries
  owned :: "nat \<rightharpoonup> section_id"
  next_id :: section_id
  log_index :: ulong

definition pending :: "co_debug_section \<Rightarrow> uchar list" where
  "pending sec = take (nat (sec_filled sec)) (sec_buffer sec)"

definition entries_of :: "co_manager_debug \<Rightarrow> log_entries" where
  "entries_of dbg = map (\<lambda>s. (s, sec_folded (section_at dbg s), pending (section_at dbg s))) (dbg_sections dbg)"

definition total_pending :: "log_entries \<Rightarrow> nat" where
  "total_pending es = sum_list (map (\<lambda>(s, f, b). length b) es)"

fun pending_of :: "section_id \<Rightarrow> log_entries \<Rightarrow> uchar list" where
  "pending_of s [] = []"
| "pending_of s ((t, f, b) # es) = (if t = s then b else pending_of s es)"

definition append_record :: "section_id \<Rightarrow> uchar list \<Rightarrow> log_entries \<Rightarrow> log_entries" where
  "append_record s r es = map (\<lambda>(t, f, b). (t, f, if t = s then b @ r else b)) es"

text \<open>A read delivers the sections in order, each one whole if it fits; a section whose
  owner is gone disappears with it.\<close>

fun read_entries :: "(section_id \<Rightarrow> bool) \<Rightarrow> int \<Rightarrow> log_entries \<Rightarrow> uchar list \<times> log_entries" where
  "read_entries copies n [] = ([], [])"
| "read_entries copies n ((s, f, b) # es) =
     (if copies s \<and> int (length b) \<le> n
      then let (out, es') = read_entries copies (n - int (length b)) es
           in (b @ out, if f then es' else (s, f, []) # es')
      else let (out, es') = read_entries copies n es in (out, (s, f, b) # es'))"

datatype log_op =
    Log_write nat "uchar list" debug_env
  | Log_close nat debug_env
  | Log_read ulong "section_id \<Rightarrow> bool" debug_env

fun log_step :: "log_op \<Rightarrow> log_spec \<Rightarrow> (co_rc_value + uchar list) \<times> log_spec" where
  "log_step (Log_write c data env) ls =
     (if 0xf8 < length data then (Inl CO_RC_OK, ls)
      else
        let ls = ls\<lparr>log_index := log_index ls + 1\<rparr>; r = log_record data (log_index ls)
        in if 0x100000 < total_pending (entries ls) then (Inl CO_RC_OK, ls)
           else case owned ls c of
             None \<Rightarrow>
               if \<not> section_ok env \<or> \<not> buffer_ok env then (Inl CO_RC_OUT_OF_MEMORY, ls)
               else if \<not> mutex_ok env then (Inl CO_RC_ERROR, ls)
               else (Inl CO_RC_OK, ls\<lparr>entries := entries ls @ [(next_id ls, False, r)],
                      owned := (owned ls)(c \<mapsto> next_id ls), next_id := next_id ls + 1\<rparr>)
           | Some s \<Rightarrow>
               if 0x1000 < length (pending_of s (entries ls)) + length r then (Inl CO_RC_ERROR, ls)
               else (Inl CO_RC_OK, ls\<lparr>entries := append_record s r (entries ls)\<rparr>))"
| "log_step (Log_close c env) ls =
     (case owned ls c of
        None \<Rightarrow> (Inl CO_RC_OK, ls)
      | Some s \<Rightarrow>
          (Inl (if buffer_ok env then CO_RC_OK else CO_RC_OUT_OF_MEMORY),
           ls\<lparr>entries := map (\<lambda>(t, f, b). (t, f \<or> t = s, b)) (entries ls), owned := (owned ls)(c := None)\<rparr>))"
| "log_step (Log_read n copies env) ls =
     (let (out, es) = read_entries copies (uint n) (entries ls) in (Inr out, ls\<lparr>entries := es\<rparr>))"

text \<open>The same operations on the sections: a client's pointer is the \<open>debug_section\<close> of its
  descriptor, which closing folds.\<close>

fun debug_step ::
  "log_op \<Rightarrow> co_manager_debug \<times> (nat \<rightharpoonup> section_id) \<Rightarrow>
    ((co_rc_value + uchar list) \<times> co_manager_debug \<times> (nat \<rightharpoonup> section_id)) option" where
  "debug_step (Log_write c data env) (dbg, ptrs) =
     map_option (\<lambda>(rc, dbg, p). (Inl rc, dbg, ptrs(c := p)))
       (co_debug_write_log env dbg (ptrs c) [Write_vector (int (length data)) data []])"
| "debug_step (Log_close c env) (dbg, ptrs) =
     (case ptrs c of
        None \<Rightarrow> Some (Inl CO_RC_OK, dbg, ptrs)
      | Some s \<Rightarrow> map_option (\<lambda>(rc, dbg). (Inl rc, dbg, ptrs(c := None))) (co_debug_fold env dbg s))"
| "debug_step (Log_read n copies env) (dbg, ptrs) =
     map_option (\<lambda>(dbg, out). (Inr out, dbg, ptrs)) (co_debug_read env copies dbg n)"

definition log_rel :: "co_manager_debug \<times> (nat \<rightharpoonup> section_id) \<Rightarrow> log_spec \<Rightarrow> bool" where
  "log_rel st ls \<longleftrightarrow>
     (case st of (dbg, ptrs) \<Rightarrow>
        debug_inv dbg \<and> \<not> dbg_freeing dbg \<and> entries ls = entries_of dbg \<and> owned ls = ptrs \<and>
        next_id ls = next_section dbg \<and> log_index ls = debug_driver_index dbg \<and>
        (\<forall>c s. ptrs c = Some s \<longrightarrow> s \<in> set (dbg_sections dbg) \<and> \<not> sec_folded (section_at dbg s)) \<and>
        (\<forall>c c' s. ptrs c = Some s \<longrightarrow> ptrs c' = Some s \<longrightarrow> c = c'))"

lemma total_of:
  assumes "debug_inv dbg"
  shows "int (total_pending (entries_of dbg)) = sections_total_filled dbg"
proof -
  have "total_pending (entries_of dbg) = (\<Sum>s \<leftarrow> dbg_sections dbg. length (pending (section_at dbg s)))"
    by (simp add: total_pending_def entries_of_def comp_def)
  also have "\<dots> = (\<Sum>s \<in> set (dbg_sections dbg). length (pending (section_at dbg s)))"
    using assms by (simp add: debug_inv_def sum_list_distinct_conv_sum_set)
  also have "int \<dots> = (\<Sum>s \<in> set (dbg_sections dbg). sec_filled (section_at dbg s))"
    using assms by (auto simp: debug_inv_def section_inv_def pending_def intro!: sum.cong)
  finally show ?thesis using assms by (simp add: debug_inv_def)
qed

lemma pending_of_entries:
  "s \<in> set (dbg_sections dbg) \<Longrightarrow> pending_of s (entries_of dbg) = pending (section_at dbg s)"
proof -
  have "s \<in> set ss \<Longrightarrow> pending_of s (map (\<lambda>s. (s, f s, g s)) ss) = g s" for ss f g
    by (induction ss) auto
  then show "s \<in> set (dbg_sections dbg) \<Longrightarrow> pending_of s (entries_of dbg) = pending (section_at dbg s)"
    by (simp add: entries_of_def)
qed

lemma section_live:
  assumes "debug_inv dbg" and "s \<in> set (dbg_sections dbg)"
  shows "dbg_heap dbg s = Some (section_at dbg s)" and "section_inv (section_at dbg s)"
  using assms unfolding debug_inv_def by (auto simp: domD)

text \<open>Changing the contents of one section.\<close>

lemma debug_inv_update:
  assumes "debug_inv dbg" and "s \<in> set (dbg_sections dbg)" and "section_inv sec"
    and "dbg_sections d = dbg_sections dbg" "dbg_heap d = (dbg_heap dbg)(s \<mapsto> sec)" "next_section d = next_section dbg"
      "sections_count d = sections_count dbg"
      "sections_total_size d = sections_total_size dbg - sec_size (section_at dbg s) + sec_size sec"
      "sections_total_filled d = sections_total_filled dbg - sec_filled (section_at dbg s) + sec_filled sec"
  shows "debug_inv d"
proof -
  have "(\<Sum>x \<in> set (dbg_sections dbg). f (the (((dbg_heap dbg)(s \<mapsto> sec)) x))) =
      (\<Sum>x \<in> set (dbg_sections dbg). f (section_at dbg x)) - f (section_at dbg s) + f sec" for f :: "co_debug_section \<Rightarrow> int"
    using assms(2) by (intro sum_updated) simp_all
  then show ?thesis using assms by (auto simp: debug_inv_def)
qed

lemma entries_update:
  assumes "dbg_sections d = dbg_sections dbg" and "dbg_heap d = (dbg_heap dbg)(s \<mapsto> sec)"
  shows "entries_of d = map (\<lambda>(t, f, b). if t = s then (t, sec_folded sec, pending sec) else (t, f, b)) (entries_of dbg)"
  using assms by (auto simp: entries_of_def)

section \<open>Writing\<close>

definition with_record :: "co_debug_section \<Rightarrow> uchar list \<Rightarrow> ulong \<Rightarrow> co_debug_section" where
  "with_record sec data index =
     sec\<lparr>sec_buffer := take (nat (sec_filled sec)) (sec_buffer sec) @ log_record data index @
           drop (nat (sec_filled sec) + length data + 8) (sec_buffer sec),
         sec_filled := sec_filled sec + (int (length data) + 8)\<rparr>"

lemma with_record_inv:
  assumes "section_inv sec" and "\<not> sec_size sec - sec_filled sec < int (length data) + 8"
  shows "section_inv (with_record sec data index)" and "sec_size (with_record sec data index) = sec_size sec"
    and "sec_filled (with_record sec data index) = sec_filled sec + (int (length data) + 8)"
    and "sec_folded (with_record sec data index) = sec_folded sec"
    and "pending (with_record sec data index) = pending sec @ log_record data index"
proof -
  have *: "0 \<le> sec_filled sec" "sec_filled sec + (int (length data) + 8) \<le> int (length (sec_buffer sec))"
    using assms by (auto simp: section_inv_def)
  have "length (sec_buffer (with_record sec data index)) = length (sec_buffer sec)"
    using * by (simp add: with_record_def)
  then show "section_inv (with_record sec data index)"
    using assms by (simp add: section_inv_def with_record_def)
  have len: "length (take (nat (sec_filled sec)) (sec_buffer sec)) = nat (sec_filled sec)" using * by simp
  have "nat (sec_filled sec + (int (length data) + 8)) = nat (sec_filled sec) + length (log_record data index)"
    using * by simp
  then show "pending (with_record sec data index) = pending sec @ log_record data index"
    using len unfolding pending_def with_record_def by simp
qed (simp_all add: with_record_def)

lemma write_live:
  assumes "debug_inv dbg" and "s \<in> set (dbg_sections dbg)" and "\<not> sec_folded (section_at dbg s)"
  defines "sec \<equiv> section_at dbg s"
  shows "Option.bind (get_section s dbg) (\<lambda>dbg. write_section env dbg s (record_vector data index)) =
    Some (if sec_size sec - sec_filled sec < int (length data) + 8 then (CO_RC_ERROR, dbg, Some s)
      else (CO_RC_OK, dbg\<lparr>dbg_heap := (dbg_heap dbg)(s \<mapsto> with_record sec data index),
        sections_total_filled := sections_total_filled dbg + (int (length data) + 8)\<rparr>, Some s))"
proof -
  have live: "dbg_heap dbg s = Some sec" "section_inv sec" using section_live [OF assms(1,2)] by (simp_all add: sec_def)
  then have "sec_refs sec = 1" by (simp add: section_inv_def)
  then have get: "get_section s dbg = Some (dbg\<lparr>dbg_heap := (dbg_heap dbg)(s \<mapsto> sec\<lparr>sec_refs := 2\<rparr>)\<rparr>)"
    using live(1) by (simp add: get_section_def)
  have "dbg\<lparr>dbg_heap := (dbg_heap dbg)(s \<mapsto> sec)\<rparr> = dbg" using live(1) by (simp add: map_upd_triv)
  then show ?thesis
    using write_held [of "dbg\<lparr>dbg_heap := (dbg_heap dbg)(s \<mapsto> sec\<lparr>sec_refs := 2\<rparr>)\<rparr>" s sec env data index] live(2) assms(3)
    by (simp add: get sec_def with_record_def)
qed

text \<open>The first record of a client makes a section.\<close>

definition fresh_section :: "debug_env \<Rightarrow> co_debug_section" where
  "fresh_section env = \<lparr>sec_buffer = replicate 4096 (junk env), sec_size = 4096, sec_peak = 4096, sec_filled = 0,
     sec_refs = 1, sec_max = 65536, sec_folded = False\<rparr>"

lemma fresh_section_inv: "section_inv (fresh_section env)" "sec_size (fresh_section env) = 4096" "sec_filled (fresh_section env) = 0"
    "pending (fresh_section env) = []" "\<not> sec_folded (fresh_section env)"
  by (simp_all add: fresh_section_def section_inv_def pending_def CO_DEBUG_SECTION_BUFFER_START_SIZE_def
      CO_DEBUG_SECTION_BUFFER_MAX_SIZE_def)

lemma write_new:
  assumes "section_ok env" "buffer_ok env" "mutex_ok env" and "length data \<le> 0xf8"
    and "sections_total_filled dbg \<le> CO_DEBUG_MAX_FILL" and "\<not> dbg_freeing dbg"
  shows "co_debug_writev env dbg None (record_vector data index) =
    Some (CO_RC_OK,
      dbg\<lparr>sections_count := sections_count dbg + 1, sections_total_size := sections_total_size dbg + 4096,
        dbg_sections := dbg_sections dbg @ [next_section dbg],
        next_section := next_section dbg + 1,
        dbg_heap := (dbg_heap dbg)(next_section dbg \<mapsto> with_record (fresh_section env) data index),
        sections_total_filled := sections_total_filled dbg + (int (length data) + 8)\<rparr>, Some (next_section dbg))"
proof -
  have cs: "create_section env = Inr ((fresh_section env)\<lparr>sec_refs := 0\<rparr>)"
    using assms(1-3) by (simp add: create_section_def fresh_section_def CO_DEBUG_SECTION_BUFFER_START_SIZE_def
        CO_DEBUG_SECTION_BUFFER_MAX_SIZE_def)
  have "\<not> CO_DEBUG_MAX_FILL < sections_total_filled dbg" using assms(5) by simp
  moreover have "sec_size (fresh_section env) = 4096" "sec_filled (fresh_section env) = 0" by (simp_all add: fresh_section_def)
  ultimately show ?thesis
    using assms(4,6) cs fresh_section_inv(1,5)
      write_held [of "dbg\<lparr>sections_count := sections_count dbg + 1, sections_total_size := sections_total_size dbg + 4096,
        dbg_sections := dbg_sections dbg @ [next_section dbg],
        next_section := next_section dbg + 1,
        dbg_heap := (dbg_heap dbg)(next_section dbg \<mapsto> (fresh_section env)\<lparr>sec_refs := 2\<rparr>)\<rparr>" "next_section dbg" "fresh_section env" env data index]
    by (simp add: co_debug_writev_def get_section_def with_record_def Let_def)
qed

definition refines_step :: "log_op \<Rightarrow> bool" where
  "refines_step op \<longleftrightarrow>
     (\<forall>st ls. log_rel st ls \<longrightarrow>
        (\<exists>st'. debug_step op st = Some (fst (log_step op ls), st') \<and> log_rel st' (snd (log_step op ls))))"

text \<open>The driver index is not part of what the invariant is about.\<close>

lemma index_only [simp]:
  "debug_inv (dbg\<lparr>debug_driver_index := i\<rparr>) = debug_inv dbg"
  "entries_of (dbg\<lparr>debug_driver_index := i\<rparr>) = entries_of dbg"
  by (simp_all add: debug_inv_def entries_of_def)

lemma log_rel_index:
  "log_rel (dbg, ptrs) ls \<Longrightarrow> log_rel (dbg\<lparr>debug_driver_index := i\<rparr>, ptrs) (ls\<lparr>log_index := i\<rparr>)"
  by (simp add: log_rel_def)

lemma entries_below:
  "debug_inv dbg \<Longrightarrow> next_section dbg \<notin> set (dbg_sections dbg)"
  by (auto simp: debug_inv_def)

lemma debug_inv_add:
  assumes "debug_inv dbg" and "section_inv sec"
    and "dbg_sections d = dbg_sections dbg @ [next_section dbg]" "dbg_heap d = (dbg_heap dbg)(next_section dbg \<mapsto> sec)"
      "next_section d = next_section dbg + 1" "sections_count d = sections_count dbg + 1"
      "sections_total_size d = sections_total_size dbg + sec_size sec"
      "sections_total_filled d = sections_total_filled dbg + sec_filled sec"
  shows "debug_inv d" and "entries_of d = entries_of dbg @ [(next_section dbg, sec_folded sec, pending sec)]"
proof -
  note new = entries_below [OF assms(1)]
  then show "debug_inv d" using assms by (auto simp: debug_inv_def less_Suc_eq intro!: sum.cong)
  show "entries_of d = entries_of dbg @ [(next_section dbg, sec_folded sec, pending sec)]"
    using new assms(3,4) by (auto simp: entries_of_def)
qed

lemma write_refines:
  assumes "int (length data) < 2 ^ 32"
  shows "refines_step (Log_write c data env)"
  unfolding refines_step_def
proof (intro allI impI)
  fix st ls
  assume rel: "log_rel st ls"
  obtain dbg ptrs where st: "st = (dbg, ptrs)" by (cases st) auto
  let ?op = "Log_write c data env"
  let ?i = "debug_driver_index dbg + 1"
  let ?dbg = "dbg\<lparr>debug_driver_index := ?i\<rparr>" and ?ls = "ls\<lparr>log_index := ?i\<rparr>"
  have inv: "debug_inv dbg" "\<not> dbg_freeing dbg" "entries ls = entries_of dbg" "owned ls = ptrs"
      "next_id ls = next_section dbg" "log_index ls = debug_driver_index dbg"
      "\<And>c s. ptrs c = Some s \<Longrightarrow> s \<in> set (dbg_sections dbg) \<and> \<not> sec_folded (section_at dbg s)"
      "\<And>c c' s. ptrs c = Some s \<Longrightarrow> ptrs c' = Some s \<Longrightarrow> c = c'"
    using rel by (auto simp: st log_rel_def)
  have rel': "log_rel (?dbg, ptrs) ?ls" using rel unfolding st by (rule log_rel_index)
  have total: "0x100000 < total_pending (entries_of dbg) \<longleftrightarrow> CO_DEBUG_MAX_FILL < sections_total_filled dbg"
    using total_of [OF inv(1)] by (simp add: CO_DEBUG_MAX_FILL_def) linarith
  have same: "ptrs(c := ptrs c) = ptrs" by simp
  show "\<exists>st'. debug_step ?op st = Some (fst (log_step ?op ls), st') \<and> log_rel st' (snd (log_step ?op ls))"
  proof (cases "0xf8 < length data \<or> CO_DEBUG_MAX_FILL < sections_total_filled dbg")
    case True
    then show ?thesis
      using rel rel' inv(2,3,6) total write_log_vector [OF assms, of env dbg "ptrs c"]
      by (auto simp: st co_debug_writev_def Let_def)
  next
    case False
    then have small: "length data \<le> 0xf8" "sections_total_filled dbg \<le> CO_DEBUG_MAX_FILL" "\<not> 0x100000 < total_pending (entries_of dbg)"
      using total by auto
    show ?thesis
    proof (cases "ptrs c")
      case (Some s)
      let ?sec = "section_at dbg s"
      let ?d = "?dbg\<lparr>dbg_heap := (dbg_heap dbg)(s \<mapsto> with_record ?sec data ?i),
        sections_total_filled := sections_total_filled dbg + (int (length data) + 8)\<rparr>"
      have s: "s \<in> set (dbg_sections dbg)" "\<not> sec_folded ?sec" using inv(7) [OF Some] by auto
      note live = section_live [OF inv(1) s(1)]
      have len: "sec_size ?sec - sec_filled ?sec < int (length data) + 8 \<longleftrightarrow>
          0x1000 < length (pending_of s (entries_of dbg)) + length (log_record data ?i)"
      proof -
        have "int (length (pending ?sec)) = sec_filled ?sec" "sec_size ?sec = 0x1000"
          using live(2) s(2) by (auto simp: section_inv_def pending_def CO_DEBUG_SECTION_BUFFER_START_SIZE_def)
        then show ?thesis using pending_of_entries [OF s(1)] by simp linarith
      qed
      have run: "co_debug_write_log env dbg (Some s) [Write_vector (int (length data)) data []] =
          Some (if sec_size ?sec - sec_filled ?sec < int (length data) + 8 then (CO_RC_ERROR, ?dbg, Some s)
            else (CO_RC_OK, ?d, Some s))"
        using write_log_vector [OF assms, of env dbg "Some s"] write_live [of ?dbg s env data ?i] s inv(1,2) small
        by (simp add: co_debug_writev_def)
      show ?thesis
      proof (cases "sec_size ?sec - sec_filled ?sec < int (length data) + 8")
        case True
        then have "0x1000 < length (pending_of s (entries_of dbg)) + length (log_record data ?i)" using len by blast
        then show ?thesis
          using run True rel' small inv(3-6) Some same by (simp add: st Let_def fun_upd_idem)
      next
        case no: False
        note wr = with_record_inv [OF live(2) no, of ?i]
        have d: "debug_inv ?d"
          by (rule debug_inv_update [OF inv(1) s(1) wr(1)]) (simp_all add: wr)
        have e: "entries_of ?d = append_record s (log_record data ?i) (entries_of dbg)"
        proof -
          have "entries_of ?d = map (\<lambda>(t, f, b). if t = s then (t, sec_folded ?sec, pending ?sec @ log_record data ?i) else (t, f, b))
              (entries_of dbg)"
            using entries_update [of ?d dbg s "with_record ?sec data ?i"] unfolding wr(4,5) by simp
          also have "\<dots> = append_record s (log_record data ?i) (entries_of dbg)"
            by (auto simp: append_record_def entries_of_def)
          finally show ?thesis .
        qed
        have "log_rel (?d, ptrs) (?ls\<lparr>entries := append_record s (log_record data ?i) (entries ls)\<rparr>)"
          using d e inv wr s unfolding log_rel_def by auto
        moreover have "\<not> 0x1000 < length (pending_of s (entries_of dbg)) + length (log_record data ?i)" using len no by blast
        ultimately show ?thesis
          using run no small inv(3-6) Some by (simp add: st Let_def fun_upd_idem)
      qed
    next
      case None
      note fr = with_record_inv [of "fresh_section env" data ?i]
      let ?sec = "with_record (fresh_section env) data ?i"
      let ?s = "next_section dbg"
      let ?d = "?dbg\<lparr>sections_count := sections_count dbg + 1, sections_total_size := sections_total_size dbg + 4096,
        dbg_sections := dbg_sections dbg @ [?s], next_section := ?s + 1, dbg_heap := (dbg_heap dbg)(?s \<mapsto> ?sec),
        sections_total_filled := sections_total_filled dbg + (int (length data) + 8)\<rparr>"
      show ?thesis
      proof (cases "section_ok env \<and> buffer_ok env \<and> mutex_ok env")
        case True
        then have run: "co_debug_write_log env dbg None [Write_vector (int (length data)) data []] = Some (CO_RC_OK, ?d, Some ?s)"
          using write_log_vector [OF assms, of env dbg None] write_new [of env data ?dbg ?i] small inv(2) by simp
        have sec: "section_inv ?sec" "sec_size ?sec = 4096" "sec_filled ?sec = int (length data) + 8"
            "\<not> sec_folded ?sec" "pending ?sec = log_record data ?i"
          using fr fresh_section_inv [of env] small(1) by simp_all
        have d: "debug_inv ?d" "entries_of ?d = entries_of dbg @ [(?s, False, log_record data ?i)]"
          using debug_inv_add [OF inv(1) sec(1), of ?d] sec by simp_all
        have "c' = c" if "ptrs c' = Some ?s" for c' using inv(7) [OF that] entries_below [OF inv(1)] by auto
        then have "log_rel (?d, ptrs(c \<mapsto> ?s)) (?ls\<lparr>entries := entries ls @ [(?s, False, log_record data ?i)],
            owned := ptrs(c \<mapsto> ?s), next_id := ?s + 1\<rparr>)"
          using d inv sec(4) entries_below [OF inv(1)] unfolding log_rel_def by auto
        then show ?thesis
          using run True small inv(3-6) None by (simp add: st Let_def)
      next
        case False
        then show ?thesis
          using rel' small inv(2-6) None same write_log_vector [OF assms, of env dbg None]
          by (auto simp: st Let_def co_debug_writev_def create_section_def)
      qed
    qed
  qed
qed

section \<open>Closing\<close>

definition folded_section :: "debug_env \<Rightarrow> co_debug_section \<Rightarrow> co_debug_section" where
  "folded_section env sec =
     (if buffer_ok env
      then sec\<lparr>sec_buffer := pending sec @ [junk env], sec_size := sec_filled sec, sec_folded := True\<rparr>
      else sec\<lparr>sec_folded := True\<rparr>)"

lemma folded_section_inv:
  assumes "section_inv sec"
  shows "section_inv (folded_section env sec)" and "sec_filled (folded_section env sec) = sec_filled sec"
    and "sec_folded (folded_section env sec)" and "pending (folded_section env sec) = pending sec"
proof -
  have "length (pending sec) = nat (sec_filled sec)" using assms by (auto simp: pending_def section_inv_def)
  then show "section_inv (folded_section env sec)" "pending (folded_section env sec) = pending sec"
    using assms by (auto simp: folded_section_def section_inv_def pending_def)
qed (simp_all add: folded_section_def)

lemma fold_live:
  assumes "debug_inv dbg" and "s \<in> set (dbg_sections dbg)"
  defines "sec \<equiv> section_at dbg s"
  shows "co_debug_fold env dbg s =
    Some (if buffer_ok env then CO_RC_OK else CO_RC_OUT_OF_MEMORY,
      dbg\<lparr>sections_total_size := sections_total_size dbg - sec_size sec + sec_size (folded_section env sec),
        dbg_heap := (dbg_heap dbg)(s \<mapsto> folded_section env sec)\<rparr>)"
proof -
  have live: "dbg_heap dbg s = Some sec" "section_inv sec" using section_live [OF assms(1,2)] by (simp_all add: sec_def)
  obtain b z p f m d where sec: "sec = \<lparr>sec_buffer = b, sec_size = z, sec_peak = p, sec_filled = f, sec_refs = 1, sec_max = m, sec_folded = d\<rparr>"
    using live(2) by (cases sec) (simp add: section_inv_def)
  have f: "0 \<le> f" "f \<le> int (length b)" using live(2) by (simp_all add: sec section_inv_def)
  moreover have "replicate (nat (f + 1)) (junk env) = replicate (nat f) (junk env) @ [junk env]"
    using f by (simp add: nat_add_distrib replicate_append_same)
  ultimately have "copy_loop (replicate (nat (f + 1)) (junk env)) 0 b 0 (nat f) = Some (take (nat f) b @ [junk env])"
    by (simp add: copy_loop_Some)
  then show ?thesis
    using live(1) by (simp add: co_debug_fold_def get_section_def put_section_def sec folded_section_def pending_def)
qed

lemma close_refines: "refines_step (Log_close c env)"
  unfolding refines_step_def
proof (intro allI impI)
  fix st ls
  assume rel: "log_rel st ls"
  obtain dbg ptrs where st: "st = (dbg, ptrs)" by (cases st) auto
  let ?op = "Log_close c env"
  have inv: "debug_inv dbg" "entries ls = entries_of dbg" "owned ls = ptrs"
      "\<And>c s. ptrs c = Some s \<Longrightarrow> s \<in> set (dbg_sections dbg) \<and> \<not> sec_folded (section_at dbg s)"
      "\<And>c c' s. ptrs c = Some s \<Longrightarrow> ptrs c' = Some s \<Longrightarrow> c = c'"
    using rel by (auto simp: st log_rel_def)
  show "\<exists>st'. debug_step ?op st = Some (fst (log_step ?op ls), st') \<and> log_rel st' (snd (log_step ?op ls))"
  proof (cases "ptrs c")
    case None
    then show ?thesis using rel inv by (auto simp: st)
  next
    case (Some s)
    have s: "s \<in> set (dbg_sections dbg)" using inv(4) [OF Some] by simp
    let ?sec = "folded_section env (section_at dbg s)"
    note fo = folded_section_inv [OF section_live(2) [OF inv(1) s], of env]
    let ?d = "dbg\<lparr>sections_total_size := sections_total_size dbg - sec_size (section_at dbg s) + sec_size ?sec,
        dbg_heap := (dbg_heap dbg)(s \<mapsto> ?sec)\<rparr>"
    have d: "debug_inv ?d" by (rule debug_inv_update [OF inv(1) s fo(1)]) (simp_all add: fo)
    have "entries_of ?d = map (\<lambda>(t, f, b). (t, f \<or> t = s, b)) (entries_of dbg)"
      using entries_update [of ?d dbg s ?sec] fo by (auto simp: entries_of_def)
    then have "log_rel (?d, ptrs(c := None)) (ls\<lparr>entries := map (\<lambda>(t, f, b). (t, f \<or> t = s, b)) (entries ls), owned := ptrs(c := None)\<rparr>)"
      using d rel inv Some unfolding st log_rel_def by auto
    then show ?thesis using Some inv fold_live [OF inv(1) s, of env] by (auto simp: st)
  qed
qed

section \<open>Reading\<close>

lemma debug_inv_remove:
  assumes "debug_inv dbg" and "s \<in> set (dbg_sections dbg)"
    and "dbg_sections d = remove1 s (dbg_sections dbg)" "dbg_heap d = (dbg_heap dbg)(s := None)"
      "next_section d = next_section dbg" "sections_count d = sections_count dbg - 1"
      "sections_total_size d = sections_total_size dbg - sec_size (section_at dbg s)"
      "sections_total_filled d = sections_total_filled dbg - sec_filled (section_at dbg s)"
  shows "debug_inv d" and "entries_of d = filter (\<lambda>e. fst e \<noteq> s) (entries_of dbg)"
proof -
  have dist: "distinct (dbg_sections dbg)" using assms(1) by (simp add: debug_inv_def)
  have "0 < length (dbg_sections dbg)" using assms(2) by (cases "dbg_sections dbg") auto
  then have one: "int (length (remove1 s (dbg_sections dbg))) = int (length (dbg_sections dbg)) - 1"
    using assms(2) by (simp add: length_remove1 of_nat_diff Suc_le_eq)
  have sum: "(\<Sum>x \<in> set (dbg_sections dbg) - {s}. f (the (((dbg_heap dbg)(s := None)) x))) =
      (\<Sum>x \<in> set (dbg_sections dbg). f (section_at dbg x)) - (f (section_at dbg s) :: int)" for f
    using assms(2) sum.remove [of "set (dbg_sections dbg)" s "\<lambda>x. f (section_at dbg x)"]
      sum_other [of s "set (dbg_sections dbg) - {s}" f "dbg_heap dbg" None] by simp
  show "debug_inv d"
    using assms(1,3-8) dist one sum assms(2)
    unfolding debug_inv_def by auto
  have "map f (remove1 s ss) = filter (\<lambda>e. fst e \<noteq> s) (map f' ss)"
    if "distinct ss" "\<And>x. fst (f' x) = x" "\<And>x. x \<noteq> s \<Longrightarrow> f x = f' x" for f f' :: "nat \<Rightarrow> nat \<times> bool \<times> uchar list" and ss
    using that by (induction ss) (auto simp: remove1_idem)
  then show "entries_of d = filter (\<lambda>e. fst e \<noteq> s) (entries_of dbg)"
    unfolding entries_of_def assms(3,4) using dist by simp
qed

text \<open>One section of a read: it stays, it is emptied, or it is emptied and freed.\<close>

definition emptied :: "section_id \<Rightarrow> co_manager_debug \<Rightarrow> co_manager_debug" where
  "emptied s dbg =
     (let sec = section_at dbg s
      in if sec_folded sec
         then dbg\<lparr>sections_total_filled := sections_total_filled dbg - sec_filled sec,
                dbg_sections := remove1 s (dbg_sections dbg), dbg_heap := (dbg_heap dbg)(s := None),
                sections_count := sections_count dbg - 1,
                sections_total_size := sections_total_size dbg - sec_size sec\<rparr>
         else dbg\<lparr>sections_total_filled := sections_total_filled dbg - sec_filled sec,
                dbg_heap := (dbg_heap dbg)(s \<mapsto> sec\<lparr>sec_filled := 0\<rparr>)\<rparr>)"

lemma read_live:
  assumes "debug_inv dbg" and "s \<in> set (dbg_sections dbg)"
  defines "sec \<equiv> section_at dbg s"
  shows "read_section env copy_ok n s (dbg, out) =
    Some (if copy_ok \<and> int (length (pending sec)) \<le> n - int (length out) then (emptied s dbg, out @ pending sec) else (dbg, out))"
proof -
  have live: "dbg_heap dbg s = Some sec" "section_inv sec" using section_live [OF assms(1,2)] by (simp_all add: sec_def)
  obtain b z p f m d where sec: "sec = \<lparr>sec_buffer = b, sec_size = z, sec_peak = p, sec_filled = f, sec_refs = 1, sec_max = m, sec_folded = d\<rparr>"
    using live(2) by (cases sec) (simp add: section_inv_def)
  have inv: "0 \<le> f" "f \<le> z" "z \<le> int (length b)" "z \<le> CO_DEBUG_SECTION_BUFFER_START_SIZE" "p = CO_DEBUG_SECTION_BUFFER_START_SIZE"
      "m = CO_DEBUG_SECTION_BUFFER_MAX_SIZE" "\<not> d \<Longrightarrow> z = CO_DEBUG_SECTION_BUFFER_START_SIZE"
    using live(2) by (simp_all add: sec section_inv_def)
  have len: "int (length (pending sec)) = f" using inv by (simp add: sec pending_def)
  have same: "dbg\<lparr>dbg_heap := (dbg_heap dbg)(s \<mapsto> sec)\<rparr> = dbg" using live(1) by (simp add: map_upd_triv)
  show ?thesis
  proof (cases "copy_ok \<and> f \<le> n - int (length out)")
    case True
    show ?thesis
    proof (cases d)
      case True
      let ?sec = "\<lparr>sec_buffer = b, sec_size = z, sec_peak = p, sec_filled = 0, sec_refs = 1, sec_max = m, sec_folded = False\<rparr>"
      obtain sec' where sec': "\<And>dbg. resize_section env dbg ?sec = Some (dbg, sec')" "sec_refs sec' = 1" "sec_size sec' = z"
        using resize_empty [of ?sec env] by auto
      show ?thesis
        using True \<open>copy_ok \<and> _\<close> len live(1) inv sec'
        by (simp add: read_section_def get_section_def put_section_def sec sec_def [symmetric] emptied_def Let_def pending_def not_less)
    next
      case False
      then have rs: "\<And>dbg. resize_section env dbg (sec\<lparr>sec_filled := 0, sec_refs := 2\<rparr>) = Some (dbg, sec\<lparr>sec_filled := 0, sec_refs := 2\<rparr>)"
        using inv by (intro resize_nothing) (simp_all add: sec)
      show ?thesis
        using False \<open>copy_ok \<and> _\<close> len live(1) inv rs
        by (simp add: read_section_def get_section_def put_section_def sec sec_def [symmetric] emptied_def Let_def pending_def not_less)
    qed
  next
    case False
    have rs: "\<not> d \<Longrightarrow> resize_section env dbg' (sec\<lparr>sec_refs := 2\<rparr>) = Some (dbg', sec\<lparr>sec_refs := 2\<rparr>)" for dbg'
      using inv by (intro resize_nothing) (simp_all add: sec)
    show ?thesis
      using False len live(1) inv rs same
      by (cases d) (auto simp: read_section_def get_section_def put_section_def sec sec_def [symmetric] Let_def not_less)
  qed
qed

lemma entry_facts:
  assumes "(s, f, b) \<in> set (entries_of dbg)"
  shows "s \<in> set (dbg_sections dbg)" "f = sec_folded (section_at dbg s)" "b = pending (section_at dbg s)"
  using assms by (auto simp: entries_of_def)

lemma entries_fst: "map fst (entries_of dbg) = dbg_sections dbg"
  by (simp add: entries_of_def comp_def)

lemma emptied_inv:
  assumes "debug_inv dbg" and "entries_of dbg = ep @ (s, f, b) # es"
  shows "debug_inv (emptied s dbg)" and "entries_of (emptied s dbg) = ep @ (if f then es else (s, f, []) # es)"
proof -
  have e: "(s, f, b) \<in> set (entries_of dbg)" using assms(2) by simp
  note s = entry_facts [OF e]
  have "distinct (map fst (ep @ (s, f, b) # es))"
    using assms(1) entries_fst [of dbg] by (simp add: assms(2) debug_inv_def)
  then have others: "\<And>x. x \<in> set ep \<or> x \<in> set es \<Longrightarrow> fst x \<noteq> s" by (auto simp: image_iff)
  have "section_inv ((section_at dbg s)\<lparr>sec_filled := 0\<rparr>)"
    using section_live(2) [OF assms(1) s(1)] by (simp add: section_inv_def)
  note up = debug_inv_update [OF assms(1) s(1) this]
  show "debug_inv (emptied s dbg)"
  proof (cases f)
    case True
    then show ?thesis using s by (intro debug_inv_remove(1) [OF assms(1) s(1)]) (simp_all add: emptied_def Let_def)
  next
    case False
    then show ?thesis using s by (intro up) (simp_all add: emptied_def Let_def)
  qed
  show "entries_of (emptied s dbg) = ep @ (if f then es else (s, f, []) # es)"
  proof (cases f)
    case True
    then have "entries_of (emptied s dbg) = filter (\<lambda>e. fst e \<noteq> s) (entries_of dbg)"
      using s by (intro debug_inv_remove(2) [OF assms(1) s(1)]) (simp_all add: emptied_def Let_def)
    then show ?thesis using True others by (simp add: assms(2))
  next
    case False
    then have "entries_of (emptied s dbg) = map (\<lambda>(t, f', b'). if t = s then (t, f, []) else (t, f', b')) (entries_of dbg)"
      using s entries_update [of "emptied s dbg" dbg s "(section_at dbg s)\<lparr>sec_filled := 0\<rparr>"]
      by (simp add: emptied_def Let_def pending_def cong: if_cong)
    moreover have same: "map (\<lambda>(t, f', b'). if t = s then (t, f, []) else (t, f', b')) xs = xs" if "\<And>x. x \<in> set xs \<Longrightarrow> fst x \<noteq> s" for xs
      using that by (intro map_idI) fastforce
    ultimately show ?thesis using False same [of ep] same [of es] others by (simp add: assms(2))
  qed
qed

lemma emptied_frame [simp]:
  "dbg_freeing (emptied s dbg) = dbg_freeing dbg" "next_section (emptied s dbg) = next_section dbg"
  "debug_driver_index (emptied s dbg) = debug_driver_index dbg"
  by (simp_all add: emptied_def Let_def)

lemma read_sections_refines:
  assumes "debug_inv dbg" and "entries_of dbg = ep @ es" and "read_entries copies (n - int (length out)) es = (new, es')"
  shows "\<exists>d. read_sections env copies n (map fst es) (dbg, out) = Some (d, out @ new) \<and> debug_inv d \<and>
    entries_of d = ep @ es' \<and> dbg_freeing d = dbg_freeing dbg \<and> next_section d = next_section dbg \<and>
    debug_driver_index d = debug_driver_index dbg"
  using assms
proof (induction es arbitrary: dbg ep out new es')
  case Nil
  then show ?case by auto
next
  case (Cons e es)
  obtain s f b where e: "e = (s, f, b)" by (cases e) auto
  have "(s, f, b) \<in> set (entries_of dbg)" using Cons.prems(2) e by simp
  note s = entry_facts [OF this]
  note one = read_live [OF Cons.prems(1) s(1), of env "copies s" n out]
  show ?case
  proof (cases "copies s \<and> int (length b) \<le> n - int (length out)")
    case True
    note em = emptied_inv [OF Cons.prems(1) Cons.prems(2) [unfolded e]]
    obtain o2 es2 where r: "read_entries copies (n - int (length (out @ b))) es = (o2, es2)" by fastforce
    have res: "new = b @ o2" "es' = (if f then es2 else (s, f, []) # es2)"
      using Cons.prems(3) True r by (auto simp: e diff_diff_eq split: prod.splits)
    show ?thesis
      using Cons.IH [of "emptied s dbg" "if f then ep else ep @ [(s, f, [])]" "out @ b" o2 es2, OF em(1) _ r] em(2) one True res s(3)
      by (cases f) (auto simp: e)
  next
    case False
    obtain o2 es2 where r: "read_entries copies (n - int (length out)) es = (o2, es2)" by fastforce
    have res: "new = o2" "es' = (s, f, b) # es2"
      using Cons.prems(3) False r by (auto simp: e split: if_splits prod.splits)
    show ?thesis
      using Cons.IH [of dbg "ep @ [(s, f, b)]" out o2 es2, OF Cons.prems(1) _ r] Cons.prems(2) one False res s(3)
      by (auto simp: e)
  qed
qed

lemma read_entries_keeps:
  "read_entries copies n es = (new, es') \<Longrightarrow> (s, False, b) \<in> set es \<Longrightarrow> \<exists>b'. (s, False, b') \<in> set es'"
proof (induction copies n es arbitrary: new es' rule: read_entries.induct)
  case (2 copies n t f c es)
  then show ?case by (fastforce simp: Let_def split: if_splits prod.splits)
qed simp

lemma read_refines: "refines_step (Log_read n copies env)"
  unfolding refines_step_def
proof (intro allI impI)
  fix st ls
  assume rel: "log_rel st ls"
  obtain dbg ptrs where st: "st = (dbg, ptrs)" by (cases st) auto
  let ?op = "Log_read n copies env"
  have inv: "debug_inv dbg" "entries ls = entries_of dbg"
      "\<And>c s. ptrs c = Some s \<Longrightarrow> s \<in> set (dbg_sections dbg) \<and> \<not> sec_folded (section_at dbg s)"
    using rel by (auto simp: st log_rel_def)
  obtain new es where r: "read_entries copies (uint n) (entries_of dbg) = (new, es)" by fastforce
  then obtain d where d: "read_sections env copies (uint n) (dbg_sections dbg) (dbg, []) = Some (d, new)" "debug_inv d"
      "entries_of d = es" "dbg_freeing d = dbg_freeing dbg" "next_section d = next_section dbg"
      "debug_driver_index d = debug_driver_index dbg"
    using read_sections_refines [OF inv(1), of "[]" "entries_of dbg" copies "uint n" "[]" new es env]
    by (auto simp: entries_fst)
  have "s \<in> set (dbg_sections d) \<and> \<not> sec_folded (section_at d s)" if "ptrs c = Some s" for c s
  proof -
    have "(s, False, pending (section_at dbg s)) \<in> set (entries_of dbg)"
      using inv(3) [OF that] by (auto simp: entries_of_def)
    from read_entries_keeps [OF r this] obtain b where "(s, False, b) \<in> set (entries_of d)" using d(3) by blast
    from entry_facts [OF this] show ?thesis by simp
  qed
  then have "log_rel (d, ptrs) (ls\<lparr>entries := es\<rparr>)" using d rel unfolding st log_rel_def by auto
  then show "\<exists>st'. debug_step ?op st = Some (fst (log_step ?op ls), st') \<and> log_rel st' (snd (log_step ?op ls))"
    using d(1) r inv(2) by (simp add: st co_debug_read_def)
qed

section \<open>Every sequence of operations\<close>

fun debug_run ::
  "log_op list \<Rightarrow> co_manager_debug \<times> (nat \<rightharpoonup> section_id) \<Rightarrow>
    ((co_rc_value + uchar list) list \<times> co_manager_debug \<times> (nat \<rightharpoonup> section_id)) option" where
  "debug_run [] st = Some ([], st)"
| "debug_run (op # ops) st =
     Option.bind (debug_step op st) (\<lambda>(r, st). map_option (\<lambda>(rs, st). (r # rs, st)) (debug_run ops st))"

fun log_run :: "log_op list \<Rightarrow> log_spec \<Rightarrow> (co_rc_value + uchar list) list \<times> log_spec" where
  "log_run [] ls = ([], ls)"
| "log_run (op # ops) ls = (let (r, ls) = log_step op ls; (rs, ls) = log_run ops ls in (r # rs, ls))"

text \<open>A length of the ioctl is an \<open>unsigned long\<close>.\<close>

fun op_fits :: "log_op \<Rightarrow> bool" where
  "op_fits (Log_write c data env) \<longleftrightarrow> int (length data) < 2 ^ 32"
| "op_fits op \<longleftrightarrow> True"

definition debug_zeroed :: co_manager_debug where
  "debug_zeroed = \<lparr>dbg_ready = False, dbg_sections = [], dbg_heap = Map.empty, next_section = 0, dbg_freeing = False,
     sections_count = 0, sections_total_size = 0, sections_total_filled = 0, debug_driver_index = 0\<rparr>"

definition debug_started :: co_manager_debug where
  "debug_started = snd (co_debug_init True True debug_zeroed)"

definition log_empty :: log_spec where
  "log_empty = \<lparr>entries = [], owned = Map.empty, next_id = 0, log_index = 0\<rparr>"

lemma log_rel_started: "log_rel (debug_started, Map.empty) log_empty"
  by (simp add: log_rel_def debug_started_def debug_zeroed_def log_empty_def co_debug_init_def debug_inv_def entries_of_def)

lemma op_refines: "op_fits op \<Longrightarrow> refines_step op"
  by (cases op) (simp_all add: write_refines close_refines read_refines)

lemma run_refines:
  "\<forall>op \<in> set ops. op_fits op \<Longrightarrow> log_rel st ls \<Longrightarrow>
    \<exists>st'. debug_run ops st = Some (fst (log_run ops ls), st') \<and> log_rel st' (snd (log_run ops ls))"
proof (induction ops arbitrary: st ls)
  case (Cons op ops)
  then have "refines_step op" by (simp add: op_refines)
  with Cons.prems(2) obtain st1 where 1: "debug_step op st = Some (fst (log_step op ls), st1)" "log_rel st1 (snd (log_step op ls))"
    unfolding refines_step_def by blast
  obtain st2 where "debug_run ops st1 = Some (fst (log_run ops (snd (log_step op ls))), st2)"
      "log_rel st2 (snd (log_run ops (snd (log_step op ls))))"
    using Cons.IH [OF _ 1(2)] Cons.prems(1) by auto
  with 1 show ?case by (auto simp: Let_def split_beta)
qed simp

text \<open>
  C30: the sections implement the abstract log. Every sequence of writes, closes and reads runs
  without touching a section that was freed or a byte outside of a section, and gives the results
  of the abstract log: an accepted record is appended to the bytes of its client, a read delivers
  the pending bytes of each section once, whole and in order, and the sections of closed clients
  disappear when they have been read. At the end the counts are exact.
\<close>

theorem debug_log_refines:
  assumes "\<forall>op \<in> set ops. op_fits op"
  shows "\<exists>dbg ptrs. debug_run ops (debug_started, Map.empty) = Some (fst (log_run ops log_empty), dbg, ptrs) \<and>
    entries_of dbg = entries (snd (log_run ops log_empty)) \<and>
    sections_count dbg = int (length (entries_of dbg)) \<and>
    sections_total_filled dbg = int (total_pending (entries_of dbg)) \<and>
    sections_total_size dbg = (\<Sum>s \<leftarrow> dbg_sections dbg. sec_size (section_at dbg s))"
proof -
  obtain st where st: "debug_run ops (debug_started, Map.empty) = Some (fst (log_run ops log_empty), st)"
      "log_rel st (snd (log_run ops log_empty))"
    using run_refines [OF assms log_rel_started] by blast
  obtain dbg ptrs where "st = (dbg, ptrs)" by (cases st) auto
  with st have "debug_inv dbg" "entries_of dbg = entries (snd (log_run ops log_empty))"
      "debug_run ops (debug_started, Map.empty) = Some (fst (log_run ops log_empty), dbg, ptrs)"
    by (auto simp: log_rel_def)
  moreover from this(1) have "sections_count dbg = int (length (entries_of dbg))"
      "sections_total_size dbg = (\<Sum>s \<leftarrow> dbg_sections dbg. sec_size (section_at dbg s))"
    by (simp_all add: debug_inv_def entries_of_def sum_list_distinct_conv_sum_set)
  ultimately show ?thesis using total_of by fastforce
qed

definition env_ok :: debug_env where
  "env_ok = \<lparr>section_ok = True, buffer_ok = True, mutex_ok = True, resize_ok = True, junk = 0\<rparr>"

definition log_demo :: "log_op list" where
  "log_demo = [Log_write 1 [65, 66] env_ok, Log_write 2 [67] env_ok, Log_close 1 env_ok, Log_read 100 (\<lambda>_. True) env_ok]"

theorem debug_log_refines_witness:
  "(\<exists>dbg ptrs. debug_run log_demo (debug_started, Map.empty) = Some (fst (log_run log_demo log_empty), dbg, ptrs) \<and>
    entries_of dbg = entries (snd (log_run log_demo log_empty)) \<and>
    sections_count dbg = int (length (entries_of dbg)) \<and>
    sections_total_filled dbg = int (total_pending (entries_of dbg)) \<and>
    sections_total_size dbg = (\<Sum>s \<leftarrow> dbg_sections dbg. sec_size (section_at dbg s))) \<and>
   fst (log_run log_demo log_empty) = [Inl CO_RC_OK, Inl CO_RC_OK, Inl CO_RC_OK,
     Inr ([0, 8, 65, 66, 10, 4, 1, 0, 0, 0] @ [0, 7, 67, 10, 4, 2, 0, 0, 0])] \<and>
   entries (snd (log_run log_demo log_empty)) = [(1, False, [])]"
proof -
  have "fst (log_run log_demo log_empty) = [Inl CO_RC_OK, Inl CO_RC_OK, Inl CO_RC_OK,
     Inr ([0, 8, 65, 66, 10, 4, 1, 0, 0, 0] @ [0, 7, 67, 10, 4, 2, 0, 0, 0])]"
    "entries (snd (log_run log_demo log_empty)) = [(1, False, [])]"
    by (simp_all add: log_demo_def log_empty_def env_ok_def log_record_def le32_def total_pending_def)
  moreover have "\<forall>op \<in> set log_demo. op_fits op" by (simp add: log_demo_def)
  ultimately show ?thesis using debug_log_refines [of log_demo] by blast
qed

text \<open>
  A section never grows. However the log is used, the section of a client keeps the 4096 bytes
  it starts with; \<open>resize_section\<close> returns unless the size it computed is the size it has,
  where the comment and the limit of 65536 bytes say that a section that is half full is doubled.
\<close>

theorem debug_section_never_grows:
  assumes "\<forall>op \<in> set ops. op_fits op"
  shows "\<exists>dbg ptrs. debug_run ops (debug_started, Map.empty) = Some (fst (log_run ops log_empty), dbg, ptrs) \<and>
    dbg_sections dbg = map fst (entries (snd (log_run ops log_empty))) \<and>
    (\<forall>s \<in> set (dbg_sections dbg). sec_max (section_at dbg s) = 65536 \<and> sec_size (section_at dbg s) \<le> 4096 \<and>
      (\<not> sec_folded (section_at dbg s) \<longrightarrow> sec_size (section_at dbg s) = 4096))"
proof -
  obtain st where st: "debug_run ops (debug_started, Map.empty) = Some (fst (log_run ops log_empty), st)"
      "log_rel st (snd (log_run ops log_empty))"
    using run_refines [OF assms log_rel_started] by blast
  obtain dbg ptrs where "st = (dbg, ptrs)" by (cases st) auto
  with st have "debug_inv dbg" "entries (snd (log_run ops log_empty)) = entries_of dbg"
      "debug_run ops (debug_started, Map.empty) = Some (fst (log_run ops log_empty), dbg, ptrs)"
    by (auto simp: log_rel_def)
  moreover have "sec_max (section_at dbg s) = 65536 \<and> sec_size (section_at dbg s) \<le> 4096 \<and>
      (\<not> sec_folded (section_at dbg s) \<longrightarrow> sec_size (section_at dbg s) = 4096)" if "s \<in> set (dbg_sections dbg)" for s
    using section_live(2) [OF \<open>debug_inv dbg\<close> that]
    by (simp add: section_inv_def CO_DEBUG_SECTION_BUFFER_START_SIZE_def CO_DEBUG_SECTION_BUFFER_MAX_SIZE_def)
  ultimately show ?thesis by (simp add: entries_fst)
qed

definition full_demo :: "log_op list" where
  "full_demo = replicate 17 (Log_write 1 (replicate 0xf8 0) env_ok)"

lemma full_run:
  assumes "entries ls = [(0, False, b)]" and "owned ls 1 = Some 0" and "length b + 256 * n = 4096"
  shows "fst (log_run (replicate (Suc n) (Log_write 1 (replicate 0xf8 0) env_ok)) ls) = replicate n (Inl CO_RC_OK) @ [Inl CO_RC_ERROR] \<and>
    map fst (entries (snd (log_run (replicate (Suc n) (Log_write 1 (replicate 0xf8 0) env_ok)) ls))) = [0]"
  using assms
proof (induction n arbitrary: ls b)
  case 0
  then show ?case by (simp add: total_pending_def Let_def)
next
  case (Suc n)
  let ?w = "Log_write 1 (replicate 0xf8 0) env_ok"
  let ?r = "log_record (replicate 0xf8 0) (log_index ls + 1)"
  let ?ls = "ls\<lparr>log_index := log_index ls + 1, entries := [(0, False, b @ ?r)]\<rparr>"
  have len: "length b + 256 * n + 256 = 4096" using Suc.prems(3) by simp
  then have "log_step ?w ls = (Inl CO_RC_OK, ?ls)"
    using Suc.prems(1,2) by (simp add: total_pending_def append_record_def Let_def)
  moreover have "length (b @ ?r) + 256 * n = 4096" using len by simp
  ultimately show ?case
    using Suc.IH [of ?ls "b @ ?r"] Suc.prems(2) by (simp add: split_beta)
qed

theorem debug_section_never_grows_witness:
  "\<exists>dbg ptrs. debug_run full_demo (debug_started, Map.empty) = Some (replicate 16 (Inl CO_RC_OK) @ [Inl CO_RC_ERROR], dbg, ptrs) \<and>
    dbg_sections dbg = [0] \<and> sec_size (section_at dbg 0) \<le> 4096"
proof -
  let ?w = "Log_write 1 (replicate 0xf8 0) env_ok"
  let ?ls = "log_empty\<lparr>log_index := 1, entries := [(0, False, log_record (replicate 0xf8 0) 1)], owned := [1 \<mapsto> 0], next_id := 1\<rparr>"
  have step: "log_step ?w log_empty = (Inl CO_RC_OK, ?ls)"
    by (simp add: log_empty_def total_pending_def env_ok_def)
  have demo: "full_demo = ?w # replicate (Suc 15) ?w" by (simp add: full_demo_def numeral_eq_Suc)
  have all: "replicate 16 (Inl CO_RC_OK) = Inl CO_RC_OK # replicate 15 (Inl CO_RC_OK :: co_rc_value + uchar list)"
    by (simp add: numeral_eq_Suc)
  have rest: "fst (log_run (replicate (Suc 15) ?w) ?ls) = replicate 15 (Inl CO_RC_OK) @ [Inl CO_RC_ERROR]"
    "map fst (entries (snd (log_run (replicate (Suc 15) ?w) ?ls))) = [0]"
    using full_run [of ?ls "log_record (replicate 0xf8 0) 1" 15] by simp_all
  have "fst (log_run full_demo log_empty) = replicate 16 (Inl CO_RC_OK) @ [Inl CO_RC_ERROR]"
    "map fst (entries (snd (log_run full_demo log_empty))) = [0]"
    unfolding demo all log_run.simps(2) step Let_def split_beta fst_conv snd_conv rest append_Cons by (rule refl)+
  moreover have "\<forall>op \<in> set full_demo. op_fits op" by (simp add: full_demo_def)
  ultimately show ?thesis using debug_section_never_grows [of full_demo] by auto
qed

section \<open>The end of the log\<close>

lemma free_sections_all:
  assumes "distinct ss" and "dbg_sections dbg = ss" and "\<forall>s \<in> set ss. \<exists>sec. dbg_heap dbg s = Some sec \<and> sec_refs sec = 1"
  shows "free_sections ss dbg =
    Some (dbg\<lparr>dbg_sections := [], dbg_heap := dbg_heap dbg |` (- set ss), sections_count := sections_count dbg - int (length ss),
      sections_total_size := sections_total_size dbg - (\<Sum>s \<leftarrow> ss. sec_size (section_at dbg s))\<rparr>)"
  using assms
proof (induction ss arbitrary: dbg)
  case Nil
  then show ?case by simp
next
  case (Cons s ss)
  obtain sec where sec: "dbg_heap dbg s = Some sec" "sec_refs sec = 1" using Cons.prems(3) by auto
  let ?d = "dbg\<lparr>dbg_sections := ss, dbg_heap := (dbg_heap dbg)(s := None), sections_count := sections_count dbg - 1,
    sections_total_size := sections_total_size dbg - sec_size sec\<rparr>"
  have "map (\<lambda>t. sec_size (the (((dbg_heap dbg)(s := None)) t))) ss = map (\<lambda>t. sec_size (section_at dbg t)) ss"
    using Cons.prems(1) by auto
  moreover have "((dbg_heap dbg)(s := None)) |` (- set ss) = dbg_heap dbg |` (- insert s (set ss))"
    by (auto simp: restrict_map_def fun_eq_iff)
  moreover have "\<forall>t \<in> set ss. \<exists>sec. dbg_heap ?d t = Some sec \<and> sec_refs sec = 1"
    using Cons.prems(1,3) by auto
  ultimately show ?case
    using Cons.IH [of ?d] Cons.prems(1,2) sec
    by (simp add: get_section_def put_section_def Let_def fun_upd_def [symmetric] diff_diff_eq cong: map_cong)
qed

text \<open>
  \<open>co_debug_free\<close> gives back every section of a log that any sequence of operations left,
  each once, and takes their sizes off the total; after it no record is accepted.
\<close>

theorem debug_free_all:
  assumes "\<forall>op \<in> set ops. op_fits op" and "debug_run ops (debug_started, Map.empty) = Some (rs, dbg, ptrs)"
  shows "\<exists>d. co_debug_free dbg = Some (CO_RC_OK, d) \<and> dbg_heap d = Map.empty \<and> dbg_sections d = [] \<and>
    sections_count d = 0 \<and> sections_total_size d = 0 \<and>
    (\<forall>env p data. int (length data) < 2 ^ 32 \<longrightarrow>
      (\<exists>d'. co_debug_write_log env d p [Write_vector (int (length data)) data []] = Some (CO_RC_OK, d', p) \<and>
        dbg_heap d' = Map.empty))"
proof -
  obtain st where "debug_run ops (debug_started, Map.empty) = Some (fst (log_run ops log_empty), st)"
      "log_rel st (snd (log_run ops log_empty))"
    using run_refines [OF assms(1) log_rel_started] by blast
  with assms(2) have inv: "debug_inv dbg" by (auto simp: log_rel_def)
  let ?dbg = "dbg\<lparr>dbg_ready := False, dbg_freeing := True\<rparr>"
  have "free_sections (dbg_sections dbg) ?dbg =
    Some (?dbg\<lparr>dbg_sections := [], dbg_heap := dbg_heap dbg |` (- set (dbg_sections dbg)),
      sections_count := sections_count dbg - int (length (dbg_sections dbg)),
      sections_total_size := sections_total_size dbg - (\<Sum>s \<leftarrow> dbg_sections dbg. sec_size (section_at dbg s))\<rparr>)"
  proof (subst free_sections_all)
    show "distinct (dbg_sections dbg)" using inv by (simp add: debug_inv_def)
    show "\<forall>s\<in>set (dbg_sections dbg). \<exists>sec. dbg_heap ?dbg s = Some sec \<and> sec_refs sec = 1"
      using section_live [OF inv] by (auto simp: section_inv_def)
  qed simp_all
  moreover have "dbg_heap dbg |` (- set (dbg_sections dbg)) = Map.empty"
    using inv by (auto simp: debug_inv_def restrict_map_def fun_eq_iff)
  moreover have "(\<Sum>s \<leftarrow> dbg_sections dbg. sec_size (section_at dbg s)) = sections_total_size dbg"
    "sections_count dbg = int (length (dbg_sections dbg))"
    using inv by (simp_all add: debug_inv_def sum_list_distinct_conv_sum_set)
  ultimately obtain d where d: "co_debug_free dbg = Some (CO_RC_OK, d)" "dbg_heap d = Map.empty" "dbg_sections d = []"
      "sections_count d = 0" "sections_total_size d = 0" "dbg_freeing d"
    by (simp add: co_debug_free_def)
  then show ?thesis
    using write_log_vector by (auto simp: co_debug_writev_def)
qed

theorem debug_free_all_witness:
  "\<exists>dbg ptrs d. debug_run log_demo (debug_started, Map.empty) = Some (fst (log_run log_demo log_empty), dbg, ptrs) \<and>
    co_debug_free dbg = Some (CO_RC_OK, d) \<and> sections_total_size d = 0"
proof -
  have fits: "\<forall>op \<in> set log_demo. op_fits op" by (simp add: log_demo_def)
  obtain dbg ptrs where run: "debug_run log_demo (debug_started, Map.empty) = Some (fst (log_run log_demo log_empty), dbg, ptrs)"
    using run_refines [OF fits log_rel_started] by auto
  from debug_free_all [OF fits run] show ?thesis using run by blast
qed

end
