(* ===== verification/Debug_Records.thy ===== *)
theory Debug_Records
  imports Debug_Log
begin

text \<open>
  The records of the debug log from end to end: how \<open>co_debug_\<close>
  (\<open>src/colinux/common/debug.c\<close>) builds one, and how the debug daemon
  (\<open>src/colinux/user/debug/main.c\<close>) takes what it read apart. A C string is a list of bytes that
  holds a NUL; a read or write outside of a block is \<^term>\<open>None\<close>.
\<close>

section \<open>Building a record\<close>

definition tlv_add_const_string :: "co_debug_type \<Rightarrow> uchar list \<Rightarrow> uchar list option" where
  "tlv_add_const_string t str =
     map_option (\<lambda>n. let l = word_of_nat (n + 1) :: uchar in type_byte t # l # take (unat l) str) (co_strlen str)"

definition tlv_add_timestamp :: "ulong \<times> ulong \<Rightarrow> uchar list" where
  "tlv_add_timestamp ts = type_byte CO_DEBUG_TYPE_TIMESTAMP # 8 # le32 (fst ts) @ le32 (snd ts)"

definition tlv_add_unsigned_long :: "co_debug_type \<Rightarrow> ulong \<Rightarrow> uchar list" where
  "tlv_add_unsigned_long t w = type_byte t # 4 # le32 w"

definition tlv_add_char :: "co_debug_type \<Rightarrow> ulong \<Rightarrow> uchar list" where
  "tlv_add_char t w = type_byte t # 4 # le32 w"

text \<open>A message and where it comes from; the timestamp has the low word first. \<open>log_stale\<close> is what
  the buffer of 512 bytes holds before.\<close>

record log_call =
  log_module :: "uchar list"
  log_file :: "uchar list"
  log_time :: "ulong \<times> ulong"
  log_facility :: ulong
  log_func :: "uchar list"
  log_line :: ulong
  log_level :: ulong
  log_format :: string
  log_args :: "va_arg list"
  log_stale :: string

definition log_header :: "ulong \<Rightarrow> log_call \<Rightarrow> uchar list option" where
  "log_header local_index c =
     Option.bind (tlv_add_const_string CO_DEBUG_TYPE_MODULE (log_module c)) (\<lambda>m.
     Option.bind (tlv_add_const_string CO_DEBUG_TYPE_FILE (log_file c)) (\<lambda>fi.
     map_option (\<lambda>fu.
       m @ fi @ tlv_add_timestamp (log_time c) @
       tlv_add_unsigned_long CO_DEBUG_TYPE_LOCAL_INDEX local_index @
       tlv_add_char CO_DEBUG_TYPE_FACILITY (log_facility c) @ fu @
       tlv_add_unsigned_long CO_DEBUG_TYPE_LINE (log_line c) @
       tlv_add_char CO_DEBUG_TYPE_LEVEL (log_level c))
       (tlv_add_const_string CO_DEBUG_TYPE_FUNC (log_func c))))"

text \<open>The buffer and the size that \<open>co_debug_\<close> passes to \<open>co_debug_buf\<close>. The length of the text
  is stored in an \<open>unsigned char\<close>.\<close>

definition co_debug_record :: "ulong \<Rightarrow> log_call \<Rightarrow> (uchar list \<times> int) option" where
  "co_debug_record local_index c =
     Option.bind (log_header local_index c) (\<lambda>header.
       let pos = length header + 2
       in if 512 < pos then None
          else case co_vsnprintf (drop pos (log_stale c)) (512 - int pos - 1) (log_format c) (log_args c) of
            Inl fault \<Rightarrow> None
          | Inr (r, out, _) \<Rightarrow>
              let l = word_of_int (r + 1) :: uchar
              in Some (header @ [type_byte CO_DEBUG_TYPE_STRING, l] @ map of_char out, int pos + int (unat l)))"

section \<open>Taking records apart\<close>

text \<open>What the daemon prints: an attribute of the element, or the text.\<close>

datatype log_attr =
    Attr_string co_debug_type "uchar list"
  | Attr_number co_debug_type int
  | Attr_time ulong ulong

definition c_string_at :: "uchar list \<Rightarrow> nat \<Rightarrow> uchar list option" where
  "c_string_at mem p = map_option (\<lambda>n. take n (drop p mem)) (co_strlen (drop p mem))"

text \<open>The first loop of \<open>parse_tlv\<close> prints the attributes, the second the texts; \<open>t\<close> is the type
  byte of an item, \<open>p\<close> the position of its value.\<close>

definition parse_attr :: "uchar list \<Rightarrow> uchar \<Rightarrow> nat \<Rightarrow> log_attr list option" where
  "parse_attr mem t p =
     (if t = type_byte CO_DEBUG_TYPE_TIMESTAMP then
        Option.bind (word_at mem p) (\<lambda>low. map_option (\<lambda>high. [Attr_time high low]) (word_at mem (p + 4)))
      else if t = type_byte CO_DEBUG_TYPE_MODULE then
        map_option (\<lambda>s. [Attr_string CO_DEBUG_TYPE_MODULE s]) (c_string_at mem p)
      else if t = type_byte CO_DEBUG_TYPE_FILE then
        map_option (\<lambda>s. [Attr_string CO_DEBUG_TYPE_FILE s]) (c_string_at mem p)
      else if t = type_byte CO_DEBUG_TYPE_FUNC then
        map_option (\<lambda>s. [Attr_string CO_DEBUG_TYPE_FUNC s]) (c_string_at mem p)
      else if t = type_byte CO_DEBUG_TYPE_FACILITY then
        map_option (\<lambda>b. [Attr_number CO_DEBUG_TYPE_FACILITY (sint b)]) (byte_at mem p)
      else if t = type_byte CO_DEBUG_TYPE_LINE then
        map_option (\<lambda>w. [Attr_number CO_DEBUG_TYPE_LINE (sint w)]) (word_at mem p)
      else if t = type_byte CO_DEBUG_TYPE_LEVEL then
        map_option (\<lambda>b. [Attr_number CO_DEBUG_TYPE_LEVEL (sint b)]) (byte_at mem p)
      else if t = type_byte CO_DEBUG_TYPE_LOCAL_INDEX then
        map_option (\<lambda>w. [Attr_number CO_DEBUG_TYPE_LOCAL_INDEX (sint w)]) (word_at mem p)
      else if t = type_byte CO_DEBUG_TYPE_DRIVER_INDEX then
        map_option (\<lambda>w. [Attr_number CO_DEBUG_TYPE_DRIVER_INDEX (sint w)]) (word_at mem p)
      else Some [])"

text \<open>\<open>print_xml_text\<close>: the five characters of each entity.\<close>

definition print_xml_text :: "uchar list \<Rightarrow> uchar list" where
  "print_xml_text s =
     concat (map (\<lambda>c. if c = 38 then [38, 97, 109, 112, 59]
                      else if c = 60 then [38, 108, 116, 59]
                      else if c = 62 then [38, 103, 116, 59] else [c]) s)"

definition parse_text :: "uchar list \<Rightarrow> uchar \<Rightarrow> nat \<Rightarrow> uchar list list option" where
  "parse_text mem t p =
     (if t = type_byte CO_DEBUG_TYPE_STRING then map_option (\<lambda>s. [print_xml_text s]) (c_string_at mem p) else Some [])"

text \<open>The walk over the items of a record from position \<open>p\<close> to \<open>n\<close>.\<close>

function parse_items :: "(uchar list \<Rightarrow> uchar \<Rightarrow> nat \<Rightarrow> 'a list option) \<Rightarrow> uchar list \<Rightarrow> nat \<Rightarrow> nat \<Rightarrow> 'a list option" where
  "parse_items f mem n p =
     (if p < n
      then if p + 1 < length mem
        then Option.bind (f mem (mem ! p) (p + 2)) (\<lambda>xs.
               map_option ((@) xs) (parse_items f mem n (p + 2 + unat (mem ! (p + 1)))))
        else None
      else Some [])"
  by pat_completeness auto
termination
  by (relation "measure (\<lambda>(f, mem, n, p). n - p)") auto

declare parse_items.simps [simp del]

definition parse_tlv :: "nat \<Rightarrow> uchar list \<Rightarrow> (log_attr list \<times> uchar list list) option" where
  "parse_tlv n block =
     Option.bind (parse_items parse_attr block n 0) (\<lambda>attrs. map_option (Pair attrs) (parse_items parse_text block n 0))"

function parse_tlv_buffer :: "uchar list \<Rightarrow> int \<Rightarrow> (log_attr list \<times> uchar list list) list option" where
  "parse_tlv_buffer block sz =
     (if 0 < sz
      then if sz < 2 then Some []
        else if length block < 2 then None
        else let l = unat (block ! 1)
             in Option.bind (parse_tlv l (drop 2 block)) (\<lambda>x.
                  map_option ((#) x) (parse_tlv_buffer (drop (2 + l) block) (sz - int (2 + l))))
      else Some [])"
  by pat_completeness auto
termination
proof (relation "measure (\<lambda>(block, sz). nat sz)")
  fix block :: "uchar list" and sz :: int and l x
  assume "0 < sz" and "\<not> sz < 2"
  moreover have "0 < int (2 + l)" by simp
  ultimately show "((drop (2 + l) block, sz - int (2 + l)), block, sz) \<in> measure (\<lambda>(block, sz). nat sz)"
    by (simp only: in_measure split_conv)
qed simp

declare parse_tlv_buffer.simps [simp del]

section \<open>Items\<close>

definition item_bytes :: "uchar \<times> uchar list \<Rightarrow> uchar list" where
  "item_bytes e = fst e # word_of_nat (length (snd e)) # snd e"

text \<open>What an item prints does not depend on what stands before it or behind it.\<close>

definition prints :: "(uchar list \<Rightarrow> uchar \<Rightarrow> nat \<Rightarrow> 'a list option) \<Rightarrow> uchar \<times> uchar list \<Rightarrow> 'a list \<Rightarrow> bool" where
  "prints f e xs \<longleftrightarrow> (\<forall>mem rest. f (mem @ snd e @ rest) (fst e) (length mem) = Some xs)"

lemma parse_items_list:
  assumes "list_all2 (prints f) es xss" and "\<forall>e \<in> set es. length (snd e) < 256"
  shows "parse_items f (mem @ concat (map item_bytes es) @ rest) (length mem + length (concat (map item_bytes es))) (length mem) =
    Some (concat xss)"
  using assms
proof (induction es xss arbitrary: mem rule: list_all2_induct)
  case Nil
  then show ?case by (simp add: parse_items.simps)
next
  case (Cons e es xs xss)
  let ?m = "mem @ fst e # word_of_nat (length (snd e)) # snd e"
  let ?all = "mem @ concat (map item_bytes (e # es)) @ rest"
  have all: "?all = (mem @ [fst e, word_of_nat (length (snd e))]) @ snd e @ (concat (map item_bytes es) @ rest)"
    "?all = ?m @ concat (map item_bytes es) @ rest"
    by (simp_all add: item_bytes_def)
  have len: "unat (word_of_nat (length (snd e)) :: uchar) = length (snd e)"
    using Cons.prems by (simp add: unat_of_nat take_bit_nat_eq_self)
  have nth: "?all ! length mem = fst e" "?all ! (length mem + 1) = word_of_nat (length (snd e))" "length mem + 1 < length ?all"
    by (simp_all add: item_bytes_def nth_append)
  have two: "length (mem @ [fst e, word_of_nat (length (snd e))]) = length mem + 2" by simp
  have "f ((mem @ [fst e, word_of_nat (length (snd e))]) @ snd e @ (concat (map item_bytes es) @ rest)) (fst e)
      (length (mem @ [fst e, word_of_nat (length (snd e))])) = Some xs"
    using Cons.hyps(1) unfolding prints_def by blast
  then have "f ?all (fst e) (length mem + 2) = Some xs" unfolding two all(1) [symmetric] .
  moreover have "parse_items f ?all (length mem + length (concat (map item_bytes (e # es)))) (length ?m) = Some (concat xss)"
  proof -
    have "length mem + length (concat (map item_bytes (e # es))) = length ?m + length (concat (map item_bytes es))"
      by (simp add: item_bytes_def [of e])
    moreover have "\<forall>e \<in> set es. length (snd e) < 256" using Cons.prems by simp
    ultimately show ?thesis using Cons.IH [of ?m] by (simp only: all(2))
  qed
  moreover have "length mem < length mem + length (concat (map item_bytes (e # es)))" by (simp add: item_bytes_def)
  moreover have "length mem + 2 + length (snd e) = length ?m" by simp
  ultimately show ?case
    using nth len by (subst parse_items.simps) (simp only: if_True bind.bind_lunit option.map(2) concat.simps)
qed

lemma c_string_at_cstr: "0 \<notin> set s \<Longrightarrow> c_string_at (mem @ s @ 0 # rest) (length mem) = Some s"
  using co_strlen_cstr [of s rest] by (simp add: c_string_at_def cstr_def)

lemma prints_string:
  assumes "0 \<notin> set s" and "t \<in> {CO_DEBUG_TYPE_MODULE, CO_DEBUG_TYPE_FILE, CO_DEBUG_TYPE_FUNC}"
  shows "prints parse_attr (type_byte t, s @ [0]) [Attr_string t s]"
  using assms c_string_at_cstr [OF assms(1)] by (auto simp: prints_def parse_attr_def)

lemma prints_text: "0 \<notin> set s \<Longrightarrow> prints parse_text (type_byte CO_DEBUG_TYPE_STRING, s @ [0]) [print_xml_text s]"
  using c_string_at_cstr [of s] by (simp add: prints_def parse_text_def)

lemma prints_word:
  assumes "t \<in> {CO_DEBUG_TYPE_LINE, CO_DEBUG_TYPE_LOCAL_INDEX, CO_DEBUG_TYPE_DRIVER_INDEX}"
  shows "prints parse_attr (type_byte t, le32 w) [Attr_number t (sint w)]"
  using assms by (auto simp: prints_def parse_attr_def word_at_le32)

lemma prints_byte:
  assumes "t \<in> {CO_DEBUG_TYPE_FACILITY, CO_DEBUG_TYPE_LEVEL}"
  shows "prints parse_attr (type_byte t, le32 w) [Attr_number t (sint (ucast w :: uchar))]"
  using assms by (auto simp: prints_def parse_attr_def byte_at_def nth_append le32_def)

lemma prints_time: "prints parse_attr (type_byte CO_DEBUG_TYPE_TIMESTAMP, le32 low @ le32 high) [Attr_time high low]"
proof -
  have "word_at (mem @ le32 low @ le32 high @ rest) (length mem) = Some low" for mem rest by (rule word_at_le32)
  moreover have "word_at (mem @ le32 low @ le32 high @ rest) (length mem + 4) = Some high" for mem rest
  proof -
    have "length (mem @ le32 low) = length mem + 4" by (simp add: le32_def)
    then show ?thesis using word_at_le32 [of "mem @ le32 low" high rest] by (simp only: append_assoc)
  qed
  ultimately show ?thesis by (simp add: prints_def parse_attr_def)
qed

lemma prints_nothing:
  "prints parse_attr (type_byte CO_DEBUG_TYPE_STRING, v) []"
  "t \<noteq> CO_DEBUG_TYPE_STRING \<Longrightarrow> prints parse_text (type_byte t, v) []"
  by (auto simp: prints_def parse_attr_def parse_text_def) (cases t; simp)

text \<open>The items of a message, and what the daemon prints of them.\<close>

definition message_items ::
  "uchar list \<Rightarrow> uchar list \<Rightarrow> uchar list \<Rightarrow> uchar list \<Rightarrow> ulong \<Rightarrow> log_call \<Rightarrow> (uchar \<times> uchar list) list" where
  "message_items m fi fu t i c =
     [(type_byte CO_DEBUG_TYPE_MODULE, m @ [0]), (type_byte CO_DEBUG_TYPE_FILE, fi @ [0]),
      (type_byte CO_DEBUG_TYPE_TIMESTAMP, le32 (fst (log_time c)) @ le32 (snd (log_time c))),
      (type_byte CO_DEBUG_TYPE_LOCAL_INDEX, le32 i), (type_byte CO_DEBUG_TYPE_FACILITY, le32 (log_facility c)),
      (type_byte CO_DEBUG_TYPE_FUNC, fu @ [0]), (type_byte CO_DEBUG_TYPE_LINE, le32 (log_line c)),
      (type_byte CO_DEBUG_TYPE_LEVEL, le32 (log_level c)), (type_byte CO_DEBUG_TYPE_STRING, t @ [0])]"

definition message_attrs :: "uchar list \<Rightarrow> uchar list \<Rightarrow> uchar list \<Rightarrow> ulong \<Rightarrow> log_call \<Rightarrow> log_attr list" where
  "message_attrs m fi fu i c =
     [Attr_string CO_DEBUG_TYPE_MODULE m, Attr_string CO_DEBUG_TYPE_FILE fi,
      Attr_time (snd (log_time c)) (fst (log_time c)), Attr_number CO_DEBUG_TYPE_LOCAL_INDEX (sint i),
      Attr_number CO_DEBUG_TYPE_FACILITY (sint (ucast (log_facility c) :: uchar)), Attr_string CO_DEBUG_TYPE_FUNC fu,
      Attr_number CO_DEBUG_TYPE_LINE (sint (log_line c)), Attr_number CO_DEBUG_TYPE_LEVEL (sint (ucast (log_level c) :: uchar))]"

lemma parse_message:
  fixes i d :: ulong and c :: log_call
  assumes "0 \<notin> set m" "0 \<notin> set fi" "0 \<notin> set fu" "0 \<notin> set t"
    and "length m < 255" "length fi < 255" "length fu < 255" "length t < 255"
  defines "items \<equiv> message_items m fi fu t i c @ [(type_byte CO_DEBUG_TYPE_DRIVER_INDEX, le32 d)]"
  shows "parse_tlv (length (concat (map item_bytes items))) (concat (map item_bytes items) @ rest) =
    Some (message_attrs m fi fu i c @ [Attr_number CO_DEBUG_TYPE_DRIVER_INDEX (sint d)], [print_xml_text t])"
proof -
  have len: "\<forall>e \<in> set items. length (snd e) < 256"
    using assms(5-8) by (simp add: items_def message_items_def le32_def)
  have attrs: "list_all2 (prints parse_attr) items
      [[Attr_string CO_DEBUG_TYPE_MODULE m], [Attr_string CO_DEBUG_TYPE_FILE fi],
       [Attr_time (snd (log_time c)) (fst (log_time c))], [Attr_number CO_DEBUG_TYPE_LOCAL_INDEX (sint i)],
       [Attr_number CO_DEBUG_TYPE_FACILITY (sint (ucast (log_facility c) :: uchar))], [Attr_string CO_DEBUG_TYPE_FUNC fu],
       [Attr_number CO_DEBUG_TYPE_LINE (sint (log_line c))], [Attr_number CO_DEBUG_TYPE_LEVEL (sint (ucast (log_level c) :: uchar))],
       [], [Attr_number CO_DEBUG_TYPE_DRIVER_INDEX (sint d)]]"
    unfolding items_def message_items_def append_Cons append_Nil list_all2_Cons
    using assms(1-3) by (intro conjI prints_string prints_word prints_byte prints_time prints_nothing) simp_all
  have texts: "list_all2 (prints parse_text) items [[], [], [], [], [], [], [], [], [print_xml_text t], []]"
    unfolding items_def message_items_def append_Cons append_Nil list_all2_Cons
    using assms(4) by (intro conjI prints_text prints_nothing) simp_all
  show ?thesis
    using parse_items_list [OF attrs len, of "[]" rest] parse_items_list [OF texts len, of "[]" rest]
    by (simp add: parse_tlv_def message_attrs_def)
qed


section \<open>A message through the log\<close>

lemma add_string:
  "0 \<notin> set s \<Longrightarrow> length s < 255 \<Longrightarrow> tlv_add_const_string t (cstr s r) = Some (item_bytes (type_byte t, s @ [0]))"
proof -
  assume "0 \<notin> set s" "length s < 255"
  moreover from this(2) have "unat (word_of_nat (length s + 1) :: uchar) = length s + 1"
    by (subst unat_of_nat) (simp add: take_bit_nat_eq_self)
  ultimately show ?thesis
    using co_strlen_cstr [of s r] by (simp add: tlv_add_const_string_def item_bytes_def cstr_def Let_def)
qed

lemma record_of_message:
  fixes i :: ulong
  assumes "0 \<notin> set m" "0 \<notin> set fi" "0 \<notin> set fu"
    and "length m < 255" "length fi < 255" "length fu < 255" "length t < 255"
    and "log_module c = cstr m r1" "log_file c = cstr fi r2" "log_func c = cstr fu r3"
  defines "items \<equiv> message_items m fi fu (map of_char t) i c"
  defines "pos \<equiv> length (concat (map item_bytes items)) - length t - 1"
  assumes "co_vsnprintf (drop pos (log_stale c)) (512 - int pos - 1) (log_format c) (log_args c) =
      Inr (int (length t), t @ CHR 0x00 # r4, sts)" and "length (concat (map item_bytes items)) \<le> 512"
  shows "\<exists>rest. co_debug_record i c = Some (concat (map item_bytes items) @ rest, int (length (concat (map item_bytes items))))"
proof -
  let ?last = "(type_byte CO_DEBUG_TYPE_STRING, map of_char t @ [0])"
  obtain es where items: "items = es @ [?last]" and header: "log_header i c = Some (concat (map item_bytes es))"
  proof
    show "items = butlast items @ [?last]" by (simp add: items_def message_items_def)
    show "log_header i c = Some (concat (map item_bytes (butlast items)))"
      using assms(1-6,8-10) add_string
      by (simp add: log_header_def items_def message_items_def item_bytes_def tlv_add_timestamp_def tlv_add_unsigned_long_def
          tlv_add_char_def le32_def)
  qed
  have all: "concat (map item_bytes items) = concat (map item_bytes es) @ item_bytes ?last" by (simp add: items)
  have pos: "pos = length (concat (map item_bytes es)) + 2" unfolding pos_def all by (simp add: item_bytes_def)
  have l: "unat (word_of_int (int (length t) + 1) :: uchar) = length t + 1"
  proof -
    have "(word_of_int (int (length t) + 1) :: uchar) = word_of_nat (length t + 1)" by simp
    moreover have "unat (word_of_nat (length t + 1) :: uchar) = length t + 1"
      using assms(7) by (subst unat_of_nat) (simp add: take_bit_nat_eq_self)
    ultimately show ?thesis by (simp only:)
  qed
  have "uint (word_of_nat (length t) + 1 :: uchar) = 1 + int (length t)" using arg_cong [OF l, of int] by simp
  then show ?thesis
    using header assms(13,14) l pos unfolding all
    by (simp add: co_debug_record_def Let_def item_bytes_def)
qed

definition message_bytes :: "uchar list \<Rightarrow> uchar list \<Rightarrow> uchar list \<Rightarrow> uchar list \<Rightarrow> ulong \<Rightarrow> log_call \<Rightarrow> uchar list" where
  "message_bytes m fi fu t i c = concat (map item_bytes (message_items m fi fu t i c))"

text \<open>Only the bytes the vector names are read.\<close>

lemma copy_loop_append: "s + n \<le> length src \<Longrightarrow> copy_loop xs d (src @ rest) s n = copy_loop xs d src s n"
  by (induction xs d src s n rule: copy_loop.induct) (auto simp: nth_append)

lemma writev_vector:
  assumes "co_debug_write_vector_size v = co_debug_write_vector_size v'" and "\<And>b d. memcpy_vector b d v = memcpy_vector b d v'"
  shows "co_debug_writev env dbg p v = co_debug_writev env dbg p v'"
proof -
  have "append_to_buffer env d s v = append_to_buffer env d s v'" for d s
    by (simp only: append_to_buffer_def assms)
  then have "write_section env d s v = write_section env d s v'" for d s
    by (simp only: write_section_def)
  then show ?thesis by (simp only: co_debug_writev_def)
qed

lemma write_log_append:
  "co_debug_write_log env dbg p [Write_vector (int (length data)) (data @ rest) []] =
    co_debug_write_log env dbg p [Write_vector (int (length data)) data []]"
proof -
  have "co_debug_writev env d p [Write_vector 2 t [], Write_vector k [] [Write_vector (int (length data)) (data @ rest) []], v] =
      co_debug_writev env d p [Write_vector 2 t [], Write_vector k [] [Write_vector (int (length data)) data []], v]" for d t v k
    by (rule writev_vector) (simp_all add: copy_loop_append del: copy_loop.simps)
  then show ?thesis by (simp add: co_debug_write_log_def Let_def)
qed

lemma parse_one_record:
  assumes "length data + 6 < 256" and "parse_tlv (length data + 6) (data @ [10, 4] @ le32 index @ rest) = Some x"
  shows "parse_tlv_buffer (log_record data index @ rest) (int (length data) + 8) = Some [x]"
proof -
  have l: "unat (word_of_nat (length data) + 6 :: uchar) = length data + 6"
  proof -
    have "(word_of_nat (length data) + 6 :: uchar) = word_of_nat (length data + 6)" by simp
    moreover have "unat (word_of_nat (length data + 6) :: uchar) = length data + 6"
      using assms(1) by (subst unat_of_nat) (simp add: take_bit_nat_eq_self)
    ultimately show ?thesis by (simp only:)
  qed
  have "parse_tlv_buffer ys 0 = Some []" for ys by (simp add: parse_tlv_buffer.simps)
  moreover have "parse_tlv_buffer (log_record data index @ rest) (int (length data) + 8) =
      Option.bind (parse_tlv (length data + 6) (data @ [10, 4] @ le32 index @ rest)) (\<lambda>x.
        map_option ((#) x) (parse_tlv_buffer (drop (2 + (length data + 6)) (log_record data index @ rest))
          (int (length data) + 8 - int (2 + (length data + 6)))))"
    by (subst parse_tlv_buffer.simps) (simp add: log_record_def l calculation)
  ultimately show ?thesis using assms(2) by simp
qed


text \<open>A message of the monitor.\<close>

definition call_demo :: log_call where
  "call_demo = \<lparr>log_module = cstr [99] [], log_file = cstr [109, 46, 99] [], log_time = (1, 2), log_facility = 0,
     log_func = cstr [102] [], log_line = 77, log_level = 3, log_format = ''%s'', log_args = [Va_str (Some ''a<b'')],
     log_stale = replicate 512 (CHR ''z'')\<rparr>"


end
