(* ===== verification/Co_Manager.thy ===== *)
theory Co_Manager
  imports Debug_Log Co_Messages
begin

text \<open>
  The manager of the driver (\<open>src/colinux/kernel/manager.c\<close>) with what the monitors share with it
  (\<open>src/colinux/kernel/monitor.c\<close>: creation, reference counts, the messages of the guest).

  An open descriptor and a monitor are blocks with a reference count. The model keeps the live ones
  in maps, and to use one that was freed is \<^term>\<open>None\<close>. The handlers run one after the other,
  as the mutexes of the driver order them; the mutexes themselves are not modelled.
\<close>

section \<open>State\<close>

definition CO_MAX_MONITORS :: nat where "CO_MAX_MONITORS = 64"
definition CO_MANAGER_ATTACH_MAX_MODULES :: nat where "CO_MANAGER_ATTACH_MAX_MODULES = 16"
definition CO_QUEUE_COUNT_LIMIT_BEFORE_SLEEP :: nat where "CO_QUEUE_COUNT_LIMIT_BEFORE_SLEEP = 1024"
definition CO_LOWMEMORY_MAX_MB :: ulong where "CO_LOWMEMORY_MAX_MB = 984"
definition CO_MONITOR_MODULES_COUNT :: nat where "CO_MONITOR_MODULES_COUNT = unat CO_MODULES_MAX"

type_synonym open_id = nat
type_synonym monitor_id = nat

text \<open>\<open>od_queue\<close> is the content of \<open>out_queue\<close>, oldest message first.\<close>

record co_manager_open_desc =
  od_active :: bool
  od_refs :: int
  od_owner :: bool
  od_monitor :: "monitor_id option"
  od_queue :: "co_message list"
  od_section :: "section_id option"

record co_monitor_refs =
  mon_refs :: int
  mon_listed :: bool
  mon_id :: ulong
  mon_modules :: "open_id option list"
  mon_memory :: ulong

record co_manager =
  hostmem_amount :: ulong
  hostmem_used :: ulong
  hostmem_usage_limit :: ulong
  mgr_debug :: co_manager_debug
  mgr_monitors :: "monitor_id list"
  monitors_count :: int
  mgr_opens :: "open_id list"
  num_opens :: int
  opens_at :: "open_id \<rightharpoonup> co_manager_open_desc"
  monitors_at :: "monitor_id \<rightharpoonup> co_monitor_refs"
  next_open :: open_id
  next_monitor :: monitor_id

text \<open>A write through a pointer to a descriptor or a monitor.\<close>

definition with_open ::
  "open_id \<Rightarrow> (co_manager_open_desc \<Rightarrow> co_manager_open_desc) \<Rightarrow> co_manager \<Rightarrow> co_manager option" where
  "with_open ob f st = map_option (\<lambda>d. st\<lparr>opens_at := (opens_at st)(ob \<mapsto> f d)\<rparr>) (opens_at st ob)"

definition with_monitor ::
  "monitor_id \<Rightarrow> (co_monitor_refs \<Rightarrow> co_monitor_refs) \<Rightarrow> co_manager \<Rightarrow> co_manager option" where
  "with_monitor m f st = map_option (\<lambda>mon. st\<lparr>monitors_at := (monitors_at st)(m \<mapsto> f mon)\<rparr>) (monitors_at st m)"

section \<open>Opening\<close>

text \<open>The host answers whether the block, the mutex and the host's part of the descriptor work.
  When the mutex cannot be created the block is not freed.\<close>

definition co_manager_open :: "bool \<Rightarrow> bool \<Rightarrow> bool \<Rightarrow> co_manager \<Rightarrow> co_rc_value \<times> open_id option \<times> co_manager" where
  "co_manager_open block mutex userspace st =
     (if \<not> block then (CO_RC_OUT_OF_MEMORY, None, st)
      else if \<not> mutex then (CO_RC_ERROR, None, st)
      else if \<not> userspace then (CO_RC_ERROR, None, st)
      else
        let ob = next_open st;
            opened = \<lparr>od_active = True, od_refs = 1, od_owner = False, od_monitor = None, od_queue = [], od_section = None\<rparr>
        in (CO_RC_OK, Some ob,
            st\<lparr>opens_at := (opens_at st)(ob \<mapsto> opened), mgr_opens := ob # mgr_opens st,
              num_opens := num_opens st + 1, next_open := ob + 1\<rparr>))"

definition co_manager_open_ref :: "open_id \<Rightarrow> co_manager \<Rightarrow> (co_rc_value \<times> co_manager) option" where
  "co_manager_open_ref ob st =
     Option.bind (opens_at st ob) (\<lambda>d.
       if od_refs d = 0 then Some (CO_RC_ERROR, st)
       else map_option (Pair CO_RC_OK) (with_open ob (\<lambda>d. d\<lparr>od_refs := od_refs d + 1\<rparr>) st))"

section \<open>Closing\<close>

text \<open>\<open>co_manager_send_eof\<close>; the wake-up of the reader is a call of the host.\<close>

definition co_manager_send_eof :: "open_id \<Rightarrow> co_manager \<Rightarrow> co_manager option" where
  "co_manager_send_eof ob st = with_open ob (\<lambda>d. d\<lparr>od_active := False\<rparr>) st"

text \<open>What \<open>co_monitor_destroy\<close> does to the manager.\<close>

definition co_monitor_destroy :: "monitor_id \<Rightarrow> co_manager \<Rightarrow> co_manager option" where
  "co_monitor_destroy m st =
     map_option (\<lambda>mon. st\<lparr>hostmem_used := hostmem_used st - mon_memory mon, monitors_at := (monitors_at st)(m := None)\<rparr>)
       (monitors_at st m)"

text \<open>The loop of \<open>send_monitor_end_messages\<close> over the modules; \<open>close\<close> is
  \<open>co_manager_close\<close>, which calls this function again.\<close>

fun send_monitor_end_messages ::
  "(open_id \<Rightarrow> co_manager \<Rightarrow> co_manager option) \<Rightarrow> monitor_id \<Rightarrow> nat list \<Rightarrow> co_manager \<Rightarrow> co_manager option" where
  "send_monitor_end_messages close m [] st = Some st"
| "send_monitor_end_messages close m (i # is) st =
     Option.bind (monitors_at st m) (\<lambda>mon.
       case mon_modules mon ! i of
         None \<Rightarrow> send_monitor_end_messages close m is st
       | Some opened \<Rightarrow>
           Option.bind (co_manager_send_eof opened st) (\<lambda>st.
           Option.bind (with_monitor m (\<lambda>mon. mon\<lparr>mon_modules := (mon_modules mon)[i := None]\<rparr>) st) (\<lambda>st.
           Option.bind (close opened st) (send_monitor_end_messages close m is))))"

definition co_monitor_refdown ::
  "(open_id \<Rightarrow> co_manager \<Rightarrow> co_manager option) \<Rightarrow> monitor_id \<Rightarrow> bool \<Rightarrow> co_manager \<Rightarrow> co_manager option" where
  "co_monitor_refdown close m owner st =
     Option.bind (monitors_at st m) (\<lambda>mon.
       if \<not> 0 < mon_refs mon then Some st
       else
         Option.bind
           (if owner \<and> mon_listed mon
            then with_monitor m (\<lambda>mon. mon\<lparr>mon_listed := False\<rparr>)
              (st\<lparr>monitors_count := monitors_count st - 1, mgr_monitors := remove1 m (mgr_monitors st)\<rparr>)
            else Some st) (\<lambda>st.
         Option.bind
           (if owner then send_monitor_end_messages close m [0..<CO_MONITOR_MODULES_COUNT] st else Some st) (\<lambda>st.
         Option.bind (with_monitor m (\<lambda>mon. mon\<lparr>mon_refs := mon_refs mon - 1\<rparr>) st) (\<lambda>st.
         Option.bind (monitors_at st m) (\<lambda>mon.
           if mon_refs mon = 0 then co_monitor_destroy m st else Some st)))))"

text \<open>\<open>co_manager_close_\<close>, when the last reference is gone. \<open>env\<close> is the host's answer to the
  allocation of \<open>co_debug_fold\<close>.\<close>

definition co_manager_close_last ::
  "debug_env \<Rightarrow> (open_id \<Rightarrow> co_manager \<Rightarrow> co_manager option) \<Rightarrow> open_id \<Rightarrow> co_manager \<Rightarrow> co_manager option" where
  "co_manager_close_last env close ob st =
     Option.bind (opens_at st ob) (\<lambda>d.
     Option.bind
       (case od_monitor d of
          None \<Rightarrow> Some st
        | Some m \<Rightarrow> Option.bind (with_open ob (\<lambda>d. d\<lparr>od_monitor := None\<rparr>) st) (co_monitor_refdown close m (od_owner d))) (\<lambda>st.
     Option.bind (opens_at st ob) (\<lambda>d.
     Option.bind
       (case od_section d of
          None \<Rightarrow> Some st
        | Some s \<Rightarrow>
            Option.bind (co_debug_fold env (mgr_debug st) s) (\<lambda>(rc, dbg).
              with_open ob (\<lambda>d. d\<lparr>od_section := None\<rparr>) (st\<lparr>mgr_debug := dbg\<rparr>))) (\<lambda>st.
       Some (st\<lparr>mgr_opens := remove1 ob (mgr_opens st), num_opens := num_opens st - 1,
         opens_at := (opens_at st)(ob := None)\<rparr>)))))"

text \<open>The number bounds how deep the calls nest; \<^term>\<open>None\<close> is the result of a call that
  nests deeper. The theory \<open>Manager_Refs\<close> shows how much is enough.\<close>

primrec co_manager_close :: "debug_env \<Rightarrow> nat \<Rightarrow> open_id \<Rightarrow> co_manager \<Rightarrow> co_manager option" where
  "co_manager_close env 0 = (\<lambda>ob st. None)"
| "co_manager_close env (Suc depth) =
     (\<lambda>ob st.
       Option.bind (with_open ob (\<lambda>d. d\<lparr>od_refs := od_refs d - 1\<rparr>) st) (\<lambda>st.
       Option.bind (opens_at st ob) (\<lambda>d.
         if od_refs d = 0 then co_manager_close_last env (co_manager_close env depth) ob st else Some st)))"

fun deactive_modules ::
  "(open_id \<Rightarrow> co_manager \<Rightarrow> co_manager option) \<Rightarrow> open_id \<Rightarrow> monitor_id \<Rightarrow> nat list \<Rightarrow> co_manager \<Rightarrow> co_manager option" where
  "deactive_modules close ob m [] st = Some st"
| "deactive_modules close ob m (i # is) st =
     Option.bind (monitors_at st m) (\<lambda>mon.
       if mon_modules mon ! i \<noteq> Some ob then deactive_modules close ob m is st
       else
         Option.bind (with_monitor m (\<lambda>mon. mon\<lparr>mon_modules := (mon_modules mon)[i := None]\<rparr>) st) (\<lambda>st.
         Option.bind (close ob st) (deactive_modules close ob m is)))"

definition co_manager_open_desc_deactive_and_close ::
  "debug_env \<Rightarrow> nat \<Rightarrow> open_id \<Rightarrow> co_manager \<Rightarrow> co_manager option" where
  "co_manager_open_desc_deactive_and_close env depth ob st =
     Option.bind (with_open ob (\<lambda>d. d\<lparr>od_active := False\<rparr>) st) (\<lambda>st.
     Option.bind (opens_at st ob) (\<lambda>d.
     Option.bind
       (case od_monitor d of
          None \<Rightarrow> Some st
        | Some m \<Rightarrow> deactive_modules (co_manager_close env depth) ob m [0..<CO_MONITOR_MODULES_COUNT] st)
       (co_manager_close env depth ob)))"

section \<open>Sending\<close>

text \<open>What happens while a sender sleeps: the reader takes messages, or the descriptor is
  closed. The result is \<^term>\<open>None\<close> if the sender still sleeps at the end of the list.\<close>

datatype reader_step = Reader_takes nat | Reader_closes

fun send_sleep :: "reader_step list \<Rightarrow> open_id \<Rightarrow> co_manager \<Rightarrow> co_manager option" where
  "send_sleep steps ob st =
     Option.bind (opens_at st ob) (\<lambda>d.
       if CO_QUEUE_COUNT_LIMIT_BEFORE_SLEEP < length (od_queue d) \<and> od_active d
       then case steps of
              [] \<Rightarrow> None
            | step # steps \<Rightarrow>
                Option.bind
                  (with_open ob (\<lambda>d. case step of
                     Reader_takes n \<Rightarrow> d\<lparr>od_queue := drop n (od_queue d)\<rparr> | Reader_closes \<Rightarrow> d\<lparr>od_active := False\<rparr>) st)
                  (send_sleep steps ob)
       else Some st)"

declare send_sleep.simps [simp del]

text \<open>\<open>direct\<close> is the answer of the host's direct send, \<open>room\<close> the outcome of the
  allocations of \<open>co_message_dup_to_queue\<close>.\<close>

definition co_manager_send ::
  "bool \<Rightarrow> bool \<Rightarrow> reader_step list \<Rightarrow> open_id \<Rightarrow> co_message \<Rightarrow> co_manager \<Rightarrow> (co_rc_value \<times> co_manager) option" where
  "co_manager_send direct room steps ob message st =
     Option.bind (opens_at st ob) (\<lambda>d.
       if \<not> direct \<and> od_active d
       then if room
         then map_option (Pair CO_RC_OK)
                (Option.bind (with_open ob (\<lambda>d. d\<lparr>od_queue := od_queue d @ [message]\<rparr>) st) (send_sleep steps ob))
         else map_option (Pair CO_RC_OUT_OF_MEMORY) (send_sleep steps ob st)
       else Some (CO_RC_OK, st))"

text \<open>\<open>incoming_message\<close> up to the kernel's own console; \<open>filtered\<close> tells whether the network
  driver of the kernel takes the message.\<close>

definition incoming_message ::
  "debug_env \<Rightarrow> nat \<Rightarrow> bool \<Rightarrow> bool \<Rightarrow> bool \<Rightarrow> reader_step list \<Rightarrow> monitor_id \<Rightarrow> co_message \<Rightarrow> co_manager \<Rightarrow> co_manager option" where
  "incoming_message env depth filtered direct room steps m message st =
     Option.bind (monitors_at st m) (\<lambda>mon.
       if \<not> unat (msg_to message) < length (mon_modules mon) then None
       else case mon_modules mon ! unat (msg_to message) of
         None \<Rightarrow> Some st
       | Some ob \<Rightarrow>
           Option.bind (co_manager_open_ref ob st) (\<lambda>(rc, st).
             if CO_OK rc
             then Option.bind
                    (if filtered then Some st else map_option snd (co_manager_send direct room steps ob message st))
                    (co_manager_close env depth ob)
             else Some st))"

section \<open>Monitors\<close>

definition co_manager_attach_module ::
  "debug_env \<Rightarrow> nat \<Rightarrow> open_id \<Rightarrow> monitor_id \<Rightarrow> ulong \<Rightarrow> co_manager \<Rightarrow> co_manager option" where
  "co_manager_attach_module env depth ob m module st =
     Option.bind (monitors_at st m) (\<lambda>mon.
       if \<not> unat module < length (mon_modules mon) then None
       else
         Option.bind (case mon_modules mon ! unat module of None \<Rightarrow> Some st | Some old \<Rightarrow> co_manager_close env depth old st) (\<lambda>st.
         Option.bind (with_monitor m (\<lambda>mon. mon\<lparr>mon_modules := (mon_modules mon)[unat module := Some ob]\<rparr>) st)
           (with_open ob (\<lambda>d. d\<lparr>od_refs := od_refs d + 1\<rparr>))))"

fun attach_modules :: "debug_env \<Rightarrow> nat \<Rightarrow> open_id \<Rightarrow> monitor_id \<Rightarrow> ulong list \<Rightarrow> co_manager \<Rightarrow> co_manager option" where
  "attach_modules env depth ob m [] st = Some st"
| "attach_modules env depth ob m (module # ms) st =
     Option.bind (co_manager_attach_module env depth ob m module st) (attach_modules env depth ob m ms)"

text \<open>\<open>CO_MANAGER_IOCTL_ATTACH\<close>. The new monitor replaces the one the descriptor had, and if no
  monitor has the number, the descriptor has none.\<close>

definition ioctl_attach ::
  "debug_env \<Rightarrow> nat \<Rightarrow> open_id \<Rightarrow> ulong \<Rightarrow> ulong list \<Rightarrow> co_manager \<Rightarrow> (co_rc_value \<times> co_manager) option" where
  "ioctl_attach env depth ob n modules st =
     (case List.find (\<lambda>m. map_option mon_id (monitors_at st m) = Some n) (mgr_monitors st) of
        None \<Rightarrow> map_option (Pair CO_RC_ERROR) (with_open ob (\<lambda>d. d\<lparr>od_monitor := None\<rparr>) st)
      | Some m \<Rightarrow>
          Option.bind (with_monitor m (\<lambda>mon. mon\<lparr>mon_refs := mon_refs mon + 1\<rparr>) st) (\<lambda>st.
          Option.bind (with_open ob (\<lambda>d. d\<lparr>od_monitor := Some m\<rparr>) st) (\<lambda>st.
            map_option (Pair CO_RC_OK) (attach_modules env depth ob m modules st))))"

text \<open>\<open>CO_MANAGER_IOCTL_MONITOR_LIST\<close>.\<close>

definition ioctl_monitor_list :: "co_manager \<Rightarrow> ulong list option" where
  "ioctl_monitor_list st =
     those (map (\<lambda>m. map_option mon_id (monitors_at st m)) (take CO_MAX_MONITORS (mgr_monitors st)))"

text \<open>\<open>CO_MONITOR_IOCTL_CLOSE\<close>.\<close>

definition ioctl_monitor_close :: "debug_env \<Rightarrow> nat \<Rightarrow> open_id \<Rightarrow> co_manager \<Rightarrow> (co_rc_value \<times> co_manager) option" where
  "ioctl_monitor_close env depth ob st =
     Option.bind (opens_at st ob) (\<lambda>d.
       case od_monitor d of
         None \<Rightarrow> Some (CO_RC_MONITOR_NOT_LOADED, st)
       | Some m \<Rightarrow>
           Option.bind (co_monitor_refdown (co_manager_close env depth) m (od_owner d) st) (\<lambda>st.
             map_option (Pair CO_RC_OK) (with_open ob (\<lambda>d. d\<lparr>od_monitor := None, od_owner := False\<rparr>) st)))"

section \<open>Creating a monitor\<close>

text \<open>The memory of the guest in megabytes, within its limits, and in bytes.\<close>

definition monitor_memory_size :: "ulong \<Rightarrow> ulong \<Rightarrow> ulong" where
  "monitor_memory_size amount ram_size =
     (let mb = (if ram_size = 0 then if 128 \<le> amount then amount div 4 else 16 else ram_size);
          mb = (if mb < 8 then 8 else if CO_LOWMEMORY_MAX_MB < mb then CO_LOWMEMORY_MAX_MB else mb)
      in push_bit 20 mb)"

text \<open>What a monitor holds while it is created, each entry a block or an object of the host.\<close>

datatype monitor_resource =
    R_monitor | R_console | R_write_lock | R_queue_mutex | R_idle_wait | R_io_buffer | R_shared_page
  | R_os | R_pp_ram | R_timer

record create_answers =
  ca_magic :: bool
  ca_monitor :: bool
  ca_console :: co_rc_value
  ca_write_lock :: co_rc_value
  ca_queue_mutex :: co_rc_value
  ca_idle_wait :: co_rc_value
  ca_io_buffer :: bool
  ca_shared_page :: co_rc_value
  ca_queue :: co_rc_value
  ca_os :: co_rc_value
  ca_pp_ram :: co_rc_value
  ca_timer :: co_rc_value
  ca_configuration :: co_rc_value
  ca_id :: ulong

text \<open>The labels of the error path. To free a pointer that is still 0 does nothing.\<close>

definition out_free_monitor :: "monitor_resource set \<Rightarrow> monitor_resource set" where
  "out_free_monitor held = held - {R_monitor}"

definition out_free_console :: "monitor_resource set \<Rightarrow> monitor_resource set" where
  "out_free_console held = out_free_monitor (held - {R_console})"

definition out_free_mutex1 :: "monitor_resource set \<Rightarrow> monitor_resource set" where
  "out_free_mutex1 held = out_free_console (held - {R_queue_mutex})"

definition out_free_mutex2 :: "monitor_resource set \<Rightarrow> monitor_resource set" where
  "out_free_mutex2 held = out_free_mutex1 (held - {R_write_lock})"

definition out_free_wait :: "monitor_resource set \<Rightarrow> monitor_resource set" where
  "out_free_wait held = out_free_mutex2 (held - {R_idle_wait})"

definition out_free_buffer :: "monitor_resource set \<Rightarrow> monitor_resource set" where
  "out_free_buffer held = out_free_wait (held - {R_io_buffer})"

definition out_free_shared_page :: "monitor_resource set \<Rightarrow> monitor_resource set" where
  "out_free_shared_page held = out_free_buffer (held - {R_shared_page})"

definition out_free_os_dep :: "monitor_resource set \<Rightarrow> monitor_resource set" where
  "out_free_os_dep held = out_free_shared_page (held - {R_os})"

definition out_free_pp :: "monitor_resource set \<Rightarrow> monitor_resource set" where
  "out_free_pp held = out_free_os_dep (held - {R_pp_ram})"

definition out_destroy_timer :: "monitor_resource set \<Rightarrow> monitor_resource set" where
  "out_destroy_timer held = out_free_pp (held - {R_timer})"

text \<open>\<open>co_monitor_create\<close>: the return code, what is held afterwards, the manager, and the new
  monitor. The message queue of a monitor that fails is empty, so its flush frees nothing.\<close>

definition co_monitor_create ::
  "create_answers \<Rightarrow> ulong \<Rightarrow> co_manager \<Rightarrow> co_rc_value \<times> monitor_resource set \<times> co_manager \<times> monitor_id option" where
  "co_monitor_create ca ram_size st =
     (if \<not> ca_magic ca then (CO_RC_VERSION_MISMATCHED, {}, st, None)
      else if \<not> ca_monitor ca then (CO_RC_OUT_OF_MEMORY, {}, st, None)
      else let held = {R_monitor} in
        if \<not> CO_OK (ca_console ca) then (ca_console ca, out_free_monitor held, st, None)
      else let held = insert R_console held in
        if \<not> CO_OK (ca_write_lock ca) then (ca_write_lock ca, out_free_console held, st, None)
      else let held = insert R_write_lock held in
        if \<not> CO_OK (ca_queue_mutex ca) then (ca_queue_mutex ca, out_free_mutex1 held, st, None)
      else let held = insert R_queue_mutex held in
        if \<not> CO_OK (ca_idle_wait ca) then (ca_idle_wait ca, out_free_mutex2 held, st, None)
      else let held = insert R_idle_wait held in
        if \<not> ca_io_buffer ca then (CO_RC_OUT_OF_MEMORY, out_free_wait held, st, None)
      else let held = insert R_io_buffer held in
        if \<not> CO_OK (ca_shared_page ca) then (ca_shared_page ca, out_free_buffer held, st, None)
      else let held = insert R_shared_page held in
        if \<not> CO_OK (ca_queue ca) then (ca_queue ca, out_free_shared_page held, st, None)
      else if \<not> CO_OK (ca_os ca) then (ca_os ca, out_free_shared_page held, st, None)
      else let held = insert R_os held; memory = monitor_memory_size (hostmem_amount st) ram_size in
        if hostmem_usage_limit st < hostmem_used st + memory
        then (CO_RC_HOSTMEM_USE_LIMIT_REACHED, out_free_os_dep held, st, None)
      else let st = st\<lparr>hostmem_used := hostmem_used st + memory\<rparr>;
               reverted = st\<lparr>hostmem_used := hostmem_used st - memory\<rparr> in
        if \<not> CO_OK (ca_pp_ram ca) then (ca_pp_ram ca, out_free_os_dep held, reverted, None)
      else let held = insert R_pp_ram held in
        if \<not> CO_OK (ca_timer ca) then (ca_timer ca, out_free_pp held, reverted, None)
      else let held = insert R_timer held in
        if \<not> CO_OK (ca_configuration ca) then (ca_configuration ca, out_destroy_timer held, reverted, None)
      else
        let m = next_monitor st;
            mon = \<lparr>mon_refs = 1, mon_listed = True, mon_id = ca_id ca,
              mon_modules = replicate CO_MONITOR_MODULES_COUNT None, mon_memory = memory\<rparr>
        in (CO_RC_OK, held,
            st\<lparr>monitors_count := monitors_count st + 1, mgr_monitors := m # mgr_monitors st,
              monitors_at := (monitors_at st)(m \<mapsto> mon), next_monitor := m + 1\<rparr>, Some m))"

text \<open>\<open>CO_MANAGER_IOCTL_CREATE\<close>.\<close>

definition ioctl_create ::
  "create_answers \<Rightarrow> ulong \<Rightarrow> open_id \<Rightarrow> co_manager \<Rightarrow> (co_rc_value \<times> co_manager) option" where
  "ioctl_create ca ram_size ob st =
     Option.bind (opens_at st ob) (\<lambda>d.
       if od_monitor d \<noteq> None then Some (CO_RC_ERROR, st)
       else case co_monitor_create ca ram_size st of
         (rc, held, st, None) \<Rightarrow> Some (rc, st)
       | (rc, held, st, Some m) \<Rightarrow>
           map_option (Pair rc) (with_open ob (\<lambda>d. d\<lparr>od_monitor := Some m, od_owner := True\<rparr>) st))"

section \<open>The log of a descriptor\<close>

text \<open>\<open>CO_MANAGER_IOCTL_DEBUG\<close>: the result of the log is not looked at.\<close>

definition ioctl_debug :: "debug_env \<Rightarrow> open_id \<Rightarrow> uchar list \<Rightarrow> co_manager \<Rightarrow> (co_rc_value \<times> co_manager) option" where
  "ioctl_debug env ob data st =
     Option.bind (opens_at st ob) (\<lambda>d.
     Option.bind (co_debug_write_log env (mgr_debug st) (od_section d) [Write_vector (int (length data)) data []]) (\<lambda>(rc, dbg, section_ptr).
       map_option (Pair CO_RC_OK) (with_open ob (\<lambda>d. d\<lparr>od_section := section_ptr\<rparr>) (st\<lparr>mgr_debug := dbg\<rparr>))))"

text \<open>\<open>CO_MANAGER_IOCTL_DEBUG_READER\<close>; \<open>copies\<close> tells which copies to the user work.\<close>

definition ioctl_debug_reader ::
  "debug_env \<Rightarrow> (section_id \<Rightarrow> bool) \<Rightarrow> ulong \<Rightarrow> co_manager \<Rightarrow> (uchar list \<times> co_manager) option" where
  "ioctl_debug_reader env copies user_buffer_size st =
     map_option (\<lambda>(dbg, out). (out, st\<lparr>mgr_debug := dbg\<rparr>)) (co_debug_read env copies (mgr_debug st) user_buffer_size)"

section \<open>Loading the driver\<close>

datatype co_manager_state =
    CO_MANAGER_STATE_NOT_INITIALIZED
  | CO_MANAGER_STATE_INITIALIZED_DEBUG
  | CO_MANAGER_STATE_INITIALIZED_ARCH
  | CO_MANAGER_STATE_INITIALIZED_OSDEP
  | CO_MANAGER_STATE_INITIALIZED

fun state_value :: "co_manager_state \<Rightarrow> nat" where
  "state_value CO_MANAGER_STATE_NOT_INITIALIZED = 0"
| "state_value CO_MANAGER_STATE_INITIALIZED_DEBUG = 1"
| "state_value CO_MANAGER_STATE_INITIALIZED_ARCH = 2"
| "state_value CO_MANAGER_STATE_INITIALIZED_OSDEP = 3"
| "state_value CO_MANAGER_STATE_INITIALIZED = 4"

text \<open>The limit in megabytes, then in bytes.\<close>

definition set_hostmem_usage_limit :: "ulong \<Rightarrow> ulong" where
  "set_hostmem_usage_limit amount =
     push_bit 20 (if 256 \<le> amount then amount - 64 else amount * 3 div 4)"

text \<open>The parts of a manager that is being loaded; each is present once or not at all.\<close>

datatype manager_resource = M_lock | M_debug | M_arch | M_os | M_reversed_pfns

record load_state =
  ld_state :: co_manager_state
  ld_amount :: ulong
  ld_limit :: ulong
  ld_held :: "manager_resource list"

record load_answers =
  la_lock :: co_rc_value
  la_pages :: "co_rc_value \<times> ulong"
  la_debug :: co_rc_value
  la_arch :: co_rc_value
  la_os :: co_rc_value
  la_reversed :: co_rc_value

definition co_manager_load :: "load_answers \<Rightarrow> co_rc_value \<times> load_state" where
  "co_manager_load la =
     (let ld = \<lparr>ld_state = CO_MANAGER_STATE_NOT_INITIALIZED, ld_amount = 0, ld_limit = 0, ld_held = []\<rparr>;
          held = (\<lambda>r ld. ld\<lparr>ld_held := r # ld_held ld\<rparr>);
          free = (\<lambda>r ld. ld\<lparr>ld_held := remove1 r (ld_held ld)\<rparr>);
          state = (\<lambda>s ld. ld\<lparr>ld_state := s\<rparr>);
          out_err_mutex = (\<lambda>rc ld. (rc, state CO_MANAGER_STATE_NOT_INITIALIZED (free M_lock ld)));
          out_err_debug = (\<lambda>rc ld. out_err_mutex rc (free M_debug ld));
          out_err_arch = (\<lambda>rc ld. out_err_debug rc (free M_arch ld));
          out_err_os = (\<lambda>rc ld. out_err_arch rc (free M_os ld))
      in if \<not> CO_OK (la_lock la) then (la_lock la, ld)
         else let ld = held M_lock ld in
           case la_pages la of (rc, pages) \<Rightarrow>
               if \<not> CO_OK rc then out_err_mutex rc ld
               else let ld = ld\<lparr>ld_amount := drop_bit (20 - 12) pages\<rparr> in
               if 0x100000 < pages then out_err_mutex CO_RC_ERROR ld
               else let ld = ld\<lparr>ld_limit := set_hostmem_usage_limit (ld_amount ld)\<rparr> in
               if \<not> CO_OK (la_debug la) then out_err_mutex (la_debug la) ld
               else let ld = state CO_MANAGER_STATE_INITIALIZED_DEBUG (held M_debug ld) in
               if \<not> CO_OK (la_arch la) then out_err_debug (la_arch la) ld
               else let ld = state CO_MANAGER_STATE_INITIALIZED_ARCH (held M_arch ld) in
               if \<not> CO_OK (la_os la) then out_err_arch (la_os la) ld
               else let ld = state CO_MANAGER_STATE_INITIALIZED_OSDEP (held M_os ld) in
               if \<not> CO_OK (la_reversed la) then out_err_os (la_reversed la) ld
               else (la_reversed la, state CO_MANAGER_STATE_INITIALIZED (held M_reversed_pfns ld)))"

definition co_manager_unload :: "load_state \<Rightarrow> load_state" where
  "co_manager_unload ld =
     (let at_least = (\<lambda>s. state_value s \<le> state_value (ld_state ld));
          free = (\<lambda>r ld. ld\<lparr>ld_held := remove1 r (ld_held ld)\<rparr>);
          ld' = (if at_least CO_MANAGER_STATE_INITIALIZED then free M_lock (free M_reversed_pfns ld) else ld);
          ld' = (if at_least CO_MANAGER_STATE_INITIALIZED_OSDEP then free M_os ld' else ld');
          ld' = (if at_least CO_MANAGER_STATE_INITIALIZED_ARCH then free M_arch ld' else ld');
          ld' = (if at_least CO_MANAGER_STATE_INITIALIZED_DEBUG then free M_debug ld' else ld')
      in ld'\<lparr>ld_state := CO_MANAGER_STATE_NOT_INITIALIZED\<rparr>)"

section \<open>What creating and loading hold\<close>

lemma megify: "unat (x :: ulong) < 4096 \<Longrightarrow> unat (push_bit 20 x) = unat x * 2 ^ 20"
proof -
  assume "unat x < 4096"
  moreover have "unat (2 ^ 20 :: ulong) = 2 ^ 20" by simp
  ultimately show ?thesis using unat_mult_small [of x "2 ^ 20"] by (simp add: push_bit_eq_mult)
qed

lemma limit_bytes:
  assumes "unat pages \<le> 0x100000"
  shows "unat (set_hostmem_usage_limit (drop_bit 8 pages)) =
    (if 256 \<le> unat pages div 256 then unat pages div 256 - 64 else unat pages div 256 * 3 div 4) * 2 ^ 20"
proof -
  have a: "unat (drop_bit 8 pages) = unat pages div 256" unfolding unat_drop_bit_eq by (simp add: drop_bit_eq_div)
  have small: "unat pages div 256 \<le> 4096" using div_le_mono [OF assms, of 256] by simp
  show ?thesis
  proof (cases "256 \<le> unat pages div 256")
    case True
    then have "unat (drop_bit 8 pages - 64) = unat pages div 256 - 64" using a by (subst unat_diff_small) simp_all
    moreover have "256 \<le> drop_bit 8 pages" using True a by (simp add: word_le_nat_alt)
    ultimately show ?thesis using True small megify [of "drop_bit 8 pages - 64"] by (simp add: set_hostmem_usage_limit_def)
  next
    case False
    then have "unat (drop_bit 8 pages * 3) = unat pages div 256 * 3" using a by (subst unat_mult_small) simp_all
    then have "unat (drop_bit 8 pages * 3 div 4) = unat pages div 256 * 3 div 4" by (simp add: unat_div)
    moreover have "\<not> 256 \<le> drop_bit 8 pages" using False a by (simp add: word_le_nat_alt)
    ultimately show ?thesis using False megify [of "drop_bit 8 pages * 3 div 4"] by (simp add: set_hostmem_usage_limit_def)
  qed
qed


text \<open>
  C13: creating a monitor gives back what it took when it fails. On every outcome of the host's calls
  but one, a creation that fails holds nothing; if the second mutex cannot be created, the first one
  stays, because the two labels that destroy them are exchanged. A failed creation changes nothing
  in the manager. One that succeeds holds everything, adds one monitor to the list with one
  reference, and takes its memory off the limit.
\<close>

theorem co_monitor_create_releases:
  "case co_monitor_create ca ram_size st of (rc, held, st', new) \<Rightarrow>
     (if new = None
      then st' = st \<and> \<not> CO_OK rc \<and>
        held = (if ca_magic ca \<and> ca_monitor ca \<and> CO_OK (ca_console ca) \<and> CO_OK (ca_write_lock ca) \<and> \<not> CO_OK (ca_queue_mutex ca)
                then {R_write_lock} else {})
      else CO_OK rc \<and> held = {R_monitor, R_console, R_write_lock, R_queue_mutex, R_idle_wait, R_io_buffer, R_shared_page,
          R_os, R_pp_ram, R_timer} \<and>
        new = Some (next_monitor st) \<and> mgr_monitors st' = next_monitor st # mgr_monitors st \<and>
        monitors_count st' = monitors_count st + 1 \<and>
        map_option mon_refs (monitors_at st' (next_monitor st)) = Some 1 \<and>
        hostmem_used st' = hostmem_used st + monitor_memory_size (hostmem_amount st) ram_size \<and>
        hostmem_used st' \<le> hostmem_usage_limit st')"
  unfolding co_monitor_create_def Let_def
  by (auto simp: CO_OK_def out_free_monitor_def out_free_console_def out_free_mutex1_def
      out_free_mutex2_def out_free_wait_def out_free_buffer_def out_free_shared_page_def out_free_os_dep_def out_free_pp_def
      out_destroy_timer_def)

definition all_work :: create_answers where
  "all_work = \<lparr>ca_magic = True, ca_monitor = True, ca_console = CO_RC_OK, ca_write_lock = CO_RC_OK, ca_queue_mutex = CO_RC_OK,
     ca_idle_wait = CO_RC_OK, ca_io_buffer = True, ca_shared_page = CO_RC_OK, ca_queue = CO_RC_OK, ca_os = CO_RC_OK,
     ca_pp_ram = CO_RC_OK, ca_timer = CO_RC_OK, ca_configuration = CO_RC_OK, ca_id = 7\<rparr>"

text \<open>
  The limit does not hold. The sum of the memory in use and the memory of a new guest is
  compared with the limit in 32 bits: on a host with 4 gigabytes, where four guests of 984
  megabytes are just below the limit, a fifth one is created, and the memory in use is then 824
  megabytes.
\<close>

theorem hostmem_limit_wraps:
  "let limit = set_hostmem_usage_limit 4096; four = 4 * monitor_memory_size 4096 984;
       st = st\<lparr>hostmem_amount := 4096, hostmem_usage_limit := limit, hostmem_used := four\<rparr>;
       (rc, held, st', new) = co_monitor_create all_work 984 st
   in four \<le> limit \<and> unat limit < unat four + unat (monitor_memory_size 4096 984) \<and>
      CO_OK rc \<and> new = Some (next_monitor st) \<and> hostmem_used st' = 824 * 2 ^ 20"
  by (simp add: set_hostmem_usage_limit_def monitor_memory_size_def co_monitor_create_def all_work_def CO_OK_def
      CO_LOWMEMORY_MAX_MB_def Let_def)

end
