(* ===== verification/Manager_Refs.thy ===== *)
theory Manager_Refs
  imports Co_Manager
begin

text \<open>
  The reference counts of the manager. A descriptor is referenced by its user's handle, by the
  handler that works on it and by the entries of \<open>connected_modules\<close>; a monitor by the descriptors
  that point to it and by the function that takes it down. The invariant says that the counts are
  these numbers, so that nothing is used after it was freed.
\<close>

section \<open>The references\<close>

definition slots_of :: "co_manager \<Rightarrow> open_id \<Rightarrow> nat" where
  "slots_of st ob = (\<Sum>m \<in> dom (monitors_at st). count_list (mon_modules (the (monitors_at st m))) (Some ob))"

definition users :: "open_id set \<Rightarrow> co_manager \<Rightarrow> monitor_id \<Rightarrow> open_id set" where
  "users D st m = {ob. ob \<notin> D \<and> (\<exists>d. opens_at st ob = Some d \<and> od_monitor d = Some m)}"

definition sections_of :: "co_manager \<Rightarrow> open_id \<rightharpoonup> section_id" where
  "sections_of st ob = Option.bind (opens_at st ob) od_section"

text \<open>\<open>H\<close> counts the handles, \<open>HM\<close> the references that functions hold; \<open>X\<close> are the descriptors
  that are being freed, \<open>D\<close> those whose pointer to a monitor does not count any more, and \<open>E\<close> the
  monitors that are being taken down.\<close>

definition opens_ok :: "(open_id \<Rightarrow> nat) \<Rightarrow> open_id set \<Rightarrow> co_manager \<Rightarrow> bool" where
  "opens_ok H X st \<longleftrightarrow>
     (\<forall>ob. opens_at st ob = None \<longrightarrow> H ob = 0 \<and> slots_of st ob = 0 \<and> ob \<notin> X) \<and>
     (\<forall>ob d. opens_at st ob = Some d \<longrightarrow>
        od_refs d = int (H ob + slots_of st ob) \<and> (ob \<in> X \<longleftrightarrow> H ob + slots_of st ob = 0))"

definition monitor_ok ::
  "(monitor_id \<Rightarrow> nat) \<Rightarrow> open_id set \<Rightarrow> monitor_id set \<Rightarrow> co_manager \<Rightarrow> monitor_id \<Rightarrow> co_monitor_refs \<Rightarrow> bool" where
  "monitor_ok HM D E st m mon \<longleftrightarrow>
     mon_refs mon = int (card (users D st m) + HM m) \<and> 0 < card (users D st m) + HM m \<and>
     length (mon_modules mon) = CO_MONITOR_MODULES_COUNT \<and> (mon_listed mon \<longleftrightarrow> m \<in> set (mgr_monitors st)) \<and>
     (m \<notin> E \<longrightarrow>
        (if mon_listed mon then \<exists>ob \<in> users D st m. od_owner (the (opens_at st ob))
         else \<forall>x \<in> set (mon_modules mon). x = None))"

definition links_ok ::
  "(open_id \<Rightarrow> nat) \<Rightarrow> (monitor_id \<Rightarrow> nat) \<Rightarrow> open_id set \<Rightarrow> monitor_id set \<Rightarrow> co_manager \<Rightarrow> bool" where
  "links_ok H HM D E st \<longleftrightarrow>
     (\<forall>m. monitors_at st m = None \<longrightarrow> users D st m = {} \<and> HM m = 0) \<and> (\<forall>m \<in> E. 0 < HM m) \<and> (\<forall>ob \<in> D. 0 < H ob)"

definition lists_ok :: "co_manager \<Rightarrow> bool" where
  "lists_ok st \<longleftrightarrow>
     distinct (mgr_opens st) \<and> set (mgr_opens st) = dom (opens_at st) \<and> num_opens st = int (length (mgr_opens st)) \<and>
     distinct (mgr_monitors st) \<and> set (mgr_monitors st) \<subseteq> dom (monitors_at st) \<and>
     monitors_count st = int (length (mgr_monitors st)) \<and>
     (\<forall>ob \<in> dom (opens_at st). ob < next_open st) \<and> (\<forall>m \<in> dom (monitors_at st). m < next_monitor st) \<and>
     (\<exists>ls. log_rel (mgr_debug st, sections_of st) ls)"

definition refs_inv ::
  "(open_id \<Rightarrow> nat) \<Rightarrow> (monitor_id \<Rightarrow> nat) \<Rightarrow> open_id set \<Rightarrow> open_id set \<Rightarrow> monitor_id set \<Rightarrow> co_manager \<Rightarrow> bool" where
  "refs_inv H HM X D E st \<longleftrightarrow>
     opens_ok H X st \<and> (\<forall>m mon. monitors_at st m = Some mon \<longrightarrow> monitor_ok HM D E st m mon) \<and>
     links_ok H HM D E st \<and> lists_ok st"

lemma frame_simps [simp]:
  "slots_of (st\<lparr>opens_at := o'\<rparr>) = slots_of st" "slots_of (st\<lparr>mgr_opens := l\<rparr>) = slots_of st"
  "slots_of (st\<lparr>num_opens := k\<rparr>) = slots_of st" "slots_of (st\<lparr>mgr_monitors := l\<rparr>) = slots_of st"
  "slots_of (st\<lparr>monitors_count := k\<rparr>) = slots_of st" "slots_of (st\<lparr>mgr_debug := b\<rparr>) = slots_of st"
  "slots_of (st\<lparr>hostmem_used := w\<rparr>) = slots_of st" "slots_of (st\<lparr>next_open := k'\<rparr>) = slots_of st"
  "slots_of (st\<lparr>next_monitor := k'\<rparr>) = slots_of st"
  "users D (st\<lparr>monitors_at := ms\<rparr>) = users D st" "users D (st\<lparr>mgr_opens := l\<rparr>) = users D st"
  "users D (st\<lparr>num_opens := k\<rparr>) = users D st" "users D (st\<lparr>mgr_monitors := l\<rparr>) = users D st"
  "users D (st\<lparr>monitors_count := k\<rparr>) = users D st" "users D (st\<lparr>mgr_debug := b\<rparr>) = users D st"
  "users D (st\<lparr>hostmem_used := w\<rparr>) = users D st" "users D (st\<lparr>next_open := k'\<rparr>) = users D st"
  "users D (st\<lparr>next_monitor := k'\<rparr>) = users D st"
  "sections_of (st\<lparr>monitors_at := ms\<rparr>) = sections_of st" "sections_of (st\<lparr>mgr_opens := l\<rparr>) = sections_of st"
  "sections_of (st\<lparr>num_opens := k\<rparr>) = sections_of st" "sections_of (st\<lparr>mgr_monitors := l\<rparr>) = sections_of st"
  "sections_of (st\<lparr>monitors_count := k\<rparr>) = sections_of st" "sections_of (st\<lparr>mgr_debug := b\<rparr>) = sections_of st"
  "sections_of (st\<lparr>hostmem_used := w\<rparr>) = sections_of st" "sections_of (st\<lparr>next_open := k'\<rparr>) = sections_of st"
  "sections_of (st\<lparr>next_monitor := k'\<rparr>) = sections_of st"
  by (auto simp: slots_of_def users_def sections_of_def fun_eq_iff)

section \<open>Single writes\<close>

lemma count_list_update:
  "i < length xs \<Longrightarrow> count_list (xs[i := v]) a + (if xs ! i = a then 1 else 0) = count_list xs a + (if v = a then 1 else 0)"
proof (induction xs arbitrary: i)
  case (Cons x xs)
  show ?case
  proof (cases i)
    case (Suc j)
    then show ?thesis using Cons.IH [of j] Cons.prems by (auto split: if_splits)
  qed auto
qed simp

lemma finite_monitors: "lists_ok st \<Longrightarrow> finite (dom (monitors_at st))"
  unfolding lists_ok_def by (meson finite_nat_set_iff_bounded)

lemma slots_update:
  assumes "finite (dom (monitors_at st))" and "monitors_at st m = Some mon"
  shows "slots_of (st\<lparr>monitors_at := (monitors_at st)(m \<mapsto> mon')\<rparr>) ob + count_list (mon_modules mon) (Some ob) =
    slots_of st ob + count_list (mon_modules mon') (Some ob)"
proof -
  have dom: "dom ((monitors_at st)(m \<mapsto> mon')) = dom (monitors_at st)" using assms(2) by auto
  have "(\<Sum>x \<in> dom (monitors_at st) - {m}. count_list (mon_modules (the (((monitors_at st)(m \<mapsto> mon')) x))) (Some ob)) =
      (\<Sum>x \<in> dom (monitors_at st) - {m}. count_list (mon_modules (the (monitors_at st x))) (Some ob))"
    by (rule sum.cong) auto
  moreover have "m \<in> dom (monitors_at st)" using assms(2) by auto
  ultimately show ?thesis
    using assms sum.remove [of "dom (monitors_at st)" m "\<lambda>x. count_list (mon_modules (the (monitors_at st x))) (Some ob)"]
      sum.remove [of "dom (monitors_at st)" m "\<lambda>x. count_list (mon_modules (the (((monitors_at st)(m \<mapsto> mon')) x))) (Some ob)"]
    unfolding slots_of_def co_manager.simps dom by (simp add: insert_absorb)
qed

lemma slots_same:
  assumes "monitors_at st m = Some mon" and "mon_modules mon' = mon_modules mon"
  shows "slots_of (st\<lparr>monitors_at := (monitors_at st)(m \<mapsto> mon')\<rparr>) = slots_of st"
proof
  fix ob
  have dom: "dom ((monitors_at st)(m \<mapsto> mon')) = dom (monitors_at st)" using assms(1) by auto
  show "slots_of (st\<lparr>monitors_at := (monitors_at st)(m \<mapsto> mon')\<rparr>) ob = slots_of st ob"
    unfolding slots_of_def co_manager.simps dom by (rule sum.cong) (use assms in auto)
qed

lemma users_same:
  assumes "opens_at st ob = Some d" and "od_monitor d' = od_monitor d"
  shows "users D (st\<lparr>opens_at := (opens_at st)(ob \<mapsto> d')\<rparr>) m = users D st m"
  using assms by (auto simp: users_def)

lemma sections_same:
  assumes "opens_at st ob = Some d" and "od_section d' = od_section d"
  shows "sections_of (st\<lparr>opens_at := (opens_at st)(ob \<mapsto> d')\<rparr>) = sections_of st"
  using assms by (auto simp: sections_of_def fun_eq_iff)

lemma inv_monitor: "refs_inv H HM X D E st \<Longrightarrow> monitors_at st m = Some mon \<Longrightarrow> monitor_ok HM D E st m mon"
  by (simp add: refs_inv_def)

lemma inv_lists: "refs_inv H HM X D E st \<Longrightarrow> lists_ok st"
  by (simp add: refs_inv_def)

lemma inv_finite: "refs_inv H HM X D E st \<Longrightarrow> finite (dom (monitors_at st))"
  by (simp add: refs_inv_def finite_monitors)

lemma inv_open:
  assumes "refs_inv H HM X D E st" and "opens_at st ob = Some d"
  shows "od_refs d = int (H ob + slots_of st ob)" and "ob \<in> X \<longleftrightarrow> H ob + slots_of st ob = 0"
  using assms by (auto simp: refs_inv_def opens_ok_def split: option.splits)

lemma inv_alive:
  assumes "refs_inv H HM X D E st" and "0 < H ob \<or> 0 < slots_of st ob \<or> ob \<in> X"
  obtains d where "opens_at st ob = Some d"
  using assms by (cases "opens_at st ob") (auto simp: refs_inv_def opens_ok_def split: option.splits)

lemma inv_monitor_alive:
  assumes "refs_inv H HM X D E st" and "0 < HM m \<or> ob \<in> users D st m"
  obtains mon where "monitors_at st m = Some mon"
  using assms by (cases "monitors_at st m") (auto simp: refs_inv_def links_ok_def)

lemma monitor_ok_cong:
  assumes "users D st' = users D st" and "mgr_monitors st' = mgr_monitors st"
    and "\<And>x. od_owner (the (opens_at st' x)) = od_owner (the (opens_at st x))"
  shows "monitor_ok HM D E st' m mon = monitor_ok HM D E st m mon"
  using assms by (simp add: monitor_ok_def)

lemma opens_ok_cong:
  assumes "opens_at st' = opens_at st" and "\<And>x. H' x + slots_of st' x = H x + slots_of st x" and "opens_ok H X st"
  shows "opens_ok H' X st'"
proof -
  have "H' x = 0 \<and> slots_of st' x = 0 \<longleftrightarrow> H x = 0 \<and> slots_of st x = 0" for x
    using assms(2) [of x] by auto
  then show ?thesis using assms(3) by (simp add: opens_ok_def assms(1) flip: of_nat_add) (simp add: assms(2))
qed

text \<open>A descriptor changes its count and nothing else that matters.\<close>

lemma inv_open_write:
  assumes inv: "refs_inv H HM X D E st" and ob: "opens_at st ob = Some d"
    and d': "od_monitor d' = od_monitor d" "od_owner d' = od_owner d" "od_section d' = od_section d"
      "od_refs d' = int (h + slots_of st ob)"
    and "ob \<in> D \<longrightarrow> 0 < h"
  shows "refs_inv (H(ob := h)) HM (if h + slots_of st ob = 0 then insert ob X else X - {ob}) D E
    (st\<lparr>opens_at := (opens_at st)(ob \<mapsto> d')\<rparr>)"
proof -
  have users: "users D (st\<lparr>opens_at := (opens_at st)(ob \<mapsto> d')\<rparr>) = users D st"
    using users_same [OF ob d'(1)] by (simp add: fun_eq_iff)
  have sections: "sections_of (st\<lparr>opens_at := (opens_at st)(ob \<mapsto> d')\<rparr>) = sections_of st"
    by (rule sections_same [OF ob d'(3)])
  have "opens_ok (H(ob := h)) (if h + slots_of st ob = 0 then insert ob X else X - {ob}) (st\<lparr>opens_at := (opens_at st)(ob \<mapsto> d')\<rparr>)"
    using inv d'(4) by (auto simp: refs_inv_def opens_ok_def)
  moreover have "monitor_ok HM D E (st\<lparr>opens_at := (opens_at st)(ob \<mapsto> d')\<rparr>) m mon" if "monitors_at st m = Some mon" for m mon
  proof -
    have "od_owner (the (((opens_at st)(ob \<mapsto> d')) x)) = od_owner (the (opens_at st x))" for x
      using ob d'(2) by simp
    then show ?thesis using inv_monitor [OF inv that] by (subst monitor_ok_cong [OF users]) simp_all
  qed
  moreover have "links_ok (H(ob := h)) HM D E (st\<lparr>opens_at := (opens_at st)(ob \<mapsto> d')\<rparr>)"
    using inv assms(7) by (simp add: refs_inv_def links_ok_def users)
  moreover have "lists_ok (st\<lparr>opens_at := (opens_at st)(ob \<mapsto> d')\<rparr>)"
    using inv_lists [OF inv] ob by (auto simp: lists_ok_def sections insert_absorb)
  ultimately show ?thesis by (simp add: refs_inv_def)
qed

text \<open>An entry of the connected modules changes hands: from the table to the function.\<close>

lemma inv_slot_clear:
  assumes inv: "refs_inv H HM X D E st" and m: "monitors_at st m = Some mon"
    and i: "i < CO_MONITOR_MODULES_COUNT" "mon_modules mon ! i = Some ob"
  shows "refs_inv (H(ob := H ob + 1)) HM X D E
    (st\<lparr>monitors_at := (monitors_at st)(m \<mapsto> mon\<lparr>mon_modules := (mon_modules mon)[i := None]\<rparr>)\<rparr>)" (is "refs_inv ?H HM X D E ?st")
proof -
  have len: "i < length (mon_modules mon)" using i(1) inv_monitor [OF inv m] by (simp add: monitor_ok_def)
  have slots: "slots_of ?st x + (if x = ob then 1 else 0) = slots_of st x" for x
    using slots_update [OF inv_finite [OF inv] m, of "mon\<lparr>mon_modules := (mon_modules mon)[i := None]\<rparr>" x]
      count_list_update [OF len, of None "Some x"] i(2) by (auto split: if_splits)
  have sum: "?H x + slots_of ?st x = H x + slots_of st x" for x using slots [of x] by auto
  have "opens_ok ?H X ?st"
    by (rule opens_ok_cong [of _ st _ H]) (use sum inv in \<open>simp_all add: refs_inv_def\<close>)
  moreover have "monitor_ok HM D E ?st m' mon'" if "monitors_at ?st m' = Some mon'" for m' mon'
  proof (cases "m' = m")
    case True
    then have "mon' = mon\<lparr>mon_modules := (mon_modules mon)[i := None]\<rparr>" using that by simp
    moreover have "\<forall>x \<in> set (mon_modules mon). x = None \<Longrightarrow> \<forall>x \<in> set ((mon_modules mon)[i := None]). x = None"
      using set_update_subset_insert [of "mon_modules mon" i None] by blast
    ultimately show ?thesis using inv_monitor [OF inv m] True by (simp add: monitor_ok_def)
  next
    case False
    then show ?thesis using inv_monitor [OF inv, of m' mon'] that by (simp add: monitor_ok_def)
  qed
  moreover have "links_ok ?H HM D E ?st" using inv m by (auto simp: refs_inv_def links_ok_def)
  moreover have "lists_ok ?st" using inv_lists [OF inv] m by (auto simp: lists_ok_def)
  ultimately show ?thesis by (simp add: refs_inv_def)
qed

lemma finite_users: "refs_inv H HM X D E st \<Longrightarrow> finite (users D st m)"
proof -
  assume "refs_inv H HM X D E st"
  then have "users D st m \<subseteq> {..<next_open st}" by (auto simp: refs_inv_def lists_ok_def users_def)
  then show ?thesis by (rule finite_subset) simp
qed

text \<open>A descriptor lets its monitor go: the reference passes to the function.\<close>

lemma inv_detach:
  assumes inv: "refs_inv H HM X D E st" and ob: "opens_at st ob = Some d" "od_monitor d = Some m" "ob \<notin> D"
  shows "refs_inv H (HM(m := HM m + 1)) X D (if od_owner d then insert m E else E)
    (st\<lparr>opens_at := (opens_at st)(ob \<mapsto> d\<lparr>od_monitor := None\<rparr>)\<rparr>)" (is "refs_inv H ?HM X D ?E ?st")
proof -
  have users: "users D ?st x = (if x = m then users D st m - {ob} else users D st x)" for x
    using ob by (auto simp: users_def)
  have mine: "ob \<in> users D st m" using ob by (simp add: users_def)
  then have card: "card (users D st m) = Suc (card (users D st m - {ob}))"
    by (rule card_Suc_Diff1 [OF finite_users [OF inv], symmetric])
  have sections: "sections_of ?st = sections_of st" by (rule sections_same [OF ob(1)]) simp
  have "opens_ok H X ?st" using inv ob by (simp add: refs_inv_def opens_ok_def)
  moreover have "monitor_ok ?HM D ?E ?st x mon" if "monitors_at ?st x = Some mon" for x mon
  proof -
    have ok: "monitor_ok HM D E st x mon" using inv_monitor [OF inv] that by simp
    have owner: "\<exists>y \<in> users D ?st x. od_owner (the (opens_at ?st y))"
      if y: "y \<in> users D st x" "od_owner (the (opens_at st y))" "x \<notin> ?E" for y
    proof -
      have "x = m \<longrightarrow> y \<noteq> ob" using ob y by (auto split: if_splits)
      then have "y \<in> users D ?st x" using users [of x] y(1) by (auto split: if_splits)
      then show ?thesis using y ob(1) by (auto intro!: bexI [of _ y])
    qed
    have "card (users D ?st x) + ?HM x = card (users D st x) + HM x"
      using card users [of x] by (cases "x = m") simp_all
    moreover have "x \<notin> ?E \<longrightarrow> (if mon_listed mon then \<exists>y \<in> users D ?st x. od_owner (the (opens_at ?st y))
        else \<forall>y \<in> set (mon_modules mon). y = None)"
    proof
      assume x: "x \<notin> ?E"
      then have "x \<notin> E" by (auto split: if_splits)
      with ok have "if mon_listed mon then \<exists>y \<in> users D st x. od_owner (the (opens_at st y))
          else \<forall>y \<in> set (mon_modules mon). y = None" unfolding monitor_ok_def by blast
      then show "if mon_listed mon then \<exists>y \<in> users D ?st x. od_owner (the (opens_at ?st y))
          else \<forall>y \<in> set (mon_modules mon). y = None"
        using owner [OF _ _ x] by (cases "mon_listed mon") (simp_all only: if_True if_False, blast)
    qed
    moreover have "mgr_monitors ?st = mgr_monitors st" by simp
    ultimately show ?thesis using ok by (simp only: monitor_ok_def)
  qed
  moreover have "links_ok H ?HM D ?E ?st"
  proof -
    obtain mon where "monitors_at st m = Some mon"
      using inv_monitor_alive [OF inv, of m ob] mine by blast
    then show ?thesis using inv users by (auto simp: refs_inv_def links_ok_def)
  qed
  moreover have "lists_ok ?st" using inv_lists [OF inv] ob(1) by (auto simp: lists_ok_def sections insert_absorb)
  ultimately show ?thesis by (simp add: refs_inv_def)
qed

lemma length_remove1_int: "x \<in> set xs \<Longrightarrow> int (length (remove1 x xs)) = int (length xs) - 1"
  by (induction xs) auto

text \<open>The owner of a monitor takes it off the list.\<close>

lemma inv_unlist:
  assumes inv: "refs_inv H HM X D E st" and m: "monitors_at st m = Some mon" "mon_listed mon" "m \<in> E"
  shows "refs_inv H HM X D E (st\<lparr>monitors_count := monitors_count st - 1, mgr_monitors := remove1 m (mgr_monitors st),
    monitors_at := (monitors_at st)(m \<mapsto> mon\<lparr>mon_listed := False\<rparr>)\<rparr>)" (is "refs_inv H HM X D E ?st")
proof -
  have "slots_of ?st = slots_of (st\<lparr>monitors_at := (monitors_at st)(m \<mapsto> mon\<lparr>mon_listed := False\<rparr>)\<rparr>)"
    by (simp add: slots_of_def fun_eq_iff)
  then have slots: "slots_of ?st = slots_of st"
    using slots_same [OF m(1), of "mon\<lparr>mon_listed := False\<rparr>"] by simp
  have m': "m \<in> set (mgr_monitors st)" using inv_monitor [OF inv m(1)] m(2) by (simp add: monitor_ok_def)
  have dist: "distinct (mgr_monitors st)" using inv_lists [OF inv] by (simp add: lists_ok_def)
  have users: "users D ?st = users D st" by (simp add: users_def)
  have "opens_ok H X ?st"
    by (rule opens_ok_cong [of _ st _ H]) (use slots inv in \<open>simp_all add: refs_inv_def\<close>)
  moreover have "monitor_ok HM D E ?st x mon'" if "monitors_at ?st x = Some mon'" for x mon'
  proof (cases "x = m")
    case True
    then show ?thesis using that inv_monitor [OF inv m(1)] m(3) dist by (auto simp: monitor_ok_def users)
  next
    case False
    then show ?thesis using that inv_monitor [OF inv, of x mon'] dist by (simp add: monitor_ok_def users)
  qed
  moreover have "links_ok H HM D E ?st" using inv m(1) by (simp add: refs_inv_def links_ok_def users)
  moreover have "lists_ok ?st"
  proof -
    have "int (length (remove1 m (mgr_monitors st))) = int (length (mgr_monitors st)) - 1"
      by (rule length_remove1_int [OF m'])
    moreover have "sections_of ?st = sections_of st" by (simp add: sections_of_def fun_eq_iff)
    ultimately show ?thesis
      using inv_lists [OF inv] m(1) dist by (auto simp: lists_ok_def dest: notin_set_remove1)
  qed
  ultimately show ?thesis by (simp add: refs_inv_def)
qed

text \<open>The function that holds a reference to a monitor drops it. \<open>E'\<close> are the monitors that are
  still being taken down afterwards.\<close>

definition settled :: "open_id set \<Rightarrow> co_manager \<Rightarrow> monitor_id \<Rightarrow> co_monitor_refs \<Rightarrow> bool" where
  "settled D st m mon \<longleftrightarrow>
     (if mon_listed mon then \<exists>ob \<in> users D st m. od_owner (the (opens_at st ob)) else \<forall>x \<in> set (mon_modules mon). x = None)"

lemma monitor_ok_settled:
  "monitor_ok HM D E st m mon \<longleftrightarrow>
     mon_refs mon = int (card (users D st m) + HM m) \<and> 0 < card (users D st m) + HM m \<and>
     length (mon_modules mon) = CO_MONITOR_MODULES_COUNT \<and> (mon_listed mon \<longleftrightarrow> m \<in> set (mgr_monitors st)) \<and>
     (m \<notin> E \<longrightarrow> settled D st m mon)"
  unfolding monitor_ok_def settled_def by (rule refl)

lemma inv_drop_monitor:
  assumes inv: "refs_inv H HM X D E st" and m: "monitors_at st m = Some mon"
    and E': "E - {m} \<subseteq> E'" "E' \<subseteq> E" "(if m \<in> E' then 1 else 0) < HM m" "m \<notin> E' \<Longrightarrow> settled D st m mon"
    and st': "st' = st\<lparr>monitors_at := (monitors_at st)(m \<mapsto> mon\<lparr>mon_refs := mon_refs mon - 1\<rparr>)\<rparr>"
  shows "\<exists>mon'. monitors_at st' m = Some mon' \<and>
    (if mon_refs mon' = 0 then \<exists>st''. co_monitor_destroy m st' = Some st'' \<and> refs_inv H (HM(m := HM m - 1)) X D E' st'' \<and>
        monitors_at st'' = (monitors_at st)(m := None) \<and> opens_at st'' = opens_at st
     else refs_inv H (HM(m := HM m - 1)) X D E' st')"
proof -
  let ?mon = "mon\<lparr>mon_refs := mon_refs mon - 1\<rparr>" and ?HM = "HM(m := HM m - 1)"
  have ok: "monitor_ok HM D E st m mon" by (rule inv_monitor [OF inv m])
  have refs: "mon_refs mon = int (card (users D st m) + HM m)" using ok by (simp add: monitor_ok_def)
  have links: "links_ok H ?HM D E' st"
    if "card (users D st m) + HM m - 1 = 0 \<longrightarrow> m \<notin> E'"
    using inv m E' unfolding refs_inv_def links_ok_def by (auto split: if_splits)
  have others: "monitor_ok ?HM D E' s x mon'"
    if "monitors_at st x = Some mon'" "x \<noteq> m" "users D s = users D st" "mgr_monitors s = mgr_monitors st" "opens_at s = opens_at st" for s x mon'
    using inv_monitor [OF inv that(1)] that(2-5) E'(1) unfolding monitor_ok_settled settled_def by auto
  show ?thesis
  proof (cases "card (users D st m) + HM m = 1")
    case True
    then have "card (users D st m) = 0" "HM m = 1" "m \<notin> E'" using E'(3) by (auto split: if_splits)
    then have none: "users D st m = {}" "HM m = 1" "m \<notin> E'" using finite_users [OF inv, of m] by simp_all
    with E'(4) have free: "\<not> mon_listed mon" "\<forall>x \<in> set (mon_modules mon). x = None"
      by (auto simp: settled_def split: if_splits)
    then have "count_list (mon_modules mon) (Some ob) = 0" for ob by (auto simp: count_list_0_iff)
    moreover have "m \<in> dom (monitors_at st)" using m by auto
    ultimately have slots: "slots_of (st\<lparr>monitors_at := (monitors_at st)(m := None)\<rparr>) = slots_of st"
      using inv_finite [OF inv] m
      by (auto simp: slots_of_def fun_eq_iff sum.remove [of "dom (monitors_at st)" m] intro!: sum.cong)
    let ?st = "st\<lparr>monitors_at := (monitors_at st)(m := None), hostmem_used := hostmem_used st - mon_memory mon\<rparr>"
    have fields: "users D ?st = users D st" "sections_of ?st = sections_of st" "slots_of ?st = slots_of st"
      using slots by (simp_all add: users_def sections_of_def fun_eq_iff)
    have "opens_ok H X ?st"
      by (rule opens_ok_cong [of _ st _ H]) (use fields inv in \<open>simp_all add: refs_inv_def\<close>)
    moreover have "monitor_ok ?HM D E' ?st x mon'" if "monitors_at ?st x = Some mon'" for x mon'
      using that fields by (intro others) (auto split: if_splits)
    moreover have "links_ok H ?HM D E' ?st"
    proof -
      have "users D ?st x = {} \<and> ?HM x = 0" if "monitors_at ?st x = None" for x
        using inv that none fields by (cases "x = m") (auto simp: refs_inv_def links_ok_def)
      then show ?thesis using links none(3) unfolding links_ok_def by blast
    qed
    moreover have "lists_ok ?st"
    proof -
      have "m \<notin> set (mgr_monitors st)" using ok free(1) by (simp add: monitor_ok_def)
      then show ?thesis using inv_lists [OF inv] fields(2) by (auto simp: lists_ok_def)
    qed
    ultimately have "refs_inv H ?HM X D E' ?st" by (simp add: refs_inv_def)
    moreover have "co_monitor_destroy m st' = Some ?st" by (simp add: st' co_monitor_destroy_def)
    ultimately show ?thesis using True refs by (simp add: st')
  next
    case False
    then have more: "1 < card (users D st m) + HM m" using ok unfolding monitor_ok_def by linarith
    have slots: "slots_of st' = slots_of st" using slots_same [OF m, of ?mon] by (simp add: st')
    have fields: "users D st' = users D st" "sections_of st' = sections_of st" by (simp_all add: st')
    have "opens_ok H X st'"
      by (rule opens_ok_cong [of _ st _ H]) (use slots inv in \<open>simp_all add: st' refs_inv_def\<close>)
    moreover have "monitor_ok ?HM D E' st' x mon'" if "monitors_at st' x = Some mon'" for x mon'
    proof (cases "x = m")
      case True
      then have "mon' = ?mon" using that by (simp add: st')
      moreover have "0 < HM m" using E'(3) by simp
      moreover have "settled D st' m ?mon" if "m \<notin> E'" using E'(4) [OF that] by (simp add: settled_def st')
      moreover have "mgr_monitors st' = mgr_monitors st" by (simp add: st')
      ultimately show ?thesis using True ok more unfolding monitor_ok_settled fields by auto
    next
      case False
      then show ?thesis using that fields by (intro others) (simp_all add: st')
    qed
    moreover have "links_ok H ?HM D E' st'"
    proof -
      have same: "monitors_at st' x = None \<longleftrightarrow> monitors_at st x = None" for x by (simp add: st' m)
      have "links_ok H ?HM D E' st" using links more by simp
      then show ?thesis unfolding links_ok_def same fields .
    qed
    moreover have "lists_ok st'" using inv_lists [OF inv] m fields(2) by (auto simp: lists_ok_def st')
    ultimately have "refs_inv H ?HM X D E' st'" by (simp add: refs_inv_def)
    then show ?thesis using more refs by (simp add: st')
  qed
qed

text \<open>The debug section of a descriptor changes.\<close>

lemma inv_section:
  assumes inv: "refs_inv H HM X D E st" and ob: "opens_at st ob = Some d"
    and log: "log_rel (dbg, (sections_of st)(ob := p)) ls"
  shows "refs_inv H HM X D E (st\<lparr>mgr_debug := dbg, opens_at := (opens_at st)(ob \<mapsto> d\<lparr>od_section := p\<rparr>)\<rparr>)" (is "refs_inv _ _ _ _ _ ?st")
proof -
  have sections: "sections_of ?st = (sections_of st)(ob := p)" by (auto simp: sections_of_def fun_eq_iff)
  have users: "users D ?st = users D st" using ob by (auto simp: users_def fun_eq_iff)
  have slots: "slots_of ?st = slots_of st" by (simp add: slots_of_def fun_eq_iff)
  have "opens_ok H X ?st" using inv ob slots by (auto simp: refs_inv_def opens_ok_def)
  moreover have "monitor_ok HM D E ?st m mon" if "monitors_at ?st m = Some mon" for m mon
  proof -
    have "od_owner (the (opens_at ?st x)) = od_owner (the (opens_at st x))" for x using ob by simp
    then show ?thesis using inv_monitor [OF inv, of m mon] that by (subst monitor_ok_cong [OF users]) simp_all
  qed
  moreover have "links_ok H HM D E ?st" using inv by (simp add: refs_inv_def links_ok_def users)
  moreover have "lists_ok ?st"
    using inv_lists [OF inv] ob log by (auto simp: lists_ok_def sections insert_absorb)
  ultimately show ?thesis by (simp add: refs_inv_def)
qed

text \<open>The section of a descriptor that is closed is folded and forgotten.\<close>

lemma inv_fold:
  assumes inv: "refs_inv H HM X D E st" and ob: "opens_at st ob = Some d" "od_section d = Some s"
  shows "\<exists>rc dbg. co_debug_fold env (mgr_debug st) s = Some (rc, dbg) \<and>
    refs_inv H HM X D E (st\<lparr>mgr_debug := dbg, opens_at := (opens_at st)(ob \<mapsto> d\<lparr>od_section := None\<rparr>)\<rparr>)"
proof -
  obtain ls where ls: "log_rel (mgr_debug st, sections_of st) ls" using inv_lists [OF inv] by (auto simp: lists_ok_def)
  have s: "sections_of st ob = Some s" using ob by (simp add: sections_of_def)
  obtain st1 where st1: "debug_step (Log_close ob env) (mgr_debug st, sections_of st) =
      Some (fst (log_step (Log_close ob env) ls), st1)" "log_rel st1 (snd (log_step (Log_close ob env) ls))"
    using close_refines [of ob env] ls unfolding refines_step_def by blast
  then obtain rc dbg where "co_debug_fold env (mgr_debug st) s = Some (rc, dbg)" "st1 = (dbg, (sections_of st)(ob := None))"
    using s by auto
  then show ?thesis using inv_section [OF inv ob(1)] st1(2) by blast
qed

text \<open>A descriptor without references is freed.\<close>

lemma inv_remove:
  assumes inv: "refs_inv H HM X D E st" and ob: "opens_at st ob = Some d" "od_monitor d = None" "od_section d = None" "ob \<in> X"
  shows "refs_inv H HM (X - {ob}) D E
    (st\<lparr>mgr_opens := remove1 ob (mgr_opens st), num_opens := num_opens st - 1, opens_at := (opens_at st)(ob := None)\<rparr>)"
    (is "refs_inv H HM _ D E ?st")
proof -
  have zero: "H ob = 0" "slots_of st ob = 0" using inv_open(2) [OF inv ob(1)] ob(4) by simp_all
  have sections: "sections_of ?st = sections_of st" using ob(1,3) by (auto simp: sections_of_def fun_eq_iff)
  have users: "users D ?st = users D st" using ob(1,2) by (auto simp: users_def fun_eq_iff)
  have slots: "slots_of ?st = slots_of st" by (simp add: slots_of_def fun_eq_iff)
  have "opens_ok H (X - {ob}) ?st" using inv zero slots by (auto simp: refs_inv_def opens_ok_def)
  moreover have "monitor_ok HM D E ?st m mon" if "monitors_at ?st m = Some mon" for m mon
  proof -
    have "ob \<notin> users D st m" using ob(1,2) by (simp add: users_def)
    then have "settled D st m mon \<Longrightarrow> settled D ?st m mon" unfolding settled_def users by (auto split: if_splits)
    then show ?thesis using inv_monitor [OF inv, of m mon] that by (auto simp: monitor_ok_settled users)
  qed
  moreover have "links_ok H HM D E ?st" using inv by (simp add: refs_inv_def links_ok_def users)
  moreover have "lists_ok ?st"
  proof -
    have in_list: "ob \<in> set (mgr_opens st)" using inv_lists [OF inv] ob(1) by (auto simp: lists_ok_def)
    have "\<exists>ls. log_rel (mgr_debug ?st, sections_of ?st) ls"
      unfolding sections using inv_lists [OF inv] by (simp add: lists_ok_def)
    then show ?thesis
      using inv_lists [OF inv] length_remove1_int [OF in_list] unfolding lists_ok_def by auto
  qed
  ultimately show ?thesis by (simp add: refs_inv_def)
qed

end
