(* ===== verification/Manager_Close.thy ===== *)
theory Manager_Close
  imports Manager_Refs
begin

text \<open>
  Closing a descriptor keeps the reference counts of \<open>Manager_Refs\<close>. Closing calls itself through
  the monitor it may take down and through the modules that are connected there; what each function
  relies on in the call is the locale \<open>closing_call\<close>, which \<open>co_manager_close\<close> interprets at
  every depth above the number of references.
\<close>

section \<open>What closing leaves alone\<close>

definition refs_left :: "co_manager \<Rightarrow> nat" where
  "refs_left st = (\<Sum>ob \<in> dom (opens_at st). nat (od_refs (the (opens_at st ob))))"

text \<open>Closing frees and forgets: it makes no reference and gives nobody a monitor. The descriptors
  in \<open>X\<close> are those that some caller is freeing.\<close>

definition opens_shrink :: "(open_id \<Rightarrow> nat) \<Rightarrow> open_id set \<Rightarrow> co_manager \<Rightarrow> co_manager \<Rightarrow> bool" where
  "opens_shrink H X st st' \<longleftrightarrow>
     (\<forall>ob \<in> X. opens_at st' ob = opens_at st ob) \<and>
     (\<forall>ob d'. opens_at st' ob = Some d' \<longrightarrow> (\<exists>d. opens_at st ob = Some d \<and> (od_monitor d' = None \<or> od_monitor d' = od_monitor d))) \<and>
     (\<forall>ob d. 0 < H ob \<longrightarrow> opens_at st ob = Some d \<longrightarrow>
        (\<exists>d'. opens_at st' ob = Some d' \<and> od_monitor d' = od_monitor d \<and> od_owner d' = od_owner d \<and> od_section d' = od_section d))"

definition monitor_shrinks :: "co_monitor_refs \<Rightarrow> co_monitor_refs \<Rightarrow> bool" where
  "monitor_shrinks mon mon' \<longleftrightarrow>
     length (mon_modules mon') = length (mon_modules mon) \<and> (mon_listed mon' \<longrightarrow> mon_listed mon) \<and> mon_id mon' = mon_id mon \<and>
     (\<forall>i < length (mon_modules mon). mon_modules mon' ! i = None \<or> mon_modules mon' ! i = mon_modules mon ! i)"

definition monitors_shrink :: "co_manager \<Rightarrow> co_manager \<Rightarrow> bool" where
  "monitors_shrink st st' \<longleftrightarrow>
     (\<forall>m mon'. monitors_at st' m = Some mon' \<longrightarrow> (\<exists>mon. monitors_at st m = Some mon \<and> monitor_shrinks mon mon'))"

definition after_close :: "(open_id \<Rightarrow> nat) \<Rightarrow> open_id set \<Rightarrow> co_manager \<Rightarrow> co_manager \<Rightarrow> bool" where
  "after_close H X st st' \<longleftrightarrow> opens_shrink H X st st' \<and> monitors_shrink st st' \<and> refs_left st' \<le> refs_left st"

lemma monitor_shrinks_refl [simp]: "monitor_shrinks mon mon"
  by (simp add: monitor_shrinks_def)

lemma monitor_shrinks_trans:
  assumes "monitor_shrinks a b" and "monitor_shrinks b c"
  shows "monitor_shrinks a c"
proof -
  have "mon_modules c ! i = None \<or> mon_modules c ! i = mon_modules a ! i" if i: "i < length (mon_modules a)" for i
    using assms i unfolding monitor_shrinks_def by metis
  then show ?thesis using assms unfolding monitor_shrinks_def by simp
qed

lemma monitors_shrink_trans: "monitors_shrink a b \<Longrightarrow> monitors_shrink b c \<Longrightarrow> monitors_shrink a c"
  unfolding monitors_shrink_def by (meson monitor_shrinks_trans)

lemma opens_shrink_trans:
  assumes "opens_shrink H X st st1" and "opens_shrink H X st1 st2"
  shows "opens_shrink H X st st2"
proof -
  have "\<exists>d'. opens_at st2 ob = Some d' \<and> od_monitor d' = od_monitor d \<and> od_owner d' = od_owner d \<and> od_section d' = od_section d"
    if h: "0 < H ob" and ob: "opens_at st ob = Some d" for ob d
  proof -
    obtain d1 where "opens_at st1 ob = Some d1" "od_monitor d1 = od_monitor d" "od_owner d1 = od_owner d" "od_section d1 = od_section d"
      using assms(1) h ob unfolding opens_shrink_def by blast
    moreover from this(1) obtain d2 where "opens_at st2 ob = Some d2" "od_monitor d2 = od_monitor d1" "od_owner d2 = od_owner d1"
        "od_section d2 = od_section d1"
      using assms(2) h unfolding opens_shrink_def by blast
    ultimately show ?thesis by simp
  qed
  moreover have "\<exists>d. opens_at st ob = Some d \<and> (od_monitor d2 = None \<or> od_monitor d2 = od_monitor d)"
    if ob: "opens_at st2 ob = Some d2" for ob d2
  proof -
    obtain d1 where d1: "opens_at st1 ob = Some d1" "od_monitor d2 = None \<or> od_monitor d2 = od_monitor d1"
      using assms(2) ob unfolding opens_shrink_def by blast
    then obtain d where "opens_at st ob = Some d" "od_monitor d1 = None \<or> od_monitor d1 = od_monitor d"
      using assms(1) unfolding opens_shrink_def by blast
    then show ?thesis using d1 by auto
  qed
  moreover have "\<forall>ob \<in> X. opens_at st2 ob = opens_at st ob" using assms by (simp add: opens_shrink_def)
  ultimately show ?thesis unfolding opens_shrink_def by blast
qed

lemma after_close_refl [simp]: "after_close H X st st"
  by (auto simp: after_close_def opens_shrink_def monitors_shrink_def)

lemma after_close_trans: "after_close H X st st1 \<Longrightarrow> after_close H X st1 st2 \<Longrightarrow> after_close H X st st2"
  unfolding after_close_def using opens_shrink_trans monitors_shrink_trans order_trans by blast

lemma after_close_mono:
  "after_close H' X' st st' \<Longrightarrow> (\<And>ob. 0 < H ob \<Longrightarrow> 0 < H' ob) \<Longrightarrow> X \<subseteq> X' \<Longrightarrow> after_close H X st st'"
  unfolding after_close_def opens_shrink_def by blast

text \<open>The steps of which closing consists.\<close>

lemma refs_left_write:
  assumes "opens_at st ob = Some d" and "od_refs d' \<le> od_refs d"
  shows "refs_left (st\<lparr>opens_at := (opens_at st)(ob \<mapsto> d')\<rparr>) \<le> refs_left st"
proof -
  have "dom ((opens_at st)(ob \<mapsto> d')) = dom (opens_at st)" using assms(1) by auto
  then show ?thesis using assms by (auto simp: refs_left_def intro!: sum_mono)
qed

lemma after_close_write:
  assumes "opens_at st ob = Some d" and "ob \<notin> X" and "od_refs d' \<le> od_refs d"
    and "od_monitor d' = None \<or> od_monitor d' = od_monitor d"
    and "0 < H ob \<Longrightarrow> od_monitor d' = od_monitor d \<and> od_owner d' = od_owner d \<and> od_section d' = od_section d"
  shows "after_close H X st (st\<lparr>opens_at := (opens_at st)(ob \<mapsto> d')\<rparr>)"
  using assms refs_left_write [OF assms(1,3)] unfolding after_close_def opens_shrink_def monitors_shrink_def by auto

lemma after_close_monitor:
  assumes "opens_at st' = opens_at st" and "monitors_at st m = Some mon"
    and "monitors_at st' = (monitors_at st)(m := None) \<or> (\<exists>mon'. monitors_at st' = (monitors_at st)(m \<mapsto> mon') \<and> monitor_shrinks mon mon')"
  shows "after_close H X st st'"
  using assms unfolding after_close_def opens_shrink_def monitors_shrink_def refs_left_def by (auto split: if_splits)

lemma after_close_update:
  assumes "monitors_at st m = Some mon" and "monitors_at st' = (monitors_at st)(m \<mapsto> mon')" and "monitor_shrinks mon mon'"
    and "opens_at st' = opens_at st"
  shows "after_close H X st st'"
  by (rule after_close_monitor [OF assms(4,1)]) (use assms(2,3) in blast)

lemma monitor_shrinks_clear: "monitor_shrinks mon (mon\<lparr>mon_modules := (mon_modules mon)[i := None]\<rparr>)"
proof -
  have "(mon_modules mon)[i := None] ! j = None \<or> (mon_modules mon)[i := None] ! j = mon_modules mon ! j"
    if "j < length (mon_modules mon)" for j
    using that by (cases "i = j") simp_all
  then show ?thesis by (simp add: monitor_shrinks_def)
qed

lemma after_close_monitor_was:
  assumes "after_close H X st st'" and "monitors_at st' m = Some mon'"
  obtains mon where "monitors_at st m = Some mon" and "monitor_shrinks mon mon'"
  using assms unfolding after_close_def monitors_shrink_def by blast

section \<open>The contract of the call\<close>

locale closing_call =
  fixes close :: "open_id \<Rightarrow> co_manager \<Rightarrow> co_manager option" and bound :: nat
  assumes close_ok:
    "refs_inv H HM X D E st \<Longrightarrow> 0 < H ob \<Longrightarrow> (ob \<in> D \<Longrightarrow> 1 < H ob) \<Longrightarrow> refs_left st < bound \<Longrightarrow>
      \<exists>st'. close ob st = Some st' \<and> refs_inv (H(ob := H ob - 1)) HM X D E st' \<and> after_close (H(ob := H ob - 1)) X st st'"
begin

text \<open>One entry of the connected modules is cleared and closed.\<close>

lemma clear_close_ok:
  assumes inv: "refs_inv H HM X D E st" and m: "monitors_at st m = Some mon"
    and i: "i < CO_MONITOR_MODULES_COUNT" "mon_modules mon ! i = Some ob" and bound: "refs_left st < bound"
  shows "\<exists>st1 st2. with_monitor m (\<lambda>mon. mon\<lparr>mon_modules := (mon_modules mon)[i := None]\<rparr>) st = Some st1 \<and> close ob st1 = Some st2 \<and>
    refs_inv H HM X D E st2 \<and> after_close H X st st2 \<and>
    (\<forall>mon'. monitors_at st2 m = Some mon' \<longrightarrow> mon_modules mon' ! i = None)"
proof -
  have len: "i < length (mon_modules mon)" using i(1) inv_monitor [OF inv m] by (simp add: monitor_ok_def)
  let ?mon = "mon\<lparr>mon_modules := (mon_modules mon)[i := None]\<rparr>"
  let ?st1 = "st\<lparr>monitors_at := (monitors_at st)(m \<mapsto> ?mon)\<rparr>"
  have Dok: "ob \<in> D \<longrightarrow> 0 < H ob" using inv by (simp add: refs_inv_def links_ok_def)
  have inv1: "refs_inv (H(ob := H ob + 1)) HM X D E ?st1" by (rule inv_slot_clear [OF inv m i])
  have left1: "refs_left ?st1 < bound" using bound by (simp add: refs_left_def)
  obtain st2 where st2: "close ob ?st1 = Some st2" "refs_inv H HM X D E st2" "after_close H X ?st1 st2"
    using close_ok [OF inv1, of ob] Dok left1 by auto
  have "after_close H X st ?st1"
    by (rule after_close_update [of _ m mon _ ?mon]) (use m monitor_shrinks_clear in simp_all)
  then have after: "after_close H X st st2" using st2(3) after_close_trans by blast
  have "mon_modules mon' ! i = None" if "monitors_at st2 m = Some mon'" for mon'
  proof -
    have "monitor_shrinks ?mon mon'" using after_close_monitor_was [OF st2(3) that] by auto
    then show ?thesis using len by (simp add: monitor_shrinks_def) (metis nth_list_update_eq)
  qed
  then show ?thesis using st2 after m by (simp add: with_monitor_def)
qed

text \<open>One entry gets its end of file and is closed.\<close>

lemma end_message_ok:
  assumes inv: "refs_inv H HM X D E st" and m: "monitors_at st m = Some mon"
    and i: "i < CO_MONITOR_MODULES_COUNT" "mon_modules mon ! i = Some ob" and bound: "refs_left st < bound"
  shows "\<exists>st1 st2 st3. co_manager_send_eof ob st = Some st1 \<and>
    with_monitor m (\<lambda>mon. mon\<lparr>mon_modules := (mon_modules mon)[i := None]\<rparr>) st1 = Some st2 \<and> close ob st2 = Some st3 \<and>
    refs_inv H HM X D E st3 \<and> after_close H X st st3 \<and>
    (\<forall>mon'. monitors_at st3 m = Some mon' \<longrightarrow> mon_modules mon' ! i = None)"
proof -
  have len: "i < length (mon_modules mon)" using i(1) inv_monitor [OF inv m] by (simp add: monitor_ok_def)
  have slots: "0 < slots_of st ob"
  proof -
    have "0 < count_list (mon_modules mon) (Some ob)" using len i(2) by (metis count_list_0_iff gr0I nth_mem)
    moreover have "m \<in> dom (monitors_at st)" using m by auto
    ultimately show ?thesis using inv_finite [OF inv] m by (simp add: slots_of_def sum.remove [of _ m])
  qed
  then obtain d where d: "opens_at st ob = Some d" using inv_alive [OF inv, of ob] by blast
  let ?d = "d\<lparr>od_active := False\<rparr>"
  let ?st1 = "st\<lparr>opens_at := (opens_at st)(ob \<mapsto> ?d)\<rparr>"
  have notX: "ob \<notin> X" using inv_open(2) [OF inv d] slots by simp
  have "ob \<in> D \<longrightarrow> 0 < H ob" using inv by (simp add: refs_inv_def links_ok_def)
  then have inv1: "refs_inv H HM X D E ?st1"
    using inv_open_write [OF inv d, of ?d "H ob"] inv_open(1) [OF inv d] slots notX by simp
  have after1: "after_close H X st ?st1" by (rule after_close_write [OF d notX]) simp_all
  then have "refs_left ?st1 < bound" using bound by (simp add: after_close_def)
  then obtain st2 st3 where "with_monitor m (\<lambda>mon. mon\<lparr>mon_modules := (mon_modules mon)[i := None]\<rparr>) ?st1 = Some st2"
      "close ob st2 = Some st3" "refs_inv H HM X D E st3" "after_close H X ?st1 st3"
      "\<forall>mon'. monitors_at st3 m = Some mon' \<longrightarrow> mon_modules mon' ! i = None"
    using clear_close_ok [OF inv1 _ i, of m] m by auto
  moreover have "co_manager_send_eof ob st = Some ?st1" using d by (simp add: co_manager_send_eof_def with_open_def)
  ultimately show ?thesis using after_close_trans [OF after1] by blast
qed

lemma end_messages_ok:
  assumes "refs_inv H HM X D E st" and "0 < HM m" and "set is \<subseteq> {..<CO_MONITOR_MODULES_COUNT}" and "refs_left st < bound"
  shows "\<exists>st'. send_monitor_end_messages close m is st = Some st' \<and> refs_inv H HM X D E st' \<and> after_close H X st st' \<and>
    (\<forall>mon i. monitors_at st' m = Some mon \<longrightarrow> i \<in> set is \<longrightarrow> mon_modules mon ! i = None)"
  using assms
proof (induction "is" arbitrary: st)
  case Nil
  then show ?case by simp
next
  case (Cons i "is")
  obtain mon where m: "monitors_at st m = Some mon" using inv_monitor_alive [OF Cons.prems(1), of m] Cons.prems(2) by blast
  obtain st1 where st1: "send_monitor_end_messages close m (i # is) st = send_monitor_end_messages close m is st1"
      "refs_inv H HM X D E st1" "after_close H X st st1" "\<forall>mon. monitors_at st1 m = Some mon \<longrightarrow> mon_modules mon ! i = None"
  proof (cases "mon_modules mon ! i")
    case None
    then show ?thesis using m Cons.prems(1) by (intro that [of st]) simp_all
  next
    case (Some ob)
    then show ?thesis
      using end_message_ok [OF Cons.prems(1) m _ Some] Cons.prems(3,4) m by (auto intro!: that)
  qed
  have "refs_left st1 < bound" using st1(3) Cons.prems(4) by (simp add: after_close_def)
  then obtain st' where st': "send_monitor_end_messages close m is st1 = Some st'" "refs_inv H HM X D E st'" "after_close H X st1 st'"
      "\<forall>mon i. monitors_at st' m = Some mon \<longrightarrow> i \<in> set is \<longrightarrow> mon_modules mon ! i = None"
    using Cons.IH [OF st1(2) Cons.prems(2)] Cons.prems(3) by auto
  have "mon_modules mon' ! i = None" if mon': "monitors_at st' m = Some mon'" for mon'
  proof -
    obtain mon1 where mon1: "monitors_at st1 m = Some mon1" "monitor_shrinks mon1 mon'"
      using after_close_monitor_was [OF st'(3) mon'] by blast
    moreover have "i < length (mon_modules mon1)"
      using inv_monitor [OF st1(2) mon1(1)] Cons.prems(3) by (simp add: monitor_ok_def)
    ultimately show ?thesis using st1(4) unfolding monitor_shrinks_def by metis
  qed
  then show ?case using st1 st' after_close_trans by auto
qed

end

context closing_call begin

text \<open>What the owner does before it drops its reference: it takes the monitor off the list and
  ends the modules.\<close>

lemma take_down_ok:
  assumes inv: "refs_inv H HM X D E st" and m: "0 < HM m" "m \<in> E" and bound: "refs_left st < bound"
    and mon: "monitors_at st m = Some mon"
  shows "\<exists>st1 st2. (if mon_listed mon
        then with_monitor m (\<lambda>mon. mon\<lparr>mon_listed := False\<rparr>)
          (st\<lparr>monitors_count := monitors_count st - 1, mgr_monitors := remove1 m (mgr_monitors st)\<rparr>)
        else Some st) = Some st1 \<and>
     send_monitor_end_messages close m [0..<CO_MONITOR_MODULES_COUNT] st1 = Some st2 \<and>
     refs_inv H HM X D E st2 \<and> after_close H X st st2 \<and>
     (\<forall>mon. monitors_at st2 m = Some mon \<longrightarrow> \<not> mon_listed mon \<and> (\<forall>x \<in> set (mon_modules mon). x = None))"
proof -
  let ?unlisted = "st\<lparr>monitors_count := monitors_count st - 1, mgr_monitors := remove1 m (mgr_monitors st),
    monitors_at := (monitors_at st)(m \<mapsto> mon\<lparr>mon_listed := False\<rparr>)\<rparr>"
  obtain st1 where st1: "(if mon_listed mon
        then with_monitor m (\<lambda>mon. mon\<lparr>mon_listed := False\<rparr>)
          (st\<lparr>monitors_count := monitors_count st - 1, mgr_monitors := remove1 m (mgr_monitors st)\<rparr>)
        else Some st) = Some st1" "refs_inv H HM X D E st1" "after_close H X st st1"
      "\<forall>mon'. monitors_at st1 m = Some mon' \<longrightarrow> \<not> mon_listed mon'"
  proof (cases "mon_listed mon")
    case True
    have "after_close H X st ?unlisted"
      by (rule after_close_update [OF mon, of _ "mon\<lparr>mon_listed := False\<rparr>"]) (simp_all add: monitor_shrinks_def)
    then show ?thesis using True inv_unlist [OF inv mon True m(2)] mon
      by (intro that [of ?unlisted]) (simp_all add: with_monitor_def)
  next
    case False
    then show ?thesis using inv mon by (intro that [of st]) simp_all
  qed
  have bound1: "refs_left st1 < bound" using st1(3) bound by (simp add: after_close_def)
  obtain st2 where st2: "send_monitor_end_messages close m [0..<CO_MONITOR_MODULES_COUNT] st1 = Some st2" "refs_inv H HM X D E st2"
      "after_close H X st1 st2"
      "\<forall>mon i. monitors_at st2 m = Some mon \<longrightarrow> i \<in> set [0..<CO_MONITOR_MODULES_COUNT] \<longrightarrow> mon_modules mon ! i = None"
    using end_messages_ok [OF st1(2) m(1) _ bound1, of "[0..<CO_MONITOR_MODULES_COUNT]"] by (auto simp: subset_iff)
  have "\<not> mon_listed mon' \<and> (\<forall>x \<in> set (mon_modules mon'). x = None)" if mon': "monitors_at st2 m = Some mon'" for mon'
  proof -
    have "length (mon_modules mon') = CO_MONITOR_MODULES_COUNT" using inv_monitor [OF st2(2) mon'] by (simp add: monitor_ok_def)
    then have "\<forall>x \<in> set (mon_modules mon'). x = None" using st2(4) mon' by (auto simp: in_set_conv_nth)
    moreover obtain mon1 where "monitors_at st1 m = Some mon1" "monitor_shrinks mon1 mon'"
      using after_close_monitor_was [OF st2(3) mon'] .
    ultimately show ?thesis using st1(4) by (auto simp: monitor_shrinks_def)
  qed
  then show ?thesis using st1 st2 after_close_trans [OF st1(3) st2(3)] by blast
qed

lemma refdown_ok:
  assumes inv: "refs_inv H HM X D (if owner then insert m E' else E') st" and m: "(if m \<in> E' then 1 else 0) < HM m"
    and bound: "refs_left st < bound"
  shows "\<exists>st'. co_monitor_refdown close m owner st = Some st' \<and> refs_inv H (HM(m := HM m - 1)) X D E' st' \<and>
    after_close H X st st' \<and>
    (owner \<longrightarrow> (\<forall>mon. monitors_at st' m = Some mon \<longrightarrow> (\<forall>x \<in> set (mon_modules mon). x = None)))"
proof -
  have pos: "0 < HM m" using m by simp
  obtain mon where mon: "monitors_at st m = Some mon" using inv_monitor_alive [OF inv, of m] pos by blast
  have refs: "0 < mon_refs mon" using inv_monitor [OF inv mon] unfolding monitor_ok_def by linarith
  obtain st1 st2 where st2: "(if owner \<and> mon_listed mon
        then with_monitor m (\<lambda>mon. mon\<lparr>mon_listed := False\<rparr>)
          (st\<lparr>monitors_count := monitors_count st - 1, mgr_monitors := remove1 m (mgr_monitors st)\<rparr>)
        else Some st) = Some st1"
      "(if owner then send_monitor_end_messages close m [0..<CO_MONITOR_MODULES_COUNT] st1 else Some st1) = Some st2"
      "refs_inv H HM X D (if owner then insert m E' else E') st2" "after_close H X st st2"
      "owner \<longrightarrow> (\<forall>mon. monitors_at st2 m = Some mon \<longrightarrow> \<not> mon_listed mon \<and> (\<forall>x \<in> set (mon_modules mon). x = None))"
  proof (cases owner)
    case True
    then show ?thesis using take_down_ok [OF inv pos _ bound mon] by (auto intro: that)
  next
    case False
    then show ?thesis using inv by (intro that [of st st]) simp_all
  qed
  obtain mon2 where mon2: "monitors_at st2 m = Some mon2" using inv_monitor_alive [OF st2(3), of m] pos by blast
  let ?st3 = "st2\<lparr>monitors_at := (monitors_at st2)(m \<mapsto> mon2\<lparr>mon_refs := mon_refs mon2 - 1\<rparr>)\<rparr>"
  have settled: "settled D st2 m mon2" if "m \<notin> E'"
    using that st2(5) mon2 inv_monitor [OF st2(3) mon2] by (cases owner) (auto simp: settled_def monitor_ok_settled)
  have E: "(if owner then insert m E' else E') - {m} \<subseteq> E'" "E' \<subseteq> (if owner then insert m E' else E')" by auto
  note drop = inv_drop_monitor [OF st2(3) mon2, of E', OF E m settled refl]
  obtain mon3 where mon3: "monitors_at ?st3 m = Some mon3"
      "if mon_refs mon3 = 0 then \<exists>st'. co_monitor_destroy m ?st3 = Some st' \<and> refs_inv H (HM(m := HM m - 1)) X D E' st' \<and>
          monitors_at st' = (monitors_at st2)(m := None) \<and> opens_at st' = opens_at st2
       else refs_inv H (HM(m := HM m - 1)) X D E' ?st3"
    using drop by blast
  obtain st' where st': "(if mon_refs mon3 = 0 then co_monitor_destroy m ?st3 else Some ?st3) = Some st'"
      "refs_inv H (HM(m := HM m - 1)) X D E' st'" "after_close H X st2 st'"
      "\<forall>mon. monitors_at st' m = Some mon \<longrightarrow> mon_modules mon = mon_modules mon2"
  proof (cases "mon_refs mon3 = 0")
    case True
    then obtain st' where "co_monitor_destroy m ?st3 = Some st'" "refs_inv H (HM(m := HM m - 1)) X D E' st'"
        "monitors_at st' = (monitors_at st2)(m := None)" "opens_at st' = opens_at st2" using mon3(2) by auto
    then show ?thesis using True after_close_monitor [OF _ mon2, of st'] by (intro that [of st']) simp_all
  next
    case False
    have "after_close H X st2 ?st3"
      by (rule after_close_update [OF mon2, of _ "mon2\<lparr>mon_refs := mon_refs mon2 - 1\<rparr>"]) (simp_all add: monitor_shrinks_def)
    then show ?thesis using False mon3(2) by (intro that [of ?st3]) simp_all
  qed
  have "with_monitor m (\<lambda>mon. mon\<lparr>mon_refs := mon_refs mon - 1\<rparr>) st2 = Some ?st3" using mon2 by (simp add: with_monitor_def)
  then have "co_monitor_refdown close m owner st = Some st'"
    unfolding co_monitor_refdown_def using mon refs st2(1,2) mon3(1) st'(1) by (simp del: fun_upd_apply)
  moreover have "owner \<longrightarrow> (\<forall>mon. monitors_at st' m = Some mon \<longrightarrow> (\<forall>x \<in> set (mon_modules mon). x = None))"
    using st2(5) mon2 st'(4) by auto
  ultimately show ?thesis using st' after_close_trans [OF st2(4) st'(3)] by blast
qed

end

lemma finite_opens: "lists_ok st \<Longrightarrow> finite (dom (opens_at st))"
  unfolding lists_ok_def by (metis List.finite_set)

lemma after_close_remove:
  assumes "lists_ok st" and "H ob = 0" and "ob \<notin> X"
  shows "after_close H X st (st\<lparr>mgr_opens := remove1 ob (mgr_opens st), num_opens := num_opens st - 1,
    opens_at := (opens_at st)(ob := None)\<rparr>)" (is "after_close H X st ?st")
proof -
  have "refs_left ?st = (\<Sum>x \<in> dom (opens_at st) - {ob}. nat (od_refs (the (opens_at st x))))"
    by (auto simp: refs_left_def intro!: sum.cong)
  also have "\<dots> \<le> refs_left st"
    unfolding refs_left_def by (rule sum_mono2 [OF finite_opens [OF assms(1)]]) auto
  finally show ?thesis
    using assms(2,3) unfolding after_close_def opens_shrink_def monitors_shrink_def by auto
qed

lemma after_close_debug: "after_close H X st (st\<lparr>mgr_debug := dbg\<rparr>)"
  by (auto simp: after_close_def opens_shrink_def monitors_shrink_def refs_left_def)

lemma close_section_ok:
  assumes inv: "refs_inv H HM X D E st" and ob: "opens_at st ob = Some d" "ob \<notin> X'" "H ob = 0"
  shows "\<exists>st'. (case od_section d of
          None \<Rightarrow> Some st
        | Some s \<Rightarrow>
            Option.bind (co_debug_fold env (mgr_debug st) s) (\<lambda>(rc, dbg).
              with_open ob (\<lambda>d. d\<lparr>od_section := None\<rparr>) (st\<lparr>mgr_debug := dbg\<rparr>))) = Some st' \<and>
    refs_inv H HM X D E st' \<and> after_close H X' st st' \<and> opens_at st' ob = Some (d\<lparr>od_section := None\<rparr>)"
proof (cases "od_section d")
  case None
  then have "d\<lparr>od_section := None\<rparr> = d" by simp
  then show ?thesis using None inv ob by simp
next
  case (Some s)
  obtain rc dbg where fold: "co_debug_fold env (mgr_debug st) s = Some (rc, dbg)"
      "refs_inv H HM X D E (st\<lparr>mgr_debug := dbg, opens_at := (opens_at st)(ob \<mapsto> d\<lparr>od_section := None\<rparr>)\<rparr>)"
    using inv_fold [OF inv ob(1) Some] by blast
  have "after_close H X' (st\<lparr>mgr_debug := dbg\<rparr>)
      (st\<lparr>mgr_debug := dbg, opens_at := (opens_at (st\<lparr>mgr_debug := dbg\<rparr>))(ob \<mapsto> d\<lparr>od_section := None\<rparr>)\<rparr>)"
    by (rule after_close_write [of _ _ d]) (use ob in simp_all)
  then show ?thesis using fold Some ob(1) after_close_trans [OF after_close_debug] by (simp add: with_open_def)
qed

context closing_call begin

lemma close_monitor_ok:
  assumes inv: "refs_inv H HM (insert ob X) D E st" and d: "opens_at st ob = Some d" and ob: "ob \<notin> X" "ob \<notin> D" "H ob = 0"
    and bound: "refs_left st < bound"
  shows "\<exists>st'. (case od_monitor d of
        None \<Rightarrow> Some st
      | Some m \<Rightarrow> Option.bind (with_open ob (\<lambda>d. d\<lparr>od_monitor := None\<rparr>) st) (co_monitor_refdown close m (od_owner d))) = Some st' \<and>
    refs_inv H HM (insert ob X) D E st' \<and> after_close H X st st' \<and> opens_at st' ob = Some (d\<lparr>od_monitor := None\<rparr>)"
proof (cases "od_monitor d")
  case None
  then have "d\<lparr>od_monitor := None\<rparr> = d" by simp
  then show ?thesis using None inv d by simp
next
  case (Some m)
  let ?d = "d\<lparr>od_monitor := None\<rparr>"
  let ?st = "st\<lparr>opens_at := (opens_at st)(ob \<mapsto> ?d)\<rparr>" and ?HM = "HM(m := HM m + 1)"
  have detach: "refs_inv H ?HM (insert ob X) D (if od_owner d then insert m E else E) ?st"
    by (rule inv_detach [OF inv d Some ob(2)])
  have "m \<in> E \<longrightarrow> 0 < HM m" using inv by (simp add: refs_inv_def links_ok_def)
  then have held: "(if m \<in> E then 1 else 0) < ?HM m" by simp
  have cut: "after_close H X st ?st" by (rule after_close_write [OF d ob(1)]) (simp_all add: ob(3))
  then have "refs_left ?st < bound" using bound by (simp add: after_close_def)
  moreover have same: "?HM(m := ?HM m - 1) = HM" by auto
  ultimately obtain st1 where st1: "co_monitor_refdown close m (od_owner d) ?st = Some st1"
      "refs_inv H HM (insert ob X) D E st1" "after_close H (insert ob X) ?st st1"
    using refdown_ok [OF detach held, unfolded same] by blast
  have "opens_at st1 ob = Some ?d" using st1(3) by (simp add: after_close_def opens_shrink_def)
  moreover have "after_close H X ?st st1" by (rule after_close_mono [OF st1(3)]) auto
  ultimately show ?thesis using st1 Some d after_close_trans [OF cut] by (simp add: with_open_def)
qed

lemma close_last_ok:
  assumes inv: "refs_inv H HM (insert ob X) D E st" and ob: "ob \<notin> X" and bound: "refs_left st < bound"
  shows "\<exists>st'. co_manager_close_last env close ob st = Some st' \<and> refs_inv H HM X D E st' \<and> after_close H X st st'"
proof -
  obtain d where d: "opens_at st ob = Some d" using inv_alive [OF inv, of ob] by blast
  have unused: "H ob = 0" using inv_open(2) [OF inv d] by simp
  then have notD: "ob \<notin> D" using inv by (auto simp: refs_inv_def links_ok_def)
  obtain st1 where st1: "(case od_monitor d of
          None \<Rightarrow> Some st
        | Some m \<Rightarrow> Option.bind (with_open ob (\<lambda>d. d\<lparr>od_monitor := None\<rparr>) st) (co_monitor_refdown close m (od_owner d))) = Some st1"
      "refs_inv H HM (insert ob X) D E st1" "after_close H X st st1" "opens_at st1 ob = Some (d\<lparr>od_monitor := None\<rparr>)"
    using close_monitor_ok [OF inv d ob notD unused bound] by blast
  obtain st2 where st2: "(case od_section (d\<lparr>od_monitor := None\<rparr>) of
          None \<Rightarrow> Some st1
        | Some s \<Rightarrow>
            Option.bind (co_debug_fold env (mgr_debug st1) s) (\<lambda>(rc, dbg).
              with_open ob (\<lambda>d. d\<lparr>od_section := None\<rparr>) (st1\<lparr>mgr_debug := dbg\<rparr>))) = Some st2"
      "refs_inv H HM (insert ob X) D E st2" "after_close H X st1 st2"
      "opens_at st2 ob = Some (d\<lparr>od_monitor := None, od_section := None\<rparr>)"
    using close_section_ok [OF st1(2,4) ob unused] by blast
  let ?st = "st2\<lparr>mgr_opens := remove1 ob (mgr_opens st2), num_opens := num_opens st2 - 1, opens_at := (opens_at st2)(ob := None)\<rparr>"
  have "refs_inv H HM (insert ob X - {ob}) D E ?st" by (rule inv_remove [OF st2(2,4)]) simp_all
  moreover have "insert ob X - {ob} = X" using ob by simp
  moreover have "after_close H X st2 ?st"
    by (rule after_close_remove) (use inv_lists [OF st2(2)] unused ob in simp_all)
  moreover have "co_manager_close_last env close ob st = Some ?st"
    unfolding co_manager_close_last_def using d st1(1,4) st2(1) by simp
  ultimately show ?thesis using after_close_trans [OF st1(3)] after_close_trans [OF st2(3)] by auto
qed

text \<open>One level of the call: the contract holds one reference deeper.\<close>

lemma close_step_ok:
  assumes inv: "refs_inv H HM X D E st" and H: "0 < H ob" "ob \<in> D \<Longrightarrow> 1 < H ob" and bound: "refs_left st < Suc bound"
  shows "\<exists>st'. Option.bind (with_open ob (\<lambda>d. d\<lparr>od_refs := od_refs d - 1\<rparr>) st) (\<lambda>st.
      Option.bind (opens_at st ob) (\<lambda>d. if od_refs d = 0 then co_manager_close_last env close ob st else Some st)) = Some st' \<and>
    refs_inv (H(ob := H ob - 1)) HM X D E st' \<and> after_close (H(ob := H ob - 1)) X st st'"
proof -
  obtain d where d: "opens_at st ob = Some d" using inv_alive [OF inv, of ob] H(1) by blast
  let ?d = "d\<lparr>od_refs := od_refs d - 1\<rparr>" and ?H = "H(ob := H ob - 1)"
  let ?st = "st\<lparr>opens_at := (opens_at st)(ob \<mapsto> ?d)\<rparr>"
  have refs: "od_refs d = int (H ob + slots_of st ob)" "ob \<notin> X" using inv_open [OF inv d] H(1) by simp_all
  have left: "refs_left ?st < bound"
  proof -
    have dom: "dom (opens_at ?st) = dom (opens_at st)" "ob \<in> dom (opens_at st)" using d by auto
    have "refs_left ?st + 1 = refs_left st"
      unfolding refs_left_def dom(1) sum.remove [OF finite_opens [OF inv_lists [OF inv]] dom(2)]
      using d refs(1) H(1) by simp
    then show ?thesis using bound by simp
  qed
  have inv1: "refs_inv ?H HM (if H ob - 1 + slots_of st ob = 0 then insert ob X else X - {ob}) D E ?st"
    using inv_open_write [OF inv d, of ?d "H ob - 1"] refs(1) H by auto
  have after1: "after_close ?H X st ?st" by (rule after_close_write [OF d refs(2)]) simp_all
  have run: "with_open ob (\<lambda>d. d\<lparr>od_refs := od_refs d - 1\<rparr>) st = Some ?st" using d by (simp add: with_open_def)
  show ?thesis
  proof (cases "H ob - 1 + slots_of st ob = 0")
    case True
    then have inv2: "refs_inv ?H HM (insert ob X) D E ?st" using inv1 by simp
    have "od_refs ?d = 0" using True refs(1) H(1) by auto
    then show ?thesis using run close_last_ok [OF inv2 refs(2) left] after_close_trans [OF after1] by auto
  next
    case False
    then have "refs_inv ?H HM X D E ?st" using inv1 refs(2) unfolding if_not_P [OF False] by simp
    moreover have "od_refs ?d \<noteq> 0" using False refs(1) H(1) by auto
    ultimately show ?thesis using run after1 by simp
  qed
qed

end

lemma closing_call_at: "closing_call (co_manager_close env depth) depth"
proof (induction depth)
  case 0
  show ?case by unfold_locales simp
next
  case (Suc depth)
  show ?case by unfold_locales (simp only: co_manager_close.simps closing_call.close_step_ok [OF Suc])
qed

interpretation closing: closing_call "co_manager_close env depth" depth for env depth
  by (rule closing_call_at)

end
