(* ===== verification/Manager_Run.thy ===== *)
theory Manager_Run
  imports Manager_Close
begin

text \<open>
  The handlers of the manager, one after the other. The users hold handles; every handler keeps the
  reference counts exact, so that nothing is used after it was freed, and when the last handle is
  gone everything is freed.
\<close>

section \<open>New references\<close>

lemma inv_new_open:
  assumes inv: "refs_inv H HM X D E st" and ob: "ob = next_open st"
    and d: "od_refs d = 1" "od_monitor d = None" "od_section d = None"
  shows "H ob = 0" and "refs_inv (H(ob := 1)) HM X D E
    (st\<lparr>opens_at := (opens_at st)(ob \<mapsto> d), mgr_opens := ob # mgr_opens st, num_opens := num_opens st + 1, next_open := ob + 1\<rparr>)"
    (is "refs_inv _ _ _ _ _ ?st")
proof -
  have none: "opens_at st ob = None" using inv_lists [OF inv] ob unfolding lists_ok_def by blast
  then have zero: "H ob = 0" "slots_of st ob = 0" "ob \<notin> X" using inv by (auto simp: refs_inv_def opens_ok_def)
  then show "H ob = 0" by simp
  have notD: "ob \<notin> D" using inv zero(1) by (auto simp: refs_inv_def links_ok_def)
  have users: "users D ?st = users D st" using none d(2) by (auto simp: users_def fun_eq_iff)
  have sections: "sections_of ?st = sections_of st" using none d(3) by (auto simp: sections_of_def fun_eq_iff)
  have "opens_ok (H(ob := 1)) X ?st" using inv zero d(1) by (auto simp: refs_inv_def opens_ok_def)
  moreover have "monitor_ok HM D E ?st m mon" if "monitors_at ?st m = Some mon" for m mon
  proof -
    have "x \<noteq> ob" if "x \<in> users D st m" for x using that none by (auto simp: users_def)
    then have "settled D st m mon \<Longrightarrow> settled D ?st m mon" unfolding settled_def users by (auto split: if_splits)
    then show ?thesis using inv_monitor [OF inv, of m mon] that unfolding monitor_ok_settled users by auto
  qed
  moreover have "links_ok (H(ob := 1)) HM D E ?st" using inv unfolding refs_inv_def links_ok_def users by auto
  moreover have "lists_ok ?st"
  proof -
    have "\<exists>ls. log_rel (mgr_debug ?st, sections_of ?st) ls" unfolding sections using inv_lists [OF inv] by (simp add: lists_ok_def)
    then show ?thesis using inv_lists [OF inv] ob by (auto simp: lists_ok_def less_Suc_eq)
  qed
  ultimately show "refs_inv (H(ob := 1)) HM X D E ?st" by (simp add: refs_inv_def)
qed

text \<open>A descriptor without a monitor gets one.\<close>

lemma inv_attach:
  assumes inv: "refs_inv H HM X D E st" and ob: "opens_at st ob = Some d" "od_monitor d = None" "ob \<notin> D"
    and m: "monitors_at st m = Some mon"
  shows "refs_inv H HM X D E (st\<lparr>monitors_at := (monitors_at st)(m \<mapsto> mon\<lparr>mon_refs := mon_refs mon + 1\<rparr>),
    opens_at := (opens_at st)(ob \<mapsto> d\<lparr>od_monitor := Some m\<rparr>)\<rparr>)" (is "refs_inv _ _ _ _ _ ?st")
proof -
  have users: "users D ?st x = (if x = m then insert ob (users D st m) else users D st x)" for x
    using ob by (auto simp: users_def)
  have "ob \<notin> users D st m" using ob by (simp add: users_def)
  then have card: "card (users D ?st m) = Suc (card (users D st m))"
    using users [of m] finite_users [OF inv, of m] by simp
  have slots: "slots_of ?st = slots_of st"
    using slots_same [OF m, of "mon\<lparr>mon_refs := mon_refs mon + 1\<rparr>"] by simp
  have sections: "sections_of ?st = sections_of st" using ob(1) by (auto simp: sections_of_def fun_eq_iff)
  have owners: "od_owner (the (opens_at ?st x)) = od_owner (the (opens_at st x))" for x using ob(1) by simp
  have "opens_ok H X ?st" using inv ob(1) slots by (auto simp: refs_inv_def opens_ok_def)
  moreover have "monitor_ok HM D E ?st x mon'" if "monitors_at ?st x = Some mon'" for x mon'
  proof (cases "x = m")
    case True
    then have mon': "mon' = mon\<lparr>mon_refs := mon_refs mon + 1\<rparr>" using that by simp
    have "settled D st m mon \<Longrightarrow> settled D ?st m mon'"
      using users [of m] owners by (auto simp: settled_def mon' split: if_splits)
    then show ?thesis using inv_monitor [OF inv m] True card by (auto simp: monitor_ok_settled mon')
  next
    case False
    then have "users D ?st x = users D st x" using users by simp
    moreover from this have "settled D st x mon' \<Longrightarrow> settled D ?st x mon'" using owners unfolding settled_def by simp
    ultimately show ?thesis using inv_monitor [OF inv, of x mon'] that False by (auto simp: monitor_ok_settled)
  qed
  moreover have "links_ok H HM D E ?st" using inv m users by (auto simp: refs_inv_def links_ok_def)
  moreover have "lists_ok ?st"
  proof -
    have "\<exists>ls. log_rel (mgr_debug ?st, sections_of ?st) ls" unfolding sections using inv_lists [OF inv] by (simp add: lists_ok_def)
    then show ?thesis using inv_lists [OF inv] ob(1) m by (auto simp: lists_ok_def)
  qed
  ultimately show ?thesis by (simp add: refs_inv_def)
qed

text \<open>A descriptor becomes the owner of a new monitor.\<close>

lemma inv_create:
  assumes inv: "refs_inv H HM X D E st" and ob: "opens_at st ob = Some d" "od_monitor d = None" "ob \<notin> D"
    and m: "m = next_monitor st" and mon: "mon_refs mon = 1" "mon_listed mon" "mon_modules mon = replicate CO_MONITOR_MODULES_COUNT None"
  shows "refs_inv H HM X D E (st\<lparr>hostmem_used := w, monitors_count := monitors_count st + 1, mgr_monitors := m # mgr_monitors st,
    monitors_at := (monitors_at st)(m \<mapsto> mon), next_monitor := m + 1,
    opens_at := (opens_at st)(ob \<mapsto> d\<lparr>od_monitor := Some m, od_owner := True\<rparr>)\<rparr>)" (is "refs_inv _ _ _ _ _ ?st")
proof -
  have none: "monitors_at st m = None" using inv_lists [OF inv] m unfolding lists_ok_def by blast
  then have unused: "users D st m = {}" "HM m = 0" using inv by (auto simp: refs_inv_def links_ok_def)
  then have notE: "m \<notin> E" using inv by (auto simp: refs_inv_def links_ok_def)
  have unlisted: "m \<notin> set (mgr_monitors st)" using inv_lists [OF inv] none by (auto simp: lists_ok_def)
  have users: "users D ?st = (users D st)(m := {ob})"
    using ob unused(1) by (auto simp: users_def fun_eq_iff)
  have slots: "slots_of ?st = slots_of st"
  proof
    fix x
    have "count_list (mon_modules mon) (Some x) = 0" using mon(3) by (auto simp: count_list_0_iff)
    moreover have "m \<notin> dom (monitors_at st)" using none by auto
    ultimately show "slots_of ?st x = slots_of st x"
      using inv_finite [OF inv] by (auto simp: slots_of_def intro!: sum.cong)
  qed
  have sections: "sections_of ?st = sections_of st" using ob(1) by (auto simp: sections_of_def fun_eq_iff)
  have "opens_ok H X ?st" using inv ob(1) slots unfolding refs_inv_def opens_ok_def by auto
  moreover have "monitor_ok HM D E ?st x mon'" if "monitors_at ?st x = Some mon'" for x mon'
  proof (cases "x = m")
    case True
    then show ?thesis using that mon users unused unfolding monitor_ok_def by auto
  next
    case False
    have "od_owner (the (opens_at ?st y)) = od_owner (the (opens_at st y))" if "y \<in> users D st x" for y
      using that ob by (auto simp: users_def)
    then have "settled D st x mon' \<Longrightarrow> settled D ?st x mon'" using False unfolding settled_def users by (auto split: if_splits)
    then show ?thesis using inv_monitor [OF inv, of x mon'] that False unfolding monitor_ok_settled users by auto
  qed
  moreover have "links_ok H HM D E ?st" using inv unfolding refs_inv_def links_ok_def users by auto
  moreover have "lists_ok ?st"
  proof -
    have "\<exists>ls. log_rel (mgr_debug ?st, sections_of ?st) ls" unfolding sections using inv_lists [OF inv] by (simp add: lists_ok_def)
    then show ?thesis using inv_lists [OF inv] ob(1) m unlisted by (auto simp: lists_ok_def less_Suc_eq)
  qed
  ultimately show ?thesis by (simp add: refs_inv_def)
qed

text \<open>An entry of the connected modules is filled: the reference passes from the function to the table.\<close>

lemma inv_slot_fill:
  assumes inv: "refs_inv H HM X D E st" and m: "monitors_at st m = Some mon" "mon_listed mon \<or> m \<in> E"
    and i: "i < CO_MONITOR_MODULES_COUNT" "mon_modules mon ! i = None" and ob: "0 < H ob" "ob \<in> D \<longrightarrow> 1 < H ob"
  shows "refs_inv (H(ob := H ob - 1)) HM X D E
    (st\<lparr>monitors_at := (monitors_at st)(m \<mapsto> mon\<lparr>mon_modules := (mon_modules mon)[i := Some ob]\<rparr>)\<rparr>)" (is "refs_inv ?H HM X D E ?st")
proof -
  have len: "i < length (mon_modules mon)" using i(1) inv_monitor [OF inv m(1)] by (simp add: monitor_ok_def)
  have slots: "slots_of ?st x = slots_of st x + (if x = ob then 1 else 0)" for x
    using slots_update [OF inv_finite [OF inv] m(1), of "mon\<lparr>mon_modules := (mon_modules mon)[i := Some ob]\<rparr>" x]
      count_list_update [OF len, of "Some ob" "Some x"] i(2) by (auto split: if_splits)
  have sum: "?H x + slots_of ?st x = H x + slots_of st x" for x using slots [of x] ob(1) by auto
  have "opens_ok ?H X ?st"
    by (rule opens_ok_cong [of _ st _ H]) (use sum inv in \<open>simp_all add: refs_inv_def\<close>)
  moreover have "monitor_ok HM D E ?st m' mon'" if "monitors_at ?st m' = Some mon'" for m' mon'
  proof (cases "m' = m")
    case True
    then have "mon' = mon\<lparr>mon_modules := (mon_modules mon)[i := Some ob]\<rparr>" using that by simp
    then show ?thesis using inv_monitor [OF inv m(1)] True m(2) by (auto simp: monitor_ok_def)
  next
    case False
    then show ?thesis using inv_monitor [OF inv, of m' mon'] that by (simp add: monitor_ok_def)
  qed
  moreover have "links_ok ?H HM D E ?st" using inv m(1) ob by (auto simp: refs_inv_def links_ok_def)
  moreover have "lists_ok ?st" using inv_lists [OF inv] m(1) by (auto simp: lists_ok_def)
  ultimately show ?thesis by (simp add: refs_inv_def)
qed

section \<open>Attaching\<close>

text \<open>A descriptor that has a monitor has a handle, and its entries are in the table of that monitor;
  a descriptor whose monitor was closed may still be in a table.\<close>

definition attached_ok :: "(open_id \<Rightarrow> nat) \<Rightarrow> co_manager \<Rightarrow> bool" where
  "attached_ok H st \<longleftrightarrow>
     (\<forall>ob d. opens_at st ob = Some d \<longrightarrow> od_monitor d \<noteq> None \<longrightarrow> 0 < H ob) \<and>
     (\<forall>m mon i ob d. monitors_at st m = Some mon \<longrightarrow> i < length (mon_modules mon) \<longrightarrow> mon_modules mon ! i = Some ob \<longrightarrow>
        opens_at st ob = Some d \<longrightarrow> od_monitor d = None \<or> od_monitor d = Some m)"

lemma attached_after_close:
  assumes att: "attached_ok H st" and "after_close H' X st st'"
  shows "attached_ok H st'"
proof -
  have opens: "\<exists>d. opens_at st ob = Some d \<and> (od_monitor d' = None \<or> od_monitor d' = od_monitor d)"
    if "opens_at st' ob = Some d'" for ob d'
    using assms(2) that unfolding after_close_def opens_shrink_def by blast
  have "0 < H ob" if "opens_at st' ob = Some d'" "od_monitor d' \<noteq> None" for ob d'
    using opens [OF that(1)] that(2) att unfolding attached_ok_def by metis
  moreover have "od_monitor d' = None \<or> od_monitor d' = Some m"
    if mon': "monitors_at st' m = Some mon'" and i: "i < length (mon_modules mon')" "mon_modules mon' ! i = Some ob"
      and d': "opens_at st' ob = Some d'" for m mon' i ob d'
  proof -
    obtain mon where "monitors_at st m = Some mon" "i < length (mon_modules mon)" "mon_modules mon ! i = Some ob"
      using after_close_monitor_was [OF assms(2) mon'] i unfolding monitor_shrinks_def by (metis option.distinct(1))
    then show ?thesis using opens [OF d'] att unfolding attached_ok_def by metis
  qed
  ultimately show ?thesis unfolding attached_ok_def by blast
qed

text \<open>To close a descriptor that does not let a monitor go does not look at the monitors.\<close>

lemma close_simple:
  assumes "opens_at st ob = Some d" and "od_refs d \<noteq> 1 \<or> od_monitor d = None" and "co_manager_close env (Suc n) ob st = Some st'"
  shows "monitors_at st' = monitors_at st" and "mgr_monitors st' = mgr_monitors st"
    and "co_manager_close env (Suc n) ob (st\<lparr>monitors_at := ms\<rparr>) = Some (st'\<lparr>monitors_at := ms\<rparr>)"
  using assms
  by (auto simp: with_open_def co_manager_close_last_def bind_eq_Some_conv split: if_splits option.splits)

text \<open>The entry of the old descriptor goes with its reference.\<close>

lemma replace_old:
  assumes inv: "refs_inv H HM {} {} {} st" and att: "attached_ok H st" and m: "monitors_at st m = Some mon" "mon_listed mon"
    and i: "i < CO_MONITOR_MODULES_COUNT" and left: "refs_left st \<le> depth"
  shows "\<exists>st1. (case mon_modules mon ! i of None \<Rightarrow> Some st | Some old \<Rightarrow> co_manager_close env (Suc depth) old st) = Some st1 \<and>
    monitors_at st1 = monitors_at st \<and>
    (\<exists>st2. st2 = st1\<lparr>monitors_at := (monitors_at st)(m \<mapsto> mon\<lparr>mon_modules := (mon_modules mon)[i := None]\<rparr>)\<rparr> \<and>
      refs_inv H HM {} {} {} st2 \<and> after_close H {} st st2)"
proof (cases "mon_modules mon ! i")
  case None
  then have "mon\<lparr>mon_modules := (mon_modules mon)[i := None]\<rparr> = mon" by (simp add: list_update_same_conv list_update_id flip: None)
  then have "(monitors_at st)(m \<mapsto> mon\<lparr>mon_modules := (mon_modules mon)[i := None]\<rparr>) = monitors_at st" using m(1) by auto
  then show ?thesis using None inv m by simp
next
  case (Some old)
  let ?mon = "mon\<lparr>mon_modules := (mon_modules mon)[i := None]\<rparr>"
  let ?st = "st\<lparr>monitors_at := (monitors_at st)(m \<mapsto> ?mon)\<rparr>"
  have inv1: "refs_inv (H(old := H old + 1)) HM {} {} {} ?st" by (rule inv_slot_clear [OF inv m(1) i Some])
  then obtain d where d: "opens_at ?st old = Some d" using inv_alive [OF inv1, of old] by auto
  have "od_refs d \<noteq> 1 \<or> od_monitor d = None"
  proof (rule ccontr)
    assume one: "\<not> (od_refs d \<noteq> 1 \<or> od_monitor d = None)"
    then have "0 < H old" using att d unfolding attached_ok_def by auto
    then show False using inv_open(1) [OF inv1 d] one by simp
  qed
  note alone = close_simple [OF d this]
  have after1: "after_close H {} st ?st"
    by (rule after_close_update [OF m(1), of _ ?mon]) (simp_all add: monitor_shrinks_clear)
  then have "refs_left ?st < Suc depth" using left by (simp add: after_close_def)
  then obtain st2 where st2: "co_manager_close env (Suc depth) old ?st = Some st2" "refs_inv H HM {} {} {} st2" "after_close H {} ?st st2"
    using closing.close_ok [OF inv1, of old "Suc depth" env] by auto
  have "co_manager_close env (Suc depth) old st = Some (st2\<lparr>monitors_at := monitors_at st\<rparr>)"
    using alone(3) [OF st2(1), of "monitors_at st"] by simp
  moreover have "st2 = st2\<lparr>monitors_at := (monitors_at st)(m \<mapsto> ?mon)\<rparr>" using alone(1) [OF st2(1)] by simp
  ultimately show ?thesis using Some st2(2) after_close_trans [OF after1 st2(3)] m(1) by auto
qed

definition attaching :: "(open_id \<Rightarrow> nat) \<Rightarrow> open_id \<Rightarrow> monitor_id \<Rightarrow> co_manager \<Rightarrow> bool" where
  "attaching H ob m st \<longleftrightarrow>
     refs_inv H (\<lambda>_. 0) {} {} {} st \<and> attached_ok H st \<and> 0 < H ob \<and>
     (\<exists>d. opens_at st ob = Some d \<and> od_monitor d = Some m) \<and> (\<exists>mon. monitors_at st m = Some mon \<and> mon_listed mon)"

lemma refs_left_exact:
  assumes "lists_ok st" and "opens_at st ob = Some d"
  shows "refs_left (st\<lparr>opens_at := (opens_at st)(ob \<mapsto> d')\<rparr>) + nat (od_refs d) = refs_left st + nat (od_refs d')"
proof -
  have dom: "dom ((opens_at st)(ob \<mapsto> d')) = dom (opens_at st)" "ob \<in> dom (opens_at st)" using assms(2) by auto
  have others: "(\<Sum>x \<in> dom (opens_at st) - {ob}. nat (od_refs (the (((opens_at st)(ob \<mapsto> d')) x)))) =
      (\<Sum>x \<in> dom (opens_at st) - {ob}. nat (od_refs (the (opens_at st x))))"
    by (rule sum.cong) auto
  then show ?thesis
    using assms(2) sum.remove [OF finite_opens [OF assms(1)] dom(2), of "\<lambda>x. nat (od_refs (the (opens_at st x)))"]
      sum.remove [OF finite_opens [OF assms(1)] dom(2), of "\<lambda>x. nat (od_refs (the (((opens_at st)(ob \<mapsto> d')) x)))"] others
    unfolding refs_left_def
    by (simp add: insert_absorb [OF dom(2)])
qed

lemma attached_fill:
  assumes ok: "attached_ok H st" and d: "opens_at st ob = Some d" "od_monitor d = Some m" "od_monitor d' = od_monitor d"
    and m: "monitors_at st m = Some mon" "mon_modules mon' = (mon_modules mon)[i := Some ob]"
  shows "attached_ok H (st\<lparr>opens_at := (opens_at st)(ob \<mapsto> d'), monitors_at := (monitors_at st)(m \<mapsto> mon')\<rparr>)" (is "attached_ok H ?st")
proof -
  have "od_monitor y = None \<or> od_monitor y = Some x"
    if "monitors_at ?st x = Some xm" "j < length (mon_modules xm)" "mon_modules xm ! j = Some b" "opens_at ?st b = Some y" for x xm j b y
  proof (cases "x = m \<and> j = i")
    case True
    then have "b = ob" using that m(2) by auto
    then show ?thesis using that(4) d True by simp
  next
    case False
    note y = that(4)
    have "\<exists>xm'. monitors_at st x = Some xm' \<and> j < length (mon_modules xm') \<and> mon_modules xm' ! j = Some b"
      using False that m by (cases "x = m") auto
    then obtain xm' where "monitors_at st x = Some xm'" "j < length (mon_modules xm')" "mon_modules xm' ! j = Some b" by blast
    moreover obtain y' where "opens_at st b = Some y'" "od_monitor y' = od_monitor y" using y d by (cases "b = ob") auto
    ultimately show ?thesis using ok unfolding attached_ok_def by metis
  qed
  moreover have "0 < H b" if "opens_at ?st b = Some y" "od_monitor y \<noteq> None" for b y
    using that ok d unfolding attached_ok_def by (cases "b = ob") auto
  ultimately show ?thesis unfolding attached_ok_def by blast
qed

lemma attach_module_ok:
  assumes att: "attaching H ob m st" and module: "unat module < CO_MONITOR_MODULES_COUNT" and left: "refs_left st \<le> depth"
  shows "\<exists>st'. co_manager_attach_module env (Suc depth) ob m module st = Some st' \<and> attaching H ob m st' \<and> refs_left st' \<le> Suc (refs_left st)"
proof -
  obtain mon where mon: "monitors_at st m = Some mon" "mon_listed mon" using att by (auto simp: attaching_def)
  let ?i = "unat module"
  let ?clear = "mon\<lparr>mon_modules := (mon_modules mon)[?i := None]\<rparr>" and ?set = "mon\<lparr>mon_modules := (mon_modules mon)[?i := Some ob]\<rparr>"
  have inv: "refs_inv H (\<lambda>_. 0) {} {} {} st" and ok: "attached_ok H st" and H: "0 < H ob" using att by (auto simp: attaching_def)
  have len: "?i < length (mon_modules mon)" using inv_monitor [OF inv mon(1)] module by (simp add: monitor_ok_def)
  obtain st1 st2 where st1: "(case mon_modules mon ! ?i of None \<Rightarrow> Some st | Some old \<Rightarrow> co_manager_close env (Suc depth) old st) = Some st1"
      "monitors_at st1 = monitors_at st" and st2: "st2 = st1\<lparr>monitors_at := (monitors_at st)(m \<mapsto> ?clear)\<rparr>"
      "refs_inv H (\<lambda>_. 0) {} {} {} st2" "after_close H {} st st2"
    using replace_old [OF inv ok mon module left] by blast
  have ok2: "attached_ok H st2" by (rule attached_after_close [OF ok st2(3)])
  obtain d where d: "opens_at st2 ob = Some d" "od_monitor d = Some m"
    using att st2(3) unfolding attaching_def after_close_def opens_shrink_def by metis
  let ?d = "d\<lparr>od_refs := od_refs d + 1\<rparr>"
  let ?st3 = "st2\<lparr>opens_at := (opens_at st2)(ob \<mapsto> ?d)\<rparr>"
  let ?st4 = "?st3\<lparr>monitors_at := (monitors_at ?st3)(m \<mapsto> ?clear\<lparr>mon_modules := (mon_modules ?clear)[?i := Some ob]\<rparr>)\<rparr>"
  have m2: "monitors_at st2 m = Some ?clear" by (simp add: st2(1))
  have inv3: "refs_inv (H(ob := H ob + 1)) (\<lambda>_. 0) {} {} {} ?st3"
    using inv_open_write [OF st2(2) d(1), of ?d "H ob + 1"] inv_open(1) [OF st2(2) d(1)] by simp
  have "refs_inv ((H(ob := H ob + 1))(ob := (H(ob := H ob + 1)) ob - 1)) (\<lambda>_. 0) {} {} {} ?st4"
    by (rule inv_slot_fill [OF inv3]) (use m2 mon(2) module len in simp_all)
  then have inv4: "refs_inv H (\<lambda>_. 0) {} {} {} ?st4" by simp
  have "\<exists>mon. monitors_at ?st4 m = Some mon \<and> mon_listed mon" "\<exists>d. opens_at ?st4 ob = Some d \<and> od_monitor d = Some m"
    using mon(2) d by simp_all
  moreover have "attached_ok H ?st4"
    using attached_fill [OF ok2 d _ m2, of ?d "?clear\<lparr>mon_modules := (mon_modules ?clear)[?i := Some ob]\<rparr>" ?i] by simp
  ultimately have "attaching H ob m ?st4" using inv4 H by (simp add: attaching_def)
  moreover have "co_manager_attach_module env (Suc depth) ob m module st = Some ?st4"
    unfolding co_manager_attach_module_def using mon(1) len st1 d st2(1) by (simp add: with_monitor_def with_open_def)
  moreover have "refs_left ?st4 \<le> Suc (refs_left st)"
  proof -
    have "refs_left ?st4 = refs_left ?st3" by (simp add: refs_left_def)
    then show ?thesis
      using refs_left_exact [OF inv_lists [OF st2(2)] d(1), of ?d] inv_open(1) [OF st2(2) d(1)] st2(3)
      by (simp add: after_close_def nat_add_distrib)
  qed
  ultimately show ?thesis by blast
qed

lemma attach_modules_ok:
  assumes "attaching H ob m st" and "\<forall>module \<in> set modules. unat module < CO_MONITOR_MODULES_COUNT"
    and "refs_left st + length modules \<le> depth"
  shows "\<exists>st'. attach_modules env (Suc depth) ob m modules st = Some st' \<and> attaching H ob m st'"
  using assms
proof (induction modules arbitrary: st)
  case (Cons module modules)
  obtain st1 where "co_manager_attach_module env (Suc depth) ob m module st = Some st1" "attaching H ob m st1"
      "refs_left st1 \<le> Suc (refs_left st)"
    using attach_module_ok [OF Cons.prems(1), of module depth env] Cons.prems(2,3) by auto
  then show ?case using Cons.IH [of st1] Cons.prems(2,3) by simp
qed simp

text \<open>What holds between two handlers. \<open>U\<close> are the descriptors that users have open.\<close>

definition handles :: "open_id set \<Rightarrow> open_id \<Rightarrow> nat" where
  "handles U ob = (if ob \<in> U then 1 else 0)"

definition manager_ok :: "open_id set \<Rightarrow> co_manager \<Rightarrow> bool" where
  "manager_ok U st \<longleftrightarrow> refs_inv (handles U) (\<lambda>_. 0) {} {} {} st \<and> attached_ok (handles U) st"

text \<open>A descriptor is used for one monitor only, as the programs of \<open>user/\<close> use it.\<close>

definition unattached :: "co_manager \<Rightarrow> open_id \<Rightarrow> bool" where
  "unattached st ob \<longleftrightarrow> (\<exists>d. opens_at st ob = Some d \<and> od_monitor d = None) \<and> slots_of st ob = 0"

lemma manager_alive:
  assumes "manager_ok U st" and "ob \<in> U"
  obtains d where "opens_at st ob = Some d"
proof -
  have "refs_inv (handles U) (\<lambda>_. 0) {} {} {} st" using assms(1) by (simp add: manager_ok_def)
  moreover have "0 < handles U ob" using assms(2) by (simp add: handles_def)
  ultimately show thesis using inv_alive that by blast
qed

lemma not_in_slots:
  assumes "slots_of st ob = 0" and "finite (dom (monitors_at st))" and "monitors_at st m = Some mon" and "i < length (mon_modules mon)"
  shows "mon_modules mon ! i \<noteq> Some ob"
proof
  assume "mon_modules mon ! i = Some ob"
  then have "0 < count_list (mon_modules mon) (Some ob)" using assms(4) by (metis count_list_0_iff gr0I nth_mem)
  moreover have "m \<in> dom (monitors_at st)" using assms(3) by auto
  ultimately show False using assms(1-3) by (simp add: slots_of_def sum.remove [of _ m])
qed

text \<open>An unattached descriptor may get a monitor.\<close>

lemma attached_new:
  assumes ok: "attached_ok H st" and fin: "finite (dom (monitors_at st))" and ob: "slots_of st ob = 0" "0 < H ob"
    and m: "\<forall>mon'. monitors_at st' m = Some mon' \<longrightarrow> (\<forall>x \<in> set (mon_modules mon'). x = None) \<or>
        (\<exists>mon. monitors_at st m = Some mon \<and> mon_modules mon' = mon_modules mon)"
    and st': "monitors_at st' = (monitors_at st)(m := monitors_at st' m)" "opens_at st' = (opens_at st)(ob \<mapsto> d')"
  shows "attached_ok H st'"
proof -
  have "od_monitor y = None \<or> od_monitor y = Some x"
    if slot: "monitors_at st' x = Some xm" "j < length (mon_modules xm)" "mon_modules xm ! j = Some b" and y: "opens_at st' b = Some y"
    for x xm j b y
  proof -
    have "\<exists>xm'. monitors_at st x = Some xm' \<and> j < length (mon_modules xm') \<and> mon_modules xm' ! j = Some b"
    proof (cases "x = m")
      case True
      then show ?thesis using m slot by (metis nth_mem option.distinct(1))
    next
      case False
      then have "monitors_at st x = Some xm" using st'(1) slot(1) by (metis fun_upd_apply)
      then show ?thesis using slot by simp
    qed
    then obtain xm' where xm': "monitors_at st x = Some xm'" "j < length (mon_modules xm')" "mon_modules xm' ! j = Some b" by blast
    then have "b \<noteq> ob" using not_in_slots [OF ob(1) fin] by blast
    then have "opens_at st b = Some y" using y st'(2) by simp
    then show ?thesis using ok xm' unfolding attached_ok_def by metis
  qed
  moreover have "0 < H b" if "opens_at st' b = Some y" "od_monitor y \<noteq> None" for b y
    using that ok ob(2) st'(2) unfolding attached_ok_def by (cases "b = ob") auto
  ultimately show ?thesis unfolding attached_ok_def by blast
qed

lemma ioctl_attach_ok:
  assumes ok: "manager_ok U st" and ob: "ob \<in> U" "unattached st ob"
    and modules: "\<forall>module \<in> set modules. unat module < CO_MONITOR_MODULES_COUNT" "refs_left st + length modules \<le> depth"
  shows "\<exists>rc st'. ioctl_attach env (Suc depth) ob n modules st = Some (rc, st') \<and> manager_ok U st'"
proof -
  have inv: "refs_inv (handles U) (\<lambda>_. 0) {} {} {} st" and att: "attached_ok (handles U) st" using ok by (auto simp: manager_ok_def)
  obtain d where d: "opens_at st ob = Some d" "od_monitor d = None" using ob(2) by (auto simp: unattached_def)
  have free: "slots_of st ob = 0" "0 < handles U ob" using ob by (auto simp: unattached_def handles_def)
  show ?thesis
  proof (cases "List.find (\<lambda>m. map_option mon_id (monitors_at st m) = Some n) (mgr_monitors st)")
    case None
    have "d\<lparr>od_monitor := None\<rparr> = d" using d(2) by simp
    then have "st\<lparr>opens_at := (opens_at st)(ob \<mapsto> d\<lparr>od_monitor := None\<rparr>)\<rparr> = st" using d(1) by (simp add: fun_upd_idem)
    then show ?thesis using None d ok by (simp add: ioctl_attach_def with_open_def)
  next
    case (Some m)
    then have m: "m \<in> set (mgr_monitors st)" by (metis find_Some_iff nth_mem)
    then obtain mon where mon: "monitors_at st m = Some mon" using inv_lists [OF inv] by (auto simp: lists_ok_def)
    have listed: "mon_listed mon" using inv_monitor [OF inv mon] m by (simp add: monitor_ok_def)
    let ?mon = "mon\<lparr>mon_refs := mon_refs mon + 1\<rparr>" and ?d = "d\<lparr>od_monitor := Some m\<rparr>"
    let ?st = "st\<lparr>monitors_at := (monitors_at st)(m \<mapsto> ?mon), opens_at := (opens_at st)(ob \<mapsto> ?d)\<rparr>"
    have "refs_inv (handles U) (\<lambda>_. 0) {} {} {} ?st" by (rule inv_attach [OF inv d _ mon]) simp
    moreover have "attached_ok (handles U) ?st"
      by (rule attached_new [OF att inv_finite [OF inv] free, of _ m]) (use mon in simp_all)
    ultimately have "attaching (handles U) ob m ?st" using free(2) listed by (simp add: attaching_def)
    moreover have "refs_left ?st \<le> refs_left st"
      using refs_left_exact [OF inv_lists [OF inv] d(1), of ?d] by (simp add: refs_left_def)
    ultimately obtain st' where "attach_modules env (Suc depth) ob m modules ?st = Some st'" "attaching (handles U) ob m st'"
      using attach_modules_ok [of _ ob m ?st modules depth env] modules by auto
    then show ?thesis using Some mon d by (auto simp: ioctl_attach_def with_open_def with_monitor_def attaching_def manager_ok_def)
  qed
qed

section \<open>Opening and creating\<close>

lemma attached_mono: "attached_ok H st \<Longrightarrow> (\<And>ob. 0 < H ob \<Longrightarrow> 0 < H' ob) \<Longrightarrow> attached_ok H' st"
  unfolding attached_ok_def by blast

lemma open_ok:
  assumes ok: "manager_ok U st"
  shows "case co_manager_open block mutex userspace st of
     (rc, None, st') \<Rightarrow> st' = st \<and> \<not> CO_OK rc
   | (rc, Some ob, st') \<Rightarrow> ob \<notin> U \<and> manager_ok (insert ob U) st' \<and> CO_OK rc"
proof -
  have inv: "refs_inv (handles U) (\<lambda>_. 0) {} {} {} st" and att: "attached_ok (handles U) st" using ok by (auto simp: manager_ok_def)
  let ?d = "\<lparr>od_active = True, od_refs = 1, od_owner = False, od_monitor = None, od_queue = [], od_section = None\<rparr>"
  let ?ob = "next_open st"
  let ?st = "st\<lparr>opens_at := (opens_at st)(?ob \<mapsto> ?d), mgr_opens := ?ob # mgr_opens st, num_opens := num_opens st + 1,
    next_open := ?ob + 1\<rparr>"
  have new: "handles U ?ob = 0" "refs_inv ((handles U)(?ob := 1)) (\<lambda>_. 0) {} {} {} ?st"
    using inv_new_open [OF inv refl, of ?d] by simp_all
  have notU: "?ob \<notin> U" using new(1) by (simp add: handles_def split: if_splits)
  then have same: "(handles U)(?ob := 1) = handles (insert ?ob U)" by (auto simp: handles_def)
  have "attached_ok (handles (insert ?ob U)) ?st"
  proof -
    have "slots_of st ?ob = 0"
      using inv inv_lists [OF inv] unfolding refs_inv_def opens_ok_def lists_ok_def by (metis domIff less_irrefl)
    moreover have "attached_ok (handles (insert ?ob U)) st" by (rule attached_mono [OF att]) (simp add: handles_def split: if_splits)
    ultimately show ?thesis
      using inv_finite [OF inv] by (intro attached_new [of _ st ?ob ?st undefined ?d]) (simp_all add: handles_def)
  qed
  moreover have "refs_inv (handles (insert ?ob U)) (\<lambda>_. 0) {} {} {} ?st" using new(2) unfolding same .
  ultimately show ?thesis using notU by (simp add: co_manager_open_def manager_ok_def CO_OK_def Let_def)
qed


lemma create_frame:
  assumes "co_monitor_create ca ram_size st = (rc, held, st', new)"
  shows "case new of None \<Rightarrow> st' = st
     | Some m \<Rightarrow> m = next_monitor st \<and>
         (\<exists>mon w. mon_refs mon = 1 \<and> mon_listed mon \<and> mon_modules mon = replicate CO_MONITOR_MODULES_COUNT None \<and>
            st' = st\<lparr>hostmem_used := w, monitors_count := monitors_count st + 1, mgr_monitors := m # mgr_monitors st,
              monitors_at := (monitors_at st)(m \<mapsto> mon), next_monitor := m + 1\<rparr>)"
  using assms unfolding co_monitor_create_def Let_def
  by (auto split: if_splits intro!: exI [of _ "hostmem_used st + monitor_memory_size (hostmem_amount st) ram_size"]
      exI [of _ "\<lparr>mon_refs = 1, mon_listed = True, mon_id = ca_id ca,
        mon_modules = replicate CO_MONITOR_MODULES_COUNT None, mon_memory = monitor_memory_size (hostmem_amount st) ram_size\<rparr>"])

lemma create_ok:
  assumes ok: "manager_ok U st" and ob: "ob \<in> U" "unattached st ob"
  shows "\<exists>rc st'. ioctl_create ca ram_size ob st = Some (rc, st') \<and> manager_ok U st'"
proof -
  have inv: "refs_inv (handles U) (\<lambda>_. 0) {} {} {} st" and att: "attached_ok (handles U) st" using ok by (auto simp: manager_ok_def)
  obtain d where d: "opens_at st ob = Some d" "od_monitor d = None" using ob(2) by (auto simp: unattached_def)
  have free: "slots_of st ob = 0" "0 < handles U ob" using ob by (auto simp: unattached_def handles_def)
  obtain rc held st1 new where create: "co_monitor_create ca ram_size st = (rc, held, st1, new)" by (metis prod_cases4)
  show ?thesis
  proof (cases new)
    case None
    then have "st1 = st" using create_frame [OF create] by simp
    then show ?thesis using None create d ok by (simp add: ioctl_create_def)
  next
    case (Some m)
    obtain mon w where m: "m = next_monitor st" and mon: "mon_refs mon = 1" "mon_listed mon"
        "mon_modules mon = replicate CO_MONITOR_MODULES_COUNT None"
      and st1: "st1 = st\<lparr>hostmem_used := w, monitors_count := monitors_count st + 1, mgr_monitors := m # mgr_monitors st,
        monitors_at := (monitors_at st)(m \<mapsto> mon), next_monitor := m + 1\<rparr>"
      using create_frame [OF create] Some by auto
    let ?st = "st1\<lparr>opens_at := (opens_at st)(ob \<mapsto> d\<lparr>od_monitor := Some m, od_owner := True\<rparr>)\<rparr>"
    have "refs_inv (handles U) (\<lambda>_. 0) {} {} {} ?st"
      unfolding st1 by (rule inv_create [OF inv d _ m mon]) simp
    moreover have "attached_ok (handles U) ?st"
      by (rule attached_new [OF att inv_finite [OF inv] free, of _ m]) (auto simp: st1 mon(3))
    ultimately show ?thesis using Some create d by (simp add: ioctl_create_def with_open_def manager_ok_def st1)
  qed
qed

section \<open>Closing a monitor\<close>

text \<open>A descriptor without a monitor and one whose pointer does not count any more are the same to
  the invariant.\<close>

lemma opens_ok_cases:
  "opens_ok H X st \<longleftrightarrow>
     (\<forall>x. case opens_at st x of None \<Rightarrow> H x = 0 \<and> slots_of st x = 0 \<and> x \<notin> X
        | Some d \<Rightarrow> od_refs d = int (H x + slots_of st x) \<and> (x \<in> X \<longleftrightarrow> H x + slots_of st x = 0))"
  unfolding opens_ok_def by (auto split: option.splits)

lemma detach_iff:
  assumes ob: "opens_at st ob = Some d" "0 < H ob"
    and d': "od_monitor d' = None" "od_refs d' = od_refs d" "od_section d' = od_section d"
  shows "refs_inv H HM X D E (st\<lparr>opens_at := (opens_at st)(ob \<mapsto> d')\<rparr>) \<longleftrightarrow> refs_inv H HM X (insert ob D) E st"
proof -
  let ?st = "st\<lparr>opens_at := (opens_at st)(ob \<mapsto> d')\<rparr>"
  have users: "users D ?st = users (insert ob D) st" using d'(1) by (auto simp: users_def fun_eq_iff)
  have sections: "sections_of ?st = sections_of st" by (rule sections_same [OF ob(1) d'(3)])
  have "(case opens_at ?st x of None \<Rightarrow> H x = 0 \<and> slots_of st x = 0 \<and> x \<notin> X
        | Some d \<Rightarrow> od_refs d = int (H x + slots_of st x) \<and> (x \<in> X \<longleftrightarrow> H x + slots_of st x = 0)) =
      (case opens_at st x of None \<Rightarrow> H x = 0 \<and> slots_of st x = 0 \<and> x \<notin> X
        | Some d \<Rightarrow> od_refs d = int (H x + slots_of st x) \<and> (x \<in> X \<longleftrightarrow> H x + slots_of st x = 0))" for x
    using ob(1) d'(2) by (cases "x = ob") simp_all
  then have "opens_ok H X ?st = opens_ok H X st" unfolding opens_ok_cases frame_simps by simp
  moreover have "monitor_ok HM D E ?st x mon = monitor_ok HM (insert ob D) E st x mon" for x mon
  proof -
    have "settled D ?st x mon = settled (insert ob D) st x mon"
      unfolding settled_def users by (auto simp: users_def)
    then show ?thesis unfolding monitor_ok_settled users by simp
  qed
  moreover have "links_ok H HM D E ?st = links_ok H HM (insert ob D) E st" unfolding links_ok_def users using ob(2) by simp
  moreover have "lists_ok ?st = lists_ok st"
  proof -
    have "dom (opens_at ?st) = dom (opens_at st)" using ob by auto
    then show ?thesis unfolding lists_ok_def sections by simp
  qed
  ultimately show ?thesis by (simp add: refs_inv_def)
qed


lemma attached_detach:
  assumes "attached_ok H st" and "od_monitor d' = None"
  shows "attached_ok H (st\<lparr>opens_at := (opens_at st)(ob \<mapsto> d')\<rparr>)"
  using assms unfolding attached_ok_def by auto

lemma monitor_close_ok:
  assumes ok: "manager_ok U st" and ob: "ob \<in> U" and left: "refs_left st < depth"
  shows "\<exists>rc st'. ioctl_monitor_close env depth ob st = Some (rc, st') \<and> manager_ok U st'"
proof -
  have inv: "refs_inv (handles U) (\<lambda>_. 0) {} {} {} st" and att: "attached_ok (handles U) st" using ok by (auto simp: manager_ok_def)
  obtain d where d: "opens_at st ob = Some d" using manager_alive [OF ok ob] .
  have H: "0 < handles U ob" using ob by (simp add: handles_def)
  show ?thesis
  proof (cases "od_monitor d")
    case None
    then show ?thesis using d ok by (simp add: ioctl_monitor_close_def)
  next
    case (Some m)
    let ?HM = "(\<lambda>_. 0)(m := 1 :: nat)" and ?E = "if od_owner d then insert m {} else {}"
    have "refs_inv (handles U) ?HM {} {} ?E (st\<lparr>opens_at := (opens_at st)(ob \<mapsto> d\<lparr>od_monitor := None\<rparr>)\<rparr>)"
      using inv_detach [OF inv d Some] by simp
    then have inv1: "refs_inv (handles U) ?HM {} {ob} ?E st"
      using detach_iff [where H = "handles U", OF d H, of "d\<lparr>od_monitor := None\<rparr>"] by simp
    have none: "?HM(m := ?HM m - 1) = (\<lambda>_. 0)" by auto
    obtain st1 where st1: "co_monitor_refdown (co_manager_close env depth) m (od_owner d) st = Some st1"
        "refs_inv (handles U) (\<lambda>_. 0) {} {ob} {} st1" "after_close (handles U) {} st st1"
      using closing.refdown_ok [OF inv1 _ left, of env, unfolded none] by auto
    obtain d1 where d1: "opens_at st1 ob = Some d1"
      using st1(3) d H unfolding after_close_def opens_shrink_def by blast
    let ?d = "d1\<lparr>od_monitor := None, od_owner := False\<rparr>"
    have "refs_inv (handles U) (\<lambda>_. 0) {} {} {} (st1\<lparr>opens_at := (opens_at st1)(ob \<mapsto> ?d)\<rparr>)"
      using detach_iff [where H = "handles U", OF d1 H, of ?d] st1(2) by simp
    moreover have "attached_ok (handles U) (st1\<lparr>opens_at := (opens_at st1)(ob \<mapsto> ?d)\<rparr>)"
      by (rule attached_detach [OF attached_after_close [OF att st1(3)]]) simp
    ultimately show ?thesis
      using Some d d1 st1(1) by (simp add: ioctl_monitor_close_def with_open_def manager_ok_def)
  qed
qed

section \<open>Closing a handle\<close>

lemma after_close_held:
  assumes "after_close H X st st'" and "0 < H ob" and "opens_at st ob = Some d"
  obtains d' where "opens_at st' ob = Some d'" and "od_monitor d' = od_monitor d"
  using assms unfolding after_close_def opens_shrink_def by blast

lemma no_slots_after:
  assumes shrink: "after_close H X st st'" and fin: "finite (dom (monitors_at st))" and none: "slots_of st ob = 0"
  shows "slots_of st' ob = 0"
proof -
  have "count_list (mon_modules mon') (Some ob) = 0" if mon': "monitors_at st' m = Some mon'" for m mon'
  proof -
    obtain mon where mon: "monitors_at st m = Some mon" "monitor_shrinks mon mon'" using after_close_monitor_was [OF shrink mon'] .
    have "mon_modules mon' ! i \<noteq> Some ob" if "i < length (mon_modules mon')" for i
      using not_in_slots [OF none fin mon(1), of i] mon(2) that unfolding monitor_shrinks_def by (metis option.distinct(1))
    then show ?thesis by (auto simp: count_list_0_iff in_set_conv_nth)
  qed
  then show ?thesis by (auto simp: slots_of_def dom_def)
qed

lemma deactive_modules_ok:
  assumes "refs_inv H HM {} {} {} st" and "0 < H ob" and "ob \<in> users {} st m"
    and "set is \<subseteq> {..<CO_MONITOR_MODULES_COUNT}" and "refs_left st < depth"
  shows "\<exists>st'. deactive_modules (co_manager_close env depth) ob m is st = Some st' \<and> refs_inv H HM {} {} {} st' \<and>
    after_close H {} st st' \<and>
    (\<forall>mon i. monitors_at st' m = Some mon \<longrightarrow> i \<in> set is \<longrightarrow> mon_modules mon ! i \<noteq> Some ob)"
  using assms
proof (induction "is" arbitrary: st)
  case (Cons i "is")
  obtain mon where m: "monitors_at st m = Some mon" using inv_monitor_alive [OF Cons.prems(1), of m ob] Cons.prems(3) by blast
  obtain st1 where st1: "deactive_modules (co_manager_close env depth) ob m (i # is) st = deactive_modules (co_manager_close env depth) ob m is st1"
      "refs_inv H HM {} {} {} st1" "after_close H {} st st1" "\<forall>mon. monitors_at st1 m = Some mon \<longrightarrow> mon_modules mon ! i \<noteq> Some ob"
  proof (cases "mon_modules mon ! i = Some ob")
    case False
    then show ?thesis using m Cons.prems(1) by (intro that [of st]) simp_all
  next
    case True
    obtain st1 st2 where "with_monitor m (\<lambda>mon. mon\<lparr>mon_modules := (mon_modules mon)[i := None]\<rparr>) st = Some st1"
        "co_manager_close env depth ob st1 = Some st2" "refs_inv H HM {} {} {} st2" "after_close H {} st st2"
        "\<forall>mon'. monitors_at st2 m = Some mon' \<longrightarrow> mon_modules mon' ! i = None"
      using closing.clear_close_ok [OF Cons.prems(1) m _ True Cons.prems(5), of env] Cons.prems(4) by auto
    then show ?thesis using True m by (intro that [of st2]) simp_all
  qed
  have "refs_left st1 < depth" using st1(3) Cons.prems(5) by (simp add: after_close_def)
  moreover have "ob \<in> users {} st1 m"
    using Cons.prems(3) after_close_held [OF st1(3) Cons.prems(2)] unfolding users_def by fastforce
  ultimately obtain st' where st': "deactive_modules (co_manager_close env depth) ob m is st1 = Some st'" "refs_inv H HM {} {} {} st'"
      "after_close H {} st1 st'" "\<forall>mon i. monitors_at st' m = Some mon \<longrightarrow> i \<in> set is \<longrightarrow> mon_modules mon ! i \<noteq> Some ob"
    using Cons.IH [OF st1(2) Cons.prems(2)] Cons.prems(4) by auto
  have "mon_modules mon' ! i \<noteq> Some ob" if mon': "monitors_at st' m = Some mon'" for mon'
  proof -
    obtain mon1 where mon1: "monitors_at st1 m = Some mon1" "monitor_shrinks mon1 mon'"
      using after_close_monitor_was [OF st'(3) mon'] .
    moreover have "i < length (mon_modules mon1)"
      using inv_monitor [OF st1(2) mon1(1)] Cons.prems(4) by (simp add: monitor_ok_def)
    ultimately show ?thesis using st1(4) unfolding monitor_shrinks_def by (metis option.distinct(1))
  qed
  then show ?case using st1 st' after_close_trans by auto
qed simp

lemma attached_without:
  assumes "attached_ok (handles U) st" and "\<And>d. opens_at st ob = Some d \<Longrightarrow> od_monitor d = None"
  shows "attached_ok (handles (U - {ob})) st"
  using assms unfolding attached_ok_def by (auto simp: handles_def split: if_splits)

lemma no_slots:
  assumes inv: "refs_inv H HM X D E st" and att: "attached_ok H st" and ob: "opens_at st ob = Some d" "od_monitor d = Some m"
    and m: "\<forall>mon i. monitors_at st m = Some mon \<longrightarrow> i \<in> set [0..<CO_MONITOR_MODULES_COUNT] \<longrightarrow> mon_modules mon ! i \<noteq> Some ob"
  shows "slots_of st ob = 0"
proof -
  have "count_list (mon_modules mon) (Some ob) = 0" if mon: "monitors_at st x = Some mon" for x mon
  proof -
    have "mon_modules mon ! i \<noteq> Some ob" if i: "i < length (mon_modules mon)" for i
    proof
      assume slot: "mon_modules mon ! i = Some ob"
      then have "x = m" using att ob mon i unfolding attached_ok_def by (metis option.distinct(1) option.inject)
      then show False using m mon i slot inv_monitor [OF inv mon] by (simp add: monitor_ok_def)
    qed
    then show ?thesis by (auto simp: count_list_0_iff in_set_conv_nth)
  qed
  then show ?thesis by (auto simp: slots_of_def dom_def)
qed

lemma release_ok:
  assumes ok: "manager_ok U st" and ob: "ob \<in> U" and left: "refs_left st < depth"
  shows "\<exists>st'. co_manager_open_desc_deactive_and_close env depth ob st = Some st' \<and> manager_ok (U - {ob}) st'"
proof -
  have inv: "refs_inv (handles U) (\<lambda>_. 0) {} {} {} st" and att: "attached_ok (handles U) st" using ok by (auto simp: manager_ok_def)
  obtain d where d: "opens_at st ob = Some d" using manager_alive [OF ok ob] .
  have H: "0 < handles U ob" using ob by (simp add: handles_def)
  let ?d = "d\<lparr>od_active := False\<rparr>"
  let ?st1 = "st\<lparr>opens_at := (opens_at st)(ob \<mapsto> ?d)\<rparr>"
  have inv1: "refs_inv (handles U) (\<lambda>_. 0) {} {} {} ?st1"
    using inv_open_write [OF inv d, of ?d "handles U ob"] inv_open [OF inv d] H by simp
  have after1: "after_close (handles U) {} st ?st1" by (rule after_close_write [OF d]) simp_all
  then have left1: "refs_left ?st1 < depth" using left by (simp add: after_close_def)
  obtain st2 where st2: "(case od_monitor d of None \<Rightarrow> Some ?st1
        | Some m \<Rightarrow> deactive_modules (co_manager_close env depth) ob m [0..<CO_MONITOR_MODULES_COUNT] ?st1) = Some st2"
      "refs_inv (handles U) (\<lambda>_. 0) {} {} {} st2" "after_close (handles U) {} st st2"
      "od_monitor d = None \<or> slots_of st2 ob = 0"
  proof (cases "od_monitor d")
    case None
    then show ?thesis using inv1 after1 by (intro that [of ?st1]) simp_all
  next
    case (Some m)
    have "ob \<in> users {} ?st1 m" using Some by (simp add: users_def)
    then obtain st2 where st2: "deactive_modules (co_manager_close env depth) ob m [0..<CO_MONITOR_MODULES_COUNT] ?st1 = Some st2"
        "refs_inv (handles U) (\<lambda>_. 0) {} {} {} st2" "after_close (handles U) {} ?st1 st2"
        "\<forall>mon i. monitors_at st2 m = Some mon \<longrightarrow> i \<in> set [0..<CO_MONITOR_MODULES_COUNT] \<longrightarrow> mon_modules mon ! i \<noteq> Some ob"
      using deactive_modules_ok [OF inv1 H, of m "[0..<CO_MONITOR_MODULES_COUNT]" depth env] left1 by (auto simp: subset_iff)
    have after2: "after_close (handles U) {} st st2" by (rule after_close_trans [OF after1 st2(3)])
    obtain d2 where "opens_at st2 ob = Some d2" "od_monitor d2 = Some m" using after_close_held [OF after2 H d] Some by metis
    then have "slots_of st2 ob = 0" by (rule no_slots [OF st2(2) attached_after_close [OF att after2] _ _ st2(4)])
    then show ?thesis using st2(1,2) after2 Some by (intro that [of st2]) simp_all
  qed
  have "refs_left st2 < depth" using st2(3) left by (simp add: after_close_def)
  then obtain st3 where st3: "co_manager_close env depth ob st2 = Some st3"
      "refs_inv ((handles U)(ob := handles U ob - 1)) (\<lambda>_. 0) {} {} {} st3" "after_close ((handles U)(ob := handles U ob - 1)) {} st2 st3"
    using closing.close_ok [OF st2(2) H] by blast
  have same: "(handles U)(ob := handles U ob - 1) = handles (U - {ob})" by (auto simp: handles_def)
  have released: "od_monitor d' = None" if d': "opens_at st3 ob = Some d'" for d'
    using st2(4)
  proof
    assume "od_monitor d = None"
    then show ?thesis using d' d st2(3) st3(3) unfolding after_close_def opens_shrink_def by (metis option.inject)
  next
    assume "slots_of st2 ob = 0"
    then have "slots_of st3 ob = 0" by (rule no_slots_after [OF st3(3) inv_finite [OF st2(2)]])
    then show ?thesis using inv_open(2) [OF st3(2) d'] ob by (simp add: handles_def)
  qed
  have "attached_ok (handles U) st3" by (rule attached_after_close [OF attached_after_close [OF att st2(3)] st3(3)])
  then have "attached_ok (handles (U - {ob})) st3"
    by (rule attached_without) (use released in blast)
  then show ?thesis using st3(1,2) st2(1) d unfolding same
    by (simp add: co_manager_open_desc_deactive_and_close_def with_open_def manager_ok_def)
qed

section \<open>Sending\<close>

definition taken :: "reader_step list \<Rightarrow> nat" where
  "taken steps = sum_list (map (\<lambda>step. case step of Reader_takes n \<Rightarrow> n | Reader_closes \<Rightarrow> 0) steps)"

text \<open>The reader takes enough messages or closes.\<close>

definition wakes :: "reader_step list \<Rightarrow> nat \<Rightarrow> bool" where
  "wakes steps n \<longleftrightarrow> Reader_closes \<in> set steps \<or> n \<le> CO_QUEUE_COUNT_LIMIT_BEFORE_SLEEP + taken steps"

definition same_links :: "co_manager_open_desc \<Rightarrow> co_manager_open_desc \<Rightarrow> bool" where
  "same_links d d' \<longleftrightarrow> od_refs d' = od_refs d \<and> od_monitor d' = od_monitor d \<and> od_owner d' = od_owner d \<and> od_section d' = od_section d"

lemma send_sleep_awake:
  assumes "opens_at st ob = Some d" and "\<not> (CO_QUEUE_COUNT_LIMIT_BEFORE_SLEEP < length (od_queue d) \<and> od_active d)"
  shows "send_sleep steps ob st = Some st"
  by (subst send_sleep.simps) (use assms in auto)

lemma send_sleep_wakes:
  assumes "opens_at st ob = Some d" and "\<not> od_active d \<or> wakes steps (length (od_queue d))"
  shows "\<exists>d'. send_sleep steps ob st = Some (st\<lparr>opens_at := (opens_at st)(ob \<mapsto> d')\<rparr>) \<and> same_links d d' \<and>
    (length (od_queue d') \<le> CO_QUEUE_COUNT_LIMIT_BEFORE_SLEEP \<or> \<not> od_active d')"
  using assms
proof (induction steps arbitrary: st d)
  case Nil
  then have "\<not> (CO_QUEUE_COUNT_LIMIT_BEFORE_SLEEP < length (od_queue d) \<and> od_active d)" by (auto simp: wakes_def taken_def)
  moreover have "(opens_at st)(ob \<mapsto> d) = opens_at st" using Nil.prems(1) by auto
  ultimately show ?case using send_sleep_awake [OF Nil.prems(1)] by (intro exI [of _ d]) (auto simp: same_links_def)
next
  case (Cons step steps)
  show ?case
  proof (cases "CO_QUEUE_COUNT_LIMIT_BEFORE_SLEEP < length (od_queue d) \<and> od_active d")
    case False
    moreover have "(opens_at st)(ob \<mapsto> d) = opens_at st" using Cons.prems(1) by auto
    ultimately show ?thesis
      using send_sleep_awake [OF Cons.prems(1) False] by (intro exI [of _ d]) (auto simp: same_links_def)
  next
    case True
    define e where "e = (case step of Reader_takes n \<Rightarrow> d\<lparr>od_queue := drop n (od_queue d)\<rparr> | Reader_closes \<Rightarrow> d\<lparr>od_active := False\<rparr>)"
    let ?st = "st\<lparr>opens_at := (opens_at st)(ob \<mapsto> e)\<rparr>"
    have run: "send_sleep (step # steps) ob st = send_sleep steps ob ?st"
      by (subst send_sleep.simps) (use Cons.prems(1) True in \<open>simp add: with_open_def e_def\<close>)
    have "\<not> od_active e \<or> wakes steps (length (od_queue e))"
      using Cons.prems(2) True by (cases step) (auto simp: wakes_def taken_def e_def)
    moreover have "opens_at ?st ob = Some e" by simp
    ultimately obtain d' where d': "send_sleep steps ob ?st = Some (?st\<lparr>opens_at := (opens_at ?st)(ob \<mapsto> d')\<rparr>)" "same_links e d'"
        "length (od_queue d') \<le> CO_QUEUE_COUNT_LIMIT_BEFORE_SLEEP \<or> \<not> od_active d'"
      using Cons.IH [of ?st e] by blast
    have "same_links d e" by (cases step) (simp_all add: same_links_def e_def)
    then show ?thesis using run d' by (intro exI [of _ d']) (simp add: same_links_def del: fun_upd_apply)
  qed
qed

lemma send_ok:
  assumes d: "opens_at st ob = Some d" and wakes: "wakes steps (Suc (length (od_queue d)))"
  shows "\<exists>rc d'. co_manager_send direct room steps ob message st = Some (rc, st\<lparr>opens_at := (opens_at st)(ob \<mapsto> d')\<rparr>) \<and>
    same_links d d' \<and>
    (direct \<or> \<not> od_active d \<or> length (od_queue d') \<le> CO_QUEUE_COUNT_LIMIT_BEFORE_SLEEP \<or> \<not> od_active d')"
proof (cases "\<not> direct \<and> od_active d")
  case False
  moreover have "(opens_at st)(ob \<mapsto> d) = opens_at st" using d by auto
  ultimately show ?thesis using d by (intro exI [of _ CO_RC_OK] exI [of _ d]) (auto simp: co_manager_send_def same_links_def)
next
  case True
  show ?thesis
  proof (cases room)
    case True
    let ?d = "d\<lparr>od_queue := od_queue d @ [message]\<rparr>"
    let ?st = "st\<lparr>opens_at := (opens_at st)(ob \<mapsto> ?d)\<rparr>"
    obtain d' where "send_sleep steps ob ?st = Some (?st\<lparr>opens_at := (opens_at ?st)(ob \<mapsto> d')\<rparr>)" "same_links ?d d'"
        "length (od_queue d') \<le> CO_QUEUE_COUNT_LIMIT_BEFORE_SLEEP \<or> \<not> od_active d'"
      using send_sleep_wakes [of ?st ob ?d steps] wakes by auto
    then show ?thesis using True \<open>\<not> direct \<and> od_active d\<close> d
      by (intro exI [of _ CO_RC_OK] exI [of _ d']) (simp add: co_manager_send_def with_open_def same_links_def)
  next
    case False
    have "wakes steps (length (od_queue d))" using wakes by (auto simp: wakes_def)
    then obtain d' where "send_sleep steps ob st = Some (st\<lparr>opens_at := (opens_at st)(ob \<mapsto> d')\<rparr>)" "same_links d d'"
        "length (od_queue d') \<le> CO_QUEUE_COUNT_LIMIT_BEFORE_SLEEP \<or> \<not> od_active d'"
      using send_sleep_wakes [OF d] by blast
    then show ?thesis using False \<open>\<not> direct \<and> od_active d\<close> d
      by (intro exI [of _ CO_RC_OUT_OF_MEMORY] exI [of _ d']) (simp add: co_manager_send_def)
  qed
qed

lemma inv_same_links:
  assumes "refs_inv H HM X D E st" and "opens_at st ob = Some d" and "same_links d d'" and "0 < H ob"
  shows "refs_inv H HM X D E (st\<lparr>opens_at := (opens_at st)(ob \<mapsto> d')\<rparr>)"
proof -
  have "X - {ob} = X" using inv_open(2) [OF assms(1,2)] assms(4) by simp
  then show ?thesis
    using inv_open_write [OF assms(1,2), of d' "H ob"] inv_open(1) [OF assms(1,2)] assms(3,4) by (simp add: same_links_def)
qed

lemma attached_same:
  assumes "attached_ok H st" and "opens_at st ob = Some d" and "od_monitor d' = od_monitor d"
  shows "attached_ok H (st\<lparr>opens_at := (opens_at st)(ob \<mapsto> d')\<rparr>)"
  using assms unfolding attached_ok_def by (auto split: if_splits)

text \<open>A message of the guest. The descriptor of the module is referenced while the message is sent.\<close>

lemma incoming_ok:
  assumes ok: "manager_ok U st" and m: "monitors_at st m = Some mon" and module: "unat (msg_to message) < CO_MONITOR_MODULES_COUNT"
    and wakes: "\<And>ob d. mon_modules mon ! unat (msg_to message) = Some ob \<Longrightarrow> opens_at st ob = Some d \<Longrightarrow>
      wakes steps (Suc (length (od_queue d)))"
    and left: "Suc (refs_left st) < depth"
  shows "\<exists>st'. incoming_message env depth filtered direct room steps m message st = Some st' \<and> manager_ok U st'"
proof -
  have inv: "refs_inv (handles U) (\<lambda>_. 0) {} {} {} st" and att: "attached_ok (handles U) st" using ok by (auto simp: manager_ok_def)
  let ?H = "handles U"
  have len: "unat (msg_to message) < length (mon_modules mon)" using inv_monitor [OF inv m] module by (simp add: monitor_ok_def)
  show ?thesis
  proof (cases "mon_modules mon ! unat (msg_to message)")
    case None
    then show ?thesis using m len ok by (simp add: incoming_message_def)
  next
    case (Some ob)
    then have "slots_of st ob \<noteq> 0" using not_in_slots [OF _ inv_finite [OF inv] m len] by blast
    then obtain d where d: "opens_at st ob = Some d" using inv_alive [OF inv, of ob] by auto
    have refs: "od_refs d = int (?H ob + slots_of st ob)" "od_refs d \<noteq> 0"
      using inv_open [OF inv d] \<open>slots_of st ob \<noteq> 0\<close> by simp_all
    let ?d = "d\<lparr>od_refs := od_refs d + 1\<rparr>" and ?H1 = "?H(ob := ?H ob + 1)"
    let ?st = "st\<lparr>opens_at := (opens_at st)(ob \<mapsto> ?d)\<rparr>"
    have inv1: "refs_inv ?H1 (\<lambda>_. 0) {} {} {} ?st"
      using inv_open_write [OF inv d, of ?d "?H ob + 1"] refs by simp
    obtain d2 where d2: "(if filtered then Some ?st else map_option snd (co_manager_send direct room steps ob message ?st)) =
        Some (?st\<lparr>opens_at := (opens_at ?st)(ob \<mapsto> d2)\<rparr>)" "same_links ?d d2"
    proof (cases filtered)
      case True
      then show ?thesis by (intro that [of ?d]) (simp_all add: same_links_def)
    next
      case False
      then show ?thesis using send_ok [of ?st ob ?d steps direct room message] wakes [OF Some d] that by auto
    qed
    let ?st2 = "?st\<lparr>opens_at := (opens_at ?st)(ob \<mapsto> d2)\<rparr>"
    have inv2: "refs_inv ?H1 (\<lambda>_. 0) {} {} {} ?st2"
      by (rule inv_same_links [OF inv1 _ d2(2)]) simp_all
    have st2: "?st2 = st\<lparr>opens_at := (opens_at st)(ob \<mapsto> d2)\<rparr>" by simp
    have "refs_left ?st2 + nat (od_refs d) = refs_left st + nat (od_refs d2)"
      unfolding st2 by (rule refs_left_exact [OF inv_lists [OF inv] d])
    then have left2: "refs_left ?st2 < depth" using left d2(2) refs(1) by (simp add: same_links_def)
    have none: "?H1(ob := ?H1 ob - 1) = ?H" by auto
    obtain st3 where st3: "co_manager_close env depth ob ?st2 = Some st3" "refs_inv ?H (\<lambda>_. 0) {} {} {} st3" "after_close ?H {} ?st2 st3"
      using closing.close_ok [OF inv2 _ _ left2, of ob env, unfolded none] by auto
    have "attached_ok ?H ?st2" unfolding st2 by (rule attached_same [OF att d]) (use d2(2) in \<open>simp add: same_links_def\<close>)
    then have "attached_ok ?H st3" by (rule attached_after_close [OF _ st3(3)])
    moreover have "co_manager_open_ref ob st = Some (CO_RC_OK, ?st)" using d refs(2) by (simp add: co_manager_open_ref_def with_open_def)
    ultimately show ?thesis
      using m len Some d2(1) st3 by (simp add: incoming_message_def manager_ok_def CO_OK_def)
  qed
qed

section \<open>The log\<close>

lemma debug_ok:
  assumes ok: "manager_ok U st" and ob: "ob \<in> U" and size: "int (length data) < 2 ^ 32"
  shows "\<exists>rc st'. ioctl_debug env ob data st = Some (rc, st') \<and> manager_ok U st'"
proof -
  have inv: "refs_inv (handles U) (\<lambda>_. 0) {} {} {} st" and att: "attached_ok (handles U) st" using ok by (auto simp: manager_ok_def)
  obtain d where d: "opens_at st ob = Some d" using manager_alive [OF ok ob] .
  obtain ls where ls: "log_rel (mgr_debug st, sections_of st) ls" using inv_lists [OF inv] by (auto simp: lists_ok_def)
  obtain st1 where st1: "debug_step (Log_write ob data env) (mgr_debug st, sections_of st) =
      Some (fst (log_step (Log_write ob data env) ls), st1)" "log_rel st1 (snd (log_step (Log_write ob data env) ls))"
    using write_refines [OF size, of ob env] ls unfolding refines_step_def by blast
  then obtain rc dbg p where out: "co_debug_write_log env (mgr_debug st) (od_section d) [Write_vector (int (length data)) data []] = Some (rc, dbg, p)"
      "st1 = (dbg, (sections_of st)(ob := p))"
    using d by (auto simp: sections_of_def)
  have "refs_inv (handles U) (\<lambda>_. 0) {} {} {} (st\<lparr>mgr_debug := dbg, opens_at := (opens_at st)(ob \<mapsto> d\<lparr>od_section := p\<rparr>)\<rparr>)"
    using inv_section [OF inv d] st1(2) out(2) by blast
  moreover have "attached_ok (handles U) (st\<lparr>mgr_debug := dbg, opens_at := (opens_at st)(ob \<mapsto> d\<lparr>od_section := p\<rparr>)\<rparr>)"
    using attached_same [OF att d, of "d\<lparr>od_section := p\<rparr>"] by (simp add: attached_ok_def)
  ultimately show ?thesis using d out(1) by (simp add: ioctl_debug_def with_open_def manager_ok_def)
qed

lemma debug_reader_ok:
  assumes ok: "manager_ok U st"
  shows "\<exists>out st'. ioctl_debug_reader env copies n st = Some (out, st') \<and> manager_ok U st'"
proof -
  have inv: "refs_inv (handles U) (\<lambda>_. 0) {} {} {} st" and att: "attached_ok (handles U) st" using ok by (auto simp: manager_ok_def)
  obtain ls where ls: "log_rel (mgr_debug st, sections_of st) ls" using inv_lists [OF inv] by (auto simp: lists_ok_def)
  obtain st1 where st1: "debug_step (Log_read n copies env) (mgr_debug st, sections_of st) =
      Some (fst (log_step (Log_read n copies env) ls), st1)" "log_rel st1 (snd (log_step (Log_read n copies env) ls))"
    using read_refines [of n copies env] ls unfolding refines_step_def by blast
  then obtain dbg out where out: "co_debug_read env copies (mgr_debug st) n = Some (dbg, out)" "st1 = (dbg, sections_of st)" by auto
  have "lists_ok (st\<lparr>mgr_debug := dbg\<rparr>)" using inv_lists [OF inv] st1(2) out(2) by (auto simp: lists_ok_def)
  then have "refs_inv (handles U) (\<lambda>_. 0) {} {} {} (st\<lparr>mgr_debug := dbg\<rparr>)"
    using inv by (simp add: refs_inv_def opens_ok_def monitor_ok_def links_ok_def)
  moreover have "attached_ok (handles U) (st\<lparr>mgr_debug := dbg\<rparr>)" using att by (simp add: attached_ok_def)
  ultimately show ?thesis using out(1) by (simp add: ioctl_debug_reader_def manager_ok_def)
qed

section \<open>The handlers in any order\<close>

datatype manager_op =
    Op_open bool bool bool
  | Op_create open_id create_answers ulong
  | Op_attach open_id ulong "ulong list"
  | Op_monitor_close open_id
  | Op_release open_id
  | Op_incoming monitor_id bool bool bool "reader_step list" co_message
  | Op_debug open_id "uchar list"
  | Op_debug_reader "section_id \<Rightarrow> bool" ulong

text \<open>Calls nest no deeper than there are references; attaching makes one for each module, and a message
  holds one.\<close>

definition call_depth :: "manager_op \<Rightarrow> co_manager \<Rightarrow> nat" where
  "call_depth op st = refs_left st + 2 + (case op of Op_attach ob n modules \<Rightarrow> length modules | _ \<Rightarrow> 0)"

fun manager_step :: "debug_env \<Rightarrow> manager_op \<Rightarrow> open_id set \<times> co_manager \<Rightarrow> (open_id set \<times> co_manager) option" where
  "manager_step env (Op_open block mutex userspace) (U, st) =
     (case co_manager_open block mutex userspace st of
        (rc, None, st) \<Rightarrow> Some (U, st)
      | (rc, Some ob, st) \<Rightarrow> Some (insert ob U, st))"
| "manager_step env (Op_create ob ca ram_size) (U, st) = map_option (\<lambda>(rc, st). (U, st)) (ioctl_create ca ram_size ob st)"
| "manager_step env (Op_attach ob n modules) (U, st) =
     map_option (\<lambda>(rc, st). (U, st)) (ioctl_attach env (call_depth (Op_attach ob n modules) st) ob n modules st)"
| "manager_step env (Op_monitor_close ob) (U, st) =
     map_option (\<lambda>(rc, st). (U, st)) (ioctl_monitor_close env (call_depth (Op_monitor_close ob) st) ob st)"
| "manager_step env (Op_release ob) (U, st) =
     map_option (Pair (U - {ob})) (co_manager_open_desc_deactive_and_close env (call_depth (Op_release ob) st) ob st)"
| "manager_step env (Op_incoming m filtered direct room steps message) (U, st) =
     map_option (Pair U)
       (incoming_message env (call_depth (Op_incoming m filtered direct room steps message) st) filtered direct room steps m message st)"
| "manager_step env (Op_debug ob data) (U, st) = map_option (\<lambda>(rc, st). (U, st)) (ioctl_debug env ob data st)"
| "manager_step env (Op_debug_reader copies n) (U, st) = map_option (\<lambda>(out, st). (U, st)) (ioctl_debug_reader env copies n st)"

text \<open>What the users and the guest keep to: a call comes through an open handle, a descriptor is
  used for one monitor, module numbers are in range, and the reader of a full queue goes on.\<close>

fun op_allowed :: "manager_op \<Rightarrow> open_id set \<times> co_manager \<Rightarrow> bool" where
  "op_allowed (Op_open block mutex userspace) (U, st) \<longleftrightarrow> True"
| "op_allowed (Op_create ob ca ram_size) (U, st) \<longleftrightarrow> ob \<in> U \<and> unattached st ob"
| "op_allowed (Op_attach ob n modules) (U, st) \<longleftrightarrow>
     ob \<in> U \<and> unattached st ob \<and> (\<forall>module \<in> set modules. unat module < CO_MONITOR_MODULES_COUNT)"
| "op_allowed (Op_monitor_close ob) (U, st) \<longleftrightarrow> ob \<in> U"
| "op_allowed (Op_release ob) (U, st) \<longleftrightarrow> ob \<in> U"
| "op_allowed (Op_incoming m filtered direct room steps message) (U, st) \<longleftrightarrow>
     unat (msg_to message) < CO_MONITOR_MODULES_COUNT \<and>
     (case monitors_at st m of
        None \<Rightarrow> False
      | Some mon \<Rightarrow>
          case mon_modules mon ! unat (msg_to message) of
            None \<Rightarrow> True
          | Some ob \<Rightarrow> wakes steps (Suc (length (od_queue (the (opens_at st ob))))))"
| "op_allowed (Op_debug ob data) (U, st) \<longleftrightarrow> ob \<in> U \<and> int (length data) < 2 ^ 32"
| "op_allowed (Op_debug_reader copies n) (U, st) \<longleftrightarrow> True"

text \<open>The manager of a driver that was just loaded.\<close>

definition manager_start :: "ulong \<Rightarrow> ulong \<Rightarrow> co_manager" where
  "manager_start amount limit =
     \<lparr>hostmem_amount = amount, hostmem_used = 0, hostmem_usage_limit = limit, mgr_debug = debug_started,
       mgr_monitors = [], monitors_count = 0, mgr_opens = [], num_opens = 0,
       opens_at = Map.empty, monitors_at = Map.empty, next_open = 0, next_monitor = 0\<rparr>"

inductive reachable :: "open_id set \<times> co_manager \<Rightarrow> bool" where
  reachable_start: "reachable ({}, manager_start amount limit)"
| reachable_step: "reachable s \<Longrightarrow> op_allowed op s \<Longrightarrow> manager_step env op s = Some s' \<Longrightarrow> reachable s'"

inductive_cases reachable_stepE: "reachable s"

lemma start_ok: "manager_ok {} (manager_start amount limit)"
proof -
  have "\<exists>ls. log_rel (debug_started, sections_of (manager_start amount limit)) ls"
  proof -
    have "sections_of (manager_start amount limit) = Map.empty" by (simp add: fun_eq_iff sections_of_def manager_start_def)
    then show ?thesis using log_rel_started by auto
  qed
  then show ?thesis
    by (auto simp: manager_ok_def refs_inv_def opens_ok_def links_ok_def lists_ok_def users_def handles_def attached_ok_def
        slots_of_def manager_start_def)
qed

lemma step_ok:
  assumes ok: "manager_ok U st" and allowed: "op_allowed op (U, st)"
  shows "\<exists>U' st'. manager_step env op (U, st) = Some (U', st') \<and> manager_ok U' st'"
proof (cases op)
  case (Op_open block mutex userspace)
  then show ?thesis using open_ok [OF ok, of block mutex userspace] ok by (auto split: prod.splits option.splits)
next
  case (Op_create ob ca ram_size)
  then show ?thesis using create_ok [OF ok, of ob ca ram_size] allowed by auto
next
  case (Op_attach ob n modules)
  then show ?thesis
    using ioctl_attach_ok [OF ok, of ob modules "refs_left st + 1 + length modules" env n] allowed by (auto simp: call_depth_def)
next
  case (Op_monitor_close ob)
  then show ?thesis using monitor_close_ok [OF ok, of ob "call_depth op st" env] allowed by (auto simp: call_depth_def)
next
  case (Op_release ob)
  then show ?thesis using release_ok [OF ok, of ob "call_depth op st" env] allowed by (auto simp: call_depth_def)
next
  case (Op_incoming m filtered direct room steps message)
  then obtain mon where mon: "monitors_at st m = Some mon" using allowed by (auto split: option.splits)
  have "\<exists>st'. incoming_message env (call_depth op st) filtered direct room steps m message st = Some st' \<and> manager_ok U st'"
    by (rule incoming_ok [OF ok mon]) (use allowed mon Op_incoming in \<open>auto simp: call_depth_def\<close>)
  then show ?thesis using Op_incoming by auto
next
  case (Op_debug ob data)
  then show ?thesis using debug_ok [OF ok, of ob data env] allowed by auto
next
  case (Op_debug_reader copies n)
  then show ?thesis using debug_reader_ok [OF ok, of env copies n] by auto
qed

lemma reachable_ok: "reachable s \<Longrightarrow> manager_ok (fst s) (snd s)"
proof (induction rule: reachable.induct)
  case (reachable_start amount limit)
  show ?case by (simp add: start_ok)
next
  case (reachable_step s op env s')
  obtain U st where s: "s = (U, st)" by (cases s)
  show ?case using step_ok [of U st op env] reachable_step s by auto
qed

section \<open>What the counts mean\<close>


text \<open>A run: a descriptor is opened and creates a monitor, a second one attaches to it as the
  console.\<close>

definition demo_ops :: "manager_op list" where
  "demo_ops = [Op_open True True True, Op_create 0 all_work 128, Op_open True True True, Op_attach 1 7 [CO_MODULE_CONSOLE]]"

definition demo_message :: co_message where
  "demo_message = \<lparr>msg_from = CO_MODULE_LINUX, msg_to = CO_MODULE_CONSOLE, priority = 0, msg_type = 1, msg_size = 0, msg_data = []\<rparr>"

fun manager_run :: "debug_env \<Rightarrow> manager_op list \<Rightarrow> open_id set \<times> co_manager \<Rightarrow> (open_id set \<times> co_manager) option" where
  "manager_run env [] s = Some s"
| "manager_run env (op # ops) s = Option.bind (manager_step env op s) (manager_run env ops)"

fun run_allowed :: "debug_env \<Rightarrow> manager_op list \<Rightarrow> open_id set \<times> co_manager \<Rightarrow> bool" where
  "run_allowed env [] s \<longleftrightarrow> True"
| "run_allowed env (op # ops) s \<longleftrightarrow>
     op_allowed op s \<and> (case manager_step env op s of None \<Rightarrow> True | Some s \<Rightarrow> run_allowed env ops s)"

lemma run_reachable: "reachable s \<Longrightarrow> run_allowed env ops s \<Longrightarrow> \<exists>s'. manager_run env ops s = Some s' \<and> reachable s'"
proof (induction ops arbitrary: s)
  case (Cons op ops)
  obtain U st where s: "s = (U, st)" by (cases s)
  have allowed: "op_allowed op (U, st)" using Cons.prems(2) s by simp
  obtain s1 where s1: "manager_step env op s = Some s1"
    using step_ok [OF _ allowed, of env] reachable_ok [OF Cons.prems(1)] s by auto
  have "reachable s1" by (rule reachable_step [OF Cons.prems(1) _ s1]) (use allowed s in simp)
  then show ?case using Cons.IH [of s1] Cons.prems(2) s1 by simp
qed simp

definition demo_state :: "open_id set \<times> co_manager" where
  "demo_state = the (manager_run env_ok demo_ops ({}, manager_start 1024 (push_bit 20 960)))"

lemmas demo_simps = co_manager_open_def ioctl_create_def co_monitor_create_def all_work_def Let_def CO_OK_def
  with_open_def with_monitor_def ioctl_attach_def co_manager_attach_module_def CO_MODULE_CONSOLE_def
  manager_start_def unattached_def slots_of_def call_depth_def monitor_memory_size_def CO_LOWMEMORY_MAX_MB_def

lemma console_in_range: "6 < CO_MONITOR_MODULES_COUNT"
  by (simp add: CO_MONITOR_MODULES_COUNT_def co_module_defs)

lemma demo_run:
  "run_allowed env_ok demo_ops ({}, manager_start 1024 (push_bit 20 960))"
  "fst demo_state = {0, 1}" "map_option od_refs (opens_at (snd demo_state) 1) = Some 2"
  "map_option mon_refs (monitors_at (snd demo_state) 0) = Some 2" "mgr_monitors (snd demo_state) = [0]"
  "map_option od_queue (opens_at (snd demo_state) 1) = Some []"
  "map_option od_monitor (opens_at (snd demo_state) 1) = Some (Some 0)" "map_option mon_id (monitors_at (snd demo_state) 0) = Some 7"
  unfolding demo_state_def demo_ops_def using console_in_range by (auto simp: demo_simps)

lemma demo_reachable: "reachable demo_state"
  using run_reachable [OF reachable_start demo_run(1)] by (auto simp: demo_state_def)


text \<open>
  C10: nothing is used after it was freed, and every handler returns. In whatever order the users and
  the guest call the handlers, a handler that is allowed runs to its end: it touches no descriptor,
  monitor or debug section that is gone, its calls nest no deeper than there are references, and a
  sender wakes up.
\<close>

theorem manager_never_stuck:
  assumes "reachable s" and "op_allowed op s"
  shows "\<exists>s'. manager_step env op s = Some s'"
  using step_ok [of "fst s" "snd s" op env] reachable_ok [OF assms(1)] assms(2) by auto

theorem manager_never_stuck_witness:
  "\<exists>s'. manager_step env_ok (Op_release 0) demo_state = Some s'"
proof (rule manager_never_stuck [OF demo_reachable])
  have "op_allowed (Op_release 0) (fst demo_state, snd demo_state)" using demo_run(2) by simp
  then show "op_allowed (Op_release 0) demo_state" by simp
qed



text \<open>
  C12: a sender wakes up. A sender that found the queue of a descriptor too long sleeps until the reader
  has taken enough messages or closed: if the steps of the reader do that, the send returns, and the
  queue is then within the limit or the descriptor is closed, unless the message was delivered
  directly or the descriptor was closed before.
\<close>

theorem co_manager_send_wakes:
  assumes "opens_at st ob = Some d"
    and "Reader_closes \<in> set steps \<or> length (od_queue d) < CO_QUEUE_COUNT_LIMIT_BEFORE_SLEEP + taken steps"
  shows "\<exists>rc st' d'. co_manager_send direct room steps ob message st = Some (rc, st') \<and> opens_at st' ob = Some d' \<and>
    (direct \<or> \<not> od_active d \<or> length (od_queue d') \<le> CO_QUEUE_COUNT_LIMIT_BEFORE_SLEEP \<or> \<not> od_active d')"
proof -
  have "wakes steps (Suc (length (od_queue d)))" using assms(2) by (auto simp: wakes_def)
  then show ?thesis using send_ok [OF assms(1), of steps direct room message] by fastforce
qed

theorem co_manager_send_wakes_witness:
  "\<exists>rc st' d'. co_manager_send False True [Reader_takes 3] 1 demo_message (snd demo_state) = Some (rc, st') \<and> opens_at st' 1 = Some d'"
proof -
  obtain d where "opens_at (snd demo_state) 1 = Some d" "length (od_queue d) = 0"
    using demo_run(3,6) by auto
  then show ?thesis
    using co_manager_send_wakes [of "snd demo_state" 1 d "[Reader_takes 3]" False True demo_message]
    by (auto simp: CO_QUEUE_COUNT_LIMIT_BEFORE_SLEEP_def)
qed


text \<open>
  To attach a second time leaks a reference. If a descriptor that has a monitor asks to attach to
  a number that no monitor has, its pointer is overwritten with 0 and the count of its monitor stays:
  the monitor then has a reference that no descriptor stands for, so it is never destroyed.
\<close>

theorem attach_again_leaks:
  assumes "reachable (U, st)" and "opens_at st ob = Some d" and "od_monitor d = Some m" and "\<forall>x \<in> set (mgr_monitors st). map_option mon_id (monitors_at st x) \<noteq> Some n"
  shows "\<exists>st' mon. ioctl_attach env depth ob n modules st = Some (CO_RC_ERROR, st') \<and> monitors_at st' m = Some mon \<and>
    mon_refs mon = int (card {ob. \<exists>d. opens_at st' ob = Some d \<and> od_monitor d = Some m}) + 1"
proof -
  have inv: "refs_inv (handles U) (\<lambda>_. 0) {} {} {} st" using reachable_ok [OF assms(1)] by (simp add: manager_ok_def)
  let ?st = "st\<lparr>opens_at := (opens_at st)(ob \<mapsto> d\<lparr>od_monitor := None\<rparr>)\<rparr>"
  have inv': "refs_inv (handles U) ((\<lambda>_. 0)(m := 1)) {} {} (if od_owner d then insert m {} else {}) ?st"
    using inv_detach [OF inv assms(2,3)] by simp
  obtain mon where mon: "monitors_at ?st m = Some mon" using inv_monitor_alive [OF inv', of m] by auto
  have "List.find (\<lambda>x. map_option mon_id (monitors_at st x) = Some n) (mgr_monitors st) = None"
    using assms(4) by (auto simp: find_None_iff)
  then have "ioctl_attach env depth ob n modules st = Some (CO_RC_ERROR, ?st)"
    using assms(2) by (simp add: ioctl_attach_def with_open_def)
  moreover have "mon_refs mon = int (card {x. \<exists>d. opens_at ?st x = Some d \<and> od_monitor d = Some m}) + 1"
    using inv_monitor [OF inv' mon] by (simp add: monitor_ok_def users_def)
  ultimately show ?thesis using mon by blast
qed

theorem attach_again_leaks_witness:
  "\<exists>st' mon. ioctl_attach env_ok 5 1 99 [] (snd demo_state) = Some (CO_RC_ERROR, st') \<and> monitors_at st' 0 = Some mon \<and>
    mon_refs mon = int (card {ob. \<exists>d. opens_at st' ob = Some d \<and> od_monitor d = Some 0}) + 1"
proof -
  have "reachable ({0, 1}, snd demo_state)" using demo_reachable demo_run(2) by (metis prod.collapse)
  moreover obtain d where "opens_at (snd demo_state) 1 = Some d" "od_monitor d = Some 0" using demo_run(7) by auto
  ultimately show ?thesis by (rule attach_again_leaks) (simp add: demo_run(5,8))
qed

end
