(* ===== verification/Guest_Messages.thy ===== *)
theory Guest_Messages
  imports Co_Messages Co_Pages
begin

text \<open>
  The messages for the guest (\<open>src/colinux/kernel/monitor.c\<close>: \<open>callback_return\<close> and the functions
  that fill \<open>linux_message_queue\<close>) and the guest's side of the exchange, \<open>co_callback\<close> of the
  kernel patch. The queue is the list of its messages, oldest first; the I/O area is a list of bytes.
\<close>

section \<open>Messages in memory\<close>

definition message_bytes :: "co_message \<Rightarrow> uchar list" where
  "message_bytes m = le32 (msg_from m) @ le32 (msg_to m) @ le32 (priority m) @ le32 (msg_type m) @ le32 (msg_size m) @
     take (unat (msg_size m)) (msg_data m)"

definition CO_DEVICES_TOTAL :: ulong where "CO_DEVICES_TOTAL = 13"

text \<open>\<open>linux_message->device\<close>, the first field of the data; a message that ends before it is read
  beyond its block.\<close>

definition linux_message_device :: "co_message \<Rightarrow> ulong option" where
  "linux_message_device m = word_at (take (unat (msg_size m)) (msg_data m)) 0"

section \<open>From the driver to the guest\<close>

record guest_io =
  linux_message_queue :: "co_message list"
  messages_waiting :: ulong
  io_bytes :: "uchar list"

text \<open>The loop of \<open>callback_return_messages\<close>; \<open>pos\<close> is \<open>io_buffer\<close> as an offset into the area. A
  message that is not valid is dropped, and ends the loop.\<close>

fun return_messages_loop :: "co_message list \<Rightarrow> nat \<Rightarrow> guest_io \<Rightarrow> (nat \<times> guest_io) option" where
  "return_messages_loop [] pos io = Some (pos, io\<lparr>linux_message_queue := []\<rparr>)"
| "return_messages_loop (message # queue) pos io =
     (let size = msg_size message + sizeof_co_message
      in if length (io_bytes io) < pos + unat size then Some (pos, io\<lparr>linux_message_queue := message # queue\<rparr>)
         else if CO_MODULES_MAX \<le> msg_from message then Some (pos, io\<lparr>linux_message_queue := queue\<rparr>)
         else if CO_MODULES_MAX \<le> msg_to message then Some (pos, io\<lparr>linux_message_queue := queue\<rparr>)
         else Option.bind (linux_message_device message) (\<lambda>device.
           if CO_DEVICES_TOTAL \<le> device then Some (pos, io\<lparr>linux_message_queue := queue\<rparr>)
           else Option.bind (copy_loop (io_bytes io) pos (message_bytes message) 0 (unat size)) (\<lambda>bytes.
             return_messages_loop queue (pos + unat size)
               (io\<lparr>messages_waiting := messages_waiting io + 1, io_bytes := bytes\<rparr>))))"

text \<open>The first parameter for the guest, with the return code.\<close>

definition callback_return_messages :: "guest_io option \<Rightarrow> (co_rc_value \<times> ulong \<times> guest_io option) option" where
  "callback_return_messages io_area =
     (case io_area of
        None \<Rightarrow> Some (CO_RC_ERROR, 0, None)
      | Some io \<Rightarrow>
          if messages_waiting io \<noteq> 0 then Some (CO_RC_OK, 0, Some io)
          else map_option (\<lambda>(pos, io). (CO_RC_OK, word_of_nat pos, Some io))
                 (return_messages_loop (linux_message_queue io) 0 (io\<lparr>messages_waiting := 0\<rparr>)))"

section \<open>From the users to the guest\<close>

text \<open>\<open>room\<close> is the outcome of the allocations of \<open>co_message_dup_to_queue\<close> and of
  \<open>co_message_mov_to_queue\<close>. The second function says whether it freed the message.\<close>

definition co_monitor_message_from_user :: "bool \<Rightarrow> co_message \<Rightarrow> guest_io \<Rightarrow> co_rc_value \<times> guest_io" where
  "co_monitor_message_from_user room message io =
     (if msg_to message = CO_MODULE_LINUX
      then if room then (CO_RC_OK, io\<lparr>linux_message_queue := linux_message_queue io @ [message]\<rparr>) else (CO_RC_OUT_OF_MEMORY, io)
      else (CO_RC_ERROR, io))"

definition co_monitor_message_from_user_free :: "bool \<Rightarrow> co_message \<Rightarrow> guest_io \<Rightarrow> co_rc_value \<times> bool \<times> guest_io" where
  "co_monitor_message_from_user_free room message io =
     (let (rc, io) =
        (if msg_to message = CO_MODULE_LINUX
         then if room then (CO_RC_OK, io\<lparr>linux_message_queue := linux_message_queue io @ [message]\<rparr>) else (CO_RC_OUT_OF_MEMORY, io)
         else (CO_RC_ERROR, io))
      in (rc, \<not> CO_OK rc, io))"

section \<open>In the guest\<close>

text \<open>The loop of \<open>co_callback\<close> over its copy of the area: each message is queued with all its bytes.
  A \<open>BUG_ON\<close> is \<^term>\<open>None\<close>.\<close>

function guest_messages :: "uchar list \<Rightarrow> nat \<Rightarrow> uchar list list option" where
  "guest_messages bytes pos =
     (if \<not> pos < length bytes then Some []
      else
        Option.bind (word_at bytes pos) (\<lambda>from.
        Option.bind (word_at bytes (pos + 4)) (\<lambda>to.
        Option.bind (word_at bytes (pos + 16)) (\<lambda>sz.
        Option.bind (word_at bytes (pos + 20)) (\<lambda>device.
          let size = unat (sz + sizeof_co_message)
          in if CO_MODULES_MAX \<le> from \<or> CO_MODULES_MAX \<le> to \<or> CO_DEVICES_TOTAL \<le> device \<or> length bytes < pos + size then None
             else if size = 0 then None
             else map_option ((#) (take size (drop pos bytes))) (guest_messages bytes (pos + size)))))))"
  by pat_completeness auto
termination by (relation "measure (\<lambda>(bytes, pos). length bytes - pos)") auto

declare guest_messages.simps [simp del]

definition co_callback_messages :: "bool \<Rightarrow> ulong \<Rightarrow> guest_io \<Rightarrow> (uchar list list \<times> guest_io) option" where
  "co_callback_messages co_messages_active io_size io =
     map_option (\<lambda>incoming. (incoming, io\<lparr>messages_waiting := 0\<rparr>))
       (if co_messages_active \<and> 0 < sint io_size \<and> sint io_size \<le> uint CO_VPTR_IO_AREA_SIZE
        then guest_messages (take (unat io_size) (io_bytes io)) 0
        else Some [])"

section \<open>What the guest gets\<close>

definition deliverable :: "co_message \<Rightarrow> bool" where
  "deliverable m \<longleftrightarrow>
     msg_from m < CO_MODULES_MAX \<and> msg_to m < CO_MODULES_MAX \<and> length (msg_data m) = unat (msg_size m) \<and>
     unat (msg_size m) + 20 < 2 ^ 32 \<and> (case linux_message_device m of None \<Rightarrow> False | Some d \<Rightarrow> d < CO_DEVICES_TOTAL)"

text \<open>The messages that fit into the room that is left.\<close>

fun fitting :: "nat \<Rightarrow> co_message list \<Rightarrow> co_message list" where
  "fitting room [] = []"
| "fitting room (m # ms) =
     (if length (message_bytes m) \<le> room then m # fitting (room - length (message_bytes m)) ms else [])"

lemma message_bytes_size:
  assumes "deliverable m"
  shows "unat (msg_size m + sizeof_co_message) = length (message_bytes m)" and "length (message_bytes m) = 20 + unat (msg_size m)"
proof -
  show len: "length (message_bytes m) = 20 + unat (msg_size m)"
    using assms by (simp add: message_bytes_def le32_def deliverable_def)
  have "unat (msg_size m + 20) = unat (msg_size m) + 20"
    using assms by (subst unat_add_small) (simp_all add: deliverable_def)
  then show "unat (msg_size m + sizeof_co_message) = length (message_bytes m)" using len by (simp add: sizeof_co_message_def)
qed

lemma return_loop_fitting:
  assumes "\<forall>m \<in> set queue. deliverable m" and "pos \<le> length (io_bytes io)"
  shows "\<exists>bytes. return_messages_loop queue pos io =
      Some (length (take pos (io_bytes io) @ concat (map message_bytes (fitting (length (io_bytes io) - pos) queue))),
        io\<lparr>linux_message_queue := drop (length (fitting (length (io_bytes io) - pos) queue)) queue,
          messages_waiting := messages_waiting io + word_of_nat (length (fitting (length (io_bytes io) - pos) queue)),
          io_bytes := bytes\<rparr>) \<and>
    length bytes = length (io_bytes io) \<and>
    (\<exists>rest. bytes = take pos (io_bytes io) @ concat (map message_bytes (fitting (length (io_bytes io) - pos) queue)) @ rest)"
  using assms
proof (induction queue arbitrary: pos io)
  case Nil
  have "\<exists>rest. io_bytes io = take pos (io_bytes io) @ rest" by (metis append_take_drop_id)
  then show ?case using Nil by (intro exI [of _ "io_bytes io"]) (simp add: min_def)
next
  case (Cons m queue)
  let ?n = "length (message_bytes m)"
  have del: "deliverable m" using Cons.prems(1) by simp
  note size = message_bytes_size [OF del]
  show ?case
  proof (cases "?n \<le> length (io_bytes io) - pos")
    case False
    have "\<exists>rest. io_bytes io = take pos (io_bytes io) @ rest" by (metis append_take_drop_id)
    moreover have "length (io_bytes io) < pos + unat (msg_size m + sizeof_co_message)" using False Cons.prems(2) size(1) by linarith
    ultimately show ?thesis using False Cons.prems(2)
      by (intro exI [of _ "io_bytes io"]) (simp add: min_def Let_def)
  next
    case True
    let ?bytes = "take pos (io_bytes io) @ message_bytes m @ drop (pos + ?n) (io_bytes io)"
    let ?io = "io\<lparr>messages_waiting := messages_waiting io + 1, io_bytes := ?bytes\<rparr>"
    have copy: "copy_loop (io_bytes io) pos (message_bytes m) 0 ?n = Some ?bytes"
      using True Cons.prems(2) by (simp add: copy_loop_Some)
    obtain device where "linux_message_device m = Some device" "device < CO_DEVICES_TOTAL"
      using del by (auto simp: deliverable_def split: option.splits)
    then have run: "return_messages_loop (m # queue) pos io = return_messages_loop queue (pos + ?n) ?io"
    proof -
      have "\<not> length (io_bytes io) < pos + unat (msg_size m + sizeof_co_message)" using True Cons.prems(2) size(1) by linarith
      moreover have "\<not> CO_MODULES_MAX \<le> msg_from m" "\<not> CO_MODULES_MAX \<le> msg_to m" "\<not> CO_DEVICES_TOTAL \<le> device"
        using del \<open>device < CO_DEVICES_TOTAL\<close> by (simp_all add: deliverable_def not_le)
      ultimately show ?thesis
        using copy \<open>linux_message_device m = Some device\<close> unfolding return_messages_loop.simps Let_def size(1) by simp
    qed
    have len: "length ?bytes = length (io_bytes io)" using True Cons.prems(2) by simp
    have room: "length (io_bytes ?io) - (pos + ?n) = length (io_bytes io) - pos - ?n" using len by simp
    have pre: "take (pos + ?n) (io_bytes ?io) = take pos (io_bytes io) @ message_bytes m" using True Cons.prems(2) by simp
    show ?thesis
      using Cons.IH [of "pos + ?n" ?io] Cons.prems True len
      unfolding run room pre by (auto simp: add.assoc)
  qed
qed


lemma message_fields:
  assumes "deliverable m"
  shows "word_at (message_bytes m) 0 = Some (msg_from m)" "word_at (message_bytes m) 4 = Some (msg_to m)"
    "word_at (message_bytes m) 16 = Some (msg_size m)" "word_at (message_bytes m) 20 = linux_message_device m"
proof -
  show "word_at (message_bytes m) 0 = Some (msg_from m)" by (simp add: message_bytes_def word_at_header)
  show "word_at (message_bytes m) 4 = Some (msg_to m)"
    using word_at_le32 [of "le32 (msg_from m)" "msg_to m"] by (simp add: message_bytes_def)
  show "word_at (message_bytes m) 16 = Some (msg_size m)"
    using word_at_le32 [of "le32 (msg_from m) @ le32 (msg_to m) @ le32 (priority m) @ le32 (msg_type m)" "msg_size m"]
    by (simp add: message_bytes_def)
  obtain device where "linux_message_device m = Some device"
    using assms by (auto simp: deliverable_def split: option.splits)
  then show "word_at (message_bytes m) 20 = linux_message_device m"
    using word_at_append [of "take (unat (msg_size m)) (msg_data m)" 0 device
      "le32 (msg_from m) @ le32 (msg_to m) @ le32 (priority m) @ le32 (msg_type m) @ le32 (msg_size m)" "[]"]
    by (simp add: message_bytes_def linux_message_device_def)
qed

lemma guest_step:
  assumes "word_at bytes pos = Some from" "word_at bytes (pos + 4) = Some to" "word_at bytes (pos + 16) = Some sz"
    "word_at bytes (pos + 20) = Some device" and "from < CO_MODULES_MAX" "to < CO_MODULES_MAX" "device < CO_DEVICES_TOTAL"
    and "unat (sz + sizeof_co_message) = n" "n \<noteq> 0" "pos + n \<le> length bytes"
  shows "guest_messages bytes pos = map_option ((#) (take n (drop pos bytes))) (guest_messages bytes (pos + n))"
proof -
  have "pos < length bytes" using assms(9,10) by simp
  then show ?thesis using assms by (subst guest_messages.simps) (auto simp: Let_def dest: leD)
qed

lemma guest_gets:
  assumes "\<forall>m \<in> set ms. deliverable m"
  shows "guest_messages (pre @ concat (map message_bytes ms)) (length pre) = Some (map message_bytes ms)"
  using assms
proof (induction ms arbitrary: pre)
  case Nil
  then show ?case by (simp add: guest_messages.simps [of pre])
next
  case (Cons m ms)
  let ?all = "pre @ message_bytes m @ concat (map message_bytes ms)"
  have del: "deliverable m" using Cons.prems by simp
  note size = message_bytes_size [OF del] and fields = message_fields [OF del]
  obtain device where device: "linux_message_device m = Some device" "device < CO_DEVICES_TOTAL"
    using del by (auto simp: deliverable_def split: option.splits)
  have at: "word_at ?all (length pre) = Some (msg_from m)" "word_at ?all (length pre + 4) = Some (msg_to m)"
      "word_at ?all (length pre + 16) = Some (msg_size m)" "word_at ?all (length pre + 20) = Some device"
    using word_at_append [OF fields(1), of pre] word_at_append [OF fields(2), of pre] word_at_append [OF fields(3), of pre]
      word_at_append [OF fields(4) [unfolded device(1)], of pre] by simp_all
  have next_pos: "guest_messages ?all (length pre + length (message_bytes m)) = Some (map message_bytes ms)"
    using Cons.IH [of "pre @ message_bytes m"] Cons.prems by simp
  have long: "length pre + length (message_bytes m) \<le> length ?all" "length (message_bytes m) \<noteq> 0" using size(2) by simp_all
  have "guest_messages ?all (length pre) =
      map_option ((#) (take (length (message_bytes m)) (drop (length pre) ?all))) (guest_messages ?all (length pre + length (message_bytes m)))"
    by (rule guest_step [OF at]) (use del device(2) size(1) long in \<open>simp_all add: deliverable_def\<close>)
  then show ?case unfolding next_pos by simp
qed


lemma fitting_prefix: "fitting room ms = take (length (fitting room ms)) ms"
  by (induction room ms rule: fitting.induct) auto

lemma fitting_room: "length (concat (map message_bytes (fitting room ms))) \<le> room"
  by (induction room ms rule: fitting.induct) auto

lemma fitting_rest:
  "fitting room ms = ms \<or>
   room < length (concat (map message_bytes (fitting room ms))) + length (message_bytes (ms ! length (fitting room ms)))"
  by (induction room ms rule: fitting.induct) auto

text \<open>One exchange: what the driver sends is what the guest gets, the rest of the queue stays.\<close>

lemma exchange_delivers:
  assumes "\<forall>m \<in> set (linux_message_queue io). deliverable m" and "messages_waiting io = 0"
    and "length (io_bytes io) = unat CO_VPTR_IO_AREA_SIZE - 4"
  shows "\<exists>n io' sent. callback_return_messages (Some io) = Some (CO_RC_OK, n, Some io') \<and>
    co_callback_messages True n io' = Some (map message_bytes sent, io'\<lparr>messages_waiting := 0\<rparr>) \<and>
    linux_message_queue io = sent @ linux_message_queue io' \<and> length (io_bytes io') = length (io_bytes io) \<and>
    (case linux_message_queue io' of [] \<Rightarrow> True
     | m # ms \<Rightarrow> unat CO_VPTR_IO_AREA_SIZE - 4 < length (concat (map message_bytes sent)) + length (message_bytes m))"
proof -
  let ?sent = "fitting (unat CO_VPTR_IO_AREA_SIZE - 4) (linux_message_queue io)"
  let ?all = "concat (map message_bytes ?sent)"
  let ?rest = "drop (length ?sent) (linux_message_queue io)"
  let ?io = "\<lambda>bytes. io\<lparr>linux_message_queue := ?rest, messages_waiting := word_of_nat (length ?sent), io_bytes := bytes\<rparr>"
  obtain bytes rest where run: "callback_return_messages (Some io) = Some (CO_RC_OK, word_of_nat (length ?all), Some (?io bytes))"
      and bytes: "bytes = ?all @ rest" "length bytes = length (io_bytes io)"
    using return_loop_fitting [OF assms(1), of 0 "io\<lparr>messages_waiting := 0\<rparr>"] assms(2,3) by (auto simp: callback_return_messages_def)
  have area: "unat CO_VPTR_IO_AREA_SIZE = 0x10000" by (simp add: CO_VPTR_IO_AREA_SIZE_def)
  have small: "length ?all \<le> 0xfffc" using fitting_room [of "unat CO_VPTR_IO_AREA_SIZE - 4"] unfolding area by simp
  have sent: "\<forall>m \<in> set ?sent. deliverable m"
    using assms(1) fitting_prefix [of "unat CO_VPTR_IO_AREA_SIZE - 4" "linux_message_queue io"] by (metis in_set_takeD)
  have "co_callback_messages True (word_of_nat (length ?all)) (?io bytes) =
      Some (map message_bytes ?sent, ?io bytes\<lparr>messages_waiting := 0\<rparr>)"
  proof (cases "length ?all = 0")
    case True
    then have "map message_bytes ?sent = []"
      using sent message_bytes_size(2) by (cases ?sent) auto
    then show ?thesis by (simp add: co_callback_messages_def)
  next
    case False
    have n: "unat (word_of_nat (length ?all) :: ulong) = length ?all" using small by (simp add: unsigned_of_nat take_bit_nat_eq_self del: length_concat)
    moreover have "sint (word_of_nat (length ?all) :: ulong) = int (length ?all)"
      using small by (simp add: signed_of_nat signed_take_bit_int_eq_self del: length_concat)
    ultimately show ?thesis
      using False small guest_gets [OF sent, of "[]"] area
      by (simp add: co_callback_messages_def bytes(1) uint_nat del: length_concat)
  qed
  moreover have "linux_message_queue io = ?sent @ ?rest" using fitting_prefix by (metis append_take_drop_id)
  moreover have "case ?rest of [] \<Rightarrow> True | m # ms \<Rightarrow> unat CO_VPTR_IO_AREA_SIZE - 4 < length ?all + length (message_bytes m)"
    using fitting_rest [of "unat CO_VPTR_IO_AREA_SIZE - 4" "linux_message_queue io"]
    by (cases ?rest) (auto dest: nth_via_drop)
  moreover have fields: "linux_message_queue (?io bytes) = ?rest" "length (io_bytes (?io bytes)) = length (io_bytes io)" using bytes(2) by simp_all
  ultimately show ?thesis using run
    by (intro exI [of _ "word_of_nat (length ?all)"] exI [of _ "?io bytes"] exI [of _ ?sent] conjI) (simp_all only: fields)
qed


text \<open>The exchanges of the driver and the guest, one for each return to the guest.\<close>

fun exchanges :: "nat \<Rightarrow> guest_io \<Rightarrow> (uchar list list \<times> guest_io) option" where
  "exchanges 0 io = Some ([], io)"
| "exchanges (Suc n) io =
     Option.bind (callback_return_messages (Some io)) (\<lambda>(rc, size, io).
     Option.bind io (\<lambda>io.
     Option.bind (co_callback_messages True size io) (\<lambda>(incoming, io).
       map_option (\<lambda>(later, io). (incoming @ later, io)) (exchanges n io))))"

lemma exchanges_deliver:
  assumes "\<forall>m \<in> set (linux_message_queue io). deliverable m \<and> unat (msg_size m) + 20 \<le> length (io_bytes io)"
    and "messages_waiting io = 0" and "length (io_bytes io) = unat CO_VPTR_IO_AREA_SIZE - 4"
    and "length (linux_message_queue io) \<le> n"
  shows "map_option (\<lambda>(incoming, io). (incoming, linux_message_queue io, messages_waiting io)) (exchanges n io) =
    Some (map message_bytes (linux_message_queue io), [], 0)"
  using assms
proof (induction n arbitrary: io)
  case 0
  then show ?case by simp
next
  case (Suc n)
  obtain size io' sent where one: "callback_return_messages (Some io) = Some (CO_RC_OK, size, Some io')"
      "co_callback_messages True size io' = Some (map message_bytes sent, io'\<lparr>messages_waiting := 0\<rparr>)"
      and queue: "linux_message_queue io = sent @ linux_message_queue io'" "length (io_bytes io') = length (io_bytes io)"
      and rest: "case linux_message_queue io' of [] \<Rightarrow> True
       | m # ms \<Rightarrow> unat CO_VPTR_IO_AREA_SIZE - 4 < length (concat (map message_bytes sent)) + length (message_bytes m)"
    using exchange_delivers [of io] Suc.prems by blast
  have "length (linux_message_queue io') \<le> n"
  proof (cases sent)
    case Nil
    show ?thesis
    proof (cases "linux_message_queue io'")
      case (Cons m ms)
      then have "deliverable m" "unat (msg_size m) + 20 \<le> length (io_bytes io)" using Suc.prems(1) queue(1) by simp_all
      then show ?thesis using rest Cons Nil message_bytes_size(2) [of m] Suc.prems(3) by simp
    qed simp
  next
    case (Cons m ms)
    then show ?thesis using Suc.prems(4) queue(1) by simp
  qed
  then have "map_option (\<lambda>(incoming, io). (incoming, linux_message_queue io, messages_waiting io)) (exchanges n (io'\<lparr>messages_waiting := 0\<rparr>)) =
      Some (map message_bytes (linux_message_queue io'), [], 0)"
    using Suc.IH [of "io'\<lparr>messages_waiting := 0\<rparr>"] Suc.prems queue by simp
  then show ?case using one queue(1) by (auto simp: map_option_case split: option.splits)
qed


definition demo_packet :: "uchar \<Rightarrow> co_message" where
  "demo_packet b = \<lparr>msg_from = CO_MODULE_CONET0, msg_to = CO_MODULE_LINUX, priority = 0, msg_type = 1, msg_size = 13,
     msg_data = le32 3 @ le32 0 @ le32 1 @ [b]\<rparr>"




end
