(* ===== verification/Co_Cmdline.thy ===== *)
theory Co_Cmdline
  imports Co_Snprintf Ret_Code
begin

text \<open>
  The command line of the daemons (\<open>src/colinux/user/cmdline.c\<close>): its expansion by parameter
  files, read in two passes, and the functions that take parameters out of it. An entry of \<open>argv\<close>
  is its string without the NUL, or \<^term>\<open>None\<close> for \<open>NULL\<close>; \<open>argc\<close> is the length of the list.
  On strings, \<open>co_strcmp\<close> and \<open>co_strncmp\<close> compare as proved of their model in \<open>Co_Libc\<close>.
\<close>

text \<open>The outcomes of the allocations to come; when the list is used up they succeed.\<close>

definition alloc :: "bool list \<Rightarrow> bool \<times> bool list" where
  "alloc rooms = (case rooms of [] \<Rightarrow> (True, []) | r # rs \<Rightarrow> (r, rs))"

section \<open>Parameter files\<close>

datatype param_parse_state = PARAM_PARSE_STATE_INIT | PARAM_PARSE_STATE_WHITESPACE | PARAM_PARSE_STATE_COMMENT
  | PARAM_PARSE_STATE_PARAM | PARAM_PARSE_STATE_PARAM_EQUAL | PARAM_PARSE_STATE_PARAM_EQUAL_STR

datatype param_parse_mark = PARAM_PARSE_MARK_NONE | PARAM_PARSE_MARK_START_OF_PARAM | PARAM_PARSE_MARK_END_OF_PARAM

text \<open>The sets of characters of the table.\<close>

definition code :: "char \<Rightarrow> nat" where "code c = of_char c"

definition white :: "char \<Rightarrow> bool" where
  "white c \<longleftrightarrow> c = CHR '' '' \<or> c = CHR 0x09 \<or> c = CHR 0x0A \<or> c = CHR 0x0D"

definition starts :: "char \<Rightarrow> bool" where
  "starts c \<longleftrightarrow> code (CHR ''a'') \<le> code c \<and> code c \<le> code (CHR ''z'') \<or> code (CHR ''A'') \<le> code c \<and> code c \<le> code (CHR ''Z'') \<or>
     code (CHR ''0'') \<le> code c \<and> code c \<le> code (CHR ''9'') \<or> c = CHR ''.''"

fun parser_states :: "param_parse_state \<Rightarrow> char \<Rightarrow> param_parse_state \<times> param_parse_mark" where
  "parser_states PARAM_PARSE_STATE_INIT c =
     (if c = CHR ''#'' then (PARAM_PARSE_STATE_COMMENT, PARAM_PARSE_MARK_NONE)
      else if starts c then (PARAM_PARSE_STATE_PARAM, PARAM_PARSE_MARK_START_OF_PARAM)
      else if white c then (PARAM_PARSE_STATE_WHITESPACE, PARAM_PARSE_MARK_NONE)
      else (PARAM_PARSE_STATE_INIT, PARAM_PARSE_MARK_NONE))"
| "parser_states PARAM_PARSE_STATE_COMMENT c =
     (if c = CHR 0x0A then (PARAM_PARSE_STATE_INIT, PARAM_PARSE_MARK_NONE)
      else (PARAM_PARSE_STATE_COMMENT, PARAM_PARSE_MARK_NONE))"
| "parser_states PARAM_PARSE_STATE_WHITESPACE c =
     (if c = CHR ''#'' then (PARAM_PARSE_STATE_COMMENT, PARAM_PARSE_MARK_NONE)
      else if starts c then (PARAM_PARSE_STATE_PARAM, PARAM_PARSE_MARK_START_OF_PARAM)
      else if white c then (PARAM_PARSE_STATE_WHITESPACE, PARAM_PARSE_MARK_NONE)
      else (PARAM_PARSE_STATE_INIT, PARAM_PARSE_MARK_NONE))"
| "parser_states PARAM_PARSE_STATE_PARAM c =
     (if c = CHR ''#'' then (PARAM_PARSE_STATE_COMMENT, PARAM_PARSE_MARK_END_OF_PARAM)
      else if c = CHR 0x22 then (PARAM_PARSE_STATE_PARAM_EQUAL_STR, PARAM_PARSE_MARK_NONE)
      else if c = CHR ''='' then (PARAM_PARSE_STATE_PARAM_EQUAL, PARAM_PARSE_MARK_NONE)
      else if 0x21 \<le> code c then (PARAM_PARSE_STATE_PARAM, PARAM_PARSE_MARK_NONE)
      else (PARAM_PARSE_STATE_INIT, PARAM_PARSE_MARK_END_OF_PARAM))"
| "parser_states PARAM_PARSE_STATE_PARAM_EQUAL c =
     (if c = CHR ''#'' then (PARAM_PARSE_STATE_COMMENT, PARAM_PARSE_MARK_END_OF_PARAM)
      else if c = CHR 0x22 then (PARAM_PARSE_STATE_PARAM_EQUAL_STR, PARAM_PARSE_MARK_NONE)
      else if 0x21 \<le> code c then (PARAM_PARSE_STATE_PARAM_EQUAL, PARAM_PARSE_MARK_NONE)
      else (PARAM_PARSE_STATE_INIT, PARAM_PARSE_MARK_END_OF_PARAM))"
| "parser_states PARAM_PARSE_STATE_PARAM_EQUAL_STR c =
     (if c = CHR ''#'' then (PARAM_PARSE_STATE_COMMENT, PARAM_PARSE_MARK_END_OF_PARAM)
      else if c = CHR 0x22 then (PARAM_PARSE_STATE_PARAM, PARAM_PARSE_MARK_NONE)
      else if 0x20 \<le> code c then (PARAM_PARSE_STATE_PARAM_EQUAL_STR, PARAM_PARSE_MARK_NONE)
      else (PARAM_PARSE_STATE_INIT, PARAM_PARSE_MARK_END_OF_PARAM))"

text \<open>The list that the second pass fills: \<open>argv\<close> with the pointer \<open>argv_scan\<close> into it.\<close>

record param_list =
  params_count :: nat
  list_argv :: "string option list"
  list_output :: nat
  list_rooms :: "bool list"

record param_scan =
  scan_state :: param_parse_state
  param_start :: "nat option"
  scan_list :: param_list

text \<open>The pointer that is stored is \<^term>\<open>None\<close> for \<open>NULL\<close>.\<close>

definition dup_param :: "string \<Rightarrow> nat \<Rightarrow> bool list \<Rightarrow> co_rc_value \<times> string option \<times> bool list" where
  "dup_param source len rooms =
     (let (room, rooms) = alloc rooms
      in if \<not> room then (CO_RC_OUT_OF_MEMORY, None, rooms) else (CO_RC_OK, Some (take len source), rooms))"

definition store_param :: "string \<Rightarrow> nat \<Rightarrow> param_list \<Rightarrow> (co_rc_value \<times> param_list) option" where
  "store_param source len l =
     (let (rc, dest, rooms) = dup_param source len (list_rooms l)
      in map_option (\<lambda>argv.
           if \<not> CO_OK rc then (rc, l\<lparr>list_argv := argv, list_rooms := rooms\<rparr>)
           else (rc, l\<lparr>list_argv := argv, list_rooms := rooms, list_output := list_output l + 1, params_count := params_count l + 1\<rparr>))
         (store_at (list_argv l) (int (list_output l)) dest))"

text \<open>The case \<open>PARAM_PARSE_MARK_END_OF_PARAM\<close>. A parameter that cannot be allocated only leaves
  the \<open>switch\<close>. The first component is the code of an early return.\<close>

definition end_of_param :: "bool \<Rightarrow> string \<Rightarrow> nat \<Rightarrow> param_scan \<Rightarrow> (co_rc_value option \<times> param_scan) option" where
  "end_of_param storing buf param_end s =
     (if \<not> storing then Some (None, s\<lparr>scan_list := (scan_list s)\<lparr>params_count := params_count (scan_list s) + 1\<rparr>\<rparr>)
      else case param_start s of
        None \<Rightarrow> Some (Some CO_RC_ERROR, s)
      | Some start \<Rightarrow>
          map_option (\<lambda>(rc, l).
              if \<not> CO_OK rc then (None, s\<lparr>scan_list := l\<rparr>) else (None, s\<lparr>scan_list := l, param_start := None\<rparr>))
            (store_param (drop start buf) (param_end - start) (scan_list s)))"

text \<open>The loop over \<open>filescan\<close>, which ends at the first NUL: one of the file or the one after it.\<close>

function scan_params :: "bool \<Rightarrow> string \<Rightarrow> nat \<Rightarrow> param_scan \<Rightarrow> (co_rc_value option \<times> param_scan) option" where
  "scan_params storing buf filescan s =
     (let cur_char = (if filescan < length buf then buf ! filescan else CHR 0x00);
          (state, mark) = parser_states (scan_state s) cur_char;
          s = s\<lparr>scan_state := state\<rparr>
      in Option.bind
           (case mark of
              PARAM_PARSE_MARK_START_OF_PARAM \<Rightarrow> Some (None, s\<lparr>param_start := Some filescan\<rparr>)
            | PARAM_PARSE_MARK_END_OF_PARAM \<Rightarrow> end_of_param storing buf filescan s
            | PARAM_PARSE_MARK_NONE \<Rightarrow> Some (None, s))
           (\<lambda>(ret, s). if ret \<noteq> None then Some (ret, s)
              else if cur_char = CHR 0x00 then Some (None, s) else scan_params storing buf (filescan + 1) s))"
  by pat_completeness auto
termination by (relation "measure (\<lambda>(storing, buf, filescan, s). length buf - filescan)") (auto split: if_splits)

declare scan_params.simps [simp del]

text \<open>\<open>co_os_file_load\<close> is the parameter \<open>load\<close>. \<open>list_output\<close> is \<open>NULL\<close> unless \<open>storing\<close>.\<close>

definition get_params_list :: "(string \<Rightarrow> co_rc_value \<times> string) \<Rightarrow> string \<Rightarrow> bool \<Rightarrow> param_list \<Rightarrow> (co_rc_value \<times> param_list) option" where
  "get_params_list load filename storing l =
     (let (rc, buf) = load filename
      in if \<not> CO_OK rc then Some (rc, l)
         else if 0 < length buf
         then map_option (\<lambda>(ret, s). (case ret of None \<Rightarrow> CO_RC_OK | Some rc \<Rightarrow> rc, scan_list s))
                (scan_params storing buf 0 \<lparr>scan_state = PARAM_PARSE_STATE_INIT, param_start = None, scan_list = l\<rparr>)
         else Some (CO_RC_OK, l))"

definition is_file :: "string \<Rightarrow> bool" where
  "is_file arg \<longleftrightarrow> 1 \<le> length arg \<and> arg ! 0 = CHR ''@''"

text \<open>The two loops of \<open>eval_params_file\<close>.\<close>

fun count_params :: "(string \<Rightarrow> co_rc_value \<times> string) \<Rightarrow> string list \<Rightarrow> param_list \<Rightarrow> (co_rc_value \<times> param_list) option" where
  "count_params load [] l = Some (CO_RC_OK, l)"
| "count_params load (arg # args) l =
     (if is_file arg
      then Option.bind (get_params_list load (drop 1 arg) False l) (\<lambda>(rc, l).
             if \<not> CO_OK rc then Some (rc, l) else count_params load args l)
      else count_params load args (l\<lparr>params_count := params_count l + 1\<rparr>))"

fun store_params :: "(string \<Rightarrow> co_rc_value \<times> string) \<Rightarrow> string list \<Rightarrow> param_list \<Rightarrow> (co_rc_value \<times> param_list) option" where
  "store_params load [] l = Some (CO_RC_OK, l)"
| "store_params load (arg # args) l =
     (if is_file arg
      then Option.bind (get_params_list load (drop 1 arg) True l) (\<lambda>(rc, l).
             if \<not> CO_OK rc then Some (rc, l) else store_params load args l)
      else Option.bind (store_param arg (length arg) l) (\<lambda>(rc, l).
             if \<not> CO_OK rc then Some (rc, l) else store_params load args l))"

text \<open>The files may differ between the passes: \<open>load\<close> is what the first one finds, \<open>load'\<close> the
  second. The result is the code and the new \<open>argv\<close> up to \<open>argc\<close>; on an error the old one stays.\<close>

definition eval_params_file ::
  "(string \<Rightarrow> co_rc_value \<times> string) \<Rightarrow> (string \<Rightarrow> co_rc_value \<times> string) \<Rightarrow> string list \<Rightarrow> bool list \<Rightarrow>
   (co_rc_value \<times> string option list) option" where
  "eval_params_file load load' args rooms =
     Option.bind (count_params load args \<lparr>params_count = 0, list_argv = [], list_output = 0, list_rooms = rooms\<rparr>) (\<lambda>(rc, l).
       if \<not> CO_OK rc then Some (rc, map Some args)
       else let (room, rooms) = alloc (list_rooms l)
       in if \<not> room then Some (CO_RC_OUT_OF_MEMORY, map Some args)
       else Option.bind (store_params load' args
              \<lparr>params_count = 0, list_argv = replicate (params_count l) None, list_output = 0, list_rooms = rooms\<rparr>) (\<lambda>(rc, l).
         if \<not> CO_OK rc then Some (rc, map Some args)
         else Some (CO_RC_OK, take (params_count l) (list_argv l))))"

text \<open>The command line it hands out, or \<^term>\<open>None\<close> inside the pair on an error.\<close>

definition co_cmdline_params_alloc ::
  "(string \<Rightarrow> co_rc_value \<times> string) \<Rightarrow> (string \<Rightarrow> co_rc_value \<times> string) \<Rightarrow> string list \<Rightarrow> bool list \<Rightarrow>
   (co_rc_value \<times> string option list option) option" where
  "co_cmdline_params_alloc load load' argv rooms =
     (let (room, rooms) = alloc rooms
      in if \<not> room then Some (CO_RC_OUT_OF_MEMORY, None)
      else let (room, rooms) = alloc rooms
      in if \<not> room then Some (CO_RC_OUT_OF_MEMORY, None)
      else map_option (\<lambda>(rc, argv). if \<not> CO_OK rc then (rc, None) else (CO_RC_OK, Some argv))
             (eval_params_file load load' argv rooms))"

section \<open>What a parameter file holds\<close>

text \<open>A parameter from inside: up to a character that ends it, which stays in the rest. The flag
  says whether the text is inside quotes.\<close>

fun param_token :: "bool \<Rightarrow> string \<Rightarrow> string \<times> string" where
  "param_token quoted [] = ([], [])"
| "param_token quoted (c # cs) =
     (if c = CHR ''#'' \<or> code c < 0x20 \<or> c = CHR '' '' \<and> \<not> quoted then ([], c # cs)
      else let (t, r) = param_token (if c = CHR 0x22 then \<not> quoted else quoted) cs in (c # t, r))"

definition skip_comment :: "string \<Rightarrow> string" where
  "skip_comment cs = dropWhile (\<lambda>c. c \<noteq> CHR 0x0A \<and> c \<noteq> CHR 0x00) cs"

lemma param_token_rest: "length (snd (param_token q cs)) \<le> length cs"
  by (induction q cs rule: param_token.induct) (auto simp: case_prod_beta)

lemma skip_comment_length: "length (skip_comment cs) \<le> length cs"
  by (simp add: skip_comment_def length_dropWhile_le)

function file_params :: "string \<Rightarrow> string list" where
  "file_params [] = []"
| "file_params (c # cs) =
     (if c = CHR 0x00 then []
      else if starts c then (c # fst (param_token False cs)) # file_params (snd (param_token False cs))
      else if c = CHR ''#'' then file_params (skip_comment cs)
      else file_params cs)"
  by pat_completeness auto
termination
  by (relation "measure length") (auto simp: le_imp_less_Suc param_token_rest skip_comment_length)

declare file_params.simps(2) [simp del]

text \<open>A parameter that is complete: in both passes.\<close>

definition emit :: "bool \<Rightarrow> string \<Rightarrow> param_list \<Rightarrow> param_list option" where
  "emit storing t l =
     (if storing then map_option snd (store_param t (length t) l) else Some (l\<lparr>params_count := params_count l + 1\<rparr>))"

fun emits :: "bool \<Rightarrow> string list \<Rightarrow> param_list \<Rightarrow> param_list option" where
  "emits storing [] l = Some l"
| "emits storing (t # ts) l = Option.bind (emit storing t l) (emits storing ts)"

text \<open>What is still to come when the scan stands at \<open>cs\<close> and \<open>done\<close> is read of a parameter.\<close>

definition pending :: "param_parse_state \<Rightarrow> string \<Rightarrow> string \<Rightarrow> string list" where
  "pending state red cs =
     (case state of
        PARAM_PARSE_STATE_INIT \<Rightarrow> file_params cs
      | PARAM_PARSE_STATE_WHITESPACE \<Rightarrow> file_params cs
      | PARAM_PARSE_STATE_COMMENT \<Rightarrow> file_params (skip_comment cs)
      | PARAM_PARSE_STATE_PARAM \<Rightarrow> (red @ fst (param_token False cs)) # file_params (snd (param_token False cs))
      | PARAM_PARSE_STATE_PARAM_EQUAL \<Rightarrow> (red @ fst (param_token False cs)) # file_params (snd (param_token False cs))
      | PARAM_PARSE_STATE_PARAM_EQUAL_STR \<Rightarrow> (red @ fst (param_token True cs)) # file_params (snd (param_token True cs)))"

definition in_param :: "param_parse_state \<Rightarrow> bool" where
  "in_param state \<longleftrightarrow> state \<in> {PARAM_PARSE_STATE_PARAM, PARAM_PARSE_STATE_PARAM_EQUAL, PARAM_PARSE_STATE_PARAM_EQUAL_STR}"

text \<open>One step of the table on a character of the file.\<close>

lemma code_eq: "code c = code d \<longleftrightarrow> c = d"
  by (simp add: code_def)

lemma code_chars [simp]: "code (CHR 0x00) = 0" "code (CHR '' '') = 0x20" "code (CHR ''#'') = 0x23" "code (CHR 0x22) = 0x22"
    "code (CHR ''='') = 0x3d" "code (CHR 0x0A) = 0x0a" "code (CHR 0x09) = 0x09" "code (CHR 0x0D) = 0x0d" "code (CHR ''.'') = 0x2e"
    "code (CHR ''a'') = 0x61" "code (CHR ''z'') = 0x7a" "code (CHR ''A'') = 0x41" "code (CHR ''Z'') = 0x5a"
    "code (CHR ''0'') = 0x30" "code (CHR ''9'') = 0x39"
  by (simp_all add: code_def)

lemma starts_code: "starts c \<Longrightarrow> 0x2e \<le> code c"
  by (auto simp: starts_def)

lemma starts_not [simp]: "\<not> starts (CHR ''#'')" "\<not> starts (CHR 0x0A)" "\<not> starts (CHR 0x00)" "\<not> starts (CHR '' '')" "\<not> starts (CHR 0x22)"
  by (auto dest: starts_code)

lemma ends_word: "(code c < 0x20 \<or> c = CHR '' '') \<longleftrightarrow> \<not> 0x21 \<le> code c"
  using code_eq [of c "CHR '' ''"] by auto

lemma file_params_step:
  "file_params (c # cs) =
     (if c = CHR 0x00 then []
      else if starts c then (c # fst (param_token False cs)) # file_params (snd (param_token False cs))
      else if c = CHR ''#'' then file_params (skip_comment cs)
      else file_params cs)"
  by (rule file_params.simps)

lemma file_params_white: "code c \<le> 0x20 \<Longrightarrow> c \<noteq> CHR 0x00 \<Longrightarrow> file_params (c # cs) = file_params cs"
  using starts_code [of c] by (auto simp: file_params_step)

lemma param_token_out:
  "param_token False (c # cs) =
    (if c = CHR ''#'' \<or> \<not> 0x21 \<le> code c then ([], c # cs)
     else (c # fst (param_token (c = CHR 0x22) cs), snd (param_token (c = CHR 0x22) cs)))"
  using ends_word [of c] by (auto simp: case_prod_beta)

lemma param_token_in:
  "param_token True (c # cs) =
    (if c = CHR ''#'' \<or> \<not> 0x20 \<le> code c then ([], c # cs)
     else (c # fst (param_token (c \<noteq> CHR 0x22) cs), snd (param_token (c \<noteq> CHR 0x22) cs)))"
  by (auto simp: case_prod_beta)

declare param_token.simps(2) [simp del]

lemma file_params_comment: "file_params (CHR ''#'' # cs) = file_params (skip_comment cs)"
  by (simp add: file_params_step)

lemma skip_comment_step: "c \<noteq> CHR 0x00 \<Longrightarrow> skip_comment (c # cs) = (if c = CHR 0x0A then c # cs else skip_comment cs)"
  by (simp add: skip_comment_def)

lemma pending_step:
  assumes "c \<noteq> CHR 0x00" and "parser_states state c = (state', mark)"
  shows "pending state red (c # cs) =
    (case mark of
       PARAM_PARSE_MARK_NONE \<Rightarrow> pending state' (red @ [c]) cs
     | PARAM_PARSE_MARK_START_OF_PARAM \<Rightarrow> pending state' [c] cs
     | PARAM_PARSE_MARK_END_OF_PARAM \<Rightarrow> red # pending state' [] cs)"
  using assms starts_code [of c]
  by (cases state)
    (auto simp: pending_def file_params_step param_token_in param_token_out file_params_white file_params_comment skip_comment_step
      split: if_splits)

lemma in_param_step:
  assumes "parser_states state c = (state', mark)"
  shows "case mark of
       PARAM_PARSE_MARK_NONE \<Rightarrow> in_param state = in_param state'
     | PARAM_PARSE_MARK_START_OF_PARAM \<Rightarrow> \<not> in_param state \<and> in_param state'
     | PARAM_PARSE_MARK_END_OF_PARAM \<Rightarrow> in_param state \<and> \<not> in_param state'"
  using assms by (cases state) (auto simp: in_param_def split: if_splits)

text \<open>At the end of the text, as at a NUL.\<close>

lemma pending_end:
  assumes "parser_states state (CHR 0x00) = (state', mark)" and "cs = [] \<or> hd cs = CHR 0x00"
  shows "pending state red cs = (case mark of PARAM_PARSE_MARK_END_OF_PARAM \<Rightarrow> [red] | _ \<Rightarrow> [])"
  using assms
  by (cases state; cases cs; auto simp: pending_def file_params_step param_token_in param_token_out skip_comment_def white_def)

lemma end_mark: "parser_states state (CHR 0x00) = (state', mark) \<Longrightarrow> mark \<noteq> PARAM_PARSE_MARK_START_OF_PARAM"
  by (cases state) (auto simp: white_def)

definition text_read :: "string \<Rightarrow> nat \<Rightarrow> param_scan \<Rightarrow> string" where
  "text_read buf i s = (case param_start s of None \<Rightarrow> [] | Some a \<Rightarrow> take (i - a) (drop a buf))"

definition scan_ok :: "nat \<Rightarrow> param_scan \<Rightarrow> bool" where
  "scan_ok i s \<longleftrightarrow> (in_param (scan_state s) \<longrightarrow> (\<exists>a \<le> i. param_start s = Some a))"

lemma end_of_param_emit:
  assumes "scan_ok i s" and "in_param (scan_state s)" and "i \<le> length buf"
  shows "(case emit storing (text_read buf i s) (scan_list s) of
      None \<Rightarrow> end_of_param storing buf i (s\<lparr>scan_state := state'\<rparr>) = None
    | Some l \<Rightarrow> \<exists>start. end_of_param storing buf i (s\<lparr>scan_state := state'\<rparr>) =
        Some (None, s\<lparr>scan_state := state', scan_list := l, param_start := start\<rparr>))"
proof (cases storing)
  case False
  then show ?thesis by (auto simp: emit_def end_of_param_def intro!: exI [of _ "param_start s"])
next
  case True
  obtain a where a: "param_start s = Some a" "a \<le> i" using assms by (auto simp: scan_ok_def)
  have "dup_param (drop a buf) (i - a) rooms = dup_param (text_read buf i s) (length (text_read buf i s)) rooms" for rooms
    unfolding dup_param_def text_read_def a(1) option.case take_all [OF order_refl] ..
  then have same: "store_param (drop a buf) (i - a) (scan_list s) = store_param (text_read buf i s) (length (text_read buf i s)) (scan_list s)"
    by (simp add: store_param_def)
  show ?thesis
  proof (cases "store_param (drop a buf) (i - a) (scan_list s)")
    case None
    then show ?thesis using True a(1) same by (simp add: emit_def end_of_param_def)
  next
    case (Some r)
    obtain rc l where r: "r = (rc, l)" by fastforce
    show ?thesis
    proof (cases "CO_OK rc")
      case True
      then show ?thesis using \<open>storing\<close> a(1) Some r same by (simp add: emit_def end_of_param_def) (rule exI, rule refl)
    next
      case False
      then show ?thesis
        using \<open>storing\<close> a(1) Some r same by (simp add: emit_def end_of_param_def) (rule exI [of _ "param_start s"], simp)
    qed
  qed
qed

lemma scan_params_step:
  assumes "parser_states (scan_state s) c = (state, mark)" and "c = (if i < length buf then buf ! i else CHR 0x00)"
  shows "scan_params storing buf i s =
    Option.bind
      (case mark of
         PARAM_PARSE_MARK_START_OF_PARAM \<Rightarrow> Some (None, s\<lparr>scan_state := state, param_start := Some i\<rparr>)
       | PARAM_PARSE_MARK_END_OF_PARAM \<Rightarrow> end_of_param storing buf i (s\<lparr>scan_state := state\<rparr>)
       | PARAM_PARSE_MARK_NONE \<Rightarrow> Some (None, s\<lparr>scan_state := state\<rparr>))
      (\<lambda>(ret, s). if ret \<noteq> None then Some (ret, s)
         else if c = CHR 0x00 then Some (None, s) else scan_params storing buf (i + 1) s)"
  by (subst scan_params.simps) (simp only: assms(2) [symmetric] Let_def assms(1) prod.case)

lemma bind_ret: "Option.bind r (\<lambda>(ret, s). if ret \<noteq> None then Some (ret, s) else Some (None, s)) = r"
  by (cases r) auto

lemma scan_params_last:
  assumes "scan_ok i s" and "i \<le> length buf" and "(if i < length buf then buf ! i else CHR 0x00) = CHR 0x00"
  shows "map_option (\<lambda>(ret, s). (ret, scan_list s)) (scan_params storing buf i s) =
    map_option (Pair None) (emits storing (pending (scan_state s) (text_read buf i s) (drop i buf)) (scan_list s))"
proof -
  obtain state mark where step: "parser_states (scan_state s) (CHR 0x00) = (state, mark)" by fastforce
  have "drop i buf = [] \<or> hd (drop i buf) = CHR 0x00" using assms(2,3) by (auto simp: hd_drop_conv_nth split: if_splits)
  note pend = pending_end [OF step this, of "text_read buf i s"]
  have run: "scan_params storing buf i s =
    (case mark of
       PARAM_PARSE_MARK_START_OF_PARAM \<Rightarrow> Some (None, s\<lparr>scan_state := state, param_start := Some i\<rparr>)
     | PARAM_PARSE_MARK_END_OF_PARAM \<Rightarrow> end_of_param storing buf i (s\<lparr>scan_state := state\<rparr>)
     | PARAM_PARSE_MARK_NONE \<Rightarrow> Some (None, s\<lparr>scan_state := state\<rparr>))"
    unfolding scan_params_step [OF step assms(3) [symmetric]] by (simp only: simp_thms if_True bind_ret)
  show ?thesis
  proof (cases mark)
    case PARAM_PARSE_MARK_END_OF_PARAM
    then have "in_param (scan_state s)" using in_param_step [OF step] by simp
    from end_of_param_emit [OF assms(1) this assms(2), of storing state] show ?thesis
      using PARAM_PARSE_MARK_END_OF_PARAM unfolding run pend by (auto split: option.splits)
  qed (use end_mark [OF step] in \<open>auto simp: run pend\<close>)
qed

lemma scan_params_emits:
  assumes "scan_ok i s" and "i \<le> length buf"
  shows "map_option (\<lambda>(ret, s). (ret, scan_list s)) (scan_params storing buf i s) =
    map_option (Pair None) (emits storing (pending (scan_state s) (text_read buf i s) (drop i buf)) (scan_list s))"
  using assms
proof (induction "length buf - i" arbitrary: i s)
  case 0
  then show ?case by (intro scan_params_last) auto
next
  case (Suc n)
  let ?c = "buf ! i"
  have i: "i < length buf" using Suc(2) by simp
  obtain state mark where step: "parser_states (scan_state s) ?c = (state, mark)" by fastforce
  have c: "?c = (if i < length buf then buf ! i else CHR 0x00)" using i by simp
  have cs: "drop i buf = ?c # drop (i + 1) buf" using i by (simp add: Cons_nth_drop_Suc)
  show ?case
  proof (cases "?c = CHR 0x00")
    case True
    then show ?thesis using Suc by (intro scan_params_last) auto
  next
    case False
    note pend = pending_step [OF False step, of "text_read buf i s" "drop (i + 1) buf", folded cs]
    have IH: "map_option (\<lambda>(ret, s). (ret, scan_list s)) (scan_params storing buf (i + 1) s') =
        map_option (Pair None) (emits storing (pending (scan_state s') (text_read buf (i + 1) s') (drop (i + 1) buf)) (scan_list s'))"
      if "scan_ok (i + 1) s'" for s'
      using Suc(1) [of "i + 1" s'] Suc(2) i that by simp
    have run: "scan_params storing buf i s = Option.bind
      (case mark of
         PARAM_PARSE_MARK_START_OF_PARAM \<Rightarrow> Some (None, s\<lparr>scan_state := state, param_start := Some i\<rparr>)
       | PARAM_PARSE_MARK_END_OF_PARAM \<Rightarrow> end_of_param storing buf i (s\<lparr>scan_state := state\<rparr>)
       | PARAM_PARSE_MARK_NONE \<Rightarrow> Some (None, s\<lparr>scan_state := state\<rparr>))
      (\<lambda>(ret, s). if ret \<noteq> None then Some (ret, s) else scan_params storing buf (i + 1) s)"
      by (simp only: scan_params_step [OF step c] False if_False)
    show ?thesis
    proof (cases mark)
      case PARAM_PARSE_MARK_NONE
      let ?s = "s\<lparr>scan_state := state\<rparr>"
      have ok: "scan_ok (i + 1) ?s"
        using Suc(3) in_param_step [OF step] PARAM_PARSE_MARK_NONE by (auto simp: scan_ok_def intro: le_SucI)
      have "pending state (text_read buf (i + 1) ?s) (drop (i + 1) buf) = pending state (text_read buf i s @ [?c]) (drop (i + 1) buf)"
      proof (cases "in_param state")
        case True
        then obtain a where "param_start s = Some a" "a \<le> i"
          using Suc(3) in_param_step [OF step] PARAM_PARSE_MARK_NONE by (auto simp: scan_ok_def)
        then have "text_read buf (i + 1) ?s = text_read buf i s @ [?c]"
          using i by (simp add: text_read_def Suc_diff_le take_Suc_conv_app_nth)
        then show ?thesis by simp
      qed (auto simp: pending_def in_param_def split: param_parse_state.splits)
      then show ?thesis using IH [OF ok] pend PARAM_PARSE_MARK_NONE by (simp add: run)
    next
      case PARAM_PARSE_MARK_START_OF_PARAM
      let ?s = "s\<lparr>scan_state := state, param_start := Some i\<rparr>"
      have "text_read buf (i + 1) ?s = [?c]" using i by (simp add: text_read_def take_Suc_conv_app_nth)
      then show ?thesis using IH [of ?s] pend PARAM_PARSE_MARK_START_OF_PARAM by (simp add: run scan_ok_def)
    next
      case PARAM_PARSE_MARK_END_OF_PARAM
      have "in_param (scan_state s)" and out: "\<not> in_param state"
        using in_param_step [OF step] PARAM_PARSE_MARK_END_OF_PARAM by simp_all
      note ends = end_of_param_emit [OF Suc(3) this(1) Suc(4), of storing state]
      have any: "pending state red cs = pending state [] cs" for red cs
        using out by (auto simp: pending_def in_param_def split: param_parse_state.splits)
      show ?thesis
      proof (cases "emit storing (text_read buf i s) (scan_list s)")
        case None
        then show ?thesis using ends pend PARAM_PARSE_MARK_END_OF_PARAM by (simp add: run)
      next
        case (Some l)
        then obtain start where ended: "end_of_param storing buf i (s\<lparr>scan_state := state\<rparr>) =
            Some (None, s\<lparr>scan_state := state, scan_list := l, param_start := start\<rparr>)" using ends by auto
        let ?s = "s\<lparr>scan_state := state, scan_list := l, param_start := start\<rparr>"
        have "scan_ok (i + 1) ?s" using out by (simp add: scan_ok_def)
        then show ?thesis
          using IH [of ?s] pend PARAM_PARSE_MARK_END_OF_PARAM Some ended any [of "text_read buf (i + 1) ?s"] by (simp add: run)
      qed
    qed
  qed
qed

lemma get_params_list_emits:
  assumes "fst (load filename) = CO_RC_OK"
  shows "get_params_list load filename storing l =
    map_option (Pair CO_RC_OK) (emits storing (file_params (snd (load filename))) l)"
proof -
  let ?buf = "snd (load filename)"
  let ?s = "\<lparr>scan_state = PARAM_PARSE_STATE_INIT, param_start = None, scan_list = l\<rparr>"
  have "map_option (\<lambda>(ret, s). (ret, scan_list s)) (scan_params storing ?buf 0 ?s) = map_option (Pair None) (emits storing (file_params ?buf) l)"
    using scan_params_emits [of 0 ?s ?buf storing] by (simp add: scan_ok_def in_param_def pending_def)
  then show ?thesis
    using assms by (cases "load filename"; cases "emits storing (file_params ?buf) l")
      (auto simp: get_params_list_def CO_OK_def map_option_case split: option.splits)
qed

text \<open>The first pass counts.\<close>

definition expand :: "(string \<Rightarrow> co_rc_value \<times> string) \<Rightarrow> string \<Rightarrow> string list" where
  "expand load arg = (if is_file arg then file_params (snd (load (drop 1 arg))) else [arg])"

definition readable :: "(string \<Rightarrow> co_rc_value \<times> string) \<Rightarrow> string list \<Rightarrow> bool" where
  "readable load args \<longleftrightarrow> (\<forall>arg \<in> set args. is_file arg \<longrightarrow> fst (load (drop 1 arg)) = CO_RC_OK)"

lemma emits_count: "emits False ts l = Some (l\<lparr>params_count := params_count l + length ts\<rparr>)"
  by (induction ts arbitrary: l) (simp_all add: emit_def)

lemma count_params_expand:
  assumes "readable load args"
  shows "count_params load args l = Some (CO_RC_OK, l\<lparr>params_count := params_count l + length (concat (map (expand load) args))\<rparr>)"
  using assms
  by (induction args arbitrary: l) (simp_all add: readable_def expand_def get_params_list_emits emits_count add.assoc CO_OK_def)

text \<open>The second pass stores what it can allocate.\<close>

fun stored :: "string list \<Rightarrow> bool list \<Rightarrow> string list \<times> bool list" where
  "stored [] rooms = ([], rooms)"
| "stored (t # ts) rooms =
     (let (room, rooms) = alloc rooms; (us, rooms) = stored ts rooms in (if room then t # us else us, rooms))"

fun stored_args :: "(string \<Rightarrow> co_rc_value \<times> string) \<Rightarrow> string list \<Rightarrow> bool list \<Rightarrow> string list option" where
  "stored_args load [] rooms = Some []"
| "stored_args load (arg # args) rooms =
     (if is_file arg
      then let (us, rooms) = stored (expand load arg) rooms in map_option ((@) us) (stored_args load args rooms)
      else let (room, rooms) = alloc rooms in if room then map_option ((#) arg) (stored_args load args rooms) else None)"

definition filled :: "nat \<Rightarrow> string list \<Rightarrow> param_list \<Rightarrow> bool" where
  "filled n acc l \<longleftrightarrow> params_count l = length acc \<and> list_output l = length acc \<and> length (list_argv l) = n \<and>
     take (length acc) (list_argv l) = map Some acc"

lemma store_param_filled:
  assumes "filled n acc l" and "length acc < n"
  shows "\<exists>l'. store_param t (length t) l = Some (if fst (alloc (list_rooms l)) then CO_RC_OK else CO_RC_OUT_OF_MEMORY, l') \<and>
    filled n (if fst (alloc (list_rooms l)) then acc @ [t] else acc) l' \<and> list_rooms l' = snd (alloc (list_rooms l))"
  using assms by (auto simp: store_param_def dup_param_def filled_def store_at_def CO_OK_def take_Suc_conv_app_nth split: prod.splits)

lemma emits_store:
  assumes "filled n acc l" and "length acc + length ts \<le> n"
  shows "\<exists>l'. emits True ts l = Some l' \<and> filled n (acc @ fst (stored ts (list_rooms l))) l' \<and>
    list_rooms l' = snd (stored ts (list_rooms l))"
  using assms
proof (induction ts arbitrary: acc l)
  case Nil
  then show ?case by simp
next
  case (Cons t ts)
  obtain l' where l': "emit True t l = Some l'" "filled n (if fst (alloc (list_rooms l)) then acc @ [t] else acc) l'"
      "list_rooms l' = snd (alloc (list_rooms l))"
    using store_param_filled [OF Cons.prems(1), of t] Cons.prems(2) by (auto simp: emit_def)
  show ?case
    using Cons.IH [OF l'(2)] Cons.prems(2) l' by (auto simp: case_prod_beta Let_def split: if_splits)
qed

lemma stored_length: "length (fst (stored ts rooms)) \<le> length ts"
  by (induction ts rooms rule: stored.induct) (auto simp: Let_def le_SucI split: prod.splits)

lemma store_params_stored:
  assumes "readable load args" and "filled n acc l" and "length acc + length (concat (map (expand load) args)) \<le> n"
  shows "case stored_args load args (list_rooms l) of
      None \<Rightarrow> \<exists>l'. store_params load args l = Some (CO_RC_OUT_OF_MEMORY, l')
    | Some us \<Rightarrow> \<exists>l'. store_params load args l = Some (CO_RC_OK, l') \<and> filled n (acc @ us) l'"
  using assms
proof (induction args arbitrary: acc l)
  case Nil
  then show ?case by simp
next
  case (Cons arg args)
  have rest: "readable load args" using Cons.prems(1) by (simp add: readable_def)
  show ?case
  proof (cases "is_file arg")
    case True
    obtain l' where l': "emits True (expand load arg) l = Some l'" "filled n (acc @ fst (stored (expand load arg) (list_rooms l))) l'"
        "list_rooms l' = snd (stored (expand load arg) (list_rooms l))"
      using emits_store [OF Cons.prems(2), of "expand load arg"] Cons.prems(3) by auto
    have "fst (load (drop 1 arg)) = CO_RC_OK" using Cons.prems(1) True by (simp add: readable_def)
    then have "store_params load (arg # args) l = store_params load args l'"
      using True l'(1) by (simp add: get_params_list_emits expand_def CO_OK_def)
    moreover have "length (acc @ fst (stored (expand load arg) (list_rooms l))) + length (concat (map (expand load) args)) \<le> n"
      using Cons.prems(3) stored_length [of "expand load arg" "list_rooms l"] by simp
    ultimately show ?thesis
      using Cons.IH [OF rest l'(2)] True l'(3) by (auto simp: case_prod_beta Let_def split: option.splits)
  next
    case False
    obtain l' where l': "store_param arg (length arg) l = Some (if fst (alloc (list_rooms l)) then CO_RC_OK else CO_RC_OUT_OF_MEMORY, l')"
        "filled n (if fst (alloc (list_rooms l)) then acc @ [arg] else acc) l'" "list_rooms l' = snd (alloc (list_rooms l))"
      using store_param_filled [OF Cons.prems(2), of arg] Cons.prems(3) False by (auto simp: expand_def)
    show ?thesis
    proof (cases "fst (alloc (list_rooms l))")
      case True
      then show ?thesis
        using Cons.IH [OF rest l'(2)] Cons.prems(3) False l'
        by (auto simp: case_prod_beta Let_def expand_def CO_OK_def split: option.splits)
    next
      case out: False
      then show ?thesis using False l'(1) by (simp add: case_prod_beta CO_OK_def)
    qed
  qed
qed

lemma alloc_all: "False \<notin> set rooms \<Longrightarrow> fst (alloc rooms) \<and> False \<notin> set (snd (alloc rooms))"
  by (cases rooms) (auto simp: alloc_def)

lemma stored_all: "False \<notin> set rooms \<Longrightarrow> fst (stored ts rooms) = ts \<and> False \<notin> set (snd (stored ts rooms))"
  by (induction ts arbitrary: rooms) (simp_all add: alloc_all case_prod_beta Let_def)

lemma stored_args_all:
  "False \<notin> set rooms \<Longrightarrow> stored_args load args rooms = Some (concat (map (expand load) args))"
  by (induction args arbitrary: rooms) (simp_all add: alloc_all stored_all case_prod_beta Let_def expand_def)


lemma eval_expanded:
  assumes "readable load args" and "readable load' args"
    and "length (concat (map (expand load') args)) \<le> length (concat (map (expand load) args))"
  shows "eval_params_file load load' args rooms = Some
    (if \<not> fst (alloc rooms) then (CO_RC_OUT_OF_MEMORY, map Some args)
     else case stored_args load' args (snd (alloc rooms)) of
       None \<Rightarrow> (CO_RC_OUT_OF_MEMORY, map Some args)
     | Some us \<Rightarrow> (CO_RC_OK, map Some us))"
proof -
  let ?n = "length (concat (map (expand load) args))"
  let ?l = "\<lparr>params_count = 0, list_argv = replicate ?n None, list_output = 0, list_rooms = snd (alloc rooms)\<rparr>"
  have "filled ?n [] ?l" by (simp add: filled_def)
  from store_params_stored [OF assms(2) this] show ?thesis
    using assms(3) count_params_expand [OF assms(1)]
    by (auto simp: eval_params_file_def CO_OK_def filled_def case_prod_beta split: option.splits)
qed

text \<open>A second pass that finds more than the first has counted.\<close>

lemma emits_overrun:
  assumes "filled n acc l" and "n < length acc + length ts" and "False \<notin> set (list_rooms l)" and "length acc \<le> n"
  shows "emits True ts l = None"
  using assms
proof (induction ts arbitrary: acc l)
  case Nil
  then show ?case by simp
next
  case (Cons t ts)
  show ?case
  proof (cases "length acc < n")
    case True
    obtain l' where l': "emit True t l = Some l'" "filled n (acc @ [t]) l'" "list_rooms l' = snd (alloc (list_rooms l))"
      using store_param_filled [OF Cons.prems(1) True, of t] Cons.prems(3) by (auto simp: emit_def alloc_all)
    have "emits True ts l' = None"
      using Cons.IH [OF l'(2)] Cons.prems(2,3) True l'(3) by (simp add: alloc_all)
    then show ?thesis using l'(1) by simp
  next
    case False
    then have "emit True t l = None"
      using Cons.prems(1) by (auto simp: emit_def store_param_def filled_def store_at_def split: prod.splits)
    then show ?thesis by simp
  qed
qed

lemma store_params_overrun:
  assumes "readable load args" and "filled n acc l" and "n < length acc + length (concat (map (expand load) args))"
    and "False \<notin> set (list_rooms l)" and "length acc \<le> n"
  shows "store_params load args l = None"
  using assms
proof (induction args arbitrary: acc l)
  case Nil
  then show ?case by simp
next
  case (Cons arg args)
  let ?ts = "expand load arg"
  have rest: "readable load args" using Cons.prems(1) by (simp add: readable_def)
  have ok: "fst (load (drop 1 arg)) = CO_RC_OK" if "is_file arg" using Cons.prems(1) that by (simp add: readable_def)
  have head: "store_params load (arg # args) l = Option.bind (emits True ?ts l) (store_params load args)"
  proof (cases "is_file arg")
    case True
    then show ?thesis using ok by (simp add: get_params_list_emits expand_def CO_OK_def case_prod_beta map_option_case split: option.splits)
  next
    case False
    have "rc = CO_RC_OK" if "store_param arg (length arg) l = Some (rc, l')" for rc l'
      using that Cons.prems(4) alloc_all [of "list_rooms l"]
      by (auto simp: store_param_def dup_param_def CO_OK_def split: prod.splits if_splits)
    then show ?thesis using False
      by (cases "store_param arg (length arg) l") (auto simp: expand_def emit_def CO_OK_def)
  qed
  show ?case
  proof (cases "length acc + length ?ts \<le> n")
    case True
    obtain l' where "emits True ?ts l = Some l'" "filled n (acc @ fst (stored ?ts (list_rooms l))) l'"
        "list_rooms l' = snd (stored ?ts (list_rooms l))"
      using emits_store [OF Cons.prems(2) True] by auto
    then show ?thesis
      using Cons.IH [OF rest, of "acc @ ?ts" l'] Cons.prems(3,4) True stored_all [of "list_rooms l" ?ts] unfolding head by simp
  next
    case False
    then have "emits True ?ts l = None" using emits_overrun [OF Cons.prems(2)] Cons.prems(4,5) by simp
    then show ?thesis unfolding head by simp
  qed
qed

section \<open>The expansion of the command line\<close>

text \<open>
  C20: the command line is expanded as written, or the heap is overrun. If every parameter file can
  be read and no allocation fails, the new command line holds the arguments in their order with
  each \<open>@file\<close> replaced by the parameters of the file (the table of states and marks finds exactly
  those of the reference tokenizer), provided that the second pass finds at most as many parameters
  as the first has counted, as when no file changes. Otherwise the second pass writes behind the
  end of \<open>argv\<close>.
\<close>

theorem cmdline_expanded:
  assumes "readable load args" and "readable load' args" and "False \<notin> set rooms"
  shows "co_cmdline_params_alloc load load' args rooms =
    (if length (concat (map (expand load') args)) \<le> length (concat (map (expand load) args))
     then Some (CO_RC_OK, Some (map Some (concat (map (expand load') args)))) else None)"
proof -
  let ?rooms = "snd (alloc (snd (alloc rooms)))"
  let ?n = "length (concat (map (expand load) args))"
  let ?l = "\<lparr>params_count = 0, list_argv = replicate ?n None, list_output = 0, list_rooms = snd (alloc ?rooms)\<rparr>"
  have rooms: "fst (alloc rooms)" "fst (alloc (snd (alloc rooms)))" "fst (alloc ?rooms)" "False \<notin> set (snd (alloc ?rooms))"
    using assms(3) by (simp_all add: alloc_all)
  have "filled ?n [] ?l" by (simp add: filled_def)
  then have over: "store_params load' args ?l = None" if "\<not> length (concat (map (expand load') args)) \<le> ?n"
    using store_params_overrun [OF assms(2), of ?n "[]" ?l] that rooms by simp
  show ?thesis
  proof (cases "length (concat (map (expand load') args)) \<le> ?n")
    case True
    then show ?thesis
      using eval_expanded [OF assms(1,2) True, of ?rooms] rooms
      by (simp add: co_cmdline_params_alloc_def CO_OK_def case_prod_beta stored_args_all)
  next
    case False
    then have "eval_params_file load load' args ?rooms = None"
      using over [OF False] count_params_expand [OF assms(1)] rooms by (simp add: eval_params_file_def CO_OK_def case_prod_beta)
    then show ?thesis using False rooms by (simp add: co_cmdline_params_alloc_def case_prod_beta)
  qed
qed

definition demo_file :: "string \<Rightarrow> co_rc_value \<times> string" where
  "demo_file name = (if name = ''f'' then (CO_RC_OK, ''mem=64 # MB'' @ [CHR 0x0A] @ ''root=/dev/cobd0'') else (CO_RC_ERROR, []))"

theorem cmdline_expanded_witness:
  "co_cmdline_params_alloc demo_file demo_file [''-d'', ''@f'', ''quiet''] [] =
     Some (CO_RC_OK, Some [Some ''-d'', Some ''mem=64'', Some ''root=/dev/cobd0'', Some ''quiet''])"
proof -
  have "readable demo_file [''-d'', ''@f'', ''quiet'']" by (simp add: readable_def is_file_def demo_file_def)
  moreover have "concat (map (expand demo_file) [''-d'', ''@f'', ''quiet'']) = [''-d'', ''mem=64'', ''root=/dev/cobd0'', ''quiet'']"
    by (simp add: expand_def is_file_def demo_file_def file_params_step param_token.simps skip_comment_def starts_def code_def)
  ultimately show ?thesis using cmdline_expanded [of demo_file "[''-d'', ''@f'', ''quiet'']" demo_file "[]"] by simp
qed

text \<open>
  The two passes never write outside \<open>argv\<close> as long as the files do not grow between them,
  whatever the files hold and whichever allocations fail.
\<close>

theorem cmdline_passes_safe:
  assumes "readable load args" and "readable load' args"
    and "length (concat (map (expand load') args)) \<le> length (concat (map (expand load) args))"
  shows "co_cmdline_params_alloc load load' args rooms \<noteq> None"
  using eval_expanded [OF assms] by (simp add: co_cmdline_params_alloc_def case_prod_beta Let_def)

theorem cmdline_passes_safe_witness:
  "co_cmdline_params_alloc demo_file (\<lambda>_. (CO_RC_OK, ''mem=64'')) [''@f''] [True, True, True, False] \<noteq> None"
  by (rule cmdline_passes_safe)
    (simp_all add: readable_def is_file_def demo_file_def expand_def file_params_step param_token.simps skip_comment_def starts_def code_def)

text \<open>
  Memory that runs out loses parameters without an error. When a parameter of a file cannot be
  allocated, the code leaves only the \<open>switch\<close>: the others follow without a gap and the result is
  \<open>CO_RC(OK)\<close>.
\<close>

theorem cmdline_parameter_lost:
  assumes "load f = (CO_RC_OK, buf)"
  shows "co_cmdline_params_alloc load load [CHR ''@'' # f] (True # True # True # rooms) =
    Some (CO_RC_OK, Some (map Some (fst (stored (file_params buf) rooms))))"
proof -
  have "readable load [CHR ''@'' # f]" using assms by (simp add: readable_def)
  from eval_expanded [OF this this order_refl] assms show ?thesis
    by (simp add: co_cmdline_params_alloc_def CO_OK_def alloc_def is_file_def expand_def case_prod_beta)
qed

theorem cmdline_parameter_lost_witness:
  "co_cmdline_params_alloc demo_file demo_file [''@f''] [True, True, True, False] = Some (CO_RC_OK, Some [Some ''root=/dev/cobd0''])"
  using cmdline_parameter_lost [of demo_file "''f''" "''mem=64 # MB'' @ [CHR 0x0A] @ ''root=/dev/cobd0''" "[False]"]
  by (simp add: demo_file_def file_params_step param_token.simps skip_comment_def starts_def code_def alloc_def)

end
