(* ===== verification/Cmdline_Params.thy ===== *)
theory Cmdline_Params
  imports Co_Cmdline
begin

text \<open>
  The functions of \<open>src/colinux/user/cmdline.c\<close> that take parameters out of the command line.
  A buffer of the caller is the list of its characters; what a buffer on the stack holds before it
  is written is an argument. \<^term>\<open>None\<close> stands for an access outside a buffer.
\<close>

section \<open>Strings in buffers\<close>

text \<open>The string a buffer holds; \<^term>\<open>None\<close> if it has no NUL.\<close>

definition cstring :: "string \<Rightarrow> string option" where
  "cstring buf = (if CHR 0x00 \<in> set buf then Some (takeWhile (\<lambda>c. c \<noteq> CHR 0x00) buf) else None)"

text \<open>A string of \<open>len\<close> characters copied into a buffer and terminated there.\<close>

definition copy_terminated :: "string \<Rightarrow> string \<Rightarrow> nat \<Rightarrow> string option" where
  "copy_terminated buf source len = Option.bind (copy_loop buf 0 source 0 len) (\<lambda>buf. store_at buf (int len) (CHR 0x00))"

text \<open>\<open>strtoul\<close> of the C library with base 10: the value and the number of characters it has
  used, 0 if there is no number. A value that is too large is \<open>ULONG_MAX\<close>.\<close>

definition is_space :: "char \<Rightarrow> bool" where
  "is_space c \<longleftrightarrow> c = CHR '' '' \<or> 0x09 \<le> code c \<and> code c \<le> 0x0D"

definition decimal :: "string \<Rightarrow> int" where
  "decimal s = foldl (\<lambda>n c. 10 * n + digit_of c) 0 s"

definition strtoul10 :: "string \<Rightarrow> ulong \<times> nat" where
  "strtoul10 s =
     (let spaces = takeWhile is_space s;
          rest = dropWhile is_space s;
          signs = (case rest of c # _ \<Rightarrow> if c = CHR ''-'' \<or> c = CHR ''+'' then 1 else 0 | [] \<Rightarrow> 0);
          digits = takeWhile is_digit (drop signs rest);
          n = decimal digits
      in if digits = [] then (0, 0)
         else (if 2 ^ 32 \<le> n then - 1 else if signs = 1 \<and> hd rest = CHR ''-'' then - word_of_int n else word_of_int n,
               length spaces + signs + length digits))"

section \<open>Taking parameters out of the command line\<close>

fun argumentless_loop :: "string option list \<Rightarrow> string \<Rightarrow> string option list \<times> bool" where
  "argumentless_loop [] name = ([], False)"
| "argumentless_loop (arg # argv) name =
     (if arg = Some name then (None # argv, True)
      else let (argv, out_exists) = argumentless_loop argv name in (arg # argv, out_exists))"

definition co_cmdline_params_argumentless_parameter ::
  "string option list \<Rightarrow> string \<Rightarrow> co_rc_value \<times> string option list \<times> bool" where
  "co_cmdline_params_argumentless_parameter cmdline name = (CO_RC_OK, argumentless_loop cmdline name)"

text \<open>The index at which the loop of \<open>co_cmdline_get_next_equality_wrapper\<close> does not continue.\<close>

fun next_equality :: "string \<Rightarrow> string option list \<Rightarrow> nat option" where
  "next_equality expected_prefix [] = None"
| "next_equality expected_prefix (None # argv) = map_option Suc (next_equality expected_prefix argv)"
| "next_equality expected_prefix (Some arg # argv) =
     (if CHR ''='' \<notin> set arg then map_option Suc (next_equality expected_prefix argv)
      else if take (length expected_prefix) arg \<noteq> expected_prefix then map_option Suc (next_equality expected_prefix argv)
      else Some 0)"

text \<open>The results are the code, the command line, the buffers of key and value, and \<open>out_exists\<close>.
  With \<open>value_size\<close> 0 the value is a new block, if there is \<open>room\<close>. \<open>max_suffix_len\<close> is not used.\<close>

definition co_cmdline_get_next_equality_wrapper ::
  "string option list \<Rightarrow> string \<Rightarrow> string \<Rightarrow> int \<Rightarrow> string \<Rightarrow> int \<Rightarrow> bool \<Rightarrow>
   (co_rc_value \<times> string option list \<times> string \<times> string \<times> bool) option" where
  "co_cmdline_get_next_equality_wrapper cmdline expected_prefix key key_size value value_size room =
     (case next_equality expected_prefix cmdline of
        None \<Rightarrow> Some (CO_RC_OK, cmdline, key, value, False)
      | Some i \<Rightarrow>
          let arg = the (cmdline ! i);
              cmdline = cmdline[i := None];
              key_found = length (takeWhile (\<lambda>c. c \<noteq> CHR ''='') arg);
              prefix_len = length expected_prefix;
              key_len = int key_found - int prefix_len
          in if 0 < key_len \<and> key_size < key_len + 1 then Some (CO_RC_INVALID_PARAMETER, cmdline, key, value, False)
             else Option.bind (if 0 < key_len then copy_terminated key (drop prefix_len arg) (nat key_len) else Some key) (\<lambda>key.
               let text = drop (key_found + 1) arg;
                   len = length text
               in if len = 0 then Some (CO_RC_INVALID_PARAMETER, cmdline, key, value, False)
                  else if value_size = 0 then
                    (if \<not> room then Some (CO_RC_OUT_OF_MEMORY, cmdline, key, value, False)
                     else Some (CO_RC_OK, cmdline, key, text @ [CHR 0x00], True))
                  else if value_size - 1 \<le> int len then Some (CO_RC_ERROR, cmdline, key, value, False)
                  else map_option (\<lambda>value. (CO_RC_OK, cmdline, key, value, True)) (copy_terminated value text len)))"

definition co_cmdline_get_next_equality ::
  "string option list \<Rightarrow> string \<Rightarrow> string \<Rightarrow> int \<Rightarrow> string \<Rightarrow> int \<Rightarrow> (co_rc_value \<times> string option list \<times> string \<times> string \<times> bool) option" where
  "co_cmdline_get_next_equality cmdline expected_prefix key key_size value value_size =
     co_cmdline_get_next_equality_wrapper cmdline expected_prefix key key_size value value_size True"

definition co_cmdline_get_next_equality_alloc ::
  "string option list \<Rightarrow> string \<Rightarrow> string \<Rightarrow> int \<Rightarrow> string \<Rightarrow> bool \<Rightarrow> (co_rc_value \<times> string option list \<times> string \<times> string \<times> bool) option" where
  "co_cmdline_get_next_equality_alloc cmdline expected_prefix key key_size value room =
     co_cmdline_get_next_equality_wrapper cmdline expected_prefix key key_size value 0 room"

text \<open>\<open>number\<close> is what the 11 characters on the stack hold. The third result is \<open>*key_int\<close> if it is
  assigned.\<close>

definition co_cmdline_get_next_equality_int_prefix ::
  "string \<Rightarrow> string option list \<Rightarrow> string \<Rightarrow> ulong \<Rightarrow> string \<Rightarrow> bool \<Rightarrow>
   (co_rc_value \<times> string option list \<times> ulong option \<times> string \<times> bool) option" where
  "co_cmdline_get_next_equality_int_prefix number cmdline expected_prefix max_index value room =
     Option.bind (co_cmdline_get_next_equality_alloc cmdline expected_prefix number 11 value room)
       (\<lambda>(rc, cmdline, number, value, out_exists).
         if \<not> CO_OK rc then Some (rc, cmdline, None, value, out_exists)
         else if out_exists then
           Option.bind (cstring number) (\<lambda>text.
             let (value_int, used) = strtoul10 text
             in if used = 0 then Some (CO_RC_INVALID_PARAMETER, cmdline, None, value, out_exists)
                else if max_index \<le> value_int then Some (CO_RC_INVALID_PARAMETER, cmdline, None, value, out_exists)
                else Some (CO_RC_OK, cmdline, Some value_int, value, out_exists))
         else Some (CO_RC_OK, cmdline, None, value, out_exists))"

text \<open>Likewise with the 20 characters of \<open>value\<close>; the key is \<open>NULL\<close>.\<close>

definition co_cmdline_get_next_equality_int_value ::
  "string \<Rightarrow> string option list \<Rightarrow> string \<Rightarrow> (co_rc_value \<times> string option list \<times> ulong option \<times> bool) option" where
  "co_cmdline_get_next_equality_int_value value cmdline expected_prefix =
     Option.bind (co_cmdline_get_next_equality cmdline expected_prefix [] 0 value 20) (\<lambda>(rc, cmdline, key, value, out_exists).
       if \<not> CO_OK rc then Some (rc, cmdline, None, out_exists)
       else if out_exists then
         Option.bind (cstring value) (\<lambda>text.
           let (value_int, used) = strtoul10 text
           in if used = 0 then Some (CO_RC_ERROR, cmdline, Some value_int, out_exists)
              else Some (CO_RC_OK, cmdline, Some value_int, out_exists))
       else Some (CO_RC_OK, cmdline, None, out_exists))"

fun find_arg :: "string \<Rightarrow> string option list \<Rightarrow> nat option" where
  "find_arg name [] = None"
| "find_arg name (arg # argv) = (if arg = Some name then Some 0 else map_option Suc (find_arg name argv))"

text \<open>The results are the code, the command line, \<open>*argument\<close>, \<open>*out_exists\<close> and the buffer.\<close>

definition one_arugment_parameter ::
  "string option list \<Rightarrow> string \<Rightarrow> bool \<Rightarrow> string \<Rightarrow> int \<Rightarrow> (co_rc_value \<times> string option list \<times> bool \<times> bool \<times> string) option" where
  "one_arugment_parameter cmdline name argument out_arg_buf arg_size =
     (case find_arg name cmdline of
        None \<Rightarrow> Some (CO_RC_OK, cmdline, argument, False, out_arg_buf)
      | Some i \<Rightarrow>
          let argument_specified =
                (if int (length cmdline) - 1 \<le> int i then False
                 else case cmdline ! (i + 1) of None \<Rightarrow> False | Some arg \<Rightarrow> \<not> (arg \<noteq> [] \<and> hd arg = CHR ''-''))
          in if argument \<and> \<not> argument_specified then Some (CO_RC_ERROR, cmdline, argument, False, out_arg_buf)
             else if argument_specified then
               (case co_snprintf out_arg_buf arg_size ''%s'' [Va_str (cmdline ! (i + 1))] of
                  Inl fault \<Rightarrow> None
                | Inr (_, out_arg_buf, _) \<Rightarrow> Some (CO_RC_OK, cmdline[i + 1 := None, i := None], True, True, out_arg_buf))
             else Some (CO_RC_OK, cmdline[i := None], False, True, out_arg_buf))"

definition co_cmdline_params_one_arugment_parameter ::
  "string option list \<Rightarrow> string \<Rightarrow> string \<Rightarrow> int \<Rightarrow> (co_rc_value \<times> string option list \<times> bool \<times> string) option" where
  "co_cmdline_params_one_arugment_parameter cmdline name out_arg_buf arg_size =
     map_option (\<lambda>(rc, cmdline, argument, out_exists, out_arg_buf). (rc, cmdline, out_exists, out_arg_buf))
       (one_arugment_parameter cmdline name True out_arg_buf arg_size)"

definition co_cmdline_params_one_optional_arugment_parameter ::
  "string option list \<Rightarrow> string \<Rightarrow> string \<Rightarrow> int \<Rightarrow> (co_rc_value \<times> string option list \<times> bool \<times> string) option" where
  "co_cmdline_params_one_optional_arugment_parameter cmdline name out_arg_buf arg_size =
     map_option (\<lambda>(rc, cmdline, argument, out_exists, out_arg_buf). (rc, cmdline, out_exists, out_arg_buf))
       (one_arugment_parameter cmdline name False out_arg_buf arg_size)"

text \<open>\<open>arg_buf\<close> is the 32 characters on the stack; the last result is \<open>*out_int\<close> if it is assigned.\<close>

definition co_cmdline_params_one_arugment_int_parameter ::
  "string \<Rightarrow> string option list \<Rightarrow> string \<Rightarrow> (co_rc_value \<times> string option list \<times> bool \<times> ulong option) option" where
  "co_cmdline_params_one_arugment_int_parameter arg_buf cmdline name =
     Option.bind (co_cmdline_params_one_arugment_parameter cmdline name arg_buf 0x20) (\<lambda>(rc, cmdline, out_exists, arg_buf).
       if \<not> CO_OK rc then Some (rc, cmdline, out_exists, None)
       else if out_exists then
         Option.bind (cstring arg_buf) (\<lambda>text.
           let (out_int, used) = strtoul10 text
           in Some (if used = 0 then CO_RC_ERROR else CO_RC_OK, cmdline, out_exists, Some out_int))
       else Some (CO_RC_OK, cmdline, out_exists, None))"

definition co_cmdline_params_check_for_no_unparsed_parameters :: "string option list \<Rightarrow> co_rc_value" where
  "co_cmdline_params_check_for_no_unparsed_parameters cmdline =
     (if length (filter (\<lambda>arg. arg \<noteq> None) cmdline) \<noteq> 0 then CO_RC_ERROR else CO_RC_OK)"

section \<open>What remains\<close>

text \<open>The loop of \<open>co_cmdline_params_format_remaining_parameters\<close>; \<open>str_out\<close> is an offset into the
  buffer \<open>out\<close>.\<close>

fun format_remaining_loop :: "string option list \<Rightarrow> string \<Rightarrow> nat \<Rightarrow> int \<Rightarrow> (string option list \<times> string) option" where
  "format_remaining_loop [] out str_out sz = Some ([], out)"
| "format_remaining_loop (None # argv) out str_out sz =
     map_option (\<lambda>(argv, out). (None # argv, out)) (format_remaining_loop argv out str_out sz)"
| "format_remaining_loop (Some arg # argv) out str_out sz =
     (case co_snprintf (drop str_out out) sz (if out ! 0 = CHR 0x00 then ''%s'' else '' %s'') [Va_str (Some arg)] of
        Inl fault \<Rightarrow> None
      | Inr (_, str, _) \<Rightarrow>
          Option.bind (cstring str) (\<lambda>text.
            let out = take str_out out @ str; param_size = length text
            in if sz - int param_size = 0 then Some (Some arg # argv, out)
               else map_option (\<lambda>(argv, out). (None # argv, out))
                      (format_remaining_loop argv out (str_out + param_size) (sz - int param_size))))"

definition co_cmdline_params_format_remaining_parameters ::
  "string option list \<Rightarrow> string \<Rightarrow> int \<Rightarrow> (co_rc_value \<times> string option list \<times> string) option" where
  "co_cmdline_params_format_remaining_parameters cmdline str_out sz =
     Option.bind (store_at str_out 0 (CHR 0x00)) (\<lambda>out.
       map_option (Pair CO_RC_OK) (format_remaining_loop cmdline out 0 sz))"

text \<open>The copy goes upwards, so \<^term>\<open>memmove\<close> is what \<open>co_memcpy\<close> does with the areas that overlap; a
  length of -1 is a copy of 4 GB.\<close>

definition co_remove_quotation_marks :: "string \<Rightarrow> string option" where
  "co_remove_quotation_marks value =
     (if value = [] then None
      else if value ! 0 \<noteq> CHR 0x22 then Some value
      else Option.bind (cstring value) (\<lambda>text.
        let len = int (length text) - 1
        in if value ! nat len \<noteq> CHR 0x22 then Some value
           else if len - 1 < 0 then None
           else Option.bind (memmove value 0 1 (nat (len - 1))) (\<lambda>value. store_at value (len - 1) (CHR 0x00))))"

section \<open>Numbers\<close>

lemma digit_of_nat:
  fixes d :: nat
  assumes "d < 10"
  shows "is_digit (char_of (48 + d))" and "digit_of (char_of (48 + d)) = int d" and "code (char_of (48 + d)) = 48 + d"
proof -
  have code: "of_char (char_of (48 + d) :: char) = (48 + d :: nat)" using assms by simp
  then show "is_digit (char_of (48 + d))" "code (char_of (48 + d)) = 48 + d" using assms by (simp_all add: is_digit_def code_def)
  have "digit_of (char_of (48 + d)) = int (of_char (char_of (48 + d) :: char)) - 48" by (simp only: digit_of_def of_nat_of_char)
  then show "digit_of (char_of (48 + d)) = int d" using code by simp
qed

lemma decimal_snoc: "decimal (s @ [c]) = 10 * decimal s + digit_of c"
  by (simp add: decimal_def)

lemma dec_nat_digits: "\<forall>c \<in> set (dec_nat n). is_digit c"
  by (induction n rule: dec_nat.induct) (subst dec_nat.simps, simp add: digit_of_nat)

lemma dec_nat_nonempty: "dec_nat n \<noteq> []"
  by (subst dec_nat.simps) simp

lemma decimal_dec_nat: "decimal (dec_nat n) = int n"
proof (induction n rule: dec_nat.induct)
  case (1 n)
  have "10 * int (n div 10) + int (n mod 10) = int n" by presburger
  then show ?case
    using 1 by (subst dec_nat.simps) (simp add: decimal_snoc digit_of_nat decimal_def [of "[_]"])
qed

lemma is_digit_not: "is_digit c \<Longrightarrow> \<not> is_space c \<and> c \<noteq> CHR ''-'' \<and> c \<noteq> CHR ''+'' \<and> c \<noteq> CHR ''='' \<and> c \<noteq> CHR 0x00"
  by (auto simp: is_digit_def is_space_def code_def)

lemma strtoul10_dec_nat:
  assumes "n < 2 ^ 32"
  shows "strtoul10 (dec_nat n) = (word_of_nat n, length (dec_nat n))"
proof -
  obtain c cs where s: "dec_nat n = c # cs" using dec_nat_nonempty by (cases "dec_nat n") auto
  then have "is_digit c" using dec_nat_digits [of n] by simp
  note c = is_digit_not [OF this]
  have "takeWhile is_space (dec_nat n) = []" "dropWhile is_space (dec_nat n) = dec_nat n" using c s by simp_all
  moreover have "takeWhile is_digit (dec_nat n) = dec_nat n" using dec_nat_digits by (simp add: takeWhile_eq_all_conv)
  ultimately show ?thesis
    using assms c s by (simp add: strtoul10_def decimal_dec_nat [of n, unfolded s] Let_def)
qed

section \<open>The next parameter with a value\<close>

definition setting_of :: "string \<Rightarrow> string \<Rightarrow> bool" where
  "setting_of expected_prefix arg \<longleftrightarrow> CHR ''='' \<in> set arg \<and> take (length expected_prefix) arg = expected_prefix"

lemma next_equality_append:
  assumes "\<And>arg. Some arg \<in> set pre \<Longrightarrow> \<not> setting_of p arg"
  shows "next_equality p (pre @ argv) = map_option ((+) (length pre)) (next_equality p argv)"
  using assms
proof (induction pre)
  case Nil
  then show ?case by (simp add: option.map_ident)
next
  case (Cons a pre)
  then have "next_equality p (pre @ argv) = map_option ((+) (length pre)) (next_equality p argv)" by simp
  then show ?case using Cons.prems by (cases a) (auto simp: setting_of_def option.map_comp comp_def)
qed

lemma next_equality_none: "(\<And>arg. Some arg \<in> set argv \<Longrightarrow> \<not> setting_of p arg) \<Longrightarrow> next_equality p argv = None"
  using next_equality_append [of argv p "[]"] by simp

lemma copy_terminated_Some:
  "n \<le> length source \<Longrightarrow> n < length buf \<Longrightarrow> copy_terminated buf source n = Some (take n source @ CHR 0x00 # drop (n + 1) buf)"
  by (simp add: copy_terminated_def copy_loop_Some store_at_def list_update_append Cons_nth_drop_Suc [symmetric])

lemma cstring_terminated: "CHR 0x00 \<notin> set s \<Longrightarrow> cstring (s @ CHR 0x00 # rest) = Some s"
  by (auto simp: cstring_def takeWhile_append)

text \<open>A setting \<open>prefix key = value\<close> that no other one precedes.\<close>

lemma next_setting:
  assumes "\<And>arg. Some arg \<in> set pre \<Longrightarrow> \<not> setting_of p arg" and "CHR ''='' \<notin> set (p @ k)" and "v \<noteq> []"
    and "int (length k) < key_size" and "length k < length key"
  shows "co_cmdline_get_next_equality_wrapper (pre @ Some (p @ k @ ''='' @ v) # post) p key key_size old 0 True =
    Some (CO_RC_OK, pre @ None # post, if k = [] then key else k @ CHR 0x00 # drop (length k + 1) key, v @ [CHR 0x00], True)"
proof -
  let ?arg = "p @ k @ ''='' @ v"
  have "next_equality p (Some ?arg # post) = Some 0" by simp
  then have "next_equality p (pre @ Some ?arg # post) = Some (length pre)"
    by (subst next_equality_append) (use assms(1) in simp_all)
  moreover have "length (takeWhile (\<lambda>c. c \<noteq> CHR ''='') ?arg) = length p + length k"
    using assms(2) by (subst append_assoc [symmetric], subst takeWhile_append2) auto
  ultimately show ?thesis
    using assms(3-) by (auto simp: co_cmdline_get_next_equality_wrapper_def Let_def copy_terminated_Some nth_append list_update_append)
qed

lemma next_setting_none:
  assumes "\<And>arg. Some arg \<in> set argv \<Longrightarrow> \<not> setting_of p arg"
  shows "co_cmdline_get_next_equality_wrapper argv p key key_size old value_size room = Some (CO_RC_OK, argv, key, old, False)"
  using next_equality_none [OF assms] by (simp add: co_cmdline_get_next_equality_wrapper_def)

lemma next_index:
  assumes "\<And>arg. Some arg \<in> set pre \<Longrightarrow> \<not> setting_of p arg" and "CHR ''='' \<notin> set p" and "v \<noteq> []"
    and "length number = 11" and "n < unat max_index"
  shows "co_cmdline_get_next_equality_int_prefix number (pre @ Some (p @ dec_nat n @ ''='' @ v) # post) p max_index old True =
    Some (CO_RC_OK, pre @ None # post, Some (word_of_nat n), v @ [CHR 0x00], True)"
proof -
  have n: "n < 2 ^ 32" using assms(5) unsigned_less [of max_index, where ?'a = nat] by simp
  then have len: "length (dec_nat n) \<le> 10" using dec_nat_length [of n 9] by simp
  have "CHR ''='' \<notin> set (p @ dec_nat n)" using assms(2) dec_nat_digits [of n] is_digit_not by auto
  note setting = next_setting [OF _ this assms(3), where key_size = 11 and key = number and pre = pre and post = post and old = old]
  have "CHR 0x00 \<notin> set (dec_nat n)" using dec_nat_digits [of n] is_digit_not by blast
  note number_text = cstring_terminated [OF this, of "drop (length (dec_nat n) + 1) number"]
  have "\<not> max_index \<le> word_of_nat n" using assms(5) n by (simp add: word_le_nat_alt unsigned_of_nat take_bit_nat_eq_self)
  then show ?thesis
    using setting [OF assms(1)] number_text strtoul10_dec_nat [OF n] len assms(4) dec_nat_nonempty [of n]
    by (simp add: co_cmdline_get_next_equality_int_prefix_def co_cmdline_get_next_equality_alloc_def CO_OK_def)
qed

section \<open>The parameters for the kernel\<close>

text \<open>What \<open>snprintf\<close> has left in a buffer of \<open>n + 1\<close> characters after the text \<open>t\<close>.\<close>

definition cut_into :: "string \<Rightarrow> nat \<Rightarrow> string \<Rightarrow> string" where
  "cut_into out n t = take n t @ CHR 0x00 # drop (min (length t) n + 1) out"

lemma cut_append:
  fixes t :: string
  assumes "n < length out"
  defines "m \<equiv> min (length t) n"
  shows "take m (cut_into out n t) @ cut_into (drop m (cut_into out n t)) (n - m) u = cut_into out n (t @ u)"
proof -
  have "take n t = take m t" by (auto simp: m_def min_def)
  then have "take m (cut_into out n t) = take m t" "drop m (cut_into out n t) = CHR 0x00 # drop (m + 1) out"
    by (simp_all add: cut_into_def m_def)
  then show ?thesis using assms(1) by (cases "length t \<le> n") (auto simp: cut_into_def m_def min_def add.commute)
qed

lemma cut_length: "n < length out \<Longrightarrow> length (cut_into out n t) = length out"
  by (simp add: cut_into_def)

fun spaced :: "string option list \<Rightarrow> string \<Rightarrow> string" where
  "spaced [] t = t"
| "spaced (None # argv) t = spaced argv t"
| "spaced (Some arg # argv) t = spaced argv (if t = [] then arg else t @ '' '' @ arg)"

lemma format_loop_cut:
  assumes "n < length out" and "\<forall>arg. Some arg \<in> set argv \<longrightarrow> arg \<noteq> [] \<and> CHR 0x00 \<notin> set arg" and "CHR 0x00 \<notin> set t"
  shows "format_remaining_loop argv (cut_into out n t) (min (length t) n) (int n + 1 - int (min (length t) n)) =
    Some (replicate (length argv) None, cut_into out n (spaced argv t))"
  using assms(2,3)
proof (induction argv t rule: spaced.induct)
  case (1 t)
  then show ?case by simp
next
  case (2 argv t)
  then show ?case by simp
next
  case (3 arg argv t)
  let ?m = "min (length t) n"
  define lits where "lits = (if cut_into out n t ! 0 = CHR 0x00 then [] else '' '')"
  have plain: "CHR ''%'' \<notin> set lits" "CHR 0x00 \<notin> set lits" by (simp_all add: lits_def)
  let ?u = "lits @ arg"
  let ?str = "cut_into (drop ?m (cut_into out n t)) (n - ?m) ?u"
  let ?t = "if t = [] then arg else t @ '' '' @ arg"
  have arg: "arg \<noteq> []" "CHR 0x00 \<notin> set arg" using "3.prems" by simp_all
  have room: "1 \<le> int n + 1 - int ?m" "int n + 1 - int ?m \<le> int (length (drop ?m (cut_into out n t)))" "nat (int n + 1 - int ?m - 1) = n - ?m"
    using assms(1) by (auto simp: cut_length)
  have run: "co_snprintf (drop ?m (cut_into out n t)) (int n + 1 - int ?m) (lits @ ''%s'') [Va_str (Some arg)] =
      Inr (int (length ?u), ?str, [])"
    by (rule snprintf_literal_string [OF room(1,2) plain(1), of arg, unfolded room(3), folded cut_into_def])
  have kept: "cstring ?str = Some (take (n - ?m) ?u)"
    unfolding cut_into_def by (rule cstring_terminated) (use arg plain(2) in \<open>auto dest: in_set_takeD\<close>)
  have all: "take ?m (cut_into out n t) @ ?str = cut_into out n (t @ ?u)" by (rule cut_append [OF assms(1)])
  have first: "cut_into out n (t @ ?u) = cut_into out n ?t \<and> ?m + length (take (n - ?m) ?u) = min (length ?t) n"
  proof (cases "n = 0 \<or> t = []")
    case True
    then show ?thesis by (auto simp: cut_into_def min_def lits_def)
  next
    case False
    then have "cut_into out n t ! 0 = hd t" by (cases t; cases n) (auto simp: cut_into_def)
    then have "cut_into out n t ! 0 \<noteq> CHR 0x00" using False "3.prems"(2) by (metis hd_in_set)
    then show ?thesis using False by (auto simp: lits_def)
  qed
  have "CHR 0x00 \<notin> set ?t" using arg "3.prems"(2) by simp
  with "3.IH" "3.prems"(1) have IH: "format_remaining_loop argv (cut_into out n ?t) (min (length ?t) n) (int n + 1 - int (min (length ?t) n)) =
      Some (replicate (length argv) None, cut_into out n (spaced argv ?t))" by simp
  have fmt: "(if cut_into out n t ! 0 = CHR 0x00 then ''%s'' else '' %s'') = lits @ ''%s''" by (simp add: lits_def)
  have step: "int n + 1 - int ?m - int (length (take (n - ?m) ?u)) = int n + 1 - int (min (length ?t) n)"
    using first by linarith
  have "int n + 1 - int (min (length ?t) n) \<noteq> 0" by simp
  then show ?case
    unfolding format_remaining_loop.simps fmt run sum.case prod.case kept bind.simps Let_def all step
    using first IH by simp
qed

text \<open>
  What remains of the command line becomes the parameters of the kernel. The buffer gets the
  remaining parameters in their order, separated by one space, cut to its size and terminated, and
  nothing outside is written. Every parameter is taken, those that are cut off too, and the result
  is \<open>CO_RC(OK)\<close> in each case.
\<close>

theorem format_remaining_joined:
  assumes "1 \<le> n" and "n \<le> int (length out)"
    and "\<forall>arg. Some arg \<in> set cmdline \<longrightarrow> arg \<noteq> [] \<and> CHR 0x00 \<notin> set arg"
  shows "co_cmdline_params_format_remaining_parameters cmdline out n =
    Some (CO_RC_OK, replicate (length cmdline) None,
      take (nat (n - 1)) (spaced cmdline []) @ CHR 0x00 # drop (min (length (spaced cmdline [])) (nat (n - 1)) + 1) out)"
proof -
  have n: "nat (n - 1) < length out" "int (nat (n - 1)) + 1 - int (min (length ([] :: string)) (nat (n - 1))) = n" using assms(1,2) by auto
  have "store_at out 0 (CHR 0x00) = Some (cut_into out (nat (n - 1)) [])"
    using assms(1,2) by (cases out) (auto simp: store_at_def cut_into_def)
  then show ?thesis
    using format_loop_cut [OF n(1) assms(3), of "[]"] n(2)
    by (simp add: co_cmdline_params_format_remaining_parameters_def cut_into_def)
qed

theorem format_remaining_joined_witness:
  "co_cmdline_params_format_remaining_parameters [Some ''root=/dev/cobd0'', None, Some ''ro''] (replicate 20 (CHR ''z'')) 19 =
     Some (CO_RC_OK, [None, None, None], ''root=/dev/cobd0 ro'' @ [CHR 0x00, CHR ''z''])"
  using format_remaining_joined [of 19 "replicate 20 (CHR ''z'')" "[Some ''root=/dev/cobd0'', None, Some ''ro'']"]
  by (simp add: eval_nat_numeral)

lemma quotation_marks_off:
  assumes "CHR 0x00 \<notin> set s"
  shows "Option.bind (co_remove_quotation_marks (s @ CHR 0x00 # rest)) cstring =
    (if s = [CHR 0x22] then None
     else if 2 \<le> length s \<and> hd s = CHR 0x22 \<and> last s = CHR 0x22 then Some (butlast (tl s)) else Some s)"
proof (cases "s \<noteq> [] \<and> hd s = CHR 0x22")
  case False
  then show ?thesis
    using cstring_terminated [OF assms, of rest] by (cases s) (auto simp: co_remove_quotation_marks_def)
next
  case True
  note kept = cstring_terminated [OF assms, of rest]
  have first: "(s @ CHR 0x00 # rest) ! 0 = CHR 0x22" using True by (cases s) auto
  have at_end: "(s @ CHR 0x00 # rest) ! nat (int (length s) - 1) = last s"
    using True by (simp add: nth_append last_conv_nth nat_diff_distrib')
  show ?thesis
  proof (cases "last s = CHR 0x22 \<and> s \<noteq> [CHR 0x22]")
    case False
    then consider (alone) "s = [CHR 0x22]" | (open_only) "last s \<noteq> CHR 0x22" by blast
    then show ?thesis
    proof cases
      case alone
      then show ?thesis using kept by (simp add: co_remove_quotation_marks_def)
    next
      case open_only
      then have "co_remove_quotation_marks (s @ CHR 0x00 # rest) = Some (s @ CHR 0x00 # rest)"
        unfolding co_remove_quotation_marks_def kept bind.simps Let_def first at_end using first by simp
      moreover have "s \<noteq> [CHR 0x22]" using open_only by auto
      ultimately show ?thesis using open_only kept by simp
    qed
  next
    case quoted: True
    obtain u where u: "s = CHR 0x22 # u" using True by (cases s) auto
    then have "u \<noteq> []" "last u = CHR 0x22" using quoted by auto
    then obtain t where s: "s = CHR 0x22 # t @ [CHR 0x22]" using u by (metis append_butlast_last_id)
    let ?memory = "s @ CHR 0x00 # rest"
    have "memmove ?memory 0 1 (length t) = Some (t @ drop (length t) ?memory)"
      unfolding s by (subst memmove_Some) auto
    moreover have "store_at (t @ drop (length t) ?memory) (int (length t)) (CHR 0x00) = Some (t @ CHR 0x00 # drop (length t + 1) ?memory)"
      unfolding s by (simp add: store_at_def list_update_append Cons_nth_drop_Suc [symmetric])
    ultimately have "co_remove_quotation_marks ?memory = Some (t @ CHR 0x00 # drop (length t + 1) ?memory)"
      using first at_end kept quoted by (simp add: co_remove_quotation_marks_def Let_def s)
    moreover have "CHR 0x00 \<notin> set t" using assms s by simp
    ultimately show ?thesis using cstring_terminated by (simp add: s)
  qed
qed

lemma quotation_marks_length: "co_remove_quotation_marks buf = Some buf' \<Longrightarrow> length buf' = length buf"
  by (auto simp: co_remove_quotation_marks_def Let_def bind_eq_Some_conv length_simps split: if_splits
      dest!: memmove_length store_at_length)

text \<open>
  Quotation marks come off in pairs. A string in quotation marks loses the first and the last
  character, every other string stays as it is, and a string that is one quotation mark alone is a
  copy of 4 GB.
\<close>

theorem quotation_marks_removed:
  assumes "CHR 0x00 \<notin> set s"
  shows "Option.bind (co_remove_quotation_marks (s @ CHR 0x00 # rest)) cstring =
    (if s = [CHR 0x22] then None
     else if 2 \<le> length s \<and> hd s = CHR 0x22 \<and> last s = CHR 0x22 then Some (butlast (tl s)) else Some s)"
  by (rule quotation_marks_off [OF assms])

theorem quotation_marks_removed_witness:
  "Option.bind (co_remove_quotation_marks ([CHR 0x22] @ ''Program Files'' @ [CHR 0x22, CHR 0x00, CHR ''x''])) cstring = Some ''Program Files''"
  using quotation_marks_removed [of "[CHR 0x22] @ ''Program Files'' @ [CHR 0x22]" "[CHR ''x'']"] by simp

text \<open>
  A setting without an index gets the index of the stack. If a parameter is the prefix and a
  value without an index between them, \<open>number\<close> is read without having been written, so the
  setting is taken for whatever number the stack holds.
\<close>

theorem index_of_the_stack:
  assumes "CHR ''='' \<notin> set p" and "v \<noteq> []" and "n < unat max_index" and "number = dec_nat n @ CHR 0x00 # rest"
  shows "co_cmdline_get_next_equality_int_prefix number [Some (p @ ''='' @ v)] p max_index old True =
    Some (CO_RC_OK, [None], Some (word_of_nat n), v @ [CHR 0x00], True)"
proof -
  have n: "n < 2 ^ 32" using assms(3) unsigned_less [of max_index, where ?'a = nat] by simp
  have "CHR 0x00 \<notin> set (dec_nat n)" using dec_nat_digits [of n] is_digit_not by blast
  note number_text = cstring_terminated [OF this, of rest]
  have "\<not> max_index \<le> word_of_nat n" using assms(3) n by (simp add: word_le_nat_alt unsigned_of_nat take_bit_nat_eq_self)
  moreover have "length (takeWhile (\<lambda>c. c \<noteq> CHR ''='') (p @ ''='' @ v)) = length p" using assms(1) by (subst takeWhile_append2) auto
  ultimately show ?thesis
    using number_text strtoul10_dec_nat [OF n] assms(2,4) dec_nat_nonempty [of n]
    by (simp add: co_cmdline_get_next_equality_int_prefix_def co_cmdline_get_next_equality_alloc_def
        co_cmdline_get_next_equality_wrapper_def CO_OK_def)
qed

theorem index_of_the_stack_witness:
  "co_cmdline_get_next_equality_int_prefix (dec_nat 7 @ CHR 0x00 # ''stack'') [Some (''cobd'' @ ''='' @ ''root.img'')] ''cobd'' 32 old True =
     Some (CO_RC_OK, [None], Some 7, ''root.img'' @ [CHR 0x00], True)"
  using index_of_the_stack [of "''cobd''" "''root.img''" 7 32 "dec_nat 7 @ CHR 0x00 # ''stack''" "''stack''" old] by simp

end
