(* ===== verification/Config_Values.thy ===== *)
theory Config_Values
  imports Cmdline_Params
begin

text \<open>
  The values of the settings (\<open>src/colinux/user/config.c\<close>: \<open>split_comma_separated\<close>,
  \<open>strmatch_identifier\<close>; \<open>src/colinux/user/macaddress.c\<close>), with the conversions of the C library
  that they use.
\<close>

section \<open>Fields separated by commas\<close>

text \<open>The inner loop of \<open>split_comma_separated\<close>: the rest of the source, the buffer and \<open>j\<close>. The end
  of \<open>source\<close> stands for its NUL.\<close>

function split_field :: "string \<Rightarrow> string \<Rightarrow> nat \<Rightarrow> bool \<Rightarrow> (string \<times> string \<times> nat) option" where
  "split_field source buf j quotation_marks =
     (if \<not> (int j < int (length buf) - 1 \<and> source \<noteq> []) then Some (source, buf, j)
      else if hd source = CHR 0x22 then
        (if tl source = [] \<or> hd (tl source) \<noteq> CHR 0x22 then split_field (tl source) buf j (\<not> quotation_marks)
         else Option.bind (store_at buf (int j) (CHR 0x22)) (\<lambda>buf. split_field (tl (tl source)) buf (j + 1) quotation_marks))
      else if hd source = CHR '','' \<and> \<not> quotation_marks then Some (source, buf, j)
      else Option.bind (store_at buf (int j) (hd source)) (\<lambda>buf. split_field (tl source) buf (j + 1) quotation_marks))"
  by pat_completeness auto
termination by (relation "measure (\<lambda>(source, buf, j, q). length source)") (auto simp: diff_less)

declare split_field.simps [simp del]

text \<open>The buffers of \<open>array\<close>, each as long as its \<open>size\<close>.\<close>

fun split_comma_separated :: "string \<Rightarrow> string list \<Rightarrow> string list option" where
  "split_comma_separated source [] = Some []"
| "split_comma_separated source (buf # array) =
     Option.bind (split_field source buf 0 False) (\<lambda>(source, buf, j).
     Option.bind (store_at buf (int j) (CHR 0x00)) (\<lambda>buf.
       map_option ((#) buf) (split_comma_separated (tl source) array)))"

section \<open>Words and numbers\<close>

fun common_end :: "string \<Rightarrow> string \<Rightarrow> string \<times> string" where
  "common_end (c # str) (d # identifier) = (if c = d then common_end str identifier else (c # str, d # identifier))"
| "common_end str identifier = (str, identifier)"

definition letter :: "char \<Rightarrow> bool" where
  "letter c \<longleftrightarrow> code (CHR ''a'') \<le> code c \<and> code c \<le> code (CHR ''z'') \<or> code (CHR ''A'') \<le> code c \<and> code c \<le> code (CHR ''Z'')"

text \<open>The second result is \<open>*end\<close>.\<close>

definition strmatch_identifier :: "string \<Rightarrow> string \<Rightarrow> bool \<times> string" where
  "strmatch_identifier str identifier =
     (let (str, identifier) = common_end str identifier
      in if identifier \<noteq> [] then (False, str)
         else if \<not> (str \<noteq> [] \<and> letter (hd str)) then (True, tl str)
         else (False, str))"

text \<open>\<open>strtol\<close> of the C library for the bases 10 and 0, and \<open>atoi\<close>: the value, cut to a \<open>long\<close>,
  and the number of characters used.\<close>

definition digit_value :: "char \<Rightarrow> int" where
  "digit_value c =
     (if is_digit c then digit_of c
      else if code (CHR ''a'') \<le> code c \<and> code c \<le> code (CHR ''z'') then int (code c) - 87
      else if code (CHR ''A'') \<le> code c \<and> code c \<le> code (CHR ''Z'') then int (code c) - 55
      else 99)"

definition number_in :: "int \<Rightarrow> string \<Rightarrow> int" where
  "number_in base s = foldl (\<lambda>n c. base * n + digit_value c) 0 s"

definition strtol :: "string \<Rightarrow> int \<Rightarrow> int \<times> nat" where
  "strtol s base =
     (let spaces = length (takeWhile is_space s);
          rest = drop spaces s;
          signs = (if rest \<noteq> [] \<and> (hd rest = CHR ''-'' \<or> hd rest = CHR ''+'') then 1 else 0);
          digits = drop signs rest;
          hex = (base = 0 \<and> take 1 digits = ''0'' \<and> (take 1 (drop 1 digits) = ''x'' \<or> take 1 (drop 1 digits) = ''X'') \<and>
            drop 2 digits \<noteq> [] \<and> digit_value (hd (drop 2 digits)) < 16);
          base = (if base \<noteq> 0 then base else if hex then 16 else if take 1 digits = ''0'' then 8 else 10);
          skip = (if hex then 2 else 0);
          digits = takeWhile (\<lambda>c. digit_value c < base) (drop skip digits);
          n = (if signs = 1 \<and> hd rest = CHR ''-'' then - number_in base digits else number_in base digits)
      in if digits = [] then (0, 0) else (max (- (2 ^ 31)) (min (2 ^ 31 - 1) n), spaces + signs + skip + length digits))"

definition atoi :: "string \<Rightarrow> int" where
  "atoi s = fst (strtol s 10)"

section \<open>MAC addresses\<close>

text \<open>The conversion \<open>%02x\<close> of \<open>sscanf\<close>: at most two characters after white space, as an \<open>unsigned
  int\<close>; then the rest.\<close>

definition scan_hex2 :: "string \<Rightarrow> (ulong \<times> string) option" where
  "scan_hex2 s =
     (case dropWhile is_space s of
        [] \<Rightarrow> None
      | c # cs \<Rightarrow>
          if c = CHR ''-'' \<or> c = CHR ''+'' then
            (case cs of [] \<Rightarrow> None
             | d # ds \<Rightarrow> if digit_value d < 16
                then Some (if c = CHR ''-'' then - word_of_int (digit_value d) else word_of_int (digit_value d), ds) else None)
          else if \<not> digit_value c < 16 then None
          else case cs of [] \<Rightarrow> Some (word_of_int (digit_value c), [])
             | d # ds \<Rightarrow>
                 if c = CHR ''0'' \<and> (d = CHR ''x'' \<or> d = CHR ''X'') then None
                 else if digit_value d < 16 then Some (word_of_int (16 * digit_value c + digit_value d), ds)
                 else Some (word_of_int (digit_value c), d # ds))"

text \<open>The conversions of the format, separated by colons: how many have succeeded, and \<open>mac\<close>.\<close>

fun scan_mac :: "nat \<Rightarrow> nat \<Rightarrow> string \<Rightarrow> ulong list \<Rightarrow> nat \<times> ulong list" where
  "scan_mac 0 i s mac = (i, mac)"
| "scan_mac (Suc n) i s mac =
     (case scan_hex2 s of None \<Rightarrow> (i, mac)
      | Some (w, s) \<Rightarrow>
          if n = 0 then (i + 1, mac[i := w])
          else if s \<noteq> [] \<and> hd s = CHR '':'' then scan_mac n (i + 1) (tl s) (mac[i := w]) else (i + 1, mac[i := w]))"

text \<open>\<open>mac\<close> is what the six numbers on the stack hold. The second result is \<open>binary\<close>, if it is
  written.\<close>

definition co_parse_mac_address :: "ulong list \<Rightarrow> string \<Rightarrow> co_rc_value \<times> uchar list option" where
  "co_parse_mac_address mac s =
     (if length s \<noteq> 17 then (CO_RC_INVALID_PARAMETER, None)
      else let (ret, mac) = scan_mac 6 0 s mac
      in (if ret \<noteq> 6 then CO_RC_INVALID_PARAMETER else CO_RC_OK, Some (map ucast mac)))"

text \<open>The conversion \<open>%02x\<close> of \<open>snprintf\<close>, and the text cut to the buffer.\<close>

definition hex_digit :: "nat \<Rightarrow> char" where
  "hex_digit n = (if n < 10 then char_of (48 + n) else char_of (87 + n))"

definition hex2 :: "uchar \<Rightarrow> string" where
  "hex2 b = [hex_digit (unat b div 16), hex_digit (unat b mod 16)]"

fun mac_text :: "uchar list \<Rightarrow> string" where
  "mac_text [] = []"
| "mac_text (b # mac) = hex2 b @ (if mac = [] then [] else '':'' @ mac_text mac)"

definition co_build_mac_address :: "nat \<Rightarrow> uchar list \<Rightarrow> string" where
  "co_build_mac_address ntext mac = take (ntext - 1) (mac_text mac)"

lemma digit_code: "digit_of c = int (code c) - 48" "is_digit c \<longleftrightarrow> 48 \<le> code c \<and> code c \<le> 57"
  by (simp_all add: digit_of_def is_digit_def code_def of_nat_of_char)

lemma hex_digit_code: "n < 16 \<Longrightarrow> code (hex_digit n) = (if n < 10 then 48 + n else 87 + n)"
  by (simp add: hex_digit_def code_def)

lemma hex_digit_value:
  assumes "n < 16"
  shows "digit_value (hex_digit n) = int n" and "\<not> is_space (hex_digit n)"
    and "hex_digit n \<noteq> CHR ''-'' \<and> hex_digit n \<noteq> CHR ''+'' \<and> hex_digit n \<noteq> CHR ''x'' \<and> hex_digit n \<noteq> CHR ''X''"
proof -
  have chars: "code (CHR ''-'') = 45" "code (CHR ''+'') = 43" "code (CHR ''x'') = 120" "code (CHR ''X'') = 88"
    by (simp_all add: code_def)
  show "digit_value (hex_digit n) = int n"
    using assms by (auto simp: digit_value_def digit_code hex_digit_code)
  show "\<not> is_space (hex_digit n)"
    using assms by (auto simp: is_space_def hex_digit_code simp flip: code_eq)
  show "hex_digit n \<noteq> CHR ''-'' \<and> hex_digit n \<noteq> CHR ''+'' \<and> hex_digit n \<noteq> CHR ''x'' \<and> hex_digit n \<noteq> CHR ''X''"
    using assms by (auto simp: hex_digit_code chars simp flip: code_eq)
qed

lemma scan_hex2_hex2: "scan_hex2 (hex2 b @ rest) = Some (ucast b, rest)"
proof -
  have b: "unat b div 16 < 16" "unat b mod 16 < 16" using unsigned_less [of b, where ?'a = nat] by simp_all
  have "16 * int (unat b div 16) + int (unat b mod 16) = int (unat b)" by presburger
  also have "\<dots> = uint b" by simp
  finally have "word_of_int (16 * int (unat b div 16) + int (unat b mod 16)) = (ucast b :: ulong)" by (simp only: ucast_eq)
  then show ?thesis
    using b hex_digit_value [OF b(1)] hex_digit_value [OF b(2)] by (simp add: scan_hex2_def hex2_def)
qed

text \<open>
  A MAC address that is printed is read back: the six bytes come out of the text, whatever the
  stack held before.
\<close>

theorem mac_address_roundtrip:
  assumes "length mac = 6" and "length junk = 6" and "18 \<le> ntext"
  shows "co_parse_mac_address junk (co_build_mac_address ntext mac) = (CO_RC_OK, Some mac)"
proof -
  obtain a b c d e f where mac: "mac = [a, b, c, d, e, f]" using assms(1) by (auto simp: eval_nat_numeral length_Suc_conv)
  obtain u v w x y z where junk: "junk = [u, v, w, x, y, z]" using assms(2) by (auto simp: eval_nat_numeral length_Suc_conv)
  have len: "length (hex2 b) = 2" for b by (simp add: hex2_def)
  have built: "co_build_mac_address ntext mac = mac_text mac" "length (mac_text mac) = 17"
    using assms(3) by (simp_all add: co_build_mac_address_def mac len)
  have "scan_mac 6 0 (mac_text mac) junk = (6, [ucast a, ucast b, ucast c, ucast d, ucast e, ucast f])"
    using scan_hex2_hex2 [of f "[]"]
    by (simp add: eval_nat_numeral mac junk scan_hex2_hex2)
  moreover have "ucast (ucast b :: ulong) = b" for b :: uchar by (auto intro!: bit_word_eqI simp: bit_simps)
  ultimately show ?thesis using built by (simp add: co_parse_mac_address_def mac)
qed

theorem mac_address_roundtrip_witness:
  "co_parse_mac_address [9, 9, 9, 9, 9, 9] (co_build_mac_address 18 [0, 0xff, 0x12, 0x34, 0x56, 0xab]) =
     (CO_RC_OK, Some [0, 0xff, 0x12, 0x34, 0x56, 0xab])"
  by (rule mac_address_roundtrip) simp_all

text \<open>Seventeen characters that are not an address but start like a short one are accepted.\<close>

lemma mac_address_trailing:
  assumes "length junk = 6"
  shows "co_parse_mac_address junk ''1:2:3:4:5:6 other'' = (CO_RC_OK, Some [1, 2, 3, 4, 5, 6])"
proof -
  obtain u v w x y z where junk: "junk = [u, v, w, x, y, z]" using assms by (auto simp: eval_nat_numeral length_Suc_conv)
  have six: "scan_mac 6 = scan_mac (Suc (Suc (Suc (Suc (Suc (Suc 0))))))" by (simp add: eval_nat_numeral)
  show ?thesis
    by (simp add: co_parse_mac_address_def junk six scan_hex2_def is_space_def digit_value_def digit_code code_def)
qed

section \<open>Fields\<close>

definition escaped :: "string \<Rightarrow> string" where
  "escaped f = concat (map (\<lambda>c. if c = CHR 0x22 then [CHR 0x22, CHR 0x22] else [c]) f)"

text \<open>A field as the configuration writes it: in quotation marks, with those inside doubled.\<close>

definition field_text :: "string \<Rightarrow> string" where
  "field_text f = (if f = [] then [] else [CHR 0x22] @ escaped f @ [CHR 0x22])"

fun fields_text :: "string list \<Rightarrow> string" where
  "fields_text [] = []"
| "fields_text (f # fs) = field_text f @ (if fs = [] then [] else '','' @ fields_text fs)"

definition placed :: "string \<Rightarrow> string \<Rightarrow> nat \<Rightarrow> string" where
  "placed buf f j = take j buf @ f @ drop (j + length f) buf"

lemma split_escaped:
  assumes "int (j + length f) < int (length buf) - 1" and "rest \<noteq> []"
  shows "split_field (escaped f @ rest) buf j True = split_field rest (placed buf f j) (j + length f) True"
  using assms
proof (induction f arbitrary: buf j)
  case Nil
  then show ?case by (simp add: escaped_def placed_def)
next
  case (Cons c f)
  let ?buf = "buf[j := c]"
  have "escaped f @ rest \<noteq> []" using Cons.prems(2) by simp
  then have "split_field (escaped (c # f) @ rest) buf j True = split_field (escaped f @ rest) ?buf (j + 1) True"
    using Cons.prems(1) by (subst split_field.simps) (auto simp: escaped_def store_at_def)
  moreover have "placed ?buf f (j + 1) = placed buf (c # f) j"
    using Cons.prems(1) by (simp add: placed_def take_Suc_conv_app_nth drop_update_cancel)
  ultimately show ?case using Cons.IH [of "j + 1" ?buf] Cons.prems by simp
qed

lemma split_quoted:
  assumes "length f + 2 \<le> length buf" and "f = [] \<or> hd f \<noteq> CHR 0x22" and "rest = [] \<or> hd rest = CHR '',''"
  shows "split_field (field_text f @ rest) buf 0 False = Some (rest, placed buf f 0, length f)"
proof (cases "f = []")
  case True
  then show ?thesis using assms by (subst split_field.simps) (auto simp: field_text_def placed_def)
next
  case False
  then have first: "hd (escaped f @ [CHR 0x22] @ rest) \<noteq> CHR 0x22" "escaped f \<noteq> []"
    using assms(2) by (cases f; simp add: escaped_def)+
  have "split_field (field_text f @ rest) buf 0 False = split_field (escaped f @ [CHR 0x22] @ rest) buf 0 True"
    using False first assms(1) by (subst split_field.simps) (auto simp: field_text_def)
  also have "\<dots> = split_field (CHR 0x22 # rest) (placed buf f 0) (length f) True"
    using split_escaped [of 0 f buf "CHR 0x22 # rest"] assms(1) by simp
  also have "\<dots> = split_field rest (placed buf f 0) (length f) False"
    using assms(1,3) by (subst split_field.simps) (auto simp: placed_def)
  also have "\<dots> = Some (rest, placed buf f 0, length f)"
    using assms(3) by (subst split_field.simps) auto
  finally show ?thesis .
qed


text \<open>
  The fields of a setting are read as they were written. Fields in quotation marks, with those
  inside doubled, and empty fields come out exactly, commas, blanks and quotation marks inside
  them too, if each is shorter than its buffer by two characters at least and does not begin with a
  quotation mark.
\<close>

theorem split_fields_roundtrip:
  assumes "list_all2 (\<lambda>f buf. length f + 2 \<le> length buf \<and> (f = [] \<or> hd f \<noteq> CHR 0x22)) fs bufs"
  shows "split_comma_separated (fields_text fs) bufs =
    Some (map2 (\<lambda>f buf. f @ CHR 0x00 # drop (length f + 1) buf) fs bufs)"
  using assms
proof (induction fs bufs rule: list_all2_induct)
  case Nil
  then show ?case by simp
next
  case (Cons f fs buf bufs)
  let ?rest = "if fs = [] then [] else '','' @ fields_text fs"
  have "split_field (field_text f @ ?rest) buf 0 False = Some (?rest, placed buf f 0, length f)"
    using Cons.hyps(1) by (intro split_quoted) auto
  moreover have "store_at (placed buf f 0) (int (length f)) (CHR 0x00) = Some (f @ CHR 0x00 # drop (length f + 1) buf)"
    using Cons.hyps(1) by (simp add: placed_def store_at_def list_update_append Cons_nth_drop_Suc [symmetric])
  moreover have "tl ?rest = fields_text fs" by simp
  ultimately show ?case using Cons.IH by (simp del: fields_text.simps add: fields_text.simps(2))
qed

theorem split_fields_roundtrip_witness:
  "split_comma_separated (fields_text [''LAN, 14'', [], ''a'' @ [CHR 0x22]]) [''zzzzzzzzzzzz'', ''zz'', ''zzzz''] =
     Some [''LAN, 14'' @ [CHR 0x00] @ ''zzzz'', [CHR 0x00] @ ''z'', ''a'' @ [CHR 0x22, CHR 0x00] @ ''z'']"
  using split_fields_roundtrip [of "[''LAN, 14'', [], ''a'' @ [CHR 0x22]]" "[''zzzzzzzzzzzz'', ''zz'', ''zzzz'']"]
  by (simp del: fields_text.simps split_comma_separated.simps)

lemma split_plain:
  assumes "CHR 0x22 \<notin> set f" and "CHR '','' \<notin> set f" and "j + length f < length buf"
  shows "split_field (f @ rest) buf j False = split_field rest (placed buf f j) (j + length f) False"
  using assms
proof (induction f arbitrary: buf j)
  case Nil
  then show ?case by (simp add: placed_def)
next
  case (Cons c f)
  let ?buf = "buf[j := c]"
  have "split_field ((c # f) @ rest) buf j False = split_field (f @ rest) ?buf (j + 1) False"
    using Cons.prems by (subst split_field.simps) (auto simp: store_at_def)
  moreover have "placed ?buf f (j + 1) = placed buf (c # f) j"
    using Cons.prems(3) by (simp add: placed_def take_Suc_conv_app_nth drop_update_cancel)
  ultimately show ?case using Cons.IH [of "j + 1" ?buf] Cons.prems by simp
qed

text \<open>
  A field that is too long spills into the next ones. The code does not skip what it cannot
  store up to the comma: it drops one character and the rest of the field is the next field.
\<close>

theorem split_field_spills:
  assumes "CHR 0x22 \<notin> set f" and "CHR '','' \<notin> set f" and "0 < length buf" and "length buf \<le> length f"
  shows "split_comma_separated (f @ rest) (buf # bufs) =
    map_option ((#) (take (length buf - 1) f @ [CHR 0x00])) (split_comma_separated (drop (length buf) f @ rest) bufs)"
proof -
  let ?n = "length buf - 1"
  have less: "?n < length f" using assms(3,4) by (cases buf) auto
  have "drop ?n buf = [last buf]"
    using assms(3) by (metis append_butlast_last_id append_take_drop_id butlast_conv_take length_greater_0_conv same_append_eq)
  have f: "f @ rest = take ?n f @ drop ?n f @ rest" by simp
  have drops: "drop ?n f = f ! ?n # drop (length buf) f" using Cons_nth_drop_Suc [of ?n f] assms(3,4) by (cases buf) auto
  have "split_field (f @ rest) buf 0 False = split_field (drop ?n f @ rest) (placed buf (take ?n f) 0) ?n False"
    using split_plain [of "take ?n f" 0 buf "drop ?n f @ rest"] assms by (subst f) (auto dest: in_set_takeD simp del: append_take_drop_id)
  also have "\<dots> = Some (drop ?n f @ rest, placed buf (take ?n f) 0, ?n)"
    using assms(3,4) by (subst split_field.simps) (auto simp: placed_def)
  finally have "split_field (f @ rest) buf 0 False = Some (drop ?n f @ rest, placed buf (take ?n f) 0, ?n)" .
  moreover have "store_at (placed buf (take ?n f) 0) (int ?n) (CHR 0x00) = Some (take ?n f @ [CHR 0x00])"
    using less \<open>drop ?n buf = [last buf]\<close> by (simp add: placed_def store_at_def list_update_append min_def)
  moreover have "tl (drop ?n f @ rest) = drop (length buf) f @ rest" by (subst drops) simp
  ultimately show ?thesis by simp
qed

theorem split_field_spills_witness:
  "split_comma_separated ''nopromiscuous'' [''zzzzzzzzzz'', ''zzzz''] = Some [''nopromisc'' @ [CHR 0x00], ''ous'' @ [CHR 0x00]]"
proof -
  have "split_comma_separated (''nopromiscuous'' @ []) [''zzzzzzzzzz'', ''zzzz''] =
      map_option ((#) (take 9 ''nopromiscuous'' @ [CHR 0x00])) (split_comma_separated (''ous'' @ []) [''zzzz''])"
    using split_field_spills [of "''nopromiscuous''" "''zzzzzzzzzz''" "[]" "[''zzzz'']"] by simp
  moreover have "split_field ''ous'' ''zzzz'' 0 False = Some ([], ''ousz'', 3)"
    by (simp add: split_field.simps store_at_def)
  ultimately show ?thesis by (simp add: store_at_def)
qed

text \<open>Every split stays inside its buffers.\<close>

lemma split_field_inside:
  assumes "buf \<noteq> []" and "j < length buf"
  shows "\<exists>source' buf' j'. split_field source buf j q = Some (source', buf', j') \<and> length buf' = length buf \<and> j' < length buf"
  using assms
proof (induction "length source" arbitrary: source buf j q rule: less_induct)
  case less
  have stored: "store_at buf (int j) c = Some (buf[j := c])" for c using less.prems(2) by (simp add: store_at_def)
  show ?case
  proof (cases "int j < int (length buf) - 1 \<and> source \<noteq> []")
    case False
    then show ?thesis using less.prems by (subst split_field.simps) auto
  next
    case True
    have IH: "\<exists>source' buf' j'. split_field s (buf[j := c]) k q = Some (source', buf', j') \<and> length buf' = length buf \<and> j' < length buf"
      if "length s < length source" "k < length buf" for s c k q
      using less.hyps [of s "buf[j := c]" k q] that less.prems(1) by simp
    have IH': "\<exists>source' buf' j'. split_field s buf k q = Some (source', buf', j') \<and> length buf' = length buf \<and> j' < length buf"
      if "length s < length source" "k < length buf" for s k q
      using less.hyps [of s buf k q] that less.prems(1) by simp
    show ?thesis
      using True less.prems IH [of "tl (tl source)" "j + 1" "CHR 0x22" q] IH [of "tl source" "j + 1" "hd source" q]
        IH' [of "tl source" j "\<not> q"]
      by (subst split_field.simps) (auto simp: stored diff_less)
  qed
qed

lemma split_inside:
  assumes "[] \<notin> set bufs"
  shows "\<exists>out. split_comma_separated source bufs = Some out \<and> map length out = map length bufs \<and> (\<forall>buf \<in> set out. CHR 0x00 \<in> set buf)"
  using assms
proof (induction bufs arbitrary: source)
  case Nil
  then show ?case by simp
next
  case (Cons buf bufs)
  obtain source' buf' j where field: "split_field source buf 0 False = Some (source', buf', j)" "length buf' = length buf" "j < length buf"
    using split_field_inside [of buf 0 source False] Cons.prems by auto
  moreover have "CHR 0x00 \<in> set (buf'[j := CHR 0x00])" using field by (simp add: set_update_memI)
  ultimately show ?case using Cons.IH [of "tl source'"] Cons.prems by (auto simp: store_at_def)
qed

end
