(* ===== verification/Config.thy ===== *)
theory Config
  imports Config_Values Co_Console Co_Pci
begin

text \<open>
  The parser of the configuration (\<open>src/colinux/user/config.c\<close>), which takes the settings out of the
  command line and fills the structure for the driver (\<open>src/colinux/common/config.h\<close>), as it runs
  on a Linux host. The fields that nothing here reads are left out; the settings of video devices
  are compiled only with \<open>CONFIG_COOPERATIVE_VIDEO\<close>, which no build of the repository defines.
\<close>

section \<open>The configuration\<close>

datatype co_netdev_type = CO_NETDEV_TYPE_BRIDGED_PCAP | CO_NETDEV_TYPE_TAP | CO_NETDEV_TYPE_SLIRP
  | CO_NETDEV_TYPE_NDIS_BRIDGE | CO_NETDEV_TYPE_NDIS_NAT | CO_NETDEV_TYPE_NDIS_HOST

text \<open>A string of the structure is the list of its characters, as long as the array; \<open>char *\<close> is the
  string or \<open>NULL\<close>.\<close>

record co_block_dev_desc =
  cobd_enabled :: bool
  cobd_pathname :: string
  alias_used :: bool
  cobd_alias :: string

record co_scsi_dev_desc =
  scsi_enabled :: bool
  scsi_type :: int
  scsi_pathname :: string
  scsi_is_dev :: bool
  scsi_size :: int

record co_netdev_desc =
  net_enabled :: bool
  net_desc :: string
  net_type :: co_netdev_type
  manual_mac_address :: bool
  mac_address :: "uchar list"
  redir :: string
  promisc_mode :: int

record co_cofsdev_desc =
  cofs_enabled :: bool
  cofs_pathname :: string

record co_serialdev_desc =
  serial_enabled :: bool
  serial_desc :: "string option"
  serial_mode :: "string option"

record co_execute_desc =
  execute_enabled :: bool
  execute_prog :: "string option"
  execute_args :: "string option"
  execute_pid :: int

text \<open>\<open>used_network_types\<close> is the static variable of \<open>config.c\<close>.\<close>

record co_config =
  vmlinux_path :: string
  block_devs :: "co_block_dev_desc list"
  conf_pci :: pci_space
  scsi_devs :: "co_scsi_dev_desc list"
  net_devs :: "co_netdev_desc list"
  cofs_devs :: "co_cofsdev_desc list"
  serial_devs :: "co_serialdev_desc list"
  executes :: "co_execute_desc list"
  boot_parameters_line :: string
  ram_size :: ulong
  initrd_enabled :: bool
  initrd_path :: string
  cobd_async_enable :: bool
  conf_console :: co_console_config
  used_network_types :: ulong

text \<open>What the parser gets from its surroundings: what the stack holds where a buffer of the given
  size is not initialised, whether an allocation of a value or by \<open>strdup\<close> succeeds, the files of
  the host, the directory of a path, and the verbosity.\<close>

record config_env =
  stack_of :: "nat \<Rightarrow> string option list \<Rightarrow> string"
  mac_stack :: "ulong list"
  value_room :: "string option list \<Rightarrow> bool"
  dup_room :: "string \<Rightarrow> bool"
  load_file :: "string \<Rightarrow> co_rc_value \<times> string"
  dirname :: "string \<Rightarrow> string"
  misc_level :: nat

type_synonym parsed = "(co_rc_value \<times> string option list \<times> co_config) option"

definition CO_PATHNAME :: nat where "CO_PATHNAME = 0x100"
definition CO_MODULE_MAX_EXECUTE :: ulong where "CO_MODULE_MAX_EXECUTE = 8"

lemmas config_max_defs = CO_MODULE_MAX_COBD_def CO_MODULE_MAX_COSCSI_def CO_MODULE_MAX_CONET_def CO_MODULE_MAX_COFS_def
  CO_MODULE_MAX_SERIAL_def CO_MODULE_MAX_EXECUTE_def

definition and_then :: "parsed \<Rightarrow> (string option list \<Rightarrow> co_config \<Rightarrow> parsed) \<Rightarrow> parsed" where
  "and_then r f = Option.bind r (\<lambda>(rc, cmdline, conf). if \<not> CO_OK rc then Some (rc, cmdline, conf) else f cmdline conf)"

text \<open>\<open>co_snprintf\<close> into a whole array.\<close>

definition print_into :: "string \<Rightarrow> string \<Rightarrow> va_arg list \<Rightarrow> string option" where
  "print_into buf format args =
     (case co_snprintf buf (int (length buf)) format args of Inl fault \<Rightarrow> None | Inr (_, buf, _) \<Rightarrow> Some buf)"

section \<open>Settings with an index\<close>

text \<open>The loop that every group of indexed settings has: the next setting, and the function for its
  device, until there is none or one fails.\<close>

definition parameters :: "string option list \<Rightarrow> nat" where
  "parameters cmdline = length (filter (\<lambda>arg. arg \<noteq> None) cmdline)"

lemma next_equality_Some: "next_equality p argv = Some i \<Longrightarrow> i < length argv \<and> argv ! i \<noteq> None"
  by (induction p argv arbitrary: i rule: next_equality.induct) (auto split: if_splits)

lemma parameters_update: "i < length argv \<Longrightarrow> argv ! i \<noteq> None \<Longrightarrow> parameters (argv[i := None]) < parameters argv"
proof (induction argv arbitrary: i)
  case Nil
  then show ?case by simp
next
  case (Cons a argv)
  then show ?case by (cases i) (auto simp: parameters_def)
qed

lemma wrapper_takes:
  assumes "co_cmdline_get_next_equality_wrapper cmdline p key key_size old n room = Some (rc, cmdline', key', val', True)"
  shows "parameters cmdline' < parameters cmdline"
  using assms parameters_update next_equality_Some [of p cmdline]
  by (auto simp: co_cmdline_get_next_equality_wrapper_def Let_def bind_eq_Some_conv split: option.splits if_splits)

lemma int_prefix_takes:
  assumes "co_cmdline_get_next_equality_int_prefix number cmdline p m old room = Some (rc, cmdline', k, val', True)"
  shows "parameters cmdline' < parameters cmdline"
proof -
  obtain rc0 c key v e where "co_cmdline_get_next_equality_wrapper cmdline p number 11 old 0 room = Some (rc0, c, key, v, e)"
    using assms by (auto simp: co_cmdline_get_next_equality_int_prefix_def co_cmdline_get_next_equality_alloc_def bind_eq_Some_conv)
  moreover from this have "c = cmdline'" "e"
    using assms
    by (auto simp: co_cmdline_get_next_equality_int_prefix_def co_cmdline_get_next_equality_alloc_def bind_eq_Some_conv
        case_prod_beta Let_def split: if_splits)
  ultimately show ?thesis using wrapper_takes [of cmdline p number 11 old 0 room rc0 c key v] by simp
qed

function settings_loop ::
  "config_env \<Rightarrow> string \<Rightarrow> ulong \<Rightarrow> (nat \<Rightarrow> string \<Rightarrow> co_config \<Rightarrow> (co_rc_value \<times> co_config) option) \<Rightarrow>
   string option list \<Rightarrow> co_config \<Rightarrow> parsed" where
  "settings_loop env pfx max_index device cmdline conf =
     Option.bind (co_cmdline_get_next_equality_int_prefix (stack_of env 11 cmdline) cmdline pfx max_index [] (value_room env cmdline))
       (\<lambda>(rc, cmdline', index, param, exists).
         if \<not> CO_OK rc then Some (rc, cmdline', conf)
         else if \<not> exists then Some (CO_RC_OK, cmdline', conf)
         else Option.bind (cstring param) (\<lambda>param.
              Option.bind (device (unat (the index)) param conf) (\<lambda>(rc, conf).
                if \<not> CO_OK rc then Some (rc, cmdline', conf) else settings_loop env pfx max_index device cmdline' conf)))"
  by pat_completeness auto
termination
  by (relation "measure (\<lambda>(env, pfx, max_index, device, cmdline, conf). parameters cmdline)") (auto dest: int_prefix_takes)

declare settings_loop.simps [simp del]


section \<open>Block devices\<close>

definition is_device :: "string \<Rightarrow> bool" where
  "is_device pathname \<longleftrightarrow>
     take 8 pathname = [CHR 0x5C] @ ''Device'' @ [CHR 0x5C] \<or> take 12 pathname = [CHR 0x5C] @ ''DosDevices'' @ [CHR 0x5C] \<or>
     take 8 pathname = [CHR 0x5C] @ ''Volume{'' \<or> take 4 pathname = [CHR 0x5C, CHR 0x5C, CHR ''.'', CHR 0x5C]"

text \<open>The verbose check of the build with \<open>COLINUX_DEBUG\<close>; the array may lose its quotation marks.\<close>

definition check_cobd_file :: "config_env \<Rightarrow> string \<Rightarrow> (co_rc_value \<times> string) option" where
  "check_cobd_file env pathname =
     (if misc_level env < 2 then Some (CO_RC_OK, pathname)
      else Option.bind (co_remove_quotation_marks pathname) (\<lambda>pathname.
           Option.bind (cstring pathname) (\<lambda>name.
             if is_device name then Some (CO_RC_OK, pathname)
             else let (rc, buf) = load_file env name
             in if \<not> CO_OK rc then Some (rc, pathname)
                else if length buf \<noteq> 1024 then Some (CO_RC_INVALID_PARAMETER, pathname)
                else if take 3 buf = ''BZh'' \<or> take 6 buf = ''7z'' @ [CHR 0xBC, CHR 0xAF, CHR 0x27, CHR 0x1C]
                then Some (CO_RC_INVALID_PARAMETER, pathname) else Some (rc, pathname))))"

definition set_cobd :: "nat \<Rightarrow> co_block_dev_desc \<Rightarrow> co_config \<Rightarrow> co_config" where
  "set_cobd index cobd conf = conf\<lparr>block_devs := (block_devs conf)[index := cobd]\<rparr>"

text \<open>The body of the loop of \<open>parse_args_config_cobd\<close>. \<open>co_canonize_cobd_path\<close> of a Linux host does
  nothing.\<close>

definition cobd_setting :: "config_env \<Rightarrow> nat \<Rightarrow> string \<Rightarrow> co_config \<Rightarrow> (co_rc_value \<times> co_config) option" where
  "cobd_setting env index param conf =
     (let cobd = block_devs conf ! index
      in if cobd_enabled cobd then Some (CO_RC_INVALID_PARAMETER, conf)
         else Option.bind (print_into (cobd_pathname cobd) ''%s'' [Va_str (Some param)]) (\<lambda>pathname.
           map_option (\<lambda>(rc, pathname). (rc, set_cobd index (cobd\<lparr>cobd_enabled := True, cobd_pathname := pathname\<rparr>) conf))
             (check_cobd_file env pathname)))"

definition parse_args_config_cobd :: "config_env \<Rightarrow> string option list \<Rightarrow> co_config \<Rightarrow> parsed" where
  "parse_args_config_cobd env cmdline conf =
     Option.bind (co_cmdline_get_next_equality cmdline ''setcobd'' [] 0 (stack_of env 16 cmdline) 16) (\<lambda>(rc, cmdline, key, buf, exists).
       if \<not> CO_OK rc then Some (rc, cmdline, conf)
       else and_then
         (if exists then
            map_option (\<lambda>mode.
                if mode = ''async'' then (CO_RC_OK, cmdline, conf\<lparr>cobd_async_enable := True\<rparr>)
                else if mode = ''sync'' then (CO_RC_OK, cmdline, conf\<lparr>cobd_async_enable := False\<rparr>)
                else (CO_RC_INVALID_PARAMETER, cmdline, conf)) (cstring buf)
          else Some (CO_RC_OK, cmdline, conf))
         (settings_loop env ''cobd'' CO_MODULE_MAX_COBD (cobd_setting env)))"

section \<open>Aliases\<close>

definition allocate_by_alias :: "config_env \<Rightarrow> string \<Rightarrow> string \<Rightarrow> string \<Rightarrow> co_config \<Rightarrow> (co_rc_value \<times> co_config) option" where
  "allocate_by_alias env pfx suffix param conf =
     (let i = length (takeWhile cobd_enabled (take (unat CO_MODULE_MAX_COBD) (block_devs conf)));
          cobd = block_devs conf ! i
      in if i = unat CO_MODULE_MAX_COBD then Some (CO_RC_ERROR, conf)
         else Option.bind (print_into (cobd_pathname cobd) ''%s'' [Va_str (Some param)]) (\<lambda>pathname.
              Option.bind (check_cobd_file env pathname) (\<lambda>(rc, pathname).
                let cobd = cobd\<lparr>cobd_enabled := True, cobd_pathname := pathname\<rparr>
                in if \<not> CO_OK rc then Some (rc, set_cobd i cobd conf)
                   else Option.bind (cstring suffix) (\<lambda>suffix.
                     map_option (\<lambda>alias. (CO_RC_OK, set_cobd i (cobd\<lparr>alias_used := True, cobd_alias := alias\<rparr>) conf))
                       (print_into (cobd_alias cobd) ''%s%s'' [Va_str (Some pfx), Va_str (Some suffix)])))))"

definition alias_setting :: "config_env \<Rightarrow> string \<Rightarrow> string \<Rightarrow> string \<Rightarrow> co_config \<Rightarrow> (co_rc_value \<times> co_config) option" where
  "alias_setting env pfx suffix param conf =
     (if take 5 param = '':cobd'' then
        let (index, used) = strtoul10 (drop 5 param); cobd = block_devs conf ! unat index
        in if used = 0 then Some (CO_RC_INVALID_PARAMETER, conf)
           else if CO_MODULE_MAX_COBD \<le> index then Some (CO_RC_INVALID_PARAMETER, conf)
           else if \<not> cobd_enabled cobd then Some (CO_RC_INVALID_PARAMETER, conf)
           else if alias_used cobd then Some (CO_RC_INVALID_PARAMETER, conf)
           else Option.bind (cstring suffix) (\<lambda>suffix.
             map_option (\<lambda>alias. (CO_RC_OK, set_cobd (unat index) (cobd\<lparr>alias_used := True, cobd_alias := alias\<rparr>) conf))
               (print_into (cobd_alias cobd) ''%s%s'' [Va_str (Some pfx), Va_str (Some suffix)]))
      else allocate_by_alias env pfx suffix param conf)"

text \<open>The inner loop for one pfx; \<open>suffix\<close> keeps what an earlier setting has left.\<close>

function alias_loop :: "config_env \<Rightarrow> string \<Rightarrow> string \<Rightarrow> string option list \<Rightarrow> co_config \<Rightarrow> parsed" where
  "alias_loop env pfx suffix cmdline conf =
     Option.bind (co_cmdline_get_next_equality_alloc cmdline pfx suffix 5 [] (value_room env cmdline))
       (\<lambda>(rc, cmdline', suffix, param, exists).
         if \<not> CO_OK rc then Some (rc, cmdline', conf)
         else if \<not> exists then Some (CO_RC_OK, cmdline', conf)
         else Option.bind (cstring param) (\<lambda>param.
              Option.bind (alias_setting env pfx suffix param conf) (\<lambda>(rc, conf).
                if \<not> CO_OK rc then Some (rc, cmdline', conf) else alias_loop env pfx suffix cmdline' conf)))"
  by pat_completeness auto
termination
  by (relation "measure (\<lambda>(env, pfx, suffix, cmdline, conf). parameters cmdline)")
    (auto simp: co_cmdline_get_next_equality_alloc_def dest: wrapper_takes)

declare alias_loop.simps [simp del]

definition parse_args_config_aliases :: "config_env \<Rightarrow> string option list \<Rightarrow> co_config \<Rightarrow> parsed" where
  "parse_args_config_aliases env cmdline conf =
     and_then (alias_loop env ''sd'' (stack_of env 5 cmdline) cmdline conf) (\<lambda>cmdline conf.
       alias_loop env ''hd'' (stack_of env 5 cmdline) cmdline conf)"

section \<open>SCSI devices\<close>

definition SCSI_PTYPE_DISK :: int where "SCSI_PTYPE_DISK = 0x00"
definition SCSI_PTYPE_TAPE :: int where "SCSI_PTYPE_TAPE = 0x01"
definition SCSI_PTYPE_WORM :: int where "SCSI_PTYPE_WORM = 0x04"
definition SCSI_PTYPE_CDDVD :: int where "SCSI_PTYPE_CDDVD = 0x05"
definition SCSI_PTYPE_CHANGER :: int where "SCSI_PTYPE_CHANGER = 0x08"
definition SCSI_PTYPE_PASS :: int where "SCSI_PTYPE_PASS = 0x1F"

lemmas scsi_ptype_defs = SCSI_PTYPE_DISK_def SCSI_PTYPE_TAPE_def SCSI_PTYPE_WORM_def SCSI_PTYPE_CDDVD_def SCSI_PTYPE_CHANGER_def
  SCSI_PTYPE_PASS_def

definition scsi_type_of :: "string \<Rightarrow> int option" where
  "scsi_type_of t =
     (if t = ''pass'' then Some SCSI_PTYPE_PASS else if t = ''disk'' then Some SCSI_PTYPE_DISK
      else if t = ''cdrom'' then Some SCSI_PTYPE_CDDVD else if t = ''cdrw'' then Some SCSI_PTYPE_WORM
      else if t = ''tape'' then Some SCSI_PTYPE_TAPE else if t = ''changer'' then Some SCSI_PTYPE_CHANGER else None)"

definition set_scsi :: "nat \<Rightarrow> co_scsi_dev_desc \<Rightarrow> co_config \<Rightarrow> co_config" where
  "set_scsi index scsi conf = conf\<lparr>scsi_devs := (scsi_devs conf)[index := scsi]\<rparr>"

text \<open>\<open>strcpy\<close> into an array.\<close>

definition copy_string :: "string \<Rightarrow> string \<Rightarrow> string option" where
  "copy_string buf s = copy_terminated buf s (length s)"

text \<open>The body of the loop of \<open>parse_args_config_scsi\<close>, for a setting split into its three fields.\<close>

definition scsi_setting :: "config_env \<Rightarrow> nat \<Rightarrow> string \<Rightarrow> co_config \<Rightarrow> (co_rc_value \<times> co_config) option" where
  "scsi_setting env index param conf =
     (let scsi = scsi_devs conf ! index
      in if scsi_enabled scsi then Some (CO_RC_INVALID_PARAMETER, conf)
         else
           Option.bind (split_comma_separated param [stack_of env 10 [], stack_of env 256 [], stack_of env 16 []]) (\<lambda>array.
           Option.bind (cstring (array ! 0)) (\<lambda>type.
           Option.bind (cstring (array ! 1)) (\<lambda>path.
           Option.bind (cstring (array ! 2)) (\<lambda>sz.
             let scsi = scsi\<lparr>scsi_enabled := True\<rparr>
             in case scsi_type_of type of
                  None \<Rightarrow> Some (CO_RC_INVALID_PARAMETER, set_scsi index scsi conf)
                | Some ty \<Rightarrow>
                    Option.bind (copy_string (scsi_pathname scsi) path) (\<lambda>pathname.
                      let scsi = scsi\<lparr>scsi_type := ty, scsi_pathname := pathname, scsi_is_dev := is_device path, scsi_size := atoi sz\<rparr>
                      in if ty = SCSI_PTYPE_PASS \<or> ty = SCSI_PTYPE_CHANGER then Some (CO_RC_OK, set_scsi index scsi conf)
                         else if scsi_size scsi = 0 then
                           map_option (\<lambda>(rc, pathname). (rc, set_scsi index (scsi\<lparr>scsi_pathname := pathname\<rparr>) conf)) (check_cobd_file env pathname)
                         else if scsi_size scsi < 0 \<or> 0x100000 < scsi_size scsi
                         then Some (CO_RC_INVALID_PARAMETER, set_scsi index scsi conf)
                         else Some (CO_RC_OK, set_scsi index scsi conf)))))))"

definition parse_args_config_scsi :: "config_env \<Rightarrow> string option list \<Rightarrow> co_config \<Rightarrow> parsed" where
  "parse_args_config_scsi env = settings_loop env ''scsi'' CO_MODULE_MAX_COSCSI (scsi_setting env)"

section \<open>Network interfaces\<close>

definition config_parse_mac_address :: "config_env \<Rightarrow> string \<Rightarrow> co_netdev_desc \<Rightarrow> co_rc_value \<times> co_netdev_desc" where
  "config_parse_mac_address env text net_dev =
     (if text \<noteq> [] then
        let (rc, binary) = co_parse_mac_address (mac_stack env) text;
            net_dev = (case binary of None \<Rightarrow> net_dev | Some mac \<Rightarrow> net_dev\<lparr>mac_address := mac\<rparr>)
        in if \<not> CO_OK rc then (rc, net_dev) else (CO_RC_OK, net_dev\<lparr>manual_mac_address := True\<rparr>)
      else (CO_RC_OK, net_dev))"

fun co_netdev_type_bit :: "co_netdev_type \<Rightarrow> ulong" where
  "co_netdev_type_bit CO_NETDEV_TYPE_BRIDGED_PCAP = 1"
| "co_netdev_type_bit CO_NETDEV_TYPE_TAP = 2"
| "co_netdev_type_bit CO_NETDEV_TYPE_SLIRP = 4"
| "co_netdev_type_bit CO_NETDEV_TYPE_NDIS_BRIDGE = 8"
| "co_netdev_type_bit CO_NETDEV_TYPE_NDIS_NAT = 16"
| "co_netdev_type_bit CO_NETDEV_TYPE_NDIS_HOST = 32"

text \<open>The device and, when it is complete, the bit of its type.\<close>

definition set_net :: "nat \<Rightarrow> co_netdev_desc \<Rightarrow> co_config \<Rightarrow> co_config" where
  "set_net index net_dev conf = conf\<lparr>net_devs := (net_devs conf)[index := net_dev]\<rparr>"

definition use_type :: "co_netdev_type \<Rightarrow> co_config \<Rightarrow> co_config" where
  "use_type type conf = conf\<lparr>used_network_types := used_network_types conf OR co_netdev_type_bit type\<rparr>"

definition parse_args_networking_device_tap :: "config_env \<Rightarrow> nat \<Rightarrow> string \<Rightarrow> co_config \<Rightarrow> (co_rc_value \<times> co_config) option" where
  "parse_args_networking_device_tap env index param conf =
     (let net_dev = net_devs conf ! index
      in Option.bind (split_comma_separated param [net_desc net_dev, stack_of env 40 [], stack_of env 40 []]) (\<lambda>array.
         Option.bind (cstring (array ! 1)) (\<lambda>mac.
           let net_dev = net_dev\<lparr>net_desc := array ! 0, net_type := CO_NETDEV_TYPE_TAP, net_enabled := True\<rparr>;
               (rc, net_dev) = config_parse_mac_address env mac net_dev;
               conf = set_net index net_dev conf
           in if \<not> CO_OK rc then Some (rc, conf) else Some (CO_RC_OK, use_type CO_NETDEV_TYPE_TAP conf))))"

definition parse_args_networking_device_pcap :: "config_env \<Rightarrow> nat \<Rightarrow> string \<Rightarrow> co_config \<Rightarrow> (co_rc_value \<times> co_config) option" where
  "parse_args_networking_device_pcap env index param conf =
     (let net_dev = net_devs conf ! index
      in Option.bind (split_comma_separated param [net_desc net_dev, stack_of env 40 [], stack_of env 10 []]) (\<lambda>array.
         Option.bind (cstring (array ! 1)) (\<lambda>mac.
         Option.bind (cstring (array ! 2)) (\<lambda>mode.
           let net_dev = net_dev\<lparr>net_desc := array ! 0, net_type := CO_NETDEV_TYPE_BRIDGED_PCAP, net_enabled := True, promisc_mode := 1\<rparr>;
               (rc, net_dev) = config_parse_mac_address env mac net_dev
           in if \<not> CO_OK rc then Some (rc, set_net index net_dev conf)
              else if mode \<noteq> [] \<and> mode \<noteq> ''nopromisc'' \<and> mode \<noteq> ''promisc'' then Some (CO_RC_INVALID_PARAMETER, set_net index net_dev conf)
              else let net_dev = net_dev\<lparr>promisc_mode := if mode = ''nopromisc'' then 0 else 1\<rparr>
              in Some (CO_RC_OK, use_type CO_NETDEV_TYPE_BRIDGED_PCAP (set_net index net_dev conf))))))"

definition parse_args_networking_device_slirp :: "config_env \<Rightarrow> nat \<Rightarrow> string \<Rightarrow> co_config \<Rightarrow> (co_rc_value \<times> co_config) option" where
  "parse_args_networking_device_slirp env index param conf =
     (let net_dev = net_devs conf ! index
      in Option.bind (split_comma_separated param [stack_of env 40 [], redir net_dev]) (\<lambda>array.
         Option.bind (cstring (array ! 0)) (\<lambda>mac.
           let net_dev = net_dev\<lparr>redir := array ! 1, net_type := CO_NETDEV_TYPE_SLIRP, net_enabled := True\<rparr>;
               (rc, net_dev) = config_parse_mac_address env mac net_dev;
               conf = set_net index net_dev conf
           in if \<not> CO_OK rc then Some (rc, conf) else Some (CO_RC_OK, use_type CO_NETDEV_TYPE_SLIRP conf))))"

definition parse_args_networking_device_ndis :: "config_env \<Rightarrow> nat \<Rightarrow> string \<Rightarrow> co_config \<Rightarrow> (co_rc_value \<times> co_config) option" where
  "parse_args_networking_device_ndis env index param conf =
     (let net_dev = net_devs conf ! index
      in Option.bind (split_comma_separated param [net_desc net_dev, stack_of env 40 [], stack_of env 10 []]) (\<lambda>array.
         Option.bind (cstring (array ! 1)) (\<lambda>mac.
         Option.bind (cstring (array ! 2)) (\<lambda>mode.
           let net_dev = net_dev\<lparr>net_desc := array ! 0, net_type := CO_NETDEV_TYPE_NDIS_BRIDGE, net_enabled := True, promisc_mode := 1\<rparr>;
               (rc, net_dev) = config_parse_mac_address env mac net_dev
           in if \<not> CO_OK rc then Some (rc, set_net index net_dev conf)
              else if mode \<noteq> [] \<and> mode \<noteq> ''nopromisc'' \<and> mode \<noteq> ''promisc'' then Some (CO_RC_INVALID_PARAMETER, set_net index net_dev conf)
              else let net_dev = net_dev\<lparr>promisc_mode := if mode = ''nopromisc'' then 0 else 1\<rparr>
              in Some (CO_RC_OK, use_type CO_NETDEV_TYPE_NDIS_BRIDGE (set_net index net_dev conf))))))"

definition parse_args_networking_device :: "config_env \<Rightarrow> nat \<Rightarrow> string \<Rightarrow> co_config \<Rightarrow> (co_rc_value \<times> co_config) option" where
  "parse_args_networking_device env index param conf =
     (let (tap, tap_end) = strmatch_identifier param ''tuntap'';
          (pcap, pcap_end) = strmatch_identifier param ''pcap-bridge'';
          (slirp, slirp_end) = strmatch_identifier param ''slirp'';
          (ndis, ndis_end) = strmatch_identifier param ''ndis-bridge''
      in if tap then parse_args_networking_device_tap env index tap_end conf
         else if pcap then parse_args_networking_device_pcap env index pcap_end conf
         else if slirp then parse_args_networking_device_slirp env index slirp_end conf
         else if ndis then parse_args_networking_device_ndis env index ndis_end conf
         else Some (CO_RC_INVALID_PARAMETER, conf))"

definition net_setting :: "config_env \<Rightarrow> nat \<Rightarrow> string \<Rightarrow> co_config \<Rightarrow> (co_rc_value \<times> co_config) option" where
  "net_setting env index param conf =
     (if net_enabled (net_devs conf ! index) then Some (CO_RC_INVALID_PARAMETER, conf)
      else parse_args_networking_device env index param conf)"

definition parse_args_networking :: "config_env \<Rightarrow> string option list \<Rightarrow> co_config \<Rightarrow> parsed" where
  "parse_args_networking env = settings_loop env ''eth'' CO_MODULE_MAX_CONET (net_setting env)"

section \<open>File systems\<close>

definition parse_args_cofs_device :: "nat \<Rightarrow> string \<Rightarrow> co_config \<Rightarrow> (co_rc_value \<times> co_config) option" where
  "parse_args_cofs_device index param conf =
     (let cofs = cofs_devs conf ! index
      in if cofs_enabled cofs then Some (CO_RC_INVALID_PARAMETER, conf)
         else map_option (\<lambda>pathname.
             (CO_RC_OK, conf\<lparr>cofs_devs := (cofs_devs conf)[index := cofs\<lparr>cofs_enabled := True, cofs_pathname := pathname\<rparr>]\<rparr>))
           (print_into (cofs_pathname cofs) ''%s'' [Va_str (Some param)]))"

definition parse_args_config_cofs :: "config_env \<Rightarrow> string option list \<Rightarrow> co_config \<Rightarrow> parsed" where
  "parse_args_config_cofs env = settings_loop env ''cofs'' CO_MODULE_MAX_COFS parse_args_cofs_device"

section \<open>Serial lines and programs\<close>

definition CO_SERIAL_DESC_STR_SIZE :: nat where "CO_SERIAL_DESC_STR_SIZE = 0x40"
definition CO_SERIAL_MODE_STR_SIZE :: nat where "CO_SERIAL_MODE_STR_SIZE = 0x100"
definition CO_EXECUTE_PROG_STR_SIZE :: nat where "CO_EXECUTE_PROG_STR_SIZE = 0x100"
definition CO_EXECUTE_ARGS_STR_SIZE :: nat where "CO_EXECUTE_ARGS_STR_SIZE = 0x200"

definition set_serial :: "nat \<Rightarrow> co_serialdev_desc \<Rightarrow> co_config \<Rightarrow> co_config" where
  "set_serial index serial conf = conf\<lparr>serial_devs := (serial_devs conf)[index := serial]\<rparr>"

definition parse_args_serial_device :: "config_env \<Rightarrow> nat \<Rightarrow> string \<Rightarrow> co_config \<Rightarrow> (co_rc_value \<times> co_config) option" where
  "parse_args_serial_device env index param conf =
     (let serial = serial_devs conf ! index
      in if serial_enabled serial then Some (CO_RC_INVALID_PARAMETER, conf)
         else
           Option.bind (split_comma_separated param [stack_of env CO_SERIAL_DESC_STR_SIZE [], stack_of env CO_SERIAL_MODE_STR_SIZE []]) (\<lambda>array.
           Option.bind (cstring (array ! 0)) (\<lambda>name.
           map_option (\<lambda>mode.
             let serial = serial\<lparr>serial_enabled := True\<rparr>
             in if name = [] then (CO_RC_INVALID_PARAMETER, set_serial index serial conf)
                else if \<not> dup_room env name then (CO_RC_OUT_OF_MEMORY, set_serial index (serial\<lparr>serial_desc := None\<rparr>) conf)
                else if mode = [] then (CO_RC_OK, set_serial index (serial\<lparr>serial_desc := Some name\<rparr>) conf)
                else if \<not> dup_room env mode
                then (CO_RC_OUT_OF_MEMORY, set_serial index (serial\<lparr>serial_desc := Some name, serial_mode := None\<rparr>) conf)
                else (CO_RC_OK, set_serial index (serial\<lparr>serial_desc := Some name, serial_mode := Some mode\<rparr>) conf))
             (cstring (array ! 1)))))"

definition parse_args_config_serial :: "config_env \<Rightarrow> string option list \<Rightarrow> co_config \<Rightarrow> parsed" where
  "parse_args_config_serial env = settings_loop env ''ttys'' CO_MODULE_MAX_SERIAL (parse_args_serial_device env)"

definition set_execute :: "nat \<Rightarrow> co_execute_desc \<Rightarrow> co_config \<Rightarrow> co_config" where
  "set_execute index exec conf = conf\<lparr>executes := (executes conf)[index := exec]\<rparr>"

definition parse_args_execute :: "config_env \<Rightarrow> nat \<Rightarrow> string \<Rightarrow> co_config \<Rightarrow> (co_rc_value \<times> co_config) option" where
  "parse_args_execute env index param conf =
     (let exec = executes conf ! index
      in if execute_enabled exec then Some (CO_RC_INVALID_PARAMETER, conf)
         else
           Option.bind (split_comma_separated param [stack_of env CO_EXECUTE_PROG_STR_SIZE [], stack_of env CO_EXECUTE_ARGS_STR_SIZE []]) (\<lambda>array.
           Option.bind (cstring (array ! 0)) (\<lambda>prog.
           map_option (\<lambda>args.
             let exec = exec\<lparr>execute_enabled := True, execute_pid := 0\<rparr>
             in if prog = [] then (CO_RC_INVALID_PARAMETER, set_execute index exec conf)
                else if \<not> dup_room env prog then (CO_RC_OUT_OF_MEMORY, set_execute index (exec\<lparr>execute_prog := None\<rparr>) conf)
                else if args = [] then (CO_RC_OK, set_execute index (exec\<lparr>execute_prog := Some prog\<rparr>) conf)
                else if \<not> dup_room env args
                then (CO_RC_OUT_OF_MEMORY, set_execute index (exec\<lparr>execute_prog := Some prog, execute_args := None\<rparr>) conf)
                else (CO_RC_OK, set_execute index (exec\<lparr>execute_prog := Some prog, execute_args := Some args\<rparr>) conf))
             (cstring (array ! 1)))))"

definition parse_args_config_execute :: "config_env \<Rightarrow> string option list \<Rightarrow> co_config \<Rightarrow> parsed" where
  "parse_args_config_execute env = settings_loop env ''exec'' CO_MODULE_MAX_EXECUTE (parse_args_execute env)"

section \<open>The PCI bus\<close>

definition set_pci :: "nat \<Rightarrow> nat \<Rightarrow> uchar \<Rightarrow> uchar \<Rightarrow> co_config \<Rightarrow> co_config" where
  "set_pci d f t u conf = conf\<lparr>conf_pci := (conf_pci conf)[d := (conf_pci conf ! d)[f := \<lparr>pci_type = t, pci_unit = u\<rparr>]]\<rparr>"

text \<open>The body of the loop of \<open>parse_args_config_pci\<close>, for a setting split into function, type and
  unit.\<close>

definition pci_setting :: "config_env \<Rightarrow> nat \<Rightarrow> string \<Rightarrow> co_config \<Rightarrow> (co_rc_value \<times> co_config) option" where
  "pci_setting env index param conf =
     Option.bind (split_comma_separated param [stack_of env 8 [], stack_of env 16 [], stack_of env 8 []]) (\<lambda>array.
     Option.bind (cstring (array ! 0)) (\<lambda>func.
     Option.bind (cstring (array ! 1)) (\<lambda>type.
     Option.bind (cstring (array ! 2)) (\<lambda>unit.
       let f = atoi func; u = atoi unit
       in if 31 < index then Some (CO_RC_INVALID_PARAMETER, conf)
          else if f < 0 \<or> 7 < f then Some (CO_RC_INVALID_PARAMETER, conf)
          else if type = ''scsi'' then
            (if \<not> list_ex scsi_enabled (scsi_devs conf) then Some (CO_RC_INVALID_PARAMETER, conf)
             else Some (CO_RC_OK, set_pci index (nat f) CO_DEVICE_SCSI (word_of_int u) conf))
          else if type = ''network'' \<or> type = ''net'' then
            (if u < 0 \<or> uint CO_MODULE_MAX_CONET \<le> u then Some (CO_RC_INVALID_PARAMETER, conf)
             else if \<not> net_enabled (net_devs conf ! nat u) then Some (CO_RC_INVALID_PARAMETER, conf)
             else Some (CO_RC_OK, set_pci index (nat f) CO_DEVICE_NETWORK (word_of_int u) conf))
          else Some (CO_RC_INVALID_PARAMETER, conf)))))"

definition parse_args_config_pci :: "config_env \<Rightarrow> string option list \<Rightarrow> co_config \<Rightarrow> parsed" where
  "parse_args_config_pci env = settings_loop env ''pci'' 32 (pci_setting env)"

section \<open>The console\<close>

definition CO_CONSOLE_MIN_ROWS :: int where "CO_CONSOLE_MIN_ROWS = 2"
definition CO_CONSOLE_MAX_ROWS :: int where "CO_CONSOLE_MAX_ROWS = 500"
definition CO_CONSOLE_MIN_COLS :: int where "CO_CONSOLE_MIN_COLS = 16"
definition CO_CONSOLE_WIDTH :: int where "CO_CONSOLE_WIDTH = 80"
definition CO_CONSOLE_HEIGHT :: int where "CO_CONSOLE_HEIGHT = 25"

lemmas co_console_limits = CO_CONSOLE_MIN_ROWS_def CO_CONSOLE_MAX_ROWS_def CO_CONSOLE_MIN_COLS_def CO_CONSOLE_WIDTH_def
  CO_CONSOLE_HEIGHT_def

text \<open>A number of the setting, and what follows it and the character that ends it.\<close>

definition next_number :: "string \<Rightarrow> int \<times> string" where
  "next_number p = (let (n, used) = strtol p 0 in (n, tl (drop used p)))"

definition set_screen :: "int \<Rightarrow> int \<Rightarrow> int \<Rightarrow> co_config \<Rightarrow> co_config" where
  "set_screen x y max_y conf =
     conf\<lparr>conf_console := (conf_console conf)\<lparr>cfg_x := word_of_int x, cfg_y := word_of_int y, cfg_max_y := word_of_int max_y\<rparr>\<rparr>"

definition cocon_value :: "string \<Rightarrow> co_config \<Rightarrow> co_rc_value \<times> co_config" where
  "cocon_value buf conf =
     (let (x, p) = next_number buf;
          (y, p) = next_number p;
          (max_y, p) = next_number p;
          max_y = (if max_y = 0 then CO_CONSOLE_MAX_ROWS else max_y);
          max_y = (if max_y < y then y else max_y)
      in if x < CO_CONSOLE_MIN_COLS \<or> y < CO_CONSOLE_MIN_ROWS \<or> CO_CONSOLE_MAX_ROWS < max_y then (CO_RC_INVALID_PARAMETER, conf)
         else (CO_RC_OK, set_screen x y max_y conf))"

definition parse_args_config_cocon :: "config_env \<Rightarrow> string option list \<Rightarrow> co_config \<Rightarrow> parsed" where
  "parse_args_config_cocon env cmdline conf =
     (let conf = set_screen CO_CONSOLE_WIDTH CO_CONSOLE_HEIGHT CO_CONSOLE_MAX_ROWS conf
      in Option.bind (co_cmdline_get_next_equality cmdline ''cocon'' [] 0 (stack_of env 16 cmdline) 16) (\<lambda>(rc, cmdline, key, buf, exists).
           if \<not> CO_OK rc then Some (rc, cmdline, conf)
           else if exists then map_option (\<lambda>s. let (rc, conf) = cocon_value s conf in (rc, cmdline, conf)) (cstring buf)
           else Some (CO_RC_OK, cmdline, conf)))"

definition CO_CUR_NONE :: ulong where "CO_CUR_NONE = 1"
definition CO_CUR_UNDERLINE :: ulong where "CO_CUR_UNDERLINE = 2"
definition CO_CUR_LOWER_THIRD :: ulong where "CO_CUR_LOWER_THIRD = 3"
definition CO_CUR_LOWER_HALF :: ulong where "CO_CUR_LOWER_HALF = 4"
definition CO_CUR_TWO_THIRDS :: ulong where "CO_CUR_TWO_THIRDS = 5"
definition CO_CUR_BLOCK :: ulong where "CO_CUR_BLOCK = 6"
definition CO_CUR_DEFAULT :: ulong where "CO_CUR_DEFAULT = CO_CUR_UNDERLINE"

definition cursor_size :: "int \<Rightarrow> ulong" where
  "cursor_size size_prc =
     (if size_prc \<le> 0 then CO_CUR_NONE else if size_prc \<le> 16 then CO_CUR_UNDERLINE
      else if size_prc \<le> 33 then CO_CUR_LOWER_THIRD else if size_prc \<le> 50 then CO_CUR_LOWER_HALF
      else if size_prc \<le> 66 then CO_CUR_TWO_THIRDS else if size_prc \<le> 100 then CO_CUR_BLOCK else CO_CUR_DEFAULT)"

definition parse_args_config_cursor :: "config_env \<Rightarrow> string option list \<Rightarrow> co_config \<Rightarrow> parsed" where
  "parse_args_config_cursor env cmdline conf =
     (let conf = conf\<lparr>conf_console := (conf_console conf)\<lparr>curs_type_size := CO_CUR_DEFAULT\<rparr>\<rparr>
      in Option.bind (co_cmdline_get_next_equality cmdline ''cursor'' [] 0 (stack_of env 16 cmdline) 16) (\<lambda>(rc, cmdline, key, buf, exists).
           if \<not> CO_OK rc then Some (rc, cmdline, conf)
           else if exists then
             map_option (\<lambda>s.
               let size_prc = fst (strtol s 0)
               in if size_prc < 0 \<or> 100 < size_prc then (CO_RC_INVALID_PARAMETER, cmdline, conf)
                  else (CO_RC_OK, cmdline, conf\<lparr>conf_console := (conf_console conf)\<lparr>curs_type_size := cursor_size size_prc\<rparr>\<rparr>)) (cstring buf)
           else Some (CO_RC_OK, cmdline, conf)))"

section \<open>Colours\<close>

definition CO_COLOR_BLACK :: int where "CO_COLOR_BLACK = 0x00"
definition CO_COLOR_BLUE :: int where "CO_COLOR_BLUE = 0x01"
definition CO_COLOR_GREEN :: int where "CO_COLOR_GREEN = 0x02"
definition CO_COLOR_RED :: int where "CO_COLOR_RED = 0x04"
definition CO_COLOR_BROWN :: int where "CO_COLOR_BROWN = CO_COLOR_RED OR CO_COLOR_GREEN"
definition CO_COLOR_MAGENTA :: int where "CO_COLOR_MAGENTA = CO_COLOR_RED OR CO_COLOR_BLUE"
definition CO_COLOR_CYAN :: int where "CO_COLOR_CYAN = CO_COLOR_GREEN OR CO_COLOR_BLUE"
definition CO_COLOR_GRAY :: int where "CO_COLOR_GRAY = CO_COLOR_RED OR CO_COLOR_GREEN OR CO_COLOR_BLUE"
definition CO_ATTR_BRIGHT :: int where "CO_ATTR_BRIGHT = 0x08"
definition CO_ATTR_DEFAULT :: int where "CO_ATTR_DEFAULT = push_bit 4 CO_COLOR_BLACK OR CO_COLOR_GRAY"

lemmas co_color_defs = CO_COLOR_BLACK_def CO_COLOR_BLUE_def CO_COLOR_GREEN_def CO_COLOR_RED_def CO_COLOR_BROWN_def
  CO_COLOR_MAGENTA_def CO_COLOR_CYAN_def CO_COLOR_GRAY_def CO_ATTR_BRIGHT_def CO_ATTR_DEFAULT_def

definition co_color_tbl :: "(string \<times> nat \<times> int) list" where
  "co_color_tbl =
     [(''black'', 5, CO_COLOR_BLACK), (''red'', 3, CO_COLOR_RED), (''green'', 5, CO_COLOR_GREEN), (''brown'', 5, CO_COLOR_BROWN),
      (''blue'', 4, CO_COLOR_BLUE), (''magenta'', 7, CO_COLOR_MAGENTA), (''cyan'', 4, CO_COLOR_CYAN), (''gray'', 4, CO_COLOR_GRAY),
      (''darkgray'', 8, CO_COLOR_BLACK OR CO_ATTR_BRIGHT), (''brightred'', 9, CO_COLOR_RED OR CO_ATTR_BRIGHT),
      (''brightgreen'', 11, CO_COLOR_GREEN OR CO_ATTR_BRIGHT), (''yellow'', 6, CO_COLOR_BROWN OR CO_ATTR_BRIGHT),
      (''brightblue'', 10, CO_COLOR_BLUE OR CO_ATTR_BRIGHT), (''brightmagenta'', 13, CO_COLOR_MAGENTA OR CO_ATTR_BRIGHT),
      (''brightcyan'', 10, CO_COLOR_CYAN OR CO_ATTR_BRIGHT), (''white'', 5, CO_COLOR_GRAY OR CO_ATTR_BRIGHT)]"

text \<open>The attribute, or -1, and \<open>*str_pp\<close>, which only moves over a name that is found.\<close>

definition co_find_color_attr :: "string \<Rightarrow> int \<times> string" where
  "co_find_color_attr beg =
     (let len = length (takeWhile (\<lambda>c. c \<noteq> CHR '','') beg)
      in if 0 < len then
           (case find (\<lambda>(name, n, a). len = n \<and> take len name = take len beg) co_color_tbl of
              Some (name, n, a) \<Rightarrow> (a, drop len beg)
            | None \<Rightarrow> (- 1, beg))
         else (- 1, beg))"

text \<open>The code of reading the setting is not tested.\<close>

definition parse_args_config_color :: "config_env \<Rightarrow> string option list \<Rightarrow> co_config \<Rightarrow> parsed" where
  "parse_args_config_color env cmdline conf =
     (let conf = conf\<lparr>conf_console := (conf_console conf)\<lparr>cfg_attr := word_of_int CO_ATTR_DEFAULT\<rparr>\<rparr>
      in Option.bind (co_cmdline_get_next_equality cmdline ''color'' [] 0 (stack_of env 32 cmdline) 32) (\<lambda>(rc, cmdline, key, buf, exists).
           if exists then
             map_option (\<lambda>s.
               let (fg_attr, str_p) = co_find_color_attr s;
                   (bg_attr, str_p) = co_find_color_attr (tl str_p)
               in if fg_attr < 0 \<or> bg_attr < 0 then (CO_RC_INVALID_PARAMETER, cmdline, conf)
                  else if fg_attr = bg_attr then (CO_RC_INVALID_PARAMETER, cmdline, conf)
                  else (CO_RC_OK, cmdline,
                    conf\<lparr>conf_console := (conf_console conf)\<lparr>cfg_attr := word_of_int (push_bit 4 bg_attr OR fg_attr)\<rparr>\<rparr>)) (cstring buf)
           else Some (CO_RC_OK, cmdline, conf)))"

section \<open>All settings\<close>

definition parse_ram_size :: "config_env \<Rightarrow> string option list \<Rightarrow> co_config \<Rightarrow> parsed" where
  "parse_ram_size env cmdline conf =
     map_option (\<lambda>(rc, cmdline, n, exists). (rc, cmdline, case n of None \<Rightarrow> conf | Some n \<Rightarrow> conf\<lparr>ram_size := n\<rparr>))
       (co_cmdline_get_next_equality_int_value (stack_of env 20 cmdline) cmdline ''mem'')"

text \<open>The path of the initial RAM disk and, if the last file system is free, its directory there.\<close>

definition parse_initrd :: "config_env \<Rightarrow> string option list \<Rightarrow> co_config \<Rightarrow> parsed" where
  "parse_initrd env cmdline conf =
     Option.bind (co_cmdline_get_next_equality cmdline ''initrd'' [] 0 (initrd_path conf) (int CO_PATHNAME)) (\<lambda>(rc, cmdline, key, path, exists).
       let conf = conf\<lparr>initrd_enabled := exists, initrd_path := path\<rparr>
       in if \<not> CO_OK rc then Some (rc, cmdline, conf)
          else if exists then
            Option.bind (co_remove_quotation_marks path) (\<lambda>path.
              let conf = conf\<lparr>initrd_path := path\<rparr>
              in if \<not> cofs_enabled (cofs_devs conf ! (unat CO_MODULE_MAX_COFS - 1)) then
                   Option.bind (cstring path) (\<lambda>path.
                     if \<not> dup_room env path then Some (CO_RC_OUT_OF_MEMORY, cmdline, conf)
                     else let param = dirname env path
                     in if param \<noteq> [] then
                          map_option (\<lambda>(rc, conf). (rc, cmdline, conf)) (parse_args_cofs_device (unat CO_MODULE_MAX_COFS - 1) param conf)
                        else Some (rc, cmdline, conf))
                 else Some (rc, cmdline, conf))
          else Some (rc, cmdline, conf))"

definition parse_config_args :: "config_env \<Rightarrow> string option list \<Rightarrow> co_config \<Rightarrow> parsed" where
  "parse_config_args env cmdline conf =
     foldl and_then (Some (CO_RC_OK, cmdline, conf))
       [parse_ram_size env, parse_args_config_scsi env, parse_args_config_cobd env, parse_args_config_aliases env,
        parse_args_networking env, parse_args_config_cofs env, parse_args_config_pci env, parse_initrd env,
        parse_args_config_serial env, parse_args_config_execute env, parse_args_config_color env, parse_args_config_cocon env,
        parse_args_config_cursor env]"

text \<open>The start parameters: the configuration, and what the daemon sees of the command line.\<close>

record co_start_parameters =
  start_config :: co_config
  cmdline_config :: bool
  config_specified :: bool
  network_types :: ulong

definition co_parse_config_args ::
  "config_env \<Rightarrow> string option list \<Rightarrow> co_start_parameters \<Rightarrow> (co_rc_value \<times> string option list \<times> co_start_parameters) option" where
  "co_parse_config_args env cmdline start_parameters =
     (let conf = start_config start_parameters
      in Option.bind (co_cmdline_get_next_equality cmdline ''kernel'' [] 0 (vmlinux_path conf) (int CO_PATHNAME)) (\<lambda>(rc, cmdline, key, path, exists).
           let start_parameters = start_parameters\<lparr>cmdline_config := exists, start_config := conf\<lparr>vmlinux_path := path\<rparr>\<rparr>
           in if \<not> CO_OK rc then Some (rc, cmdline, start_parameters)
              else if \<not> exists then Some (CO_RC_OK, cmdline, start_parameters)
              else Option.bind (co_remove_quotation_marks path) (\<lambda>path.
                   Option.bind (parse_config_args env cmdline (conf\<lparr>vmlinux_path := path\<rparr>)) (\<lambda>(rc, cmdline, conf).
                   Option.bind (co_cmdline_params_format_remaining_parameters cmdline (boot_parameters_line conf)
                       (int (length (boot_parameters_line conf)))) (\<lambda>(rc', cmdline, line).
                     let conf = conf\<lparr>boot_parameters_line := line\<rparr>;
                         start_parameters = start_parameters\<lparr>start_config := conf\<rparr>
                     in if \<not> CO_OK rc' then Some (rc', cmdline, start_parameters)
                        else Some (rc, cmdline, start_parameters\<lparr>
                          config_specified := (if CO_OK rc then True else config_specified start_parameters),
                          network_types := network_types start_parameters OR used_network_types conf\<rparr>))))))"

end
