(* ===== verification/Config_Safety.thy ===== *)
theory Config_Safety
  imports Config
begin

text \<open>
  That the parser of the configuration stays inside its arrays and buffers, for every command line,
  as a contract of the groups of settings.
\<close>

section \<open>Well-formed arguments\<close>

definition env_ok :: "config_env \<Rightarrow> bool" where
  "env_ok env \<longleftrightarrow> (\<forall>n cmdline. length (stack_of env n cmdline) = n \<and> (n \<noteq> 0 \<longrightarrow> CHR 0x00 \<in> set (stack_of env n cmdline))) \<and>
     length (mac_stack env) = 6 \<and> misc_level env < 2"

definition args_ok :: "string option list \<Rightarrow> bool" where
  "args_ok cmdline \<longleftrightarrow> (\<forall>arg. Some arg \<in> set cmdline \<longrightarrow>
     CHR 0x00 \<notin> set arg \<and> arg \<noteq> ''kernel='' @ [CHR 0x22] \<and> arg \<noteq> ''initrd='' @ [CHR 0x22])"

definition config_ok :: "co_config \<Rightarrow> bool" where
  "config_ok conf \<longleftrightarrow>
     length (vmlinux_path conf) = CO_PATHNAME \<and> length (initrd_path conf) = CO_PATHNAME \<and> length (boot_parameters_line conf) = 0x100 \<and>
     length (block_devs conf) = unat CO_MODULE_MAX_COBD \<and>
       (\<forall>d \<in> set (block_devs conf). length (cobd_pathname d) = CO_PATHNAME \<and> length (cobd_alias d) = 20) \<and>
     length (scsi_devs conf) = unat CO_MODULE_MAX_COSCSI \<and> (\<forall>d \<in> set (scsi_devs conf). length (scsi_pathname d) = CO_PATHNAME) \<and>
     length (net_devs conf) = unat CO_MODULE_MAX_CONET \<and>
       (\<forall>d \<in> set (net_devs conf). length (net_desc d) = 0x40 \<and> length (redir d) = 0xFF) \<and>
     length (cofs_devs conf) = unat CO_MODULE_MAX_COFS \<and> (\<forall>d \<in> set (cofs_devs conf). length (cofs_pathname d) = CO_PATHNAME) \<and>
     length (serial_devs conf) = unat CO_MODULE_MAX_SERIAL \<and> length (executes conf) = unat CO_MODULE_MAX_EXECUTE \<and>
     length (conf_pci conf) = COPCI_MAX_SLOTS \<and> (\<forall>slot \<in> set (conf_pci conf). length slot = COPCI_MAX_FUNCS)"

lemma args_ok_update: "args_ok cmdline \<Longrightarrow> args_ok (cmdline[i := None])"
  by (cases "i < length cmdline") (auto simp: args_ok_def dest!: set_update_subset_insert [THEN subsetD])

lemma stack_ok:
  assumes "env_ok env"
  shows "length (stack_of env n cmdline) = n" and "n \<noteq> 0 \<Longrightarrow> CHR 0x00 \<in> set (stack_of env n cmdline)"
    and "n \<noteq> 0 \<Longrightarrow> [] \<noteq> stack_of env n cmdline"
  using assms by (auto simp: env_ok_def dest: arg_cong [of _ _ length])

section \<open>The next setting\<close>

lemma cstring_Some: "CHR 0x00 \<in> set buf \<Longrightarrow> \<exists>s. cstring buf = Some s \<and> CHR 0x00 \<notin> set s \<and> length s < length buf"
proof -
  assume "CHR 0x00 \<in> set buf"
  moreover obtain a b where "buf = a @ CHR 0x00 # b" "CHR 0x00 \<notin> set a" using \<open>CHR 0x00 \<in> set buf\<close> by (metis split_list_first)
  ultimately show ?thesis using cstring_terminated [of a b] by auto
qed

lemma copy_terminated_inside:
  assumes "n \<le> length source" and "n < length buf"
  obtains buf' where "copy_terminated buf source n = Some buf'" and "length buf' = length buf" and "CHR 0x00 \<in> set buf'"
    and "CHR 0x00 \<notin> set source \<Longrightarrow> cstring buf' = Some (take n source)"
  using assms
  by (intro that [OF copy_terminated_Some [OF assms]]) (auto intro!: cstring_terminated dest: in_set_takeD)

lemma wrapper_safe:
  assumes "args_ok cmdline" and "key_size \<le> int (length key)" and "0 \<le> value_size" and "value_size \<le> int (length old)"
    and "CHR ''='' \<notin> set p"
  shows "\<exists>rc cmdline' key' val' ex. co_cmdline_get_next_equality_wrapper cmdline p key key_size old value_size room =
      Some (rc, cmdline', key', val', ex) \<and> args_ok cmdline' \<and> length key' = length key \<and>
      (value_size \<noteq> 0 \<longrightarrow> length val' = length old) \<and> (CHR 0x00 \<in> set key \<longrightarrow> CHR 0x00 \<in> set key') \<and>
      (ex \<longrightarrow> rc = CO_RC_OK \<and> (\<exists>k body. cstring val' = Some body \<and> CHR 0x00 \<notin> set body \<and> Some (p @ k @ ''='' @ body) \<in> set cmdline \<and>
         (key_size = 0 \<longrightarrow> k = [])))"
proof (cases "next_equality p cmdline")
  case None
  then show ?thesis using assms(1) by (auto simp: co_cmdline_get_next_equality_wrapper_def intro!: exI [of _ False])
next
  case (Some i)
  obtain arg where arg: "i < length cmdline" "cmdline ! i = Some arg" using next_equality_Some [OF Some] by auto
  have "setting_of p arg"
    using Some arg
  proof (induction p cmdline arbitrary: i rule: next_equality.induct)
    case (3 p a argv)
    then show ?case by (cases i) (auto simp: setting_of_def split: if_splits)
  qed (auto simp: nth_Cons split: nat.splits)
  then obtain k body where a: "arg = p @ k @ ''='' @ body" and k: "CHR ''='' \<notin> set k"
  proof -
    assume set: "setting_of p arg"
    then obtain r where r: "arg = p @ r" by (metis append_take_drop_id setting_of_def)
    then have "CHR ''='' \<in> set r" using set assms(5) by (auto simp: setting_of_def)
    then obtain k body where "r = k @ CHR ''='' # body" "CHR ''='' \<notin> set k" by (metis split_list_first)
    then show ?thesis using that r by simp
  qed
  have found: "length (takeWhile (\<lambda>c. c \<noteq> CHR ''='') arg) = length p + length k"
    using assms(5) k unfolding a by (subst append_assoc [symmetric], subst takeWhile_append2) auto
  have free: "CHR 0x00 \<notin> set arg" "Some arg \<in> set cmdline" using assms(1) arg by (auto simp: args_ok_def dest: nth_mem)
  note ok = args_ok_update [OF assms(1), of i]
  have parts: "drop (length p) arg = k @ ''='' @ body" "drop (length p + length k + 1) arg = body" by (simp_all add: a)
  have lens: "int (length p + length k) - int (length p) = int (length k)" "0 < int (length k) \<longleftrightarrow> k \<noteq> []"
      "nat (int (length k)) = length k" "length body = 0 \<longleftrightarrow> body = []" by simp_all
  have run: "co_cmdline_get_next_equality_wrapper cmdline p key key_size old value_size room =
    (if k \<noteq> [] \<and> key_size < int (length k) + 1 then Some (CO_RC_INVALID_PARAMETER, cmdline[i := None], key, old, False)
     else Option.bind (if k \<noteq> [] then copy_terminated key (k @ ''='' @ body) (length k) else Some key) (\<lambda>key.
       if body = [] then Some (CO_RC_INVALID_PARAMETER, cmdline[i := None], key, old, False)
       else if value_size = 0 then
         (if \<not> room then Some (CO_RC_OUT_OF_MEMORY, cmdline[i := None], key, old, False)
          else Some (CO_RC_OK, cmdline[i := None], key, body @ [CHR 0x00], True))
       else if value_size - 1 \<le> int (length body) then Some (CO_RC_ERROR, cmdline[i := None], key, old, False)
       else map_option (\<lambda>val. (CO_RC_OK, cmdline[i := None], key, val, True)) (copy_terminated old body (length body))))"
    unfolding co_cmdline_get_next_equality_wrapper_def Some option.case arg(2) option.sel found Let_def parts lens ..
  have body: "CHR 0x00 \<notin> set body" "Some (p @ k @ ''='' @ body) \<in> set cmdline" using free a by auto
  show ?thesis
  proof (cases "k \<noteq> [] \<and> key_size < int (length k) + 1")
    case True
    then show ?thesis using ok by (auto simp: run intro!: exI [of _ False])
  next
    case False
    obtain key' where key': "(if k \<noteq> [] then copy_terminated key (k @ ''='' @ body) (length k) else Some key) = Some key'"
        "length key' = length key" "CHR 0x00 \<in> set key \<Longrightarrow> CHR 0x00 \<in> set key'"
      using False assms(2) copy_terminated_inside [of "length k" "k @ ''='' @ body" key] by (cases "k = []") auto
    show ?thesis
    proof (cases "body \<noteq> [] \<and> value_size \<noteq> 0 \<and> \<not> value_size - 1 \<le> int (length body)")
      case True
      then obtain val where val: "copy_terminated old body (length body) = Some val" "length val = length old" "cstring val = Some body"
        using assms(4) body(1) copy_terminated_inside [of "length body" body old] by auto
      have "key_size = 0 \<longrightarrow> k = []" using False by auto
      then show ?thesis using False True key' val ok body by (auto simp: run)
    next
      case out: False
      have "key_size = 0 \<longrightarrow> k = []" using False by auto
      then show ?thesis using False out key' ok body cstring_terminated [OF body(1), of "[]"] by (auto simp: run)
    qed
  qed
qed

lemma int_prefix_safe:
  assumes "args_ok cmdline" and "length number = 11" and "CHR 0x00 \<in> set number" and "CHR ''='' \<notin> set p"
  shows "\<exists>rc cmdline' n val ex. co_cmdline_get_next_equality_int_prefix number cmdline p m [] room = Some (rc, cmdline', n, val, ex) \<and>
    args_ok cmdline' \<and> (CO_OK rc \<longrightarrow> ex \<longrightarrow> (\<exists>s. cstring val = Some s \<and> CHR 0x00 \<notin> set s) \<and> (\<exists>i. n = Some i \<and> i < m))"
proof -
  obtain rc cmdline' number' val ex where run: "co_cmdline_get_next_equality_wrapper cmdline p number 11 [] 0 room = Some (rc, cmdline', number', val, ex)"
      "args_ok cmdline'" "CHR 0x00 \<in> set number'" "ex \<longrightarrow> rc = CO_RC_OK \<and> (\<exists>s. cstring val = Some s \<and> CHR 0x00 \<notin> set s)"
    using wrapper_safe [OF assms(1), of 11 number 0 "[]" p room] assms by auto
  obtain s where "cstring number' = Some s" using cstring_Some [OF run(3)] by auto
  then show ?thesis
    using run by (cases "strtoul10 s") (auto simp: co_cmdline_get_next_equality_int_prefix_def co_cmdline_get_next_equality_alloc_def CO_OK_def not_le)
qed

section \<open>The contract of a group of settings\<close>

text \<open>A device that keeps an invariant of the configuration for every index below its limit.\<close>

locale setting_group =
  fixes device :: "config_env \<Rightarrow> nat \<Rightarrow> string \<Rightarrow> co_config \<Rightarrow> (co_rc_value \<times> co_config) option"
    and max_index :: ulong
    and good :: "co_config \<Rightarrow> bool"
  assumes keeps: "env_ok env \<Longrightarrow> good conf \<Longrightarrow> index < unat max_index \<Longrightarrow> CHR 0x00 \<notin> set param \<Longrightarrow>
      \<exists>rc conf'. device env index param conf = Some (rc, conf') \<and> good conf'"
begin

lemma loop_keeps:
  assumes "env_ok env" and "args_ok cmdline" and "good conf" and "CHR ''='' \<notin> set p"
  shows "\<exists>rc cmdline' conf'. settings_loop env p max_index (device env) cmdline conf = Some (rc, cmdline', conf') \<and>
    args_ok cmdline' \<and> good conf'"
  using assms(2,3)
proof (induction "parameters cmdline" arbitrary: cmdline conf rule: less_induct)
  case less
  obtain rc cmdline' n val ex where next_one:
      "co_cmdline_get_next_equality_int_prefix (stack_of env 11 cmdline) cmdline p max_index [] (value_room env cmdline) = Some (rc, cmdline', n, val, ex)"
      "args_ok cmdline'"
      "CO_OK rc \<Longrightarrow> ex \<Longrightarrow> \<exists>s. cstring val = Some s \<and> CHR 0x00 \<notin> set s" "CO_OK rc \<Longrightarrow> ex \<Longrightarrow> \<exists>i. n = Some i \<and> i < max_index"
    using int_prefix_safe [OF less.prems(1) _ _ assms(4), of "stack_of env 11 cmdline" max_index "value_room env cmdline"]
      stack_ok [OF assms(1), of 11 cmdline] by auto
  show ?case
  proof (cases "CO_OK rc \<and> ex")
    case False
    then show ?thesis using next_one(1,2) less.prems(2) by (subst settings_loop.simps) auto
  next
    case True
    then obtain s i where s: "cstring val = Some s" "CHR 0x00 \<notin> set s" and i: "n = Some i" "unat i < unat max_index"
      using next_one(3,4) by (auto simp: word_less_nat_alt)
    obtain rc' conf' where dev: "device env (unat i) s conf = Some (rc', conf')" "good conf'"
      using keeps [OF assms(1) less.prems(2) i(2) s(2)] by auto
    have "parameters cmdline' < parameters cmdline" using int_prefix_takes next_one(1) True by metis
    from less.hyps [OF this next_one(2) dev(2)] show ?thesis
      using True next_one(1,2) s(1) i(1) dev by (subst settings_loop.simps) auto
  qed
qed

end

section \<open>The devices\<close>

lemma print_into_Some:
  assumes "buf \<noteq> []"
  shows "\<exists>out. print_into buf ''%s'' [Va_str (Some s)] = Some out \<and> length out = length buf \<and> CHR 0x00 \<in> set out"
proof -
  have n: "nat (int (length buf) - 1) = length buf - 1" "0 < length buf" using assms by auto
  from n(2) show ?thesis
    using snprintf_literal_string [of "int (length buf)" buf "[]" s] unfolding n(1)
    by (cases buf) (auto simp: print_into_def min_def)
qed

lemma check_quiet: "env_ok env \<Longrightarrow> check_cobd_file env pathname = Some (CO_RC_OK, pathname)"
  by (simp add: env_ok_def check_cobd_file_def)

lemma config_ok_block: "config_ok conf \<Longrightarrow> i < unat CO_MODULE_MAX_COBD \<Longrightarrow>
    length (cobd_pathname (block_devs conf ! i)) = CO_PATHNAME \<and> length (cobd_alias (block_devs conf ! i)) = 20"
  by (auto simp: config_ok_def)

lemma set_cobd_ok:
  "config_ok conf \<Longrightarrow> length (cobd_pathname d) = CO_PATHNAME \<Longrightarrow> length (cobd_alias d) = 20 \<Longrightarrow> config_ok (set_cobd i d conf)"
  by (cases "i < length (block_devs conf)") (auto simp: config_ok_def set_cobd_def dest!: set_update_subset_insert [THEN subsetD])

lemma path_size: "CO_PATHNAME \<noteq> 0" "buf = [] \<Longrightarrow> length buf \<noteq> CO_PATHNAME"
  by (simp_all add: CO_PATHNAME_def)

interpretation cobds: setting_group cobd_setting CO_MODULE_MAX_COBD config_ok
proof
  fix env conf index and param :: string
  assume ok: "env_ok env" "config_ok conf" "index < unat CO_MODULE_MAX_COBD" "CHR 0x00 \<notin> set param"
  note d = config_ok_block [OF ok(2,3)]
  then have "cobd_pathname (block_devs conf ! index) \<noteq> []" using path_size by auto
  from print_into_Some [OF this, of param] show "\<exists>rc conf'. cobd_setting env index param conf = Some (rc, conf') \<and> config_ok conf'"
    using ok d by (auto simp: cobd_setting_def Let_def check_quiet intro!: set_cobd_ok)
qed

lemma set_scsi_ok: "config_ok conf \<Longrightarrow> length (scsi_pathname d) = CO_PATHNAME \<Longrightarrow> config_ok (set_scsi i d conf)"
  by (cases "i < length (scsi_devs conf)") (auto simp: config_ok_def set_scsi_def dest!: set_update_subset_insert [THEN subsetD])

lemma set_net_ok: "config_ok conf \<Longrightarrow> length (net_desc d) = 0x40 \<Longrightarrow> length (redir d) = 0xFF \<Longrightarrow> config_ok (set_net i d conf)"
  by (cases "i < length (net_devs conf)") (auto simp: config_ok_def set_net_def dest!: set_update_subset_insert [THEN subsetD])

text \<open>A setting split into fields that are strings.\<close>

lemma split_cstrings:
  assumes "[] \<notin> set bufs"
  obtains out where "split_comma_separated s bufs = Some out" and "length out = length bufs"
    and "\<And>i. i < length bufs \<Longrightarrow> \<exists>t. cstring (out ! i) = Some t \<and> CHR 0x00 \<notin> set t \<and> length t < length (bufs ! i)"
    and "\<And>i. i < length bufs \<Longrightarrow> length (out ! i) = length (bufs ! i)"
proof -
  obtain out where out: "split_comma_separated s bufs = Some out" "map length out = map length bufs" "\<forall>buf \<in> set out. CHR 0x00 \<in> set buf"
    using split_inside [OF assms] by blast
  have len: "length out = length bufs" using out(2) by (metis length_map)
  have each: "length (out ! i) = length (bufs ! i)" if "i < length bufs" for i using out(2) len that by (metis nth_map)
  have "\<exists>t. cstring (out ! i) = Some t \<and> CHR 0x00 \<notin> set t \<and> length t < length (bufs ! i)" if "i < length bufs" for i
    using cstring_Some [of "out ! i"] out(3) len each that by auto
  then show ?thesis using that [OF out(1) len _ each] by blast
qed

interpretation scsis: setting_group scsi_setting CO_MODULE_MAX_COSCSI config_ok
proof
  fix env conf index and param :: string
  assume ok: "env_ok env" "config_ok conf" "index < unat CO_MODULE_MAX_COSCSI" "CHR 0x00 \<notin> set param"
  let ?bufs = "[stack_of env 10 [], stack_of env 256 [], stack_of env 16 []]"
  have "[] \<notin> set ?bufs" using stack_ok(3) [OF ok(1)] by simp
  then obtain out where out: "split_comma_separated param ?bufs = Some out"
      "\<And>i. i < length ?bufs \<Longrightarrow> \<exists>t. cstring (out ! i) = Some t \<and> CHR 0x00 \<notin> set t \<and> length t < length (?bufs ! i)"
    by (rule split_cstrings) blast
  obtain type path sz where fields: "cstring (out ! 0) = Some type" "cstring (out ! 1) = Some path" "length path < 256" "cstring (out ! 2) = Some sz"
    using out(2) [of 0] out(2) [of 1] out(2) [of 2] stack_ok(1) [OF ok(1)] by auto
  have d: "length (scsi_pathname (scsi_devs conf ! index)) = CO_PATHNAME" using ok(2,3) by (auto simp: config_ok_def)
  obtain pathname where "copy_string (scsi_pathname (scsi_devs conf ! index)) path = Some pathname" "length pathname = CO_PATHNAME"
    using copy_terminated_inside [of "length path" path "scsi_pathname (scsi_devs conf ! index)"] fields(3) d
    by (auto simp: copy_string_def CO_PATHNAME_def)
  then show "\<exists>rc conf'. scsi_setting env index param conf = Some (rc, conf') \<and> config_ok conf'"
    using ok out(1) fields d
    by (auto simp: scsi_setting_def Let_def check_quiet intro!: set_scsi_ok split: option.splits)
qed

lemma config_ok_net: "config_ok conf \<Longrightarrow> i < unat CO_MODULE_MAX_CONET \<Longrightarrow>
    length (net_desc (net_devs conf ! i)) = 0x40 \<and> length (redir (net_devs conf ! i)) = 0xFF"
  by (auto simp: config_ok_def)

lemma mac_keeps: "net_desc (snd (config_parse_mac_address env s d)) = net_desc d" "redir (snd (config_parse_mac_address env s d)) = redir d"
  by (auto simp: config_parse_mac_address_def case_prod_beta Let_def split: option.splits)

lemma use_type_ok: "config_ok conf \<Longrightarrow> config_ok (use_type ty conf)"
  by (simp add: use_type_def config_ok_def)

definition net_keeps :: "(nat \<Rightarrow> string \<Rightarrow> co_config \<Rightarrow> (co_rc_value \<times> co_config) option) \<Rightarrow> bool" where
  "net_keeps f \<longleftrightarrow> (\<forall>index s conf. config_ok conf \<longrightarrow> index < unat CO_MODULE_MAX_CONET \<longrightarrow> (\<exists>rc conf'. f index s conf = Some (rc, conf') \<and> config_ok conf'))"

declare split_comma_separated.simps [simp del]

lemma split_three:
  assumes "[] \<notin> set [b0, b1, b2]"
  shows "\<exists>out s0 s1 s2. split_comma_separated s [b0, b1, b2] = Some out \<and> cstring (out ! 0) = Some s0 \<and> cstring (out ! 1) = Some s1 \<and>
    cstring (out ! 2) = Some s2 \<and> length (out ! 0) = length b0"
proof -
  obtain out where out: "split_comma_separated s [b0, b1, b2] = Some out"
      "\<And>i. i < length [b0, b1, b2] \<Longrightarrow> \<exists>t. cstring (out ! i) = Some t \<and> CHR 0x00 \<notin> set t \<and> length t < length ([b0, b1, b2] ! i)"
      "\<And>i. i < length [b0, b1, b2] \<Longrightarrow> length (out ! i) = length ([b0, b1, b2] ! i)"
    by (rule split_cstrings [OF assms]) blast
  from out(2) [of 0] out(2) [of 1] out(2) [of 2] out(3) [of 0] show ?thesis using out(1) by auto
qed

lemma split_two:
  assumes "[] \<notin> set [b0, b1]"
  shows "\<exists>out s0 s1. split_comma_separated s [b0, b1] = Some out \<and> cstring (out ! 0) = Some s0 \<and> cstring (out ! 1) = Some s1 \<and>
    length (out ! 1) = length b1"
proof -
  obtain out where out: "split_comma_separated s [b0, b1] = Some out"
      "\<And>i. i < length [b0, b1] \<Longrightarrow> \<exists>t. cstring (out ! i) = Some t \<and> CHR 0x00 \<notin> set t \<and> length t < length ([b0, b1] ! i)"
      "\<And>i. i < length [b0, b1] \<Longrightarrow> length (out ! i) = length ([b0, b1] ! i)"
    by (rule split_cstrings [OF assms]) blast
  from out(2) [of 0] out(2) [of 1] out(3) [of 1] show ?thesis using out(1) by auto
qed

lemma net_buffers:
  assumes "env_ok env" and "config_ok conf" and "index < unat CO_MODULE_MAX_CONET"
  shows "[] \<notin> set [net_desc (net_devs conf ! index), stack_of env 40 [], stack_of env 40 []]"
    and "[] \<notin> set [net_desc (net_devs conf ! index), stack_of env 40 [], stack_of env 10 []]"
    and "[] \<notin> set [stack_of env 40 [], redir (net_devs conf ! index)]"
  using config_ok_net [OF assms(2,3)] stack_ok(3) [OF assms(1)] by auto

lemma tap_keeps:
  assumes "env_ok env"
  shows "net_keeps (parse_args_networking_device_tap env)"
  unfolding net_keeps_def
proof (intro allI impI)
  fix index s conf assume ok: "config_ok conf" "index < unat CO_MODULE_MAX_CONET"
  show "\<exists>rc conf'. parse_args_networking_device_tap env index s conf = Some (rc, conf') \<and> config_ok conf'"
    using split_three [OF net_buffers(1) [OF assms ok], of s] config_ok_net [OF ok] ok
    by (auto simp: parse_args_networking_device_tap_def Let_def case_prod_beta mac_keeps intro!: use_type_ok set_net_ok)
qed

lemma slirp_keeps:
  assumes "env_ok env"
  shows "net_keeps (parse_args_networking_device_slirp env)"
  unfolding net_keeps_def
proof (intro allI impI)
  fix index s conf assume ok: "config_ok conf" "index < unat CO_MODULE_MAX_CONET"
  show "\<exists>rc conf'. parse_args_networking_device_slirp env index s conf = Some (rc, conf') \<and> config_ok conf'"
    using split_two [OF net_buffers(3) [OF assms ok], of s] config_ok_net [OF ok] ok
    by (auto simp: parse_args_networking_device_slirp_def Let_def case_prod_beta mac_keeps intro!: use_type_ok set_net_ok)
qed

lemma pcap_keeps:
  assumes "env_ok env"
  shows "net_keeps (parse_args_networking_device_pcap env)"
  unfolding net_keeps_def
proof (intro allI impI)
  fix index s conf assume ok: "config_ok conf" "index < unat CO_MODULE_MAX_CONET"
  show "\<exists>rc conf'. parse_args_networking_device_pcap env index s conf = Some (rc, conf') \<and> config_ok conf'"
    using split_three [OF net_buffers(2) [OF assms ok], of s] config_ok_net [OF ok] ok
    by (auto simp: parse_args_networking_device_pcap_def Let_def case_prod_beta mac_keeps intro!: use_type_ok set_net_ok)
qed

lemma ndis_keeps:
  assumes "env_ok env"
  shows "net_keeps (parse_args_networking_device_ndis env)"
  unfolding net_keeps_def
proof (intro allI impI)
  fix index s conf assume ok: "config_ok conf" "index < unat CO_MODULE_MAX_CONET"
  show "\<exists>rc conf'. parse_args_networking_device_ndis env index s conf = Some (rc, conf') \<and> config_ok conf'"
    using split_three [OF net_buffers(2) [OF assms ok], of s] config_ok_net [OF ok] ok
    by (auto simp: parse_args_networking_device_ndis_def Let_def case_prod_beta mac_keeps intro!: use_type_ok set_net_ok)
qed

interpretation nets: setting_group net_setting CO_MODULE_MAX_CONET config_ok
proof
  fix env conf index and param :: string
  assume ok: "env_ok env" "config_ok conf" "index < unat CO_MODULE_MAX_CONET"
  note keep = tap_keeps [OF ok(1), unfolded net_keeps_def] pcap_keeps [OF ok(1), unfolded net_keeps_def]
    slirp_keeps [OF ok(1), unfolded net_keeps_def] ndis_keeps [OF ok(1), unfolded net_keeps_def]
  show "\<exists>rc conf'. net_setting env index param conf = Some (rc, conf') \<and> config_ok conf'"
    using keep ok(2,3) by (auto simp: net_setting_def parse_args_networking_device_def case_prod_beta Let_def)
qed

interpretation cofs: setting_group "\<lambda>env. parse_args_cofs_device" CO_MODULE_MAX_COFS config_ok
proof
  fix env conf index and param :: string
  assume ok: "config_ok conf" "index < unat CO_MODULE_MAX_COFS"
  then have d: "length (cofs_pathname (cofs_devs conf ! index)) = CO_PATHNAME" by (auto simp: config_ok_def)
  then have "cofs_pathname (cofs_devs conf ! index) \<noteq> []" using path_size by auto
  from print_into_Some [OF this, of param] show "\<exists>rc conf'. parse_args_cofs_device index param conf = Some (rc, conf') \<and> config_ok conf'"
    using ok d by (auto simp: parse_args_cofs_device_def Let_def config_ok_def dest!: set_update_subset_insert [THEN subsetD])
qed

interpretation serials: setting_group parse_args_serial_device CO_MODULE_MAX_SERIAL config_ok
proof
  fix env conf index and param :: string
  assume ok: "env_ok env" "config_ok conf"
  have "[] \<notin> set [stack_of env CO_SERIAL_DESC_STR_SIZE [], stack_of env CO_SERIAL_MODE_STR_SIZE []]"
    using stack_ok(3) [OF ok(1)] by (auto simp: CO_SERIAL_DESC_STR_SIZE_def CO_SERIAL_MODE_STR_SIZE_def)
  from split_two [OF this, of param] show "\<exists>rc conf'. parse_args_serial_device env index param conf = Some (rc, conf') \<and> config_ok conf'"
    using ok(2) by (auto simp: parse_args_serial_device_def Let_def set_serial_def config_ok_def)
qed

interpretation programs: setting_group parse_args_execute CO_MODULE_MAX_EXECUTE config_ok
proof
  fix env conf index and param :: string
  assume ok: "env_ok env" "config_ok conf"
  have "[] \<notin> set [stack_of env CO_EXECUTE_PROG_STR_SIZE [], stack_of env CO_EXECUTE_ARGS_STR_SIZE []]"
    using stack_ok(3) [OF ok(1)] by (auto simp: CO_EXECUTE_PROG_STR_SIZE_def CO_EXECUTE_ARGS_STR_SIZE_def)
  from split_two [OF this, of param] show "\<exists>rc conf'. parse_args_execute env index param conf = Some (rc, conf') \<and> config_ok conf'"
    using ok(2) by (auto simp: parse_args_execute_def Let_def set_execute_def config_ok_def)
qed

section \<open>Aliases\<close>

lemma print_two_Some:
  assumes "buf \<noteq> []"
  shows "\<exists>out. print_into buf ''%s%s'' [Va_str (Some s), Va_str (Some t)] = Some out \<and> length out = length buf"
proof -
  have n: "nat (int (length buf) - 1) = length buf - 1" "0 < length buf" using assms by auto
  from n(2) show ?thesis
    using snprintf_two_strings [of "int (length buf)" buf s t] unfolding n(1)
    by (cases buf) (auto simp: print_into_def min_def)
qed

lemma alias_printed:
  assumes "config_ok conf" and "i < unat CO_MODULE_MAX_COBD"
  obtains out where "print_into (cobd_alias (block_devs conf ! i)) ''%s%s'' [Va_str (Some s), Va_str (Some t)] = Some out" and "length out = 20"
proof -
  have "length (cobd_alias (block_devs conf ! i)) = 20" using config_ok_block [OF assms] by simp
  moreover from this have "cobd_alias (block_devs conf ! i) \<noteq> []" by auto
  ultimately show ?thesis using print_two_Some that by fastforce
qed

lemma allocate_keeps:
  assumes "env_ok env" and "config_ok conf" and "CHR 0x00 \<in> set suffix"
  shows "\<exists>rc conf'. allocate_by_alias env p suffix param conf = Some (rc, conf') \<and> config_ok conf'"
proof -
  define i where "i = length (takeWhile cobd_enabled (take (unat CO_MODULE_MAX_COBD) (block_devs conf)))"
  have len: "length (block_devs conf) = unat CO_MODULE_MAX_COBD" using assms(2) by (simp add: config_ok_def)
  show ?thesis
  proof (cases "i = unat CO_MODULE_MAX_COBD")
    case True
    then show ?thesis using assms(2) by (simp add: allocate_by_alias_def Let_def i_def [symmetric])
  next
    case False
    have "i \<le> unat CO_MODULE_MAX_COBD"
      using len length_takeWhile_le [of cobd_enabled "take (unat CO_MODULE_MAX_COBD) (block_devs conf)"] by (simp add: i_def)
    then have i: "i < unat CO_MODULE_MAX_COBD" using False by simp
    note d = config_ok_block [OF assms(2) i]
    then have filled: "cobd_pathname (block_devs conf ! i) \<noteq> []" using path_size by auto
    obtain path where path: "print_into (cobd_pathname (block_devs conf ! i)) ''%s'' [Va_str (Some param)] = Some path" "length path = CO_PATHNAME"
      using print_into_Some [OF filled, of param] d by metis
    obtain s where "cstring suffix = Some s" using cstring_Some [OF assms(3)] by auto
    moreover obtain out where "print_into (cobd_alias (block_devs conf ! i)) ''%s%s'' [Va_str (Some p), Va_str (Some s)] = Some out" "length out = 20"
      by (rule alias_printed [OF assms(2) i])
    ultimately have "allocate_by_alias env p suffix param conf = Some (CO_RC_OK, set_cobd i ((block_devs conf ! i)\<lparr>cobd_enabled := True,
        cobd_pathname := path, alias_used := True, cobd_alias := out\<rparr>) conf)"
      using False path(1) unfolding allocate_by_alias_def Let_def i_def [symmetric]
      by (simp add: check_quiet [OF assms(1)] CO_OK_def)
    then show ?thesis using set_cobd_ok [OF assms(2)] path(2) \<open>length out = 20\<close> by simp
  qed
qed

lemma alias_keeps:
  assumes "env_ok env" and "config_ok conf" and "CHR 0x00 \<in> set suffix"
  shows "\<exists>rc conf'. alias_setting env p suffix param conf = Some (rc, conf') \<and> config_ok conf'"
proof (cases "take 5 param = '':cobd''")
  case False
  then show ?thesis using allocate_keeps [OF assms] by (simp add: alias_setting_def)
next
  case True
  obtain i used where i: "strtoul10 (drop 5 param) = (i, used)" by fastforce
  show ?thesis
  proof (cases "CO_MODULE_MAX_COBD \<le> i")
    case True
    then show ?thesis using \<open>take 5 param = _\<close> i assms(2) by (simp add: alias_setting_def Let_def)
  next
    case False
    then have "unat i < unat CO_MODULE_MAX_COBD" by (simp add: word_le_nat_alt)
    note d = config_ok_block [OF assms(2) this] and printed = alias_printed [OF assms(2) this]
    obtain s where "cstring suffix = Some s" using cstring_Some [OF assms(3)] by auto
    moreover obtain out where "print_into (cobd_alias (block_devs conf ! unat i)) ''%s%s'' [Va_str (Some p), Va_str (Some s)] = Some out" "length out = 20"
      by (rule printed)
    ultimately show ?thesis using True False i d assms(2)
      by (auto simp: alias_setting_def Let_def intro!: set_cobd_ok)
  qed
qed

lemma alias_loop_keeps:
  assumes "env_ok env" and "args_ok cmdline" and "config_ok conf" and "length suffix = 5" and "CHR 0x00 \<in> set suffix" and "CHR ''='' \<notin> set p"
  shows "\<exists>rc cmdline' conf'. alias_loop env p suffix cmdline conf = Some (rc, cmdline', conf') \<and> args_ok cmdline' \<and> config_ok conf'"
  using assms(2-5)
proof (induction "parameters cmdline" arbitrary: cmdline conf suffix rule: less_induct)
  case less
  obtain rc cmdline' suffix' val ex where next_one:
      "co_cmdline_get_next_equality_wrapper cmdline p suffix 5 [] 0 (value_room env cmdline) = Some (rc, cmdline', suffix', val, ex)"
      "args_ok cmdline'" "length suffix' = 5" "CHR 0x00 \<in> set suffix'" "ex \<Longrightarrow> \<exists>s. cstring val = Some s"
    using wrapper_safe [OF less.prems(1), of 5 suffix 0 "[]" p "value_room env cmdline"] less.prems assms(6) by auto
  show ?case
  proof (cases "CO_OK rc \<and> ex")
    case False
    then show ?thesis using next_one(1,2) less.prems(2)
      by (subst alias_loop.simps) (auto simp: co_cmdline_get_next_equality_alloc_def)
  next
    case True
    then obtain s where s: "cstring val = Some s" using next_one(5) by auto
    obtain rc' conf' where dev: "alias_setting env p suffix' s conf = Some (rc', conf')" "config_ok conf'"
      using alias_keeps [OF assms(1) less.prems(2) next_one(4)] by blast
    have "parameters cmdline' < parameters cmdline" using wrapper_takes next_one(1) True by metis
    from less.hyps [OF this next_one(2) dev(2) next_one(3,4)] show ?thesis
      using True next_one(1,2) s dev by (subst alias_loop.simps) (auto simp: co_cmdline_get_next_equality_alloc_def)
  qed
qed

section \<open>The PCI bus\<close>

text \<open>Every function of the bus belongs to a device that is enabled.\<close>

definition pci_enabled :: "co_config \<Rightarrow> bool" where
  "pci_enabled conf \<longleftrightarrow> config_ok conf \<and>
     (\<forall>slot \<in> set (conf_pci conf). \<forall>f \<in> set slot.
        pci_type f = 0 \<or>
        pci_type f = CO_DEVICE_SCSI \<and> list_ex scsi_enabled (scsi_devs conf) \<or>
        pci_type f = CO_DEVICE_NETWORK \<and> unat (pci_unit f) < unat CO_MODULE_MAX_CONET \<and> net_enabled (net_devs conf ! unat (pci_unit f)))"

lemma set_pci_ok:
  assumes "config_ok conf"
  shows "config_ok (set_pci d f t u conf)"
proof (cases "d < length (conf_pci conf)")
  case True
  then have "length (conf_pci conf ! d) = COPCI_MAX_FUNCS" using assms by (simp add: config_ok_def)
  then show ?thesis using assms by (auto simp: config_ok_def set_pci_def dest!: set_update_subset_insert [THEN subsetD])
next
  case False
  then have "set_pci d f t u conf = conf" by (simp add: set_pci_def list_update_beyond)
  then show ?thesis using assms by simp
qed

lemma set_pci_enabled:
  assumes "pci_enabled conf"
    and "t = CO_DEVICE_SCSI \<and> list_ex scsi_enabled (scsi_devs conf) \<or>
        t = CO_DEVICE_NETWORK \<and> unat u < unat CO_MODULE_MAX_CONET \<and> net_enabled (net_devs conf ! unat u)"
  shows "pci_enabled (set_pci d f t u conf)"
proof (cases "d < length (conf_pci conf)")
  case False
  then have "set_pci d f t u conf = conf" by (simp add: set_pci_def list_update_beyond)
  then show ?thesis using assms(1) by simp
next
  case True
  have "slot' \<in> set ((conf_pci conf)[d := (conf_pci conf ! d)[f := \<lparr>pci_type = t, pci_unit = u\<rparr>]]) \<Longrightarrow> g \<in> set slot' \<Longrightarrow>
      g = \<lparr>pci_type = t, pci_unit = u\<rparr> \<or> (\<exists>slot \<in> set (conf_pci conf). g \<in> set slot)" for slot' g
    using True by (auto dest!: set_update_subset_insert [THEN subsetD])
  then show ?thesis
    using assms set_pci_ok [of conf d f t u] unfolding pci_enabled_def
    by (fastforce simp: set_pci_def)
qed

lemma pci_setting_cases:
  assumes "env_ok env"
  shows "\<exists>rc conf'. pci_setting env index param conf = Some (rc, conf') \<and>
    (conf' = conf \<or> (\<exists>f t u. conf' = set_pci index f t u conf \<and>
      (t = CO_DEVICE_SCSI \<and> list_ex scsi_enabled (scsi_devs conf) \<or>
       t = CO_DEVICE_NETWORK \<and> unat u < unat CO_MODULE_MAX_CONET \<and> net_enabled (net_devs conf ! unat u))))"
proof -
  have "[] \<notin> set [stack_of env 8 [], stack_of env 16 [], stack_of env 8 []]" using stack_ok(3) [OF assms] by auto
  from split_three [OF this, of param] obtain out s0 s1 s2 where out:
      "split_comma_separated param [stack_of env 8 [], stack_of env 16 [], stack_of env 8 []] = Some out"
      "cstring (out ! 0) = Some s0" "cstring (out ! 1) = Some s1" "cstring (out ! 2) = Some s2"
    by blast
  have unit: "unat (word_of_int (atoi s2) :: uchar) = nat (atoi s2)" if "\<not> (atoi s2 < 0 \<or> uint CO_MODULE_MAX_CONET \<le> atoi s2)"
    using that by (simp add: CO_MODULE_MAX_CONET_def unsigned_of_int take_bit_int_eq_self)
  have small: "nat (atoi s2) < unat CO_MODULE_MAX_CONET" if "\<not> (atoi s2 < 0 \<or> uint CO_MODULE_MAX_CONET \<le> atoi s2)"
    using that by (auto simp: CO_MODULE_MAX_CONET_def nat_less_iff)
  define Q where "Q conf' \<longleftrightarrow> conf' = conf \<or> (\<exists>f t u. conf' = set_pci index f t u conf \<and>
      (t = CO_DEVICE_SCSI \<and> list_ex scsi_enabled (scsi_devs conf) \<or>
       t = CO_DEVICE_NETWORK \<and> unat u < unat CO_MODULE_MAX_CONET \<and> net_enabled (net_devs conf ! unat u)))" for conf'
  have Q: "Q conf" "list_ex scsi_enabled (scsi_devs conf) \<Longrightarrow> Q (set_pci index f CO_DEVICE_SCSI u conf)"
      "unat u < unat CO_MODULE_MAX_CONET \<Longrightarrow> net_enabled (net_devs conf ! unat u) \<Longrightarrow> Q (set_pci index f CO_DEVICE_NETWORK u conf)" for f u
    by (auto simp: Q_def)
  have net: "Q (set_pci index f CO_DEVICE_NETWORK (word_of_int (atoi s2)) conf)"
    if "\<not> (atoi s2 < 0 \<or> uint CO_MODULE_MAX_CONET \<le> atoi s2)" "net_enabled (net_devs conf ! nat (atoi s2))" for f
    using Q(3) [of "word_of_int (atoi s2)"] unit [OF that(1)] small [OF that(1)] that(2) by simp
  have "\<exists>rc conf'. pci_setting env index param conf = Some (rc, conf') \<and> Q conf'"
    unfolding pci_setting_def out bind.simps Let_def
    using Q(1) Q(2) net by (simp split: if_split)
  then show ?thesis by (simp only: Q_def)
qed

interpretation pcis: setting_group pci_setting 32 config_ok
proof
  fix env conf index and param :: string
  assume "env_ok env" "config_ok conf"
  then show "\<exists>rc conf'. pci_setting env index param conf = Some (rc, conf') \<and> config_ok conf'"
    using pci_setting_cases [of env index param conf] set_pci_ok by fastforce
qed

interpretation pci_targets: setting_group pci_setting 32 pci_enabled
proof
  fix env conf index and param :: string
  assume "env_ok env" "pci_enabled conf"
  then show "\<exists>rc conf'. pci_setting env index param conf = Some (rc, conf') \<and> pci_enabled conf'"
    using pci_setting_cases [of env index param conf] set_pci_enabled by blast
qed

section \<open>The whole parser\<close>

definition safe :: "parsed \<Rightarrow> bool" where
  "safe r \<longleftrightarrow> (\<exists>rc cmdline conf. r = Some (rc, cmdline, conf) \<and> args_ok cmdline \<and> config_ok conf)"

definition keeps_safe :: "(string option list \<Rightarrow> co_config \<Rightarrow> parsed) \<Rightarrow> bool" where
  "keeps_safe f \<longleftrightarrow> (\<forall>cmdline conf. args_ok cmdline \<longrightarrow> config_ok conf \<longrightarrow> safe (f cmdline conf))"

lemma safe_Some [simp]: "safe (Some (rc, cmdline, conf)) \<longleftrightarrow> args_ok cmdline \<and> config_ok conf"
  by (auto simp: safe_def)

lemma and_then_safe: "safe r \<Longrightarrow> keeps_safe f \<Longrightarrow> safe (and_then r f)"
  unfolding safe_def keeps_safe_def and_then_def by auto

lemma foldl_safe: "safe r \<Longrightarrow> (\<And>f. f \<in> set fs \<Longrightarrow> keeps_safe f) \<Longrightarrow> safe (foldl and_then r fs)"
  by (induction fs arbitrary: r) (simp_all add: and_then_safe)

lemma loop_safe:
  assumes "setting_group device max_index config_ok" and "env_ok env" and "CHR ''='' \<notin> set p"
  shows "keeps_safe (settings_loop env p max_index (device env))"
  unfolding keeps_safe_def
proof (intro allI impI)
  fix cmdline conf assume "args_ok cmdline" "config_ok conf"
  then show "safe (settings_loop env p max_index (device env) cmdline conf)"
    using setting_group.loop_keeps [OF assms(1,2) _ _ assms(3)] by (fastforce simp: safe_def)
qed

text \<open>A setting with a value in a buffer of the stack.\<close>

lemma value_safe:
  assumes "env_ok env" and "args_ok cmdline" and "0 \<le> n" and "n \<le> int (length old)" and "n \<noteq> 0" and "CHR ''='' \<notin> set p"
  shows "\<exists>rc cmdline' val ex. co_cmdline_get_next_equality cmdline p [] 0 old n = Some (rc, cmdline', [], val, ex) \<and> args_ok cmdline' \<and>
    length val = length old \<and> (ex \<longrightarrow> rc = CO_RC_OK \<and> (\<exists>s. cstring val = Some s \<and> CHR 0x00 \<notin> set s \<and> Some (p @ ''='' @ s) \<in> set cmdline))"
  using wrapper_safe [OF assms(2), of 0 "[]" n old p True] assms unfolding co_cmdline_get_next_equality_def by fastforce

lemma config_ok_fields [simp]:
  "config_ok (conf\<lparr>ram_size := a\<rparr>) = config_ok conf" "config_ok (conf\<lparr>cobd_async_enable := b\<rparr>) = config_ok conf"
  "config_ok (conf\<lparr>conf_console := c\<rparr>) = config_ok conf" "config_ok (conf\<lparr>initrd_enabled := d\<rparr>) = config_ok conf"
  by (simp_all add: config_ok_def)

lemma set_screen_ok [simp]: "config_ok (set_screen x y m conf) = config_ok conf"
  by (simp add: set_screen_def)

lemma cocon_value_ok: "config_ok conf \<Longrightarrow> config_ok (snd (cocon_value s conf))"
  by (auto simp: cocon_value_def case_prod_beta Let_def)

lemma ram_size_safe: "env_ok env \<Longrightarrow> keeps_safe (parse_ram_size env)"
  unfolding keeps_safe_def
proof (intro allI impI)
  fix cmdline conf assume ok: "env_ok env" "args_ok cmdline" "config_ok conf"
  show "safe (parse_ram_size env cmdline conf)"
    using value_safe [OF ok(1,2), of 20 "stack_of env 20 cmdline" "''mem''"] stack_ok(1) [OF ok(1)] ok(3)
    by (auto simp: parse_ram_size_def co_cmdline_get_next_equality_int_value_def case_prod_beta Let_def split: option.splits)
qed

lemma cobd_safe: "env_ok env \<Longrightarrow> keeps_safe (parse_args_config_cobd env)"
  unfolding keeps_safe_def
proof (intro allI impI)
  fix cmdline conf assume ok: "env_ok env" "args_ok cmdline" "config_ok conf"
  note loop = loop_safe [OF cobds.setting_group_axioms ok(1), of "''cobd''"]
  show "safe (parse_args_config_cobd env cmdline conf)"
    using value_safe [OF ok(1,2), of 16 "stack_of env 16 cmdline" "''setcobd''"] stack_ok(1) [OF ok(1)] ok(3) loop
    by (auto simp: parse_args_config_cobd_def intro!: and_then_safe)
qed

lemma aliases_safe: "env_ok env \<Longrightarrow> keeps_safe (parse_args_config_aliases env)"
  unfolding keeps_safe_def
proof (intro allI impI)
  fix cmdline conf assume ok: "env_ok env" "args_ok cmdline" "config_ok conf"
  note suffix = stack_ok(1) [OF ok(1), of 5] stack_ok(2) [OF ok(1), of 5]
  have loops: "keeps_safe (\<lambda>cmdline conf. alias_loop env p (stack_of env 5 c) cmdline conf)" if "CHR ''='' \<notin> set p" for p c
    using alias_loop_keeps [OF ok(1) _ _ _ _ that, of _ _ "stack_of env 5 c"] suffix by (fastforce simp: keeps_safe_def safe_def)
  have "safe (alias_loop env ''sd'' (stack_of env 5 cmdline) cmdline conf)" using loops [of "''sd''" cmdline] ok by (simp add: keeps_safe_def)
  moreover have "keeps_safe (\<lambda>cmdline conf. alias_loop env ''hd'' (stack_of env 5 cmdline) cmdline conf)"
    unfolding keeps_safe_def using loops [of "''hd''"] by (simp add: keeps_safe_def)
  ultimately show "safe (parse_args_config_aliases env cmdline conf)" unfolding parse_args_config_aliases_def by (rule and_then_safe)
qed

lemma console_safe:
  assumes "env_ok env"
  shows "keeps_safe (parse_args_config_cocon env)" and "keeps_safe (parse_args_config_cursor env)" and "keeps_safe (parse_args_config_color env)"
proof -
  note stack = stack_ok(1) [OF assms]
  show "keeps_safe (parse_args_config_cocon env)"
    unfolding keeps_safe_def
  proof (intro allI impI)
    fix cmdline conf assume ok: "args_ok cmdline" "config_ok conf"
    show "safe (parse_args_config_cocon env cmdline conf)"
      using value_safe [OF assms ok(1), of 16 "stack_of env 16 cmdline" "''cocon''"] stack ok(2)
      by (auto simp: parse_args_config_cocon_def case_prod_beta Let_def cocon_value_ok)
  qed
  show "keeps_safe (parse_args_config_cursor env)"
    unfolding keeps_safe_def
  proof (intro allI impI)
    fix cmdline conf assume ok: "args_ok cmdline" "config_ok conf"
    show "safe (parse_args_config_cursor env cmdline conf)"
      using value_safe [OF assms ok(1), of 16 "stack_of env 16 cmdline" "''cursor''"] stack ok(2)
      by (auto simp: parse_args_config_cursor_def case_prod_beta Let_def)
  qed
  show "keeps_safe (parse_args_config_color env)"
    unfolding keeps_safe_def
  proof (intro allI impI)
    fix cmdline conf assume ok: "args_ok cmdline" "config_ok conf"
    show "safe (parse_args_config_color env cmdline conf)"
      using value_safe [OF assms ok(1), of 32 "stack_of env 32 cmdline" "''color''"] stack ok(2)
      by (auto simp: parse_args_config_color_def case_prod_beta Let_def)
  qed
qed

lemma quotes_safe:
  assumes "cstring path = Some s" and "CHR 0x00 \<notin> set s" and "s \<noteq> [CHR 0x22]"
  shows "\<exists>path' t. co_remove_quotation_marks path = Some path' \<and> length path' = length path \<and> cstring path' = Some t"
proof -
  obtain a rest where split: "path = a @ CHR 0x00 # rest" "CHR 0x00 \<notin> set a"
    using assms(1) by (auto simp: cstring_def split: if_splits dest!: split_list_first)
  then have path: "path = s @ CHR 0x00 # rest" using assms(1) cstring_terminated [OF split(2), of rest] by simp
  from quotation_marks_off [OF assms(2), of rest] show ?thesis
    using assms(3) quotation_marks_length by (auto simp: path bind_eq_Some_conv split: if_splits)
qed

lemma initrd_safe:
  assumes "env_ok env"
  shows "keeps_safe (parse_initrd env)"
  unfolding keeps_safe_def
proof (intro allI impI)
  fix cmdline conf assume ok: "args_ok cmdline" "config_ok conf"
  have path: "length (initrd_path conf) = CO_PATHNAME" using ok(2) by (simp add: config_ok_def)
  obtain rc cmdline' val ex where taken:
      "co_cmdline_get_next_equality cmdline ''initrd'' [] 0 (initrd_path conf) (int CO_PATHNAME) = Some (rc, cmdline', [], val, ex)"
      "args_ok cmdline'" "length val = CO_PATHNAME"
      "ex \<Longrightarrow> \<exists>s. cstring val = Some s \<and> CHR 0x00 \<notin> set s \<and> Some (''initrd='' @ s) \<in> set cmdline"
    using value_safe [OF assms ok(1), of "int CO_PATHNAME" "initrd_path conf" "''initrd''"] path path_size(1) by auto
  have with_path: "config_ok (conf\<lparr>initrd_enabled := e, initrd_path := p\<rparr>)" if "length p = CO_PATHNAME" for e p
    using ok(2) that by (simp add: config_ok_def)
  show "safe (parse_initrd env cmdline conf)"
  proof (cases "CO_OK rc \<and> ex")
    case False
    then show ?thesis using taken with_path by (auto simp: parse_initrd_def Let_def)
  next
    case True
    then obtain s where s: "cstring val = Some s" "CHR 0x00 \<notin> set s" "Some (''initrd='' @ s) \<in> set cmdline" using taken(4) by auto
    then have "s \<noteq> [CHR 0x22]" using ok(1) by (auto simp: args_ok_def)
    then obtain path' t where off: "co_remove_quotation_marks val = Some path'" "length path' = CO_PATHNAME" "cstring path' = Some t"
      using quotes_safe [OF s(1,2)] taken(3) by auto
    let ?conf = "conf\<lparr>initrd_enabled := True, initrd_path := path'\<rparr>"
    have conf: "config_ok ?conf" by (rule with_path [OF off(2)])
    have last: "unat CO_MODULE_MAX_COFS - 1 < unat CO_MODULE_MAX_COFS" by (simp add: CO_MODULE_MAX_COFS_def)
    define r where "r = parse_args_cofs_device (unat CO_MODULE_MAX_COFS - 1) (dirname env t) ?conf"
    have "\<exists>rc conf'. r = Some (rc, conf') \<and> config_ok conf'"
    proof -
      have len: "length (cofs_pathname (cofs_devs ?conf ! (unat CO_MODULE_MAX_COFS - 1))) = CO_PATHNAME"
        using conf last by (simp add: config_ok_def)
      then have "cofs_pathname (cofs_devs ?conf ! (unat CO_MODULE_MAX_COFS - 1)) \<noteq> []" by (rule contrapos_pn) (simp add: path_size)
      with print_into_Some [OF this(1), of "dirname env t"] show ?thesis
        using conf len by (auto simp: r_def parse_args_cofs_device_def Let_def config_ok_def dest!: set_update_subset_insert [THEN subsetD])
    qed
    then show ?thesis
      using True taken(1,2) off conf unfolding parse_initrd_def
      by (auto simp: Let_def r_def)
  qed
qed

lemma parse_config_args_keeps:
  assumes "env_ok env"
  shows "keeps_safe (parse_config_args env)"
  unfolding keeps_safe_def
proof (intro allI impI)
  fix cmdline conf assume ok: "args_ok cmdline" "config_ok conf"
  note loop = loop_safe [OF _ assms]
  note groups = loop [OF scsis.setting_group_axioms, of "''scsi''"] loop [OF nets.setting_group_axioms, of "''eth''"]
    loop [OF cofs.setting_group_axioms, of "''cofs''"] loop [OF pcis.setting_group_axioms, of "''pci''"]
    loop [OF serials.setting_group_axioms, of "''ttys''"] loop [OF programs.setting_group_axioms, of "''exec''"]
  show "safe (parse_config_args env cmdline conf)"
    unfolding parse_config_args_def
    by (rule foldl_safe)
      (use ok groups ram_size_safe [OF assms] cobd_safe [OF assms] aliases_safe [OF assms] console_safe [OF assms] initrd_safe [OF assms] in
        \<open>auto simp: parse_args_config_scsi_def parse_args_networking_def parse_args_config_cofs_def parse_args_config_pci_def
          parse_args_config_serial_def parse_args_config_execute_def\<close>)
qed

lemma format_loop_inside:
  assumes "1 \<le> n" and "int off + n \<le> int (length out)"
  shows "\<exists>argv' out'. format_remaining_loop argv out off n = Some (argv', out') \<and> length out' = length out"
  using assms
proof (induction argv arbitrary: out off n)
  case Nil
  then show ?case by simp
next
  case (Cons a argv)
  show ?case
  proof (cases a)
    case None
    then show ?thesis using Cons.IH [OF Cons.prems] by auto
  next
    case (Some arg)
    define lits where "lits = (if out ! 0 = CHR 0x00 then [] else '' '')"
    have plain: "CHR ''%'' \<notin> set lits" by (simp add: lits_def)
    have fmt: "(if out ! 0 = CHR 0x00 then ''%s'' else '' %s'') = lits @ ''%s''" by (simp add: lits_def)
    have room: "n \<le> int (length (drop off out))" using Cons.prems by auto
    define u where "u = lits @ arg"
    define str where "str = take (nat (n - 1)) u @ CHR 0x00 # drop (min (length u) (nat (n - 1)) + 1) (drop off out)"
    have run: "co_snprintf (drop off out) n (lits @ ''%s'') [Va_str (Some arg)] = Inr (int (length u), str, [])"
      using snprintf_literal_string [OF Cons.prems(1) room plain, of arg] by (simp only: u_def str_def)
    obtain b rest where b: "str = b @ CHR 0x00 # rest" "CHR 0x00 \<notin> set b" "length b \<le> length (take (nat (n - 1)) u)"
    proof (cases "CHR 0x00 \<in> set (take (nat (n - 1)) u)")
      case True
      then obtain b r where "take (nat (n - 1)) u = b @ CHR 0x00 # r" "CHR 0x00 \<notin> set b" by (metis split_list_first)
      then show ?thesis using that by (simp add: str_def)
    next
      case False
      then show ?thesis using that by (simp add: str_def)
    qed
    have kept: "cstring str = Some b" unfolding b(1) by (rule cstring_terminated [OF b(2)])
    have "length b \<le> nat (n - 1)" using b(3) by simp
    then have small: "int (length b) \<le> n - 1" using Cons.prems(1) by linarith
    define out' where "out' = take off out @ str"
    have len: "length out' = length out" using Cons.prems by (auto simp: out'_def str_def)
    have "int (off + length b) + (n - int (length b)) \<le> int (length out')" using Cons.prems(2) unfolding len by simp
    then have "\<exists>argv' out''. format_remaining_loop argv out' (off + length b) (n - int (length b)) = Some (argv', out'') \<and> length out'' = length out'"
      using Cons.IH [of "n - int (length b)" "off + length b" out'] small by simp
    then show ?thesis
      using small len unfolding Some format_remaining_loop.simps fmt run sum.case prod.case kept bind.simps Let_def out'_def [symmetric] by auto
  qed
qed

lemma vmlinux_path_ok: "config_ok conf \<Longrightarrow> length path = CO_PATHNAME \<Longrightarrow> config_ok (conf\<lparr>vmlinux_path := path\<rparr>)"
  by (simp add: config_ok_def)

lemma boot_line_ok: "config_ok conf \<Longrightarrow> length line = 0x100 \<Longrightarrow> config_ok (conf\<lparr>boot_parameters_line := line\<rparr>)"
  by (simp add: config_ok_def)

lemma remaining_inside:
  assumes "line \<noteq> []"
  shows "\<exists>cmdline' line'. co_cmdline_params_format_remaining_parameters cmdline line (int (length line)) = Some (CO_RC_OK, cmdline', line') \<and>
    length line' = length line"
proof -
  have "1 \<le> int (length line)" using assms by (cases line) auto
  then show ?thesis
    using format_loop_inside [of "int (length line)" 0 "line[0 := CHR 0x00]" cmdline] assms
    by (auto simp: co_cmdline_params_format_remaining_parameters_def store_at_def)
qed


text \<open>The structure that the daemon clears before it parses its parameters.\<close>

definition cleared_config :: co_config where
  "cleared_config =
     \<lparr>vmlinux_path = replicate CO_PATHNAME (CHR 0x00),
      block_devs = replicate (unat CO_MODULE_MAX_COBD) \<lparr>cobd_enabled = False, cobd_pathname = replicate CO_PATHNAME (CHR 0x00),
        alias_used = False, cobd_alias = replicate 20 (CHR 0x00)\<rparr>,
      conf_pci = replicate COPCI_MAX_SLOTS (replicate COPCI_MAX_FUNCS \<lparr>pci_type = 0, pci_unit = 0\<rparr>),
      scsi_devs = replicate (unat CO_MODULE_MAX_COSCSI) \<lparr>scsi_enabled = False, scsi_type = 0,
        scsi_pathname = replicate CO_PATHNAME (CHR 0x00), scsi_is_dev = False, scsi_size = 0\<rparr>,
      net_devs = replicate (unat CO_MODULE_MAX_CONET) \<lparr>net_enabled = False, net_desc = replicate 0x40 (CHR 0x00),
        net_type = CO_NETDEV_TYPE_BRIDGED_PCAP, manual_mac_address = False, mac_address = replicate 6 0,
        redir = replicate 0xFF (CHR 0x00), promisc_mode = 0\<rparr>,
      cofs_devs = replicate (unat CO_MODULE_MAX_COFS) \<lparr>cofs_enabled = False, cofs_pathname = replicate CO_PATHNAME (CHR 0x00)\<rparr>,
      serial_devs = replicate (unat CO_MODULE_MAX_SERIAL) \<lparr>serial_enabled = False, serial_desc = None, serial_mode = None\<rparr>,
      executes = replicate (unat CO_MODULE_MAX_EXECUTE) \<lparr>execute_enabled = False, execute_prog = None, execute_args = None, execute_pid = 0\<rparr>,
      boot_parameters_line = replicate 0x100 (CHR 0x00), ram_size = 0, initrd_enabled = False,
      initrd_path = replicate CO_PATHNAME (CHR 0x00), cobd_async_enable = False,
      conf_console = \<lparr>cfg_x = 0, cfg_y = 0, cfg_max_y = 0, curs_type_size = 0, cfg_attr = 0\<rparr>, used_network_types = 0\<rparr>"

lemma cleared_config_ok: "config_ok cleared_config"
  by (simp add: config_ok_def cleared_config_def)

lemma cleared_pci_enabled: "pci_enabled cleared_config"
  using cleared_config_ok unfolding pci_enabled_def by (simp add: cleared_config_def)

text \<open>A quiet host whose stack holds zeros, for the examples.\<close>

definition zero_env :: config_env where
  "zero_env = \<lparr>stack_of = \<lambda>n cmdline. replicate n (CHR 0x00), mac_stack = replicate 6 0, value_room = \<lambda>cmdline. True,
     dup_room = \<lambda>s. True, load_file = \<lambda>name. (CO_RC_ERROR, []), dirname = \<lambda>path. path, misc_level = 0\<rparr>"

lemma zero_env_ok: "env_ok zero_env"
  by (simp add: env_ok_def zero_env_def)




end
