(* ===== verification/Config_File.thy ===== *)
theory Config_File
  imports Config_Safety
begin

text \<open>
  A configuration file through the whole way: the two passes over the command line
  (\<open>user/cmdline.c\<close>) and the parser of the settings of block devices (\<open>user/config.c\<close>).
\<close>

section \<open>The settings of block devices\<close>

definition cobd_args :: "(nat \<times> string) list \<Rightarrow> string option list" where
  "cobd_args devs = map (\<lambda>(i, path). Some (''cobd'' @ dec_nat i @ ''='' @ path)) devs"

lemma path_printed:
  assumes "length buf = CO_PATHNAME" and "length path < CO_PATHNAME"
  shows "print_into buf ''%s'' [Va_str (Some path)] = Some (path @ CHR 0x00 # drop (length path + 1) buf)"
proof -
  have n: "nat (int (length buf) - 1) = CO_PATHNAME - 1" "1 \<le> int (length buf)" using assms by (auto simp: CO_PATHNAME_def)
  have m: "min (length path) (CO_PATHNAME - 1) = length path" using assms(2) by simp
  show ?thesis
    using snprintf_literal_string [OF n(2) order_refl, of "[]" path] m unfolding n(1)
    by (simp add: print_into_def)
qed

lemma cobd_set:
  assumes "env_ok env" and "config_ok conf" and "i < unat CO_MODULE_MAX_COBD" and "\<not> cobd_enabled (block_devs conf ! i)"
    and "length path < CO_PATHNAME" and "CHR 0x00 \<notin> set path"
  obtains d where "cobd_setting env i path conf = Some (CO_RC_OK, set_cobd i d conf)" and "cobd_enabled d"
    and "cstring (cobd_pathname d) = Some path" and "config_ok (set_cobd i d conf)"
proof -
  note len = config_ok_block [OF assms(2,3)]
  let ?buf = "path @ CHR 0x00 # drop (length path + 1) (cobd_pathname (block_devs conf ! i))"
  let ?d = "(block_devs conf ! i)\<lparr>cobd_enabled := True, cobd_pathname := ?buf\<rparr>"
  have "cobd_setting env i path conf = Some (CO_RC_OK, set_cobd i ?d conf)"
    using assms(4) path_printed [OF _ assms(5)] len by (simp add: cobd_setting_def Let_def check_quiet [OF assms(1)])
  moreover have "config_ok (set_cobd i ?d conf)" using len assms(5) by (intro set_cobd_ok [OF assms(2)]) auto
  ultimately show ?thesis using that [of ?d] cstring_terminated [OF assms(6)] by simp
qed

lemma cobd_loop_fills:
  assumes "env_ok env" and "\<forall>cmdline. value_room env cmdline" and "config_ok conf" and "distinct (map fst devs)"
    and "\<forall>(i, path) \<in> set devs. i < unat CO_MODULE_MAX_COBD \<and> \<not> cobd_enabled (block_devs conf ! i) \<and> path \<noteq> [] \<and>
      length path < CO_PATHNAME \<and> CHR 0x00 \<notin> set path"
    and "\<forall>arg. Some arg \<in> set pre \<longrightarrow> \<not> setting_of ''cobd'' arg"
  shows "\<exists>conf'. settings_loop env ''cobd'' CO_MODULE_MAX_COBD (cobd_setting env) (pre @ cobd_args devs) conf =
      Some (CO_RC_OK, pre @ replicate (length devs) None, conf') \<and>
      (\<forall>(i, path) \<in> set devs. cobd_enabled (block_devs conf' ! i) \<and> cstring (cobd_pathname (block_devs conf' ! i)) = Some path) \<and>
      (\<forall>i. i \<notin> fst ` set devs \<longrightarrow> block_devs conf' ! i = block_devs conf ! i)"
  using assms(3-)
proof (induction devs arbitrary: pre conf)
  case Nil
  have "co_cmdline_get_next_equality_wrapper pre ''cobd'' key 11 [] 0 room = Some (CO_RC_OK, pre, key, [], False)" for key room
    using Nil.prems(4) by (intro next_setting_none) auto
  then show ?case
    using stack_ok(2) [OF assms(1), of 11 pre]
    by (subst settings_loop.simps)
      (auto simp: cobd_args_def co_cmdline_get_next_equality_int_prefix_def co_cmdline_get_next_equality_alloc_def CO_OK_def)
next
  case (Cons dev devs)
  obtain i path where dev: "dev = (i, path)" by (cases dev)
  have d: "i < unat CO_MODULE_MAX_COBD" "\<not> cobd_enabled (block_devs conf ! i)" "path \<noteq> []" "length path < CO_PATHNAME" "CHR 0x00 \<notin> set path"
    using Cons.prems(3) by (auto simp: dev)
  obtain d' where d': "cobd_setting env i path conf = Some (CO_RC_OK, set_cobd i d' conf)" "cobd_enabled d'"
      "cstring (cobd_pathname d') = Some path" "config_ok (set_cobd i d' conf)"
    by (rule cobd_set [OF assms(1) Cons.prems(1) d(1,2,4,5)])
  have room: "value_room env cmdline = True" for cmdline using assms(2) by simp
  have eq: "pre @ cobd_args (dev # devs) = pre @ Some (''cobd'' @ dec_nat i @ ''='' @ path) # cobd_args devs" by (simp add: cobd_args_def dev)
  have small: "i < 2 ^ 32" using d(1) by (simp add: CO_MODULE_MAX_COBD_def)
  note found = next_index [where pre = pre and p = "''cobd''" and v = path and max_index = CO_MODULE_MAX_COBD and n = i and post = "cobd_args devs"
      and number = "stack_of env 11 (pre @ cobd_args (dev # devs))" and old = "[]"]
  have others: "block_devs (set_cobd i d' conf) ! j = (if j = i then d' else block_devs conf ! j)" for j
    using d(1) Cons.prems(1) by (auto simp: set_cobd_def config_ok_def nth_list_update)
  have "\<exists>conf'. settings_loop env ''cobd'' CO_MODULE_MAX_COBD (cobd_setting env) ((pre @ [None]) @ cobd_args devs) (set_cobd i d' conf) =
      Some (CO_RC_OK, (pre @ [None]) @ replicate (length devs) None, conf') \<and>
      (\<forall>(i, path) \<in> set devs. cobd_enabled (block_devs conf' ! i) \<and> cstring (cobd_pathname (block_devs conf' ! i)) = Some path) \<and>
      (\<forall>j. j \<notin> fst ` set devs \<longrightarrow> block_devs conf' ! j = block_devs (set_cobd i d' conf) ! j)"
  proof (rule Cons.IH [OF d'(4)])
    show "distinct (map fst devs)" using Cons.prems(2) by simp
    show "\<forall>(j, path) \<in> set devs. j < unat CO_MODULE_MAX_COBD \<and> \<not> cobd_enabled (block_devs (set_cobd i d' conf) ! j) \<and> path \<noteq> [] \<and>
        length path < CO_PATHNAME \<and> CHR 0x00 \<notin> set path"
    proof (intro ballI, clarify)
      fix j q assume dev': "(j, q) \<in> set devs"
      have "j \<in> fst ` set devs" using image_eqI [of j fst "(j, q)"] dev' by simp
      then have "j \<noteq> i" using Cons.prems(2) by (auto simp: dev)
      then show "j < unat CO_MODULE_MAX_COBD \<and> \<not> cobd_enabled (block_devs (set_cobd i d' conf) ! j) \<and> q \<noteq> [] \<and>
          length q < CO_PATHNAME \<and> CHR 0x00 \<notin> set q"
        using bspec [OF Cons.prems(3), of "(j, q)"] dev' by (simp add: others)
    qed
    show "\<forall>arg. Some arg \<in> set (pre @ [None]) \<longrightarrow> \<not> setting_of ''cobd'' arg" using Cons.prems(4) by simp
  qed
  then obtain conf' where rest:
      "settings_loop env ''cobd'' CO_MODULE_MAX_COBD (cobd_setting env) (pre @ None # cobd_args devs) (set_cobd i d' conf) =
        Some (CO_RC_OK, pre @ None # replicate (length devs) None, conf')"
      "\<forall>(i, path) \<in> set devs. cobd_enabled (block_devs conf' ! i) \<and> cstring (cobd_pathname (block_devs conf' ! i)) = Some path"
      "\<forall>j. j \<notin> fst ` set devs \<longrightarrow> block_devs conf' ! j = block_devs (set_cobd i d' conf) ! j"
    unfolding append_assoc append.simps by blast
  have "settings_loop env ''cobd'' CO_MODULE_MAX_COBD (cobd_setting env) (pre @ cobd_args (dev # devs)) conf =
      Some (CO_RC_OK, pre @ replicate (length (dev # devs)) None, conf')"
    using found Cons.prems(4) d stack_ok(1) [OF assms(1), of 11] d'(1) rest(1) small cstring_terminated [OF d(5), of "[]"]
    by (subst settings_loop.simps) (simp add: room eq CO_OK_def unsigned_of_nat take_bit_nat_eq_self)
  moreover have "i \<notin> fst ` set devs" using Cons.prems(2) by (simp add: dev)
  then have "block_devs conf' ! i = d'" using rest(3) others by simp
  ultimately show ?case using rest(2,3) d'(2,3) by (auto simp: dev others)
qed

text \<open>The lines of a configuration file.\<close>

definition cobd_lines :: "(nat \<times> string) list \<Rightarrow> string" where
  "cobd_lines devs = concat (map (\<lambda>(i, path). ''cobd'' @ dec_nat i @ ''='' @ path @ [CHR 0x0A]) devs)"

definition plain_word :: "string \<Rightarrow> bool" where
  "plain_word s \<longleftrightarrow> (\<forall>c \<in> set s. 0x21 \<le> code c \<and> c \<noteq> CHR ''#'' \<and> c \<noteq> CHR 0x22)"

lemma plain_token: "plain_word s \<Longrightarrow> param_token False (s @ CHR 0x0A # rest) = (s, CHR 0x0A # rest)"
  by (induction s) (auto simp: plain_word_def param_token_out)

lemma plain_Cons: "plain_word (c # s) \<longleftrightarrow> 0x21 \<le> code c \<and> c \<noteq> CHR ''#'' \<and> c \<noteq> CHR 0x22 \<and> plain_word s"
  by (auto simp: plain_word_def)

lemma plain_no_nul: "plain_word s \<Longrightarrow> CHR 0x00 \<notin> set s"
  unfolding plain_word_def using code_chars(1) by fastforce

lemma file_word:
  assumes "plain_word (c # s)" and "starts c"
  shows "file_params ((c # s) @ CHR 0x0A # rest) = (c # s) # file_params rest"
proof -
  have "plain_word s" and "c \<noteq> CHR 0x00" using assms(1) unfolding plain_Cons by (simp, cases "c = CHR 0x00") simp_all
  then have "file_params ((c # s) @ CHR 0x0A # rest) = (c # s) # file_params (CHR 0x0A # rest)"
    unfolding append_Cons file_params_step [of c] using assms(2) plain_token [of s rest] by (simp only: if_True if_False fst_conv snd_conv)
  moreover have "file_params (CHR 0x0A # rest) = file_params rest" by (rule file_params_white) simp_all
  ultimately show ?thesis by simp
qed

lemma digits_plain: "\<forall>c \<in> set s. is_digit c \<Longrightarrow> plain_word s"
  by (auto simp: plain_word_def is_digit_def code_def)

lemma plain_append: "plain_word (s @ t) \<longleftrightarrow> plain_word s \<and> plain_word t"
  by (auto simp: plain_word_def)

lemma cobd_plain: "plain_word ''obd''" "plain_word ''=''" "plain_word []"
  by (simp_all add: plain_word_def code_def)

lemma file_cobd_lines:
  assumes "\<forall>(i, path) \<in> set devs. plain_word path"
  shows "map Some (file_params (cobd_lines devs)) = cobd_args devs"
  using assms
proof (induction devs)
  case Nil
  then show ?case by (simp add: cobd_lines_def cobd_args_def)
next
  case (Cons dev devs)
  obtain i path where dev: "dev = (i, path)" by (cases dev)
  let ?w = "''obd'' @ dec_nat i @ ''='' @ path"
  have "plain_word (CHR ''c'' # ?w)"
    unfolding plain_Cons plain_append using Cons.prems digits_plain [OF dec_nat_digits] cobd_plain by (simp add: dev code_def)
  from file_word [OF this, of "cobd_lines devs"] have "file_params (cobd_lines (dev # devs)) = (''cobd'' @ dec_nat i @ ''='' @ path) # file_params (cobd_lines devs)"
    by (simp add: cobd_lines_def dev starts_def code_def)
  then show ?case using Cons by (simp add: cobd_args_def dev)
qed

lemma no_setcobd: "Some arg \<in> set (cobd_args devs) \<Longrightarrow> \<not> setting_of ''setcobd'' arg"
  by (auto simp: cobd_args_def setting_of_def)



end
