(* ===== verification/Config_Console.thy ===== *)
theory Config_Console
  imports Config_Safety Co_Console
begin

text \<open>
  The settings of the console (\<open>user/config.c\<close>): the limits of its size, and the colours.
\<close>

section \<open>The size of the console\<close>

lemma in_long: "fst (if b then (0, 0) else (max (- (2 ^ 31)) (min (2 ^ 31 - 1) n), u)) \<le> (2 ^ 31 - 1 :: int)"
  by auto

lemma strtol_range: "fst (strtol s base) \<le> 2 ^ 31 - 1"
  unfolding strtol_def Let_def by (rule in_long)

lemma uint_of_long: "0 \<le> n \<Longrightarrow> n \<le> 2 ^ 31 - 1 \<Longrightarrow> uint (word_of_int n :: ulong) = n"
  by (simp add: unsigned_of_int take_bit_int_eq_self)

definition screen_ok :: "co_console_config \<Rightarrow> bool" where
  "screen_ok c \<longleftrightarrow> 16 \<le> uint (cfg_x c) \<and> 2 \<le> uint (cfg_y c) \<and> uint (cfg_y c) \<le> uint (cfg_max_y c) \<and> uint (cfg_max_y c) \<le> 500"

lemma set_screen_limits:
  assumes "16 \<le> x" and "x \<le> 2 ^ 31 - 1" and "2 \<le> y" and "y \<le> m" and "m \<le> 500"
  shows "screen_ok (conf_console (set_screen x y m conf))"
  using assms by (simp add: screen_ok_def set_screen_def uint_of_long)

lemma cocon_value_limits:
  assumes "cocon_value s conf = (CO_RC_OK, conf')"
  shows "screen_ok (conf_console conf')"
proof -
  obtain x p where x: "next_number s = (x, p)" by fastforce
  obtain y q where y: "next_number p = (y, q)" by fastforce
  obtain m r where m: "next_number q = (m, r)" by fastforce
  have "x \<le> 2 ^ 31 - 1" using x strtol_range [of s 0] by (auto simp: next_number_def case_prod_beta)
  then show ?thesis
    using assms x y m by (auto simp: cocon_value_def co_console_limits intro!: set_screen_limits split: if_splits)
qed

text \<open>
  Whenever the console settings are accepted, whether a \<open>cocon=\<close> was given or not, the console is at least 16 columns
  wide, its screen has at least 2 rows and is not higher than its buffer, and the buffer has at most 500 rows.\<close>

theorem cocon_limits:
  assumes "parse_args_config_cocon env cmdline conf = Some (CO_RC_OK, cmdline', conf')"
  shows "screen_ok (conf_console conf')"
proof -
  have "screen_ok (conf_console (set_screen CO_CONSOLE_WIDTH CO_CONSOLE_HEIGHT CO_CONSOLE_MAX_ROWS conf))"
    by (rule set_screen_limits) (simp_all add: co_console_limits)
  then show ?thesis
    using assms cocon_value_limits
    by (auto simp: parse_args_config_cocon_def Let_def bind_eq_Some_conv CO_OK_def case_prod_beta prod_eq_iff split: if_splits)
qed

text \<open>The value of a setting in a buffer of the stack.\<close>

lemma value_of_setting:
  assumes "CHR ''='' \<notin> set p" and "v \<noteq> []" and "CHR 0x00 \<notin> set v" and "int (length v) < n - 1" and "n = int (length buf)"
  shows "\<exists>val. co_cmdline_get_next_equality [Some (p @ ''='' @ v)] p [] 0 buf n = Some (CO_RC_OK, [None], [], val, True) \<and> cstring val = Some v"
proof -
  have found: "length (takeWhile (\<lambda>c. c \<noteq> CHR ''='') (p @ ''='' @ v)) = length p"
    using assms(1) by (subst takeWhile_append2) auto
  have "n \<noteq> 0" using assms(4) by auto
  moreover have "length v < length buf" using assms(4,5) by linarith
  ultimately show ?thesis
    using assms copy_terminated_Some [of "length v" v buf] cstring_terminated [OF assms(3)] found
    by (simp add: co_cmdline_get_next_equality_def co_cmdline_get_next_equality_wrapper_def Let_def)
qed

theorem cocon_limits_witness:
  "\<exists>conf'. parse_args_config_cocon zero_env [Some ''cocon=120x40''] cleared_config = Some (CO_RC_OK, [None], conf') \<and> screen_ok (conf_console conf')"
proof -
  have "\<exists>val. co_cmdline_get_next_equality [Some (''cocon'' @ ''='' @ ''120x40'')] ''cocon'' [] 0 (stack_of zero_env 16 [Some ''cocon=120x40'']) 16 =
      Some (CO_RC_OK, [None], [], val, True) \<and> cstring val = Some ''120x40''"
    by (rule value_of_setting) (simp_all add: zero_env_def)
  moreover have "next_number ''120x40'' = (120, ''40'')" "next_number ''40'' = (40, [])" "next_number [] = (0, [])" by code_simp+
  then have "fst (cocon_value ''120x40'' conf) = CO_RC_OK" for conf by (simp add: cocon_value_def co_console_limits)
  then obtain conf' where "cocon_value ''120x40'' (set_screen CO_CONSOLE_WIDTH CO_CONSOLE_HEIGHT CO_CONSOLE_MAX_ROWS cleared_config) = (CO_RC_OK, conf')"
    by (metis prod.collapse)
  ultimately have "parse_args_config_cocon zero_env [Some ''cocon=120x40''] cleared_config = Some (CO_RC_OK, [None], conf')"
    by (auto simp: parse_args_config_cocon_def CO_OK_def)
  from this cocon_limits [OF this] show ?thesis by blast
qed

text \<open>
  The limits do not protect the console. The setting \<open>cocon=4294968x500\<close> is accepted, and the console that is
  created from the configuration gets room for 352 cells only, since the size of the object is computed in 32 bits: putting
  a character on the first row of the screen is a write outside the object.
\<close>

theorem cocon_setting_overruns:
  "\<exists>conf c. parse_args_config_cocon zero_env [Some ''cocon=4294968x500''] cleared_config = Some (CO_RC_OK, [None], conf) \<and>
    co_console_create True (conf_console conf) = Some (Inr c) \<and> length (buffer c) = 352 \<and>
    co_console_op (Some c) (CONSOLE_PUTC 352 0 65) = None"
proof -
  have "\<exists>val. co_cmdline_get_next_equality [Some (''cocon'' @ ''='' @ ''4294968x500'')] ''cocon'' [] 0 (stack_of zero_env 16 [Some ''cocon=4294968x500'']) 16 =
      Some (CO_RC_OK, [None], [], val, True) \<and> cstring val = Some ''4294968x500''"
    by (rule value_of_setting) (simp_all add: zero_env_def)
  moreover have "next_number ''4294968x500'' = (4294968, ''500'')" "next_number ''500'' = (500, [])" "next_number [] = (0, [])" by code_simp+
  then have "cocon_value ''4294968x500'' conf = (CO_RC_OK, set_screen 4294968 500 500 conf)" for conf
    by (simp add: cocon_value_def co_console_limits)
  ultimately have "parse_args_config_cocon zero_env [Some ''cocon=4294968x500''] cleared_config =
      Some (CO_RC_OK, [None], set_screen 4294968 500 500 (set_screen CO_CONSOLE_WIDTH CO_CONSOLE_HEIGHT CO_CONSOLE_MAX_ROWS cleared_config))"
    by (auto simp: parse_args_config_cocon_def CO_OK_def)
  moreover have "\<exists>c. co_console_create True (conf_console (set_screen 4294968 500 500 (set_screen CO_CONSOLE_WIDTH CO_CONSOLE_HEIGHT CO_CONSOLE_MAX_ROWS cleared_config))) =
      Some (Inr c) \<and> length (buffer c) = 352 \<and> co_console_op (Some c) (CONSOLE_PUTC 352 0 65) = None"
    by (simp add: set_screen_def cleared_config_def co_console_create_def Let_def sizeof_co_console_cell_def sizeof_co_console_def
        co_console_op_def putc_def store_at_def)
  ultimately show ?thesis by blast
qed

section \<open>Colours\<close>

definition good_entry :: "string \<times> nat \<times> int \<Rightarrow> bool" where
  "good_entry = (\<lambda>(name, n, a). n = length name \<and> name \<noteq> [] \<and> list_all (\<lambda>c. c \<noteq> CHR '','' \<and> c \<noteq> CHR 0x00) name \<and> n \<le> 13 \<and> 0 \<le> a \<and> a < 16 \<and>
     find (\<lambda>(name', n', a'). n = n' \<and> take n name' = name) co_color_tbl = Some (name, n, a))"

lemma good_table: "list_all good_entry co_color_tbl"
  by code_simp

lemma in_table:
  assumes "(name, n, a) \<in> set co_color_tbl"
  shows "n = length name" and "name \<noteq> []" and "CHR '','' \<notin> set name" and "CHR 0x00 \<notin> set name" and "n \<le> 13" and "0 \<le> a" and "a < 16"
    and "find (\<lambda>(name', n', a'). n = n' \<and> take n name' = name) co_color_tbl = Some (name, n, a)"
proof -
  have "good_entry (name, n, a)" using good_table assms unfolding list_all_iff by blast
  then show "n = length name" and "name \<noteq> []" and "CHR '','' \<notin> set name" and "CHR 0x00 \<notin> set name" and "n \<le> 13" and "0 \<le> a" and "a < 16"
    and "find (\<lambda>(name', n', a'). n = n' \<and> take n name' = name) co_color_tbl = Some (name, n, a)"
    by (auto simp: good_entry_def list_all_iff)
qed

lemma attribute_bits:
  assumes "0 \<le> a" and "a < (16 :: int)"
  shows "push_bit 4 b OR a = 16 * b + a"
proof -
  have "take_bit 4 a = a" using assms by (simp add: take_bit_int_eq_self)
  then have "\<not> bit (push_bit 4 b) i \<or> \<not> bit a i" for i
    by (metis bit_push_bit_iff bit_take_bit_iff not_le)
  then have "push_bit 4 b AND a = 0" by (intro bit_eqI) (auto simp: bit_and_iff)
  then have "push_bit 4 b + a = push_bit 4 b OR a" by (rule disjunctive_add_eq_or)
  then show ?thesis by (simp add: push_bit_eq_mult)
qed

lemma colour_found:
  assumes "(name, n, a) \<in> set co_color_tbl" and "rest = [] \<or> hd rest = CHR '',''"
  shows "co_find_color_attr (name @ rest) = (a, rest)"
proof -
  note t = in_table [OF assms(1)]
  have "length (takeWhile (\<lambda>c. c \<noteq> CHR '','') (name @ rest)) = n"
  proof -
    have all: "\<forall>c \<in> set name. c \<noteq> CHR '',''" using t(3) by auto
    then have "takeWhile (\<lambda>c. c \<noteq> CHR '','') (name @ rest) = name @ takeWhile (\<lambda>c. c \<noteq> CHR '','') rest" by (intro takeWhile_append2) auto
    also have "takeWhile (\<lambda>c. c \<noteq> CHR '','') rest = []" using assms(2) by (cases rest) auto
    finally show ?thesis using t(1) by simp
  qed
  moreover have "take n (name @ rest) = name" "drop n (name @ rest) = rest" "0 < n" using t(1,2) by simp_all
  ultimately show ?thesis using t(8) by (simp add: co_find_color_attr_def Let_def)
qed

text \<open>
  For every pair of different colours of the table, the setting \<open>color=foreground,background\<close> is accepted and sets
  the attribute of the console to the background in the upper and the foreground in the lower four bits.\<close>

theorem colours_of_console:
  assumes "env_ok env" and "(fg, m, a) \<in> set co_color_tbl" and "(bg, n, b) \<in> set co_color_tbl" and "a \<noteq> b"
  shows "\<exists>conf'. parse_args_config_color env [Some (''color='' @ fg @ '','' @ bg)] conf = Some (CO_RC_OK, [None], conf') \<and>
    uint (cfg_attr (conf_console conf')) = 16 * b + a"
proof -
  note f = in_table [OF assms(2)] and g = in_table [OF assms(3)]
  have "\<exists>val. co_cmdline_get_next_equality [Some (''color'' @ ''='' @ fg @ '','' @ bg)] ''color'' [] 0 (stack_of env 32 [Some (''color='' @ fg @ '','' @ bg)]) 32 =
      Some (CO_RC_OK, [None], [], val, True) \<and> cstring val = Some (fg @ '','' @ bg)"
    using f g stack_ok(1) [OF assms(1)] by (intro value_of_setting) auto
  then obtain val where val: "co_cmdline_get_next_equality [Some (''color='' @ fg @ '','' @ bg)] ''color'' [] 0 (stack_of env 32 [Some (''color='' @ fg @ '','' @ bg)]) 32 =
      Some (CO_RC_OK, [None], [], val, True)" "cstring val = Some (fg @ '','' @ bg)" by auto
  have found: "co_find_color_attr (fg @ '','' @ bg) = (a, '','' @ bg)" "co_find_color_attr bg = (b, [])"
    using colour_found [OF assms(2), of "'','' @ bg"] colour_found [OF assms(3), of "[]"] by simp_all
  have "push_bit 4 b OR a = 16 * b + a" by (rule attribute_bits [OF f(6,7)])
  then show ?thesis
    using val found assms(4) f(6,7) g(6,7) uint_of_long [of "16 * b + a"] by (simp add: parse_args_config_color_def Let_def)
qed

theorem colours_of_console_witness:
  "\<exists>conf'. parse_args_config_color zero_env [Some (''color='' @ ''yellow'' @ '','' @ ''blue'')] cleared_config = Some (CO_RC_OK, [None], conf') \<and>
    uint (cfg_attr (conf_console conf')) = 16 * CO_COLOR_BLUE + (CO_COLOR_BROWN OR CO_ATTR_BRIGHT)"
  by (rule colours_of_console [of zero_env "''yellow''" 6 _ "''blue''" 4]) (simp_all add: zero_env_ok co_color_tbl_def co_color_defs)

end
