(* ===== verification/Cofs.thy ===== *)
theory Cofs
  imports Co_Pages Cmdline_Params "HOL-Library.Monad_Syntax"
begin

text \<open>
  The file systems a host exports to the guest (\<open>src/colinux/kernel/filesystem.c\<close>, \<open>filesystem.h\<close>):
  the tree of inodes the driver keeps for each of them. An inode object has an address that is not used
  again, so that the use of an object that was freed is found; the three rings an
  inode is in are lists of addresses, and to take an inode out of one touches the objects
  beside it.
\<close>

section \<open>Inodes\<close>

record co_filesystem_dir_names =
  dir_list :: "(uchar \<times> string) list"
  dir_refcount :: int

record co_inode =
  inode_parent :: "nat option"
  inode_name :: "string option"
  inode_names :: "co_filesystem_dir_names option"
  inode_number :: int

definition CO_FS_HASH_TABLE_SIZE :: int where "CO_FS_HASH_TABLE_SIZE = 0x1000"

text \<open>\<open>sub_inodes\<close> of an inode is the ring of its children; \<open>fs_rooms\<close> says which allocations succeed,
  and \<open>live_blocks\<close> counts the blocks that are allocated.\<close>

record co_filesystem =
  inodes :: "nat \<rightharpoonup> co_inode"
  sub_inodes :: "nat \<Rightarrow> nat list"
  list_inodes :: "nat list"
  inode_hashes :: "nat \<Rightarrow> nat list"
  fs_root :: "nat option"
  inodes_count :: int
  next_inode_num :: int
  desc_pathname :: string
  base_path :: string
  fs_uid :: ulong
  fs_gid :: ulong
  dir_mode :: ulong
  file_mode :: ulong
  fs_flags :: ulong
  next_object :: nat
  fs_rooms :: "bool list"
  live_blocks :: int

definition fs_malloc :: "co_filesystem \<Rightarrow> bool \<times> co_filesystem" where
  "fs_malloc fs =
     (let (room, rooms) = alloc (fs_rooms fs)
      in (room, fs\<lparr>fs_rooms := rooms, live_blocks := live_blocks fs + (if room then 1 else 0)\<rparr>))"

definition fs_free :: "nat \<Rightarrow> co_filesystem \<Rightarrow> co_filesystem" where
  "fs_free blocks fs = fs\<lparr>live_blocks := live_blocks fs - int blocks\<rparr>"

definition alive :: "co_filesystem \<Rightarrow> nat \<Rightarrow> bool" where
  "alive fs a \<longleftrightarrow> inodes fs a \<noteq> None"

text \<open>A node of a ring whose head is in an object that may be freed.\<close>

definition ring_del :: "bool \<Rightarrow> (nat \<Rightarrow> bool) \<Rightarrow> nat \<Rightarrow> nat list \<Rightarrow> nat list option" where
  "ring_del head_alive live x xs =
     (let before = takeWhile (\<lambda>y. y \<noteq> x) xs; after = tl (dropWhile (\<lambda>y. y \<noteq> x) xs)
      in if x \<notin> set xs then None
         else if (if before = [] then head_alive else live (last before)) \<and> (if after = [] then head_alive else live (hd after))
         then Some (before @ after) else None)"

definition ring_add_tail :: "(nat \<Rightarrow> bool) \<Rightarrow> nat \<Rightarrow> nat list \<Rightarrow> nat list option" where
  "ring_add_tail live x xs = (if xs \<noteq> [] \<and> \<not> live (last xs) then None else Some (xs @ [x]))"

definition ring_add_head :: "(nat \<Rightarrow> bool) \<Rightarrow> nat \<Rightarrow> nat list \<Rightarrow> nat list option" where
  "ring_add_head live x xs = (if xs \<noteq> [] \<and> \<not> live (hd xs) then None else Some (x # xs))"

fun each_number :: "(nat \<rightharpoonup> co_inode) \<Rightarrow> int \<Rightarrow> nat list \<Rightarrow> nat option option" where
  "each_number objects ino [] = Some None"
| "each_number objects ino (a # as) =
     do { inode \<leftarrow> objects a; if inode_number inode = ino then Some (Some a) else each_number objects ino as }"

text \<open>A remainder that is negative is an index outside the table.\<close>

definition ino_num_to_inode :: "int \<Rightarrow> co_filesystem \<Rightarrow> nat option option" where
  "ino_num_to_inode ino filesystem =
     (if ino = 1 then Some (fs_root filesystem)
      else if ino < 0 \<and> ino mod CO_FS_HASH_TABLE_SIZE \<noteq> 0 then None
      else each_number (inodes filesystem) ino (inode_hashes filesystem (nat (ino mod CO_FS_HASH_TABLE_SIZE))))"

text \<open>The loop of \<open>alloc_inode\<close> for a number; the counter is a signed \<open>int\<close>.\<close>

function free_number :: "co_filesystem \<Rightarrow> (int \<times> co_filesystem) option" where
  "free_number filesystem =
     (let number = next_inode_num filesystem
      in if 2 ^ 31 - 1 \<le> number then None
         else let filesystem = filesystem\<lparr>next_inode_num := number + 1\<rparr>
         in case ino_num_to_inode number filesystem of
              None \<Rightarrow> None
            | Some None \<Rightarrow> Some (number, filesystem)
            | Some (Some _) \<Rightarrow> free_number filesystem)"
  by pat_completeness auto
termination
  by (relation "measure (\<lambda>fs. nat (2 ^ 31 - next_inode_num fs))") auto

declare free_number.simps [simp del]

definition bucket :: "int \<Rightarrow> nat" where
  "bucket number = nat (number mod CO_FS_HASH_TABLE_SIZE)"

definition add_child :: "nat \<Rightarrow> nat \<Rightarrow> co_filesystem \<Rightarrow> co_filesystem option" where
  "add_child p a fs =
     (if \<not> alive fs p then None
      else map_option (\<lambda>ring. fs\<lparr>sub_inodes := (sub_inodes fs)(p := ring)\<rparr>) (ring_add_tail (alive fs) a (sub_inodes fs p)))"

definition del_child :: "nat \<Rightarrow> nat \<Rightarrow> co_filesystem \<Rightarrow> co_filesystem option" where
  "del_child p a fs =
     map_option (\<lambda>ring. fs\<lparr>sub_inodes := (sub_inodes fs)(p := ring)\<rparr>) (ring_del (alive fs p) (alive fs) a (sub_inodes fs p))"

definition alloc_inode :: "co_filesystem \<Rightarrow> nat option \<Rightarrow> string option \<Rightarrow> (nat option \<times> co_filesystem) option" where
  "alloc_inode filesystem parent name =
     (let (room, fs) = fs_malloc filesystem
      in if \<not> room then Some (None, fs)
         else do {
           let a = next_object fs;
           (number, fs) \<leftarrow> free_number (fs\<lparr>next_object := a + 1\<rparr>);
           let inode = \<lparr>inode_parent = parent, inode_name = None, inode_names = None, inode_number = number\<rparr>;
           let fs = fs\<lparr>inodes := (inodes fs)(a \<mapsto> inode), sub_inodes := (sub_inodes fs)(a := [])\<rparr>;
           fs \<leftarrow> (case parent of None \<Rightarrow> Some fs | Some p \<Rightarrow> add_child p a fs);
           let (room, fs) = (case name of None \<Rightarrow> (True, fs) | Some _ \<Rightarrow> fs_malloc fs);
           if \<not> room
           then do {
             fs \<leftarrow> (case parent of None \<Rightarrow> None | Some p \<Rightarrow> del_child p a fs);
             Some (None, fs_free 1 (fs\<lparr>inodes := (inodes fs)(a := None)\<rparr>))
           }
           else do {
             let fs = fs\<lparr>inodes := (inodes fs)(a \<mapsto> inode\<lparr>inode_name := name\<rparr>)\<rparr>;
             flat \<leftarrow> ring_add_tail (alive fs) a (list_inodes fs);
             hash \<leftarrow> ring_add_tail (alive fs) a (inode_hashes fs (bucket number));
             Some (Some a, fs\<lparr>list_inodes := flat, inode_hashes := (inode_hashes fs)(bucket number := hash),
               inodes_count := inodes_count fs + 1\<rparr>)
           }
         })"

definition reparent_inode :: "nat \<Rightarrow> nat \<Rightarrow> co_filesystem \<Rightarrow> co_filesystem option" where
  "reparent_inode node new_parent fs =
     do {
       inode \<leftarrow> inodes fs node;
       fs \<leftarrow> (case inode_parent inode of None \<Rightarrow> None | Some p \<Rightarrow> del_child p node fs);
       ring \<leftarrow> (if alive fs new_parent then ring_add_head (alive fs) node (sub_inodes fs new_parent) else None);
       Some (fs\<lparr>sub_inodes := (sub_inodes fs)(new_parent := ring),
         inodes := (inodes fs)(node \<mapsto> inode\<lparr>inode_parent := Some new_parent\<rparr>)\<rparr>)
     }"

fun each_name :: "(nat \<rightharpoonup> co_inode) \<Rightarrow> string \<Rightarrow> nat list \<Rightarrow> nat option option" where
  "each_name objects name [] = Some None"
| "each_name objects name (a # as) =
     do { inode \<leftarrow> objects a; n \<leftarrow> inode_name inode; if n = name then Some (Some a) else each_name objects name as }"

text \<open>\<open>parent\<close> may be \<open>NULL\<close>.\<close>

definition find_inode :: "co_filesystem \<Rightarrow> nat option \<Rightarrow> string \<Rightarrow> nat option option" where
  "find_inode filesystem parent name =
     do { p \<leftarrow> parent; _ \<leftarrow> inodes filesystem p; each_name (inodes filesystem) name (sub_inodes filesystem p) }"

text \<open>The entries of a directory are freed, not the object that holds their list.\<close>

definition co_filesystem_getdir_free :: "co_filesystem_dir_names \<Rightarrow> co_filesystem \<Rightarrow> co_filesystem" where
  "co_filesystem_getdir_free names fs = fs_free (length (dir_list names)) fs"

definition free_inode :: "co_filesystem \<Rightarrow> nat \<Rightarrow> co_filesystem option" where
  "free_inode filesystem a =
     do {
       inode \<leftarrow> inodes filesystem a;
       flat \<leftarrow> ring_del True (alive filesystem) a (list_inodes filesystem);
       hash \<leftarrow> ring_del True (alive filesystem) a (inode_hashes filesystem (bucket (inode_number inode)));
       let fs = filesystem\<lparr>list_inodes := flat, inode_hashes := (inode_hashes filesystem)(bucket (inode_number inode) := hash)\<rparr>;
       fs \<leftarrow> (case inode_parent inode of None \<Rightarrow> Some fs | Some p \<Rightarrow> del_child p a fs);
       let fs = (case inode_names inode of None \<Rightarrow> fs | Some names \<Rightarrow> co_filesystem_getdir_free names fs);
       let fs = (case inode_name inode of None \<Rightarrow> fs | Some _ \<Rightarrow> fs_free 1 fs);
       Some (fs_free 1 (fs\<lparr>inodes := (inodes fs)(a := None), inodes_count := inodes_count fs - 1\<rparr>))
     }"

section \<open>Forgetting an inode\<close>

text \<open>\<open>delete_now\<close> is the ring of \<open>owner\<close>, or one on the stack. The inodes below the sixth level go to
  \<open>delete_later\<close>.\<close>

function free_inode_children ::
  "nat \<Rightarrow> nat option \<Rightarrow> nat list \<Rightarrow> nat list \<Rightarrow> co_filesystem \<Rightarrow> (nat list \<times> co_filesystem) option" where
  "free_inode_children level owner [] delete_later fs = Some (delete_later, fs)"
| "free_inode_children level owner (a # delete_now) delete_later fs =
     (if 5 < level
      then do {
        inode \<leftarrow> inodes fs a;
        fs \<leftarrow> (case owner of None \<Rightarrow> Some fs | Some p \<Rightarrow> del_child p a fs);
        delete_later \<leftarrow> ring_add_head (alive fs) a delete_later;
        free_inode_children level owner delete_now delete_later
          (fs\<lparr>inodes := (inodes fs)(a \<mapsto> inode\<lparr>inode_parent := None\<rparr>)\<rparr>)
      }
      else do {
        _ \<leftarrow> inodes fs a;
        (delete_later, fs) \<leftarrow> free_inode_children (level + 1) (Some a) (sub_inodes fs a) delete_later fs;
        fs \<leftarrow> free_inode fs a;
        free_inode_children level owner delete_now delete_later fs
      })"
  by pat_completeness auto
termination
  by (relation "measures [\<lambda>(level, owner, delete_now, _). 7 - level, \<lambda>(level, owner, delete_now, _). length delete_now]") auto

text \<open>The loop of \<open>free_inode_with_children\<close>, two rounds at a time.\<close>

partial_function (option) free_rounds :: "nat list \<Rightarrow> co_filesystem \<Rightarrow> co_filesystem option" where
  "free_rounds to_delete fs =
     (if to_delete = [] then Some fs
      else Option.bind (free_inode_children 0 None to_delete [] fs) (\<lambda>(to_delete_next, fs).
             if to_delete_next = [] then Some fs
             else Option.bind (free_inode_children 0 None to_delete_next [] fs) (\<lambda>(to_delete, fs). free_rounds to_delete fs)))"

definition free_inode_with_children :: "co_filesystem \<Rightarrow> nat \<Rightarrow> co_filesystem option" where
  "free_inode_with_children filesystem inode =
     do {
       _ \<leftarrow> inodes filesystem inode;
       (to_delete, fs) \<leftarrow> free_inode_children 0 (Some inode) (sub_inodes filesystem inode) [] filesystem;
       fs \<leftarrow> free_inode fs inode;
       free_rounds to_delete fs
     }"

definition inode_forget :: "co_filesystem \<Rightarrow> nat option \<Rightarrow> (co_rc_value \<times> co_filesystem) option" where
  "inode_forget filesystem inode =
     (case inode of None \<Rightarrow> Some (CO_RC_OK, filesystem)
      | Some a \<Rightarrow> map_option (Pair CO_RC_OK) (free_inode_with_children filesystem a))"

section \<open>A file system as a whole\<close>

definition co_monitor_file_system_init :: "bool list \<Rightarrow> string \<Rightarrow> (co_rc_value \<times> co_filesystem option) option" where
  "co_monitor_file_system_init rooms pathname =
     (let (room, rooms) = alloc rooms
      in if \<not> room then Some (CO_RC_OUT_OF_MEMORY, None)
         else let fs = \<lparr>inodes = (\<lambda>a. None), sub_inodes = (\<lambda>a. []), list_inodes = [], inode_hashes = (\<lambda>b. []), fs_root = None,
                inodes_count = 0, next_inode_num = 1, desc_pathname = pathname, base_path = pathname, fs_uid = 0, fs_gid = 0,
                dir_mode = 0, file_mode = 0, fs_flags = 0, next_object = 0, fs_rooms = rooms, live_blocks = 1\<rparr>
         in map_option (\<lambda>(root, fs). case root of None \<Rightarrow> (CO_RC_OUT_OF_MEMORY, None) | Some r \<Rightarrow> (CO_RC_OK, Some (fs\<lparr>fs_root := Some r\<rparr>)))
              (alloc_inode fs None None))"

lemma split_at: "x \<notin> set before \<Longrightarrow> takeWhile (\<lambda>y. y \<noteq> x) (before @ x # after) = before \<and> dropWhile (\<lambda>y. y \<noteq> x) (before @ x # after) = x # after"
  by (induction before) auto

lemma ring_del_at:
  "x \<notin> set before \<Longrightarrow> ring_del head_alive live x (before @ x # after) =
    (if (if before = [] then head_alive else live (last before)) \<and> (if after = [] then head_alive else live (hd after))
     then Some (before @ after) else None)"
  using split_at [of x before after] by (simp add: ring_del_def Let_def)

lemma ring_del_shorter: "ring_del head_alive live x xs = Some ys \<Longrightarrow> length ys < length xs"
proof -
  assume del: "ring_del head_alive live x xs = Some ys"
  then have "x \<in> set xs" by (auto simp: ring_del_def Let_def split: if_splits)
  then obtain before after where "xs = before @ x # after" "x \<notin> set before" by (metis split_list_first)
  then show ?thesis using del by (auto simp: ring_del_at split: if_splits)
qed

lemma free_inode_shorter: "free_inode fs a = Some fs' \<Longrightarrow> length (list_inodes fs') < length (list_inodes fs)"
  by (auto simp: free_inode_def del_child_def fs_free_def co_filesystem_getdir_free_def Let_def bind_eq_Some_conv
      dest!: ring_del_shorter split: option.splits)

text \<open>What is left is the number of blocks that stay allocated.\<close>

function free_all_inodes :: "co_filesystem \<Rightarrow> co_filesystem option" where
  "free_all_inodes fs =
     (case list_inodes fs of [] \<Rightarrow> Some fs
      | a # as \<Rightarrow> Option.bind (free_inode fs a) free_all_inodes)"
  by pat_completeness auto
termination
  by (relation "measure (\<lambda>fs. length (list_inodes fs))") (auto dest: free_inode_shorter)

declare free_all_inodes.simps [simp del]

definition co_monitor_file_system_free :: "co_filesystem option \<Rightarrow> int option" where
  "co_monitor_file_system_free filesystem =
     (case filesystem of None \<Rightarrow> Some 0
      | Some fs \<Rightarrow> map_option (\<lambda>fs. live_blocks (fs_free 1 fs)) (free_all_inodes fs))"

definition co_monitor_unregister_filesystems :: "co_filesystem option list \<Rightarrow> co_filesystem option list option" where
  "co_monitor_unregister_filesystems filesystems =
     (if list_all (\<lambda>filesystem. co_monitor_file_system_free filesystem \<noteq> None) filesystems
      then Some (replicate (length filesystems) None) else None)"

section \<open>Paths\<close>

text \<open>The paths of a Windows host (\<open>os/winnt/kernel/filesystem.c\<close>). A path is its text and the size of
  its block.\<close>

fun path_names :: "(nat \<rightharpoonup> co_inode) \<Rightarrow> nat \<Rightarrow> nat option \<Rightarrow> string list option" where
  "path_names objects depth None = Some []"
| "path_names objects 0 (Some a) = map_option (\<lambda>_. []) (objects a)"
| "path_names objects (Suc depth) (Some a) =
     do { inode \<leftarrow> objects a;
          case inode_name inode of None \<Rightarrow> Some []
          | Some name \<Rightarrow> map_option (Cons name) (path_names objects depth (inode_parent inode)) }"

definition co_os_fs_inode_to_path ::
  "co_filesystem \<Rightarrow> nat option \<Rightarrow> nat \<Rightarrow> (co_rc_value \<times> (string \<times> nat) \<times> co_filesystem) option" where
  "co_os_fs_inode_to_path fs dir add =
     do {
       names \<leftarrow> path_names (inodes fs) 256 dir;
       base \<leftarrow> cstring (base_path fs);
       let namelen = add + sum_list (map (\<lambda>name. length name + 1) names);
       let (room, fs) = fs_malloc fs;
       if \<not> room then Some (CO_RC_OUT_OF_MEMORY, ([], 0), fs)
       else do {
         let fullname = base @ concat (map (\<lambda>name. CHR 0x5C # name) (rev names));
         let fullname = (if 0 < add \<and> fullname \<noteq> [] \<and> last fullname \<noteq> CHR 0x5C then fullname @ [CHR 0x5C] else fullname);
         if length base + namelen + 2 < length fullname + 1 then None
         else Some (CO_RC_OK, (fullname, length base + namelen + 2), fs)
       }
     }"

definition co_os_fs_dir_inode_to_path ::
  "co_filesystem \<Rightarrow> nat option \<Rightarrow> string \<Rightarrow> (co_rc_value \<times> string \<times> co_filesystem) option" where
  "co_os_fs_dir_inode_to_path fs dir name =
     do {
       let len = (if name \<noteq> [] then 1 + length name else 0);
       (rc, (fullname, size), fs) \<leftarrow> co_os_fs_inode_to_path fs dir len;
       if \<not> CO_OK rc then Some (rc, [], fs)
       else if len = 0 then Some (CO_RC_OK, fullname, fs)
       else if size < length fullname + len then None
       else Some (CO_RC_OK, fullname @ name, fs)
     }"

definition co_os_fs_add_last_component :: "string \<Rightarrow> (nat \<times> string) option" where
  "co_os_fs_add_last_component dirname =
     do {
       s \<leftarrow> cstring dirname;
       let len = length s;
       if 0 < len \<and> s ! (len - 1) \<noteq> CHR 0x5C \<and> len + 2 < length dirname
       then Some (len + 1, dirname[len := CHR 0x5C, len + 1 := CHR 0x00])
       else Some (len, dirname)
     }"

text \<open>The code never fails.\<close>

definition co_os_fs_dir_join_unix_path :: "string \<Rightarrow> string \<Rightarrow> string option" where
  "co_os_fs_dir_join_unix_path dirname addition =
     do {
       (len, dirname) \<leftarrow> co_os_fs_add_last_component dirname;
       let addition = (if addition \<noteq> [] \<and> hd addition = CHR ''/'' then tl addition else addition);
       rest \<leftarrow> (case co_snprintf (drop len dirname) (int (length dirname) - int len) ''%s'' [Va_str (Some addition)] of
          Inl fault \<Rightarrow> None | Inr (_, rest, _) \<Rightarrow> Some rest);
       let dirname = take len dirname @ rest;
       s \<leftarrow> cstring dirname;
       let total_len = length s;
       let dirname = take len dirname @ map (\<lambda>c. if c = CHR ''/'' then CHR 0x5C else c) (take (total_len - len) (drop len dirname)) @ drop total_len dirname;
       Some (if 0 < total_len \<and> dirname ! (total_len - 1) = CHR 0x5C then dirname[total_len - 1 := CHR 0x00] else dirname)
     }"

end
