(* ===== verification/Cofs_Requests.thy ===== *)
theory Cofs_Requests
  imports Cofs
begin

text \<open>
  The requests of the guest for the files of the host (\<open>src/colinux/kernel/filesystem.c\<close>): the flat
  mode, which maps every operation to the files of the host, and the dispatch of a request.
\<close>

section \<open>Requests\<close>

record fuse_attr =
  at_size :: ulonglong
  at_mode :: ulong
  at_nlink :: ulong
  at_uid :: ulong
  at_gid :: ulong
  at_rdev :: ulong
  at_dummy :: ulong
  at_blocks :: ulong
  at_atime :: ulong
  at_mtime :: ulong
  at_ctime :: ulong

definition attr_words :: "fuse_attr \<Rightarrow> ulong list" where
  "attr_words a =
     [ucast (at_size a), ucast (drop_bit 32 (at_size a)), at_mode a, at_nlink a, at_uid a, at_gid a, at_rdev a, at_dummy a,
      at_blocks a, at_atime a, at_mtime a, at_ctime a]"

definition words_attr :: "ulong list \<Rightarrow> fuse_attr" where
  "words_attr w =
     \<lparr>at_size = push_bit 32 (ucast (w ! 1)) OR ucast (w ! 0), at_mode = w ! 2, at_nlink = w ! 3, at_uid = w ! 4, at_gid = w ! 5, at_rdev = w ! 6,
      at_dummy = w ! 7, at_blocks = w ! 8, at_atime = w ! 9, at_mtime = w ! 10, at_ctime = w ! 11\<rparr>"

text \<open>The files of the host, and its clock.\<close>

record 'os host_files =
  file_get_attr :: "string \<Rightarrow> fuse_attr \<Rightarrow> 'os \<Rightarrow> co_rc_value \<times> fuse_attr \<times> 'os"
  file_set_attr :: "string \<Rightarrow> ulong \<Rightarrow> fuse_attr \<Rightarrow> 'os \<Rightarrow> co_rc_value \<times> 'os"
  file_rename :: "string \<Rightarrow> string \<Rightarrow> 'os \<Rightarrow> co_rc_value \<times> 'os"
  file_getdir :: "string \<Rightarrow> 'os \<Rightarrow> co_rc_value \<times> (uchar \<times> string) list \<times> 'os"
  file_read_write :: "string \<Rightarrow> ulonglong \<Rightarrow> ulong \<Rightarrow> ulong \<Rightarrow> bool \<Rightarrow> page_state \<Rightarrow> 'os \<Rightarrow> (co_rc_value \<times> page_state \<times> 'os) option"
  file_mknod :: "string \<Rightarrow> ulong \<Rightarrow> 'os \<Rightarrow> co_rc_value \<times> 'os"
  file_mkdir :: "string \<Rightarrow> 'os \<Rightarrow> co_rc_value \<times> 'os"
  file_unlink :: "string \<Rightarrow> 'os \<Rightarrow> co_rc_value \<times> 'os"
  file_rmdir :: "string \<Rightarrow> 'os \<Rightarrow> co_rc_value \<times> 'os"
  file_fs_stat :: "string \<Rightarrow> 'os \<Rightarrow> co_rc_value \<times> ulong list \<times> 'os"
  host_time :: "'os \<Rightarrow> ulong"

text \<open>What a request works on: the file system, the memory of the guest, the host, and the parameters
  of the passage page.\<close>

record 'os fs_world =
  fw_fs :: co_filesystem
  fw_pages :: page_state
  fw_os :: 'os
  fw_params :: "ulong list"

type_synonym 'os fs_result = "(co_rc_value \<times> 'os fs_world) option"

definition COFS_MOUNT_NOATTRIB :: ulong where "COFS_MOUNT_NOATTRIB = 32"
definition FUSE_S_IFDIR :: ulong where "FUSE_S_IFDIR = 0x4000"
definition FATTR_MODE :: ulong where "FATTR_MODE = 1"

definition set_words :: "nat \<Rightarrow> ulong list \<Rightarrow> 'os fs_world \<Rightarrow> 'os fs_world" where
  "set_words n ws w = w\<lparr>fw_params := take n (fw_params w) @ ws @ drop (n + length ws) (fw_params w)\<rparr>"

definition attr_at :: "nat \<Rightarrow> 'os fs_world \<Rightarrow> fuse_attr" where
  "attr_at n w = words_attr (take 12 (drop n (fw_params w)))"

text \<open>The path of a name in a directory, for a function of the host that gets it.\<close>

definition with_path ::
  "nat option \<Rightarrow> string \<Rightarrow> (string \<Rightarrow> 'os fs_world \<Rightarrow> 'os fs_result) \<Rightarrow> 'os fs_world \<Rightarrow> 'os fs_result" where
  "with_path dir name f w =
     do {
       (rc, filename, fs) \<leftarrow> co_os_fs_dir_inode_to_path (fw_fs w) dir name;
       if \<not> CO_OK rc then Some (rc, w\<lparr>fw_fs := fs\<rparr>)
       else map_option (\<lambda>(rc, w). (rc, w\<lparr>fw_fs := fs_free 1 (fw_fs w)\<rparr>)) (f filename (w\<lparr>fw_fs := fs\<rparr>))
     }"

definition with_inode_path ::
  "nat option \<Rightarrow> nat \<Rightarrow> (string \<Rightarrow> 'os fs_world \<Rightarrow> 'os fs_result) \<Rightarrow> 'os fs_world \<Rightarrow> 'os fs_result" where
  "with_inode_path inode add f w =
     do {
       (rc, (filename, size), fs) \<leftarrow> co_os_fs_inode_to_path (fw_fs w) inode add;
       if \<not> CO_OK rc then Some (rc, w\<lparr>fw_fs := fs\<rparr>)
       else map_option (\<lambda>(rc, w). (rc, w\<lparr>fw_fs := fs_free 1 (fw_fs w)\<rparr>)) (f filename (w\<lparr>fw_fs := fs\<rparr>))
     }"

definition on_host :: "('os \<Rightarrow> co_rc_value \<times> 'os) \<Rightarrow> 'os fs_world \<Rightarrow> 'os fs_result" where
  "on_host f w = (let (rc, os) = f (fw_os w) in Some (rc, w\<lparr>fw_os := os\<rparr>))"

definition co_fs_get_attr :: "'os host_files \<Rightarrow> nat \<Rightarrow> string \<Rightarrow> 'os fs_world \<Rightarrow> 'os fs_result" where
  "co_fs_get_attr host at filename w =
     (let fs = fw_fs w; (rc, attr, os) = file_get_attr host filename (attr_at at w) (fw_os w); w = set_words at (attr_words attr) (w\<lparr>fw_os := os\<rparr>)
      in if \<not> CO_OK rc then Some (rc, w)
         else let keep = (if at_mode attr AND FUSE_S_IFDIR \<noteq> 0 then dir_mode fs else file_mode fs);
                  attr = attr\<lparr>at_mode := if fs_flags fs AND COFS_MOUNT_NOATTRIB \<noteq> 0 then keep else at_mode attr AND keep,
                    at_uid := fs_uid fs, at_gid := fs_gid fs\<rparr>
         in Some (rc, set_words at (attr_words attr) w))"

definition flat_mode_getattr :: "'os host_files \<Rightarrow> nat option \<Rightarrow> string \<Rightarrow> nat \<Rightarrow> 'os fs_world \<Rightarrow> 'os fs_result" where
  "flat_mode_getattr host dir name at = with_path dir name (co_fs_get_attr host at)"

definition flat_mode_inode_rename ::
  "'os host_files \<Rightarrow> nat option \<Rightarrow> nat option \<Rightarrow> string \<Rightarrow> string \<Rightarrow> 'os fs_world \<Rightarrow> 'os fs_result" where
  "flat_mode_inode_rename host old_inode new_inode oldname newname =
     with_path old_inode oldname (\<lambda>old_dirname. with_path new_inode newname (\<lambda>new_dirname.
       on_host (file_rename host old_dirname new_dirname)))"

definition flat_mode_inode_read_write ::
  "'os host_files \<Rightarrow> nat option \<Rightarrow> ulonglong \<Rightarrow> ulong \<Rightarrow> ulong \<Rightarrow> bool \<Rightarrow> 'os fs_world \<Rightarrow> 'os fs_result" where
  "flat_mode_inode_read_write host inode offset sz buffer rd =
     with_inode_path inode 0 (\<lambda>filename w.
       map_option (\<lambda>(rc, st, os). (rc, w\<lparr>fw_pages := st, fw_os := os\<rparr>))
         (file_read_write host filename offset sz buffer rd (fw_pages w) (fw_os w)))"

definition flat_mode_inode_mknod :: "'os host_files \<Rightarrow> nat option \<Rightarrow> ulong \<Rightarrow> string \<Rightarrow> 'os fs_world \<Rightarrow> 'os fs_result" where
  "flat_mode_inode_mknod host inode mode name = with_path inode name (\<lambda>filename. on_host (file_mknod host filename mode))"

definition flat_mode_inode_set_attr :: "'os host_files \<Rightarrow> nat option \<Rightarrow> ulong \<Rightarrow> nat \<Rightarrow> 'os fs_world \<Rightarrow> 'os fs_result" where
  "flat_mode_inode_set_attr host inode valid at =
     with_inode_path inode 0 (\<lambda>filename w.
       let valid = (if fs_flags (fw_fs w) AND COFS_MOUNT_NOATTRIB \<noteq> 0 then valid AND NOT FATTR_MODE else valid)
       in on_host (file_set_attr host filename valid (attr_at at w)) w)"

definition flat_mode_inode_mkdir :: "'os host_files \<Rightarrow> nat option \<Rightarrow> string \<Rightarrow> 'os fs_world \<Rightarrow> 'os fs_result" where
  "flat_mode_inode_mkdir host inode name = with_path inode name (\<lambda>dirname. on_host (file_mkdir host dirname))"

definition flat_mode_inode_unlink :: "'os host_files \<Rightarrow> nat option \<Rightarrow> string \<Rightarrow> 'os fs_world \<Rightarrow> 'os fs_result" where
  "flat_mode_inode_unlink host inode name = with_path inode name (\<lambda>filename. on_host (file_unlink host filename))"

definition flat_mode_inode_rmdir :: "'os host_files \<Rightarrow> nat option \<Rightarrow> string \<Rightarrow> 'os fs_world \<Rightarrow> 'os fs_result" where
  "flat_mode_inode_rmdir host inode name = with_path inode name (\<lambda>dirname. on_host (file_rmdir host dirname))"

section \<open>Operations\<close>

text \<open>A directory is opened once; the object for its names is kept until the last release, and the
  names that were read before an error are not freed.\<close>

definition inode_dir_open :: "'os host_files \<Rightarrow> nat option \<Rightarrow> 'os fs_world \<Rightarrow> 'os fs_result" where
  "inode_dir_open host inode w =
     (case inode of None \<Rightarrow> Some (CO_RC_ERROR, w)
      | Some a \<Rightarrow> do {
          obj \<leftarrow> inodes (fw_fs w) a;
          case inode_names obj of
            Some names \<Rightarrow>
              Some (CO_RC_OK, w\<lparr>fw_fs := (fw_fs w)\<lparr>inodes := (inodes (fw_fs w))(a \<mapsto>
                obj\<lparr>inode_names := Some (names\<lparr>dir_refcount := dir_refcount names + 1\<rparr>)\<rparr>)\<rparr>\<rparr>)
          | None \<Rightarrow>
              let (room, fs) = fs_malloc (fw_fs w)
              in if \<not> room then Some (CO_RC_OUT_OF_MEMORY, w\<lparr>fw_fs := fs\<rparr>)
                 else with_inode_path (Some a) 1 (\<lambda>dirname w.
                   let (rc, entries, os) = file_getdir host dirname (fw_os w);
                       fs = (fw_fs w)\<lparr>live_blocks := live_blocks (fw_fs w) + int (length entries)\<rparr>
                   in if \<not> CO_OK rc then Some (rc, w\<lparr>fw_os := os, fw_fs := fs\<rparr>)
                      else Some (rc, w\<lparr>fw_os := os, fw_fs := fs\<lparr>inodes := (inodes fs)(a \<mapsto>
                        obj\<lparr>inode_names := Some \<lparr>dir_list = entries, dir_refcount = 1\<rparr>\<rparr>)\<rparr>\<rparr>)) (w\<lparr>fw_fs := fs\<rparr>) \<bind> (\<lambda>(rc, w).
                   Some (rc, if CO_OK rc then w else w\<lparr>fw_fs := fs_free 1 (fw_fs w)\<rparr>))
        })"

definition inode_dir_release :: "nat option \<Rightarrow> 'os fs_world \<Rightarrow> 'os fs_result" where
  "inode_dir_release inode w =
     (case inode of None \<Rightarrow> Some (CO_RC_ERROR, w)
      | Some a \<Rightarrow> do {
          obj \<leftarrow> inodes (fw_fs w) a;
          case inode_names obj of
            None \<Rightarrow> Some (CO_RC_ERROR, w)
          | Some names \<Rightarrow>
              let names = names\<lparr>dir_refcount := dir_refcount names - 1\<rparr>
              in if 0 < dir_refcount names
                 then Some (CO_RC_OK, w\<lparr>fw_fs := (fw_fs w)\<lparr>inodes := (inodes (fw_fs w))(a \<mapsto> obj\<lparr>inode_names := Some names\<rparr>)\<rparr>\<rparr>)
                 else let fs = co_filesystem_getdir_free names (fw_fs w)
                 in Some (CO_RC_OK, w\<lparr>fw_fs := fs\<lparr>inodes := (inodes fs)(a \<mapsto> obj\<lparr>inode_names := None\<rparr>)\<rparr>\<rparr>)
        })"

text \<open>\<open>struct fuse_dirent\<close> on the stack, of 264 bytes with the name at offset 7.\<close>

definition FUSE_NAME_OFFSET :: nat where "FUSE_NAME_OFFSET = 7"

definition FUSE_DIRENT_ALIGN :: "nat \<Rightarrow> ulong" where
  "FUSE_DIRENT_ALIGN x = (word_of_nat x + 3) AND NOT 3"

definition dirent_ino :: "co_filesystem \<Rightarrow> co_inode \<Rightarrow> string \<Rightarrow> ulong option" where
  "dirent_ino fs obj name =
     (if name = ''..'' then
        (case inode_parent obj of Some p \<Rightarrow> map_option (\<lambda>parent. word_of_int (inode_number parent)) (inodes fs p)
         | None \<Rightarrow> Some (word_of_int (inode_number obj)))
      else if name = ''.'' then Some (word_of_int (inode_number obj)) else Some (- 1))"

definition fill_dirent :: "uchar list \<Rightarrow> ulong \<Rightarrow> uchar \<Rightarrow> string \<Rightarrow> uchar list" where
  "fill_dirent dirent ino type name =
     [ucast ino, ucast (drop_bit 8 ino), ucast (drop_bit 16 ino), ucast (drop_bit 24 ino),
      word_of_nat (length name), ucast (drop_bit 8 (word_of_nat (length name) :: ushort)), type] @
     map (\<lambda>c. word_of_nat (code c)) name @ drop (FUSE_NAME_OFFSET + length name) dirent"

fun dir_read_loop ::
  "co_filesystem \<Rightarrow> co_inode \<Rightarrow> (uchar \<times> string) list \<Rightarrow> uchar list \<Rightarrow> ulong \<Rightarrow> ulong \<Rightarrow> ulong \<Rightarrow> ulong \<Rightarrow> ulong \<Rightarrow> page_state \<Rightarrow>
   (co_rc_value \<times> ulong \<times> page_state) option" where
  "dir_read_loop fs obj [] dirent buff sz fill file_pos seek st = Some (CO_RC_OK, fill, st)"
| "dir_read_loop fs obj ((type, name) # entries) dirent buff sz fill file_pos seek st =
     (let dirent_size = FUSE_DIRENT_ALIGN (FUSE_NAME_OFFSET + length name)
      in if seek < file_pos then dir_read_loop fs obj entries dirent buff sz fill file_pos (seek + dirent_size) st
         else if sz < dirent_size + fill then Some (CO_RC_OK, fill, st)
         else do {
           ino \<leftarrow> dirent_ino fs obj name;
           let dirent = fill_dirent dirent ino type (take 256 name);
           (rc, st) \<leftarrow> co_monitor_host_to_linuxvm dirent (buff + fill) dirent_size st;
           if \<not> CO_OK rc then Some (rc, fill, st)
           else dir_read_loop fs obj entries dirent buff sz (fill + dirent_size) file_pos (seek + dirent_size) st
         })"

text \<open>\<open>dirent\<close> is what the stack holds. \<open>fill_size\<close> is \<open>params[7]\<close>.\<close>

definition inode_dir_read :: "uchar list \<Rightarrow> nat option \<Rightarrow> ulong \<Rightarrow> ulong \<Rightarrow> ulong \<Rightarrow> 'os fs_world \<Rightarrow> 'os fs_result" where
  "inode_dir_read dirent inode buff sz file_pos w =
     (case inode of None \<Rightarrow> Some (CO_RC_ERROR, w)
      | Some a \<Rightarrow> do {
          obj \<leftarrow> inodes (fw_fs w) a;
          case inode_names obj of None \<Rightarrow> Some (CO_RC_ERROR, w)
          | Some names \<Rightarrow> do {
              (rc, fill, st) \<leftarrow> dir_read_loop (fw_fs w) obj (dir_list names) dirent buff sz 0 file_pos 0 (fw_pages w);
              Some (rc, set_words 7 [fill] (w\<lparr>fw_pages := st\<rparr>))
            }
        })"

definition translate_code :: "co_rc_value \<Rightarrow> int" where
  "translate_code value =
     (case value of
        CO_RC_NOT_FOUND \<Rightarrow> - 2
      | CO_RC_ACCESS_DENIED \<Rightarrow> - 1
      | CO_RC_INVALID_PARAMETER \<Rightarrow> - 22
      | CO_RC_OK \<Rightarrow> 0
      | _ \<Rightarrow> - 5)"

definition on_fs :: "'os fs_world \<Rightarrow> co_filesystem \<Rightarrow> 'os fs_world" where
  "on_fs w fs = w\<lparr>fw_fs := fs\<rparr>"

text \<open>The inode for a name, found or new, whose number is stored at \<open>at\<close>.\<close>

definition number_of_name :: "nat option \<Rightarrow> string \<Rightarrow> nat \<Rightarrow> 'os fs_world \<Rightarrow> 'os fs_world option" where
  "number_of_name dir name at w =
     do {
       found \<leftarrow> find_inode (fw_fs w) dir name;
       (inode, fs) \<leftarrow> (case found of Some a \<Rightarrow> Some (Some a, fw_fs w) | None \<Rightarrow> alloc_inode (fw_fs w) dir (Some name));
       a \<leftarrow> inode;
       obj \<leftarrow> inodes fs a;
       Some (set_words at [word_of_int (inode_number obj)] (w\<lparr>fw_fs := fs\<rparr>))
     }"

definition inode_mknod :: "'os host_files \<Rightarrow> nat option \<Rightarrow> ulong \<Rightarrow> string \<Rightarrow> nat \<Rightarrow> nat \<Rightarrow> 'os fs_world \<Rightarrow> 'os fs_result" where
  "inode_mknod host dir mode name ino_pos attr_pos w =
     (let fs = fw_fs w; now = host_time host (fw_os w);
          attr = \<lparr>at_size = 0, at_mode = mode AND file_mode fs, at_nlink = 1, at_uid = fs_uid fs, at_gid = fs_gid fs, at_rdev = 0,
            at_dummy = 0, at_blocks = 0, at_atime = now, at_mtime = now, at_ctime = now\<rparr>
      in Option.bind (flat_mode_inode_mknod host dir mode name (set_words attr_pos (attr_words attr) w)) (\<lambda>(rc, w).
           if CO_OK rc then map_option (Pair rc) (number_of_name dir name ino_pos w) else Some (rc, w)))"

definition inode_lookup :: "'os host_files \<Rightarrow> nat option \<Rightarrow> string \<Rightarrow> nat \<Rightarrow> 'os fs_world \<Rightarrow> 'os fs_result" where
  "inode_lookup host dir name at w =
     Option.bind (flat_mode_getattr host dir name at w) (\<lambda>(rc, w).
       if CO_OK rc then map_option (Pair rc) (number_of_name dir name (at + 12) w) else Some (rc, w))"

text \<open>\<open>inode\<close> is used without a test.\<close>

definition inode_get_attr :: "'os host_files \<Rightarrow> nat option \<Rightarrow> nat \<Rightarrow> 'os fs_world \<Rightarrow> 'os fs_result" where
  "inode_get_attr host inode at w =
     do {
       a \<leftarrow> inode;
       obj \<leftarrow> inodes (fw_fs w) a;
       flat_mode_getattr host (inode_parent obj) (case inode_name obj of None \<Rightarrow> [] | Some name \<Rightarrow> name) at w
     }"

definition inode_rename :: "'os host_files \<Rightarrow> nat option \<Rightarrow> int \<Rightarrow> string \<Rightarrow> string \<Rightarrow> 'os fs_world \<Rightarrow> 'os fs_result" where
  "inode_rename host dir new_dir_num oldname newname w =
     do {
       new_dir_inode \<leftarrow> ino_num_to_inode new_dir_num (fw_fs w);
       case new_dir_inode of None \<Rightarrow> Some (CO_RC_ERROR, w)
       | Some new_dir \<Rightarrow> do {
           (rc, w) \<leftarrow> flat_mode_inode_rename host dir new_dir_inode oldname newname w;
           if \<not> CO_OK rc then Some (rc, w)
           else do {
             old_inode \<leftarrow> find_inode (fw_fs w) dir oldname;
             case old_inode of None \<Rightarrow> Some (rc, w)
             | Some a \<Rightarrow> do {
                 fs \<leftarrow> reparent_inode a new_dir (fw_fs w);
                 obj \<leftarrow> inodes fs a;
                 let (room, fs) = fs_malloc (fs_free 1 fs);
                 Some (if room then rc else CO_RC_OUT_OF_MEMORY,
                   w\<lparr>fw_fs := fs\<lparr>inodes := (inodes fs)(a \<mapsto> obj\<lparr>inode_name := if room then Some newname else None\<rparr>)\<rparr>\<rparr>)
               }
           }
         }
     }"

definition fs_mount :: "string \<Rightarrow> ulong \<Rightarrow> ulong \<Rightarrow> ulong \<Rightarrow> ulong \<Rightarrow> ulong \<Rightarrow> co_filesystem \<Rightarrow> (co_rc_value \<times> co_filesystem) option" where
  "fs_mount pathname uid gid dmode fmode flgs fs =
     map_option (\<lambda>path. (CO_RC_OK, fs\<lparr>fs_uid := uid, fs_gid := gid, dir_mode := dmode, file_mode := fmode, fs_flags := flgs, base_path := path\<rparr>))
       (co_os_fs_dir_join_unix_path (desc_pathname fs) pathname)"

definition fs_stat :: "'os host_files \<Rightarrow> nat \<Rightarrow> 'os fs_world \<Rightarrow> 'os fs_result" where
  "fs_stat host at w =
     (let (rc, ws, os) = file_fs_stat host (base_path (fw_fs w)) (fw_os w)
      in Some (rc, set_words at ws (w\<lparr>fw_os := os\<rparr>)))"

section \<open>The dispatch\<close>

definition FUSE_LOOKUP :: ulong where "FUSE_LOOKUP = 1"
definition FUSE_FORGET :: ulong where "FUSE_FORGET = 2"
definition FUSE_GETATTR :: ulong where "FUSE_GETATTR = 3"
definition FUSE_SETATTR :: ulong where "FUSE_SETATTR = 4"
definition FUSE_MKNOD :: ulong where "FUSE_MKNOD = 8"
definition FUSE_MKDIR :: ulong where "FUSE_MKDIR = 9"
definition FUSE_UNLINK :: ulong where "FUSE_UNLINK = 10"
definition FUSE_RMDIR :: ulong where "FUSE_RMDIR = 11"
definition FUSE_RENAME :: ulong where "FUSE_RENAME = 12"
definition FUSE_OPEN :: ulong where "FUSE_OPEN = 14"
definition FUSE_READ :: ulong where "FUSE_READ = 15"
definition FUSE_WRITE :: ulong where "FUSE_WRITE = 16"
definition FUSE_STATFS :: ulong where "FUSE_STATFS = 17"
definition FUSE_DIR_OPEN :: ulong where "FUSE_DIR_OPEN = 22"
definition FUSE_DIR_READ :: ulong where "FUSE_DIR_READ = 23"
definition FUSE_DIR_RELEASE :: ulong where "FUSE_DIR_RELEASE = 24"
definition FUSE_MOUNT :: ulong where "FUSE_MOUNT = 25"

lemmas fuse_opcodes = FUSE_LOOKUP_def FUSE_FORGET_def FUSE_GETATTR_def FUSE_SETATTR_def FUSE_MKNOD_def FUSE_MKDIR_def FUSE_UNLINK_def
  FUSE_RMDIR_def FUSE_RENAME_def FUSE_OPEN_def FUSE_READ_def FUSE_WRITE_def FUSE_STATFS_def FUSE_DIR_OPEN_def FUSE_DIR_READ_def
  FUSE_DIR_RELEASE_def FUSE_MOUNT_def

definition word_chars :: "ulong \<Rightarrow> string" where
  "word_chars x = map (\<lambda>i. char_of (unat (drop_bit (8 * i) x AND 0xFF))) [0..<4]"

text \<open>The strings of a request start at \<open>params[30]\<close>.\<close>

definition request_strings :: "'os fs_world \<Rightarrow> string" where
  "request_strings w = concat (map word_chars (drop 30 (fw_params w)))"

definition param :: "nat \<Rightarrow> 'os fs_world \<Rightarrow> ulong" where
  "param n w = fw_params w ! n"

definition offset_param :: "'os fs_world \<Rightarrow> ulonglong" where
  "offset_param w = push_bit 32 (ucast (param 6 w)) OR ucast (param 5 w)"

text \<open>The second switch, for a request that names an inode; \<open>params[0]\<close> is the word after the opcode.\<close>

definition inode_request :: "'os host_files \<Rightarrow> uchar list \<Rightarrow> ulong \<Rightarrow> nat option \<Rightarrow> 'os fs_world \<Rightarrow> (int \<times> 'os fs_world) option" where
  "inode_request host dirent opcode inode w =
     (let strings = request_strings w; str = cstring strings; code = map_option (\<lambda>(rc, w). (translate_code rc, w))
      in if opcode = FUSE_SETATTR then code (flat_mode_inode_set_attr host inode (param 5 w) 6 w)
         else if opcode = FUSE_RENAME then
           do { old \<leftarrow> str; new \<leftarrow> cstring (drop (length old + 1) strings);
                code (inode_rename host inode (sint (param 5 w)) old new w) }
         else if opcode = FUSE_FORGET then map_option (\<lambda>(rc, fs). (0, w\<lparr>fw_fs := fs\<rparr>)) (inode_forget (fw_fs w) inode)
         else if opcode = FUSE_MKNOD then do { name \<leftarrow> str; code (inode_mknod host inode (param 5 w) name 7 8 w) }
         else if opcode = FUSE_MKDIR then do { name \<leftarrow> str; code (flat_mode_inode_mkdir host inode name w) }
         else if opcode = FUSE_UNLINK then do { name \<leftarrow> str; code (flat_mode_inode_unlink host inode name w) }
         else if opcode = FUSE_RMDIR then do { name \<leftarrow> str; code (flat_mode_inode_rmdir host inode name w) }
         else if opcode = FUSE_WRITE then code (flat_mode_inode_read_write host inode (offset_param w) (param 7 w) (param 8 w) False w)
         else if opcode = FUSE_READ then code (flat_mode_inode_read_write host inode (offset_param w) (param 7 w) (param 8 w) True w)
         else if opcode = FUSE_OPEN then Some (0, w)
         else if opcode = FUSE_LOOKUP then do { name \<leftarrow> str; code (inode_lookup host inode name 5 w) }
         else if opcode = FUSE_GETATTR then code (inode_get_attr host inode 5 w)
         else if opcode = FUSE_DIR_OPEN then code (inode_dir_open host inode w)
         else if opcode = FUSE_DIR_READ then code (inode_dir_read dirent inode (param 6 w) (param 5 w) (param 8 w) w)
         else if opcode = FUSE_DIR_RELEASE then code (inode_dir_release inode w)
         else Some (0, w))"

definition file_system_request :: "'os host_files \<Rightarrow> uchar list \<Rightarrow> ulong \<Rightarrow> int \<Rightarrow> 'os fs_world \<Rightarrow> (int \<times> 'os fs_world) option" where
  "file_system_request host dirent opcode ino w =
     (if opcode = FUSE_MOUNT then
        do { pathname \<leftarrow> cstring (request_strings w);
             (rc, fs) \<leftarrow> fs_mount pathname (param 5 w) (param 6 w) (param 7 w) (param 8 w) (param 9 w) (fw_fs w);
             Some (translate_code rc, w\<lparr>fw_fs := fs\<rparr>) }
      else if opcode = FUSE_STATFS then map_option (\<lambda>(rc, w). (translate_code rc, w)) (fs_stat host 5 w)
      else do { inode \<leftarrow> ino_num_to_inode ino (fw_fs w); inode_request host dirent opcode inode w })"

text \<open>The unit is not compared with the number of file systems.\<close>

definition co_monitor_file_system ::
  "'os host_files \<Rightarrow> uchar list \<Rightarrow> ulong \<Rightarrow> ulong \<Rightarrow> int \<Rightarrow> co_filesystem option list \<Rightarrow> page_state \<Rightarrow> 'os \<Rightarrow> ulong list \<Rightarrow>
   (co_filesystem option list \<times> page_state \<times> 'os \<times> ulong list) option" where
  "co_monitor_file_system host dirent unit opcode ino filesystems st os params =
     (if length filesystems \<le> unat unit then None
      else case filesystems ! unat unit of
        None \<Rightarrow> Some (filesystems, st, os, params[4 := word_of_int (- 19)])
      | Some fs \<Rightarrow> do {
          (result, w) \<leftarrow> file_system_request host dirent opcode ino \<lparr>fw_fs = fs, fw_pages = st, fw_os = os, fw_params = params\<rparr>;
          Some (filesystems[unat unit := Some (fw_fs w)], fw_pages w, fw_os w, (fw_params w)[4 := word_of_int result])
        })"

end
