(* ===== verification/Cofs_Tree.thy ===== *)
theory Cofs_Tree
  imports Cofs_Requests
begin

text \<open>
  The inodes of a file system as a tree: what the rings and the hash table of \<open>filesystem.c\<close>
  represent, and that the operations keep it.
\<close>

section \<open>Trees in the heap of inodes\<close>

datatype itree = INode (addr: nat) (kids: "itree list")

fun addrs :: "itree \<Rightarrow> nat list" where
  "addrs (INode a us) = a # concat (map addrs us)"

definition forest_addrs :: "itree list \<Rightarrow> nat list" where
  "forest_addrs ts = concat (map addrs ts)"

lemma forest_addrs_simps [simp]:
  "forest_addrs [] = []" "forest_addrs (t # ts) = addrs t @ forest_addrs ts" "forest_addrs (ts @ us) = forest_addrs ts @ forest_addrs us"
  "addrs (INode a us) = a # forest_addrs us"
  by (simp_all add: forest_addrs_def)

declare addrs.simps [simp del]

fun tree_at :: "co_filesystem \<Rightarrow> nat option \<Rightarrow> itree \<Rightarrow> bool" where
  "tree_at fs p (INode a us) \<longleftrightarrow>
     (\<exists>obj. inodes fs a = Some obj \<and> inode_parent obj = p) \<and> sub_inodes fs a = map addr us \<and> (\<forall>u \<in> set us. tree_at fs (Some a) u)"

definition forest_at :: "co_filesystem \<Rightarrow> nat option \<Rightarrow> itree list \<Rightarrow> bool" where
  "forest_at fs p ts \<longleftrightarrow> (\<forall>t \<in> set ts. tree_at fs p t)"

lemma forest_at_simps [simp]:
  "forest_at fs p []" "forest_at fs p (t # ts) \<longleftrightarrow> tree_at fs p t \<and> forest_at fs p ts"
  "forest_at fs p (ts @ us) \<longleftrightarrow> forest_at fs p ts \<and> forest_at fs p us" "forest_at fs p (rev ts) \<longleftrightarrow> forest_at fs p ts"
  by (auto simp: forest_at_def)

lemma tree_at_INode [simp]:
  "tree_at fs p (INode a us) \<longleftrightarrow>
     (\<exists>obj. inodes fs a = Some obj \<and> inode_parent obj = p) \<and> sub_inodes fs a = map addr us \<and> forest_at fs (Some a) us"
  by (simp add: forest_at_def)

declare tree_at.simps [simp del]

lemma addr_in: "addr t \<in> set (addrs t)"
  by (cases t) simp

lemma addr_in_forest: "t \<in> set ts \<Longrightarrow> addr t \<in> set (forest_addrs ts)"
  using addr_in by (induction ts) auto

text \<open>A part of the heap that is not touched.\<close>

definition untouched :: "nat set \<Rightarrow> co_filesystem \<Rightarrow> co_filesystem \<Rightarrow> bool" where
  "untouched A fs fs' \<longleftrightarrow> (\<forall>b \<in> A. inodes fs' b = inodes fs b \<and> sub_inodes fs' b = sub_inodes fs b)"

lemma tree_untouched:
  "untouched (set (addrs t)) fs fs' \<Longrightarrow> tree_at fs' p t = tree_at fs p t"
proof (induction t arbitrary: p)
  case (INode a us)
  have "tree_at fs' q u = tree_at fs q u" if "u \<in> set us" for u q
  proof (rule INode.IH [OF that])
    show "untouched (set (addrs u)) fs fs'" using INode.prems that by (auto simp: untouched_def forest_addrs_def)
  qed
  then show ?case using INode.prems by (auto simp: untouched_def forest_at_def)
qed

lemma forest_untouched: "untouched (set (forest_addrs ts)) fs fs' \<Longrightarrow> forest_at fs' p ts = forest_at fs p ts"
  unfolding forest_at_def by (intro ball_cong refl tree_untouched) (auto simp: untouched_def forest_addrs_def)

lemma tree_alive: "tree_at fs p t \<Longrightarrow> b \<in> set (addrs t) \<Longrightarrow> alive fs b"
proof (induction t arbitrary: p)
  case (INode a us)
  then show ?case by (auto simp: alive_def forest_addrs_def forest_at_def)
qed

lemma forest_alive: "forest_at fs p ts \<Longrightarrow> b \<in> set (forest_addrs ts) \<Longrightarrow> alive fs b"
  by (auto simp: forest_at_def forest_addrs_def dest: tree_alive)

lemma root_object: "tree_at fs p t \<Longrightarrow> \<exists>obj. inodes fs (addr t) = Some obj \<and> inode_parent obj = p"
  by (cases t) auto

section \<open>The tables\<close>

definition tables_ok :: "co_filesystem \<Rightarrow> bool" where
  "tables_ok fs \<longleftrightarrow>
     distinct (list_inodes fs) \<and> set (list_inodes fs) = dom (inodes fs) \<and> inodes_count fs = int (length (list_inodes fs)) \<and>
     (\<forall>b. distinct (inode_hashes fs b) \<and> set (inode_hashes fs b) = {a. \<exists>obj. inodes fs a = Some obj \<and> bucket (inode_number obj) = b}) \<and>
     (\<forall>a obj. inodes fs a = Some obj \<longrightarrow> a < next_object fs \<and> 1 \<le> inode_number obj \<and> inode_number obj < next_inode_num fs) \<and>
     (\<forall>a b obj obj'. inodes fs a = Some obj \<longrightarrow> inodes fs b = Some obj' \<longrightarrow> inode_number obj = inode_number obj' \<longrightarrow> a = b)"

text \<open>What the operations on the tree do not change.\<close>

definition same_mount :: "co_filesystem \<Rightarrow> co_filesystem \<Rightarrow> bool" where
  "same_mount fs fs' \<longleftrightarrow>
     fs_root fs' = fs_root fs \<and> next_inode_num fs' = next_inode_num fs \<and> next_object fs' = next_object fs \<and> fs_rooms fs' = fs_rooms fs \<and>
     base_path fs' = base_path fs \<and> desc_pathname fs' = desc_pathname fs \<and> fs_flags fs' = fs_flags fs"

lemma same_mount_refl [simp]: "same_mount fs fs"
  by (simp add: same_mount_def)

lemma same_mount_trans: "same_mount fs fs' \<Longrightarrow> same_mount fs' fs'' \<Longrightarrow> same_mount fs fs''"
  by (simp add: same_mount_def)

lemma ring_del_inside:
  assumes "distinct xs" and "x \<in> set xs" and "\<forall>y \<in> set xs. live y" and "head_alive"
  obtains before after where "xs = before @ x # after" and "ring_del head_alive live x xs = Some (before @ after)"
proof -
  obtain before after where xs: "xs = before @ x # after" "x \<notin> set before" using assms(2) by (metis split_list_first)
  then have "ring_del head_alive live x xs = Some (before @ after)"
    using assms(3,4) by (simp add: ring_del_at)
  then show ?thesis using that xs(1) by blast
qed

definition freed_child :: "nat \<Rightarrow> nat option \<Rightarrow> (nat \<Rightarrow> nat list) \<Rightarrow> nat \<Rightarrow> nat list" where
  "freed_child a p subs = (case p of None \<Rightarrow> subs | Some q \<Rightarrow> subs(q := remove1 a (subs q)))"

lemma free_inode_ok:
  assumes ok: "tables_ok fs" and obj: "inodes fs a = Some obj"
    and child: "\<And>p. inode_parent obj = Some p \<Longrightarrow> alive fs p \<and> distinct (sub_inodes fs p) \<and> a \<in> set (sub_inodes fs p) \<and> (\<forall>b \<in> set (sub_inodes fs p). alive fs b)"
  shows "\<exists>fs'. free_inode fs a = Some fs' \<and> tables_ok fs' \<and> same_mount fs fs' \<and> inodes fs' = (inodes fs)(a := None) \<and>
    sub_inodes fs' = freed_child a (inode_parent obj) (sub_inodes fs)"
proof -
  let ?b = "bucket (inode_number obj)"
  have live: "\<forall>y \<in> set (list_inodes fs). alive fs y" "\<forall>y \<in> set (inode_hashes fs ?b). alive fs y"
    using ok by (auto simp: tables_ok_def alive_def)
  have inside: "a \<in> set (list_inodes fs)" "a \<in> set (inode_hashes fs ?b)" "distinct (list_inodes fs)" "distinct (inode_hashes fs ?b)"
    using ok obj by (auto simp: tables_ok_def)
  obtain f1 f2 where flat: "list_inodes fs = f1 @ a # f2" "ring_del True (alive fs) a (list_inodes fs) = Some (f1 @ f2)"
    by (rule ring_del_inside [OF inside(3,1) live(1)]) auto
  obtain h1 h2 where hash: "inode_hashes fs ?b = h1 @ a # h2" "ring_del True (alive fs) a (inode_hashes fs ?b) = Some (h1 @ h2)"
    by (rule ring_del_inside [OF inside(4,2) live(2)]) auto
  let ?fs = "fs\<lparr>list_inodes := f1 @ f2, inode_hashes := (inode_hashes fs)(?b := h1 @ h2)\<rparr>"
  have alive: "alive ?fs = alive fs" by (auto simp: alive_def)
  have del: "(case inode_parent obj of None \<Rightarrow> Some ?fs | Some p \<Rightarrow> del_child p a ?fs) =
      Some (?fs\<lparr>sub_inodes := freed_child a (inode_parent obj) (sub_inodes fs)\<rparr>)"
  proof (cases "inode_parent obj")
    case None
    then show ?thesis by (simp add: freed_child_def)
  next
    case (Some p)
    obtain s1 s2 where "sub_inodes fs p = s1 @ a # s2" "ring_del (alive fs p) (alive fs) a (sub_inodes fs p) = Some (s1 @ s2)"
      using ring_del_inside [of "sub_inodes fs p" a "alive fs" "alive fs p"] child [OF Some] by metis
    moreover from this have "remove1 a (sub_inodes fs p) = s1 @ s2" using child [OF Some] by (simp add: remove1_append)
    ultimately show ?thesis using Some by (simp add: del_child_def alive freed_child_def)
  qed
  define blocks where "blocks = (case inode_names obj of None \<Rightarrow> 0 | Some names \<Rightarrow> length (dir_list names)) + (case inode_name obj of None \<Rightarrow> 0 | Some _ \<Rightarrow> 1) + 1"
  define fs' where "fs' = fs\<lparr>list_inodes := f1 @ f2, inode_hashes := (inode_hashes fs)(?b := h1 @ h2),
    sub_inodes := freed_child a (inode_parent obj) (sub_inodes fs), inodes := (inodes fs)(a := None),
    inodes_count := inodes_count fs - 1, live_blocks := live_blocks fs - int blocks\<rparr>"
  have run: "free_inode fs a = Some fs'"
    unfolding free_inode_def obj flat(2) hash(2) bind.simps Let_def del
    by (simp add: fs'_def blocks_def fs_free_def co_filesystem_getdir_free_def split: option.split)
  have buckets: "distinct (inode_hashes fs' b) \<and> set (inode_hashes fs' b) = {c. \<exists>o'. inodes fs' c = Some o' \<and> bucket (inode_number o') = b}" for b
  proof -
    have old: "distinct (inode_hashes fs b)" "set (inode_hashes fs b) = {c. \<exists>o'. inodes fs c = Some o' \<and> bucket (inode_number o') = b}"
      using ok by (auto simp: tables_ok_def)
    show ?thesis
    proof (cases "b = ?b")
      case True
      have "set (h1 @ h2) = set (inode_hashes fs ?b) - {a}" using inside(4) unfolding hash(1) by auto
      then show ?thesis using old inside(4) unfolding True by (auto simp: fs'_def hash(1))
    next
      case False
      then show ?thesis using old obj by (auto simp: fs'_def)
    qed
  qed
  have "set (f1 @ f2) = set (list_inodes fs) - {a}" using inside(3) unfolding flat(1) by auto
  then have "tables_ok fs'"
    using ok buckets inside(3) unfolding tables_ok_def by (auto simp: fs'_def flat(1))
  then show ?thesis using run by (auto simp: fs'_def same_mount_def)
qed

section \<open>Freeing a forest\<close>

text \<open>The trees that are \<open>n\<close> levels below the roots.\<close>

fun below :: "nat \<Rightarrow> itree list \<Rightarrow> itree list" where
  "below 0 ts = ts"
| "below (Suc n) ts = concat (map (\<lambda>t. below n (kids t)) ts)"

lemma below_Cons: "below n (t # ts) = below n [t] @ below n ts"
  by (cases n) simp_all

lemma below_addrs: "set (forest_addrs (below n ts)) \<subseteq> set (forest_addrs ts)"
proof (induction n arbitrary: ts)
  case 0
  then show ?case by simp
next
  case (Suc n)
  show ?case
  proof (induction ts)
    case Nil
    then show ?case by simp
  next
    case (Cons t ts)
    have "set (forest_addrs (below n (kids t))) \<subseteq> set (addrs t)" using Suc.IH [of "kids t"] by (cases t) auto
    then show ?case using Cons by auto
  qed
qed

lemma below_distinct: "distinct (forest_addrs ts) \<Longrightarrow> distinct (forest_addrs (below n ts))"
proof (induction n arbitrary: ts)
  case 0
  then show ?case by simp
next
  case (Suc n)
  from Suc.prems show ?case
  proof (induction ts)
    case Nil
    then show ?case by simp
  next
    case (Cons t ts)
    have "distinct (forest_addrs (below n (kids t)))" using Suc.IH Cons.prems by (cases t) auto
    moreover have "set (forest_addrs (below n (kids t))) \<subseteq> set (addrs t)" using below_addrs [of n "kids t"] by (cases t) auto
    moreover have "set (forest_addrs (below (Suc n) ts)) \<subseteq> set (forest_addrs ts)" by (rule below_addrs)
    ultimately show ?case using Cons by auto
  qed
qed

text \<open>A forest freed down to \<open>n\<close> levels: what is left are the trees below, without a parent.\<close>

definition forest_freed :: "nat \<Rightarrow> nat option \<Rightarrow> itree list \<Rightarrow> co_filesystem \<Rightarrow> co_filesystem \<Rightarrow> bool" where
  "forest_freed n owner ts fs fs' \<longleftrightarrow>
     tables_ok fs' \<and> same_mount fs fs' \<and> forest_at fs' None (below n ts) \<and>
     (\<forall>b. b \<notin> set (forest_addrs ts) \<longrightarrow> inodes fs' b = inodes fs b \<and> (owner \<noteq> Some b \<longrightarrow> sub_inodes fs' b = sub_inodes fs b)) \<and>
     (\<forall>p. owner = Some p \<longrightarrow> sub_inodes fs' p = []) \<and>
     (\<forall>b \<in> set (forest_addrs ts). b \<notin> set (forest_addrs (below n ts)) \<longrightarrow> inodes fs' b = None)"

definition owns :: "co_filesystem \<Rightarrow> nat option \<Rightarrow> itree list \<Rightarrow> bool" where
  "owns fs owner ts \<longleftrightarrow>
     forest_at fs owner ts \<and> distinct (forest_addrs ts) \<and>
     (\<forall>p. owner = Some p \<longrightarrow> alive fs p \<and> p \<notin> set (forest_addrs ts) \<and> sub_inodes fs p = map addr ts)"

text \<open>The ring of trees to delete later: its first inode is alive, and not one of these.\<close>

definition later_ok :: "co_filesystem \<Rightarrow> itree list \<Rightarrow> nat list \<Rightarrow> bool" where
  "later_ok fs ts later \<longleftrightarrow> later = [] \<or> alive fs (hd later) \<and> hd later \<notin> set (forest_addrs ts)"

lemma addr_forest: "set (map addr ts) \<subseteq> set (forest_addrs ts)"
  using addr_in by (induction ts) auto

lemma distinct_addr: "distinct (forest_addrs ts) \<Longrightarrow> distinct (map addr ts)"
proof (induction ts)
  case (Cons t ts)
  then show ?case using addr_in [of t] addr_forest [of ts] by auto
qed simp

definition number_of :: "co_filesystem \<Rightarrow> nat \<Rightarrow> int option" where
  "number_of fs b = map_option inode_number (inodes fs b)"

lemma tables_ok_number:
  "tables_ok fs \<longleftrightarrow>
     distinct (list_inodes fs) \<and> set (list_inodes fs) = dom (number_of fs) \<and> inodes_count fs = int (length (list_inodes fs)) \<and>
     (\<forall>b. distinct (inode_hashes fs b) \<and> set (inode_hashes fs b) = {a. \<exists>n. number_of fs a = Some n \<and> bucket n = b}) \<and>
     (\<forall>a n. number_of fs a = Some n \<longrightarrow> a < next_object fs \<and> 1 \<le> n \<and> n < next_inode_num fs) \<and>
     (\<forall>a b n. number_of fs a = Some n \<longrightarrow> number_of fs b = Some n \<longrightarrow> a = b)"
proof -
  have "dom (number_of fs) = dom (inodes fs)" by (auto simp: number_of_def dom_def)
  moreover have "{a. \<exists>n. number_of fs a = Some n \<and> bucket n = b} = {a. \<exists>obj. inodes fs a = Some obj \<and> bucket (inode_number obj) = b}" for b
    by (auto simp: number_of_def)
  moreover have "(\<forall>a n. number_of fs a = Some n \<longrightarrow> a < next_object fs \<and> 1 \<le> n \<and> n < next_inode_num fs) \<longleftrightarrow>
      (\<forall>a obj. inodes fs a = Some obj \<longrightarrow> a < next_object fs \<and> 1 \<le> inode_number obj \<and> inode_number obj < next_inode_num fs)"
    by (auto simp: number_of_def)
  moreover have "(\<forall>a b n. number_of fs a = Some n \<longrightarrow> number_of fs b = Some n \<longrightarrow> a = b) \<longleftrightarrow>
      (\<forall>a b obj obj'. inodes fs a = Some obj \<longrightarrow> inodes fs b = Some obj' \<longrightarrow> inode_number obj = inode_number obj' \<longrightarrow> a = b)"
    by (fastforce simp: number_of_def)
  ultimately show ?thesis unfolding tables_ok_def by simp
qed

lemma tables_same:
  assumes "tables_ok fs" and "number_of fs' = number_of fs" and "list_inodes fs' = list_inodes fs" and "inode_hashes fs' = inode_hashes fs"
    and "inodes_count fs' = inodes_count fs" and "next_object fs' = next_object fs" and "next_inode_num fs' = next_inode_num fs"
  shows "tables_ok fs'"
  using assms(1) unfolding tables_ok_number assms(2-) .

lemma detach_level:
  assumes "tables_ok fs" and "owns fs (Some p) ts" and "later_ok fs ts later" and "5 < level"
  shows "\<exists>fs'. free_inode_children level (Some p) (map addr ts) later fs = Some (rev (map addr ts) @ later, fs') \<and>
    forest_freed 0 (Some p) ts fs fs'"
  using assms(1-3)
proof (induction ts arbitrary: fs later)
  case Nil
  then show ?case by (simp add: forest_freed_def owns_def)
next
  case (Cons t ts)
  let ?a = "addr t"
  obtain obj where obj: "inodes fs ?a = Some obj" "inode_parent obj = Some p"
    using root_object [of fs "Some p" t] Cons.prems(2) by (auto simp: owns_def)
  have sep: "?a \<notin> set (forest_addrs ts)" "p \<notin> set (addrs t)" "p \<notin> set (forest_addrs ts)" "?a \<noteq> p"
    and p: "alive fs p" "sub_inodes fs p = ?a # map addr ts"
    using Cons.prems(2) addr_in [of t] by (auto simp: owns_def)
  have rest: "\<forall>b \<in> set (map addr ts). alive fs b"
    using Cons.prems(2) addr_forest [of ts] by (auto simp: owns_def dest!: forest_alive)
  have del: "del_child p ?a fs = Some (fs\<lparr>sub_inodes := (sub_inodes fs)(p := map addr ts)\<rparr>)"
    using p rest by (cases ts) (auto simp: del_child_def ring_del_def Let_def)
  let ?fs = "fs\<lparr>sub_inodes := (sub_inodes fs)(p := map addr ts), inodes := (inodes fs)(?a \<mapsto> obj\<lparr>inode_parent := None\<rparr>)\<rparr>"
  have alive: "alive ?fs = alive fs" using obj by (auto simp: alive_def fun_eq_iff)
  have add: "ring_add_head (alive (fs\<lparr>sub_inodes := (sub_inodes fs)(p := map addr ts)\<rparr>)) ?a later = Some (?a # later)"
    using Cons.prems(3) by (auto simp: ring_add_head_def later_ok_def alive_def)
  have tables: "tables_ok ?fs"
    by (rule tables_same [OF Cons.prems(1)]) (use obj in \<open>auto simp: number_of_def fun_eq_iff\<close>)
  have un: "untouched (set (forest_addrs ts)) fs ?fs" "untouched (set (forest_addrs (kids t))) fs ?fs"
    using sep Cons.prems(2) by (cases t; auto simp: untouched_def owns_def)+
  have "owns ?fs (Some p) ts"
    using Cons.prems(2) sep forest_untouched [OF un(1)] p alive by (auto simp: owns_def)
  moreover have "later_ok ?fs ts (?a # later)" using sep(1) obj by (simp add: later_ok_def alive_def)
  ultimately obtain fs' where run: "free_inode_children level (Some p) (map addr ts) (?a # later) ?fs = Some (rev (map addr ts) @ ?a # later, fs')"
      and post: "forest_freed 0 (Some p) ts ?fs fs'"
    using Cons.IH [OF tables] by blast
  have t: "tree_at ?fs None t"
    using Cons.prems(2) obj sep forest_untouched [OF un(2)] by (cases t) (auto simp: owns_def)
  have "untouched (set (addrs t)) ?fs fs'"
    using post Cons.prems(2) sep(2) by (auto simp: untouched_def forest_freed_def owns_def)
  from tree_untouched [OF this] t have "tree_at fs' None t" by simp
  moreover have "free_inode_children level (Some p) (map addr (t # ts)) later fs = Some (rev (map addr (t # ts)) @ later, fs')"
    using run assms(4) obj del add by simp
  ultimately show ?case
    using post sep addr_in [of t] by (auto simp: forest_freed_def same_mount_def)
qed

lemma children_freed:
  assumes "level + n = 6" and "tables_ok fs" and "owns fs owner ts" and "later_ok fs ts later" and "owner = None \<Longrightarrow> 0 < n"
  shows "\<exists>fs'. free_inode_children level owner (map addr ts) later fs = Some (rev (map addr (below n ts)) @ later, fs') \<and>
    forest_freed n owner ts fs fs'"
  using assms
proof (induction n arbitrary: level owner ts later fs)
  case 0
  then obtain p where "owner = Some p" by (cases owner) auto
  then show ?case using detach_level [of fs p ts later level] 0 by simp
next
  case (Suc n)
  note outer = Suc.IH
  from Suc.prems(2-4) show ?case
  proof (induction ts arbitrary: fs later)
    case Nil
    then show ?case by (simp add: forest_freed_def owns_def)
  next
    case (Cons t ts)
    obtain a us where t: "t = INode a us" by (cases t)
    obtain obj where obj: "inodes fs a = Some obj" "inode_parent obj = owner"
      using Cons.prems(2) by (auto simp: owns_def t)
    have sep: "a \<notin> set (forest_addrs us)" "a \<notin> set (forest_addrs ts)" "distinct (forest_addrs us)" "distinct (forest_addrs ts)"
        "set (forest_addrs us) \<inter> set (forest_addrs ts) = {}"
      using Cons.prems(2) by (auto simp: owns_def t)
    have own: "p \<notin> set (forest_addrs us)" "p \<noteq> a" "p \<notin> set (forest_addrs ts)" "alive fs p" "sub_inodes fs p = a # map addr ts" if "owner = Some p" for p
      using Cons.prems(2) that by (auto simp: owns_def t)
    have "owns fs (Some a) us"
      using Cons.prems(2) obj sep by (auto simp: owns_def t alive_def)
    moreover have "later_ok fs us later" using Cons.prems(3) by (auto simp: later_ok_def t)
    ultimately obtain fs1 where run1: "free_inode_children (level + 1) (Some a) (map addr us) later fs = Some (rev (map addr (below n us)) @ later, fs1)"
        and kids: "forest_freed n (Some a) us fs fs1"
      using outer [of "level + 1" fs "Some a" us later] Suc.prems(1) Cons.prems(1) by auto
    have a1: "inodes fs1 a = Some obj" "sub_inodes fs1 a = []" using kids obj sep by (auto simp: forest_freed_def)
    have below1: "set (forest_addrs (below n us)) \<subseteq> set (forest_addrs us)" by (rule below_addrs)
    have un1: "untouched (set (forest_addrs ts)) fs fs1"
      using kids sep by (auto simp: untouched_def forest_freed_def)
    have ts1: "forest_at fs1 owner ts" using forest_untouched [OF un1] Cons.prems(2) by (simp add: owns_def)
    have p1: "alive fs1 p" "sub_inodes fs1 p = a # map addr ts" if "owner = Some p" for p
      using kids own [OF that] by (auto simp: forest_freed_def alive_def)
    have alive1: "\<forall>b \<in> set (map addr ts). alive fs1 b"
      using ts1 addr_forest [of ts] forest_alive by blast
    have "\<exists>fs2. free_inode fs1 a = Some fs2 \<and> tables_ok fs2 \<and> same_mount fs1 fs2 \<and> inodes fs2 = (inodes fs1)(a := None) \<and>
        sub_inodes fs2 = freed_child a owner (sub_inodes fs1)"
    proof -
      have "alive fs1 p \<and> distinct (sub_inodes fs1 p) \<and> a \<in> set (sub_inodes fs1 p) \<and> (\<forall>b \<in> set (sub_inodes fs1 p). alive fs1 b)"
        if "inode_parent obj = Some p" for p
        using p1 that obj(2) alive1 a1(1) distinct_addr [OF sep(4)] addr_forest [of ts] sep(2) by (auto simp: alive_def)
      from free_inode_ok [OF _ a1(1) this] show ?thesis using kids obj(2) by (auto simp: forest_freed_def)
    qed
    then obtain fs2 where run2: "free_inode fs1 a = Some fs2" "tables_ok fs2" "same_mount fs1 fs2" "inodes fs2 = (inodes fs1)(a := None)"
        "sub_inodes fs2 = freed_child a owner (sub_inodes fs1)" by auto
    have p2: "sub_inodes fs2 p = map addr ts" "alive fs2 p" if "owner = Some p" for p
      using p1 [OF that] run2(4,5) that own(2) [OF that] by (simp_all add: freed_child_def alive_def)
    have un2: "untouched (set (forest_addrs ts)) fs1 fs2" "untouched (set (forest_addrs (below n us))) fs1 fs2"
      using run2(4,5) sep own below1 by (auto simp: untouched_def freed_child_def split: option.splits)
    have "owns fs2 owner ts"
      using forest_untouched [OF un2(1)] ts1 sep own p2 by (auto simp: owns_def)
    moreover have "later_ok fs2 ts (rev (map addr (below n us)) @ later)"
    proof (cases "below n us = []")
      case True
      have "later \<noteq> [] \<Longrightarrow> inodes fs1 (hd later) = inodes fs (hd later)"
        using Cons.prems(3) kids by (auto simp: later_ok_def t forest_freed_def)
      then show ?thesis using Cons.prems(3) True run2(4) by (auto simp: later_ok_def t alive_def)
    next
      case False
      then have h: "hd (rev (map addr (below n us)) @ later) = addr (last (below n us))" by (simp add: hd_append hd_rev last_map)
      have "addr (last (below n us)) \<in> set (forest_addrs (below n us))" using False by (intro addr_in_forest) simp
      moreover from this have "alive fs1 (addr (last (below n us)))" using kids forest_alive by (auto simp: forest_freed_def)
      ultimately show ?thesis using run2(4) sep below1 unfolding later_ok_def h by (auto simp: alive_def)
    qed
    ultimately obtain fs' where run3: "free_inode_children level owner (map addr ts) (rev (map addr (below n us)) @ later) fs2 =
          Some (rev (map addr (below (Suc n) ts)) @ rev (map addr (below n us)) @ later, fs')"
        and rest: "forest_freed (Suc n) owner ts fs2 fs'"
      using Cons.IH [OF run2(2)] by blast
    have level: "\<not> 5 < level" using Suc.prems(1) by simp
    have subs: "sub_inodes fs a = map addr us" using Cons.prems(2) by (simp add: owns_def t)
    have run: "free_inode_children level owner (map addr (t # ts)) later fs = Some (rev (map addr (below (Suc n) (t # ts))) @ later, fs')"
      using obj(1) run1 run2(1) run3 level by (simp add: t subs)
    have un3: "untouched (set (forest_addrs (below n us))) fs2 fs'"
    proof -
      have "b \<notin> set (forest_addrs ts) \<and> owner \<noteq> Some b" if "b \<in> set (forest_addrs (below n us))" for b
        using that below1 sep(5) own(1) [of b] by blast
      then show ?thesis using rest by (simp add: untouched_def forest_freed_def)
    qed
    have left: "forest_at fs' None (below n us)"
      using forest_untouched [OF un2(2)] forest_untouched [OF un3] kids by (simp add: forest_freed_def)
    have outside: "inodes fs' b = inodes fs b \<and> (owner \<noteq> Some b \<longrightarrow> sub_inodes fs' b = sub_inodes fs b)"
      if "b \<notin> set (forest_addrs (t # ts))" for b
    proof -
      have b: "b \<noteq> a" "b \<notin> set (forest_addrs us)" "b \<notin> set (forest_addrs ts)" using that by (auto simp: t)
      then have "inodes fs' b = inodes fs2 b" "inodes fs2 b = inodes fs1 b" "inodes fs1 b = inodes fs b"
        using rest run2(4) kids by (simp_all add: forest_freed_def)
      moreover have "sub_inodes fs' b = sub_inodes fs b" if "owner \<noteq> Some b"
        using rest run2(5) kids b that by (simp add: forest_freed_def freed_child_def split: option.splits)
      ultimately show ?thesis by simp
    qed
    have dead: "inodes fs' b = None" if b: "b \<in> set (forest_addrs (t # ts))" "b \<notin> set (forest_addrs (below (Suc n) (t # ts)))" for b
    proof (cases "b \<in> set (forest_addrs ts)")
      case True
      then show ?thesis using rest b(2) by (auto simp: forest_freed_def t)
    next
      case False
      then have "inodes fs' b = inodes fs2 b" using rest by (simp add: forest_freed_def)
      moreover have "b = a \<or> inodes fs1 b = None" using kids b False by (auto simp: forest_freed_def t)
      ultimately show ?thesis using run2(4) by auto
    qed
    have "same_mount fs fs'" using kids run2(3) rest same_mount_trans by (auto simp: forest_freed_def)
    then have "forest_freed (Suc n) owner (t # ts) fs fs'"
      using rest left outside dead unfolding forest_freed_def by (auto simp: t)
    then show ?case using run by blast
  qed
qed

section \<open>The rounds\<close>

definition forest_gone :: "itree list \<Rightarrow> co_filesystem \<Rightarrow> co_filesystem \<Rightarrow> bool" where
  "forest_gone ts fs fs' \<longleftrightarrow>
     tables_ok fs' \<and> same_mount fs fs' \<and> (\<forall>b \<in> set (forest_addrs ts). inodes fs' b = None) \<and>
     (\<forall>b. b \<notin> set (forest_addrs ts) \<longrightarrow> inodes fs' b = inodes fs b \<and> sub_inodes fs' b = sub_inodes fs b)"

lemma below_smaller: "ts \<noteq> [] \<Longrightarrow> length (forest_addrs (below (Suc n) ts)) < length (forest_addrs ts)"
proof -
  have le: "length (forest_addrs (below n us)) \<le> length (forest_addrs us)" for n us
  proof (induction n arbitrary: us)
    case (Suc n)
    show ?case
    proof (induction us)
      case (Cons t us)
      then show ?case using Suc.IH [of "kids t"] by (cases t) simp
    qed simp
  qed simp
  have kid: "length (forest_addrs (below n (kids t))) < length (addrs t)" for t
    using le [of n "kids t"] by (cases t) simp
  show "ts \<noteq> [] \<Longrightarrow> length (forest_addrs (below (Suc n) ts)) < length (forest_addrs ts)"
  proof (induction ts)
    case (Cons t ts)
    then show ?case using kid [of t] by (cases "ts = []") (auto intro: add_less_le_mono)
  qed simp
qed

lemma rev_below: "map addr (rev ts) = rev (map addr ts)" "set (forest_addrs (rev ts)) = set (forest_addrs ts)"
    "distinct (forest_addrs (rev ts)) = distinct (forest_addrs ts)" "length (forest_addrs (rev ts)) = length (forest_addrs ts)"
proof -
  show "map addr (rev ts) = rev (map addr ts)" by (rule rev_map [symmetric])
  show eq: "set (forest_addrs (rev ts)) = set (forest_addrs ts)" by (auto simp: forest_addrs_def)
  show len: "length (forest_addrs (rev ts)) = length (forest_addrs ts)" by (induction ts) simp_all
  show "distinct (forest_addrs (rev ts)) = distinct (forest_addrs ts)"
    using eq len by (metis card_distinct distinct_card)
qed

text \<open>One round over inodes without a parent.\<close>

lemma one_round:
  assumes "tables_ok fs" and "forest_at fs None ts" and "distinct (forest_addrs ts)"
  obtains fs' us where "free_inode_children 0 None (map addr ts) [] fs = Some (map addr us, fs')"
    and "tables_ok fs'" and "same_mount fs fs'" and "forest_at fs' None us" and "distinct (forest_addrs us)"
    and "set (forest_addrs us) \<subseteq> set (forest_addrs ts)" and "ts \<noteq> [] \<Longrightarrow> length (forest_addrs us) < length (forest_addrs ts)"
    and "\<forall>b \<in> set (forest_addrs ts). b \<notin> set (forest_addrs us) \<longrightarrow> inodes fs' b = None"
    and "\<forall>b. b \<notin> set (forest_addrs ts) \<longrightarrow> inodes fs' b = inodes fs b \<and> sub_inodes fs' b = sub_inodes fs b"
proof -
  have "owns fs None ts" using assms(2,3) by (simp add: owns_def)
  then obtain fs' where "free_inode_children 0 None (map addr ts) [] fs = Some (rev (map addr (below 6 ts)), fs')" "forest_freed 6 None ts fs fs'"
    using children_freed [of 0 6 fs None ts "[]"] assms(1) by (auto simp: later_ok_def)
  then show ?thesis
    using that [of "rev (below 6 ts)" fs'] below_addrs [of 6 ts] below_distinct [OF assms(3), of 6] below_smaller [of ts 5]
    by (simp add: rev_below forest_freed_def)
qed

lemma rounds_free:
  assumes "tables_ok fs" and "forest_at fs None ts" and "distinct (forest_addrs ts)"
  shows "\<exists>fs'. free_rounds (map addr ts) fs = Some fs' \<and> forest_gone ts fs fs'"
  using assms
proof (induction "length (forest_addrs ts)" arbitrary: fs ts rule: less_induct)
  case less
  show ?case
  proof (cases "ts = []")
    case True
    then show ?thesis using less.prems by (subst free_rounds.simps) (simp add: forest_gone_def)
  next
    case False
    obtain fs1 us where r1: "free_inode_children 0 None (map addr ts) [] fs = Some (map addr us, fs1)"
      "tables_ok fs1" "same_mount fs fs1" "forest_at fs1 None us" "distinct (forest_addrs us)" "set (forest_addrs us) \<subseteq> set (forest_addrs ts)"
      "length (forest_addrs us) < length (forest_addrs ts)"
      "\<forall>b \<in> set (forest_addrs ts). b \<notin> set (forest_addrs us) \<longrightarrow> inodes fs1 b = None"
      "\<forall>b. b \<notin> set (forest_addrs ts) \<longrightarrow> inodes fs1 b = inodes fs b \<and> sub_inodes fs1 b = sub_inodes fs b"
      using one_round [OF less.prems] False by metis
    show ?thesis
    proof (cases "us = []")
      case True
      then have "free_rounds (map addr ts) fs = Some fs1" using r1(1) False by (subst free_rounds.simps) simp
      then show ?thesis using r1 True by (auto simp: forest_gone_def)
    next
      case us: False
      obtain fs2 vs where r2: "free_inode_children 0 None (map addr us) [] fs1 = Some (map addr vs, fs2)"
        "tables_ok fs2" "same_mount fs1 fs2" "forest_at fs2 None vs" "distinct (forest_addrs vs)" "set (forest_addrs vs) \<subseteq> set (forest_addrs us)"
        "length (forest_addrs vs) < length (forest_addrs us)"
        "\<forall>b \<in> set (forest_addrs us). b \<notin> set (forest_addrs vs) \<longrightarrow> inodes fs2 b = None"
        "\<forall>b. b \<notin> set (forest_addrs us) \<longrightarrow> inodes fs2 b = inodes fs1 b \<and> sub_inodes fs2 b = sub_inodes fs1 b"
        using one_round [OF r1(2,4,5)] us by metis
      obtain fs' where r3: "free_rounds (map addr vs) fs2 = Some fs'" "forest_gone vs fs2 fs'"
        using less.hyps [OF _ r2(2,4,5)] r1(7) r2(7) by auto
      have "free_rounds (map addr ts) fs = Some fs'" using r1(1) r2(1) r3(1) False us by (subst free_rounds.simps) simp
      moreover have "same_mount fs fs'" using r1(3) r2(3) r3(2) same_mount_trans by (auto simp: forest_gone_def)
      moreover have "inodes fs' b = None" if "b \<in> set (forest_addrs ts)" for b
      proof (cases "b \<in> set (forest_addrs vs)")
        case True
        then show ?thesis using r3(2) by (simp add: forest_gone_def)
      next
        case False
        then have "inodes fs' b = inodes fs2 b" using r3(2) by (simp add: forest_gone_def)
        then show ?thesis using False that r1(8) r2(8,9) by metis
      qed
      moreover have "inodes fs' b = inodes fs b \<and> sub_inodes fs' b = sub_inodes fs b" if "b \<notin> set (forest_addrs ts)" for b
      proof -
        have "b \<notin> set (forest_addrs us)" "b \<notin> set (forest_addrs vs)" using that r1(6) r2(6) by auto
        then show ?thesis using that r1(9) r2(9) r3(2) by (simp add: forest_gone_def)
      qed
      ultimately show ?thesis using r3(2) by (auto simp: forest_gone_def)
    qed
  qed
qed

section \<open>Forgetting a subtree\<close>

fun subtree_addrs :: "nat \<Rightarrow> itree \<Rightarrow> nat list" where
  "subtree_addrs a (INode b us) = (if a = b then addrs (INode b us) else concat (map (subtree_addrs a) us))"

fun prune :: "nat \<Rightarrow> itree \<Rightarrow> itree" where
  "prune a (INode b us) = INode b (map (prune a) (filter (\<lambda>u. addr u \<noteq> a) us))"

lemma prune_addr [simp]: "addr (prune a t) = addr t"
  by (cases t) simp

lemma subtree_inside: "set (subtree_addrs a t) \<subseteq> set (addrs t)"
proof (induction t)
  case (INode b us)
  then show ?case by (auto simp: forest_addrs_def)
qed

lemma subtree_none: "a \<notin> set (addrs t) \<Longrightarrow> subtree_addrs a t = []"
proof (induction t)
  case (INode b us)
  have "subtree_addrs a u = []" if "u \<in> set us" for u
    using INode.IH [OF that] INode.prems that by (auto simp: forest_addrs_def)
  then show ?case using INode.prems by simp
qed

lemma forest_in: "b \<in> set (forest_addrs us) \<longleftrightarrow> (\<exists>u \<in> set us. b \<in> set (addrs u))"
  by (simp add: forest_addrs_def)

lemma distinct_kids: "distinct (forest_addrs us) \<Longrightarrow> u \<in> set us \<Longrightarrow> distinct (addrs u)"
  by (induction us) auto

lemma same_kid:
  "distinct (forest_addrs us) \<Longrightarrow> u \<in> set us \<Longrightarrow> v \<in> set us \<Longrightarrow> b \<in> set (addrs u) \<Longrightarrow> b \<in> set (addrs v) \<Longrightarrow> u = v"
proof (induction us)
  case (Cons w us)
  then have apart: "set (addrs w) \<inter> set (forest_addrs us) = {}" and d: "distinct (forest_addrs us)" by simp_all
  have inside: "b \<in> set (forest_addrs us)" if "x \<in> set us" "b \<in> set (addrs x)" for x using that by (auto simp: forest_in)
  consider "u = w" "v = w" | "u \<in> set us" "v \<in> set us" | "u = w" "v \<in> set us" | "u \<in> set us" "v = w"
    using Cons.prems by auto
  then show ?case
  proof cases
    case 2
    then show ?thesis using Cons.IH d Cons.prems by blast
  next
    case 3
    then show ?thesis using apart inside Cons.prems by blast
  next
    case 4
    then show ?thesis using apart inside Cons.prems by blast
  qed simp
qed simp

text \<open>Where the inode \<open>a\<close> is in a tree: its subtree, and the ring it is in.\<close>

lemma subtree_at:
  assumes "tree_at fs q t" and "distinct (addrs t)" and "a \<in> set (addrs t)"
  shows "\<exists>s q'. tree_at fs q' s \<and> addr s = a \<and> subtree_addrs a t = addrs s \<and> distinct (addrs s) \<and>
    (a = addr t \<and> q' = q \<or> (\<exists>p. q' = Some p \<and> p \<in> set (addrs t) \<and> p \<notin> set (addrs s) \<and> a \<in> set (sub_inodes fs p) \<and>
       distinct (sub_inodes fs p) \<and> (\<forall>b \<in> set (sub_inodes fs p). b \<in> set (addrs t))))"
  using assms
proof (induction t arbitrary: q)
  case (INode b us)
  show ?case
  proof (cases "a = b")
    case True
    then show ?thesis using INode.prems by (intro exI [of _ "INode b us"] exI [of _ q]) auto
  next
    case False
    then obtain u where u: "u \<in> set us" "a \<in> set (addrs u)" using INode.prems(3) by (auto simp: forest_in)
    have d: "distinct (forest_addrs us)" "b \<notin> set (forest_addrs us)" using INode.prems(2) by auto
    have at: "tree_at fs (Some b) u" "sub_inodes fs b = map addr us" using INode.prems(1) u(1) by (auto simp: forest_at_def)
    obtain s q' where s: "tree_at fs q' s" "addr s = a" "subtree_addrs a u = addrs s" "distinct (addrs s)"
        "a = addr u \<and> q' = Some b \<or> (\<exists>p. q' = Some p \<and> p \<in> set (addrs u) \<and> p \<notin> set (addrs s) \<and> a \<in> set (sub_inodes fs p) \<and>
           distinct (sub_inodes fs p) \<and> (\<forall>b \<in> set (sub_inodes fs p). b \<in> set (addrs u)))"
      using INode.IH [OF u(1) at(1) distinct_kids [OF d(1) u(1)] u(2)] by blast
    have other: "subtree_addrs a v = []" if "v \<in> set us" "v \<noteq> u" for v
      using that same_kid [OF d(1) u(1) that(1) u(2)] by (intro subtree_none) auto
    have "concat (map (subtree_addrs a) us) = addrs s"
    proof -
      obtain x y where us: "us = x @ u # y" using u(1) by (metis split_list)
      have "u \<notin> set x" "u \<notin> set y"
        using d(1) addr_in_forest [of u x] addr_in_forest [of u y] addr_in [of u] unfolding us by auto
      then have "subtree_addrs a v = []" if "v \<in> set x \<union> set y" for v using other that by (auto simp: us)
      then have "concat (map (subtree_addrs a) x) = []" "concat (map (subtree_addrs a) y) = []" by simp_all
      then show ?thesis using s(3) unfolding us map_append concat_append list.map concat.simps by (simp only: append_Nil append_Nil2)
    qed
    moreover have "set (addrs s) \<subseteq> set (addrs u)" using subtree_inside [of a u] s(3) by simp
    moreover have "c \<in> set (forest_addrs us)" if "c \<in> set (addrs u)" for c using u(1) that by (auto simp: forest_in)
    moreover have "distinct (map addr us)" "a = addr u \<Longrightarrow> a \<in> set (map addr us)" "\<forall>c \<in> set (map addr us). c \<in> set (forest_addrs us)"
      using distinct_addr [OF d(1)] u(1) addr_forest by auto
    ultimately show ?thesis using s d(2) at(2) False by (intro exI [of _ s] exI [of _ q']) (auto dest: subsetD)
  qed
qed

lemma prune_forest:
  assumes "distinct (addrs t)" and "addr t \<noteq> a"
  shows "set (addrs (prune a t)) = set (addrs t) - set (subtree_addrs a t) \<and> distinct (addrs (prune a t))"
  using assms
proof (induction t)
  case (INode b us)
  have d: "distinct (forest_addrs us)" "b \<notin> set (forest_addrs us)" "b \<noteq> a" using INode.prems by auto
  let ?us = "filter (\<lambda>u. addr u \<noteq> a) us"
  have each: "set (addrs (prune a u)) = set (addrs u) - set (subtree_addrs a u) \<and> distinct (addrs (prune a u))" if "u \<in> set ?us" for u
    using INode.IH [of u] that distinct_kids [OF d(1), of u] by auto
  have "distinct (forest_addrs (map (prune a) ?us)) \<and>
      set (forest_addrs (map (prune a) ?us)) = set (forest_addrs us) - set (concat (map (subtree_addrs a) us))"
    using d(1) each
  proof (induction us)
    case Nil
    then show ?case by simp
  next
    case (Cons u us)
    have IH: "distinct (forest_addrs (map (prune a) (filter (\<lambda>u. addr u \<noteq> a) us))) \<and>
        set (forest_addrs (map (prune a) (filter (\<lambda>u. addr u \<noteq> a) us))) = set (forest_addrs us) - set (concat (map (subtree_addrs a) us))"
      using Cons by auto
    have sub: "set (subtree_addrs a u) \<subseteq> set (addrs u)" "set (concat (map (subtree_addrs a) us)) \<subseteq> set (forest_addrs us)"
      using subtree_inside by (fastforce simp: forest_in)+
    have disj: "set (addrs u) \<inter> set (forest_addrs us) = {}" using Cons.prems(1) by auto
    show ?case
    proof (cases "addr u = a")
      case True
      then have "subtree_addrs a u = addrs u" by (cases u) simp
      then show ?thesis using IH True sub disj by auto
    next
      case False
      then have "set (addrs (prune a u)) = set (addrs u) - set (subtree_addrs a u)" "distinct (addrs (prune a u))" using Cons.prems(2) by auto
      then show ?thesis using IH False sub disj by auto
    qed
  qed
  then show ?case using d subtree_inside by (auto simp: forest_in)
qed

text \<open>A heap in which a subtree is gone.\<close>

lemma tree_pruned:
  assumes "tree_at fs q t" and "distinct (addrs t)" and "addr t \<noteq> a"
    and "\<And>b. b \<in> set (addrs t) \<Longrightarrow> b \<notin> set (subtree_addrs a t) \<Longrightarrow> inodes fs' b = inodes fs b \<and>
      sub_inodes fs' b = remove1 a (sub_inodes fs b)"
  shows "tree_at fs' q (prune a t)"
  using assms
proof (induction t arbitrary: q)
  case (INode b us)
  have d: "distinct (forest_addrs us)" "b \<notin> set (forest_addrs us)" "b \<noteq> a" using INode.prems by auto
  have ba: "b \<notin> set (subtree_addrs a (INode b us))" using d(2,3) subtree_inside by (auto simp: forest_in)
  have b: "inodes fs' b = inodes fs b" "sub_inodes fs' b = remove1 a (map addr us)"
    using INode.prems(4) [of b] INode.prems(1) ba by simp_all
  have "remove1 a (map addr us) = map addr (filter (\<lambda>u. addr u \<noteq> a) us)"
    using distinct_addr [OF d(1)] by (simp add: distinct_remove1_removeAll removeAll_filter_not_eq filter_map comp_def) (metis (mono_tags, lifting))
  moreover have "tree_at fs' (Some b) (prune a u)" if u: "u \<in> set us" "addr u \<noteq> a" for u
  proof (rule INode.IH [OF u(1) _ distinct_kids [OF d(1) u(1)] u(2)])
    show "tree_at fs (Some b) u" using INode.prems(1) u(1) by (auto simp: forest_at_def)
    fix c assume c: "c \<in> set (addrs u)" "c \<notin> set (subtree_addrs a u)"
    have "c \<notin> set (subtree_addrs a v)" if "v \<in> set us" for v
      using c subtree_inside [of a v] same_kid [OF d(1) u(1) that c(1)] by auto
    then have "c \<notin> set (subtree_addrs a (INode b us))" using d(3) by auto
    moreover have "c \<in> set (addrs (INode b us))" using c(1) u(1) by (auto simp: forest_in)
    ultimately show "inodes fs' c = inodes fs c \<and> sub_inodes fs' c = remove1 a (sub_inodes fs c)" using INode.prems(4) by blast
  qed
  ultimately show ?case using INode.prems(1) b by (auto simp: forest_at_def)
qed

end
