(* ===== verification/Cofs_Inodes.thy ===== *)
theory Cofs_Inodes
  imports Cofs_Tree
begin

text \<open>
  What the operations of \<open>filesystem.c\<close> do to the tree of inodes: an inode that is allocated is a new
  leaf with a number of its own, a number finds its inode, an inode that is forgotten takes its
  subtree with it, and the order in which a file system is torn down.
\<close>

section \<open>The tree of a file system\<close>

definition fs_repr :: "co_filesystem \<Rightarrow> itree \<Rightarrow> bool" where
  "fs_repr fs t \<longleftrightarrow>
     tables_ok fs \<and> tree_at fs None t \<and> distinct (addrs t) \<and> dom (inodes fs) = set (addrs t) \<and>
     fs_root fs = Some (addr t) \<and> number_of fs (addr t) = Some 1"

lemma child_parent:
  "tree_at fs q t \<Longrightarrow> p \<in> set (addrs t) \<Longrightarrow> b \<in> set (sub_inodes fs p) \<Longrightarrow> \<exists>obj. inodes fs b = Some obj \<and> inode_parent obj = Some p"
proof (induction t arbitrary: q)
  case (INode a us)
  show ?case
  proof (cases "p = a")
    case True
    then show ?thesis using INode.prems by (auto simp: forest_at_def dest: root_object)
  next
    case False
    then show ?thesis using INode by (auto simp: forest_in forest_at_def)
  qed
qed

lemma inner_parent:
  "tree_at fs q t \<Longrightarrow> b \<in> set (addrs t) \<Longrightarrow> b \<noteq> addr t \<Longrightarrow>
     \<exists>obj p. inodes fs b = Some obj \<and> inode_parent obj = Some p \<and> p \<in> set (addrs t)"
proof (induction t arbitrary: q)
  case (INode a us)
  then obtain u where u: "u \<in> set us" "b \<in> set (addrs u)" by (auto simp: forest_in)
  have at: "tree_at fs (Some a) u" using INode.prems(1) u(1) by (auto simp: forest_at_def)
  have inside: "c \<in> set (addrs (INode a us))" if "c \<in> set (addrs u)" for c using u(1) that by (auto simp: forest_in)
  show ?case
  proof (cases "b = addr u")
    case True
    then show ?thesis using root_object [OF at] by auto
  next
    case False
    then show ?thesis using INode.IH [OF u(1) at u(2)] inside by blast
  qed
qed

section \<open>Forgetting\<close>

text \<open>The freed subtree: \<open>s\<close> is in the ring of \<open>p\<close>, whose inodes outside \<open>s\<close> stay.\<close>

lemma subtree_freed:
  assumes ok: "tables_ok fs" and s: "tree_at fs (Some p) s" "distinct (addrs s)"
    and p: "alive fs p" "p \<notin> set (addrs s)" "addr s \<in> set (sub_inodes fs p)" "distinct (sub_inodes fs p)"
    and ring: "\<forall>b \<in> set (sub_inodes fs p). \<exists>obj. inodes fs b = Some obj \<and> inode_parent obj = Some p"
  shows "\<exists>fs'. free_inode_with_children fs (addr s) = Some fs' \<and> tables_ok fs' \<and> same_mount fs fs' \<and>
    (\<forall>b \<in> set (addrs s). inodes fs' b = None) \<and>
    (\<forall>b. b \<notin> set (addrs s) \<longrightarrow> inodes fs' b = inodes fs b \<and> sub_inodes fs' b = (if b = p then remove1 (addr s) (sub_inodes fs p) else sub_inodes fs b))"
proof -
  obtain a us where a: "s = INode a us" by (cases s)
  obtain obj where obj: "inodes fs a = Some obj" "inode_parent obj = Some p" using s(1) by (auto simp: a)
  have sep: "a \<notin> set (forest_addrs us)" "distinct (forest_addrs us)" "p \<noteq> a" "p \<notin> set (forest_addrs us)" using s(2) p(2) by (auto simp: a)
  have "owns fs (Some a) us" using s(1) sep obj by (auto simp: a owns_def alive_def)
  then obtain fs1 where r1: "free_inode_children 0 (Some a) (sub_inodes fs a) [] fs = Some (map addr (rev (below 6 us)), fs1)" "forest_freed 6 (Some a) us fs fs1"
    using children_freed [of 0 6 fs "Some a" us "[]"] ok s(1) by (auto simp: a later_ok_def rev_below)
  have "inodes fs1 a = Some obj" "alive fs1 p" "sub_inodes fs1 p = sub_inodes fs p"
    using r1(2) sep obj p(1) by (simp_all add: forest_freed_def alive_def)
  moreover have "alive fs1 b" if "b \<in> set (sub_inodes fs p)" for b
  proof -
    obtain ob where ob: "inodes fs b = Some ob" "inode_parent ob = Some p" using ring \<open>b \<in> set (sub_inodes fs p)\<close> by blast
    have "b \<notin> set (forest_addrs us)"
    proof
      assume "b \<in> set (forest_addrs us)"
      then have "b \<in> set (addrs s)" "b \<noteq> addr s" using sep by (auto simp: a)
      then show False using inner_parent [OF s(1)] ob p(2) by fastforce
    qed
    then show ?thesis using r1(2) ob by (simp add: forest_freed_def alive_def)
  qed
  ultimately obtain fs2 where r2: "free_inode fs1 a = Some fs2" "tables_ok fs2" "same_mount fs1 fs2" "inodes fs2 = (inodes fs1)(a := None)"
      "sub_inodes fs2 = freed_child a (Some p) (sub_inodes fs1)"
    using free_inode_ok [of fs1 a obj] r1(2) obj p(3,4) by (auto simp: forest_freed_def a)
  have inside: "set (forest_addrs (below 6 us)) \<subseteq> set (forest_addrs us)" by (rule below_addrs)
  then have "untouched (set (forest_addrs (below 6 us))) fs1 fs2"
    using r2(4,5) sep by (auto simp: untouched_def freed_child_def)
  then have "forest_at fs2 None (rev (below 6 us))" using forest_untouched r1(2) by (simp add: forest_freed_def)
  then obtain fs3 where r3: "free_rounds (map addr (rev (below 6 us))) fs2 = Some fs3" "forest_gone (rev (below 6 us)) fs2 fs3"
    using rounds_free [OF r2(2)] below_distinct [OF sep(2)] by (metis rev_below(3))
  have "free_inode_with_children fs (addr s) = Some fs3"
    using obj(1) r1(1) r2(1) r3(1) by (simp add: free_inode_with_children_def a)
  moreover have "tables_ok fs3" "same_mount fs fs3"
    using r1(2) r2(3) r3(2) same_mount_trans by (auto simp: forest_freed_def forest_gone_def)
  moreover have "inodes fs3 b = None" if "b \<in> set (addrs s)" for b
  proof (cases "b \<in> set (forest_addrs (below 6 us))")
    case True
    then show ?thesis using r3(2) by (simp add: forest_gone_def rev_below)
  next
    case False
    then have "inodes fs3 b = inodes fs2 b" using r3(2) by (simp add: forest_gone_def rev_below)
    then show ?thesis using r2(4) r1(2) that False by (auto simp: forest_freed_def a)
  qed
  moreover have "inodes fs3 b = inodes fs b \<and> sub_inodes fs3 b = (if b = p then remove1 (addr s) (sub_inodes fs p) else sub_inodes fs b)"
    if "b \<notin> set (addrs s)" for b
  proof -
    have b: "b \<noteq> a" "b \<notin> set (forest_addrs us)" "b \<notin> set (forest_addrs (below 6 us))" using that inside by (auto simp: a)
    then have "inodes fs3 b = inodes fs2 b" "sub_inodes fs3 b = sub_inodes fs2 b" using r3(2) by (simp_all add: forest_gone_def rev_below)
    moreover have "inodes fs1 b = inodes fs b" "sub_inodes fs1 b = sub_inodes fs b" using r1(2) b by (simp_all add: forest_freed_def)
    ultimately show ?thesis using r2(4,5) b(1) by (auto simp: freed_child_def a)
  qed
  ultimately show ?thesis by blast
qed

lemma forget_prunes:
  assumes "fs_repr fs t" and "a \<in> set (addrs t)" and "a \<noteq> addr t"
  shows "\<exists>fs'. free_inode_with_children fs a = Some fs' \<and> fs_repr fs' (prune a t) \<and> same_mount fs fs'"
proof -
  have t: "tables_ok fs" "tree_at fs None t" "distinct (addrs t)" "dom (inodes fs) = set (addrs t)" "fs_root fs = Some (addr t)"
      "number_of fs (addr t) = Some 1"
    using assms(1) by (simp_all add: fs_repr_def)
  obtain s p where s: "tree_at fs (Some p) s" "addr s = a" "subtree_addrs a t = addrs s" "distinct (addrs s)"
    and p: "p \<in> set (addrs t)" "p \<notin> set (addrs s)" "a \<in> set (sub_inodes fs p)" "distinct (sub_inodes fs p)"
    using subtree_at [OF t(2,3) assms(2)] assms(3) by auto
  have ring: "\<forall>b \<in> set (sub_inodes fs p). \<exists>obj. inodes fs b = Some obj \<and> inode_parent obj = Some p"
    using child_parent [OF t(2) p(1)] by blast
  have "alive fs p" using tree_alive [OF t(2) p(1)] .
  then obtain fs' where r: "free_inode_with_children fs a = Some fs'" "tables_ok fs'" "same_mount fs fs'"
      "\<forall>b \<in> set (addrs s). inodes fs' b = None"
      "\<forall>b. b \<notin> set (addrs s) \<longrightarrow> inodes fs' b = inodes fs b \<and> sub_inodes fs' b = (if b = p then remove1 a (sub_inodes fs p) else sub_inodes fs b)"
    using subtree_freed [OF t(1) s(1,4) _ p(2)] p ring by (auto simp: s(2))
  have "sub_inodes fs' b = remove1 a (sub_inodes fs b)" if b: "b \<in> set (addrs t)" "b \<notin> set (addrs s)" for b
  proof (cases "b = p")
    case True
    then show ?thesis using r(5) b by simp
  next
    case False
    then have "a \<notin> set (sub_inodes fs b)" using child_parent [OF t(2) b(1)] child_parent [OF t(2) p(1) p(3)] by fastforce
    then show ?thesis using r(5) b False by (simp add: remove1_idem)
  qed
  then have at: "tree_at fs' None (prune a t)" using tree_pruned [OF t(2,3)] assms(3) r(5) by (metis s(3))
  have pr: "set (addrs (prune a t)) = set (addrs t) - set (addrs s)" "distinct (addrs (prune a t))"
    using prune_forest [OF t(3), of a] assms(3) s(3) by auto
  have "inodes fs' b \<noteq> None \<longleftrightarrow> b \<in> set (addrs (prune a t))" for b
    using r(4,5) t(4) pr(1) by (cases "b \<in> set (addrs s)") auto
  then have "dom (inodes fs') = set (addrs (prune a t))" by (auto simp: dom_def)
  moreover have "addr t \<in> set (addrs (prune a t))" using addr_in [of "prune a t"] by simp
  then have "number_of fs' (addr t) = Some 1" using r(5) t(6) pr(1) by (simp add: number_of_def)
  ultimately show ?thesis using r at pr t(5) by (auto simp: fs_repr_def same_mount_def)
qed

section \<open>Numbers and names\<close>

lemma each_number_scan:
  assumes "\<forall>a \<in> set as. alive fs a"
  shows "each_number (inodes fs) ino as = Some (find (\<lambda>a. number_of fs a = Some ino) as)"
  using assms by (induction as) (auto simp: number_of_def alive_def)

text \<open>A number from 1 on finds the inode that has it.\<close>

lemma number_finds:
  assumes "fs_repr fs t" and "1 \<le> ino"
  shows "ino_num_to_inode ino fs =
    Some (if \<exists>a. number_of fs a = Some ino then Some (THE a. number_of fs a = Some ino) else None)"
proof -
  have ok: "tables_ok fs" and root: "fs_root fs = Some (addr t)" "number_of fs (addr t) = Some 1" using assms(1) by (simp_all add: fs_repr_def)
  have unique: "a = b" if "number_of fs a = Some n" "number_of fs b = Some n" for a b n
    using ok that unfolding tables_ok_number by blast
  have the: "(THE a. number_of fs a = Some n) = b" if "number_of fs b = Some n" for b n
    using unique that by (intro the_equality) blast+
  show ?thesis
  proof (cases "ino = 1")
    case True
    then show ?thesis using root the [OF root(2)] by (auto simp: ino_num_to_inode_def)
  next
    case False
    let ?ring = "inode_hashes fs (bucket ino)"
    have ring: "set ?ring = {a. \<exists>n. number_of fs a = Some n \<and> bucket n = bucket ino}" using ok unfolding tables_ok_number by blast
    then have "\<forall>a \<in> set ?ring. alive fs a" by (auto simp: number_of_def alive_def)
    then have scan: "ino_num_to_inode ino fs = Some (find (\<lambda>a. number_of fs a = Some ino) ?ring)"
      using False assms(2) by (simp add: ino_num_to_inode_def each_number_scan bucket_def)
    show ?thesis
    proof (cases "find (\<lambda>a. number_of fs a = Some ino) ?ring")
      case None
      then have "number_of fs a \<noteq> Some ino" for a using ring by (auto simp: find_None_iff)
      then show ?thesis using scan None by simp
    next
      case (Some a)
      then have "number_of fs a = Some ino" by (auto simp: find_Some_iff)
      then show ?thesis using scan Some the by auto
    qed
  qed
qed

lemma inode_found:
  assumes "fs_repr fs t" and "inodes fs a = Some obj"
  shows "ino_num_to_inode (inode_number obj) fs = Some (Some a)"
proof -
  have n: "number_of fs a = Some (inode_number obj)" using assms(2) by (simp add: number_of_def)
  have ok: "tables_ok fs" using assms(1) by (simp add: fs_repr_def)
  then have "1 \<le> inode_number obj" using n unfolding tables_ok_number by blast
  moreover have "(THE a. number_of fs a = Some (inode_number obj)) = a"
    using ok n unfolding tables_ok_number by (intro the_equality) blast+
  ultimately show ?thesis using number_finds [OF assms(1)] n by auto
qed

text \<open>The counter is ahead of all the numbers, so that the loop of \<open>alloc_inode\<close> takes the first.\<close>

lemma next_is_free:
  assumes "fs_repr fs t" and "next_inode_num fs < 2 ^ 31 - 1"
    and "inodes fs' = inodes fs" "inode_hashes fs' = inode_hashes fs" "fs_root fs' = fs_root fs" "next_inode_num fs' = next_inode_num fs"
  shows "free_number fs' = Some (next_inode_num fs, fs'\<lparr>next_inode_num := next_inode_num fs + 1\<rparr>)"
proof -
  let ?n = "next_inode_num fs"
  have ok: "tables_ok fs" using assms(1) by (simp add: fs_repr_def)
  have ahead: "number_of fs a \<noteq> Some ?n" for a using ok unfolding tables_ok_number by force
  have "1 < ?n" using ok assms(1) unfolding tables_ok_number by (auto simp: fs_repr_def)
  then have "ino_num_to_inode ?n fs = Some None" using number_finds [OF assms(1), of ?n] ahead by simp
  moreover have "ino_num_to_inode ?n (fs'\<lparr>next_inode_num := ?n + 1\<rparr>) = ino_num_to_inode ?n fs"
    by (simp add: ino_num_to_inode_def assms)
  ultimately show ?thesis using assms(2,6) by (subst free_number.simps) (simp add: Let_def)
qed

section \<open>A new inode\<close>

fun graft :: "nat \<Rightarrow> itree \<Rightarrow> itree \<Rightarrow> itree" where
  "graft p new (INode a us) = INode a (map (graft p new) us @ (if a = p then [new] else []))"

lemma graft_addr [simp]: "addr (graft p new t) = addr t"
  by (cases t) simp

lemma graft_addrs:
  "set (addrs (graft p new t)) = set (addrs t) \<union> (if p \<in> set (addrs t) then set (addrs new) else {})"
proof (induction t)
  case (INode a us)
  have "set (forest_addrs (map (graft p new) us)) = set (forest_addrs us) \<union> (if p \<in> set (forest_addrs us) then set (addrs new) else {})"
    using INode.IH by (induction us) auto
  then show ?case by auto
qed

lemma graft_forest:
  "set (forest_addrs (map (graft p new) us)) = set (forest_addrs us) \<union> (if p \<in> set (forest_addrs us) then set (addrs new) else {})"
  by (induction us) (auto simp: graft_addrs)

lemma graft_distinct:
  assumes "distinct (addrs t)" and "distinct (addrs new)" and "set (addrs new) \<inter> set (addrs t) = {}"
  shows "distinct (addrs (graft p new t))"
  using assms
proof (induction t)
  case (INode a us)
  have "distinct (forest_addrs (map (graft p new) us))"
    if "distinct (forest_addrs us)" "set (addrs new) \<inter> set (forest_addrs us) = {}" "\<And>u. u \<in> set us \<Longrightarrow> distinct (addrs (graft p new u))"
    using that
  proof (induction us)
    case (Cons u us)
    have "set (addrs u) \<inter> set (forest_addrs us) = {}" "set (addrs new) \<inter> (set (addrs u) \<union> set (forest_addrs us)) = {}"
      using Cons.prems(1,2) by auto
    then have "set (addrs (graft p new u)) \<inter> set (forest_addrs (map (graft p new) us)) = {}"
      unfolding graft_addrs graft_forest by auto
    then show ?case using Cons by (auto simp: Int_Un_distrib)
  qed simp
  moreover have "distinct (addrs (graft p new u))" if "u \<in> set us" for u
  proof (rule INode.IH [OF that _ INode.prems(2)])
    show "distinct (addrs u)" using INode.prems(1) distinct_kids [of us u] that by simp
    have "set (addrs u) \<subseteq> set (addrs (INode a us))" using that by (auto simp: forest_in)
    then show "set (addrs new) \<inter> set (addrs u) = {}" using INode.prems(3) by blast
  qed
  ultimately have "distinct (forest_addrs (map (graft p new) us))" using INode.prems by auto
  then show ?case using INode.prems by (auto simp: graft_forest)
qed

lemma tree_grafted:
  assumes "tree_at fs q t" and "tree_at fs' (Some p) new"
    and "\<forall>b \<in> set (addrs t). inodes fs' b = inodes fs b \<and> sub_inodes fs' b = sub_inodes fs b @ (if b = p then [addr new] else [])"
  shows "tree_at fs' q (graft p new t)"
  using assms
proof (induction t arbitrary: q)
  case (INode a us)
  have "tree_at fs' (Some a) (graft p new u)" if u: "u \<in> set us" for u
  proof (rule INode.IH [OF u _ INode.prems(2)])
    show "tree_at fs (Some a) u" using INode.prems(1) u by (simp add: forest_at_def)
    have "b \<in> set (addrs (INode a us))" if "b \<in> set (addrs u)" for b using u that by (auto simp: forest_in)
    then show "\<forall>b \<in> set (addrs u). inodes fs' b = inodes fs b \<and> sub_inodes fs' b = sub_inodes fs b @ (if b = p then [addr new] else [])"
      using INode.prems(3) by blast
  qed
  then show ?case using INode.prems by (auto simp: forest_at_def comp_def)
qed

lemma tables_added:
  assumes "tables_ok fs" and "1 \<le> next_inode_num fs" and "number_of fs' = (number_of fs)(next_object fs \<mapsto> next_inode_num fs)"
    and "list_inodes fs' = list_inodes fs @ [next_object fs]" and "inodes_count fs' = inodes_count fs + 1"
    and "inode_hashes fs' = (inode_hashes fs)(bucket (next_inode_num fs) := inode_hashes fs (bucket (next_inode_num fs)) @ [next_object fs])"
    and "next_object fs' = next_object fs + 1" and "next_inode_num fs' = next_inode_num fs + 1"
  shows "tables_ok fs'"
proof -
  let ?a = "next_object fs" and ?n = "next_inode_num fs"
  have old: "number_of fs a = Some n \<Longrightarrow> a < ?a \<and> 1 \<le> n \<and> n < ?n" for a n using assms(1) unfolding tables_ok_number by blast
  then have new: "number_of fs ?a = None" by (metis less_irrefl option.exhaust)
  have hashes: "distinct (inode_hashes fs b)" "set (inode_hashes fs b) = {a. \<exists>n. number_of fs a = Some n \<and> bucket n = b}" for b
    using assms(1) unfolding tables_ok_number by blast+
  have "distinct (inode_hashes fs' b) \<and> set (inode_hashes fs' b) = {a. \<exists>n. number_of fs' a = Some n \<and> bucket n = b}" for b
    using hashes new unfolding assms(3,6) by auto
  moreover have "a = b" if "number_of fs' a = Some n" "number_of fs' b = Some n" for a b n
    using that old assms(1) unfolding assms(3) tables_ok_number by (fastforce split: if_splits)
  moreover have "a < next_object fs' \<and> 1 \<le> n \<and> n < next_inode_num fs'" if "number_of fs' a = Some n" for a n
    using that old assms(2) unfolding assms(3,7,8) by (fastforce split: if_splits)
  moreover have "distinct (list_inodes fs')" "set (list_inodes fs') = dom (number_of fs')" "inodes_count fs' = int (length (list_inodes fs'))"
    using assms(1) new unfolding assms(3-5) tables_ok_number by auto
  ultimately show ?thesis unfolding tables_ok_number by blast
qed

text \<open>The result of an allocation, and what is in the heap before the name is allocated.\<close>

definition leaf_added :: "co_filesystem \<Rightarrow> nat \<Rightarrow> string \<Rightarrow> bool list \<Rightarrow> co_filesystem" where
  "leaf_added fs p name rooms =
     (let a = next_object fs; n = next_inode_num fs; b = bucket n
      in fs\<lparr>inodes := (inodes fs)(a \<mapsto> \<lparr>inode_parent = Some p, inode_name = Some name, inode_names = None, inode_number = n\<rparr>),
           sub_inodes := (sub_inodes fs)(a := [], p := sub_inodes fs p @ [a]), list_inodes := list_inodes fs @ [a],
           inode_hashes := (inode_hashes fs)(b := inode_hashes fs b @ [a]), inodes_count := inodes_count fs + 1,
           next_inode_num := n + 1, next_object := a + 1, fs_rooms := rooms, live_blocks := live_blocks fs + 2\<rparr>)"

lemma next_fresh: "fs_repr fs t \<Longrightarrow> inodes fs (next_object fs) = None \<and> next_object fs \<notin> set (addrs t) \<and> 1 \<le> next_inode_num fs"
proof -
  assume r: "fs_repr fs t"
  have old: "inodes fs a = Some obj \<Longrightarrow> a < next_object fs" for a obj using r by (auto simp: fs_repr_def tables_ok_def)
  then have "inodes fs (next_object fs) = None" by (metis less_irrefl option.exhaust)
  moreover have "1 \<le> next_inode_num fs" using r unfolding fs_repr_def tables_ok_number by force
  ultimately show ?thesis using r by (auto simp: fs_repr_def)
qed

lemma repr_members:
  assumes "fs_repr fs t"
  shows "\<forall>a \<in> set (list_inodes fs). alive fs a" "\<forall>a \<in> set (inode_hashes fs b). alive fs a"
    "p \<in> set (addrs t) \<Longrightarrow> alive fs p \<and> (\<forall>a \<in> set (sub_inodes fs p). alive fs a)"
proof -
  show "\<forall>a \<in> set (list_inodes fs). alive fs a" "\<forall>a \<in> set (inode_hashes fs b). alive fs a"
    using assms by (auto simp: fs_repr_def tables_ok_def alive_def)
  show "alive fs p \<and> (\<forall>a \<in> set (sub_inodes fs p). alive fs a)" if "p \<in> set (addrs t)"
    using assms that child_parent [of fs None t p] tree_alive [of fs None t p] by (fastforce simp: fs_repr_def alive_def)
qed

lemma leaf_added_repr:
  assumes "fs_repr fs t" and "p \<in> set (addrs t)"
  shows "fs_repr (leaf_added fs p name rooms) (graft p (INode (next_object fs) []) t)"
proof -
  let ?a = "next_object fs" and ?fs = "leaf_added fs p name rooms" and ?new = "INode (next_object fs) []"
  have new: "inodes fs ?a = None" "?a \<notin> set (addrs t)" "1 \<le> next_inode_num fs" "p \<noteq> ?a" using next_fresh [OF assms(1)] assms(2) by auto
  have "number_of ?fs = (number_of fs)(?a \<mapsto> next_inode_num fs)" by (auto simp: number_of_def leaf_added_def Let_def fun_eq_iff)
  moreover have "tables_ok fs" using assms(1) by (simp add: fs_repr_def)
  ultimately have "tables_ok ?fs" using tables_added [of fs ?fs] new(3) by (simp add: leaf_added_def Let_def)
  moreover have "tree_at ?fs None (graft p ?new t)"
  proof (rule tree_grafted)
    show "tree_at fs None t" using assms(1) by (simp add: fs_repr_def)
    show "tree_at ?fs (Some p) ?new" using new(4) by (simp add: leaf_added_def Let_def)
    show "\<forall>b \<in> set (addrs t). inodes ?fs b = inodes fs b \<and> sub_inodes ?fs b = sub_inodes fs b @ (if b = p then [addr ?new] else [])"
      using new(2) by (auto simp: leaf_added_def Let_def)
  qed
  moreover have "distinct (addrs (graft p ?new t))"
    using graft_distinct [of t ?new p] assms(1) new(2) by (simp add: fs_repr_def)
  moreover have "dom (inodes ?fs) = set (addrs (graft p ?new t))"
    using assms by (auto simp: graft_addrs fs_repr_def leaf_added_def Let_def)
  moreover have "addr t \<noteq> ?a" using new(2) addr_in [of t] by auto
  ultimately show ?thesis using assms(1) by (auto simp: fs_repr_def number_of_def leaf_added_def Let_def)
qed

lemma ring_del_last: "\<forall>a \<in> set xs. live a \<Longrightarrow> x \<notin> set xs \<Longrightarrow> head_alive \<Longrightarrow> ring_del head_alive live x (xs @ [x]) = Some xs"
  using ring_del_at [of x xs head_alive live "[]"] by auto

lemma alloc_inode_cases:
  assumes "fs_repr fs t" and "p \<in> set (addrs t)" and "next_inode_num fs < 2 ^ 31 - 1" and "fs_rooms fs = r1 # r2 # rooms"
  shows "alloc_inode fs (Some p) (Some name) =
    Some (if \<not> r1 then (None, fs\<lparr>fs_rooms := r2 # rooms\<rparr>)
      else if \<not> r2 then
        (None, fs\<lparr>sub_inodes := (sub_inodes fs)(next_object fs := []), next_inode_num := next_inode_num fs + 1,
          next_object := next_object fs + 1, fs_rooms := rooms\<rparr>)
      else (Some (next_object fs), leaf_added fs p name rooms))"
proof (cases r1)
  case False
  then show ?thesis using assms(4) by (simp add: alloc_inode_def fs_malloc_def alloc_def)
next
  case r1: True
  let ?a = "next_object fs" and ?n = "next_inode_num fs" and ?ring = "sub_inodes fs p"
  have new: "inodes fs ?a = None" "?a \<notin> set (addrs t)" "p \<noteq> ?a" using next_fresh [OF assms(1)] assms(2) by auto
  have old: "alive fs p" "\<forall>b \<in> set ?ring. alive fs b" "?a \<notin> set ?ring"
    using repr_members(3) [OF assms(1,2)] new(1) by (auto simp: alive_def)
  let ?fs0 = "fs\<lparr>fs_rooms := r2 # rooms, live_blocks := live_blocks fs + 1, next_object := ?a + 1\<rparr>"
  have number: "free_number ?fs0 = Some (?n, ?fs0\<lparr>next_inode_num := ?n + 1\<rparr>)"
    using assms(1,3) by (rule next_is_free) simp_all
  let ?obj = "\<lparr>inode_parent = Some p, inode_name = None, inode_names = None, inode_number = ?n\<rparr>"
  let ?fs1 = "?fs0\<lparr>next_inode_num := ?n + 1, inodes := (inodes fs)(?a \<mapsto> ?obj), sub_inodes := (sub_inodes fs)(?a := [])\<rparr>"
  have live: "alive ?fs1 b" if "alive fs b" for b using that by (simp add: alive_def)
  have child: "add_child p ?a ?fs1 = Some (?fs1\<lparr>sub_inodes := (sub_inodes fs)(?a := [], p := ?ring @ [?a])\<rparr>)"
  proof -
    have "?ring \<noteq> [] \<Longrightarrow> alive ?fs1 (last ?ring)" "alive ?fs1 p" by (rule live, use old in simp)+
    then show ?thesis using new(3) by (cases "?ring = []") (simp_all add: add_child_def ring_add_tail_def)
  qed
  show ?thesis
  proof (cases r2)
    case False
    have "(sub_inodes fs)(?a := [], p := ?ring) = (sub_inodes fs)(?a := [])" "(inodes fs)(?a := None) = inodes fs"
      using new by (auto simp: fun_eq_iff)
    moreover have "p \<noteq> ?a \<and> inodes fs p \<noteq> None" "\<forall>b \<in> set ?ring. inodes fs b \<noteq> None" using new(3) old by (simp_all add: alive_def)
    ultimately show ?thesis
      using r1 False assms(4) number child old(3)
      by (simp add: alloc_inode_def fs_malloc_def alloc_def fs_free_def Let_def del_child_def ring_del_last alive_def)
  next
    case True
    have tails: "ring_add_tail l ?a (list_inodes fs) = Some (list_inodes fs @ [?a])"
        "ring_add_tail l ?a (inode_hashes fs (bucket ?n)) = Some (inode_hashes fs (bucket ?n) @ [?a])"
      if "\<And>b. alive fs b \<Longrightarrow> l b" for l
      using repr_members(1) [OF assms(1)] repr_members(2) [OF assms(1), of "bucket ?n"] that [of "last (list_inodes fs)"]
        that [of "last (inode_hashes fs (bucket ?n))"]
      by (cases "list_inodes fs = []"; cases "inode_hashes fs (bucket ?n) = []"; simp add: ring_add_tail_def)+
    show ?thesis
      using r1 True assms(4) number child tails
      by (simp add: alloc_inode_def fs_malloc_def alloc_def Let_def leaf_added_def alive_def)
  qed
qed

section \<open>A new file system\<close>

definition fs_named :: "co_filesystem \<Rightarrow> itree \<Rightarrow> bool" where
  "fs_named fs t \<longleftrightarrow> (\<forall>a obj. inodes fs a = Some obj \<longrightarrow> (inode_name obj = None \<longleftrightarrow> a = addr t))"

definition new_filesystem :: "bool list \<Rightarrow> string \<Rightarrow> co_filesystem" where
  "new_filesystem rooms pathname =
     \<lparr>inodes = [0 \<mapsto> \<lparr>inode_parent = None, inode_name = None, inode_names = None, inode_number = 1\<rparr>], sub_inodes = (\<lambda>a. []),
      list_inodes = [0], inode_hashes = (\<lambda>b. [])(1 := [0]), fs_root = Some 0, inodes_count = 1, next_inode_num = 2,
      desc_pathname = pathname, base_path = pathname, fs_uid = 0, fs_gid = 0, dir_mode = 0, file_mode = 0, fs_flags = 0,
      next_object = 1, fs_rooms = rooms, live_blocks = 2\<rparr>"

lemma init_new: "co_monitor_file_system_init (True # True # rooms) pathname = Some (CO_RC_OK, Some (new_filesystem rooms pathname))"
proof -
  have number: "free_number fs = Some (1, fs\<lparr>next_inode_num := 2\<rparr>)" if "next_inode_num fs = 1" "fs_root fs = None" for fs
    using that by (subst free_number.simps) (simp add: ino_num_to_inode_def Let_def)
  have "(\<lambda>a. []::nat list)(0 := []) = (\<lambda>a. [])" by auto
  then show ?thesis
    by (simp add: co_monitor_file_system_init_def alloc_inode_def fs_malloc_def alloc_def number Let_def ring_add_tail_def
      bucket_def CO_FS_HASH_TABLE_SIZE_def new_filesystem_def)
qed

lemma new_repr: "fs_repr (new_filesystem rooms pathname) (INode 0 []) \<and> fs_named (new_filesystem rooms pathname) (INode 0 [])"
  by (auto simp: fs_repr_def fs_named_def new_filesystem_def tables_ok_def number_of_def bucket_def CO_FS_HASH_TABLE_SIZE_def split: if_splits)

lemma leaf_added_named:
  "fs_repr fs t \<Longrightarrow> fs_named fs t \<Longrightarrow> fs_named (leaf_added fs p name rooms) (graft p (INode (next_object fs) []) t)"
  using next_fresh [of fs t] addr_in [of t] by (auto simp: fs_named_def leaf_added_def Let_def split: if_splits)

text \<open>
  C15: FORGET of an inode other than the root succeeds and frees exactly the inode and those below
  it: in every file system whose rings and tables represent a tree of inodes, whatever its depth
  (the recursion is cut at six levels, and the rest is freed in rounds). What is left represents the
  tree without the subtree, and no freed inode is used on the way.
\<close>

theorem forget_frees_the_subtree:
  assumes "fs_repr fs t" and "a \<in> set (addrs t)" and "a \<noteq> addr t"
  shows "\<exists>fs'. inode_forget fs (Some a) = Some (CO_RC_OK, fs') \<and> fs_repr fs' (prune a t) \<and>
    dom (inodes fs') = dom (inodes fs) - set (subtree_addrs a t) \<and> next_inode_num fs' = next_inode_num fs"
proof -
  obtain fs' where r: "free_inode_with_children fs a = Some fs'" "fs_repr fs' (prune a t)" "same_mount fs fs'"
    using forget_prunes [OF assms] by blast
  have "dom (inodes fs') = set (addrs t) - set (subtree_addrs a t)"
    using r(2) prune_forest [of t a] assms by (auto simp: fs_repr_def)
  then show ?thesis using r assms(1) by (simp add: inode_forget_def fs_repr_def same_mount_def)
qed

text \<open>A file system with a directory and a file in it.\<close>

definition small_fs :: "bool list \<Rightarrow> string \<Rightarrow> co_filesystem" where
  "small_fs rooms pathname = leaf_added (leaf_added (new_filesystem [] pathname) 0 ''a'' []) 1 ''b'' rooms"

lemma small_repr: "fs_repr (small_fs rooms p) (INode 0 [INode 1 [INode 2 []]]) \<and> fs_named (small_fs rooms p) (INode 0 [INode 1 [INode 2 []]])"
proof -
  let ?f0 = "new_filesystem [] p" let ?f1 = "leaf_added ?f0 0 ''a'' []"
  have n: "next_object ?f0 = 1" "next_object ?f1 = 2" by (simp_all add: new_filesystem_def leaf_added_def Let_def)
  have "fs_repr ?f1 (INode 0 [INode 1 []])" "fs_named ?f1 (INode 0 [INode 1 []])"
    using leaf_added_repr [of ?f0 "INode 0 []" 0] leaf_added_named [of ?f0 "INode 0 []" 0] new_repr [of "[]" p] by (simp_all add: n)
  then show ?thesis
    using leaf_added_repr [of ?f1 "INode 0 [INode 1 []]" 1 "''b''" rooms] leaf_added_named [of ?f1 "INode 0 [INode 1 []]" 1 "''b''" rooms] by (simp add: n small_fs_def)
qed

theorem forget_frees_the_subtree_witness:
  "\<exists>fs'. inode_forget (small_fs [] ''d'') (Some 1) = Some (CO_RC_OK, fs') \<and> fs_repr fs' (INode 0 []) \<and> dom (inodes fs') = {0}"
proof -
  have "dom (inodes (small_fs [] ''d'')) = {0, 1, 2}" using small_repr [of "[]" "''d''"] by (auto simp: fs_repr_def)
  then show ?thesis using forget_frees_the_subtree [of "small_fs [] ''d''" "INode 0 [INode 1 [INode 2 []]]" 1] small_repr [of "[]" "''d''"]
    by (auto simp: insert_Diff_if)
qed

section \<open>The inode of a name\<close>

lemma named_child:
  "fs_repr fs t \<Longrightarrow> fs_named fs t \<Longrightarrow> p \<in> set (addrs t) \<Longrightarrow> a \<in> set (sub_inodes fs p) \<Longrightarrow>
    \<exists>obj n. inodes fs a = Some obj \<and> inode_parent obj = Some p \<and> inode_name obj = Some n"
  using child_parent [of fs None t p a] root_object [of fs None t] unfolding fs_repr_def fs_named_def by fastforce

lemma each_name_scan:
  assumes "\<forall>a \<in> set as. \<exists>obj n. objects a = Some obj \<and> inode_name obj = Some n"
  shows "each_name objects name as = Some (find (\<lambda>a. \<exists>obj. objects a = Some obj \<and> inode_name obj = Some name) as)"
  using assms by (induction as) auto

lemma find_name:
  assumes "fs_repr fs t" and "fs_named fs t" and "p \<in> set (addrs t)"
  shows "find_inode fs (Some p) name = Some (find (\<lambda>a. \<exists>obj. inodes fs a = Some obj \<and> inode_name obj = Some name) (sub_inodes fs p))"
proof -
  have "\<forall>a \<in> set (sub_inodes fs p). \<exists>obj n. inodes fs a = Some obj \<and> inode_name obj = Some n"
    using named_child [OF assms] by blast
  moreover have "alive fs p" using repr_members(3) [OF assms(1,3)] by simp
  ultimately show ?thesis by (auto simp: find_inode_def alive_def each_name_scan)
qed

text \<open>
  C16: a lookup (and a creation) gives the guest the number of an inode that stands for the name: the
  inode is a child of the directory, has the name, and the number finds it again. If the directory
  has such a child the tree is not changed; if not, the tree gets one new leaf, with a number that no
  inode has had.
\<close>

theorem name_has_a_number:
  assumes "fs_repr (fw_fs w) t" and "fs_named (fw_fs w) t" and "p \<in> set (addrs t)"
    and "next_inode_num (fw_fs w) < 2 ^ 31 - 1" and "fs_rooms (fw_fs w) = True # True # rooms"
  shows "\<exists>fs a obj. number_of_name (Some p) name at w = Some (set_words at [word_of_int (inode_number obj)] (w\<lparr>fw_fs := fs\<rparr>)) \<and>
    inodes fs a = Some obj \<and> inode_parent obj = Some p \<and> inode_name obj = Some name \<and> ino_num_to_inode (inode_number obj) fs = Some (Some a) \<and>
    (if a \<in> set (addrs t) then fs = fw_fs w
     else fs_repr fs (graft p (INode a []) t) \<and> fs_named fs (graft p (INode a []) t) \<and> inode_number obj = next_inode_num (fw_fs w))"
proof (cases "find (\<lambda>a. \<exists>obj. inodes (fw_fs w) a = Some obj \<and> inode_name obj = Some name) (sub_inodes (fw_fs w) p)")
  case (Some a)
  then obtain obj where obj: "inodes (fw_fs w) a = Some obj" "inode_name obj = Some name" "a \<in> set (sub_inodes (fw_fs w) p)"
    by (auto simp: find_Some_iff)
  then have "inode_parent obj = Some p" using named_child [OF assms(1-3), of a] by simp
  moreover have "a \<in> set (addrs t)" using assms(1) obj(1) by (auto simp: fs_repr_def)
  ultimately show ?thesis
    using Some obj inode_found [OF assms(1) obj(1)]
    by (intro exI [of _ "fw_fs w"] exI [of _ a] exI [of _ obj]) (simp add: number_of_name_def find_name [OF assms(1-3)])
next
  case None
  let ?fs = "leaf_added (fw_fs w) p name rooms" and ?a = "next_object (fw_fs w)"
  have repr: "fs_repr ?fs (graft p (INode ?a []) t)" by (rule leaf_added_repr [OF assms(1,3)])
  obtain obj where obj: "inodes ?fs ?a = Some obj" "inode_parent obj = Some p" "inode_name obj = Some name"
      "inode_number obj = next_inode_num (fw_fs w)" by (simp add: leaf_added_def Let_def)
  have "alloc_inode (fw_fs w) (Some p) (Some name) = Some (Some ?a, ?fs)"
    using alloc_inode_cases [OF assms(1,3,4,5)] by simp
  then show ?thesis
    using None obj repr inode_found [OF repr obj(1)] leaf_added_named [OF assms(1,2)] next_fresh [OF assms(1)]
    by (intro exI [of _ ?fs] exI [of _ ?a] exI [of _ obj]) (simp add: number_of_name_def find_name [OF assms(1-3)])
qed

lemma small_numbers: "next_inode_num (small_fs rooms p) = 4 \<and> fs_rooms (small_fs rooms p) = rooms"
  by (simp add: small_fs_def leaf_added_def new_filesystem_def Let_def)

theorem name_has_a_number_witness:
  "\<forall>pages. \<exists>fs a obj.
    number_of_name (Some 1) ''c'' 17 \<lparr>fw_fs = small_fs [True, True] ''d'', fw_pages = pages, fw_os = (), fw_params = []\<rparr> =
      Some (set_words 17 [word_of_int (inode_number obj)] \<lparr>fw_fs = fs, fw_pages = pages, fw_os = (), fw_params = []\<rparr>) \<and>
    inodes fs a = Some obj \<and> inode_name obj = Some ''c'' \<and> ino_num_to_inode (inode_number obj) fs = Some (Some a)"
  using name_has_a_number [of "\<lparr>fw_fs = small_fs [True, True] ''d'', fw_pages = pages, fw_os = (), fw_params = []\<rparr>"
      "INode 0 [INode 1 [INode 2 []]]" 1 "[]" "''c''" 17 for pages] small_repr [of "[True, True]" "''d''"]
  by (auto simp: small_numbers) blast

section \<open>Tearing down\<close>

lemma ring_del_members:
  assumes "ring_del head_alive live x xs = Some ys" and "distinct xs"
  shows "distinct ys \<and> set ys = set xs - {x} \<and> x \<in> set xs \<and> (\<not> head_alive \<longrightarrow> ys \<noteq> [])"
proof -
  have "x \<in> set xs" using assms(1) by (auto simp: ring_del_def Let_def split: if_splits)
  then obtain before after where xs: "xs = before @ x # after" "x \<notin> set before" by (metis split_list_first)
  then show ?thesis using assms by (auto simp: ring_del_at split: if_splits)
qed

text \<open>What freeing an inode that is freed does to the rings.\<close>

lemma free_inode_rings:
  assumes "free_inode fs a = Some fs'"
  obtains obj where "inodes fs a = Some obj" and "ring_del True (alive fs) a (list_inodes fs) = Some (list_inodes fs')"
    and "inodes fs' = (inodes fs)(a := None)"
    and "case inode_parent obj of None \<Rightarrow> sub_inodes fs' = sub_inodes fs
      | Some p \<Rightarrow> ring_del (alive fs p) (alive fs) a (sub_inodes fs p) = Some (sub_inodes fs' p) \<and> (\<forall>q. q \<noteq> p \<longrightarrow> sub_inodes fs' q = sub_inodes fs q)"
proof -
  obtain obj where obj: "inodes fs a = Some obj" using assms by (cases "inodes fs a") (auto simp: free_inode_def)
  have alive: "alive (fs\<lparr>list_inodes := flat, inode_hashes := hash\<rparr>) = alive fs" for flat hash by (simp add: alive_def fun_eq_iff)
  let ?hashes = "\<lambda>hash. (inode_hashes fs)(bucket (inode_number obj) := hash)"
  obtain flat where flat: "ring_del True (alive fs) a (list_inodes fs) = Some flat"
    using assms obj by (cases "ring_del True (alive fs) a (list_inodes fs)") (simp_all add: free_inode_def)
  obtain hash where hash: "ring_del True (alive fs) a (inode_hashes fs (bucket (inode_number obj))) = Some hash"
    using assms obj flat by (cases "ring_del True (alive fs) a (inode_hashes fs (bucket (inode_number obj)))") (simp_all add: free_inode_def)
  let ?kid = "case inode_parent obj of None \<Rightarrow> Some (fs\<lparr>list_inodes := flat, inode_hashes := ?hashes hash\<rparr>)
        | Some p \<Rightarrow> del_child p a (fs\<lparr>list_inodes := flat, inode_hashes := ?hashes hash\<rparr>)"
  obtain fs1 where kid: "?kid = Some fs1"
    using assms obj flat hash by (cases ?kid) (simp_all add: free_inode_def Let_def)
  have fs': "list_inodes fs' = list_inodes fs1" "inodes fs' = (inodes fs1)(a := None)" "sub_inodes fs' = sub_inodes fs1"
    using assms obj flat hash kid
    by (cases "inode_names obj"; cases "inode_name obj"; force simp: free_inode_def Let_def fs_free_def co_filesystem_getdir_free_def)+
  show ?thesis
    using kid fs' flat by (intro that [OF obj]) (auto simp: del_child_def alive split: option.splits)
qed

text \<open>The ring of an inode that is freed has no use: the first of its inodes cannot leave it.\<close>

definition orphans :: "co_filesystem \<Rightarrow> nat \<Rightarrow> bool" where
  "orphans fs r \<longleftrightarrow>
     inodes fs r = None \<and> sub_inodes fs r \<noteq> [] \<and> distinct (sub_inodes fs r) \<and> distinct (list_inodes fs) \<and>
     (\<forall>a \<in> set (sub_inodes fs r). a \<in> set (list_inodes fs) \<and> (\<exists>obj. inodes fs a = Some obj \<and> inode_parent obj = Some r))"

lemma orphans_stay:
  assumes "orphans fs r" and "free_inode fs a = Some fs'"
  shows "orphans fs' r"
proof -
  obtain obj where f: "inodes fs a = Some obj" "ring_del True (alive fs) a (list_inodes fs) = Some (list_inodes fs')"
      "inodes fs' = (inodes fs)(a := None)"
      "case inode_parent obj of None \<Rightarrow> sub_inodes fs' = sub_inodes fs
        | Some p \<Rightarrow> ring_del (alive fs p) (alive fs) a (sub_inodes fs p) = Some (sub_inodes fs' p) \<and> (\<forall>q. q \<noteq> p \<longrightarrow> sub_inodes fs' q = sub_inodes fs q)"
    using free_inode_rings [OF assms(2)] .
  have flat: "distinct (list_inodes fs')" "set (list_inodes fs') = set (list_inodes fs) - {a}"
    using ring_del_members [OF f(2)] assms(1) by (auto simp: orphans_def)
  show ?thesis
  proof (cases "inode_parent obj = Some r")
    case True
    have "\<not> alive fs r" using assms(1) by (simp add: orphans_def alive_def)
    then have "distinct (sub_inodes fs' r) \<and> set (sub_inodes fs' r) = set (sub_inodes fs r) - {a} \<and> sub_inodes fs' r \<noteq> []"
      using ring_del_members [of "alive fs r" "alive fs" a "sub_inodes fs r" "sub_inodes fs' r"] f(4) True assms(1) by (auto simp: orphans_def)
    then show ?thesis using assms(1) f(3) flat by (auto simp: orphans_def)
  next
    case False
    then have "sub_inodes fs' r = sub_inodes fs r" using f(4) by (auto split: option.splits)
    moreover have "a \<notin> set (sub_inodes fs r)" using assms(1) f(1) False by (fastforce simp: orphans_def)
    ultimately show ?thesis using assms(1) f(3) flat by (auto simp: orphans_def)
  qed
qed

lemma orphans_never_freed: "orphans fs r \<Longrightarrow> free_all_inodes fs = None"
proof (induction fs rule: free_all_inodes.induct)
  case (1 fs)
  obtain a as where list: "list_inodes fs = a # as" using 1(2) by (cases "list_inodes fs") (auto simp: orphans_def)
  show ?case
  proof (cases "free_inode fs a")
    case None
    then show ?thesis using list by (subst free_all_inodes.simps) simp
  next
    case (Some fs')
    then have "free_all_inodes fs' = None" using 1(1) [OF list] orphans_stay [OF 1(2)] by simp
    then show ?thesis using Some list by (subst free_all_inodes.simps) simp
  qed
qed

text \<open>
  C17: tearing down a file system that still has an inode below its root uses freed memory. The inodes
  are freed in the order in which they were allocated, the root first; the ring of its children is
  in the object that is gone, and the first child cannot be taken out of it.
\<close>

theorem teardown_uses_the_freed_root:
  assumes "fs_repr fs t" and "list_inodes fs = addr t # later" and "kids t \<noteq> []"
  shows "co_monitor_file_system_free (Some fs) = None"
proof -
  have ok: "tables_ok fs" "tree_at fs None t" "distinct (addrs t)" using assms(1) by (simp_all add: fs_repr_def)
  have "free_all_inodes fs = None"
  proof (cases "free_inode fs (addr t)")
    case None
    then show ?thesis using assms(2) by (subst free_all_inodes.simps) simp
  next
    case (Some fs')
    obtain obj where obj: "inodes fs (addr t) = Some obj" "inode_parent obj = None" using root_object [OF ok(2)] by blast
    have f: "ring_del True (alive fs) (addr t) (list_inodes fs) = Some (list_inodes fs')" "inodes fs' = (inodes fs)(addr t := None)"
        "sub_inodes fs' = sub_inodes fs"
      by (rule free_inode_rings [OF Some]; use obj in simp)+
    have flat: "distinct (list_inodes fs')" "set (list_inodes fs') = set (list_inodes fs) - {addr t}"
      using ring_del_members [OF f(1)] ok(1) by (auto simp: tables_ok_def)
    have ring: "sub_inodes fs (addr t) = map addr (kids t)" "addr t \<notin> set (forest_addrs (kids t))" "distinct (forest_addrs (kids t))"
      using ok(2,3) by (cases t; simp)+
    have "a \<noteq> addr t \<and> a \<in> set (list_inodes fs) \<and> (\<exists>obj. inodes fs a = Some obj \<and> inode_parent obj = Some (addr t))" if a: "a \<in> set (map addr (kids t))" for a
    proof -
      obtain ob where "inodes fs a = Some ob" "inode_parent ob = Some (addr t)" using child_parent [OF ok(2) addr_in] ring(1) a by metis
      moreover have "a \<noteq> addr t" using a ring(2) addr_forest [of "kids t"] by auto
      ultimately show ?thesis using ok(1) by (auto simp: tables_ok_def)
    qed
    then have "orphans fs' (addr t)"
      using f flat ring assms(3) distinct_addr [OF ring(3)] by (auto simp: orphans_def)
    then show ?thesis using Some assms(2) orphans_never_freed by (subst free_all_inodes.simps) simp
  qed
  then show ?thesis by (simp add: co_monitor_file_system_free_def)
qed

theorem teardown_uses_the_freed_root_witness: "co_monitor_file_system_free (Some (small_fs [] ''d'')) = None"
  using teardown_uses_the_freed_root [of "small_fs [] ''d''" "INode 0 [INode 1 [INode 2 []]]" "[1, 2]"] small_repr [of "[]" "''d''"]
  by (simp add: small_fs_def leaf_added_def new_filesystem_def Let_def)

text \<open>A file system whose guest has forgotten everything but the root is freed, every block of it.\<close>

lemma teardown_of_the_root: "co_monitor_file_system_free (Some (new_filesystem rooms pathname)) = Some 0"
proof -
  let ?fs = "new_filesystem rooms pathname"
  have "free_inode ?fs 0 = Some (?fs\<lparr>inodes := Map.empty, list_inodes := [], inode_hashes := (\<lambda>b. []), inodes_count := 0, live_blocks := 1\<rparr>)"
    by (simp add: free_inode_def new_filesystem_def ring_del_def bucket_def CO_FS_HASH_TABLE_SIZE_def fs_free_def Let_def fun_eq_iff)
  moreover have "free_all_inodes fs = Some fs" if "list_inodes fs = []" for fs using that by (subst free_all_inodes.simps) simp
  moreover have "list_inodes ?fs = [0]" by (simp add: new_filesystem_def)
  ultimately have "free_all_inodes ?fs = Some (?fs\<lparr>inodes := Map.empty, list_inodes := [], inode_hashes := (\<lambda>b. []), inodes_count := 0, live_blocks := 1\<rparr>)"
    by (subst free_all_inodes.simps) simp
  then show ?thesis by (simp add: co_monitor_file_system_free_def fs_free_def)
qed

end
