(* ===== verification/Cofs_Paths.thy ===== *)
theory Cofs_Paths
  imports Cofs_Inodes
begin

text \<open>
  The files of the host a request of the guest reaches: the path of an inode, a number that no inode
  has, and the memory of a directory that is open.
\<close>

section \<open>Paths\<close>

lemma path_names_take: "path_names objects m dir = Some names \<Longrightarrow> n \<le> m \<Longrightarrow> path_names objects n dir = Some (take n names)"
proof (induction objects m dir arbitrary: n names rule: path_names.induct)
  case (3 objects m a)
  show ?case
  proof (cases n)
    case 0
    then show ?thesis using 3(2) by (cases "objects a") auto
  next
    case (Suc k)
    obtain obj where obj: "objects a = Some obj" using 3(2) by (cases "objects a") auto
    show ?thesis
    proof (cases "inode_name obj")
      case None
      then show ?thesis using 3(2) obj Suc by auto
    next
      case (Some name)
      obtain rest where rest: "path_names objects m (inode_parent obj) = Some rest" "names = name # rest"
        using 3(2) obj Some by auto
      then have "path_names objects k (inode_parent obj) = Some (take k rest)" using 3(1) [OF obj Some rest(1)] 3(3) Suc by simp
      then show ?thesis using obj Some Suc rest(2) by simp
    qed
  qed
qed auto

definition backslashed :: "string \<Rightarrow> string" where
  "backslashed path = (if path \<noteq> [] \<and> last path \<noteq> CHR 0x5C then path @ [CHR 0x5C] else path)"

definition under :: "string \<Rightarrow> string list \<Rightarrow> string" where
  "under base names = base @ concat (map (\<lambda>name. CHR 0x5C # name) names)"

lemma under_length: "length (under base names) = length base + sum_list (map (\<lambda>name. length name + 1) names)"
  by (induction names) (simp_all add: under_def)

text \<open>
  C22: the path of a name in a directory is the path of the mounted directory, the names of the
  inodes from the root down to the directory and the name, each after one backslash; the block
  for it is large enough. Only the 256 lowest of the inodes count: below, the names at the top are missing.
\<close>

theorem path_of_a_name:
  assumes "path_names (inodes fs) depth dir = Some names" and "256 \<le> depth" and "cstring (base_path fs) = Some base"
    and "name \<noteq> []" and "fs_rooms fs = True # rooms"
  shows "co_os_fs_dir_inode_to_path fs dir name =
    Some (CO_RC_OK, backslashed (under base (rev (take 256 names))) @ name, fs\<lparr>fs_rooms := rooms, live_blocks := live_blocks fs + 1\<rparr>)"
proof -
  have names: "path_names (inodes fs) 256 dir = Some (take 256 names)" using path_names_take [OF assms(1,2)] .
  let ?path = "under base (rev (take 256 names))"
  have len: "length ?path = length base + sum_list (map (\<lambda>name. length name + 1) (take 256 names))"
    by (simp add: under_length rev_map [symmetric] sum_list_rev)
  have path: "base @ concat (map (\<lambda>name. CHR 0x5C # name) (rev (take 256 names))) = ?path" by (simp add: under_def)
  have bound: "length (backslashed ?path) \<le> length ?path + 1" by (simp add: backslashed_def)
  have "co_os_fs_inode_to_path fs dir (1 + length name) = Some (CO_RC_OK, (backslashed ?path, length ?path + length name + 3),
      fs\<lparr>fs_rooms := rooms, live_blocks := live_blocks fs + 1\<rparr>)"
    using names assms(3,5) bound len
    by (simp add: co_os_fs_inode_to_path_def fs_malloc_def alloc_def Let_def path backslashed_def)
  then show ?thesis using assms(4) bound by (simp add: co_os_fs_dir_inode_to_path_def CO_OK_def)
qed

lemma small_path: "path_names (inodes (small_fs rooms p)) 256 (Some 1) = Some [''a'']"
proof -
  have "path_names (inodes (small_fs rooms p)) (Suc (Suc k)) (Some 1) = Some [''a'']" for k
    by (cases k) (simp_all add: small_fs_def leaf_added_def new_filesystem_def Let_def)
  from this [of 254] show ?thesis by simp
qed

theorem path_of_a_name_witness:
  "map_option (\<lambda>(rc, path, fs). (rc, path)) (co_os_fs_dir_inode_to_path (small_fs [True] [CHR ''d'', CHR 0x00]) (Some 1) ''x'') =
    Some (CO_RC_OK, [CHR ''d'', CHR 0x5C, CHR ''a'', CHR 0x5C, CHR ''x''])"
proof -
  have "base_path (small_fs [True] p) = p" for p by (simp add: small_fs_def leaf_added_def new_filesystem_def Let_def)
  then have "cstring (base_path (small_fs [True] [CHR ''d'', CHR 0x00])) = Some ''d''" by (simp add: cstring_def)
  then show ?thesis
    using path_of_a_name [OF small_path _ _ _, of "[True]" "[CHR ''d'', CHR 0x00]" "''d''" "''x''" "[]"] small_numbers [of "[True]"]
    by (simp add: under_def backslashed_def)
qed

section \<open>Numbers of no inode\<close>

lemma unknown_number: "fs_repr fs t \<Longrightarrow> 1 \<le> ino \<Longrightarrow> \<forall>a. number_of fs a \<noteq> Some ino \<Longrightarrow> ino_num_to_inode ino fs = Some None"
  using number_finds [of fs t ino] by simp

lemma root_path:
  assumes "fs_repr fs t" and "fs_named fs t"
  shows "co_os_fs_inode_to_path fs (fs_root fs) = co_os_fs_inode_to_path fs None"
proof -
  obtain obj where "inodes fs (addr t) = Some obj" "inode_name obj = None" "fs_root fs = Some (addr t)"
    using assms root_object [of fs None t] by (auto simp: fs_repr_def fs_named_def)
  then have "path_names (inodes fs) (Suc k) (fs_root fs) = Some []" for k by simp
  from this [of 255] have "path_names (inodes fs) 256 (fs_root fs) = Some []" by simp
  then show ?thesis by (simp add: co_os_fs_inode_to_path_def fun_eq_iff)
qed


lemma small_number: "\<forall>a. number_of (small_fs rooms p) a \<noteq> Some 7"
  by (simp add: number_of_def small_fs_def leaf_added_def new_filesystem_def Let_def)


text \<open>
  The other requests use the inode without asking whether there is one: to ask for the
  attributes of a number that no inode has ends in a use of NULL in the driver of the host.
\<close>

theorem attributes_of_an_unknown_number:
  assumes "fs_repr (fw_fs w) t" and "1 \<le> ino" and "\<forall>a. number_of (fw_fs w) a \<noteq> Some ino"
  shows "file_system_request host dirent FUSE_GETATTR ino w = None"
  by (simp add: file_system_request_def unknown_number [OF assms] inode_request_def fuse_opcodes inode_get_attr_def Let_def)

theorem attributes_of_an_unknown_number_witness:
  "\<forall>host dirent pages params.
    file_system_request host dirent FUSE_GETATTR 7 \<lparr>fw_fs = small_fs [] ''d'', fw_pages = pages, fw_os = (), fw_params = params\<rparr> = None"
proof (intro allI)
  fix host dirent pages params
  show "file_system_request host dirent FUSE_GETATTR 7 \<lparr>fw_fs = small_fs [] ''d'', fw_pages = pages, fw_os = (), fw_params = params\<rparr> = None"
    by (rule attributes_of_an_unknown_number [of _ "INode 0 [INode 1 [INode 2 []]]"]) (use small_repr [of "[]" "''d''"] in \<open>simp_all add: small_number\<close>)
qed

section \<open>Open directories\<close>

text \<open>
  A directory that is opened and released once has the state it had, but one block of the driver
  more: the object that holds the list of its entries is not freed, so that each listing of a
  directory by the guest takes memory of the host for good.
\<close>

theorem listing_keeps_a_block:
  assumes "inodes (fw_fs w) a = Some obj" and "inode_names obj = None" and "path_names (inodes (fw_fs w)) 256 (Some a) = Some names"
    and "cstring (base_path (fw_fs w)) = Some base" and "fs_rooms (fw_fs w) = True # True # rooms"
    and "\<And>path. file_getdir host path (fw_os w) = (CO_RC_OK, entries, os)"
  shows "\<exists>w1 w2. inode_dir_open host (Some a) w = Some (CO_RC_OK, w1) \<and> inode_dir_release (Some a) w1 = Some (CO_RC_OK, w2) \<and>
    inodes (fw_fs w2) = inodes (fw_fs w) \<and> live_blocks (fw_fs w2) = live_blocks (fw_fs w) + 1"
proof -
  let ?fs = "fw_fs w" and ?path = "under base (rev names)"
  let ?fs1 = "?fs\<lparr>fs_rooms := True # rooms, live_blocks := live_blocks ?fs + 1\<rparr>"
  have path: "base @ concat (map (\<lambda>name. CHR 0x5C # name) (rev names)) = ?path" by (simp add: under_def)
  have len: "length ?path = length base + sum_list (map (\<lambda>name. length name + 1) names)" by (simp add: under_length rev_map [symmetric] sum_list_rev)
  have "length (backslashed ?path) \<le> length ?path + 1" by (simp add: backslashed_def)
  then have "co_os_fs_inode_to_path ?fs1 (Some a) 1 =
      Some (CO_RC_OK, (backslashed ?path, length ?path + 3), ?fs1\<lparr>fs_rooms := rooms, live_blocks := live_blocks ?fs + 2\<rparr>)"
    using assms(3,4) len by (simp add: co_os_fs_inode_to_path_def fs_malloc_def alloc_def Let_def path backslashed_def)
  moreover have "(inodes ?fs)(a \<mapsto> obj\<lparr>inode_names := None\<rparr>) = inodes ?fs" using assms(1,2) by (cases obj) (auto simp: fun_eq_iff)
  ultimately show ?thesis
    using assms(1,2,5,6)
    by (simp add: inode_dir_open_def inode_dir_release_def fs_malloc_def alloc_def Let_def with_inode_path_def CO_OK_def fs_free_def
      co_filesystem_getdir_free_def)
qed

definition one_file_host :: "unit host_files" where
  "one_file_host =
     \<lparr>file_get_attr = (\<lambda>path attr os. (CO_RC_OK, attr, os)), file_set_attr = (\<lambda>path valid attr os. (CO_RC_OK, os)),
      file_rename = (\<lambda>old new os. (CO_RC_OK, os)), file_getdir = (\<lambda>path os. (CO_RC_OK, [(8, ''f'')], os)),
      file_read_write = (\<lambda>path offset sz buff rd st os. Some (CO_RC_OK, st, os)), file_mknod = (\<lambda>path mode os. (CO_RC_OK, os)),
      file_mkdir = (\<lambda>path os. (CO_RC_OK, os)), file_unlink = (\<lambda>path os. (CO_RC_OK, os)), file_rmdir = (\<lambda>path os. (CO_RC_OK, os)),
      file_fs_stat = (\<lambda>path os. (CO_RC_OK, [], os)), host_time = (\<lambda>os. 0)\<rparr>"

theorem listing_keeps_a_block_witness:
  "\<forall>pages. \<exists>w1 w2. inode_dir_open one_file_host (Some 1) \<lparr>fw_fs = small_fs [True, True] [CHR ''d'', CHR 0x00], fw_pages = pages, fw_os = (), fw_params = []\<rparr> =
      Some (CO_RC_OK, w1) \<and> inode_dir_release (Some 1) w1 = Some (CO_RC_OK, w2) \<and>
    live_blocks (fw_fs w2) = live_blocks (small_fs [True, True] [CHR ''d'', CHR 0x00]) + 1"
proof
  fix pages
  let ?fs = "small_fs [True, True] [CHR ''d'', CHR 0x00]"
  let ?w = "\<lparr>fw_fs = ?fs, fw_pages = pages, fw_os = (), fw_params = []\<rparr>"
  have base: "cstring (base_path ?fs) = Some ''d''" by (simp add: small_fs_def leaf_added_def new_filesystem_def Let_def cstring_def)
  have "inodes ?fs 1 = Some \<lparr>inode_parent = Some 0, inode_name = Some ''a'', inode_names = None, inode_number = 2\<rparr>"
    by (simp add: small_fs_def leaf_added_def new_filesystem_def Let_def)
  then have "\<exists>w1 w2. inode_dir_open one_file_host (Some 1) ?w = Some (CO_RC_OK, w1) \<and> inode_dir_release (Some 1) w1 = Some (CO_RC_OK, w2) \<and>
    inodes (fw_fs w2) = inodes (fw_fs ?w) \<and> live_blocks (fw_fs w2) = live_blocks (fw_fs ?w) + 1"
    using base small_path [of "[True, True]"] small_numbers [of "[True, True]"]
    by (intro listing_keeps_a_block [where obj = "\<lparr>inode_parent = Some 0, inode_name = Some ''a'', inode_names = None, inode_number = 2\<rparr>"])
      (simp_all add: one_file_host_def)
  then show "\<exists>w1 w2. inode_dir_open one_file_host (Some 1) ?w = Some (CO_RC_OK, w1) \<and> inode_dir_release (Some 1) w1 = Some (CO_RC_OK, w2) \<and>
    live_blocks (fw_fs w2) = live_blocks ?fs + 1" by auto
qed

end
