(* ===== verification/Guest_Devices.thy ===== *)
theory Guest_Devices
  imports Config Co_Block Co_Pci Co_Console Co_Manager Guest_Messages Cofs_Requests
begin

text \<open>
  A guest while it runs (\<open>src/colinux/kernel/monitor.h\<close>) and the requests it makes for its devices:
  the SCSI units (\<open>src/colinux/kernel/scsi.c\<close>) and \<open>device_request\<close> of
  \<open>src/colinux/kernel/monitor.c\<close>, which takes the parameters from the passage page and gives them to
  the drivers of the other theories. The functions of the host are parameters.
\<close>

section \<open>SCSI\<close>

text \<open>\<open>os_handle\<close> is 0 if it is \<open>NULL\<close>.\<close>

record co_scsi_dev =
  sd_conf :: co_scsi_dev_desc
  sd_os_handle :: ulong

record 'os scsi_files =
  scsi_file_open :: "co_scsi_dev \<Rightarrow> 'os \<Rightarrow> int \<times> co_scsi_dev \<times> 'os"
  scsi_file_close :: "co_scsi_dev \<Rightarrow> 'os \<Rightarrow> int \<times> co_scsi_dev \<times> 'os"
  scsi_file_size :: "co_scsi_dev \<Rightarrow> 'os \<Rightarrow> int \<times> ulonglong \<times> 'os"
  scsi_file_io :: "co_scsi_dev \<Rightarrow> ulong list \<Rightarrow> page_state \<Rightarrow> 'os \<Rightarrow> int \<times> ulong list \<times> page_state \<times> 'os"
  scsi_pass :: "co_scsi_dev \<Rightarrow> ulong list \<Rightarrow> page_state \<Rightarrow> 'os \<Rightarrow> int \<times> ulong list \<times> page_state \<times> 'os"

definition COSCSI_DEVICE_ENABLED :: ulong where "COSCSI_DEVICE_ENABLED = 0x80"
definition CO_SCSI_GET_CONFIG :: int where "CO_SCSI_GET_CONFIG = 0"
definition CO_SCSI_OPEN :: int where "CO_SCSI_OPEN = 1"
definition CO_SCSI_CLOSE :: int where "CO_SCSI_CLOSE = 2"
definition CO_SCSI_SIZE :: int where "CO_SCSI_SIZE = 3"
definition CO_SCSI_IO :: int where "CO_SCSI_IO = 4"
definition CO_SCSI_PASS :: int where "CO_SCSI_PASS = 5"

lemmas scsi_opcodes = CO_SCSI_GET_CONFIG_def CO_SCSI_OPEN_def CO_SCSI_CLOSE_def CO_SCSI_SIZE_def CO_SCSI_IO_def CO_SCSI_PASS_def

text \<open>A negative unit is an index before the array.\<close>

definition get_dp :: "co_scsi_dev option list \<Rightarrow> int \<Rightarrow> co_scsi_dev option option" where
  "get_dp devs unit =
     (if unit < sint CO_MODULE_MAX_COSCSI
      then if unit < 0 \<or> length devs \<le> nat unit then None else Some (devs ! nat unit)
      else Some None)"

definition put_params :: "nat \<Rightarrow> ulong list \<Rightarrow> ulong list \<Rightarrow> ulong list" where
  "put_params n ws params = take n params @ ws @ drop (n + length ws) params"

type_synonym 'os scsi_world = "co_scsi_dev option list \<times> ulong list \<times> page_state \<times> 'os"

definition co_scsi_request :: "'os scsi_files \<Rightarrow> int \<Rightarrow> int \<Rightarrow> 'os scsi_world \<Rightarrow> 'os scsi_world option" where
  "co_scsi_request host op unit = (\<lambda>(devs, params, pages, os).
     do {
       found \<leftarrow> get_dp devs unit;
       if op = CO_SCSI_GET_CONFIG then
         Some (devs, put_params 0 (0 # map (\<lambda>dev. case dev of None \<Rightarrow> 0
           | Some dp \<Rightarrow> word_of_int (scsi_type (sd_conf dp)) OR COSCSI_DEVICE_ENABLED) devs) params, pages, os)
       else case found of
         None \<Rightarrow> Some (devs, put_params 0 [1] params, pages, os)
       | Some dp \<Rightarrow>
           if op = CO_SCSI_OPEN then
             let (rc, dp, os) = scsi_file_open host dp os
             in Some (devs[nat unit := Some dp], put_params 0 [word_of_int rc, sd_os_handle dp] params, pages, os)
           else if op = CO_SCSI_CLOSE then
             let (rc, dp, os) = scsi_file_close host dp os
             in Some (devs[nat unit := Some dp], put_params 0 [word_of_int rc] params, pages, os)
           else if op = CO_SCSI_SIZE then
             let (rc, sz, os) = scsi_file_size host dp os
             in Some (devs, put_params 0 [word_of_int rc, ucast sz, ucast (drop_bit 32 sz)] params, pages, os)
           else if op = CO_SCSI_IO then
             let (rc, iop, pages, os) = scsi_file_io host dp (drop 3 params) pages os
             in Some (devs, put_params 0 [word_of_int rc] (put_params 3 iop params), pages, os)
           else if op = CO_SCSI_PASS then
             let (rc, pass, pages, os) = scsi_pass host dp (drop 3 params) pages os
             in Some (devs, put_params 0 [word_of_int rc] (put_params 3 pass params), pages, os)
           else Some (devs, params, pages, os)
     })"

fun free_scsi_devices :: "'os scsi_files \<Rightarrow> co_scsi_dev option list \<Rightarrow> 'os \<Rightarrow> 'os" where
  "free_scsi_devices host [] os = os"
| "free_scsi_devices host (None # devs) os = free_scsi_devices host devs os"
| "free_scsi_devices host (Some dp # devs) os =
     free_scsi_devices host devs (if sd_os_handle dp \<noteq> 0 then snd (snd (scsi_file_close host dp os)) else os)"

definition co_monitor_unregister_and_free_scsi_devices ::
  "'os scsi_files \<Rightarrow> co_scsi_dev option list \<Rightarrow> 'os \<Rightarrow> co_scsi_dev option list \<times> 'os" where
  "co_monitor_unregister_and_free_scsi_devices host devs os = (replicate (length devs) None, free_scsi_devices host devs os)"

section \<open>The guest\<close>

datatype co_monitor_state =
    CO_MONITOR_STATE_EMPTY
  | CO_MONITOR_STATE_INITIALIZED
  | CO_MONITOR_STATE_RUNNING
  | CO_MONITOR_STATE_STARTED
  | CO_MONITOR_STATE_TERMINATED

record co_monitor_linux_bug_invocation =
  bug_line :: ulong
  bug_code :: ulong
  bug_text :: string

text \<open>The fields of \<open>co_monitor_t\<close> that matter while the guest runs, with the passage page
  (\<open>operation\<close> and \<open>params\<close>) and the I/O area; \<open>timer\<close> says whether the timer is active. The fields of
  \<open>co_monitor_t\<close> for the manager are those of \<^typ>\<open>co_manager\<close>.\<close>

record 'os guest =
  state :: co_monitor_state
  termination_reason :: ulong
  bug_info :: co_monitor_linux_bug_invocation
  conf_of :: co_config
  core_end :: ulong
  initrd_address :: ulong
  initrd_size :: ulong
  kernel_swapper_pg_dir :: ulong
  pgd :: ulong
  timer :: bool
  timer_interrupt :: bool
  timestamp :: ulonglong
  timestamp_freq :: ulonglong
  timestamp_reminder :: ulonglong
  guest_area :: guest_io
  guest_pages :: page_state
  guest_blocks :: "'os file_block_dev block_devs"
  guest_scsi :: "co_scsi_dev option list"
  guest_filesystems :: "co_filesystem option list"
  guest_pci :: pci_space
  guest_console :: co_console
  manager :: co_manager
  monitor :: monitor_id
  operation :: ulong
  params :: "ulong list"
  host_os :: 'os

text \<open>What the manager and the network driver answer to a message of the guest.\<close>

record message_answers =
  ma_env :: debug_env
  ma_depth :: nat
  ma_filtered :: bool
  ma_direct :: bool
  ma_room :: bool
  ma_steps :: "reader_step list"

text \<open>The functions of the host a guest needs: its files and SCSI units, its clocks, what it does
  while the driver waits, the switch to the guest (machine code of \<open>arch/i386\<close>), the physical
  address of a pointer, what the stack holds, the line and file in a return code,
  what is answered to a message and to an allocation, and the outcome of the architecture's part of a start.\<close>

record 'os guest_host =
  files_of_host :: "'os host_files"
  scsi_of_host :: "'os scsi_files"
  host_timestamp :: "'os \<Rightarrow> ulonglong"
  host_timestamp_freq :: "'os \<Rightarrow> ulonglong"
  host_cpu_khz :: "'os \<Rightarrow> ulong"
  host_sleep :: "'os guest \<Rightarrow> 'os guest"
  host_switch :: "'os guest \<Rightarrow> 'os guest"
  virt_to_phys :: "ulong \<Rightarrow> ulong"
  stack_bytes :: "uchar list"
  rc_place :: "ulong \<times> ulong"
  message_answer :: "'os guest \<Rightarrow> message_answers"
  async_block_operations :: "'os file_block_operations"
  default_block_operations :: "'os file_block_operations"
  file_system_rooms :: "nat \<Rightarrow> bool list"
  passage_alloc :: co_rc_value
  passage_init :: co_rc_value
  passage_phys :: ulong
  io_buffer_phys :: "ulong list"
  conet_bind_adapter :: "int \<Rightarrow> 'os \<Rightarrow> co_rc_value \<times> 'os"
  conet_unbind_adapter :: "int \<Rightarrow> 'os \<Rightarrow> co_rc_value \<times> 'os"

section \<open>Requests in the passage page\<close>

definition wide :: "ulong list \<Rightarrow> nat \<Rightarrow> ulonglong" where
  "wide ws n = push_bit 32 (ucast (ws ! Suc n)) OR ucast (ws ! n)"

definition narrow :: "ulonglong \<Rightarrow> ulong list" where
  "narrow x = [ucast x, ucast (drop_bit 32 x)]"

fun chars_words :: "string \<Rightarrow> ulong list" where
  "chars_words (a # b # c # d # cs) =
     (word_of_nat (code a) OR push_bit 8 (word_of_nat (code b)) OR push_bit 16 (word_of_nat (code c)) OR push_bit 24 (word_of_nat (code d))) #
     chars_words cs"
| "chars_words cs = []"

definition block_type :: "ulong \<Rightarrow> co_block_request_type" where
  "block_type w =
     (if w = 0 then CO_BLOCK_OPEN else if w = 1 then CO_BLOCK_STAT else if w = 2 then CO_BLOCK_READ else if w = 3 then CO_BLOCK_WRITE
      else if w = 4 then CO_BLOCK_CLOSE else if w = 5 then CO_BLOCK_GET_ALIAS else CO_BLOCK_UNKNOWN w)"

text \<open>\<open>co_block_request_t\<close> in eleven words; \<open>alias\<close> is the other member of the union.\<close>

definition alias_chars :: "ulong list \<Rightarrow> string" where
  "alias_chars ws = concat (map word_chars (take 5 (drop 2 ws)))"

definition words_request :: "ulong list \<Rightarrow> co_block_request" where
  "words_request ws =
     \<lparr>rq_type = block_type (ws ! 0), rq_rc = ws ! 1, rq_offset = wide ws 2, rq_size = wide ws 4, rq_disk_size = wide ws 6,
      rq_address = ws ! 8, rq_irq_request = ws ! 9, rq_async = ws ! 10, rq_alias = takeWhile (\<lambda>c. c \<noteq> CHR 0x00) (alias_chars ws)\<rparr>"

definition request_words :: "co_block_request \<Rightarrow> ulong list \<Rightarrow> ulong list" where
  "request_words r ws =
     [ws ! 0, rq_rc r] @
     (if rq_type r = CO_BLOCK_GET_ALIAS
      then chars_words (take 20 (rq_alias r @ [CHR 0x00] @ drop (length (rq_alias r) + 1) (alias_chars ws))) @ take 4 (drop 7 ws)
      else narrow (rq_offset r) @ narrow (rq_size r) @ narrow (rq_disk_size r) @ [rq_address r, rq_irq_request r, rq_async r])"

definition block_device_request :: "'os guest \<Rightarrow> 'os guest" where
  "block_device_request g =
     (let request = drop 2 (params g);
          (devs, r, os) = co_monitor_block_request co_monitor_file_block_service (guest_blocks g) (params g ! 1) (words_request request) (host_os g)
      in g\<lparr>guest_blocks := devs, host_os := os, params := put_params 2 (request_words r request) (params g)\<rparr>)"

definition bytes_word :: "uchar list \<Rightarrow> ulong" where
  "bytes_word bs = ucast (bs ! 0) OR push_bit 8 (ucast (bs ! 1)) OR push_bit 16 (ucast (bs ! 2)) OR push_bit 24 (ucast (bs ! 3))"

definition CO_NETWORK_GET_MAC :: ulong where "CO_NETWORK_GET_MAC = 0"

text \<open>\<open>co_network_request_t\<close> is at \<open>params[1]\<close>: type, unit, the address and two bytes of padding, result.\<close>

definition network_device_request :: "'os guest \<Rightarrow> 'os guest" where
  "network_device_request g =
     (let ps = put_params 5 [0] (params g); unit = params g ! 2
      in if CO_MODULE_MAX_CONET \<le> unit then g\<lparr>params := ps\<rparr>
         else if params g ! 1 = CO_NETWORK_GET_MAC then
           let dev = net_devs (conf_of g) ! unat unit; mac = mac_address dev;
               ps = put_params 5 [if net_enabled dev then 1 else 0] ps
           in g\<lparr>params := if net_enabled dev
                then put_params 3 [bytes_word (take 4 mac), bytes_word [mac ! 4, mac ! 5, ucast (drop_bit 16 (params g ! 4)), ucast (drop_bit 24 (params g ! 4))]] ps
                else ps\<rparr>
         else g\<lparr>params := ps\<rparr>)"

definition config_word :: "copci_config \<Rightarrow> ulong" where
  "config_word cp = bytes_word [cp_dev cp, cp_func cp, cp_type cp, cp_unit cp]"

definition CO_DEVICE_BLOCK :: ulong where "CO_DEVICE_BLOCK = 0"
definition CO_DEVICE_FILESYSTEM :: ulong where "CO_DEVICE_FILESYSTEM = 7"
definition CO_DEVICE_PCI :: ulong where "CO_DEVICE_PCI = 12"

text \<open>A build without video devices. The result is always \<open>PTRUE\<close>.\<close>

definition device_request :: "'os guest_host \<Rightarrow> ulong \<Rightarrow> 'os guest \<Rightarrow> 'os guest option" where
  "device_request host device g =
     (if device = CO_DEVICE_BLOCK then Some (block_device_request g)
      else if device = ucast CO_DEVICE_NETWORK then Some (network_device_request g)
      else if device = CO_DEVICE_FILESYSTEM then
        map_option (\<lambda>(filesystems, pages, os, ps). g\<lparr>guest_filesystems := filesystems, guest_pages := pages, host_os := os, params := ps\<rparr>)
          (co_monitor_file_system (files_of_host host) (stack_bytes host) (params g ! 1) (params g ! 2) (sint (params g ! 3))
            (guest_filesystems g) (guest_pages g) (host_os g) (params g))
      else if device = CO_DEVICE_PCI then
        let (count, cps) = co_pci_request (guest_pci g) (unat (params g ! 1))
        in Some (g\<lparr>params := put_params 0 (count # map config_word cps) (params g)\<rparr>)
      else if device = ucast CO_DEVICE_SCSI then
        map_option (\<lambda>(devs, ps, pages, os). g\<lparr>guest_scsi := devs, params := ps, guest_pages := pages, host_os := os\<rparr>)
          (co_scsi_request (scsi_of_host host) (sint (params g ! 1)) (sint (params g ! 2))
            (guest_scsi g, params g, guest_pages g, host_os g))
      else Some g)"

end
