(* ===== verification/Guest_Run.thy ===== *)
theory Guest_Run
  imports Guest_Devices
begin

text \<open>
  The life of a guest (\<open>src/colinux/kernel/monitor.c\<close>): loading its kernel and its RAM disk, its start, the
  loop that switches to it and serves what it asks for, its end, the reset, and the requests of the
  daemon that owns it.
\<close>

section \<open>Returning to the guest\<close>

definition CO_OPERATION_START :: ulong where "CO_OPERATION_START = 1"
definition CO_OPERATION_IDLE :: ulong where "CO_OPERATION_IDLE = 2"
definition CO_OPERATION_TERMINATE :: ulong where "CO_OPERATION_TERMINATE = 3"
definition CO_OPERATION_MESSAGE_TO_MONITOR :: ulong where "CO_OPERATION_MESSAGE_TO_MONITOR = 4"
definition CO_OPERATION_MESSAGE_FROM_MONITOR :: ulong where "CO_OPERATION_MESSAGE_FROM_MONITOR = 5"
definition CO_OPERATION_FORWARD_INTERRUPT :: ulong where "CO_OPERATION_FORWARD_INTERRUPT = 6"
definition CO_OPERATION_DEVICE :: ulong where "CO_OPERATION_DEVICE = 7"
definition CO_OPERATION_GET_TIME :: ulong where "CO_OPERATION_GET_TIME = 8"
definition CO_OPERATION_DEBUG_LINE :: ulong where "CO_OPERATION_DEBUG_LINE = 9"
definition CO_OPERATION_GET_HIGH_PREC_TIME :: ulong where "CO_OPERATION_GET_HIGH_PREC_TIME = 10"
definition CO_OPERATION_TRACE_POINT :: ulong where "CO_OPERATION_TRACE_POINT = 11"
definition CO_OPERATION_FREE_PAGES :: ulong where "CO_OPERATION_FREE_PAGES = 12"
definition CO_OPERATION_ALLOC_PAGES :: ulong where "CO_OPERATION_ALLOC_PAGES = 13"
definition CO_OPERATION_GETPP :: ulong where "CO_OPERATION_GETPP = 15"

lemmas guest_operations = CO_OPERATION_START_def CO_OPERATION_IDLE_def CO_OPERATION_TERMINATE_def CO_OPERATION_MESSAGE_TO_MONITOR_def
  CO_OPERATION_MESSAGE_FROM_MONITOR_def CO_OPERATION_FORWARD_INTERRUPT_def CO_OPERATION_DEVICE_def CO_OPERATION_GET_TIME_def
  CO_OPERATION_DEBUG_LINE_def CO_OPERATION_GET_HIGH_PREC_TIME_def CO_OPERATION_TRACE_POINT_def CO_OPERATION_FREE_PAGES_def
  CO_OPERATION_ALLOC_PAGES_def CO_OPERATION_GETPP_def

text \<open>\<open>now\<close> is the reading of the clock of the host. The divisor has 32 bits, and so has the parameter.\<close>

definition callback_return_jiffies :: "ulonglong \<Rightarrow> 'os guest \<Rightarrow> 'os guest option" where
  "callback_return_jiffies now g =
     (if timestamp g < now
      then map_option (\<lambda>(diff, reminder). g\<lparr>timestamp_reminder := ucast reminder, timestamp := now, params := put_params 1 [ucast diff] (params g)\<rparr>)
             (co_div64_32 (timestamp_reminder g + 100 * (now - timestamp g)) (ucast (timestamp_freq g)))
      else Some (g\<lparr>params := put_params 1 [0] (params g)\<rparr>))"

definition callback_return :: "'os guest_host \<Rightarrow> 'os guest \<Rightarrow> 'os guest option" where
  "callback_return host g =
     do {
       (rc, sz, io) \<leftarrow> callback_return_messages (Some (guest_area g));
       io \<leftarrow> io;
       callback_return_jiffies (host_timestamp host (host_os g))
         (g\<lparr>operation := CO_OPERATION_MESSAGE_FROM_MONITOR, guest_area := io, params := put_params 0 [sz] (params g)\<rparr>)
     }"

section \<open>Operations of the guest\<close>

definition CO_TERMINATE_END :: ulong where "CO_TERMINATE_END = 0"
definition CO_TERMINATE_PANIC :: ulong where "CO_TERMINATE_PANIC = 3"
definition CO_TERMINATE_BUG :: ulong where "CO_TERMINATE_BUG = 9"

definition page_text :: "'os guest \<Rightarrow> string" where
  "page_text g = concat (map word_chars (drop 4 (params g)))"

text \<open>\<open>text\<close> has 128 characters. A long name of a file is shown from its end.\<close>

definition set_bug_text :: "string \<Rightarrow> 'os guest \<Rightarrow> 'os guest" where
  "set_bug_text s g = g\<lparr>bug_info := (bug_info g)\<lparr>bug_text := s\<rparr>\<rparr>"

definition bug_name :: "string \<Rightarrow> nat \<Rightarrow> string \<Rightarrow> string option" where
  "bug_name buf len str =
     (if len < 127 then copy_terminated buf str len
      else do {
        name \<leftarrow> cstring (drop (len - 124) str);
        case co_snprintf buf 128 ''...%s'' [Va_str (Some name)] of Inl fault \<Rightarrow> None | Inr (_, s, _) \<Rightarrow> Some s
      })"

definition co_terminate :: "'os guest \<Rightarrow> 'os guest option" where
  "co_terminate g =
     (let len = unat (params g ! 3); str = page_text g; buf = bug_text (bug_info g);
          g = g\<lparr>timer := False, termination_reason := params g ! 0\<rparr>
      in map_option (\<lambda>g. g\<lparr>state := CO_MONITOR_STATE_TERMINATED\<rparr>)
           (if termination_reason g = CO_TERMINATE_PANIC then map_option (\<lambda>s. set_bug_text s g) (copy_terminated buf str (min len 127))
            else if termination_reason g = CO_TERMINATE_BUG then
              map_option (\<lambda>s. set_bug_text s (g\<lparr>bug_info := (bug_info g)\<lparr>bug_code := params g ! 1, bug_line := params g ! 2\<rparr>\<rparr>))
                (bug_name buf len str)
            else Some g))"

text \<open>What happens while the driver sleeps is up to the host.\<close>

definition co_idle :: "'os guest_host \<Rightarrow> 'os guest \<Rightarrow> bool \<times> 'os guest" where
  "co_idle host g = (let g = host_sleep host g in (linux_message_queue (guest_area g) \<noteq> [], g))"

text \<open>\<open>page\<close> is cleared and filled with the physical addresses of the pages of a buffer; \<open>sz\<close> and
  \<open>len\<close> count bytes of the table.\<close>

definition getpp_len :: "ulong \<Rightarrow> int \<Rightarrow> int" where
  "getpp_len vaddr sz =
     (let len = uint (((vaddr + CO_ARCH_PAGE_SIZE) AND CO_ARCH_PAGE_MASK) - vaddr) in if sz < len then sz else len)"

definition getpp_table :: "'os guest_host \<Rightarrow> ulong \<Rightarrow> nat \<Rightarrow> uchar list" where
  "getpp_table host buff n =
     concat (map (\<lambda>i. le_bytes (virt_to_phys host (buff + word_of_nat i * CO_ARCH_PAGE_SIZE))) [0..<n])"

function getpp_loop :: "'os guest_host \<Rightarrow> ulong \<Rightarrow> ulong \<Rightarrow> int \<Rightarrow> 'os guest \<Rightarrow> (ulong \<times> 'os guest) option" where
  "getpp_loop host vaddr buff sz g =
     (if sz \<le> 0 then Some (0, g)
      else case co_monitor_get_pfn (guest_pages g) vaddr of
        Inl rc \<Rightarrow> Some (1, g)
      | Inr pfn \<Rightarrow>
          if getpp_len vaddr sz \<le> 0 then None
          else do {
            pages \<leftarrow> page_write pfn (unat (vaddr AND NOT CO_ARCH_PAGE_MASK)) (getpp_table host buff (nat ((getpp_len vaddr sz + 3) div 4))) (guest_pages g);
            getpp_loop host (vaddr + word_of_int (getpp_len vaddr sz)) (buff + word_of_int ((getpp_len vaddr sz + 3) div 4) * CO_ARCH_PAGE_SIZE)
              (sz - getpp_len vaddr sz) (g\<lparr>guest_pages := pages\<rparr>)
          })"
  by pat_completeness auto
termination
  by (relation "measure (\<lambda>(host, vaddr, buff, sz, g). nat sz)") auto

declare getpp_loop.simps [simp del]

definition co_monitor_getpp :: "'os guest_host \<Rightarrow> ulong \<Rightarrow> ulong \<Rightarrow> int \<Rightarrow> 'os guest \<Rightarrow> 'os guest option" where
  "co_monitor_getpp host pp_buffer host_buffer host_buffer_size g =
     map_option (\<lambda>(r, g). g\<lparr>params := put_params 0 [r] (params g)\<rparr>) (getpp_loop host pp_buffer host_buffer (host_buffer_size div 1024) g)"

section \<open>Messages from the guest\<close>

text \<open>\<open>co_console_message_t\<close>: the type, and from byte 4 on the members of the union, in units of two
  bytes. \<open>data\<close> goes on to the end of the message.\<close>

definition unit_at :: "uchar list \<Rightarrow> nat \<Rightarrow> ushort" where
  "unit_at bs n = ucast (bs ! (4 + 2 * n)) OR push_bit 8 (ucast (bs ! (5 + 2 * n)))"

definition cells_from :: "uchar list \<Rightarrow> nat \<Rightarrow> ushort list" where
  "cells_from bs n = map (unit_at bs) [n..<(length bs - 4) div 2]"

definition cursor_at :: "uchar list \<Rightarrow> co_cursor_pos" where
  "cursor_at bs = \<lparr>cur_x = unit_at bs 0, cur_y = unit_at bs 1, cur_height = unit_at bs 2\<rparr>"

definition console_message :: "uchar list \<Rightarrow> co_console_message option" where
  "console_message bs =
     (let u = unit_at bs
      in if length bs < 16 then None
         else case word_at bs 0 of None \<Rightarrow> None | Some t \<Rightarrow>
           if t = 0 then Some CONSOLE_STARTUP
           else if t = 1 then Some CONSOLE_INIT
           else if t = 2 then Some CONSOLE_DEINIT
           else if t = 3 then Some (CONSOLE_CLEAR (u 0) (u 1) (u 2) (u 3) (u 4))
           else if t = 4 then Some (CONSOLE_PUTC (u 0) (u 1) (u 2))
           else if t = 5 then Some (CONSOLE_PUTCS (u 0) (u 1) (u 2) (cells_from bs 3))
           else if t = 6 then Some (CONSOLE_CURSOR_DRAW (cursor_at bs))
           else if t = 7 then Some (CONSOLE_CURSOR_ERASE (cursor_at bs))
           else if t = 8 then Some (CONSOLE_CURSOR_MOVE (cursor_at bs))
           else if t = 9 then Some (CONSOLE_SCROLL_UP (u 0) (u 1) (u 2) (u 3))
           else if t = 10 then Some (CONSOLE_SCROLL_DOWN (u 0) (u 1) (u 2) (u 3))
           else if t = 11 then Some (CONSOLE_BMOVE (u 0) (u 1) (u 2) (u 3) (u 4) (u 5))
           else if t = 12 then Some CONSOLE_SWITCH
           else if t = 20 then Some (CONSOLE_CONFIG (u 0) (u 1) (u 2))
           else if t = 21 then Some (CONSOLE_INIT_SCROLLBUFFER (u 0) (u 1) (u 2) (cells_from bs 3))
           else Some CONSOLE_BLANK)"

text \<open>\<open>incoming_message\<close> with the console of the driver.\<close>

definition guest_message :: "message_answers \<Rightarrow> co_message \<Rightarrow> 'os guest \<Rightarrow> 'os guest option" where
  "guest_message ans message g =
     do {
       st \<leftarrow> incoming_message (ma_env ans) (ma_depth ans) (ma_filtered ans) (ma_direct ans) (ma_room ans) (ma_steps ans)
         (monitor g) message (manager g);
       let g = g\<lparr>manager := st\<rparr>;
       if msg_to message = CO_MODULE_CONSOLE \<and> msg_from message = CO_MODULE_LINUX
       then do {
         m \<leftarrow> console_message (msg_data message);
         (rc, console, m) \<leftarrow> co_console_op (Some (guest_console g)) m;
         console \<leftarrow> console;
         Some (g\<lparr>guest_console := console\<rparr>)
       }
       else Some g
     }"

definition message_from_guest :: "uchar list \<Rightarrow> co_message option" where
  "message_from_guest bs =
     do {
       from \<leftarrow> word_at bs 0; to \<leftarrow> word_at bs 4; prio \<leftarrow> word_at bs 8; ty \<leftarrow> word_at bs 12; sz \<leftarrow> word_at bs 16;
       Some \<lparr>msg_from = from, msg_to = to, priority = prio, msg_type = ty, msg_size = sz, msg_data = drop 20 bs\<rparr>
     }"

section \<open>The loop\<close>

text \<open>What the guest asks for; the result says whether to go on.\<close>

definition guest_operation :: "'os guest_host \<Rightarrow> 'os guest \<Rightarrow> (bool \<times> 'os guest) option" where
  "guest_operation host g =
     (let op = operation g
      in if op = CO_OPERATION_FREE_PAGES then
         map_option (\<lambda>st. (True, g\<lparr>guest_pages := st\<rparr>)) (co_free_pages (params g ! 0) (nat (sint (params g ! 1))) (guest_pages g))
       else if op = CO_OPERATION_ALLOC_PAGES then
         map_option (\<lambda>(rc, st). (True, g\<lparr>guest_pages := st, params := put_params 4 [CO_RC_word rc (fst (rc_place host)) (snd (rc_place host))] (params g)\<rparr>))
           (co_alloc_pages (params g ! 0) (nat (sint (params g ! 1))) (guest_pages g))
       else if op = CO_OPERATION_FORWARD_INTERRUPT then
         Some (if timer_interrupt g then (False, g\<lparr>timer_interrupt := False\<rparr>) else (True, g))
       else if op = CO_OPERATION_TERMINATE then map_option (Pair False) (co_terminate g)
       else if op = CO_OPERATION_IDLE then Some (co_idle host g)
       else if op = CO_OPERATION_GETPP then map_option (Pair True) (co_monitor_getpp host (params g ! 0) (params g ! 1) (sint (params g ! 2)) g)
       else if op = CO_OPERATION_MESSAGE_TO_MONITOR then do {
         message \<leftarrow> message_from_guest (io_bytes (guest_area g));
         g \<leftarrow> (if msg_to message < CO_MODULES_MAX then guest_message (message_answer host g) message g else Some g);
         Some (True, g\<lparr>guest_area := (guest_area g)\<lparr>messages_waiting := 0\<rparr>\<rparr>)
       }
       else if op = CO_OPERATION_DEVICE then
         map_option (Pair True) (device_request host (params g ! 0) g)
       else if op = CO_OPERATION_GET_TIME then
         Some (True, g\<lparr>params := put_params 0 [host_time (files_of_host host) (host_os g)] (params g)\<rparr>)
       else if op = CO_OPERATION_GET_HIGH_PREC_TIME then
         Some (True, g\<lparr>params := put_params 0 (narrow (host_timestamp host (host_os g)) @ narrow (host_timestamp_freq host (host_os g))) (params g)\<rparr>)
       else if op = CO_OPERATION_DEBUG_LINE \<or> op = CO_OPERATION_TRACE_POINT then Some (True, g)
       else Some (False, g))"

text \<open>One switch to the guest.\<close>

definition iteration :: "'os guest_host \<Rightarrow> 'os guest \<Rightarrow> (bool \<times> 'os guest) option" where
  "iteration host g =
     do {
       g \<leftarrow> (if operation g = CO_OPERATION_FORWARD_INTERRUPT \<or> operation g = CO_OPERATION_IDLE then callback_return host g else Some g);
       guest_operation host (host_switch host g)
     }"

text \<open>The loop goes on for as long as the guest asks for nothing the daemon has to do.\<close>

partial_function (option) run_loop :: "'os guest_host \<Rightarrow> 'os guest \<Rightarrow> 'os guest option" where
  "run_loop host g = Option.bind (iteration host g) (\<lambda>(again, g). if again then run_loop host g else Some g)"

definition run :: "'os guest_host \<Rightarrow> 'os guest \<Rightarrow> (co_rc_value \<times> 'os guest) option" where
  "run host g =
     (case state g of
        CO_MONITOR_STATE_RUNNING \<Rightarrow> map_option (Pair CO_RC_OK) (run_loop host g)
      | CO_MONITOR_STATE_STARTED \<Rightarrow> map_option (\<lambda>(again, g). (CO_RC_OK, g)) (iteration host (g\<lparr>state := CO_MONITOR_STATE_RUNNING\<rparr>))
      | CO_MONITOR_STATE_TERMINATED \<Rightarrow> Some (CO_RC_INSTANCE_TERMINATED, g)
      | _ \<Rightarrow> Some (CO_RC_ERROR, g))"

definition timer_callback :: "'os guest \<Rightarrow> 'os guest" where
  "timer_callback g = g\<lparr>timer_interrupt := True\<rparr>"

section \<open>The devices of the configuration\<close>

fun load_scsi :: "nat \<Rightarrow> co_scsi_dev_desc list \<Rightarrow> 'os guest \<Rightarrow> co_rc_value \<times> 'os guest" where
  "load_scsi i [] g = (CO_RC_OK, g)"
| "load_scsi i (cp # cps) g =
     (if \<not> scsi_enabled cp then load_scsi (Suc i) cps g
      else let (room, st) = co_os_malloc_answer (guest_pages g)
      in if \<not> room then (CO_RC_OUT_OF_MEMORY, g\<lparr>guest_pages := st\<rparr>)
         else load_scsi (Suc i) cps
           (g\<lparr>guest_pages := st, guest_scsi := (guest_scsi g)[i := Some \<lparr>sd_conf = cp, sd_os_handle = 0\<rparr>]\<rparr>))"

definition block_conf :: "Config.co_block_dev_desc \<Rightarrow> Co_Block.co_block_dev_desc" where
  "block_conf c =
     Co_Block.co_block_dev_desc.make (cobd_enabled c) (cobd_pathname c) (Config.co_block_dev_desc.alias_used c) (cobd_alias c)"

fun load_blocks :: "'os guest_host \<Rightarrow> nat \<Rightarrow> Config.co_block_dev_desc list \<Rightarrow> 'os guest \<Rightarrow> co_rc_value \<times> 'os guest" where
  "load_blocks host i [] g = (CO_RC_OK, g)"
| "load_blocks host i (c # cs) g =
     (if \<not> cobd_enabled c then load_blocks host (Suc i) cs g
      else let (room, st) = co_os_malloc_answer (guest_pages g)
      in if \<not> room then (CO_RC_OUT_OF_MEMORY, g\<lparr>guest_pages := st\<rparr>)
         else let dev = co_monitor_file_block_init (async_block_operations host) (default_block_operations host) (cobd_async_enable (conf_of g)) (cobd_pathname c)
         in load_blocks host (Suc i) cs
              (g\<lparr>guest_pages := st,
                guest_blocks := co_monitor_block_register_device (guest_blocks g) i (dev\<lparr>dev_conf := Some (block_conf c)\<rparr>)\<rparr>))"

fun load_filesystems :: "'os guest_host \<Rightarrow> nat \<Rightarrow> co_cofsdev_desc list \<Rightarrow> 'os guest \<Rightarrow> (co_rc_value \<times> 'os guest) option" where
  "load_filesystems host i [] g = Some (CO_RC_OK, g)"
| "load_filesystems host i (desc # descs) g =
     (if \<not> cofs_enabled desc then load_filesystems host (Suc i) descs g
      else do {
        (rc, fs) \<leftarrow> co_monitor_file_system_init (file_system_rooms host i) (cofs_pathname desc);
        if \<not> CO_OK rc then Some (rc, g)
        else load_filesystems host (Suc i) descs (g\<lparr>guest_filesystems := (guest_filesystems g)[i := fs]\<rparr>)
      })"

definition free_scsi :: "'os guest_host \<Rightarrow> 'os guest \<Rightarrow> 'os guest" where
  "free_scsi host g =
     (let (devs, os) = co_monitor_unregister_and_free_scsi_devices (scsi_of_host host) (guest_scsi g) (host_os g)
      in g\<lparr>guest_scsi := devs, host_os := os\<rparr>)"

definition free_blocks :: "'os guest \<Rightarrow> 'os guest" where
  "free_blocks g =
     (let (devs, os) = co_monitor_unregister_and_free_block_devices (free_file_blockdevice (\<lambda>dev os. os)) (guest_blocks g, host_os g)
      in g\<lparr>guest_blocks := devs, host_os := os\<rparr>)"

definition free_filesystems :: "'os guest \<Rightarrow> 'os guest option" where
  "free_filesystems g =
     map_option (\<lambda>filesystems. g\<lparr>guest_filesystems := filesystems\<rparr>) (co_monitor_unregister_filesystems (guest_filesystems g))"

text \<open>Each label frees what the labels above it leave.\<close>

definition load_configuration :: "'os guest_host \<Rightarrow> 'os guest \<Rightarrow> (co_rc_value \<times> 'os guest) option" where
  "load_configuration host g =
     (let (rc, g) = load_scsi 0 (scsi_devs (conf_of g)) g
      in if \<not> CO_OK rc then Some (rc, free_scsi host g)
         else let (rc, g) = load_blocks host 0 (block_devs (conf_of g)) g
         in if \<not> CO_OK rc then Some (rc, free_scsi host (free_blocks g))
            else do {
              (rc, g) \<leftarrow> load_filesystems host 0 (cofs_devs (conf_of g)) g;
              if \<not> CO_OK rc then map_option (\<lambda>g. (rc, free_scsi host (free_blocks g))) (free_filesystems g)
              else Some (CO_RC_OK, g\<lparr>guest_pci := co_pci_setconfig (guest_pci g) [] [] (map (\<lambda>dev. dev \<noteq> None) (guest_scsi g))
                (map net_enabled (net_devs (conf_of g)))\<rparr>)
            })"

section \<open>Loading and starting\<close>

text \<open>A section without data is cleared. \<open>params->size\<close> is not compared with the size of the request.\<close>

definition load_section :: "ulong \<Rightarrow> ulong \<Rightarrow> uchar list option \<Rightarrow> 'os guest \<Rightarrow> (co_rc_value \<times> 'os guest) option" where
  "load_section address sz buf g =
     (if state g \<noteq> CO_MONITOR_STATE_INITIALIZED then Some (CO_RC_ERROR, g)
      else map_option (\<lambda>(rc, st). (rc, g\<lparr>guest_pages := st\<rparr>)) (co_monitor_copy_region address sz buf (guest_pages g)))"

definition initrd_place :: "ulong \<Rightarrow> 'os guest \<Rightarrow> ulong" where
  "initrd_place sz g =
     CO_ARCH_KERNEL_OFFSET + memory_size (guest_pages g) - push_bit CO_ARCH_PAGE_SHIFT (drop_bit CO_ARCH_PAGE_SHIFT (sz + CO_ARCH_PAGE_SIZE))"

definition load_initrd :: "ulong \<Rightarrow> uchar list \<Rightarrow> 'os guest \<Rightarrow> (co_rc_value \<times> 'os guest) option" where
  "load_initrd sz buf g =
     (if state g \<noteq> CO_MONITOR_STATE_INITIALIZED then Some (CO_RC_ERROR, g)
      else let address = initrd_place sz g
      in if address \<le> core_end g + 0x100000 then Some (CO_RC_ERROR, g)
         else map_option (\<lambda>(rc, st). (rc, let g = g\<lparr>guest_pages := st\<rparr>
                in if CO_OK rc then g\<lparr>initrd_address := address, initrd_size := sz\<rparr> else g))
              (co_monitor_copy_region address sz (Some buf) (guest_pages g)))"

definition start :: "'os guest_host \<Rightarrow> 'os guest \<Rightarrow> (co_rc_value \<times> 'os guest) option" where
  "start host g =
     (if state g \<noteq> CO_MONITOR_STATE_INITIALIZED then Some (CO_RC_ERROR, g)
      else do {
        (rc, directory, st) \<leftarrow> guest_address_space_init (kernel_swapper_pg_dir g) (passage_alloc host) (passage_init host) (passage_phys host)
          (io_buffer_phys host) (guest_pages g);
        let g = g\<lparr>guest_pages := st, pgd := directory\<rparr>;
        if \<not> CO_OK rc then Some (rc, g)
        else Some (CO_RC_OK, g\<lparr>timestamp := host_timestamp host (host_os g), timestamp_freq := host_timestamp_freq host (host_os g),
          timer := True, operation := CO_OPERATION_START,
          params := put_params 10 (chars_words (boot_parameters_line (conf_of g)))
            (put_params 0 [core_end g, memory_size st, initrd_address g, initrd_size g, host_cpu_khz host (host_os g)] (params g)),
          state := CO_MONITOR_STATE_STARTED\<rparr>)
      })"

section \<open>The owner\<close>

text \<open>A reset does not touch the timer.\<close>

definition co_monitor_user_reset :: "'os guest_host \<Rightarrow> 'os guest \<Rightarrow> (co_rc_value \<times> 'os guest) option" where
  "co_monitor_user_reset host g =
     do {
       let g = g\<lparr>state := CO_MONITOR_STATE_EMPTY, guest_area := (guest_area g)\<lparr>linux_message_queue := []\<rparr>\<rparr>;
       (rc, st) \<leftarrow> alloc_pp_ram_mapping (free_pseudo_physical_memory (guest_pages g));
       let g = g\<lparr>guest_pages := st\<rparr>;
       if \<not> CO_OK rc then Some (rc, g)
       else do {
         g \<leftarrow> free_filesystems (free_blocks (free_scsi host g));
         (rc, g) \<leftarrow> load_configuration host g;
         if \<not> CO_OK rc then Some (rc, g\<lparr>guest_pages := free_pseudo_physical_memory (guest_pages g)\<rparr>)
         else do {
           mon \<leftarrow> monitors_at (manager g) (monitor g);
           let st = (if mon_listed mon then manager g
             else (manager g)\<lparr>monitors_at := (monitors_at (manager g))(monitor g \<mapsto> mon\<lparr>mon_listed := True\<rparr>), mgr_monitors := monitor g # mgr_monitors (manager g)\<rparr>);
           Some (CO_RC_OK, g\<lparr>manager := st, guest_area := (guest_area g)\<lparr>messages_waiting := 0, io_bytes := replicate (length (io_bytes (guest_area g))) 0\<rparr>,
             state := CO_MONITOR_STATE_INITIALIZED, termination_reason := CO_TERMINATE_END\<rparr>)
         }
       }
     }"

definition co_monitor_user_get_state :: "'os guest \<Rightarrow> co_monitor_state \<times> ulong \<times> co_monitor_linux_bug_invocation" where
  "co_monitor_user_get_state g = (state g, termination_reason g, bug_info g)"

section \<open>The console for a daemon\<close>

definition word_of_cell :: "co_console_cell \<Rightarrow> ushort" where
  "word_of_cell c = ucast (ch c) OR push_bit 8 (ucast (attr c))"

text \<open>One row of cells from a position of the buffer on; reading beyond the buffer is \<^term>\<open>None\<close>.\<close>

definition console_row :: "co_console \<Rightarrow> nat \<Rightarrow> ushort list option" where
  "console_row c pos =
     (let x = unat (cfg_x (config c))
      in if length (buffer c) < pos + x then None else Some (map word_of_cell (take x (drop pos (buffer c)))))"

definition row_message :: "bool \<Rightarrow> co_console \<Rightarrow> nat \<Rightarrow> co_console_message option" where
  "row_message scroll c y =
     (let x = unat (cfg_x (config c))
      in map_option (\<lambda>row. if scroll then CONSOLE_INIT_SCROLLBUFFER (word_of_nat y) 0 (ucast (cfg_x (config c))) row
             else CONSOLE_PUTCS (word_of_nat y) 0 (ucast (cfg_x (config c))) row)
           (console_row c ((if scroll then 0 else screen c) + y * x)))"

text \<open>The messages in their order; the rows of the scroll buffer start at the height of the screen.\<close>

definition console_messages :: "co_console \<Rightarrow> co_console_message list option" where
  "console_messages c =
     do {
       let rows = unat (cfg_y (config c));
       scrolled \<leftarrow> those (map (row_message True c) [rows..<unat (cfg_max_y (config c))]);
       shown \<leftarrow> those (map (row_message False c) [0..<rows]);
       Some (scrolled @ shown @ [CONSOLE_CURSOR_MOVE (cursor c)])
     }"

definition unit_bytes :: "ushort \<Rightarrow> uchar list" where
  "unit_bytes u = [ucast u, ucast (drop_bit 8 u)]"

definition console_bytes :: "co_console_message \<Rightarrow> uchar list" where
  "console_bytes m =
     (case m of
        CONSOLE_INIT_SCROLLBUFFER y x n cells \<Rightarrow> le32 21 @ concat (map unit_bytes (y # x # n # cells))
      | CONSOLE_PUTCS y x n cells \<Rightarrow> le32 5 @ concat (map unit_bytes (y # x # n # cells))
      | CONSOLE_CURSOR_MOVE p \<Rightarrow> le32 8 @ concat (map unit_bytes [cur_x p, cur_y p, cur_height p])
      | _ \<Rightarrow> [])"

fun send_console :: "'os guest_host \<Rightarrow> co_console_message list \<Rightarrow> 'os guest \<Rightarrow> 'os guest option" where
  "send_console host [] g = Some g"
| "send_console host (m # ms) g =
     guest_message (message_answer host g)
       \<lparr>msg_from = CO_MODULE_MONITOR, msg_to = CO_MODULE_CONSOLE, priority = 0, msg_type = 0,
         msg_size = word_of_nat (length (console_bytes m)), msg_data = console_bytes m\<rparr> g \<bind> send_console host ms"

definition co_monitor_user_get_console :: "'os guest_host \<Rightarrow> bool \<Rightarrow> 'os guest \<Rightarrow> (co_rc_value \<times> co_console_config \<times> 'os guest) option" where
  "co_monitor_user_get_console host room g =
     (let c = guest_console g
      in if \<not> room then Some (CO_RC_OUT_OF_MEMORY, config c, g)
         else do { ms \<leftarrow> console_messages c; g \<leftarrow> send_console host ms g; Some (CO_RC_OK, config c, g) })"

section \<open>Requests of a daemon\<close>

text \<open>The requests but \<open>CO_MONITOR_IOCTL_CLOSE\<close>, which is the manager's; the third kind of
  request is only for the daemon that created the monitor.\<close>

datatype monitor_ioctl =
    IOCTL_GET_CONSOLE bool
  | IOCTL_CONET_BIND_ADAPTER int int
  | IOCTL_CONET_UNBIND_ADAPTER int
  | IOCTL_GET_STATE
  | IOCTL_RESET
  | IOCTL_LOAD_SECTION ulong ulong "uchar list option"
  | IOCTL_LOAD_INITRD ulong "uchar list"
  | IOCTL_START
  | IOCTL_RUN
  | IOCTL_UNKNOWN

definition CO_CONET_BRIDGE :: int where "CO_CONET_BRIDGE = 0"

definition co_monitor_ioctl :: "'os guest_host \<Rightarrow> bool \<Rightarrow> monitor_ioctl \<Rightarrow> 'os guest \<Rightarrow> (co_rc_value \<times> 'os guest) option" where
  "co_monitor_ioctl host monitor_owner op g =
     (case op of
        IOCTL_GET_CONSOLE room \<Rightarrow> map_option (\<lambda>(rc, conf, g). (rc, g)) (co_monitor_user_get_console host room g)
      | IOCTL_CONET_BIND_ADAPTER proto unit \<Rightarrow>
          if proto = CO_CONET_BRIDGE then let (rc, os) = conet_bind_adapter host unit (host_os g) in Some (rc, g\<lparr>host_os := os\<rparr>)
          else Some (CO_RC_ERROR, g)
      | IOCTL_CONET_UNBIND_ADAPTER unit \<Rightarrow> let (rc, os) = conet_unbind_adapter host unit (host_os g) in Some (rc, g\<lparr>host_os := os\<rparr>)
      | _ \<Rightarrow>
          if \<not> monitor_owner then Some (CO_RC_ERROR, g)
          else case op of
            IOCTL_GET_STATE \<Rightarrow> Some (CO_RC_OK, g)
          | IOCTL_RESET \<Rightarrow> co_monitor_user_reset host g
          | IOCTL_LOAD_SECTION address sz buf \<Rightarrow> load_section address sz buf g
          | IOCTL_LOAD_INITRD sz buf \<Rightarrow> load_initrd sz buf g
          | IOCTL_START \<Rightarrow> start host g
          | IOCTL_RUN \<Rightarrow> run host g
          | _ \<Rightarrow> Some (CO_RC_ERROR, g))"

end
