(* ===== verification/Guest_Life.thy ===== *)
theory Guest_Life
  imports Guest_Run
begin

text \<open>
  The life of a guest: over every sequence of requests of daemons, ticks of the timer and messages of
  users, when its timer is active, and that a guest that has ended stays so.
\<close>

section \<open>What the operations keep\<close>

definition same_life :: "'os guest \<Rightarrow> 'os guest \<Rightarrow> bool" where
  "same_life g g' \<longleftrightarrow> state g' = state g \<and> timer g' = timer g"

lemma same_life_trans: "same_life g g' \<Longrightarrow> same_life g' g'' \<Longrightarrow> same_life g g''"
  by (simp add: same_life_def)

definition quiet :: "'os guest_host \<Rightarrow> bool" where
  "quiet host \<longleftrightarrow> (\<forall>g. same_life g (host_switch host g) \<and> same_life g (host_sleep host g))"

lemma callback_return_life: "callback_return host g = Some g' \<Longrightarrow> same_life g g'"
  by (auto simp: callback_return_def callback_return_jiffies_def same_life_def bind_eq_Some_conv split: if_splits option.splits)

lemma device_request_life: "device_request host device g = Some g' \<Longrightarrow> same_life g g'"
  by (auto simp: device_request_def same_life_def block_device_request_def network_device_request_def Let_def split: if_splits prod.splits)

lemma getpp_life: "getpp_loop host vaddr buff sz g = Some (r, g') \<Longrightarrow> same_life g g'"
proof (induction host vaddr buff sz g rule: getpp_loop.induct)
  case (1 host vaddr buff sz g)
  show ?case
    using 1(2) by (subst (asm) getpp_loop.simps)
      (fastforce simp: same_life_def bind_eq_Some_conv split: if_splits sum.splits dest: 1(1))
qed

lemma co_monitor_getpp_life: "co_monitor_getpp host pp buff sz g = Some g' \<Longrightarrow> same_life g g'"
  by (auto simp: co_monitor_getpp_def same_life_def dest: getpp_life)

lemma guest_message_life:
  assumes "guest_message ans message g = Some g'"
  shows "same_life g g'"
proof -
  obtain st where "incoming_message (ma_env ans) (ma_depth ans) (ma_filtered ans) (ma_direct ans) (ma_room ans) (ma_steps ans) (monitor g) message (manager g) = Some st"
    using assms by (auto simp: guest_message_def bind_eq_Some_conv)
  then show ?thesis
    using assms
    by (cases "console_message (msg_data message)") (auto simp: guest_message_def same_life_def Let_def split: if_splits Option.bind_splits)
qed

lemma co_terminate_life: "co_terminate g = Some g' \<Longrightarrow> state g' = CO_MONITOR_STATE_TERMINATED \<and> \<not> timer g'"
  by (auto simp: co_terminate_def set_bug_text_def Let_def split: if_splits)

lemma guest_operation_life:
  assumes "quiet host" and "guest_operation host g = Some (again, g')"
  shows "same_life g g' \<or> state g' = CO_MONITOR_STATE_TERMINATED \<and> \<not> timer g' \<and> \<not> again"
proof -
  consider "operation g = CO_OPERATION_TERMINATE" | "operation g = CO_OPERATION_IDLE" | "operation g = CO_OPERATION_GETPP"
    | "operation g = CO_OPERATION_MESSAGE_TO_MONITOR" | "operation g = CO_OPERATION_DEVICE"
    | "operation g \<notin> {CO_OPERATION_TERMINATE, CO_OPERATION_IDLE, CO_OPERATION_GETPP, CO_OPERATION_MESSAGE_TO_MONITOR, CO_OPERATION_DEVICE}"
    by auto
  then show ?thesis
  proof cases
    case 1
    then show ?thesis using assms(2) by (auto simp: guest_operation_def guest_operations dest: co_terminate_life)
  next
    case 2
    then show ?thesis using assms by (auto simp: guest_operation_def guest_operations co_idle_def quiet_def Let_def)
  next
    case 3
    then show ?thesis using assms(2) by (auto simp: guest_operation_def guest_operations dest: co_monitor_getpp_life)
  next
    case 4
    then show ?thesis using assms(2)
      by (auto simp: guest_operation_def guest_operations bind_eq_Some_conv same_life_def dest: guest_message_life [unfolded same_life_def] split: if_splits)
  next
    case 5
    then show ?thesis using assms(2) by (auto simp: guest_operation_def guest_operations dest: device_request_life)
  next
    case 6
    then show ?thesis using assms(2) by (auto simp: guest_operation_def Let_def same_life_def split: if_splits)
  qed
qed

lemma iteration_life:
  assumes "quiet host" and "iteration host g = Some (again, g')"
  shows "same_life g g' \<or> state g' = CO_MONITOR_STATE_TERMINATED \<and> \<not> timer g' \<and> \<not> again"
proof -
  obtain g1 where g1: "same_life g g1" "guest_operation host (host_switch host g1) = Some (again, g')"
    using assms(2) by (auto simp: iteration_def bind_eq_Some_conv same_life_def split: if_splits dest: callback_return_life [unfolded same_life_def])
  then have "same_life g (host_switch host g1)" using assms(1) by (auto simp: quiet_def same_life_def)
  then show ?thesis using guest_operation_life [OF assms(1) g1(2)] same_life_trans by blast
qed

lemma run_loop_life:
  "run_loop host g = Some g' \<Longrightarrow> quiet host \<Longrightarrow> same_life g g' \<or> state g' = CO_MONITOR_STATE_TERMINATED \<and> \<not> timer g'"
proof (induction rule: run_loop.raw_induct [rotated, consumes 1])
  case (1 loop host g g')
  obtain again g1 where it: "iteration host g = Some (again, g1)" "if again then loop host g1 = Some g' else g' = g1"
    using 1(2) by (auto simp: bind_eq_Some_conv split: if_splits)
  then show ?case using iteration_life [OF 1(3) it(1)] 1(1) [of host g1 g'] 1(3)
    unfolding same_life_def by (cases again) auto
qed

lemma run_life:
  assumes "quiet host" and "run host g = Some (rc, g')"
  shows "same_life g g' \<or> state g \<in> {CO_MONITOR_STATE_STARTED, CO_MONITOR_STATE_RUNNING} \<and>
    (state g' = CO_MONITOR_STATE_TERMINATED \<and> \<not> timer g' \<or> state g' = CO_MONITOR_STATE_RUNNING \<and> timer g' = timer g)"
  using assms(2) run_loop_life [of host g g'] assms(1) iteration_life [OF assms(1), of "g\<lparr>state := CO_MONITOR_STATE_RUNNING\<rparr>"]
  by (cases "state g") (auto simp: run_def same_life_def)

section \<open>The life of a guest\<close>

text \<open>What happens to a guest, in any order: requests of daemons with what they return, the timer of
  the host, and messages of users.\<close>

datatype guest_event =
    Asked bool monitor_ioctl co_rc_value
  | Timer_ticks
  | User_sends bool co_message

inductive guest_lives :: "'os guest_host \<Rightarrow> 'os guest \<Rightarrow> guest_event list \<Rightarrow> 'os guest \<Rightarrow> bool" for host g where
  begins: "guest_lives host g [] g"
| asked: "guest_lives host g es g1 \<Longrightarrow> co_monitor_ioctl host owner op g1 = Some (rc, g2) \<Longrightarrow> guest_lives host g (es @ [Asked owner op rc]) g2"
| ticks: "guest_lives host g es g1 \<Longrightarrow> guest_lives host g (es @ [Timer_ticks]) (timer_callback g1)"
| sends: "guest_lives host g es g1 \<Longrightarrow> co_monitor_message_from_user room m (guest_area g1) = (rc, io) \<Longrightarrow>
    guest_lives host g (es @ [User_sends room m]) (g1\<lparr>guest_area := io\<rparr>)"

definition reset_event :: "guest_event \<Rightarrow> bool" where
  "reset_event e \<longleftrightarrow> (case e of Asked owner op rc \<Rightarrow> owner \<and> op = IOCTL_RESET | _ \<Rightarrow> False)"

text \<open>A request that is none of reset, start and run keeps the state; a message to a daemon from the
  driver itself changes only the manager.\<close>

lemma driver_message: "guest_message ans m g = Some g' \<Longrightarrow> msg_from m = CO_MODULE_MONITOR \<Longrightarrow> \<exists>st. g' = g\<lparr>manager := st\<rparr>"
  by (auto simp: guest_message_def bind_eq_Some_conv Let_def CO_MODULE_MONITOR_def CO_MODULE_LINUX_def)

lemma send_console_manager: "send_console host ms g = Some g' \<Longrightarrow> \<exists>st. g' = g\<lparr>manager := st\<rparr>"
proof (induction ms arbitrary: g)
  case Nil
  then show ?case by (auto intro: exI [of _ "manager g"])
next
  case (Cons m ms)
  then obtain g1 where g1: "guest_message (message_answer host g) \<lparr>msg_from = CO_MODULE_MONITOR, msg_to = CO_MODULE_CONSOLE, priority = 0, msg_type = 0,
         msg_size = word_of_nat (length (console_bytes m)), msg_data = console_bytes m\<rparr> g = Some g1" "send_console host ms g1 = Some g'"
    by (auto simp: bind_eq_Some_conv)
  obtain st where "g1 = g\<lparr>manager := st\<rparr>" using driver_message [OF g1(1)] by auto
  moreover obtain st' where "g' = g1\<lparr>manager := st'\<rparr>" using Cons.IH [OF g1(2)] by blast
  ultimately show ?case by auto
qed

lemma get_console_manager: "co_monitor_user_get_console host room g = Some (rc, conf, g') \<Longrightarrow> \<exists>st. g' = g\<lparr>manager := st\<rparr>"
  by (auto simp: co_monitor_user_get_console_def Let_def bind_eq_Some_conv split: if_splits dest: send_console_manager
      intro: exI [of _ "manager g"])

definition left_alone :: "'os guest \<Rightarrow> 'os guest \<Rightarrow> bool" where
  "left_alone g g' \<longleftrightarrow>
     state g' = state g \<and> termination_reason g' = termination_reason g \<and> bug_info g' = bug_info g \<and> guest_pages g' = guest_pages g \<and>
     guest_blocks g' = guest_blocks g \<and> guest_scsi g' = guest_scsi g \<and> guest_filesystems g' = guest_filesystems g \<and>
     guest_console g' = guest_console g \<and> timer g' = timer g \<and> params g' = params g \<and> operation g' = operation g"

lemma left_alone_trans: "left_alone g g' \<Longrightarrow> left_alone g' g'' \<Longrightarrow> left_alone g g''"
  by (simp add: left_alone_def)

text \<open>What a daemon is told about a guest that has ended.\<close>

definition refused :: "guest_event \<Rightarrow> bool" where
  "refused e \<longleftrightarrow>
     (case e of
        Asked True IOCTL_RUN rc \<Rightarrow> rc = CO_RC_INSTANCE_TERMINATED
      | Asked True IOCTL_START rc \<Rightarrow> rc = CO_RC_ERROR
      | Asked True (IOCTL_LOAD_SECTION address sz buf) rc \<Rightarrow> rc = CO_RC_ERROR
      | Asked True (IOCTL_LOAD_INITRD sz buf) rc \<Rightarrow> rc = CO_RC_ERROR
      | _ \<Rightarrow> True)"

lemma dead_request:
  assumes "co_monitor_ioctl host owner op g = Some (rc, g')" and "state g = CO_MONITOR_STATE_TERMINATED" and "\<not> (owner \<and> op = IOCTL_RESET)"
  shows "left_alone g g' \<and> refused (Asked owner op rc)"
proof (cases op)
  case (IOCTL_GET_CONSOLE room)
  then obtain st where "g' = g\<lparr>manager := st\<rparr>"
    using assms(1) get_console_manager [of host room g rc _ g'] by (auto simp: co_monitor_ioctl_def)
  then show ?thesis using IOCTL_GET_CONSOLE by (simp add: left_alone_def refused_def split: bool.split)
qed (use assms in \<open>auto simp: co_monitor_ioctl_def left_alone_def refused_def run_def start_def load_section_def load_initrd_def Let_def
    split: if_splits prod.splits bool.splits\<close>)

text \<open>
  C4: a guest that has ended stays ended until the daemon that owns it resets it: whatever is asked,
  ticks or is sent, its memory, devices, console, passage page and the reason of its end are not changed, every request to run it is answered with INSTANCE_TERMINATED and every request to load or start it with an
  error.
\<close>

theorem terminated_stays:
  assumes "guest_lives host g es g'" and "state g = CO_MONITOR_STATE_TERMINATED" and "\<not> list_ex reset_event es"
  shows "left_alone g g' \<and> list_all refused es"
  using assms
proof (induction rule: guest_lives.induct)
  case (asked es g1 owner op rc g2)
  then have "left_alone g g1" "list_all refused es" by simp_all
  moreover have "left_alone g1 g2 \<and> refused (Asked owner op rc)"
    using asked \<open>left_alone g g1\<close> by (intro dead_request) (auto simp: left_alone_def reset_event_def)
  ultimately show ?case using left_alone_trans by auto
qed (auto simp: left_alone_def refused_def timer_callback_def)

section \<open>The timer\<close>

definition timed :: "'os guest \<Rightarrow> bool" where
  "timed g \<longleftrightarrow> state g \<noteq> CO_MONITOR_STATE_EMPTY \<and> (timer g \<longleftrightarrow> state g \<in> {CO_MONITOR_STATE_STARTED, CO_MONITOR_STATE_RUNNING})"

lemma start_life:
  assumes "start host g = Some (rc, g')"
  shows "same_life g g' \<or> state g = CO_MONITOR_STATE_INITIALIZED \<and> state g' = CO_MONITOR_STATE_STARTED \<and> timer g'"
proof (cases "guest_address_space_init (kernel_swapper_pg_dir g) (passage_alloc host) (passage_init host) (passage_phys host)
    (io_buffer_phys host) (guest_pages g)")
  case None
  then show ?thesis using assms by (simp add: start_def same_life_def split: if_splits)
next
  case (Some r)
  then show ?thesis using assms by (cases r) (simp add: start_def same_life_def Let_def split: if_splits, auto)
qed

lemma timed_request:
  assumes "co_monitor_ioctl host owner op g = Some (rc, g')" and "timed g" and "quiet host" and "\<not> (owner \<and> op = IOCTL_RESET)"
  shows "timed g'"
proof (cases op)
  case (IOCTL_GET_CONSOLE room)
  then obtain st where "g' = g\<lparr>manager := st\<rparr>"
    using assms(1) get_console_manager [of host room g rc _ g'] by (auto simp: co_monitor_ioctl_def)
  then show ?thesis using assms(2) by (simp add: timed_def)
next
  case IOCTL_RUN
  then show ?thesis using assms run_life [OF assms(3), of g rc g'] by (auto simp: co_monitor_ioctl_def timed_def same_life_def split: if_splits)
next
  case IOCTL_START
  then show ?thesis using assms(1,2) start_life [of host g rc g'] by (auto simp: co_monitor_ioctl_def timed_def same_life_def split: if_splits)
qed (use assms in \<open>auto simp: co_monitor_ioctl_def timed_def load_section_def load_initrd_def Let_def split: if_splits prod.splits\<close>)


text \<open>A guest that is started, and a host whose guest asks for its end when it is switched to.\<close>

lemma ending_guest:
  fixes g :: "unit guest"
  assumes "g1 = g\<lparr>state := CO_MONITOR_STATE_STARTED, timer := True, operation := CO_OPERATION_START\<rparr>"
    and "sw = (\<lambda>g. g\<lparr>operation := CO_OPERATION_TERMINATE, params := [1, 0, 0, 0]\<rparr>)"
    and "h1 = host\<lparr>host_switch := sw, host_sleep := \<lambda>g. g\<rparr>"
    and "g2 = (sw (timer_callback g1))\<lparr>timer := False, termination_reason := 1, state := CO_MONITOR_STATE_TERMINATED\<rparr>"
  shows "guest_lives h1 g1 [Timer_ticks, Asked True IOCTL_RUN CO_RC_OK, Asked True IOCTL_RUN CO_RC_INSTANCE_TERMINATED] g2"
    and "guest_lives h1 g2 [Asked True IOCTL_RUN CO_RC_INSTANCE_TERMINATED, Asked True IOCTL_START CO_RC_ERROR, Timer_ticks] (timer_callback g2)"
    and "quiet h1"
proof -
  have "iteration h1 ((timer_callback g1)\<lparr>state := CO_MONITOR_STATE_RUNNING\<rparr>) = Some (False, g2)"
    unfolding assms
    by (simp add: iteration_def guest_operation_def guest_operations co_terminate_def timer_callback_def CO_TERMINATE_PANIC_def CO_TERMINATE_BUG_def Let_def)
  then have run: "co_monitor_ioctl h1 True IOCTL_RUN (timer_callback g1) = Some (CO_RC_OK, g2)"
    unfolding assms by (simp add: co_monitor_ioctl_def run_def timer_callback_def)
  have dead: "co_monitor_ioctl h1 True IOCTL_RUN g2 = Some (CO_RC_INSTANCE_TERMINATED, g2)"
      "co_monitor_ioctl h1 True IOCTL_START g2 = Some (CO_RC_ERROR, g2)"
    unfolding assms by (simp_all add: co_monitor_ioctl_def run_def start_def)
  show "guest_lives h1 g1 [Timer_ticks, Asked True IOCTL_RUN CO_RC_OK, Asked True IOCTL_RUN CO_RC_INSTANCE_TERMINATED] g2"
    using guest_lives.asked [OF guest_lives.asked [OF guest_lives.ticks [OF guest_lives.begins] run] dead(1)] by simp
  show "guest_lives h1 g2 [Asked True IOCTL_RUN CO_RC_INSTANCE_TERMINATED, Asked True IOCTL_START CO_RC_ERROR, Timer_ticks] (timer_callback g2)"
    using guest_lives.ticks [OF guest_lives.asked [OF guest_lives.asked [OF guest_lives.begins dead(1)] dead(2)]] by simp
  show "quiet h1" unfolding assms by (simp add: quiet_def same_life_def)
qed


theorem terminated_stays_witness:
  "\<forall>(host :: unit guest_host) (g :: unit guest). \<exists>h1 g2 (g3 :: unit guest).
     state g2 = CO_MONITOR_STATE_TERMINATED \<and>
     guest_lives h1 g2 [Asked True IOCTL_RUN CO_RC_INSTANCE_TERMINATED, Asked True IOCTL_START CO_RC_ERROR, Timer_ticks] g3 \<and>
     termination_reason g2 = 1 \<and> left_alone g2 g3"
proof (intro allI)
  fix host :: "unit guest_host" and g :: "unit guest"
  let ?g1 = "g\<lparr>state := CO_MONITOR_STATE_STARTED, timer := True, operation := CO_OPERATION_START\<rparr>"
  let ?g2 = "(timer_callback ?g1)\<lparr>operation := CO_OPERATION_TERMINATE, params := [1, 0, 0, 0], timer := False, termination_reason := 1,
    state := CO_MONITOR_STATE_TERMINATED\<rparr>"
  let ?g3 = "timer_callback ?g2"
  note lives = ending_guest [where host = host and g = g, OF refl refl refl refl]
  show "\<exists>h1 g2 (g3 :: unit guest).
     state g2 = CO_MONITOR_STATE_TERMINATED \<and>
     guest_lives h1 g2 [Asked True IOCTL_RUN CO_RC_INSTANCE_TERMINATED, Asked True IOCTL_START CO_RC_ERROR, Timer_ticks] g3 \<and>
     termination_reason g2 = 1 \<and> left_alone g2 g3"
  proof (intro exI conjI)
    show "left_alone ?g2 ?g3" using terminated_stays [OF lives(2)] by (simp add: reset_event_def)
  qed (simp, rule lives(2), simp)
qed

text \<open>A reset does not stop the timer: a running guest that is reset is initialised, and its timer
  goes on; \<open>co_monitor_destroy\<close> stops it only in the states started and running.\<close>

lemma load_scsi_life: "load_scsi i cps g = (rc, g') \<Longrightarrow> same_life g g'"
  by (induction i cps g rule: load_scsi.induct) (auto simp: same_life_def split: if_splits prod.splits)

lemma load_blocks_life: "load_blocks host i cs g = (rc, g') \<Longrightarrow> same_life g g'"
  by (induction host i cs g rule: load_blocks.induct) (auto simp: same_life_def Let_def split: if_splits prod.splits)

lemma load_filesystems_life: "load_filesystems host i descs g = Some (rc, g') \<Longrightarrow> same_life g g'"
proof (induction descs arbitrary: i g)
  case Nil
  then show ?case by (simp add: same_life_def)
next
  case (Cons desc descs)
  show ?case
  proof (cases "co_monitor_file_system_init (file_system_rooms host i) (cofs_pathname desc)")
    case None
    then show ?thesis using Cons by (auto split: if_splits)
  next
    case (Some r)
    then show ?thesis using Cons.prems Cons.IH by (cases r) (auto simp: same_life_def split: if_splits)
  qed
qed

lemma load_configuration_life:
  assumes "load_configuration host g = Some (CO_RC_OK, g')"
  shows "same_life g g'"
proof -
  obtain r1 g1 where l1: "load_scsi 0 (scsi_devs (conf_of g)) g = (r1, g1)" by fastforce
  obtain r2 g2 where l2: "load_blocks host 0 (block_devs (conf_of g1)) g1 = (r2, g2)" by fastforce
  have ok: "r1 = CO_RC_OK" "r2 = CO_RC_OK" using assms by (auto simp: load_configuration_def l1 l2 CO_OK_def split: if_splits)
  obtain r3 g3 where l3: "load_filesystems host 0 (cofs_devs (conf_of g2)) g2 = Some (r3, g3)"
    using assms by (cases "load_filesystems host 0 (cofs_devs (conf_of g2)) g2") (auto simp: load_configuration_def l1 l2 ok CO_OK_def)
  then have "same_life g3 g'" using assms by (auto simp: load_configuration_def l1 l2 ok CO_OK_def same_life_def split: if_splits)
  then show ?thesis using load_scsi_life [OF l1] load_blocks_life [OF l2] load_filesystems_life [OF l3] same_life_trans by blast
qed

lemma free_devices_life: "free_filesystems (free_blocks (free_scsi host g)) = Some g' \<Longrightarrow> same_life g g'"
  by (auto simp: free_filesystems_def free_blocks_def free_scsi_def same_life_def split: prod.splits)

theorem reset_leaves_timer:
  assumes "co_monitor_user_reset host g = Some (CO_RC_OK, g')"
  shows "state g' = CO_MONITOR_STATE_INITIALIZED \<and> timer g' = timer g"
proof -
  let ?g = "g\<lparr>state := CO_MONITOR_STATE_EMPTY, guest_area := (guest_area g)\<lparr>linux_message_queue := []\<rparr>\<rparr>"
  obtain rc st where a: "alloc_pp_ram_mapping (free_pseudo_physical_memory (guest_pages g)) = Some (rc, st)"
    using assms by (cases "alloc_pp_ram_mapping (free_pseudo_physical_memory (guest_pages g))") (auto simp: co_monitor_user_reset_def)
  then have rc: "CO_OK rc" using assms by (auto simp: co_monitor_user_reset_def CO_OK_def Let_def split: if_splits)
  let ?freed = "free_filesystems (free_blocks (free_scsi host (?g\<lparr>guest_pages := st\<rparr>)))"
  obtain g1 where l: "?freed = Some g1"
    using assms a rc by (cases ?freed) (auto simp: co_monitor_user_reset_def Let_def)
  obtain rc2 g2 where l2: "load_configuration host g1 = Some (rc2, g2)"
    using assms a rc l by (cases "load_configuration host g1") (auto simp: co_monitor_user_reset_def Let_def)
  then have ok2: "rc2 = CO_RC_OK"
    using assms a rc l by (auto simp: co_monitor_user_reset_def Let_def CO_OK_def split: if_splits)
  have g': "state g' = CO_MONITOR_STATE_INITIALIZED" "timer g' = timer g2"
    using assms a rc l l2 ok2 by (cases "monitors_at (manager g2) (monitor g2)"; auto simp: co_monitor_user_reset_def Let_def CO_OK_def split: if_splits)+
  show ?thesis using g' free_devices_life [OF l] load_configuration_life [OF l2 [unfolded ok2]] by (simp add: same_life_def)
qed

end
