(* ===== verification/Guest_Clock.thy ===== *)
theory Guest_Clock
  imports Guest_Run
begin

text \<open>
  The jiffies a guest is told at its returns (\<open>callback_return_jiffies\<close> of \<open>monitor.c\<close>), and the hundredths of a second that
  pass on the host.
\<close>

section \<open>The clock of the guest\<close>

text \<open>A sequence of returns to the guest, each with its reading of the clock of the host: the jiffies the guest
  is told, added up.\<close>

fun clock_runs :: "ulonglong list \<Rightarrow> 'os guest \<Rightarrow> (nat \<times> 'os guest) option" where
  "clock_runs [] g = Some (0, g)"
| "clock_runs (now # ts) g =
     do {
       g \<leftarrow> callback_return_jiffies now g;
       let jiffies = unat (params g ! 1);
       (n, g) \<leftarrow> clock_runs ts g;
       Some (jiffies + n, g)
     }"

lemma put_param: "ps \<noteq> [] \<Longrightarrow> put_params 1 [x] ps ! 1 = x \<and> put_params 1 [x] ps \<noteq> []"
  by (cases ps) (simp_all add: put_params_def)

lemma jiffies_step:
  assumes "params g \<noteq> []" and "0 < unat (timestamp_freq g)" and "unat (timestamp_freq g) < 2 ^ 32"
    and "timestamp g < now" and "unat (timestamp_reminder g) + 100 * (unat now - unat (timestamp g)) < 2 ^ 64"
    and n: "n = unat (timestamp_reminder g) + 100 * (unat now - unat (timestamp g))" and "n div unat (timestamp_freq g) < 2 ^ 32"
  obtains g' where "callback_return_jiffies now g = Some g'" and "unat (params g' ! 1) = n div unat (timestamp_freq g)"
    and "unat (timestamp_reminder g') = n mod unat (timestamp_freq g)" and "timestamp g' = now" and "timestamp_freq g' = timestamp_freq g"
    and "params g' \<noteq> []"
proof -
  let ?f = "ucast (timestamp_freq g) :: ulong"
  have f: "unat ?f = unat (timestamp_freq g)" using assms(3) by (simp add: unsigned_ucast_eq take_bit_eq_mod)
  then have "?f \<noteq> 0" using assms(2) by (metis unat_0 less_irrefl)
  have diff: "unat (now - timestamp g) = unat now - unat (timestamp g)" using assms(4) by (simp add: unat_sub less_imp_le)
  have "unat (100 * (now - timestamp g)) = 100 * (unat now - unat (timestamp g))"
    using assms(5) diff by (subst unat_mult_lem [THEN iffD1]) simp_all
  then have sum: "unat (timestamp_reminder g + 100 * (now - timestamp g)) = n"
    using assms(5) n by (subst unat_add_lem [THEN iffD1]) simp_all
  obtain q r where qr: "co_div64_32 (timestamp_reminder g + 100 * (now - timestamp g)) ?f = Some (q, r)" "unat q = n div unat ?f" "unat r = n mod unat ?f"
    using div64_divides [OF \<open>?f \<noteq> 0\<close>, of "timestamp_reminder g + 100 * (now - timestamp g)"] sum by auto
  have q: "unat (ucast q :: ulong) = unat q" using qr(2) f assms(7) by (simp add: unsigned_ucast_eq take_bit_eq_mod)
  have r: "unat (ucast r :: ulonglong) = unat r" using unsigned_less [of r, where ?'a = nat] by (simp add: unsigned_ucast_eq take_bit_eq_mod)
  let ?g = "g\<lparr>timestamp_reminder := ucast r, timestamp := now, params := put_params 1 [ucast q] (params g)\<rparr>"
  have run: "callback_return_jiffies now g = Some ?g" using assms(4) qr(1) by (simp add: callback_return_jiffies_def)
  show ?thesis
  proof (rule that [OF run])
    show "unat (params ?g ! 1) = n div unat (timestamp_freq g)" "params ?g \<noteq> []" using put_param [OF assms(1), of "ucast q"] q qr(2) f by auto
    show "unat (timestamp_reminder ?g) = n mod unat (timestamp_freq g)" using r qr(3) f by simp
  qed simp_all
qed

text \<open>
  C5: the guest's time does not drift: however often it returns and however uneven the readings of
  the clock of the host are, the jiffies it is told add up to exactly the hundredths of a second that have
  passed (rounded down once, not at each return), the fraction is kept for the next return, and a
  reading that is not later than all before counts nothing.
\<close>

theorem jiffies_add_up:
  assumes "params g \<noteq> []" and "unat (timestamp_reminder g) < unat (timestamp_freq g)" and "unat (timestamp_freq g) < 2 ^ 32"
    and "t = fold max ts (timestamp g)" and "n = unat (timestamp_reminder g) + 100 * (unat t - unat (timestamp g))"
    and "n < 2 ^ 64" and "n div unat (timestamp_freq g) < 2 ^ 32"
  shows "\<exists>g'. clock_runs ts g = Some (n div unat (timestamp_freq g), g') \<and>
    unat (timestamp_reminder g') = n mod unat (timestamp_freq g) \<and> timestamp g' = t"
  using assms
proof (induction ts arbitrary: g n)
  case Nil
  then show ?case by simp
next
  case (Cons now ts)
  let ?f = "unat (timestamp_freq g)" and ?r = "unat (timestamp_reminder g)" and ?t0 = "unat (timestamp g)"
  have freq: "0 < ?f" using Cons.prems(2) by linarith
  show ?case
  proof (cases "timestamp g < now")
    case False
    let ?g = "g\<lparr>params := put_params 1 [0] (params g)\<rparr>"
    have "max now (timestamp g) = timestamp g" using False by (intro max.absorb2) simp
    then have "t = fold max ts (timestamp ?g)" using Cons.prems(4) by simp
    moreover have "params ?g \<noteq> []" "params ?g ! 1 = 0" using put_param [OF Cons.prems(1), of 0] by auto
    ultimately obtain g' where "clock_runs ts ?g = Some (n div ?f, g')" "unat (timestamp_reminder g') = n mod ?f" "timestamp g' = t"
      using Cons.IH [of ?g n] Cons.prems by auto
    then show ?thesis using False \<open>params ?g ! 1 = 0\<close> by (simp add: callback_return_jiffies_def Let_def)
  next
    case True
    then have "max now (timestamp g) = now" by (intro max.absorb1) simp
    then have t: "t = fold max ts now" using Cons.prems(4) by simp
    have "now \<le> t" unfolding t by (induction ts arbitrary: now) (auto intro: order_trans [OF max.cobounded2])
    then have le: "?t0 < unat now" "unat now \<le> unat t" using True by (simp_all add: word_less_nat_alt word_le_nat_alt)
    define k where "k = ?r + 100 * (unat now - ?t0)"
    have nk: "n = k + 100 * (unat t - unat now)" using Cons.prems(5) le by (simp add: k_def)
    have k64: "?r + 100 * (unat now - ?t0) < 2 ^ 64" using nk Cons.prems(6) by (simp add: k_def)
    have k32: "k div ?f < 2 ^ 32" using nk Cons.prems(7) by (intro le_less_trans [OF div_le_mono [of k n ?f]]) simp_all
    obtain g1 where g1: "callback_return_jiffies now g = Some g1" "unat (params g1 ! 1) = k div ?f" "unat (timestamp_reminder g1) = k mod ?f"
        "timestamp g1 = now" "timestamp_freq g1 = timestamp_freq g" "params g1 \<noteq> []"
      by (rule jiffies_step [OF Cons.prems(1) freq Cons.prems(3) True k64 k_def k32])
    define m where "m = k mod ?f + 100 * (unat t - unat now)"
    have n: "n = k div ?f * ?f + m" using nk by (simp add: m_def)
    have parts: "n div ?f = k div ?f + m div ?f" "n mod ?f = m mod ?f" unfolding n using freq by simp_all
    have m64: "m < 2 ^ 64" using n Cons.prems(6) by linarith
    have m32: "m div ?f < 2 ^ 32" using parts(1) Cons.prems(7) by linarith
    have "unat (timestamp_reminder g1) < unat (timestamp_freq g1)" "t = fold max ts (timestamp g1)"
        "m = unat (timestamp_reminder g1) + 100 * (unat t - unat (timestamp g1))"
      using g1 freq t by (simp_all add: m_def)
    then obtain g' where "clock_runs ts g1 = Some (m div ?f, g')" "unat (timestamp_reminder g') = m mod ?f" "timestamp g' = t"
      using Cons.IH [of g1 m] g1(5,6) Cons.prems(3) m64 m32 by auto
    then show ?thesis using g1 parts by (simp add: Let_def)
  qed
qed

theorem jiffies_add_up_witness:
  "\<forall>g :: unit guest. \<exists>g'. clock_runs [1194182, 600000, 11933820]
      (g\<lparr>params := [0, 0], timestamp := 1000, timestamp_freq := 1193182, timestamp_reminder := 0\<rparr>) = Some (1000, g') \<and>
    unat (timestamp_reminder g') = 100000 \<and> timestamp g' = 11933820"
proof
  fix g :: "unit guest"
  let ?g = "g\<lparr>params := [0, 0], timestamp := 1000, timestamp_freq := 1193182, timestamp_reminder := 0\<rparr>"
  have "max (1194182 :: ulonglong) 1000 = 1194182" "max (600000 :: ulonglong) 1194182 = 1194182" "max (11933820 :: ulonglong) 1194182 = 11933820"
    by (simp_all add: max_def word_le_nat_alt)
  then have "\<exists>g'. clock_runs [1194182, 600000, 11933820] ?g = Some (1193282000 div unat (timestamp_freq ?g), g') \<and>
      unat (timestamp_reminder g') = 1193282000 mod unat (timestamp_freq ?g) \<and> timestamp g' = 11933820"
    by (intro jiffies_add_up) simp_all
  then show "\<exists>g'. clock_runs [1194182, 600000, 11933820] ?g = Some (1000, g') \<and> unat (timestamp_reminder g') = 100000 \<and> timestamp g' = 11933820"
    by simp
qed

end
