(* ===== verification/Guest_Screen.thy ===== *)
theory Guest_Screen
  imports Guest_Run
begin

text \<open>
  What a daemon that asks for the console (\<open>co_monitor_user_get_console\<close> of \<open>monitor.c\<close>) sees when it gives the messages it is sent
  to a console of its own.
\<close>

section \<open>A row\<close>

lemma cell_of_word [simp]: "cell_of (word_of_cell cell) = cell"
proof -
  have "ucast (ucast (ch cell) OR push_bit 8 (ucast (attr cell)) :: ushort) = ch cell"
    by (intro bit_word_eqI) (auto simp: bit_simps)
  moreover have "ucast (drop_bit 8 (ucast (ch cell) OR push_bit 8 (ucast (attr cell)) :: ushort)) = attr cell"
    by (intro bit_word_eqI) (auto simp: bit_simps dest: bit_imp_le_length)
  ultimately show ?thesis by (simp add: cell_of_def word_of_cell_def)
qed

text \<open>What a console has to have so that a row of it fits in a message, whose fields have two bytes.\<close>

definition sendable :: "co_console \<Rightarrow> bool" where
  "sendable c \<longleftrightarrow> console_ok c \<and> unat (cfg_x (config c)) < 2 ^ 16 \<and> unat (cfg_max_y (config c)) < 2 ^ 16"

text \<open>The rows of the buffer or of the screen.\<close>

definition row_base :: "bool \<Rightarrow> co_console \<Rightarrow> nat" where
  "row_base scroll c = (if scroll then 0 else screen c)"

definition row_count :: "bool \<Rightarrow> co_console \<Rightarrow> nat" where
  "row_count scroll c = unat (if scroll then cfg_max_y (config c) else cfg_y (config c))"

lemma row_shown:
  assumes c: "sendable c" and d: "console_ok d" "config d = config c" and y: "y < row_count scroll c"
  defines "X \<equiv> unat (cfg_x (config c))" and "B \<equiv> row_base scroll c"
  obtains m d' where "row_message scroll c y = Some m" and "console_op d m = Some (CO_RC_OK, d', m)" and "console_ok d'" and "config d' = config c"
    and "cursor d' = cursor d"
    and "\<And>i. i < length (buffer c) \<Longrightarrow> buffer d' ! i = (if B + X * y \<le> i \<and> i < B + X * Suc y then buffer c ! i else buffer d ! i)"
proof -
  have ok: "console_ok c" and small: "X < 2 ^ 16" "unat (cfg_max_y (config c)) < 2 ^ 16" using c by (simp_all add: sendable_def X_def)
  note C = console_okD [OF ok, folded X_def] and D = console_okD [OF d(1), unfolded d(2), folded X_def]
  have R: "row_count scroll c \<le> unat (cfg_max_y (config c))" using C(3) by (simp add: row_count_def)
  have room: "B + X * row_count scroll c \<le> X * unat (cfg_max_y (config c))" using C(7) by (simp add: B_def row_base_def row_count_def)
  have "X * Suc y \<le> X * row_count scroll c" using y by (intro mult_le_mono2) simp
  then have row_end: "B + X * y + X \<le> length (buffer c)" using room C(5) by simp
  define row where "row = map word_of_cell (take X (drop (B + y * X) (buffer c)))"
  have len: "length row = X" using row_end by (simp add: row_def mult.commute)
  have nth: "cell_of (row ! k) = buffer c ! (B + X * y + k)" if "k < X" for k using that row_end by (simp add: row_def mult.commute)
  define m where "m = (if scroll then CONSOLE_INIT_SCROLLBUFFER (word_of_nat y) 0 (ucast (cfg_x (config c))) row
    else CONSOLE_PUTCS (word_of_nat y) 0 (ucast (cfg_x (config c))) row)"
  have msg: "row_message scroll c y = Some m"
    using row_end unfolding row_message_def console_row_def m_def row_def B_def row_base_def X_def
    by (simp add: Let_def mult.commute)
  have uy: "unat (word_of_nat y :: ushort) = y" using y R small(2) by (simp add: unsigned_of_nat take_bit_eq_mod)
  have ux: "unat (ucast (cfg_x (config c)) :: ushort) = X" using small(1) by (simp add: X_def unsigned_ucast_eq take_bit_eq_mod)
  let ?rows = "if scroll then cfg_max_y (config d) else cfg_y (config d)" and ?base = "if scroll then 0 else screen d"
  have base: "?base = 0 \<and> ?rows = cfg_max_y (config d) \<or> ?base = screen d \<and> ?rows = cfg_y (config d)" by simp
  have Bd: "?base = B" using C(6) D(6) by (simp add: B_def row_base_def)
  have pre: "unat (word_of_nat y :: ushort) < unat ?rows" "unat (0 :: ushort) < unat (cfg_x (config d))"
      "min (unat (ucast (cfg_x (config c)) :: ushort)) (unat (cfg_x (config d)) - unat (0 :: ushort)) \<le> length row"
    using y uy ux len C(1) d(2) by (auto simp: row_count_def X_def)
  obtain d' where put: "putcs ?base ?rows (word_of_nat y) 0 (ucast (cfg_x (config c))) row d = Some (CO_RC_OK, d')"
    and d': "console_ok d'" "config d' = config d" "cursor d' = cursor d"
    and cells: "\<forall>i < length (buffer d). buffer d' ! i = (let start = ?base + unat (cfg_x (config d)) * unat (word_of_nat y :: ushort) + unat (0 :: ushort)
      in if start \<le> i \<and> i < start + min (unat (ucast (cfg_x (config c)) :: ushort)) (unat (cfg_x (config d)) - unat (0 :: ushort))
         then cell_of (row ! (i - start)) else buffer d ! i)"
    using putcs_writes [OF d(1) base pre] by blast
  show ?thesis
  proof (rule that [OF msg])
    show "console_op d m = Some (CO_RC_OK, d', m)" using put by (cases scroll) (simp_all add: m_def d(2))
    show "buffer d' ! i = (if B + X * y \<le> i \<and> i < B + X * Suc y then buffer c ! i else buffer d ! i)" if "i < length (buffer c)" for i
    proof -
      have "i < length (buffer d)" using that C(5) D(5) by simp
      then have "buffer d' ! i = (if B + X * y \<le> i \<and> i < B + X * y + X then cell_of (row ! (i - (B + X * y))) else buffer d ! i)"
        using cells uy ux Bd d(2) by (simp add: Let_def X_def [symmetric])
      also have "\<dots> = (if B + X * y \<le> i \<and> i < B + X * Suc y then buffer c ! i else buffer d ! i)"
        using nth [of "i - (B + X * y)"] by auto
      finally show ?thesis .
    qed
  qed (use d' d(2) in simp_all)
qed

section \<open>The whole console\<close>

lemma console_ops_append: "console_ops c (ms @ ns) = Option.bind (console_ops c ms) (\<lambda>c. console_ops c ns)"
  by (induction ms arbitrary: c) (auto split: option.splits Option.bind_splits)

text \<open>A range of rows, in their order.\<close>

lemma rows_shown:
  assumes c: "sendable c" and d: "console_ok d" "config d = config c" and n: "y + n \<le> row_count scroll c"
  defines "X \<equiv> unat (cfg_x (config c))" and "B \<equiv> row_base scroll c"
  obtains ms d' where "those (map (row_message scroll c) [y..<y + n]) = Some ms" and "console_ops d ms = Some d'" and "console_ok d'"
    and "config d' = config c" and "cursor d' = cursor d"
    and "\<And>i. i < length (buffer c) \<Longrightarrow> buffer d' ! i = (if B + X * y \<le> i \<and> i < B + X * (y + n) then buffer c ! i else buffer d ! i)"
proof -
  have "\<exists>ms d'. those (map (row_message scroll c) [y..<y + n]) = Some ms \<and> console_ops d ms = Some d' \<and> console_ok d' \<and>
    config d' = config c \<and> cursor d' = cursor d \<and>
    (\<forall>i < length (buffer c). buffer d' ! i = (if B + X * y \<le> i \<and> i < B + X * (y + n) then buffer c ! i else buffer d ! i))"
    using d n
  proof (induction n arbitrary: y d)
    case 0
    then show ?case by auto
  next
    case (Suc n)
    obtain m d1 where m: "row_message scroll c y = Some m" "console_op d m = Some (CO_RC_OK, d1, m)" "console_ok d1" "config d1 = config c"
        "cursor d1 = cursor d"
      and cells: "\<And>i. i < length (buffer c) \<Longrightarrow> buffer d1 ! i = (if B + X * y \<le> i \<and> i < B + X * Suc y then buffer c ! i else buffer d ! i)"
      by (rule row_shown [OF c Suc.prems(1,2), of y scroll, folded X_def B_def]) (use Suc.prems(3) in auto)
    obtain ms d' where ms: "those (map (row_message scroll c) [Suc y..<Suc y + n]) = Some ms" "console_ops d1 ms = Some d'" "console_ok d'"
        "config d' = config c" "cursor d' = cursor d1"
      and rest: "\<forall>i < length (buffer c). buffer d' ! i = (if B + X * Suc y \<le> i \<and> i < B + X * (Suc y + n) then buffer c ! i else buffer d1 ! i)"
      using Suc.IH [OF m(3,4), of "Suc y"] Suc.prems(3) by auto
    have "[y..<y + Suc n] = y # [Suc y..<Suc y + n]" by (simp add: upt_rec)
    then have "those (map (row_message scroll c) [y..<y + Suc n]) = Some (m # ms)" using m(1) ms(1) by simp
    moreover have "console_ops d (m # ms) = Some d'" using m(2) ms(2) by (simp add: co_console_op_def)
    moreover have "buffer d' ! i = (if B + X * y \<le> i \<and> i < B + X * (y + Suc n) then buffer c ! i else buffer d ! i)"
      if "i < length (buffer c)" for i
    proof -
      define p q r where "p = B + X * y" and "q = B + X * Suc y" and "r = B + X * (y + Suc n)"
      have "p \<le> q" "q \<le> r" unfolding p_def q_def r_def by (intro add_le_mono mult_le_mono2; simp)+
      moreover have "buffer d' ! i = (if q \<le> i \<and> i < r then buffer c ! i else buffer d1 ! i)"
        using rest that by (simp add: q_def r_def)
      ultimately show ?thesis using cells [OF that, folded p_def q_def] by (fold p_def r_def) auto
    qed
    ultimately show ?case using ms(3,4,5) m(5) by (intro exI [of _ "m # ms"] exI [of _ d']) simp
  qed
  then show ?thesis using that by blast
qed

text \<open>
  C6: a daemon that gives the messages of the console, in their order, to a fresh console of the same
  configuration has the cells of the screen, its cursor and the end of the scroll buffer as they are
  in the driver, and no message is refused. The first rows of the scroll buffer are not sent: as many as the screen has, or all if there are
  fewer; they stay empty.
\<close>

theorem console_shown:
  assumes "sendable c" and "co_console_create True (config c) = Some (Inr d)"
  defines "missing \<equiv> unat (cfg_x (config c)) * min (unat (cfg_y (config c))) (unat (cfg_max_y (config c)) - unat (cfg_y (config c)))"
  shows "\<exists>ms d'. console_messages c = Some ms \<and> console_ops d ms = Some d' \<and> screen d' = screen c \<and> cursor d' = cursor c \<and>
    buffer d' = replicate missing zero_cell @ drop missing (buffer c)"
proof -
  define X where "X = unat (cfg_x (config c))"
  define Y where "Y = unat (cfg_y (config c))"
  define M where "M = unat (cfg_max_y (config c))"
  have ok: "console_ok c" using assms(1) by (simp add: sendable_def)
  note C = console_okD [OF ok, folded X_def Y_def M_def]
  have d: "console_ok d" "config d = config c" "set (buffer d) \<subseteq> {zero_cell}"
    using co_console_create_ok [of "config c"] ok assms(2) by (auto simp: console_ok_def)
  obtain ms1 d1 where one: "those (map (row_message True c) [Y..<Y + (M - Y)]) = Some ms1" "console_ops d ms1 = Some d1" "console_ok d1"
      "config d1 = config c"
    and cells1: "\<And>i. i < length (buffer c) \<Longrightarrow> buffer d1 ! i =
      (if row_base True c + X * Y \<le> i \<and> i < row_base True c + X * (Y + (M - Y)) then buffer c ! i else buffer d ! i)"
    by (rule rows_shown [OF assms(1) d(1,2), of Y "M - Y" True, folded X_def]) (use C(3) in \<open>auto simp: row_count_def M_def Y_def\<close>)
  obtain ms2 d2 where two: "those (map (row_message False c) [0..<0 + Y]) = Some ms2" "console_ops d1 ms2 = Some d2" "console_ok d2"
      "config d2 = config c"
    and cells2: "\<And>i. i < length (buffer c) \<Longrightarrow> buffer d2 ! i =
      (if row_base False c + X * 0 \<le> i \<and> i < row_base False c + X * (0 + Y) then buffer c ! i else buffer d1 ! i)"
    by (rule rows_shown [OF assms(1) one(3,4), of 0 Y False, folded X_def]) (auto simp: row_count_def Y_def)
  define d' where "d' = d2\<lparr>cursor := cursor c\<rparr>"
  have ms: "console_messages c = Some (ms1 @ ms2 @ [CONSOLE_CURSOR_MOVE (cursor c)])"
    using one(1) two(1) C(3) by (simp add: console_messages_def Let_def Y_def M_def)
  have run: "console_ops d (ms1 @ ms2 @ [CONSOLE_CURSOR_MOVE (cursor c)]) = Some d'"
    using one(2) two(2) by (simp add: console_ops_append co_console_op_def d'_def)
  have lens: "length (buffer d2) = X * M" "length (buffer d) = X * M" "screen d2 = screen c"
    using console_okD(5,6) [OF two(3)] console_okD(5) [OF d(1)] C(6) by (simp_all add: two(4) d(2) X_def Y_def M_def)
  have missing: "missing = X * min Y (M - Y)" by (simp add: missing_def X_def Y_def M_def)
  have le: "missing \<le> X * M" unfolding missing by (intro mult_le_mono2) simp
  have split: "missing \<le> i \<longleftrightarrow> X * Y \<le> i \<or> X * (M - Y) \<le> i" for i
    unfolding missing by (metis min_def mult_le_mono2 nat_le_linear order_trans)
  have "buffer d2 = replicate missing zero_cell @ drop missing (buffer c)"
  proof (rule nth_equalityI)
    show "length (buffer d2) = length (replicate missing zero_cell @ drop missing (buffer c))" using lens C(5) le by simp
    fix i
    assume i: "i < length (buffer d2)"
    have "buffer d ! i \<in> set (buffer d)" using i lens by simp
    then have "buffer d ! i = zero_cell" using d(3) by blast
    then have "buffer d2 ! i = (if missing \<le> i then buffer c ! i else zero_cell)"
      using cells1 [of i] cells2 [of i] i lens C(3,5,6,7) by (auto simp: row_base_def split)
    then show "buffer d2 ! i = (replicate missing zero_cell @ drop missing (buffer c)) ! i"
      using i lens C(5) le by (simp add: nth_append)
  qed
  then show ?thesis using ms run lens(3) by (auto simp: d'_def)
qed

theorem console_shown_witness:
  "\<exists>c d ms d'. length (buffer c) = 8 \<and> co_console_create True (config c) = Some (Inr d) \<and> console_messages c = Some ms \<and>
     console_ops d ms = Some d' \<and>
     map ch (buffer c) = [1, 2, 3, 4, 5, 6, 7, 8] \<and> map ch (buffer d') = [0, 0, 3, 4, 5, 6, 7, 8] \<and> cursor d' = cursor c"
proof -
  let ?f = "\<lparr>cfg_x = 2, cfg_y = 1, cfg_max_y = 4, curs_type_size = 0, cfg_attr = 7\<rparr>"
  let ?c = "\<lparr>con_size = 56, config = ?f, screen = 6, buffer = map (\<lambda>n. \<lparr>ch = n, attr = 7\<rparr>) [1, 2, 3, 4, 5, 6, 7, 8],
    cursor = \<lparr>cur_x = 1, cur_y = 0, cur_height = 3\<rparr>\<rparr>"
  have "sendable ?c" by (simp add: sendable_def console_ok_def config_fits_def)
  moreover obtain d where d: "co_console_create True ?f = Some (Inr d)" using co_console_create_ok [of ?f] by (auto simp: config_fits_def)
  ultimately obtain ms d' where "console_messages ?c = Some ms" "console_ops d ms = Some d'" "cursor d' = cursor ?c"
      "buffer d' = replicate 2 zero_cell @ drop 2 (buffer ?c)"
    using console_shown [of ?c d] by auto
  then show ?thesis using d by (intro exI [of _ ?c] exI [of _ d] exI [of _ ms] exI [of _ d']) (simp add: zero_cell_def numeral_2_eq_2)
qed

end
