(* ===== verification/Guest_End.thy ===== *)
theory Guest_End
  imports Guest_Run Page_Transfer
begin

text \<open>
  The end of a guest (\<open>co_terminate\<close> of \<open>monitor.c\<close>): what a daemon reads afterwards of what the guest left in
  its passage page.
\<close>

section \<open>The text of a bug\<close>

text \<open>The name of the file as the guest gives it: \<open>params[3]\<close> characters, and then a 0.\<close>

definition left_text :: "'os guest \<Rightarrow> string \<Rightarrow> bool" where
  "left_text g name \<longleftrightarrow>
     CHR 0x00 \<notin> set name \<and> unat (params g ! 3) = length name \<and> (\<exists>rest. page_text g = name @ CHR 0x00 # rest)"

lemma text_copied:
  assumes "length buf = 128" and "CHR 0x00 \<notin> set name" and "n \<le> length name" and "n < 128"
  shows "\<exists>s. copy_terminated buf (name @ rest) n = Some s \<and> cstring s = Some (take n name) \<and> length s = 128"
proof -
  have "CHR 0x00 \<notin> set (take n name)" using assms(2) by (auto dest: in_set_takeD)
  then show ?thesis using assms cstring_terminated [of "take n name"] by (simp add: copy_terminated_Some)
qed

lemma name_shown:
  assumes "length buf = 128" and "CHR 0x00 \<notin> set name"
  shows "\<exists>s. bug_name buf (length name) (name @ CHR 0x00 # rest) = Some s \<and> length s = 128 \<and>
    cstring s = Some (if length name < 127 then name else ''...'' @ drop (length name - 124) name)"
proof (cases "length name < 127")
  case True
  then show ?thesis using text_copied [OF assms, of "length name" "CHR 0x00 # rest"] by (auto simp: bug_name_def)
next
  case False
  let ?rest = "drop (length name - 124) name"
  have nul: "CHR 0x00 \<notin> set (''...'' @ ?rest)" using assms(2) by (auto dest: in_set_dropD)
  have len: "length (''...'' @ ?rest) = 127" using False by simp
  have "cstring (drop (length name - 124) (name @ CHR 0x00 # rest)) = Some ?rest"
    using nul cstring_terminated [of ?rest rest] by simp
  moreover have "co_snprintf buf 128 ''...%s'' [Va_str (Some ?rest)] = Inr (127, ''...'' @ ?rest @ CHR 0x00 # drop 128 buf, [])"
    using snprintf_literal_string [of 128 buf "''...''" ?rest] assms(1) len by simp
  ultimately show ?thesis
    using False nul len assms(1) cstring_terminated [of "''...'' @ ?rest" "drop 128 buf"] by (simp add: bug_name_def)
qed

text \<open>
  C7: a guest that ends is terminated with its timer stopped, and the daemon then reads the reason it
  gave: of a panic the first 127 characters of its text, of a bug the code, the line and the name of the file, from which the
  beginning is cut if it has more than 126 characters, with dots for what is missing. For any other reason
  the texts stay.
\<close>

theorem co_terminate_reports:
  assumes "length (bug_text (bug_info g)) = 128" and "left_text g name"
  shows "\<exists>g' info shown. co_terminate g = Some g' \<and> \<not> timer g' \<and>
    co_monitor_user_get_state g' = (CO_MONITOR_STATE_TERMINATED, params g ! 0, info) \<and> cstring (bug_text info) = shown \<and>
    (params g ! 0 = CO_TERMINATE_PANIC \<longrightarrow> shown = Some (take 127 name)) \<and>
    (params g ! 0 = CO_TERMINATE_BUG \<longrightarrow> bug_code info = params g ! 1 \<and> bug_line info = params g ! 2 \<and>
       shown = Some (if length name < 127 then name else ''...'' @ drop (length name - 124) name)) \<and>
    (params g ! 0 \<noteq> CO_TERMINATE_PANIC \<and> params g ! 0 \<noteq> CO_TERMINATE_BUG \<longrightarrow> info = bug_info g)"
proof -
  obtain rest where str: "CHR 0x00 \<notin> set name" "unat (params g ! 3) = length name" "page_text g = name @ CHR 0x00 # rest"
    using assms(2) by (auto simp: left_text_def)
  have less: "min (length name) 127 < 128" by (rule le_less_trans [OF min.cobounded2]) simp
  obtain s where s: "copy_terminated (bug_text (bug_info g)) (name @ CHR 0x00 # rest) (min (length name) 127) = Some s"
      "cstring s = Some (take (min (length name) 127) name)"
    using text_copied [OF assms(1) str(1) min.cobounded1 less, of "CHR 0x00 # rest"] by blast
  have cut: "take (min (length name) 127) name = take 127 name" by (simp add: min_def)
  obtain t where t: "bug_name (bug_text (bug_info g)) (length name) (name @ CHR 0x00 # rest) = Some t"
      "cstring t = Some (if length name < 127 then name else ''...'' @ drop (length name - 124) name)"
    using name_shown [OF assms(1) str(1)] by blast
  consider "params g ! 0 = CO_TERMINATE_PANIC" | "params g ! 0 = CO_TERMINATE_BUG"
    | "params g ! 0 \<noteq> CO_TERMINATE_PANIC" "params g ! 0 \<noteq> CO_TERMINATE_BUG" by blast
  then show ?thesis
  proof cases
    case 1
    then have "params g ! 0 \<noteq> CO_TERMINATE_BUG" by (simp add: CO_TERMINATE_PANIC_def CO_TERMINATE_BUG_def)
    then show ?thesis using 1 str s cut
      by (simp add: co_terminate_def set_bug_text_def co_monitor_user_get_state_def Let_def)
  next
    case 2
    then have "params g ! 0 \<noteq> CO_TERMINATE_PANIC" by (simp add: CO_TERMINATE_PANIC_def CO_TERMINATE_BUG_def)
    then show ?thesis using 2 str t
      by (simp add: co_terminate_def set_bug_text_def co_monitor_user_get_state_def Let_def)
  next
    case 3
    then show ?thesis using str by (simp add: co_terminate_def co_monitor_user_get_state_def Let_def)
  qed
qed

theorem co_terminate_reports_witness:
  "\<forall>g :: unit guest. \<exists>g' info.
     co_terminate (g\<lparr>params := [CO_TERMINATE_BUG, 5, 42, 132] @ replicate 33 0x61616161 @ [0], bug_info := \<lparr>bug_line = 0, bug_code = 0, bug_text = replicate 128 CHR 0x00\<rparr>\<rparr>) = Some g' \<and>
     co_monitor_user_get_state g' = (CO_MONITOR_STATE_TERMINATED, CO_TERMINATE_BUG, info) \<and> bug_code info = 5 \<and> bug_line info = 42 \<and>
     cstring (bug_text info) = Some (''...'' @ concat (replicate 31 ''aaaa''))"
proof
  fix g :: "unit guest"
  let ?g = "g\<lparr>params := [CO_TERMINATE_BUG, 5, 42, 132] @ replicate 33 0x61616161 @ [0],
    bug_info := \<lparr>bug_line = 0, bug_code = 0, bug_text = replicate 128 CHR 0x00\<rparr>\<rparr>"
  have chars: "word_chars 0x61616161 = ''aaaa''" "word_chars 0 = replicate 4 CHR 0x00" by (code_simp, code_simp)
  have words: "page_text ?g = concat (replicate 33 ''aaaa'') @ CHR 0x00 # replicate 3 CHR 0x00"
    using chars by (simp add: page_text_def map_replicate_const eval_nat_numeral)
  have "left_text ?g (concat (replicate 33 ''aaaa''))"
    unfolding left_text_def words by (simp add: length_concat sum_list_replicate)
  moreover have "drop 8 (concat (replicate 33 ''aaaa'')) = concat (replicate 31 ''aaaa'')" by (simp add: eval_nat_numeral)
  ultimately show "\<exists>g' info. co_terminate ?g = Some g' \<and>
      co_monitor_user_get_state g' = (CO_MONITOR_STATE_TERMINATED, CO_TERMINATE_BUG, info) \<and> bug_code info = 5 \<and> bug_line info = 42 \<and>
      cstring (bug_text info) = Some (''...'' @ concat (replicate 31 ''aaaa''))"
    using co_terminate_reports [of ?g "concat (replicate 33 ''aaaa'')"]
    by (auto simp: length_concat sum_list_replicate)
qed

text \<open>The length is the guest's: a name that is said to reach behind the passage page is read there.\<close>

lemma bug_name_outside: "127 \<le> len \<Longrightarrow> length str + 124 \<le> len \<Longrightarrow> bug_name buf len str = None"
  by (simp add: bug_name_def cstring_def)

theorem co_terminate_reads_outside:
  assumes "params g ! 0 = CO_TERMINATE_BUG" and "127 \<le> unat (params g ! 3)" and "length (page_text g) + 124 \<le> unat (params g ! 3)"
  shows "co_terminate g = None"
  using assms bug_name_outside by (simp add: co_terminate_def CO_TERMINATE_BUG_def CO_TERMINATE_PANIC_def Let_def)

section \<open>The RAM disk\<close>

lemma pages_word: "unat (push_bit CO_ARCH_PAGE_SHIFT (drop_bit CO_ARCH_PAGE_SHIFT (w :: ulong))) = unat w div 4096 * 4096"
proof -
  have "unat w div 4096 * 4096 < 2 ^ 32" using unsigned_less [of w, where ?'a = nat] by (intro le_less_trans [OF div_times_less_eq_dividend]) simp
  then show ?thesis
    unfolding CO_ARCH_PAGE_SHIFT_def unsigned_push_bit_eq unsigned_drop_bit_eq
    by (simp add: push_bit_eq_mult drop_bit_eq_div take_bit_eq_mod min_def)
qed

text \<open>
  C8: a RAM disk that is accepted lies at the start of a page, more than a megabyte behind the kernel
  and completely inside the memory of the guest, and its place and size are what the guest will be
  told.
\<close>

theorem load_initrd_fits:
  assumes "load_initrd sz buf g = Some (CO_RC_OK, g')" and "unat sz < 2 ^ 31" and "unat (core_end g) + 0x100000 < 2 ^ 32"
    and "unat (memory_size (guest_pages g)) < 2 ^ 30" and "4096 dvd unat (memory_size (guest_pages g))"
  shows "4096 dvd unat (initrd_address g') \<and> unat (core_end g) + 0x100000 < unat (initrd_address g') \<and>
    unat (initrd_address g') + unat sz < unat CO_ARCH_KERNEL_OFFSET + unat (memory_size (guest_pages g)) \<and> initrd_size g' = sz"
proof -
  let ?m = "memory_size (guest_pages g)" and ?p = "unat (sz + CO_ARCH_PAGE_SIZE) div 4096 * 4096" and ?k = "unat CO_ARCH_KERNEL_OFFSET"
  have k: "?k = 0xc0000000" by (simp add: CO_ARCH_KERNEL_OFFSET_def)
  have sum: "unat (sz + CO_ARCH_PAGE_SIZE) = unat sz + 4096"
    using assms(2) by (subst unat_add_lem [THEN iffD1]) (simp_all add: CO_ARCH_PAGE_SIZE_def)
  have p: "unat sz < ?p" "?p \<le> unat sz + 4096" unfolding sum
    using div_mult_mod_eq [of "unat sz + 4096" 4096] mod_less_divisor [of 4096 "unat sz + 4096"] by linarith+
  have ends: "unat (CO_ARCH_KERNEL_OFFSET + ?m) = ?k + unat ?m"
    using assms(4) k by (subst unat_add_lem [THEN iffD1]) simp_all
  have place: "unat (initrd_place sz g) = ?k + unat ?m - ?p"
    unfolding initrd_place_def using ends p assms(2) k
    by (subst unat_sub) (simp_all add: word_le_nat_alt pages_word)
  have "4096 dvd ?k + unat ?m - ?p"
  proof (rule dvd_diff_nat)
    have "4096 dvd ?k" by (simp add: CO_ARCH_KERNEL_OFFSET_def)
    then show "4096 dvd ?k + unat ?m" using assms(5) by (rule dvd_add)
  qed simp
  moreover obtain st where "g' = g\<lparr>guest_pages := st, initrd_address := initrd_place sz g, initrd_size := sz\<rparr>"
      and far: "\<not> initrd_place sz g \<le> core_end g + 0x100000"
    using assms(1) by (simp add: load_initrd_def CO_OK_def Let_def split: if_splits) auto
  then have "initrd_address g' = initrd_place sz g" "initrd_size g' = sz" by simp_all
  moreover have "unat (core_end g + 0x100000) = unat (core_end g) + 0x100000"
    using assms(3) by (subst unat_add_lem [THEN iffD1]) simp_all
  then have "unat (core_end g) + 0x100000 < unat (initrd_place sz g)" using far by (simp add: word_le_nat_alt)
  ultimately show ?thesis using place p assms(2) k by auto
qed

theorem load_initrd_fits_witness:
  "\<forall>g :: unit guest. \<exists>g'.
     load_initrd 3 [1, 2, 3] (g\<lparr>state := CO_MONITOR_STATE_INITIALIZED, core_end := 0xbfe00000, guest_pages := demo_mapped\<lparr>memory_size := 0x1000\<rparr>\<rparr>) = Some (CO_RC_OK, g') \<and>
     initrd_size g' = 3 \<and> 0xbff00000 < unat (initrd_address g') \<and> unat (initrd_address g') + 3 < 0xc0001000"
proof
  fix g :: "unit guest"
  let ?st = "demo_mapped\<lparr>memory_size := 0x1000\<rparr>"
  let ?g = "g\<lparr>state := CO_MONITOR_STATE_INITIALIZED, core_end := 0xbfe00000, guest_pages := ?st\<rparr>"
  have place: "initrd_place 3 ?g = 0xc0000000"
    by (simp add: initrd_place_def CO_ARCH_KERNEL_OFFSET_def CO_ARCH_PAGE_SHIFT_def CO_ARCH_PAGE_SIZE_def)
  obtain st where "co_monitor_copy_region 0xc0000000 3 (Some [1, 2, 3]) ?st = Some (CO_RC_OK, st)"
  proof -
    have page: "pfn_group 0xc0000000 = 768" "pfn_index 0xc0000000 = 0" by (simp_all add: page_group_index)
    have "co_monitor_get_pfn ?st 0xc0000000 = Inr 5" by (simp add: co_monitor_get_pfn_def page_group_index demo_mapped_def demo_pages_def)
    moreover have "co_monitor_alloc_and_map_page 0xc0000000 ?st = Some (CO_RC_OK, ?st)"
      by (simp add: co_monitor_alloc_and_map_page_def alloc_group_def page demo_mapped_def demo_pages_def)
    moreover have "part_size 0xc0000000 3 = 3" by code_simp
    ultimately show ?thesis
      by (intro that) (simp add: co_monitor_copy_region_def co_split_by_pages_and_callback.simps copy_region_split_callback_def CO_OK_def
        in_page_def CO_ARCH_PAGE_MASK_def CO_ARCH_PAGE_SIZE_def page_write_def)
  qed
  then obtain g' where g': "load_initrd 3 [1, 2, 3] ?g = Some (CO_RC_OK, g')"
    using place by (simp add: load_initrd_def CO_OK_def Let_def)
  then show "\<exists>g'. load_initrd 3 [1, 2, 3] ?g = Some (CO_RC_OK, g') \<and> initrd_size g' = 3 \<and> 0xbff00000 < unat (initrd_address g') \<and>
      unat (initrd_address g') + 3 < 0xc0001000"
    using load_initrd_fits [OF g'] by (auto simp: CO_ARCH_KERNEL_OFFSET_def demo_mapped_def demo_pages_def)
qed

end
