(* ===== verification/Spec2Isabelle.thy ===== *)
theory Spec2Isabelle
  imports Ret_Code Co_Libc Co_List Co_Queue Co_Modules Module_Repr Co_Snprintf Co_Messages
    Co_Console Co_Block Co_Pci Co_Pages Page_Invariant Page_Transfer Page_Mapping
    Co_Unicode Co_Debug Debug_Log Debug_Records
    Co_Manager Manager_Refs Manager_Close Manager_Run
    Guest_Messages Co_Cmdline Cmdline_Params Config_Values Config Config_Safety Config_File Config_Console
    Cofs Cofs_Requests Cofs_Tree Cofs_Inodes Cofs_Paths
    Guest_Devices Guest_Run Guest_Life Guest_Clock Guest_Screen Guest_End
begin

text \<open>
  Cooperative Linux (coLinux) runs a Linux kernel next to the host's. This development models the
  core of the program and proves what makes it correct. A theory reads like the source file it
  names: a structure is a record, an enumeration a datatype, a function a definition of the same
  name with the guards, the order and the early returns of the code.

  \<^bold>\<open>The program.\<close> A driver on the host (\<open>src/colinux/kernel\<close>) keeps one \<^emph>\<open>monitor\<close> for each
  guest: it owns the memory of the guest, switches to it, and serves its requests for devices. The
  \<^emph>\<open>manager\<close> of the driver owns the monitors and the open handles of the daemons, which attach to
  a monitor as \<^emph>\<open>modules\<close> and exchange messages with the guest. The daemons
  (\<open>src/colinux/user\<close>) read the command line and the configuration and start the guest. What both
  sides share is in \<open>src/colinux/common\<close>; the constants and structures shared with the kernel of
  the guest are in \<open>patch/base-2.6.33.diff\<close>.

  \<^bold>\<open>Conventions\<close> (\<open>Co_Prelude\<close>). The target is i386: \<open>int\<close>, \<open>long\<close> and pointers have 32 bits
  (the words of \<open>Co_Prelude\<close>, which wrap around; a signed value is an \<open>int\<close> where its overflow is
  excluded or modelled). An array is a list whose length is the size of the object. An access
  outside an object, a use of a freed object and a missing terminator make the result
  \<^term>\<open>None\<close>, so that a theorem that a function returns \<^term>\<open>Some\<close> excludes them; return codes
  (\<open>Ret_Code\<close>) are the values \<open>CO_RC_...\<close>. The outcome of an allocation, of a call of the host and
  of a file is an argument or an answer in the state, so that every error path is reachable.

  \<^bold>\<open>Theories and sources.\<close>
  \<^item> \<open>Ret_Code\<close> (\<open>common_base.h\<close>): the packed return codes. \<open>Co_Libc\<close> (\<open>libc.c\<close>, \<open>common.h\<close>):
    string functions and the 64 by 32 bit division, with its equivalence to \<open>div\<close> and \<open>mod\<close>.
    \<open>Co_Snprintf\<close> (\<open>snprintf.c\<close>): the formatter as a machine of states over the format, with what
    it writes and never writes. \<open>Co_Unicode\<close> (\<open>unicode.c\<close>): UTF-8 in both directions.
  \<^item> \<open>Co_List\<close> (\<open>list.h\<close>): intrusive rings on a heap of links; the locale \<open>linked_list\<close> states
    that they implement lists. \<open>Co_Queue\<close> (\<open>queue.c\<close>) rests on it; the locale \<open>fifo_queue\<close> gives first in,
    first out. \<open>Co_Modules\<close>, \<open>Module_Repr\<close>, \<open>Co_Messages\<close> (\<open>messages.c\<close>, \<open>module_repr.c\<close>):
    modules and the queueing of messages on every outcome of the allocations.
  \<^item> \<open>Co_Console\<close> (\<open>console.c\<close>): the text console, as an array of cells with a screen in it; every
    message, the region each one changes and the invariant that the screen stays in the buffer.
  \<^item> \<open>Co_Block\<close> (\<open>kernel/block.c\<close>, \<open>fileblock.c\<close>): the requests for block devices; the locale
    \<open>block_service\<close> is the contract between the dispatcher and a device, interpreted on the device
    backed by a file. \<open>Co_Pci\<close> (\<open>kernel/pci.c\<close>): the virtual bus.
  \<^item> \<open>Co_Pages\<close> (\<open>kernel/pages.c\<close>, \<open>reversedpfns.c\<close>, \<open>transfer.c\<close> and the memory functions of
    \<open>monitor.c\<close>): the table of the guest's pages and the copies into them. \<open>Page_Invariant\<close> has the
    locale \<open>split_callback\<close>, the contract of the functions called for every part of an area that lies in one
    page, and the invariant that no page of the host is lost or used twice;
    \<open>Page_Transfer\<close> the functional behaviour of the copies, \<open>Page_Mapping\<close> that of mapping one page and of
    giving all of them back.
  \<^item> \<open>Co_Manager\<close> (\<open>kernel/manager.c\<close>, and of \<open>monitor.c\<close> what creates and ends a monitor):
    descriptors, monitors, reference counts, sending. \<open>Manager_Refs\<close> states the invariant of the
    reference counts, \<open>Manager_Close\<close> that closing keeps it (locale \<open>closing_call\<close>, since closing calls itself through
    the messages that tell of the end of a monitor), \<open>Manager_Run\<close> that every sequence of
    handlers keeps it and that nothing is left at the end. \<open>Guest_Messages\<close> (\<open>monitor.c\<close>): the
    messages to the guest through the I/O area, and how the guest reads them.
  \<^item> \<open>Co_Debug\<close>, \<open>Debug_Log\<close>, \<open>Debug_Records\<close> (\<open>common/debug.c\<close>, \<open>kernel/debug.c\<close>,
    \<open>user/debug/main.c\<close>): the log of the driver, the abstract log it refines, and the way of a
    record to the debug daemon.
  \<^item> \<open>Co_Cmdline\<close>, \<open>Cmdline_Params\<close> (\<open>user/cmdline.c\<close>): the expansion of the command line by
    parameter files, against a reference tokenizer, and the functions that take parameters out of it.
    \<open>Config_Values\<close>, \<open>Config\<close> (\<open>user/config.c\<close>, \<open>macaddress.c\<close>): the values of the settings and
    their parser. \<open>Config_Safety\<close> has the locale \<open>setting_group\<close>, the contract between the loop over
    indexed settings and the device of each group, and the safety of the whole parser; \<open>Config_File\<close>
    follows a configuration file through both; \<open>Config_Console\<close> has the console and its colours.
  \<^item> \<open>Cofs\<close>, \<open>Cofs_Requests\<close> (\<open>kernel/filesystem.c\<close>, \<open>os/winnt/kernel/filesystem.c\<close>): the inodes
    of the directories exported to the guest, and its requests for them. \<open>Cofs_Tree\<close> states which
    tree the rings and tables of a heap of inodes represent and follows the deletion of a subtree
    through it, six levels at a time; \<open>Cofs_Inodes\<close> has what an operation does to the tree,
    \<open>Cofs_Paths\<close> the files of the host it reaches.
  \<^item> \<open>Guest_Devices\<close>, \<open>Guest_Run\<close> (\<open>kernel/monitor.c\<close>, \<open>monitor.h\<close>, \<open>scsi.c\<close>): a guest with its devices, memory, clock, passage
    page and console, the requests for its devices, the loop that switches to it, loading,
    starting and resetting it, and the requests of daemons (\<open>co_monitor_ioctl\<close>). \<open>Guest_Life\<close> has the sequences of
    requests, ticks of the timer and messages of users as an inductive relation, with the invariant of the timer and what is
    left of a guest that has ended; \<open>Guest_Clock\<close> the jiffies it is told, \<open>Guest_Screen\<close> what a daemon sees
    of the console, \<open>Guest_End\<close> what it reads of the end, and the place of the RAM disk.

  \<^bold>\<open>What the lemmas show.\<close> Each component has the functional behaviour of its operations, errors
  included; the invariants of its state, kept by every operation and so by every sequence of them;
  round trips where data is packed, printed or queued; and the bounds of its arrays. Properties
  that fail are theorems as well: they name the input that makes the code write outside an object,
  lose data or leak, and the manifest lists them as findings.

  \<^bold>\<open>Bounds and fuel.\<close> Loops are recursive functions that are proved to terminate; the loop over a
  ring (\<open>co_list_each\<close>) and that over the inodes to delete (\<open>free_rounds\<close>) are a
  \<open>partial_function\<close>, whose value on a well-formed ring and on a tree of inodes is proved. The loop
  that switches to the guest (\<open>run_loop\<close>) is one too: it goes on for as long as the guest asks for nothing a
  daemon has to do, so nothing is claimed about its end, and the properties of the life of a guest are
  invariants of what is reached when it does end.
  Only \<open>co_manager_close\<close> has a depth, for the calls of itself through the end messages: the handlers are proved to
  end with any depth above the number of references that are left, which every nested call decreases.

  \<^bold>\<open>Not modelled.\<close> The switch between the kernels (\<open>arch/i386/passage.c\<close>) is machine code, and any
  function of the guest in the model (\<open>host_switch\<close>), as is what happens while the driver sleeps; video devices are left out. The
  layers for Linux and Windows hosts are calls of the host's system interface; SLIRP and the TAP
  driver are third-party code; the front ends of the console are user interface code in C++. Mutual
  exclusion is taken from the locks of the code: an operation between acquiring and releasing a lock is one
  step. Debugging output is left out.
\<close>

end
